(* ===== verification/Prelude.thy ===== *)
theory Prelude
  imports Main "HOL-Library.Word" "HOL-Library.Product_Lexorder" "HOL-Library.Code_Target_Numeral" "HOL-Library.Multiset"
begin

text \<open>
  Shared material of the development: the model of Go byte strings, of contexts that may be
  cancelled at any poll, of functions that may fail and mutate a state, and the rules by which
  invariants of such functions are proved.

  A Go function that returns an error and mutates a receiver becomes a function from the state
  to a pair of a sum (\<open>Inl\<close> the error) and the new state. The new state is returned on the
  error path as well, because a caller may recover from an error and go on.
\<close>

section \<open>Go integers and byte strings\<close>

text \<open>
  A Go \<open>string\<close> or \<open>[]byte\<close> is a list of bytes, here a list of \<open>char\<close> (the 8-bit
  characters of HOL); \<open>byte_of\<close> is the numeric value of a byte. Positions and lengths are
  \<open>nat\<close>, configured limits (which may be negative on input) are \<open>int\<close>.
\<close>

abbreviation byte_of :: "char \<Rightarrow> nat" where
  "byte_of c \<equiv> of_char c"

abbreviation byte :: "nat \<Rightarrow> char" where
  "byte n \<equiv> char_of n"

lemma byte_of_inj: "byte_of c = byte_of d \<longleftrightarrow> c = d"
  by (metis of_char_eq_iff)

text \<open>The conversion \<open>int32(n)\<close> of a nonnegative Go \<open>int\<close>: two's complement truncation.\<close>

definition int32 :: "nat \<Rightarrow> int" where
  "int32 n = sint (word_of_nat n :: 32 word)"

lemma int32_id: "n < 2147483648 \<Longrightarrow> int32 n = int n"
  by (simp add: int32_def signed_of_nat signed_take_bit_int_eq_self)

text \<open>The largest Go \<open>int\<close> on the supported 64-bit targets, \<open>int(^uint(0) >> 1)\<close>.\<close>

definition max_int :: int where
  "max_int = 9223372036854775807"

text \<open>\<open>slice b i j\<close> is Go's \<open>b[i:j]\<close> for \<open>i \<le> j \<le> len(b)\<close>.\<close>

definition slice :: "'a list \<Rightarrow> nat \<Rightarrow> nat \<Rightarrow> 'a list" where
  "slice b i j = take (j - i) (drop i b)"

lemma length_slice [simp]: "j \<le> length b \<Longrightarrow> length (slice b i j) = j - i"
  by (simp add: slice_def)

lemma slice_full [simp]: "slice b 0 (length b) = b"
  by (simp add: slice_def)

lemma slice_to_end: "slice b i (length b) = drop i b"
  by (simp add: slice_def)

lemma slice_empty [simp]: "slice b i i = []"
  by (simp add: slice_def)

lemma slice_append: "i \<le> j \<Longrightarrow> j \<le> k \<Longrightarrow> slice b i j @ slice b j k = slice b i k"
proof -
  assume a: "i \<le> j" "j \<le> k"
  have "slice b i k = take ((j - i) + (k - j)) (drop i b)"
    using a by (simp add: slice_def)
  also have "\<dots> = take (j - i) (drop i b) @ take (k - j) (drop (j - i) (drop i b))"
    by (rule take_add)
  also have "\<dots> = slice b i j @ slice b j k"
    using a by (simp add: slice_def)
  finally show ?thesis by simp
qed

lemma slice_nth: "i \<le> n \<Longrightarrow> n < j \<Longrightarrow> j \<le> length b \<Longrightarrow> slice b i j ! (n - i) = b ! n"
  by (simp add: slice_def)

lemma slice_Cons: "i < j \<Longrightarrow> i < length b \<Longrightarrow> slice b i j = b ! i # slice b (Suc i) j"
proof -
  assume a: "i < j" "i < length b"
  then have "drop i b = b ! i # drop (Suc i) b" by (simp add: Cons_nth_drop_Suc)
  moreover have "j - i = Suc (j - Suc i)" using a by simp
  ultimately show ?thesis by (simp add: slice_def)
qed

section \<open>Functions that fail and mutate a state\<close>

type_synonym ('e, 's, 'a) res = "('e + 'a) \<times> 's"
type_synonym ('e, 's, 'a) M = "'s \<Rightarrow> ('e, 's, 'a) res"

definition ret :: "'a \<Rightarrow> ('e, 's, 'a) M" where
  "ret x s = (Inr x, s)"

definition fail :: "'e \<Rightarrow> ('e, 's, 'a) M" where
  "fail e s = (Inl e, s)"

definition bind :: "('e, 's, 'a) M \<Rightarrow> ('a \<Rightarrow> ('e, 's, 'b) M) \<Rightarrow> ('e, 's, 'b) M" where
  "bind m f s = (case m s of (Inl e, s') \<Rightarrow> (Inl e, s') | (Inr x, s') \<Rightarrow> f x s')"

abbreviation seq :: "('e, 's, 'a) M \<Rightarrow> ('e, 's, 'b) M \<Rightarrow> ('e, 's, 'b) M" where
  "seq m m' \<equiv> bind m (\<lambda>_. m')"

definition get_state :: "('e, 's, 's) M" where
  "get_state s = (Inr s, s)"

definition gets :: "('s \<Rightarrow> 'a) \<Rightarrow> ('e, 's, 'a) M" where
  "gets f s = (Inr (f s), s)"

definition modify :: "('s \<Rightarrow> 's) \<Rightarrow> ('e, 's, unit) M" where
  "modify f s = (Inr (), f s)"

text \<open>\<open>fail_if b e\<close> is the early return \<open>if b { return e }\<close>.\<close>

definition fail_if :: "bool \<Rightarrow> 'e \<Rightarrow> ('e, 's, unit) M" where
  "fail_if b e = (if b then fail e else ret ())"

definition lift_res :: "'e + 'a \<Rightarrow> ('e, 's, 'a) M" where
  "lift_res r s = (r, s)"

text \<open>\<open>finally_do m f\<close> runs \<open>f\<close> on the state on both exits, as code between a call and the check of
  its error does.\<close>

definition finally_do :: "('e, 's, 'a) M \<Rightarrow> ('s \<Rightarrow> 's) \<Rightarrow> ('e, 's, 'a) M" where
  "finally_do m f s = (case m s of (r, t) \<Rightarrow> (r, f t))"

text \<open>A loop \<open>for _, x := range xs { if err := f(x); err != nil { return err } }\<close>.\<close>

fun for_each :: "'a list \<Rightarrow> ('a \<Rightarrow> ('e, 's, unit) M) \<Rightarrow> ('e, 's, unit) M" where
  "for_each [] f = ret ()"
| "for_each (x # xs) f = seq (f x) (for_each xs f)"

text \<open>The same loop collecting one result per element.\<close>

fun map_each :: "'a list \<Rightarrow> ('a \<Rightarrow> ('e, 's, 'b) M) \<Rightarrow> ('e, 's, 'b list) M" where
  "map_each [] f = ret []"
| "map_each (x # xs) f = bind (f x) (\<lambda>y. bind (map_each xs f) (\<lambda>ys. ret (y # ys)))"

lemmas monad_defs = ret_def fail_def bind_def get_state_def gets_def modify_def fail_if_def lift_res_def

lemma bind_cong [fundef_cong]:
  assumes "m s = m' s'" and "s = s'"
    and "\<And>x t. m' s' = (Inr x, t) \<Longrightarrow> f x t = f' x t"
  shows "bind m f s = bind m' f' s'"
  using assms by (auto simp: bind_def split: prod.splits sum.splits)

lemma for_each_cong [fundef_cong]:
  assumes "xs = ys" and "\<And>x. x \<in> set ys \<Longrightarrow> f x = g x"
  shows "for_each xs f = for_each ys g"
  unfolding assms(1) using assms(2) by (induction ys) auto

lemma bind_Inr_iff: "bind m f s = (Inr y, t) \<longleftrightarrow> (\<exists>x u. m s = (Inr x, u) \<and> f x u = (Inr y, t))"
  by (auto simp: bind_def split: prod.splits sum.splits)

lemma bind_Inl_iff:
  "bind m f s = (Inl e, t) \<longleftrightarrow>
     m s = (Inl e, t) \<or> (\<exists>x u. m s = (Inr x, u) \<and> f x u = (Inl e, t))"
  by (auto simp: bind_def split: prod.splits sum.splits)

lemma finally_do_iff: "finally_do m f s = (r, t) \<longleftrightarrow> (\<exists>u. m s = (r, u) \<and> t = f u)"
  by (auto simp: finally_do_def split: prod.splits)

lemma finally_do_cong [fundef_cong]:
  "m s = m' s' \<Longrightarrow> s = s' \<Longrightarrow> f = f' \<Longrightarrow> finally_do m f s = finally_do m' f' s'"
  by (simp add: finally_do_def)

lemma ret_iff [simp]: "ret x s = (Inr y, t) \<longleftrightarrow> y = x \<and> t = s"
  by (auto simp: ret_def)

lemma ret_not_Inl [simp]: "ret x s = (Inl e, t) \<longleftrightarrow> False"
  by (simp add: ret_def)

lemma fail_iff [simp]: "fail e s = (Inl e', t) \<longleftrightarrow> e' = e \<and> t = s"
  by (auto simp: fail_def)

lemma fail_not_Inr [simp]: "fail e s = (Inr y, t) \<longleftrightarrow> False"
  by (simp add: fail_def)

lemma gets_iff [simp]: "gets f s = (Inr y, t) \<longleftrightarrow> y = f s \<and> t = s"
  by (auto simp: gets_def)

lemma gets_not_Inl [simp]: "gets f s = (Inl e, t) \<longleftrightarrow> False"
  by (simp add: gets_def)

lemma get_state_iff [simp]: "get_state s = (Inr y, t) \<longleftrightarrow> y = s \<and> t = s"
  by (auto simp: get_state_def)

lemma get_state_not_Inl [simp]: "get_state s = (Inl e, t) \<longleftrightarrow> False"
  by (simp add: get_state_def)

lemma modify_iff [simp]: "modify f s = (Inr y, t) \<longleftrightarrow> t = f s"
  by (auto simp: modify_def)

lemma modify_not_Inl [simp]: "modify f s = (Inl e, t) \<longleftrightarrow> False"
  by (simp add: modify_def)

lemma fail_if_Inr [simp]: "fail_if b e s = (Inr y, t) \<longleftrightarrow> \<not> b \<and> t = s"
  by (auto simp: fail_if_def)

lemma fail_if_Inl [simp]: "fail_if b e s = (Inl e', t) \<longleftrightarrow> b \<and> e' = e \<and> t = s"
  by (auto simp: fail_if_def)

lemma lift_res_iff [simp]: "lift_res r s = (q, t) \<longleftrightarrow> r = q \<and> t = s"
  by (auto simp: lift_res_def)

text \<open>A loop that collects results, when the result of each round is known.\<close>

lemma map_each_result:
  assumes "map_each xs f s = (Inr ys, t)"
    and "\<And>x u y v. x \<in> set xs \<Longrightarrow> f x u = (Inr y, v) \<Longrightarrow> P x \<and> y = g x"
  shows "(\<forall>x \<in> set xs. P x) \<and> ys = map g xs"
  using assms
proof (induction xs arbitrary: s ys)
  case (Cons x xs)
  from Cons.prems(1) obtain y u zs where y: "f x s = (Inr y, u)" and zs: "map_each xs f u = (Inr zs, t)"
    and ys: "ys = y # zs" by (auto simp: bind_Inr_iff)
  have "(\<forall>x \<in> set xs. P x) \<and> zs = map g xs"
    by (rule Cons.IH [OF zs]) (rule Cons.prems(2), auto)
  moreover have "P x \<and> y = g x" by (rule Cons.prems(2) [OF _ y]) simp
  ultimately show ?case using ys by simp
qed simp

lemma map_each_total:
  assumes "\<And>x u. x \<in> set xs \<Longrightarrow> \<exists>v. f x u = (Inr (g x), v)"
  shows "\<exists>t. map_each xs f s = (Inr (map g xs), t)"
  using assms
proof (induction xs arbitrary: s)
  case (Cons x xs)
  obtain v where v: "f x s = (Inr (g x), v)" using Cons.prems by (meson list.set_intros(1))
  obtain t where "map_each xs f v = (Inr (map g xs), t)"
    using Cons.IH [of v] Cons.prems by (meson list.set_intros(2))
  with v show ?case by (auto simp: bind_def ret_def)
qed (simp add: ret_def)

subsection \<open>Triples\<close>

text \<open>
  \<open>valid P m Q E\<close>: from a state satisfying \<open>P\<close>, a normal return of \<open>m\<close> satisfies
  \<open>Q\<close> and an error return satisfies \<open>E\<close>. The rules below decompose a function along its
  structure; \<open>wp\<close> collects them with the rules the components add for their operations.
\<close>

definition valid ::
  "('s \<Rightarrow> bool) \<Rightarrow> ('e, 's, 'a) M \<Rightarrow> ('a \<Rightarrow> 's \<Rightarrow> bool) \<Rightarrow> ('e \<Rightarrow> 's \<Rightarrow> bool) \<Rightarrow> bool" where
  "valid P m Q E \<longleftrightarrow>
     (\<forall>s. P s \<longrightarrow> (\<forall>x t. m s = (Inr x, t) \<longrightarrow> Q x t) \<and> (\<forall>e t. m s = (Inl e, t) \<longrightarrow> E e t))"

text \<open>\<open>keeps I m\<close>: the invariant \<open>I\<close> survives \<open>m\<close> on both exits.\<close>

definition keeps :: "('s \<Rightarrow> bool) \<Rightarrow> ('e, 's, 'a) M \<Rightarrow> bool" where
  "keeps I m \<longleftrightarrow> valid I m (\<lambda>_. I) (\<lambda>_. I)"

named_theorems keeps_rules "operations that preserve an invariant"

lemma validI:
  assumes "\<And>s x t. P s \<Longrightarrow> m s = (Inr x, t) \<Longrightarrow> Q x t"
    and "\<And>s e t. P s \<Longrightarrow> m s = (Inl e, t) \<Longrightarrow> E e t"
  shows "valid P m Q E"
  unfolding valid_def using assms by blast

lemma valid_Inr: "valid P m Q E \<Longrightarrow> P s \<Longrightarrow> m s = (Inr x, t) \<Longrightarrow> Q x t"
  by (auto simp: valid_def)

lemma valid_Inl: "valid P m Q E \<Longrightarrow> P s \<Longrightarrow> m s = (Inl e, t) \<Longrightarrow> E e t"
  by (auto simp: valid_def)

lemma valid_bind:
  assumes "valid P m R E" and "\<And>x. valid (R x) (f x) Q E"
  shows "valid P (bind m f) Q E"
proof (rule validI)
  fix s y t assume "P s" "bind m f s = (Inr y, t)"
  then obtain x u where p: "P s" and mx: "m s = (Inr x, u)" and fx: "f x u = (Inr y, t)"
    by (auto simp: bind_Inr_iff)
  from p mx have "R x u" by (rule valid_Inr [OF assms(1)])
  then show "Q y t" using fx by (rule valid_Inr [OF assms(2)])
next
  fix s e t assume p: "P s" and "bind m f s = (Inl e, t)"
  then consider "m s = (Inl e, t)" | x u where "m s = (Inr x, u)" "f x u = (Inl e, t)"
    by (auto simp: bind_Inl_iff)
  then show "E e t"
  proof cases
    case 1
    with p show ?thesis by (rule valid_Inl [OF assms(1)])
  next
    case 2
    from p 2(1) have "R x u" by (rule valid_Inr [OF assms(1)])
    then show ?thesis using 2(2) by (rule valid_Inl [OF assms(2)])
  qed
qed

lemma valid_weaken:
  assumes "valid P' m Q' E'" and "\<And>s. P s \<Longrightarrow> P' s"
    and "\<And>x s. Q' x s \<Longrightarrow> Q x s" and "\<And>e s. E' e s \<Longrightarrow> E e s"
  shows "valid P m Q E"
proof (rule validI)
  fix s x t assume "P s" and m: "m s = (Inr x, t)"
  from assms(2) [OF this(1)] m have "Q' x t" by (rule valid_Inr [OF assms(1)])
  then show "Q x t" by (rule assms(3))
next
  fix s e t assume "P s" and m: "m s = (Inl e, t)"
  from assms(2) [OF this(1)] m have "E' e t" by (rule valid_Inl [OF assms(1)])
  then show "E e t" by (rule assms(4))
qed

lemma keepsI:
  assumes "\<And>s x t. I s \<Longrightarrow> m s = (Inr x, t) \<Longrightarrow> I t"
    and "\<And>s e t. I s \<Longrightarrow> m s = (Inl e, t) \<Longrightarrow> I t"
  shows "keeps I m"
  unfolding keeps_def by (rule validI) (fact assms)+

lemma keepsD: "keeps I m \<Longrightarrow> I s \<Longrightarrow> m s = (r, t) \<Longrightarrow> I t"
  by (cases r) (metis keeps_def valid_Inl, metis keeps_def valid_Inr)

lemma keeps_ret [keeps_rules, intro!]: "keeps I (ret x)"
  by (rule keepsI) auto

lemma keeps_fail [keeps_rules, intro!]: "keeps I (fail e)"
  by (rule keepsI) auto

lemma keeps_gets [keeps_rules, intro!]: "keeps I (gets f)"
  by (rule keepsI) auto

lemma keeps_get_state [keeps_rules, intro!]: "keeps I get_state"
  by (rule keepsI) auto

lemma keeps_fail_if [keeps_rules, intro!]: "keeps I (fail_if b e)"
  by (rule keepsI) auto

lemma keeps_lift_res [keeps_rules, intro!]: "keeps I (lift_res r)"
  by (rule keepsI) auto

lemma keeps_modify [keeps_rules]: "(\<And>s. I s \<Longrightarrow> I (f s)) \<Longrightarrow> keeps I (modify f)"
  by (rule keepsI) auto

lemma keeps_bind [keeps_rules]:
  assumes "keeps I m" and "\<And>x. keeps I (f x)"
  shows "keeps I (bind m f)"
  unfolding keeps_def
  by (rule valid_bind [OF assms(1) [unfolded keeps_def] assms(2) [unfolded keeps_def]])

lemma keeps_finally_do [keeps_rules]:
  assumes "keeps I m" and "\<And>s. I s \<Longrightarrow> I (f s)"
  shows "keeps I (finally_do m f)"
  by (rule keepsI) (auto simp: finally_do_iff intro: assms(2) keepsD [OF assms(1)])

lemma keeps_for_each [keeps_rules]:
  assumes "\<And>x. x \<in> set xs \<Longrightarrow> keeps I (f x)"
  shows "keeps I (for_each xs f)"
  using assms by (induction xs) (simp_all add: keeps_ret keeps_bind)

lemma keeps_map_each [keeps_rules]:
  assumes "\<And>x. x \<in> set xs \<Longrightarrow> keeps I (f x)"
  shows "keeps I (map_each xs f)"
  using assms by (induction xs) (simp_all add: keeps_ret keeps_bind)

lemma keeps_if [keeps_rules]:
  assumes "b \<Longrightarrow> keeps I m" and "\<not> b \<Longrightarrow> keeps I m'"
  shows "keeps I (if b then m else m')"
  using assms by simp

lemma keeps_conj: "keeps I m \<Longrightarrow> keeps J m \<Longrightarrow> keeps (\<lambda>s. I s \<and> J s) m"
  by (rule keepsI) (blast dest: keepsD)+

text \<open>\<open>fails_only E m\<close>: whatever the state, \<open>m\<close> fails with an error of \<open>E\<close> only.\<close>

definition fails_only :: "'e set \<Rightarrow> ('e, 's, 'a) M \<Rightarrow> bool" where
  "fails_only E m \<longleftrightarrow> (\<forall>s e t. m s = (Inl e, t) \<longrightarrow> e \<in> E)"

named_theorems fails_rules "operations that fail with given errors only"

lemma fails_onlyI: "(\<And>s e t. m s = (Inl e, t) \<Longrightarrow> e \<in> E) \<Longrightarrow> fails_only E m"
  by (simp add: fails_only_def)

lemma fails_onlyD: "fails_only E m \<Longrightarrow> m s = (Inl e, t) \<Longrightarrow> e \<in> E"
  unfolding fails_only_def by blast

lemma fails_only_bind [fails_rules]:
  assumes "fails_only E m" and "\<And>x. fails_only E (f x)"
  shows "fails_only E (bind m f)"
  by (rule fails_onlyI) (auto simp: bind_Inl_iff dest: assms(1) [THEN fails_onlyD] assms(2) [THEN fails_onlyD])

lemma fails_only_basic [fails_rules]:
  "fails_only E (ret x)" "fails_only E (gets f)" "fails_only E get_state" "fails_only E (modify g)"
  by (auto simp: fails_only_def)

lemma fails_only_fail [fails_rules]: "e \<in> E \<Longrightarrow> fails_only E (fail e)"
  by (auto simp: fails_only_def)

lemma fails_only_fail_if [fails_rules]: "(b \<Longrightarrow> e \<in> E) \<Longrightarrow> fails_only E (fail_if b e)"
  by (auto simp: fails_only_def)

lemma fails_only_if [fails_rules]:
  "(b \<Longrightarrow> fails_only E m) \<Longrightarrow> (\<not> b \<Longrightarrow> fails_only E m') \<Longrightarrow> fails_only E (if b then m else m')"
  by simp

lemma fails_only_finally_do [fails_rules]: "fails_only E m \<Longrightarrow> fails_only E (finally_do m f)"
  by (auto simp: fails_only_def finally_do_iff)

lemma fails_only_for_each [fails_rules]:
  "(\<And>x. x \<in> set xs \<Longrightarrow> fails_only E (f x)) \<Longrightarrow> fails_only E (for_each xs f)"
  by (induction xs) (simp_all add: fails_rules)

section \<open>Contexts\<close>

text \<open>
  A \<open>context.Context\<close> may be cancelled, or reach its deadline, at any moment. The model
  numbers the polls (\<open>ctx.Err()\<close> or a receive on \<open>ctx.Done()\<close>) of one computation; a
  context answers each poll with no error or with its error. The state of a function that
  only polls is the number of polls made so far.
\<close>

datatype ctx_error = Canceled | DeadlineExceeded

type_synonym ctx = "nat \<Rightarrow> ctx_error option"

definition background :: ctx where
  "background = (\<lambda>_. None)"

text \<open>\<open>if ctx == nil { ctx = context.Background() }\<close>\<close>

definition or_background :: "ctx option \<Rightarrow> ctx" where
  "or_background c = (case c of None \<Rightarrow> background | Some c \<Rightarrow> c)"

lemma background_None: "background n = None"
  by (simp add: background_def)

lemma or_background_simps [simp]: "or_background None = background" "or_background (Some c) = c"
  by (simp_all add: or_background_def)

section \<open>Capacity growth\<close>

text \<open>
  \<open>nextRetainedCapacity\<close> of \<open>payload/jsonscan.go\<close> and \<open>nextTreeCapacity\<close> of
  \<open>walker/tree.go\<close> are the same function: start at 16 and double until the requirement fits.
\<close>

function double_until :: "nat \<Rightarrow> nat \<Rightarrow> nat" where
  "double_until current required =
     (if 0 < current \<and> current < required then double_until (2 * current) required else current)"
  by pat_completeness auto
termination
  by (relation "measure (\<lambda>(current, required). required - current)") auto

declare double_until.simps [simp del]

definition next_capacity :: "nat \<Rightarrow> nat \<Rightarrow> nat" where
  "next_capacity current required = double_until (if current = 0 then 16 else current) required"

lemma double_until_ge: "0 < current \<Longrightarrow> required \<le> double_until current required \<and> current \<le> double_until current required"
proof (induction current required rule: double_until.induct)
  case (1 current required)
  show ?case
  proof (cases "current < required")
    case True
    with "1.IH" "1.prems" have "required \<le> double_until (2 * current) required \<and>
        2 * current \<le> double_until (2 * current) required" by simp
    with True "1.prems" show ?thesis by (simp add: double_until.simps [of current])
  next
    case False
    then show ?thesis by (simp add: double_until.simps [of current])
  qed
qed

lemma double_until_power: "0 < current \<Longrightarrow> \<exists>k. double_until current required = current * 2 ^ k"
proof (induction current required rule: double_until.induct)
  case (1 current required)
  show ?case
  proof (cases "current < required")
    case True
    with "1.IH" "1.prems" obtain k where "double_until (2 * current) required = 2 * current * 2 ^ k"
      by auto
    with True "1.prems" have "double_until current required = current * 2 ^ Suc k"
      by (simp add: double_until.simps [of current])
    then show ?thesis by blast
  next
    case False
    then have "double_until current required = current * 2 ^ 0"
      by (simp add: double_until.simps [of current])
    then show ?thesis by blast
  qed
qed

lemma double_until_less: "0 < current \<Longrightarrow> current < required \<Longrightarrow> double_until current required < 2 * required"
proof (induction current required rule: double_until.induct)
  case (1 current required)
  show ?case
  proof (cases "2 * current < required")
    case True
    with "1.IH" "1.prems" show ?thesis by (simp add: double_until.simps [of current])
  next
    case False
    then have "double_until (2 * current) required = 2 * current"
      by (simp add: double_until.simps [of "2 * current"])
    with "1.prems" show ?thesis by (simp add: double_until.simps [of current])
  qed
qed

lemma next_capacity_ge [simp]: "required \<le> next_capacity current required"
  by (simp add: next_capacity_def double_until_ge)

lemma next_capacity_grows [simp]: "current \<le> next_capacity current required"
  using double_until_ge [of current required] by (cases "current = 0") (auto simp: next_capacity_def)

lemma next_capacity_bound: "next_capacity n (Suc n) \<le> max 16 (2 * Suc n)"
  using double_until_less [of n "Suc n"]
  by (cases "n = 0") (auto simp: next_capacity_def double_until.simps [of 16])

section \<open>Lists\<close>

lemma sorted_wrt_snoc:
  "sorted_wrt R (xs @ [x]) \<longleftrightarrow> sorted_wrt R xs \<and> (\<forall>y \<in> set xs. R y x)"
  by (simp add: sorted_wrt_append)

lemma nth_snoc_less: "i < length xs \<Longrightarrow> (xs @ [x]) ! i = xs ! i"
  by (simp add: nth_append)

end
