(* ===== verification/Payload_Types.thy ===== *)
theory Payload_Types
  imports Prelude
begin

text \<open>
  The data of package \<open>payload\<close> (\<open>payload/payload.go\<close>): sentinel errors, JSON kinds, spans,
  typed paths, limits with their normalisation, string tokens and documents. The numbers and
  texts that Go formats into an error message are not part of the model, except the byte
  offset and the reason of an invalid document.
\<close>

section \<open>Errors\<close>

text \<open>
  One constructor per sentinel error; wrapping with \<open>%w\<close> keeps the sentinel. \<open>CtxErr\<close> is
  the error of a cancelled context. \<open>OutOfFuel\<close> is no error of the program: the recursive
  descent of the scanner carries a fuel in the model, and \<open>Scanner\<close> proves that the fuel it
  starts with always suffices.
\<close>

datatype payload_error =
    InvalidJSON nat string
  | RootNotObject
  | BodyTooLarge
  | DepthLimit
  | NodeLimit
  | StructuralLimit
  | StringTooLarge
  | ReplacementLimit
  | OverlappingReplacements
  | InvalidToken
  | PathNotFound
  | PathAmbiguous
  | InvalidLimits
  | CtxErr ctx_error
  | OutOfFuel

text \<open>\<open>ctx.Err()\<close> followed by an early return, and the receive on \<open>ctx.Done()\<close>.\<close>

definition poll :: "ctx \<Rightarrow> (payload_error, nat, unit) M" where
  "poll c n = (case c n of None \<Rightarrow> (Inr (), Suc n) | Some e \<Rightarrow> (Inl (CtxErr e), Suc n))"

lemma poll_Inr_iff [simp]: "poll c n = (Inr u, m) \<longleftrightarrow> c n = None \<and> m = Suc n"
  by (auto simp: poll_def split: option.splits)

lemma poll_Inl_iff [simp]: "poll c n = (Inl e, m) \<longleftrightarrow> (\<exists>d. c n = Some d \<and> e = CtxErr d) \<and> m = Suc n"
  by (auto simp: poll_def split: option.splits)

section \<open>Kinds, spans, paths\<close>

datatype kind =
  KindInvalid | KindObject | KindArray | KindString | KindNumber | KindBoolean | KindNull

fun kind_string :: "kind \<Rightarrow> string" where
  "kind_string KindObject = ''object''"
| "kind_string KindArray = ''array''"
| "kind_string KindString = ''string''"
| "kind_string KindNumber = ''number''"
| "kind_string KindBoolean = ''boolean''"
| "kind_string KindNull = ''null''"
| "kind_string KindInvalid = ''invalid''"

record span =
  Start :: nat
  End :: nat

definition span_len :: "span \<Rightarrow> nat" where
  "span_len s = (if End s \<le> Start s then 0 else End s - Start s)"

text \<open>
  A path segment has private fields and is built by \<open>Key\<close>, by \<open>Index\<close> or as the zero
  value, so it is a datatype with these three constructors. Go's equality of segments is
  equality of the datatype.
\<close>

datatype path_segment = SegInvalid | Key string | Index int

datatype segment_kind = PathSegmentInvalid | PathSegmentObjectKey | PathSegmentArrayIndex

fun segment_kind_of :: "path_segment \<Rightarrow> segment_kind" where
  "segment_kind_of SegInvalid = PathSegmentInvalid"
| "segment_kind_of (Key _) = PathSegmentObjectKey"
| "segment_kind_of (Index _) = PathSegmentArrayIndex"

fun key_value :: "path_segment \<Rightarrow> string option" where
  "key_value (Key k) = Some k"
| "key_value _ = None"

fun index_value :: "path_segment \<Rightarrow> int option" where
  "index_value (Index i) = (if 0 \<le> i then Some i else None)"
| "index_value _ = None"

type_synonym path = "path_segment list"

text \<open>\<open>Path.Equal\<close> compares the lengths and then the segments in a loop.\<close>

fun equal_loop :: "path \<Rightarrow> path \<Rightarrow> bool" where
  "equal_loop (p # ps) (q # qs) = (if p \<noteq> q then False else equal_loop ps qs)"
| "equal_loop _ _ = True"

definition path_equal :: "path \<Rightarrow> path \<Rightarrow> bool" where
  "path_equal p q = (if length p \<noteq> length q then False else equal_loop p q)"

definition has_prefix :: "path \<Rightarrow> path \<Rightarrow> bool" where
  "has_prefix p pre = (length pre \<le> length p \<and> path_equal (take (length pre) p) pre)"

lemma path_equal_iff: "path_equal p q \<longleftrightarrow> p = q"
proof -
  have "length p = length q \<Longrightarrow> equal_loop p q \<longleftrightarrow> p = q"
    by (induction p q rule: equal_loop.induct) auto
  then show ?thesis by (auto simp: path_equal_def)
qed

lemma has_prefix_iff: "has_prefix p pre \<longleftrightarrow> (\<exists>rest. p = pre @ rest)"
  by (auto simp: has_prefix_def path_equal_iff) (metis append_take_drop_id)

section \<open>Limits\<close>

record limits =
  MaxBodyBytes :: int
  MaxDepth :: int
  MaxNodes :: int
  MaxStructuralBytes :: int
  MaxStringBytes :: int
  MaxReplacements :: int
  MaxReplacementBytes :: int

definition DefaultLimits :: limits where
  "DefaultLimits = \<lparr>
     MaxBodyBytes = 33554432,
     MaxDepth = 128,
     MaxNodes = 250000,
     MaxStructuralBytes = 134217728,
     MaxStringBytes = 8388608,
     MaxReplacements = 100000,
     MaxReplacementBytes = 33554432\<rparr>"

definition or_default :: "int \<Rightarrow> int \<Rightarrow> int" where
  "or_default v d = (if v = 0 then d else v)"

text \<open>
  \<open>Limits.normalized\<close>: reject a negative field, fill zero fields, reject a field above its
  hard maximum. The hard maxima are the defaults themselves in the source.
\<close>

definition normalized :: "limits \<Rightarrow> payload_error + limits" where
  "normalized l =
    (if MaxBodyBytes l < 0 \<or> MaxDepth l < 0 \<or> MaxNodes l < 0 \<or>
        MaxStructuralBytes l < 0 \<or> MaxStringBytes l < 0 \<or>
        MaxReplacements l < 0 \<or> MaxReplacementBytes l < 0
     then Inl InvalidLimits
     else
       let d = DefaultLimits;
           l' = \<lparr>
             MaxBodyBytes = or_default (MaxBodyBytes l) (MaxBodyBytes d),
             MaxDepth = or_default (MaxDepth l) (MaxDepth d),
             MaxNodes = or_default (MaxNodes l) (MaxNodes d),
             MaxStructuralBytes = or_default (MaxStructuralBytes l) (MaxStructuralBytes d),
             MaxStringBytes = or_default (MaxStringBytes l) (MaxStringBytes d),
             MaxReplacements = or_default (MaxReplacements l) (MaxReplacements d),
             MaxReplacementBytes = or_default (MaxReplacementBytes l) (MaxReplacementBytes d)\<rparr>
       in
         if MaxBodyBytes l' > 33554432 \<or> MaxDepth l' > 128 \<or>
            MaxNodes l' > 250000 \<or> MaxStructuralBytes l' > 134217728 \<or>
            MaxStringBytes l' > 8388608 \<or> MaxReplacements l' > 100000 \<or>
            MaxReplacementBytes l' > 33554432
         then Inl InvalidLimits
         else Inr l')"

text \<open>What every limit record in use satisfies: positive and under the hard maxima.\<close>

definition limits_ok :: "limits \<Rightarrow> bool" where
  "limits_ok l \<longleftrightarrow>
     0 < MaxBodyBytes l \<and> MaxBodyBytes l \<le> 33554432 \<and>
     0 < MaxDepth l \<and> MaxDepth l \<le> 128 \<and>
     0 < MaxNodes l \<and> MaxNodes l \<le> 250000 \<and>
     0 < MaxStructuralBytes l \<and> MaxStructuralBytes l \<le> 134217728 \<and>
     0 < MaxStringBytes l \<and> MaxStringBytes l \<le> 8388608 \<and>
     0 < MaxReplacements l \<and> MaxReplacements l \<le> 100000 \<and>
     0 < MaxReplacementBytes l \<and> MaxReplacementBytes l \<le> 33554432"

lemma or_default_pos: "0 \<le> v \<Longrightarrow> 0 < d \<Longrightarrow> 0 < or_default v d"
  by (simp add: or_default_def)

lemma normalized_limits_ok:
  assumes "normalized l = Inr l'"
  shows "limits_ok l'"
  using assms unfolding normalized_def Let_def
  by (clarsimp simp: limits_ok_def DefaultLimits_def not_less or_default_pos split: if_split_asm)

lemma normalized_fixed: "limits_ok l \<Longrightarrow> normalized l = Inr l"
  by (simp add: normalized_def limits_ok_def or_default_def)

lemma normalized_error: "normalized l = Inl e \<Longrightarrow> e = InvalidLimits"
  by (auto simp: normalized_def Let_def split: if_splits)

section \<open>Tokens and documents\<close>

text \<open>
  \<open>tok_document\<close> is the identity of the \<open>Document\<close> a token points to. The scanner leaves
  it unset (\<open>None\<close>), as it leaves the \<open>Path\<close> empty: \<open>Scan\<close> sets the pointer, and a path
  is materialised when a token is handed out.
\<close>

record string_token =
  tok_value :: string
  tok_span :: span
  tok_path :: path
  tok_parent_kind :: kind
  tok_depth :: nat
  tok_document :: "nat option"
  tok_ordinal :: nat
  tok_path_ref :: int

record path_node =
  pn_parent :: int
  pn_segment :: path_segment

record document =
  doc_id :: nat
  doc_body :: string
  doc_root_kind :: kind
  doc_root_span :: span
  doc_limits :: limits
  doc_strings :: "string_token list"
  doc_paths :: "path_node list"
  doc_structural_bytes :: int
  doc_node_count :: nat

definition raw :: "string \<Rightarrow> span \<Rightarrow> string" where
  "raw b s = slice b (Start s) (End s)"

end
