(* ===== verification/Utf8.thy ===== *)
theory Utf8
  imports Prelude
begin

text \<open>
  What the program uses of Go's \<open>unicode/utf8\<close>: \<open>DecodeRuneInString\<close>, \<open>EncodeRune\<close>,
  \<open>Valid\<close> and \<open>RuneStart\<close>, over byte strings. A rune is a \<open>nat\<close>; decoding returns the rune
  and the number of bytes consumed, \<open>(rune_error, 1)\<close> for an ill-formed sequence and
  \<open>(rune_error, 0)\<close> for the empty string.
\<close>

definition rune_error :: nat where
  "rune_error = 65533"

text \<open>Length of the sequence a lead byte starts, with the range of its second byte.\<close>

definition lead :: "nat \<Rightarrow> (nat \<times> nat \<times> nat) option" where
  "lead b =
    (if 194 \<le> b \<and> b \<le> 223 then Some (2, 128, 191)
     else if b = 224 then Some (3, 160, 191)
     else if b = 237 then Some (3, 128, 159)
     else if 225 \<le> b \<and> b \<le> 239 then Some (3, 128, 191)
     else if b = 240 then Some (4, 144, 191)
     else if 241 \<le> b \<and> b \<le> 243 then Some (4, 128, 191)
     else if b = 244 then Some (4, 128, 143)
     else None)"

definition is_cont :: "nat \<Rightarrow> bool" where
  "is_cont b \<longleftrightarrow> 128 \<le> b \<and> b \<le> 191"

text \<open>A byte that starts a rune, \<open>utf8.RuneStart\<close>.\<close>

definition rune_start :: "char \<Rightarrow> bool" where
  "rune_start c = (\<not> is_cont (byte_of c))"

fun decode_rune :: "string \<Rightarrow> nat \<times> nat" where
  "decode_rune [] = (rune_error, 0)"
| "decode_rune (c # rest) =
    (let b = byte_of c in
     if b < 128 then (b, 1)
     else case lead b of
       None \<Rightarrow> (rune_error, 1)
     | Some (sz, lo, hi) \<Rightarrow>
         if Suc (length rest) < sz then (rune_error, 1)
         else let b1 = byte_of (rest ! 0) in
           if b1 < lo \<or> hi < b1 then (rune_error, 1)
           else if sz = 2 then (b mod 32 * 64 + b1 mod 64, 2)
           else let b2 = byte_of (rest ! 1) in
             if \<not> is_cont b2 then (rune_error, 1)
             else if sz = 3 then (b mod 16 * 4096 + b1 mod 64 * 64 + b2 mod 64, 3)
             else let b3 = byte_of (rest ! 2) in
               if \<not> is_cont b3 then (rune_error, 1)
               else (b mod 8 * 262144 + b1 mod 64 * 4096 + b2 mod 64 * 64 + b3 mod 64, 4))"

definition is_surrogate :: "nat \<Rightarrow> bool" where
  "is_surrogate r \<longleftrightarrow> 55296 \<le> r \<and> r < 57344"

definition valid_rune :: "nat \<Rightarrow> bool" where
  "valid_rune r \<longleftrightarrow> r \<le> 1114111 \<and> \<not> is_surrogate r"

definition replacement_bytes :: string where
  "replacement_bytes = [CHR 0xEF, CHR 0xBF, CHR 0xBD]"

definition encode_rune :: "nat \<Rightarrow> string" where
  "encode_rune r =
    (if r < 128 then [byte r]
     else if r < 2048 then [byte (192 + r div 64), byte (128 + r mod 64)]
     else if \<not> valid_rune r then replacement_bytes
     else if r < 65536 then
       [byte (224 + r div 4096), byte (128 + r div 64 mod 64), byte (128 + r mod 64)]
     else
       [byte (240 + r div 262144), byte (128 + r div 4096 mod 64),
        byte (128 + r div 64 mod 64), byte (128 + r mod 64)])"

text \<open>The pair \<open>(RuneError, 1)\<close> is how Go reports an ill-formed byte.\<close>

definition bad_rune :: "nat \<times> nat \<Rightarrow> bool" where
  "bad_rune p \<longleftrightarrow> fst p = rune_error \<and> snd p = 1"

lemma lead_ge: "lead b = Some q \<Longrightarrow> 194 \<le> b"
  by (auto simp: lead_def split: if_splits)

lemma lead_size: "lead b = Some (sz, lo, hi) \<Longrightarrow> sz \<in> {2, 3, 4}"
  by (auto simp: lead_def split: if_splits)

lemma decode_rune_size_cons: "0 < snd (decode_rune (c # s)) \<and> snd (decode_rune (c # s)) \<le> Suc (length s)"
proof (cases "lead (byte_of c)")
  case None
  then show ?thesis by (simp add: Let_def)
next
  case (Some q)
  obtain sz lo hi where q: "q = (sz, lo, hi)" by (cases q)
  with Some have "sz = 2 \<or> sz = 3 \<or> sz = 4" using lead_size by blast
  then show ?thesis using Some q by (cases s) (auto simp: Let_def Suc_le_eq)
qed

lemma decode_rune_size: "s \<noteq> [] \<Longrightarrow> 0 < snd (decode_rune s) \<and> snd (decode_rune s) \<le> length s"
  by (cases s) (simp_all only: decode_rune_size_cons list.size add_Suc_right add_0_right simp_thms)

lemma decode_rune2:
  assumes "lead (byte_of c) = Some (2, lo, hi)" "lo \<le> byte_of c1" "byte_of c1 \<le> hi"
  shows "decode_rune (c # c1 # s) = (byte_of c mod 32 * 64 + byte_of c1 mod 64, 2)"
  using assms lead_ge [OF assms(1)] by (simp add: Let_def)

lemma decode_rune3:
  assumes "lead (byte_of c) = Some (3, lo, hi)" "lo \<le> byte_of c1" "byte_of c1 \<le> hi"
    "is_cont (byte_of c2)"
  shows "decode_rune (c # c1 # c2 # s) =
    (byte_of c mod 16 * 4096 + byte_of c1 mod 64 * 64 + byte_of c2 mod 64, 3)"
  using assms lead_ge [OF assms(1)] by (simp add: Let_def)

lemma decode_rune4:
  assumes "lead (byte_of c) = Some (4, lo, hi)" "lo \<le> byte_of c1" "byte_of c1 \<le> hi"
    "is_cont (byte_of c2)" "is_cont (byte_of c3)"
  shows "decode_rune (c # c1 # c2 # c3 # s) =
    (byte_of c mod 8 * 262144 + byte_of c1 mod 64 * 4096 + byte_of c2 mod 64 * 64
       + byte_of c3 mod 64, 4)"
  using assms lead_ge [OF assms(1)] by (simp add: Let_def)

declare decode_rune.simps(2) [simp del]

lemma decode_rune_ascii [simp]: "byte_of c < 128 \<Longrightarrow> decode_rune (c # s) = (byte_of c, 1)"
  by (simp add: decode_rune.simps(2))

text \<open>\<open>utf8.Valid\<close>.\<close>

function utf8_valid :: "string \<Rightarrow> bool" where
  "utf8_valid s =
    (if s = [] then True
     else if bad_rune (decode_rune s) then False
     else utf8_valid (drop (snd (decode_rune s)) s))"
  by pat_completeness auto
termination
  by (relation "measure length") (auto dest: decode_rune_size)

declare utf8_valid.simps [simp del]

lemma utf8_valid_Nil [simp]: "utf8_valid []"
  by (simp add: utf8_valid.simps)

subsection \<open>Decoding inverts encoding\<close>

lemma mod_offset: "x < m \<Longrightarrow> (k * m + x) mod m = (x :: nat)"
  by simp

lemma div_offset: "x < m \<Longrightarrow> (k * m + x) div m = (k :: nat)"
  by simp

lemma split64:
  "(r :: nat) = r div 4096 * 4096 + r div 64 mod 64 * 64 + r mod 64"
proof -
  have "r div 4096 = r div 64 div 64" by (simp add: div_mult2_eq [symmetric])
  then have "r div 4096 * 64 + r div 64 mod 64 = r div 64" by simp
  then have "(r div 4096 * 64 + r div 64 mod 64) * 64 + r mod 64 = r" by simp
  then show ?thesis by (simp add: algebra_simps)
qed

lemma split64_4:
  "(r :: nat) = r div 262144 * 262144 + r div 4096 mod 64 * 4096 + r div 64 mod 64 * 64 + r mod 64"
proof -
  have "r div 262144 = r div 4096 div 64" by (simp add: div_mult2_eq [symmetric])
  then have "r div 262144 * 64 + r div 4096 mod 64 = r div 4096" by simp
  then have "r div 4096 * 4096 = r div 262144 * 262144 + r div 4096 mod 64 * 4096" by linarith
  with split64 [of r] show ?thesis by linarith
qed

lemma decode_encode2:
  assumes "128 \<le> r" "r < 2048"
  shows "decode_rune (encode_rune r @ s) = (r, length (encode_rune r))"
proof -
  define x y where "x = r div 64" and "y = r mod 64"
  have a: "2 \<le> x" "x < 32" "y < 64"
    using assms by (simp_all add: x_def y_def less_mult_imp_div_less)
  have r: "r = x * 64 + y" by (simp add: x_def y_def)
  have b: "byte_of (byte (192 + x)) = 192 + x" "byte_of (byte (128 + y)) = 128 + y"
    using a by simp_all
  have c: "(192 + x) mod 32 = x" "(128 + y) mod 64 = y"
    using mod_offset [of x 32 6] mod_offset [of y 64 2] a by simp_all
  have e: "encode_rune r = [byte (192 + x), byte (128 + y)]"
    using assms by (simp add: encode_rune_def x_def y_def)
  have "lead (192 + x) = Some (2, 128, 191)" using a by (simp add: lead_def)
  from decode_rune2 [of "byte (192 + x)" 128 191 "byte (128 + y)" s, unfolded b c, OF this] a
  have "decode_rune (byte (192 + x) # byte (128 + y) # s) = (x * 64 + y, 2)" by simp
  then show ?thesis by (simp only: e append.simps list.size flip: r) simp
qed

lemma decode_encode3:
  assumes "2048 \<le> r" "r < 65536" "valid_rune r"
  shows "decode_rune (encode_rune r @ s) = (r, length (encode_rune r))"
proof -
  define x y z where "x = r div 4096" and "y = r div 64 mod 64" and "z = r mod 64"
  have a: "x < 16" "y < 64" "z < 64" using assms(2) by (simp_all add: x_def y_def z_def less_mult_imp_div_less)
  have r: "r = x * 4096 + y * 64 + z" unfolding x_def y_def z_def by (rule split64)
  have sur: "x = 13 \<Longrightarrow> y < 32" and zero: "x = 0 \<Longrightarrow> 32 \<le> y"
    using assms a r by (auto simp: valid_rune_def is_surrogate_def)
  have b: "byte_of (byte (224 + x)) = 224 + x" "byte_of (byte (128 + y)) = 128 + y"
    "byte_of (byte (128 + z)) = 128 + z" using a by simp_all
  have c: "(224 + x) mod 16 = x" "(128 + y) mod 64 = y" "(128 + z) mod 64 = z"
    using mod_offset [of x 16 14] mod_offset [of y 64 2] mod_offset [of z 64 2] a by simp_all
  have e: "encode_rune r = [byte (224 + x), byte (128 + y), byte (128 + z)]"
    using assms by (simp add: encode_rune_def x_def y_def z_def)
  obtain lo hi where l: "lead (224 + x) = Some (3, lo, hi)" "lo \<le> 128 + y" "128 + y \<le> hi"
  proof -
    consider "x = 0" | "x = 13" | "x \<noteq> 0" "x \<noteq> 13" by blast
    then show thesis using that a sur zero by cases (simp_all add: lead_def)
  qed
  have "is_cont (128 + z)" using a by (simp add: is_cont_def)
  from decode_rune3 [of "byte (224 + x)" lo hi "byte (128 + y)" "byte (128 + z)" s, unfolded b c,
      OF l this]
  show ?thesis by (simp only: e append.simps list.size flip: r) simp
qed

lemma decode_encode4:
  assumes "65536 \<le> r" "valid_rune r"
  shows "decode_rune (encode_rune r @ s) = (r, length (encode_rune r))"
proof -
  define w x y z where "w = r div 262144" and "x = r div 4096 mod 64"
    and "y = r div 64 mod 64" and "z = r mod 64"
  have le: "r \<le> 1114111" using assms(2) by (simp add: valid_rune_def)
  have a: "w < 5" "x < 64" "y < 64" "z < 64"
    using le by (simp_all add: w_def x_def y_def z_def less_mult_imp_div_less)
  have r: "r = w * 262144 + x * 4096 + y * 64 + z"
    unfolding w_def x_def y_def z_def by (rule split64_4)
  have top: "w = 4 \<Longrightarrow> x < 16" and zero: "w = 0 \<Longrightarrow> 16 \<le> x"
    using assms(1) le a r by auto
  have b: "byte_of (byte (240 + w)) = 240 + w" "byte_of (byte (128 + x)) = 128 + x"
    "byte_of (byte (128 + y)) = 128 + y" "byte_of (byte (128 + z)) = 128 + z"
    using a by simp_all
  have c: "(240 + w) mod 8 = w" "(128 + x) mod 64 = x" "(128 + y) mod 64 = y"
    "(128 + z) mod 64 = z"
    using mod_offset [of w 8 30] mod_offset [of x 64 2] mod_offset [of y 64 2]
      mod_offset [of z 64 2] a by simp_all
  have e: "encode_rune r = [byte (240 + w), byte (128 + x), byte (128 + y), byte (128 + z)]"
    using assms by (simp add: encode_rune_def w_def x_def y_def z_def)
  obtain lo hi where l: "lead (240 + w) = Some (4, lo, hi)" "lo \<le> 128 + x" "128 + x \<le> hi"
  proof -
    consider "w = 0" | "w = 4" | "w \<noteq> 0" "w \<noteq> 4" by blast
    then show thesis using that a top zero by cases (simp_all add: lead_def)
  qed
  have "is_cont (128 + y)" "is_cont (128 + z)" using a by (simp_all add: is_cont_def)
  from decode_rune4 [of "byte (240 + w)" lo hi "byte (128 + x)" "byte (128 + y)" "byte (128 + z)" s,
      unfolded b c, OF l this]
  show ?thesis by (simp only: e append.simps list.size flip: r) simp
qed

lemma decode_encode:
  assumes "valid_rune r"
  shows "decode_rune (encode_rune r @ s) = (r, length (encode_rune r))"
proof -
  consider "r < 128" | "128 \<le> r" "r < 2048" | "2048 \<le> r" "r < 65536" | "65536 \<le> r" by linarith
  then show ?thesis
  proof cases
    case 1
    then show ?thesis by (simp add: encode_rune_def)
  qed (use assms in \<open>simp_all add: decode_encode2 decode_encode3 decode_encode4\<close>)
qed

lemma rune_error_valid [simp]: "valid_rune rune_error"
  by (simp add: valid_rune_def rune_error_def is_surrogate_def)

lemma encode_rune_error [simp]: "encode_rune rune_error = replacement_bytes"
  by (simp add: encode_rune_def rune_error_def replacement_bytes_def valid_rune_def
      is_surrogate_def char_of_eq_iff)

subsection \<open>Encoding inverts decoding\<close>

lemma decode_rune_cases:
  assumes "\<not> bad_rune (decode_rune (c # rest))"
  obtains "byte_of c < 128"
  | lo hi c1 s where "rest = c1 # s" "lead (byte_of c) = Some (2, lo, hi)"
      "lo \<le> byte_of c1" "byte_of c1 \<le> hi"
  | lo hi c1 c2 s where "rest = c1 # c2 # s" "lead (byte_of c) = Some (3, lo, hi)"
      "lo \<le> byte_of c1" "byte_of c1 \<le> hi" "is_cont (byte_of c2)"
  | lo hi c1 c2 c3 s where "rest = c1 # c2 # c3 # s" "lead (byte_of c) = Some (4, lo, hi)"
      "lo \<le> byte_of c1" "byte_of c1 \<le> hi" "is_cont (byte_of c2)" "is_cont (byte_of c3)"
proof (cases "lead (byte_of c)")
  case None
  with assms that(1) show thesis by (auto simp: bad_rune_def decode_rune.simps(2) Let_def split: if_splits)
next
  case (Some q)
  obtain sz lo hi where q: "q = (sz, lo, hi)" by (cases q)
  with Some have sz: "sz = 2 \<or> sz = 3 \<or> sz = 4" using lead_size by blast
  have "194 \<le> byte_of c" using Some lead_ge by blast
  then have len: "sz \<le> Suc (length rest)"
    using assms Some q by (auto simp: bad_rune_def decode_rune.simps(2) Let_def not_less split: if_splits)
  from sz show thesis
  proof (elim disjE)
    assume 2: "sz = 2"
    with len obtain c1 s where r: "rest = c1 # s" by (cases rest) auto
    have "lo \<le> byte_of c1 \<and> byte_of c1 \<le> hi"
      using assms Some q 2 r \<open>194 \<le> byte_of c\<close>
      by (auto simp: bad_rune_def decode_rune.simps(2) Let_def not_less split: if_splits)
    with r Some q 2 show thesis by (intro that(2)) auto
  next
    assume 3: "sz = 3"
    with len obtain c1 c2 s where r: "rest = c1 # c2 # s"
      by (cases rest; cases "tl rest") auto
    have "lo \<le> byte_of c1 \<and> byte_of c1 \<le> hi \<and> is_cont (byte_of c2)"
      using assms Some q 3 r \<open>194 \<le> byte_of c\<close>
      by (auto simp: bad_rune_def decode_rune.simps(2) Let_def not_less split: if_splits)
    with r Some q 3 show thesis by (intro that(3)) auto
  next
    assume 4: "sz = 4"
    with len obtain c1 c2 c3 s where r: "rest = c1 # c2 # c3 # s"
      by (cases rest; cases "tl rest"; cases "tl (tl rest)") auto
    have "lo \<le> byte_of c1 \<and> byte_of c1 \<le> hi \<and> is_cont (byte_of c2) \<and> is_cont (byte_of c3)"
      using assms Some q 4 r \<open>194 \<le> byte_of c\<close>
      by (auto simp: bad_rune_def decode_rune.simps(2) Let_def not_less numeral_2_eq_2 split: if_splits)
    with r Some q 4 show thesis by (intro that(4)) auto
  qed
qed

lemma encode_bytes2:
  assumes "2 \<le> x" "x < 32" "y < 64"
  shows "encode_rune (x * 64 + y) = [byte (192 + x), byte (128 + y)]"
proof -
  define r where "r = x * 64 + y"
  have d: "r div 64 = x" "r mod 64 = y"
    unfolding r_def using assms(3) by (rule div_offset, rule mod_offset)
  have "128 \<le> r" "r < 2048" unfolding r_def using assms by linarith+
  then show ?thesis by (simp add: encode_rune_def d flip: r_def)
qed

lemma encode_bytes3:
  assumes "x < 16" "y < 64" "z < 64" "x = 0 \<Longrightarrow> 32 \<le> y" "x = 13 \<Longrightarrow> y < 32"
  shows "valid_rune (x * 4096 + y * 64 + z) \<and>
    encode_rune (x * 4096 + y * 64 + z) = [byte (224 + x), byte (128 + y), byte (128 + z)]"
proof -
  define r where "r = x * 4096 + y * 64 + z"
  have r: "r = (x * 64 + y) * 64 + z" by (simp add: r_def)
  have d: "r div 64 = x * 64 + y" "r mod 64 = z"
    unfolding r using assms(3) by (rule div_offset, rule mod_offset)
  have "r div 4096 = r div 64 div 64" by (simp add: div_mult2_eq [symmetric])
  then have d2: "r div 4096 = x" "r div 64 mod 64 = y" using assms(2) d by simp_all
  have b: "2048 \<le> r" "r < 65536" unfolding r_def using assms(1,2,3,4) by (cases "x = 0"; linarith)+
  have v: "valid_rune r"
    unfolding valid_rune_def is_surrogate_def using b assms(2,3,5)
    by (cases "x = 13"; cases "x < 13") (auto simp: r_def)
  show ?thesis using b v d d2 by (simp add: encode_rune_def flip: r_def)
qed

lemma encode_bytes4:
  assumes "w < 5" "x < 64" "y < 64" "z < 64" "w = 0 \<Longrightarrow> 16 \<le> x" "w = 4 \<Longrightarrow> x < 16"
  shows "valid_rune (w * 262144 + x * 4096 + y * 64 + z) \<and>
    encode_rune (w * 262144 + x * 4096 + y * 64 + z) =
      [byte (240 + w), byte (128 + x), byte (128 + y), byte (128 + z)]"
proof -
  define r where "r = w * 262144 + x * 4096 + y * 64 + z"
  have r: "r = ((w * 64 + x) * 64 + y) * 64 + z" by (simp add: r_def)
  have d: "r div 64 = (w * 64 + x) * 64 + y" "r mod 64 = z"
    unfolding r using assms(4) by (rule div_offset, rule mod_offset)
  have "r div 4096 = r div 64 div 64" by (simp add: div_mult2_eq [symmetric])
  then have d2: "r div 4096 = w * 64 + x" "r div 64 mod 64 = y"
    unfolding d by (simp only: div_offset [OF assms(3)], simp only: mod_offset [OF assms(3)])
  have "r div 262144 = r div 4096 div 64" by (simp add: div_mult2_eq [symmetric])
  then have d3: "r div 262144 = w" "r div 4096 mod 64 = x" using assms(2) d2 by simp_all
  have b: "65536 \<le> r" unfolding r_def using assms(5) by (cases "w = 0") auto
  have u: "r \<le> 1114111" unfolding r_def using assms(1,2,3,4,6) by (cases "w = 4") auto
  have v: "valid_rune r" using b u by (simp add: valid_rune_def is_surrogate_def)
  show ?thesis using b v d(2) d2(2) d3 by (simp add: encode_rune_def flip: r_def)
qed

lemma lead2_bounds: "lead b = Some (2, lo, hi) \<Longrightarrow> 194 \<le> b \<and> b \<le> 223 \<and> lo = 128 \<and> hi = 191"
  by (auto simp: lead_def split: if_splits)

lemma lead3_bounds: "lead b = Some (3, lo, hi) \<Longrightarrow>
  224 \<le> b \<and> b \<le> 239 \<and> 128 \<le> lo \<and> hi \<le> 191 \<and> (b = 224 \<longrightarrow> lo = 160) \<and> (b = 237 \<longrightarrow> hi = 159)"
  by (auto simp: lead_def split: if_splits)

lemma lead4_bounds: "lead b = Some (4, lo, hi) \<Longrightarrow>
  240 \<le> b \<and> b \<le> 244 \<and> 128 \<le> lo \<and> hi \<le> 191 \<and> (b = 240 \<longrightarrow> lo = 144) \<and> (b = 244 \<longrightarrow> hi = 143)"
  by (auto simp: lead_def split: if_splits)

lemma byte_offset:
  assumes "k * m \<le> byte_of c" "byte_of c < k * m + m"
  shows "byte_of c mod m = byte_of c - k * m"
proof -
  have "byte_of c = k * m + (byte_of c - k * m)" "byte_of c - k * m < m" using assms by linarith+
  then show ?thesis by (metis mod_offset)
qed

lemma take_4: "take 4 (a # b # c # d # s) = [a, b, c, d]"
  by (simp add: numeral_eq_Suc)

lemma encode_decode_cons:
  assumes "\<not> bad_rune (decode_rune (c # rest))"
  shows "valid_rune (fst (decode_rune (c # rest))) \<and>
    encode_rune (fst (decode_rune (c # rest))) = take (snd (decode_rune (c # rest))) (c # rest)"
  using assms
proof (cases rule: decode_rune_cases)
  case 1
  then show ?thesis by (simp add: encode_rune_def valid_rune_def is_surrogate_def)
next
  case (2 lo hi c1 s)
  note l = lead2_bounds [OF 2(2)]
  have m: "byte_of c mod 32 = byte_of c - 192" "byte_of c1 mod 64 = byte_of c1 - 128"
    using byte_offset [of 6 32 c] byte_offset [of 2 64 c1] l 2(3,4) by simp_all
  have r: "decode_rune (c # rest) = ((byte_of c - 192) * 64 + (byte_of c1 - 128), 2)"
    using decode_rune2 [OF 2(2-4), of s] m 2(1) by simp
  have "encode_rune ((byte_of c - 192) * 64 + (byte_of c1 - 128)) =
      [byte (192 + (byte_of c - 192)), byte (128 + (byte_of c1 - 128))]"
    using l 2(3,4) by (intro encode_bytes2) linarith+
  moreover have "valid_rune ((byte_of c - 192) * 64 + (byte_of c1 - 128))"
    unfolding valid_rune_def is_surrogate_def using l 2(3,4) by linarith
  ultimately show ?thesis unfolding r using l 2(3,4) by (simp add: 2(1) numeral_2_eq_2)
next
  case (3 lo hi c1 c2 s)
  note l = lead3_bounds [OF 3(2)]
  have b2: "128 \<le> byte_of c2" "byte_of c2 \<le> 191" using 3(5) by (simp_all add: is_cont_def)
  have m: "byte_of c mod 16 = byte_of c - 224" "byte_of c1 mod 64 = byte_of c1 - 128"
    "byte_of c2 mod 64 = byte_of c2 - 128"
    using byte_offset [of 14 16 c] byte_offset [of 2 64 c1] byte_offset [of 2 64 c2] l 3(3,4) b2
    by simp_all
  have r: "decode_rune (c # rest) =
      ((byte_of c - 224) * 4096 + (byte_of c1 - 128) * 64 + (byte_of c2 - 128), 3)"
    using decode_rune3 [OF 3(2-5), of s] m 3(1) by simp
  have "valid_rune ((byte_of c - 224) * 4096 + (byte_of c1 - 128) * 64 + (byte_of c2 - 128)) \<and>
    encode_rune ((byte_of c - 224) * 4096 + (byte_of c1 - 128) * 64 + (byte_of c2 - 128)) =
      [byte (224 + (byte_of c - 224)), byte (128 + (byte_of c1 - 128)),
       byte (128 + (byte_of c2 - 128))]"
    using l 3(3,4) b2 by (intro encode_bytes3) linarith+
  then show ?thesis unfolding r using l 3(3,4) b2 by (simp add: 3(1) numeral_3_eq_3)
next
  case (4 lo hi c1 c2 c3 s)
  note l = lead4_bounds [OF 4(2)]
  have b2: "128 \<le> byte_of c2" "byte_of c2 \<le> 191" "128 \<le> byte_of c3" "byte_of c3 \<le> 191"
    using 4(5,6) by (simp_all add: is_cont_def)
  have m: "byte_of c mod 8 = byte_of c - 240" "byte_of c1 mod 64 = byte_of c1 - 128"
    "byte_of c2 mod 64 = byte_of c2 - 128" "byte_of c3 mod 64 = byte_of c3 - 128"
    using byte_offset [of 30 8 c] byte_offset [of 2 64 c1] byte_offset [of 2 64 c2]
      byte_offset [of 2 64 c3] l 4(3,4) b2 by simp_all
  have r: "decode_rune (c # rest) = ((byte_of c - 240) * 262144 + (byte_of c1 - 128) * 4096 +
      (byte_of c2 - 128) * 64 + (byte_of c3 - 128), 4)"
    using decode_rune4 [OF 4(2-6), of s] m 4(1) by simp
  have "valid_rune ((byte_of c - 240) * 262144 + (byte_of c1 - 128) * 4096 +
      (byte_of c2 - 128) * 64 + (byte_of c3 - 128)) \<and>
    encode_rune ((byte_of c - 240) * 262144 + (byte_of c1 - 128) * 4096 +
      (byte_of c2 - 128) * 64 + (byte_of c3 - 128)) =
      [byte (240 + (byte_of c - 240)), byte (128 + (byte_of c1 - 128)),
       byte (128 + (byte_of c2 - 128)), byte (128 + (byte_of c3 - 128))]"
    using l 4(3,4) b2 by (intro encode_bytes4) linarith+
  then show ?thesis
    unfolding r fst_conv snd_conv unfolding 4(1) take_4 using l 4(3,4) b2 by simp
qed

lemma encode_decode:
  assumes "s \<noteq> []" "\<not> bad_rune (decode_rune s)"
  shows "valid_rune (fst (decode_rune s))"
    and "encode_rune (fst (decode_rune s)) = take (snd (decode_rune s)) s"
  using assms encode_decode_cons [of "hd s" "tl s"] by (cases s, auto)+

end
