(* ===== verification/Json_String.thy ===== *)
theory Json_String
  imports Payload_Types Utf8
begin

text \<open>
  JSON string literals: the encoder \<open>encodeString\<close> / \<open>encodeStringContext\<close> of
  \<open>payload/jsonscan.go\<close>, and what \<open>stringValue\<close> of the same file takes from
  \<open>encoding/json\<close>, the decoding of a literal by \<open>json.Unmarshal\<close>. The main result is that
  decoding inverts encoding, up to the replacement of ill-formed UTF-8 by U+FFFD.
\<close>

section \<open>Encoding\<close>

definition hex_digit :: "nat \<Rightarrow> char" where
  "hex_digit n = ''0123456789abcdef'' ! (n mod 16)"

text \<open>
  One round of the loop of \<open>encodeStringContext\<close> at the suffix \<open>v[i:]\<close>: the bytes it
  appends and the number of bytes it consumes.
\<close>

definition encode_ascii :: "char \<Rightarrow> string" where
  "encode_ascii c =
    (if c = CHR 0x22 \<or> c = CHR 0x5C then [CHR 0x5C, c]
     else if c = CHR 0x08 then [CHR 0x5C, CHR ''b'']
     else if c = CHR 0x0C then [CHR 0x5C, CHR ''f'']
     else if c = CHR 0x0A then [CHR 0x5C, CHR ''n'']
     else if c = CHR 0x0D then [CHR 0x5C, CHR ''r'']
     else if c = CHR 0x09 then [CHR 0x5C, CHR ''t'']
     else if byte_of c < 32 then
       [CHR 0x5C, CHR ''u'', CHR ''0'', CHR ''0'', hex_digit (byte_of c div 16), hex_digit (byte_of c)]
     else [c])"

definition encode_step :: "string \<Rightarrow> string \<times> nat" where
  "encode_step s =
    (let c = hd s in
     if byte_of c < 128 then (encode_ascii c, 1)
     else let (r, size) = decode_rune s in
       if r = rune_error \<and> size = 1 then (replacement_bytes, 1)
       else if r = 8232 \<or> r = 8233 then
         ([CHR 0x5C, CHR ''u'', CHR ''2'', CHR ''0'', CHR ''2'', hex_digit r], size)
       else (take size s, size))"

lemma encode_step_size: "s \<noteq> [] \<Longrightarrow> 0 < snd (encode_step s) \<and> snd (encode_step s) \<le> length s"
  using decode_rune_size [of s]
  by (cases s) (auto simp: encode_step_def Let_def split: prod.splits)

definition context_check_interval :: nat where
  "context_check_interval = 1024"

text \<open>
  The loop, with \<open>i\<close>, \<open>nextCheck\<close> and the output as in the source. The context is
  \<open>None\<close> for the call \<open>encodeStringContext(nil, value)\<close>.
\<close>

definition poll_opt :: "ctx option \<Rightarrow> (payload_error, nat, unit) M" where
  "poll_opt c = (case c of None \<Rightarrow> ret () | Some c \<Rightarrow> poll c)"

function encode_loop ::
  "ctx option \<Rightarrow> string \<Rightarrow> nat \<Rightarrow> nat \<Rightarrow> string \<Rightarrow> (payload_error, nat, string) M" where
  "encode_loop c v i next_check out =
    (if i < length v then
       bind (if c \<noteq> None \<and> next_check \<le> i
             then seq (poll_opt c) (ret (i + context_check_interval))
             else ret next_check) (\<lambda>next_check.
         let (chunk, size) = encode_step (drop i v)
         in if size = 0 then ret out \<comment> \<open>never taken, see \<open>encode_step_size\<close>\<close>
            else encode_loop c v (i + size) next_check (out @ chunk))
     else ret out)"
  by pat_completeness auto
termination
  by (relation "measure (\<lambda>(c, v, i, n, out). length v - i)") auto

declare encode_loop.simps [simp del]

definition encode_string_context :: "ctx option \<Rightarrow> string \<Rightarrow> (payload_error, nat, string) M" where
  "encode_string_context c v =
     bind (encode_loop c v 0 context_check_interval [CHR 0x22]) (\<lambda>out.
     seq (poll_opt c)
     (ret (out @ [CHR 0x22])))"

definition encode_string :: "string \<Rightarrow> string" where
  "encode_string v = (case encode_string_context None v 0 of
     (Inl _, _) \<Rightarrow> [] | (Inr out, _) \<Rightarrow> out)"

subsection \<open>The encoder as a pure function\<close>

text \<open>\<open>escape\<close> is the concatenation of the chunks, without contexts or accumulators.\<close>

function escape :: "string \<Rightarrow> string" where
  "escape s =
    (if s = [] then [] else
       fst (encode_step s) @ escape (drop (snd (encode_step s)) s))"
  by pat_completeness auto
termination
  by (relation "measure length") (auto dest: encode_step_size)

declare escape.simps [simp del]

lemma escape_Nil [simp]: "escape [] = []"
  by (simp add: escape.simps)

lemma escape_step: "s \<noteq> [] \<Longrightarrow> escape s = fst (encode_step s) @ escape (drop (snd (encode_step s)) s)"
  by (subst escape.simps) simp

text \<open>Whenever the loop returns normally, it has appended the pure encoding.\<close>

lemma encode_loop_result:
  assumes "encode_loop c v i n out p = (Inr res, q)"
  shows "res = out @ escape (drop i v)"
  using assms
proof (induction "length v - i" arbitrary: i n out p rule: less_induct)
  case less
  show ?case
  proof (cases "i < length v")
    case False
    then show ?thesis using less.prems by (simp add: encode_loop.simps)
  next
    case True
    define s where "s = drop i v"
    have s: "s \<noteq> []" using True by (simp add: s_def)
    note sz = encode_step_size [OF s]
    from less.prems True obtain n' p' where
      "encode_loop c v (i + snd (encode_step s)) n' (out @ fst (encode_step s)) p' = (Inr res, q)"
      using sz by (auto simp: encode_loop.simps [of c v i] bind_Inr_iff s_def [symmetric]
          case_prod_beta Let_def)
    moreover have "length v - (i + snd (encode_step s)) < length v - i"
      using sz True by linarith
    ultimately have "res = (out @ fst (encode_step s)) @ escape (drop (i + snd (encode_step s)) v)"
      using less.hyps by blast
    moreover have "drop (i + snd (encode_step s)) v = drop (snd (encode_step s)) s"
      by (simp add: s_def add.commute)
    ultimately show ?thesis using escape_step [OF s] by (simp add: s_def)
  qed
qed

text \<open>Without a context the loop cannot fail.\<close>

lemma encode_loop_None: "encode_loop None v i n out p = (Inr (out @ escape (drop i v)), p)"
proof (induction "length v - i" arbitrary: i n out rule: less_induct)
  case less
  show ?case
  proof (cases "i < length v")
    case False
    then show ?thesis by (simp add: encode_loop.simps ret_def)
  next
    case True
    define s where "s = drop i v"
    have s: "s \<noteq> []" using True by (simp add: s_def)
    note sz = encode_step_size [OF s]
    have "encode_loop None v i n out p =
        encode_loop None v (i + snd (encode_step s)) n (out @ fst (encode_step s)) p"
      using True sz by (simp add: encode_loop.simps [of None v i] bind_def ret_def
          s_def [symmetric] case_prod_beta Let_def)
    also have "\<dots> = (Inr ((out @ fst (encode_step s)) @ escape (drop (i + snd (encode_step s)) v)), p)"
      using sz True by (intro less.hyps) linarith
    also have "drop (i + snd (encode_step s)) v = drop (snd (encode_step s)) s"
      by (simp add: s_def add.commute)
    finally show ?thesis using escape_step [OF s] by (simp add: s_def)
  qed
qed

definition quoted :: "string \<Rightarrow> string" where
  "quoted s = CHR 0x22 # s @ [CHR 0x22]"

lemma encode_string_eq: "encode_string v = quoted (escape v)"
  by (simp add: encode_string_def encode_string_context_def bind_def encode_loop_None poll_opt_def
      ret_def quoted_def)

lemma encode_string_context_result:
  "encode_string_context c v p = (Inr res, q) \<Longrightarrow> res = quoted (escape v)"
  by (auto simp: encode_string_context_def bind_Inr_iff quoted_def dest: encode_loop_result)

section \<open>Decoding\<close>

text \<open>
  \<open>json.Unmarshal\<close> of a literal into a Go string (\<open>unquoteBytes\<close> of \<open>encoding/json\<close>,
  after the validity check of \<open>Unmarshal\<close>, which admits no other escape than these): escapes
  are resolved, a surrogate pair becomes one rune, a lone surrogate and an ill-formed byte
  become U+FFFD.
\<close>

definition is_digit :: "char \<Rightarrow> bool" where
  "is_digit c \<longleftrightarrow> 48 \<le> byte_of c \<and> byte_of c \<le> 57"

definition is_hex :: "char \<Rightarrow> bool" where
  "is_hex c \<longleftrightarrow>
     is_digit c \<or> 97 \<le> byte_of c \<and> byte_of c \<le> 102 \<or> 65 \<le> byte_of c \<and> byte_of c \<le> 70"

definition unhex :: "char \<Rightarrow> nat" where
  "unhex c =
    (let b = byte_of c in
     if b \<le> 57 then b - 48 else if b \<le> 70 then b - 55 else b - 87)"

text \<open>\<open>getu4\<close>: the value of a leading \<open>\uXXXX\<close>.\<close>

fun getu4 :: "string \<Rightarrow> nat option" where
  "getu4 (b # u # c1 # c2 # c3 # c4 # s) =
    (if b = CHR 0x5C \<and> u = CHR ''u'' \<and> is_hex c1 \<and> is_hex c2 \<and> is_hex c3 \<and> is_hex c4
     then Some (((unhex c1 * 16 + unhex c2) * 16 + unhex c3) * 16 + unhex c4) else None)"
| "getu4 _ = None"

text \<open>\<open>utf16.DecodeRune\<close>, with \<open>None\<close> for the second half where \<open>getu4\<close> gives \<open>-1\<close>.\<close>

definition utf16_decode :: "nat \<Rightarrow> nat option \<Rightarrow> nat" where
  "utf16_decode r1 r2 = (case r2 of None \<Rightarrow> rune_error | Some r2 \<Rightarrow>
     if 55296 \<le> r1 \<and> r1 < 56320 \<and> 56320 \<le> r2 \<and> r2 < 57344
     then (r1 - 55296) * 1024 + (r2 - 56320) + 65536 else rune_error)"

definition simple_escape :: "char \<Rightarrow> char option" where
  "simple_escape e =
    (if e = CHR 0x22 \<or> e = CHR 0x5C \<or> e = CHR ''/'' then Some e
     else if e = CHR ''b'' then Some CHR 0x08
     else if e = CHR ''f'' then Some CHR 0x0C
     else if e = CHR ''n'' then Some CHR 0x0A
     else if e = CHR ''r'' then Some CHR 0x0D
     else if e = CHR ''t'' then Some CHR 0x09
     else None)"

text \<open>One round of the decoding loop: the bytes written and the number of bytes consumed.\<close>

definition unquote_step :: "string \<Rightarrow> (string \<times> nat) option" where
  "unquote_step s =
    (let c = hd s in
     if c = CHR 0x5C then
       (if tl s = [] then None
        else if s ! 1 = CHR ''u'' then
          (case getu4 s of
             None \<Rightarrow> None
           | Some rr \<Rightarrow>
               if is_surrogate rr then
                 let dec = utf16_decode rr (getu4 (drop 6 s)) in
                 if dec \<noteq> rune_error then Some (encode_rune dec, 12)
                 else Some (replacement_bytes, 6)
               else Some (encode_rune rr, 6))
        else map_option (\<lambda>e. ([e], 2)) (simple_escape (s ! 1)))
     else if c = CHR 0x22 \<or> byte_of c < 32 then None
     else if byte_of c < 128 then Some ([c], 1)
     else let (rr, size) = decode_rune s in Some (encode_rune rr, size))"

lemma unquote_step_size: "s \<noteq> [] \<Longrightarrow> unquote_step s = Some (t, n) \<Longrightarrow> 0 < n"
  using decode_rune_size [of s]
  by (auto simp: unquote_step_def Let_def split: if_splits prod.splits option.splits)

function unquote :: "string \<Rightarrow> string option" where
  "unquote s =
    (if s = [] then Some []
     else case unquote_step s of
       None \<Rightarrow> None
     | Some (t, n) \<Rightarrow> map_option (\<lambda>r. t @ r) (unquote (drop n s)))"
  by pat_completeness auto
termination
  by (relation "measure length") (auto dest: unquote_step_size [rotated])

declare unquote.simps [simp del]

lemma unquote_Nil [simp]: "unquote [] = Some []"
  by (simp add: unquote.simps)

text \<open>\<open>json.Unmarshal(raw, &value)\<close> on a literal with its quotes.\<close>

definition unmarshal_string :: "string \<Rightarrow> string option" where
  "unmarshal_string r = unquote (slice r 1 (length r - 1))"

lemma unmarshal_quoted: "unmarshal_string (quoted s) = unquote s"
  by (simp add: unmarshal_string_def quoted_def slice_def)

section \<open>Decoding inverts encoding\<close>

text \<open>\<open>to_valid\<close> replaces every ill-formed byte by U+FFFD and changes nothing else.\<close>

function to_valid :: "string \<Rightarrow> string" where
  "to_valid s =
    (if s = [] then []
     else if bad_rune (decode_rune s) then replacement_bytes @ to_valid (tl s)
     else take (snd (decode_rune s)) s @ to_valid (drop (snd (decode_rune s)) s))"
  by pat_completeness auto
termination
  by (relation "measure length") (auto dest: decode_rune_size)

declare to_valid.simps [simp del]

lemma to_valid_Nil [simp]: "to_valid [] = []"
  by (simp add: to_valid.simps)

lemma to_valid_id: "utf8_valid s \<Longrightarrow> to_valid s = s"
proof (induction s rule: utf8_valid.induct)
  case (1 s)
  then show ?case
    by (cases "s = []") (auto simp: utf8_valid.simps [of s] to_valid.simps [of s] split: if_splits)
qed

lemma unquote_append_step:
  assumes "s \<noteq> []" "unquote_step (s @ t) = Some (r, length s)"
  shows "unquote (s @ t) = map_option (\<lambda>u. r @ u) (unquote t)"
  using assms by (subst unquote.simps) simp

lemma unquote_step_simple:
  "simple_escape e = Some d \<Longrightarrow> unquote_step ([CHR 0x5C, e] @ t) = Some ([d], 2)"
  by (auto simp: unquote_step_def simple_escape_def split: if_splits)

lemma unquote_step_plain:
  "c \<noteq> CHR 0x5C \<Longrightarrow> c \<noteq> CHR 0x22 \<Longrightarrow> 32 \<le> byte_of c \<Longrightarrow> byte_of c < 128 \<Longrightarrow>
   unquote_step (c # t) = Some ([c], 1)"
  by (simp add: unquote_step_def Let_def)

lemma hex_digit_props: "is_hex (hex_digit n) \<and> unhex (hex_digit n) = n mod 16"
proof -
  have "\<forall>k < 16. is_hex (''0123456789abcdef'' ! k) \<and> unhex (''0123456789abcdef'' ! k) = k"
    by (simp add: is_hex_def is_digit_def unhex_def All_less_Suc numeral_eq_Suc)
  then show ?thesis by (simp add: hex_digit_def)
qed

definition short_escaped :: "char \<Rightarrow> bool" where
  "short_escaped c \<longleftrightarrow>
     c \<in> {CHR 0x22, CHR 0x5C, CHR 0x08, CHR 0x0C, CHR 0x0A, CHR 0x0D, CHR 0x09}"

lemma encode_ascii_simple:
  "short_escaped c \<Longrightarrow> \<exists>e. encode_ascii c = [CHR 0x5C, e] \<and> simple_escape e = Some c"
  by (auto simp: short_escaped_def encode_ascii_def simple_escape_def)

lemma encode_ascii_other:
  "\<not> short_escaped c \<Longrightarrow> c \<noteq> CHR 0x5C \<and> c \<noteq> CHR 0x22 \<and> encode_ascii c =
    (if byte_of c < 32 then [CHR 0x5C, CHR ''u'', CHR ''0'', CHR ''0'',
       hex_digit (byte_of c div 16), hex_digit (byte_of c)] else [c])"
  by (auto simp: short_escaped_def encode_ascii_def)

lemma getu4_hex:
  "getu4 (CHR 0x5C # CHR ''u'' # hex_digit a # hex_digit b # hex_digit c # hex_digit d # t) =
     Some (((a mod 16 * 16 + b mod 16) * 16 + c mod 16) * 16 + d mod 16)"
  by (simp add: hex_digit_props)

lemma unquote_step_u:
  assumes "getu4 (CHR 0x5C # CHR ''u'' # s) = Some rr" "\<not> is_surrogate rr"
  shows "unquote_step (CHR 0x5C # CHR ''u'' # s) = Some (encode_rune rr, 6)"
  using assms by (simp add: unquote_step_def Let_def del: getu4.simps)

lemma unquote_encode_ascii:
  assumes "byte_of c < 128"
  shows "unquote (encode_ascii c @ t) = map_option (\<lambda>u. c # u) (unquote t)"
proof -
  consider (esc) "short_escaped c"
    | (ctl) "encode_ascii c = [CHR 0x5C, CHR ''u'', CHR ''0'', CHR ''0'',
        hex_digit (byte_of c div 16), hex_digit (byte_of c)]" "byte_of c < 32"
    | (plain) "encode_ascii c = [c]" "c \<noteq> CHR 0x5C" "c \<noteq> CHR 0x22" "32 \<le> byte_of c"
    using encode_ascii_other [of c] by (cases "short_escaped c"; cases "byte_of c < 32") auto
  then show ?thesis
  proof cases
    case esc
    then obtain e where "encode_ascii c = [CHR 0x5C, e]" "simple_escape e = Some c"
      using encode_ascii_simple by blast
    then show ?thesis
      using unquote_append_step [of "[CHR 0x5C, e]" t "[c]"] unquote_step_simple [of e c t] by simp
  next
    case ctl
    have h0: "CHR ''0'' = hex_digit 0" by (simp add: hex_digit_def)
    have "byte_of c div 16 mod 16 * 16 + byte_of c mod 16 = byte_of c" using ctl(2) by auto
    then have g: "getu4 (CHR 0x5C # CHR ''u'' # CHR ''0'' # CHR ''0'' #
        hex_digit (byte_of c div 16) # hex_digit (byte_of c) # t) = Some (byte_of c)"
      unfolding h0 getu4_hex by simp
    have "encode_rune (byte_of c) = [c]" using assms by (simp add: encode_rune_def)
    with unquote_step_u [OF g] assms
    have "unquote_step (encode_ascii c @ t) = Some ([c], 6)"
      by (simp add: ctl(1) is_surrogate_def)
    then show ?thesis
      using unquote_append_step [of "encode_ascii c" t "[c]"] by (simp add: ctl(1))
  next
    case plain
    with unquote_step_plain [OF plain(2-4) assms, of t] show ?thesis
      using unquote_append_step [of "[c]" t "[c]"] by simp
  qed
qed

lemma unquote_encode_rune:
  assumes "valid_rune r" "128 \<le> r"
  shows "unquote (encode_rune r @ t) = map_option (\<lambda>u. encode_rune r @ u) (unquote t)"
proof -
  have d: "decode_rune (encode_rune r @ t) = (r, length (encode_rune r))"
    by (rule decode_encode) (rule assms)
  obtain b s where e: "encode_rune r = b # s"
    by (cases "encode_rune r") (auto simp: encode_rune_def replacement_bytes_def split: if_splits)
  have b: "128 \<le> byte_of b"
    using d assms(2) decode_rune_ascii [of b "s @ t"] unfolding e by (cases "byte_of b < 128") auto
  have "b \<noteq> CHR 0x5C" "b \<noteq> CHR 0x22" using b by auto
  then have "unquote_step (encode_rune r @ t) = Some (encode_rune r, length (encode_rune r))"
    using d b e by (simp add: unquote_step_def Let_def)
  then show ?thesis by (rule unquote_append_step [rotated]) (simp add: e)
qed

lemma decode_rune_ge128:
  assumes "128 \<le> byte_of c" "\<not> bad_rune (decode_rune (c # s))"
  shows "128 \<le> fst (decode_rune (c # s))"
proof (rule ccontr)
  obtain r n where d: "decode_rune (c # s) = (r, n)" by (cases "decode_rune (c # s)")
  assume "\<not> 128 \<le> fst (decode_rune (c # s))"
  with d have r: "r < 128" by simp
  then have "encode_rune r = [byte r]" by (simp add: encode_rune_def)
  moreover have "encode_rune r = take n (c # s)"
    using assms(2) encode_decode_cons [of c s] d by simp
  ultimately have "c = byte r" by (cases n) auto
  then have "byte_of c = r" using r by simp
  with assms(1) r show False by simp
qed

text \<open>One step of the encoder is undone by the decoder, whatever follows.\<close>

lemma unquote_encode_step:
  assumes "s \<noteq> []"
  shows "unquote (fst (encode_step s) @ t) =
    map_option (\<lambda>u. (if bad_rune (decode_rune s) then replacement_bytes
                     else take (snd (decode_rune s)) s) @ u) (unquote t)"
proof -
  obtain c cs where s: "s = c # cs" using assms by (cases s) auto
  obtain r n where d: "decode_rune s = (r, n)" by (cases "decode_rune s")
  show ?thesis
  proof (cases "byte_of c < 128")
    case True
    then show ?thesis
      using unquote_encode_ascii [OF True, of t]
      by (simp add: s encode_step_def bad_rune_def rune_error_def)
  next
    case hi: False
    show ?thesis
    proof (cases "bad_rune (decode_rune s)")
      case True
      then show ?thesis
        using hi d unquote_encode_rune [of rune_error t]
        by (simp add: s encode_step_def bad_rune_def) (simp add: rune_error_def)
    next
      case False
      with encode_decode [OF assms] d have v: "valid_rune r" "encode_rune r = take n s" by auto
      have ge: "128 \<le> r" using decode_rune_ge128 [of c cs] hi False d by (simp add: s)
      show ?thesis
      proof (cases "r = 8232 \<or> r = 8233")
        case True
        have h: "CHR ''2'' = hex_digit 2" "CHR ''0'' = hex_digit 0" by (simp_all add: hex_digit_def)
        have "getu4 (CHR 0x5C # CHR ''u'' # CHR ''2'' # CHR ''0'' # CHR ''2'' # hex_digit r # t)
            = Some r" unfolding h getu4_hex using True by auto
        moreover have "\<not> is_surrogate r" using True by (auto simp: is_surrogate_def)
        ultimately have "unquote_step ([CHR 0x5C, CHR ''u'', CHR ''2'', CHR ''0'', CHR ''2'',
            hex_digit r] @ t) = Some (encode_rune r, 6)" using unquote_step_u by simp
        then have "unquote ([CHR 0x5C, CHR ''u'', CHR ''2'', CHR ''0'', CHR ''2'',
            hex_digit r] @ t) = map_option (\<lambda>u. encode_rune r @ u) (unquote t)"
          by (intro unquote_append_step) auto
        moreover have "fst (encode_step s) = [CHR 0x5C, CHR ''u'', CHR ''2'', CHR ''0'', CHR ''2'',
            hex_digit r]" using hi True False d
          by (auto simp: s encode_step_def bad_rune_def rune_error_def)
        ultimately show ?thesis using v False d by simp
      next
        case no: False
        then have "fst (encode_step s) = take n s"
          using hi False d by (auto simp: s encode_step_def bad_rune_def)
        then show ?thesis using unquote_encode_rune [OF v(1) ge, of t] v False d by simp
      qed
    qed
  qed
qed

lemma encode_step_snd:
  assumes "s \<noteq> []"
  shows "snd (encode_step s) = (if bad_rune (decode_rune s) then 1 else snd (decode_rune s))"
  using assms by (cases s) (auto simp: encode_step_def bad_rune_def rune_error_def Let_def split: prod.splits)

lemma unquote_escape: "unquote (escape s) = Some (to_valid s)"
proof (induction s rule: escape.induct)
  case (1 s)
  show ?case
  proof (cases "s = []")
    case True
    then show ?thesis by simp
  next
    case False
    with 1 show ?thesis
      by (simp add: escape_step unquote_encode_step encode_step_snd to_valid.simps [of s] drop_Suc)
  qed
qed

end
