(* ===== verification/Scanner.thy ===== *)
theory Scanner
  imports Json_String
begin

text \<open>
  The validating scanner of \<open>payload/jsonscan.go\<close> (type \<open>jsonScanner\<close>, function \<open>scanJSON\<close>)
  and \<open>Scan\<close> / \<open>ScanObject\<close> of \<open>payload/payload.go\<close>. The fields of \<open>jsonScanner\<close> that no
  method assigns (context, body, limits) form the environment; the others form the state,
  together with the number of polls made. Capacities of the two growing slices are state, for
  the code charges them to the structural budget.

  Lemmas: positions never move backwards and what a call consumes, and, from that, that the
  fuel of the recursive descent always suffices.
\<close>

section \<open>State and primitive steps\<close>

record scan_env =
  sc_ctx :: ctx
  sc_body :: string
  sc_limits :: limits

record scanner =
  s_pos :: nat
  s_nodes :: nat
  s_last_check :: nat
  s_path :: int
  s_paths :: "path_node list"
  s_paths_cap :: nat
  s_strings :: "string_token list"
  s_strings_cap :: nat
  s_structural :: int
  s_polls :: nat

type_synonym 'a scan = "(payload_error, scanner, 'a) M"

definition root_path_ref :: int where
  "root_path_ref = -1"

definition init_scanner :: "nat \<Rightarrow> scanner" where
  "init_scanner polls = \<lparr>s_pos = 0, s_nodes = 0, s_last_check = 0, s_path = root_path_ref,
     s_paths = [], s_paths_cap = 0, s_strings = [], s_strings_cap = 0, s_structural = 0,
     s_polls = polls\<rparr>"

definition invalid :: "nat \<Rightarrow> string \<Rightarrow> 'a scan" where
  "invalid offset reason = fail (InvalidJSON offset reason)"

definition check_now :: "scan_env \<Rightarrow> unit scan" where
  "check_now env s = (case poll (sc_ctx env) (s_polls s) of (r, n) \<Rightarrow> (r, s\<lparr>s_polls := n\<rparr>))"

definition check_at :: "scan_env \<Rightarrow> nat \<Rightarrow> unit scan" where
  "check_at env p s =
    (if int p - int (s_last_check s) < int context_check_interval then ret () s
     else check_now env (s\<lparr>s_last_check := p\<rparr>))"

definition advance :: "nat \<Rightarrow> unit scan" where
  "advance n = modify (\<lambda>s. s\<lparr>s_pos := s_pos s + n\<rparr>)"

text \<open>\<open>pos < len(body) && body[pos] == c\<close>\<close>

definition byte_is :: "scan_env \<Rightarrow> nat \<Rightarrow> char \<Rightarrow> bool" where
  "byte_is env p c \<longleftrightarrow> p < length (sc_body env) \<and> sc_body env ! p = c"

lemma check_now_state: "check_now env s = (r, t) \<Longrightarrow> \<exists>n. t = s\<lparr>s_polls := n\<rparr>"
  by (auto simp: check_now_def split: prod.splits)

lemma check_at_state:
  "check_at env p s = (r, t) \<Longrightarrow> \<exists>n l. t = s\<lparr>s_polls := n, s_last_check := l\<rparr>"
proof -
  assume a: "check_at env p s = (r, t)"
  show ?thesis
  proof (cases "int p - int (s_last_check s) < int context_check_interval")
    case True
    with a have "t = s\<lparr>s_polls := s_polls s, s_last_check := s_last_check s\<rparr>"
      by (simp add: check_at_def ret_def)
    then show ?thesis by blast
  next
    case False
    with a obtain n where "t = s\<lparr>s_last_check := p, s_polls := n\<rparr>"
      by (auto simp: check_at_def dest: check_now_state)
    then have "t = s\<lparr>s_polls := n, s_last_check := p\<rparr>" by simp
    then show ?thesis by blast
  qed
qed

lemma check_at_pos: "check_at env p s = (r, t) \<Longrightarrow> s_pos t = s_pos s"
  by (auto dest: check_at_state)

text \<open>
  The loops \<open>for s.pos < len(s.body) && P(s.body[s.pos]) { s.pos++; s.checkAt(s.pos) }\<close> of
  \<open>skipWhitespace\<close> and \<open>number\<close>.
\<close>

function skip_while :: "scan_env \<Rightarrow> (char \<Rightarrow> bool) \<Rightarrow> unit scan" where
  "skip_while env P s =
    (if s_pos s < length (sc_body env) \<and> P (sc_body env ! s_pos s) then
       bind (check_at env (Suc (s_pos s))) (\<lambda>_. skip_while env P) (s\<lparr>s_pos := Suc (s_pos s)\<rparr>)
     else ret () s)"
  by pat_completeness auto
termination
  by (relation "measure (\<lambda>(env, P, s). length (sc_body env) - s_pos s)") (auto dest: check_at_pos)

declare skip_while.simps [simp del]

definition is_space :: "char \<Rightarrow> bool" where
  "is_space c \<longleftrightarrow> c = CHR '' '' \<or> c = CHR 0x09 \<or> c = CHR 0x0A \<or> c = CHR 0x0D"

definition skip_whitespace :: "scan_env \<Rightarrow> unit scan" where
  "skip_whitespace env = skip_while env is_space"

definition retain :: "scan_env \<Rightarrow> int \<Rightarrow> unit scan" where
  "retain env n = bind get_state (\<lambda>s.
     if n < 0 \<or> n > MaxStructuralBytes (sc_limits env) - s_structural s then fail StructuralLimit
     else modify (\<lambda>s. s\<lparr>s_structural := s_structural s + n\<rparr>))"

definition retained_path_node_bytes :: int where
  "retained_path_node_bytes = 64"

definition retained_string_token_bytes :: int where
  "retained_string_token_bytes = 128"

definition append_path :: "scan_env \<Rightarrow> path_segment \<Rightarrow> nat \<Rightarrow> int scan" where
  "append_path env seg retained_string_bytes = bind get_state (\<lambda>s.
     seq (if length (s_paths s) = s_paths_cap s then
            (let new_cap = next_capacity (s_paths_cap s) (length (s_paths s) + 1)
             in seq (retain env (int retained_string_bytes
                       + (int new_cap - int (s_paths_cap s)) * retained_path_node_bytes))
                    (modify (\<lambda>s. s\<lparr>s_paths_cap := new_cap\<rparr>)))
          else retain env (int retained_string_bytes))
     (bind get_state (\<lambda>s.
        let ref = int32 (length (s_paths s)) in
        seq (modify (\<lambda>s. s\<lparr>s_paths := s_paths s @ [\<lparr>pn_parent = s_path s, pn_segment = seg\<rparr>]\<rparr>))
            (ret ref))))"

definition append_string :: "scan_env \<Rightarrow> string_token \<Rightarrow> unit scan" where
  "append_string env token = bind get_state (\<lambda>s.
     seq (if length (s_strings s) = s_strings_cap s then
            (let new_cap = next_capacity (s_strings_cap s) (length (s_strings s) + 1)
             in seq (retain env (int (length (tok_value token))
                       + (int new_cap - int (s_strings_cap s)) * retained_string_token_bytes))
                    (modify (\<lambda>s. s\<lparr>s_strings_cap := new_cap\<rparr>)))
          else retain env (int (length (tok_value token))))
     (modify (\<lambda>s. s\<lparr>s_strings := s_strings s @ [token]\<rparr>)))"

section \<open>Lexemes\<close>

text \<open>\<open>stringValue\<close>: the loop over \<open>i\<close>, and what it does at the closing quote.\<close>

definition decode_raw :: "bool \<Rightarrow> string \<Rightarrow> string option" where
  "decode_raw has_escape r =
    (let inner = slice r 1 (length r - 1) in
     if \<not> has_escape \<and> utf8_valid inner then Some inner else unmarshal_string r)"

definition close_string :: "scan_env \<Rightarrow> nat \<Rightarrow> nat \<Rightarrow> bool \<Rightarrow> string scan" where
  "close_string env start stop has_escape =
     (case decode_raw has_escape (slice (sc_body env) start stop) of
        None \<Rightarrow> invalid start ''invalid string''
      | Some v \<Rightarrow>
          seq (fail_if (int (length v) > MaxStringBytes (sc_limits env)) StringTooLarge)
          (seq (check_now env)
          (ret v)))"

function string_loop :: "scan_env \<Rightarrow> nat \<Rightarrow> nat \<Rightarrow> bool \<Rightarrow> string scan" where
  "string_loop env start i has_escape =
    (if i < length (sc_body env) then
       seq (check_at env i)
       (let c = sc_body env ! i in
        if c = CHR 0x22 then
          seq (modify (\<lambda>s. s\<lparr>s_pos := Suc i\<rparr>)) (close_string env start (Suc i) has_escape)
        else if c = CHR 0x5C then
          (if length (sc_body env) \<le> Suc i then invalid (Suc i) ''unterminated string escape''
           else let e = sc_body env ! Suc i in
             if simple_escape e \<noteq> None then string_loop env start (i + 2) True
             else if e = CHR ''u'' then
               (if length (sc_body env) \<le> Suc i + 4 then invalid (Suc i) ''short Unicode escape''
                else
                  seq (for_each [i + 2, i + 3, i + 4, i + 5]
                        (\<lambda>j. fail_if (\<not> is_hex (sc_body env ! j))
                               (InvalidJSON j ''invalid Unicode escape'')))
                  (string_loop env start (i + 6) True))
             else invalid (Suc i) ''invalid string escape'')
        else if byte_of c < 32 then invalid i ''unescaped control byte in string''
        else string_loop env start (Suc i) has_escape)
     else invalid (length (sc_body env)) ''unterminated string'')"
  by pat_completeness auto
termination
  by (relation "measure (\<lambda>(env, start, i, esc). length (sc_body env) - i)") auto

declare string_loop.simps [simp del]

definition string_value :: "scan_env \<Rightarrow> string scan" where
  "string_value env = bind (gets s_pos) (\<lambda>start. string_loop env start (start + 1) False)"

definition literal :: "scan_env \<Rightarrow> string \<Rightarrow> unit scan" where
  "literal env want = bind (gets s_pos) (\<lambda>p.
     if length (sc_body env) - p < length want \<or> slice (sc_body env) p (p + length want) \<noteq> want
     then invalid p ''invalid literal''
     else advance (length want))"

text \<open>The three parts of \<open>number\<close>: integer part, fraction, exponent.\<close>

definition digits1 :: "scan_env \<Rightarrow> string \<Rightarrow> unit scan" where
  "digits1 env reason = bind (gets s_pos) (\<lambda>from.
     seq (skip_while env is_digit)
     (bind (gets s_pos) (\<lambda>p. fail_if (p = from) (InvalidJSON p reason))))"

definition number_int :: "scan_env \<Rightarrow> unit scan" where
  "number_int env = bind (gets s_pos) (\<lambda>start.
     seq (if byte_is env start CHR ''-'' then
            seq (advance 1) (bind (gets s_pos) (\<lambda>p.
              fail_if (length (sc_body env) \<le> p) (InvalidJSON p (''digit required after '-'' @ [CHR 0x27]))))
          else ret ())
     (bind (gets s_pos) (\<lambda>p.
        if sc_body env ! p = CHR ''0'' then
          seq (advance 1) (bind (gets s_pos) (\<lambda>p.
            fail_if (p < length (sc_body env) \<and> is_digit (sc_body env ! p))
              (InvalidJSON p ''leading zero in number'')))
        else if is_digit (sc_body env ! p) then skip_while env is_digit
        else invalid start ''invalid number'')))"

definition number_frac :: "scan_env \<Rightarrow> unit scan" where
  "number_frac env = bind (gets s_pos) (\<lambda>p.
     if byte_is env p CHR ''.'' then seq (advance 1) (digits1 env ''fraction requires a digit'')
     else ret ())"

definition number_exp :: "scan_env \<Rightarrow> unit scan" where
  "number_exp env = bind (gets s_pos) (\<lambda>p.
     if byte_is env p CHR ''e'' \<or> byte_is env p CHR ''E'' then
       seq (advance 1)
       (seq (bind (gets s_pos) (\<lambda>p.
               if byte_is env p CHR ''+'' \<or> byte_is env p CHR ''-'' then advance 1 else ret ()))
       (digits1 env ''exponent requires a digit''))
     else ret ())"

definition number :: "scan_env \<Rightarrow> unit scan" where
  "number env = seq (number_int env) (seq (number_frac env) (number_exp env))"

section \<open>Values\<close>

definition new_token :: "string \<Rightarrow> nat \<Rightarrow> nat \<Rightarrow> kind \<Rightarrow> nat \<Rightarrow> int \<Rightarrow> string_token" where
  "new_token v start stop parent depth ref =
     \<lparr>tok_value = v, tok_span = \<lparr>Start = start, End = stop\<rparr>, tok_path = [],
      tok_parent_kind = parent, tok_depth = depth, tok_document = None, tok_ordinal = 0,
      tok_path_ref = ref\<rparr>"

definition string_node :: "scan_env \<Rightarrow> nat \<Rightarrow> kind \<Rightarrow> unit scan" where
  "string_node env depth parent = bind (gets s_pos) (\<lambda>start.
     bind (string_value env) (\<lambda>v. bind get_state (\<lambda>s.
       append_string env (new_token v start (s_pos s) parent depth (s_path s)))))"

text \<open>
  The checks at the head of \<open>value\<close>, up to the switch on the first byte.
\<close>

definition value_head :: "scan_env \<Rightarrow> nat \<Rightarrow> unit scan" where
  "value_head env depth =
     seq (check_now env)
     (seq (fail_if (int depth > MaxDepth (sc_limits env)) DepthLimit)
     (seq (modify (\<lambda>s. s\<lparr>s_nodes := s_nodes s + 1\<rparr>))
     (bind get_state (\<lambda>s.
       seq (fail_if (int (s_nodes s) > MaxNodes (sc_limits env)) NodeLimit)
       (fail_if (length (sc_body env) \<le> s_pos s) (InvalidJSON (s_pos s) ''expected value''))))))"

text \<open>
  \<open>object_key\<close> is the part of the loop of \<open>object\<close> before the call of \<open>value\<close>;
  \<open>with_path\<close> sets the path for that call and restores it on both exits.
\<close>

definition object_key :: "scan_env \<Rightarrow> string scan" where
  "object_key env = bind (gets s_pos) (\<lambda>p.
     seq (fail_if (\<not> byte_is env p CHR 0x22) (InvalidJSON p ''expected object key string''))
     (bind (string_value env) (\<lambda>key.
     seq (skip_whitespace env)
     (bind (gets s_pos) (\<lambda>p.
     seq (fail_if (\<not> byte_is env p CHR '':'') (InvalidJSON p ''expected ':' after object key''))
     (seq (advance 1)
     (seq (skip_whitespace env)
     (ret key))))))))"

definition with_path :: "scan_env \<Rightarrow> path_segment \<Rightarrow> nat \<Rightarrow> 'a scan \<Rightarrow> 'a scan" where
  "with_path env seg n m = bind get_state (\<lambda>s0.
     bind (append_path env seg n) (\<lambda>child.
     seq (modify (\<lambda>s. s\<lparr>s_path := child\<rparr>))
     (finally_do m (\<lambda>s. s\<lparr>s_path := s_path s0\<rparr>))))"

text \<open>
  After a member or an element: \<open>True\<close> when the container was closed, \<open>False\<close> after a comma.
\<close>

definition container_next :: "scan_env \<Rightarrow> char \<Rightarrow> string \<Rightarrow> string \<Rightarrow> bool scan" where
  "container_next env close unterminated expected =
     seq (skip_whitespace env)
     (bind (gets s_pos) (\<lambda>p.
       if length (sc_body env) \<le> p then invalid p unterminated
       else if sc_body env ! p = close then seq (advance 1) (ret True)
       else if sc_body env ! p = CHR '','' then
         seq (advance 1) (seq (skip_whitespace env) (ret False))
       else invalid p expected))"

text \<open>
  \<open>value\<close>, \<open>object\<close> and \<open>array\<close> with the loops of the latter two as functions of their
  own. Every call spends one unit of fuel.
\<close>

fun scan_value :: "scan_env \<Rightarrow> nat \<Rightarrow> nat \<Rightarrow> kind \<Rightarrow> kind scan"
  and scan_object :: "scan_env \<Rightarrow> nat \<Rightarrow> nat \<Rightarrow> unit scan"
  and object_loop :: "scan_env \<Rightarrow> nat \<Rightarrow> nat \<Rightarrow> unit scan"
  and scan_array :: "scan_env \<Rightarrow> nat \<Rightarrow> nat \<Rightarrow> unit scan"
  and array_loop :: "scan_env \<Rightarrow> nat \<Rightarrow> nat \<Rightarrow> nat \<Rightarrow> unit scan"
where
  "scan_value env 0 depth parent = fail OutOfFuel"
| "scan_value env (Suc fuel) depth parent =
     seq (value_head env depth)
     (bind (gets s_pos) (\<lambda>p. let c = sc_body env ! p in
        if c = CHR ''{'' then seq (scan_object env fuel depth) (ret KindObject)
        else if c = CHR ''['' then seq (scan_array env fuel depth) (ret KindArray)
        else if c = CHR 0x22 then seq (string_node env depth parent) (ret KindString)
        else if c = CHR ''t'' then seq (literal env ''true'') (ret KindBoolean)
        else if c = CHR ''f'' then seq (literal env ''false'') (ret KindBoolean)
        else if c = CHR ''n'' then seq (literal env ''null'') (ret KindNull)
        else if c = CHR ''-'' \<or> is_digit c then seq (number env) (ret KindNumber)
        else invalid p ''expected value''))"
| "scan_object env 0 depth = fail OutOfFuel"
| "scan_object env (Suc fuel) depth =
     seq (advance 1)
     (seq (skip_whitespace env)
     (bind (gets s_pos) (\<lambda>p.
        if byte_is env p CHR ''}'' then advance 1 else object_loop env fuel depth)))"
| "object_loop env 0 depth = fail OutOfFuel"
| "object_loop env (Suc fuel) depth =
     bind (object_key env) (\<lambda>key.
     seq (with_path env (Key key) (length key) (scan_value env fuel (depth + 1) KindObject))
     (bind (container_next env CHR ''}'' ''unterminated object'' ''expected ',' or '}' in object'')
       (\<lambda>closed. if closed then ret () else object_loop env fuel depth)))"
| "scan_array env 0 depth = fail OutOfFuel"
| "scan_array env (Suc fuel) depth =
     seq (advance 1)
     (seq (skip_whitespace env)
     (bind (gets s_pos) (\<lambda>p.
        if byte_is env p CHR '']'' then advance 1 else array_loop env fuel depth 0)))"
| "array_loop env 0 depth index = fail OutOfFuel"
| "array_loop env (Suc fuel) depth index =
     seq (with_path env (Index (int index)) 0 (scan_value env fuel (depth + 1) KindArray))
     (bind (container_next env CHR '']'' ''unterminated array'' ''expected ',' or ']' in array'')
       (\<lambda>closed. if closed then ret () else array_loop env fuel depth (index + 1)))"

section \<open>Documents\<close>

text \<open>
  \<open>scanJSON\<close> returns the kind and the span of the root and leaves the index in the scanner;
  \<open>initial_fuel\<close> is enough for any body, see \<open>scan_json_not_out_of_fuel\<close>.
\<close>

definition initial_fuel :: "string \<Rightarrow> nat" where
  "initial_fuel body = 3 * length body + 4"

definition scan_json :: "scan_env \<Rightarrow> (kind \<times> span) scan" where
  "scan_json env =
     seq (skip_whitespace env)
     (bind (gets s_pos) (\<lambda>start.
     seq (fail_if (start = length (sc_body env)) (InvalidJSON start ''empty input''))
     (bind (scan_value env (initial_fuel (sc_body env)) 1 KindInvalid) (\<lambda>kind.
     bind (gets s_pos) (\<lambda>stop.
     seq (skip_whitespace env)
     (bind (gets s_pos) (\<lambda>p.
     seq (fail_if (p \<noteq> length (sc_body env)) (InvalidJSON p ''data after root value''))
     (seq (check_now env)
     (ret (kind, \<lparr>Start = start, End = stop\<rparr>))))))))))"

fun number_tokens :: "nat \<Rightarrow> nat \<Rightarrow> string_token list \<Rightarrow> string_token list" where
  "number_tokens doc i [] = []"
| "number_tokens doc i (t # ts) =
     t\<lparr>tok_document := Some doc, tok_ordinal := i\<rparr> # number_tokens doc (Suc i) ts"

text \<open>\<open>Scan\<close>; \<open>self\<close> is the identity of the \<open>Document\<close> it allocates.\<close>

definition Scan :: "nat \<Rightarrow> ctx option \<Rightarrow> string \<Rightarrow> limits \<Rightarrow> (payload_error, nat, document) M" where
  "Scan self c body opts =
     bind (lift_res (normalized opts)) (\<lambda>limits.
     seq (fail_if (int (length body) > MaxBodyBytes limits) BodyTooLarge)
     (seq (poll (or_background c))
     (\<lambda>polls. case scan_json \<lparr>sc_ctx = or_background c, sc_body = body, sc_limits = limits\<rparr>
                   (init_scanner polls) of
        (Inl e, s) \<Rightarrow> (Inl e, s_polls s)
      | (Inr (kind, span), s) \<Rightarrow>
          (Inr \<lparr>doc_id = self, doc_body = body, doc_root_kind = kind, doc_root_span = span,
             doc_limits = limits, doc_strings = number_tokens self 0 (s_strings s),
             doc_paths = s_paths s, doc_structural_bytes = s_structural s,
             doc_node_count = s_nodes s\<rparr>, s_polls s))))"

definition ScanObject ::
  "nat \<Rightarrow> ctx option \<Rightarrow> string \<Rightarrow> limits \<Rightarrow> (payload_error, nat, document) M" where
  "ScanObject self c body opts =
     bind (Scan self c body opts) (\<lambda>doc.
     seq (fail_if (doc_root_kind doc \<noteq> KindObject) RootNotObject)
     (ret doc))"

end
