(* ===== verification/Scanner_Lex.thy ===== *)
theory Scanner_Lex
  imports Scanner
begin

text \<open>
  The lexical level of the scanner: reading whitespace, strings, literals and numbers changes
  nothing of the state but the position and the bookkeeping of polls, never moves backwards
  and never leaves the body. \<open>lexical env k m\<close> says so, with at least \<open>k\<close> bytes consumed.
\<close>

definition lex_step :: "scan_env \<Rightarrow> nat \<Rightarrow> scanner \<Rightarrow> scanner \<Rightarrow> bool" where
  "lex_step env k s t \<longleftrightarrow>
     (\<exists>p n l. t = s\<lparr>s_pos := p, s_polls := n, s_last_check := l\<rparr> \<and>
        s_pos s + k \<le> p \<and> p \<le> length (sc_body env))"

definition lexical :: "scan_env \<Rightarrow> nat \<Rightarrow> 'a scan \<Rightarrow> bool" where
  "lexical env k m \<longleftrightarrow>
     (\<forall>s x t. s_pos s \<le> length (sc_body env) \<longrightarrow> m s = (Inr x, t) \<longrightarrow> lex_step env k s t)"

named_theorems lexical_rules "lexical operations"

lemma lexicalI:
  "(\<And>s x t. s_pos s \<le> length (sc_body env) \<Longrightarrow> m s = (Inr x, t) \<Longrightarrow> lex_step env k s t) \<Longrightarrow>
   lexical env k m"
  by (simp add: lexical_def)

lemma lexicalD:
  "lexical env k m \<Longrightarrow> s_pos s \<le> length (sc_body env) \<Longrightarrow> m s = (Inr x, t) \<Longrightarrow> lex_step env k s t"
  by (simp add: lexical_def)

lemma lex_stepI:
  "t = s\<lparr>s_pos := p, s_polls := n, s_last_check := l\<rparr> \<Longrightarrow> s_pos s + k \<le> p \<Longrightarrow>
   p \<le> length (sc_body env) \<Longrightarrow> lex_step env k s t"
  by (auto simp: lex_step_def)

lemma lex_step_pos: "lex_step env k s t \<Longrightarrow> s_pos s + k \<le> s_pos t \<and> s_pos t \<le> length (sc_body env)"
  by (auto simp: lex_step_def)

lemma lex_step_refl: "s_pos s \<le> length (sc_body env) \<Longrightarrow> lex_step env 0 s s"
  by (rule lex_stepI [where p = "s_pos s" and n = "s_polls s" and l = "s_last_check s"]) auto

lemma lex_step_trans:
  assumes "lex_step env j s t" "lex_step env k t u" "i \<le> j + k"
  shows "lex_step env i s u"
proof -
  obtain p n l where t: "t = s\<lparr>s_pos := p, s_polls := n, s_last_check := l\<rparr>" "s_pos s + j \<le> p"
    using assms(1) by (auto simp: lex_step_def)
  obtain p' n' l' where u: "u = t\<lparr>s_pos := p', s_polls := n', s_last_check := l'\<rparr>"
    "s_pos t + k \<le> p'" "p' \<le> length (sc_body env)"
    using assms(2) by (auto simp: lex_step_def)
  have "u = s\<lparr>s_pos := p', s_polls := n', s_last_check := l'\<rparr>" using t u by simp
  then show ?thesis by (rule lex_stepI) (use t u assms(3) in auto)
qed

lemma lex_step_weaken: "lex_step env k s t \<Longrightarrow> j \<le> k \<Longrightarrow> lex_step env j s t"
  by (fastforce simp: lex_step_def)

lemma lex_step_more: "lex_step env j s t \<Longrightarrow> s_pos s + k \<le> s_pos t \<Longrightarrow> lex_step env k s t"
  unfolding lex_step_def by force

lemma lexical_weaken: "lexical env k m \<Longrightarrow> j \<le> k \<Longrightarrow> lexical env j m"
  by (auto simp: lexical_def intro: lex_step_weaken)

lemma lexical_bind [lexical_rules]:
  assumes m: "lexical env j m" and f: "\<And>x. lexical env k (f x)"
  shows "lexical env (j + k) (bind m f)"
proof (rule lexicalI)
  fix s y t assume s: "s_pos s \<le> length (sc_body env)" and "bind m f s = (Inr y, t)"
  then obtain x u where "m s = (Inr x, u)" and fx: "f x u = (Inr y, t)"
    by (auto simp: bind_Inr_iff)
  with m s have u: "lex_step env j s u" by (blast intro: lexicalD)
  with f fx have "lex_step env k u t" using lex_step_pos by (blast intro: lexicalD)
  with u show "lex_step env (j + k) s t" by (rule lex_step_trans) simp
qed

lemma lexical_basic [lexical_rules]:
  "lexical env 0 (ret x)" "lexical env 0 (gets f)" "lexical env 0 get_state"
  "lexical env 0 (fail_if b e)" "lexical env k (fail e')" "lexical env k (invalid p reason)"
  by (auto simp: lexical_def invalid_def intro: lex_step_refl)

lemma lexical_check_now [lexical_rules]: "lexical env 0 (check_now env)"
proof (rule lexicalI)
  fix s x t assume s: "s_pos s \<le> length (sc_body env)" and "check_now env s = (Inr x, t)"
  then obtain n where "t = s\<lparr>s_polls := n\<rparr>" using check_now_state by blast
  then have "t = s\<lparr>s_pos := s_pos s, s_polls := n, s_last_check := s_last_check s\<rparr>" by simp
  then show "lex_step env 0 s t" by (rule lex_stepI) (use s in auto)
qed

lemma lexical_check_at [lexical_rules]: "lexical env 0 (check_at env p)"
proof (rule lexicalI)
  fix s x t assume s: "s_pos s \<le> length (sc_body env)" and "check_at env p s = (Inr x, t)"
  then obtain n l where "t = s\<lparr>s_polls := n, s_last_check := l\<rparr>" using check_at_state by blast
  then have "t = s\<lparr>s_pos := s_pos s, s_polls := n, s_last_check := l\<rparr>" by simp
  then show "lex_step env 0 s t" by (rule lex_stepI) (use s in auto)
qed

lemma lex_step_advance:
  "s_pos s + n \<le> length (sc_body env) \<Longrightarrow> lex_step env n s (s\<lparr>s_pos := s_pos s + n\<rparr>)"
  by (rule lex_stepI [where p = "s_pos s + n" and n = "s_polls s" and l = "s_last_check s"]) auto

section \<open>Skipping\<close>

text \<open>\<open>skip_while\<close> stops at the first byte that does not satisfy the predicate.\<close>

definition all_in :: "(char \<Rightarrow> bool) \<Rightarrow> string \<Rightarrow> bool" where
  "all_in P xs \<longleftrightarrow> (\<forall>x \<in> set xs. P x)"

lemma skip_while_result:
  assumes "skip_while env P s = (Inr x, t)" "s_pos s \<le> length (sc_body env)"
  shows "lex_step env 0 s t \<and> all_in P (slice (sc_body env) (s_pos s) (s_pos t)) \<and>
    (s_pos t < length (sc_body env) \<longrightarrow> \<not> P (sc_body env ! s_pos t))"
  using assms
proof (induction env P s arbitrary: x t rule: skip_while.induct)
  case (1 env P s)
  show ?case
  proof (cases "s_pos s < length (sc_body env) \<and> P (sc_body env ! s_pos s)")
    case False
    with "1.prems" have "t = s" by (simp add: skip_while.simps [of env P s])
    with False "1.prems"(2) show ?thesis by (auto simp: all_in_def intro: lex_step_refl)
  next
    case True
    let ?s1 = "s\<lparr>s_pos := Suc (s_pos s)\<rparr>"
    from "1.prems"(1) True obtain u where u: "check_at env (Suc (s_pos s)) ?s1 = (Inr (), u)"
      and t: "skip_while env P u = (Inr x, t)"
      by (auto simp: skip_while.simps [of env P s] bind_Inr_iff)
    have s1: "lex_step env 1 s ?s1" using lex_step_advance [of s 1 env] True by simp
    have u1: "lex_step env 0 ?s1 u"
      by (rule lexicalD [OF lexical_check_at _ u]) (use True in simp)
    have pu: "s_pos u = Suc (s_pos s)" using check_at_pos [OF u] by simp
    have IH: "lex_step env 0 u t \<and> all_in P (slice (sc_body env) (s_pos u) (s_pos t)) \<and>
      (s_pos t < length (sc_body env) \<longrightarrow> \<not> P (sc_body env ! s_pos t))"
      using "1.IH" [OF True u t] pu True by simp
    have "s_pos u \<le> s_pos t" using IH lex_step_pos by fastforce
    then have "slice (sc_body env) (s_pos s) (s_pos t) =
        sc_body env ! s_pos s # slice (sc_body env) (s_pos u) (s_pos t)"
      using True pu by (simp add: slice_Cons)
    moreover have "lex_step env 0 s t"
      using lex_step_trans [OF s1 lex_step_trans [OF u1 conjunct1 [OF IH], of 0], of 0] by simp
    ultimately show ?thesis using IH True by (auto simp: all_in_def)
  qed
qed

lemma lexical_skip_while [lexical_rules]: "lexical env 0 (skip_while env P)"
  by (rule lexicalI) (blast dest: skip_while_result)

lemma lexical_skip_whitespace [lexical_rules]: "lexical env 0 (skip_whitespace env)"
  unfolding skip_whitespace_def by (rule lexical_skip_while)

section \<open>Strings, literals, numbers\<close>

lemma lexical_for_each_fail [lexical_rules]:
  "lexical env 0 (for_each xs (\<lambda>j. fail_if (b j) (e j)))"
proof (induction xs)
  case Nil
  show ?case by (simp add: lexical_basic)
next
  case (Cons x xs)
  show ?case unfolding for_each.simps
    by (rule lexical_bind [where j = 0 and k = 0, simplified]) (rule lexical_basic, rule Cons.IH)
qed

lemma close_string_state:
  assumes "close_string env start stop esc s = (Inr v, t)"
  shows "(\<exists>n. t = s\<lparr>s_polls := n\<rparr>) \<and> decode_raw esc (slice (sc_body env) start stop) = Some v \<and>
    int (length v) \<le> MaxStringBytes (sc_limits env)"
  using assms
  by (auto simp: close_string_def invalid_def bind_Inr_iff dest: check_now_state split: option.splits)

text \<open>
  \<open>string_body raw esc\<close>: the bytes between the quotes, as \<open>stringValue\<close> accepts them, with a
  flag for an escape among them.
\<close>

inductive string_body :: "string \<Rightarrow> bool \<Rightarrow> bool" where
  sb_nil: "string_body [] False"
| sb_plain: "string_body cs b \<Longrightarrow> c \<noteq> CHR 0x22 \<Longrightarrow> c \<noteq> CHR 0x5C \<Longrightarrow> 32 \<le> byte_of c \<Longrightarrow>
    string_body (c # cs) b"
| sb_simple: "string_body cs b \<Longrightarrow> simple_escape e \<noteq> None \<Longrightarrow> string_body (CHR 0x5C # e # cs) True"
| sb_unicode: "string_body cs b \<Longrightarrow> is_hex h1 \<Longrightarrow> is_hex h2 \<Longrightarrow> is_hex h3 \<Longrightarrow> is_hex h4 \<Longrightarrow>
    string_body (CHR 0x5C # CHR ''u'' # h1 # h2 # h3 # h4 # cs) True"

lemma for_each_fail_Inr:
  "for_each xs (\<lambda>j. fail_if (b j) (e j)) s = (Inr u, t) \<longleftrightarrow> (\<forall>x \<in> set xs. \<not> b x) \<and> t = s"
  by (induction xs) (auto simp: bind_Inr_iff)

lemma slice_6:
  assumes "i + 6 \<le> length b"
  shows "slice b i (i + 6 + k) =
    b ! i # b ! (i + 1) # b ! (i + 2) # b ! (i + 3) # b ! (i + 4) # b ! (i + 5) # slice b (i + 6) (i + 6 + k)"
  using assms by (simp add: slice_Cons eval_nat_numeral)

lemma string_loop_result:
  assumes "string_loop env start i esc s = (Inr v, t)"
  shows "\<exists>j n l esc'. i \<le> j \<and> j < length (sc_body env) \<and> sc_body env ! j = CHR 0x22 \<and>
    string_body (slice (sc_body env) i j) esc' \<and>
    decode_raw (esc \<or> esc') (slice (sc_body env) start (Suc j)) = Some v \<and>
    int (length v) \<le> MaxStringBytes (sc_limits env) \<and>
    t = s\<lparr>s_pos := Suc j, s_polls := n, s_last_check := l\<rparr>"
  using assms
proof (induction env start i esc arbitrary: s rule: string_loop.induct)
  case (1 env start i esc)
  let ?b = "sc_body env"
  have i: "i < length ?b"
    using "1.prems" by (cases "i < length ?b") (simp_all add: string_loop.simps [of env start i] invalid_def)
  let ?c = "?b ! i"
  from "1.prems" i obtain s1 where chk: "check_at env i s = (Inr (), s1)"
    and rest: "(if ?c = CHR 0x22 then
          seq (modify (\<lambda>s. s\<lparr>s_pos := Suc i\<rparr>)) (close_string env start (Suc i) esc)
        else if ?c = CHR 0x5C then
          (if length ?b \<le> Suc i then invalid (Suc i) ''unterminated string escape''
           else if simple_escape (?b ! Suc i) \<noteq> None then string_loop env start (i + 2) True
             else if ?b ! Suc i = CHR ''u'' then
               (if length ?b \<le> Suc i + 4 then invalid (Suc i) ''short Unicode escape''
                else
                  seq (for_each [i + 2, i + 3, i + 4, i + 5]
                        (\<lambda>j. fail_if (\<not> is_hex (?b ! j)) (InvalidJSON j ''invalid Unicode escape'')))
                  (string_loop env start (i + 6) True))
             else invalid (Suc i) ''invalid string escape'')
        else if byte_of ?c < 32 then invalid i ''unescaped control byte in string''
        else string_loop env start (Suc i) esc) s1 = (Inr v, t)"
    unfolding string_loop.simps [of env start i] if_P [OF i] Let_def bind_Inr_iff by auto
  obtain n1 l1 where s1: "s1 = s\<lparr>s_polls := n1, s_last_check := l1\<rparr>"
    using check_at_state [OF chk] by blast
  consider (quote) "?c = CHR 0x22"
    | (simple) "?c = CHR 0x5C" "Suc i < length ?b" "simple_escape (?b ! Suc i) \<noteq> None"
        "string_loop env start (i + 2) True s1 = (Inr v, t)"
    | (unicode) "?c = CHR 0x5C" "i + 5 < length ?b" "simple_escape (?b ! Suc i) = None"
        "?b ! Suc i = CHR ''u''"
        "is_hex (?b ! (i + 2))" "is_hex (?b ! (i + 3))" "is_hex (?b ! (i + 4))" "is_hex (?b ! (i + 5))"
        "string_loop env start (i + 6) True s1 = (Inr v, t)"
    | (plain) "?c \<noteq> CHR 0x22" "?c \<noteq> CHR 0x5C" "32 \<le> byte_of ?c"
        "string_loop env start (Suc i) esc s1 = (Inr v, t)"
    using rest
    by (auto simp: invalid_def Let_def bind_Inr_iff for_each_fail_Inr not_le not_less
        simp del: for_each.simps split: if_splits)
  then show ?case
  proof cases
    case quote
    with rest have "close_string env start (Suc i) esc (s1\<lparr>s_pos := Suc i\<rparr>) = (Inr v, t)"
      by (simp add: bind_Inr_iff)
    from close_string_state [OF this] obtain n where
      t: "t = s1\<lparr>s_pos := Suc i, s_polls := n\<rparr>"
      and v: "decode_raw esc (slice ?b start (Suc i)) = Some v"
      "int (length v) \<le> MaxStringBytes (sc_limits env)" by blast
    have "t = s\<lparr>s_pos := Suc i, s_polls := n, s_last_check := l1\<rparr>" using t by (simp add: s1)
    then show ?thesis using v i quote sb_nil
      by (intro exI [of _ i] exI [of _ n] exI [of _ l1] exI [of _ False]) auto
  next
    case simple
    have "?c \<noteq> CHR 0x22" using simple(1) by simp
    from "1.IH"(1) [OF i refl this simple(1) _ refl simple(3) simple(4)] simple(2)
    obtain j n l esc' where j: "i + 2 \<le> j" "j < length ?b" "?b ! j = CHR 0x22"
      "string_body (slice ?b (i + 2) j) esc'"
      "decode_raw True (slice ?b start (Suc j)) = Some v"
      "int (length v) \<le> MaxStringBytes (sc_limits env)"
      "t = s1\<lparr>s_pos := Suc j, s_polls := n, s_last_check := l\<rparr>" by auto
    have "slice ?b i j = CHR 0x5C # ?b ! Suc i # slice ?b (i + 2) j"
      using simple(1,2) j(1,2) i by (simp add: slice_Cons)
    then have "string_body (slice ?b i j) True" using sb_simple [OF j(4) simple(3)] by simp
    then show ?thesis using j by (intro exI [of _ j] exI [of _ n] exI [of _ l] exI [of _ True]) (auto simp: s1)
  next
    case unicode
    have "?c \<noteq> CHR 0x22" using unicode(1) by simp
    from "1.IH"(2) [OF i refl this unicode(1) _ refl _ unicode(4) _ unicode(9)] unicode(2,3)
    obtain j n l esc' where j: "i + 6 \<le> j" "j < length ?b" "?b ! j = CHR 0x22"
      "string_body (slice ?b (i + 6) j) esc'"
      "decode_raw True (slice ?b start (Suc j)) = Some v"
      "int (length v) \<le> MaxStringBytes (sc_limits env)"
      "t = s1\<lparr>s_pos := Suc j, s_polls := n, s_last_check := l\<rparr>" by auto
    have "slice ?b i (i + 6 + (j - (i + 6))) = CHR 0x5C # CHR ''u'' # ?b ! (i + 2) # ?b ! (i + 3) #
        ?b ! (i + 4) # ?b ! (i + 5) # slice ?b (i + 6) (i + 6 + (j - (i + 6)))"
      using slice_6 [of i ?b "j - (i + 6)"] unicode(1,2,4) by simp
    then have "string_body (slice ?b i j) True"
      using sb_unicode [OF j(4) unicode(5-8)] j(1) by simp
    then show ?thesis using j by (intro exI [of _ j] exI [of _ n] exI [of _ l] exI [of _ True]) (auto simp: s1)
  next
    case plain
    have "\<not> byte_of ?c < 32" using plain(3) by simp
    from "1.IH"(3) [OF i refl plain(1,2) this plain(4)]
    obtain j n l esc' where j: "Suc i \<le> j" "j < length ?b" "?b ! j = CHR 0x22"
      "string_body (slice ?b (Suc i) j) esc'"
      "decode_raw (esc \<or> esc') (slice ?b start (Suc j)) = Some v"
      "int (length v) \<le> MaxStringBytes (sc_limits env)"
      "t = s1\<lparr>s_pos := Suc j, s_polls := n, s_last_check := l\<rparr>" by auto
    have "slice ?b i j = ?c # slice ?b (Suc i) j" using j(1) i by (simp add: slice_Cons)
    then have "string_body (slice ?b i j) esc'" using sb_plain [OF j(4) plain(1-3)] by simp
    then show ?thesis using j by (intro exI [of _ j] exI [of _ n] exI [of _ l] exI [of _ esc']) (auto simp: s1)
  qed
qed

text \<open>A JSON string literal, quotes included, as the scanner accepts it.\<close>

definition json_string :: "string \<Rightarrow> bool" where
  "json_string w \<longleftrightarrow> (\<exists>cs b. w = quoted cs \<and> string_body cs b)"

lemma string_value_result:
  assumes "string_value env s = (Inr v, t)" "byte_is env (s_pos s) CHR 0x22"
  shows "lex_step env 2 s t \<and>
    json_string (slice (sc_body env) (s_pos s) (s_pos t)) \<and>
    (\<exists>esc. decode_raw esc (slice (sc_body env) (s_pos s) (s_pos t)) = Some v) \<and>
    int (length v) \<le> MaxStringBytes (sc_limits env)"
proof -
  let ?b = "sc_body env" and ?p = "s_pos s"
  from assms(1) have "string_loop env ?p (?p + 1) False s = (Inr v, t)"
    by (simp add: string_value_def bind_Inr_iff)
  from string_loop_result [OF this] obtain j n l esc where j: "?p + 1 \<le> j" "j < length ?b"
    "?b ! j = CHR 0x22" "string_body (slice ?b (?p + 1) j) esc"
    "decode_raw esc (slice ?b ?p (Suc j)) = Some v"
    "int (length v) \<le> MaxStringBytes (sc_limits env)"
    "t = s\<lparr>s_pos := Suc j, s_polls := n, s_last_check := l\<rparr>" by auto
  have p: "?p < length ?b" "?b ! ?p = CHR 0x22" using assms(2) by (simp_all add: byte_is_def)
  have "slice ?b ?p (Suc j) = slice ?b ?p j @ slice ?b j (Suc j)"
    using j(1) by (simp add: slice_append)
  also have "slice ?b ?p j = CHR 0x22 # slice ?b (?p + 1) j" using p j(1) by (simp add: slice_Cons)
  also have "slice ?b j (Suc j) = [CHR 0x22]" using j(2,3) by (simp add: slice_Cons)
  finally have "slice ?b ?p (Suc j) = quoted (slice ?b (?p + 1) j)" by (simp add: quoted_def)
  then have "json_string (slice ?b ?p (Suc j))" using j(4) by (auto simp: json_string_def)
  moreover have "lex_step env 2 s t" by (rule lex_stepI [OF j(7)]) (use j in auto)
  ultimately show ?thesis using j by auto
qed

lemma literal_result:
  assumes "literal env w s = (Inr u, t)" "s_pos s \<le> length (sc_body env)"
  shows "lex_step env (length w) s t \<and> slice (sc_body env) (s_pos s) (s_pos t) = w"
proof -
  from assms have t: "t = s\<lparr>s_pos := s_pos s + length w\<rparr>"
    and w: "slice (sc_body env) (s_pos s) (s_pos s + length w) = w"
      "s_pos s + length w \<le> length (sc_body env)"
    by (auto simp: literal_def bind_Inr_iff advance_def invalid_def split: if_splits)
  show ?thesis using lex_step_advance [OF w(2)] w(1) by (simp add: t)
qed

subsection \<open>Numbers\<close>

definition digit_run :: "string \<Rightarrow> bool" where
  "digit_run ds \<longleftrightarrow> ds \<noteq> [] \<and> all_in is_digit ds"

definition int_part :: "string \<Rightarrow> bool" where
  "int_part w \<longleftrightarrow> w = ''0'' \<or> (digit_run w \<and> hd w \<noteq> CHR ''0'')"

definition frac_part :: "string \<Rightarrow> bool" where
  "frac_part w \<longleftrightarrow> w = [] \<or> (\<exists>ds. w = CHR ''.'' # ds \<and> digit_run ds)"

definition exp_part :: "string \<Rightarrow> bool" where
  "exp_part w \<longleftrightarrow> w = [] \<or>
     (\<exists>x sgn ds. w = x # sgn @ ds \<and> x \<in> {CHR ''e'', CHR ''E''} \<and>
        sgn \<in> {[], ''+'', ''-''} \<and> digit_run ds)"

definition json_number :: "string \<Rightarrow> bool" where
  "json_number w \<longleftrightarrow>
     (\<exists>sgn i f e. w = sgn @ i @ f @ e \<and> sgn \<in> {[], ''-''} \<and> int_part i \<and> frac_part f \<and> exp_part e)"

lemma slice_single: "p < length b \<Longrightarrow> slice b p (Suc p) = [b ! p]"
  by (simp add: slice_Cons)

lemma digits1_result:
  assumes "digits1 env reason s = (Inr u, t)" "s_pos s \<le> length (sc_body env)"
  shows "lex_step env 1 s t \<and> digit_run (slice (sc_body env) (s_pos s) (s_pos t))"
proof -
  from assms(1) have sk: "skip_while env is_digit s = (Inr (), t)" and ne: "s_pos t \<noteq> s_pos s"
    by (auto simp: digits1_def bind_Inr_iff)
  from skip_while_result [OF sk assms(2)]
  have l: "lex_step env 0 s t" and d: "all_in is_digit (slice (sc_body env) (s_pos s) (s_pos t))"
    by auto
  from lex_step_pos [OF l] ne have "s_pos s < s_pos t" "s_pos t \<le> length (sc_body env)" by auto
  then have "lex_step env 1 s t" and "slice (sc_body env) (s_pos s) (s_pos t) \<noteq> []"
    using lex_step_more [OF l, of 1] by (auto simp: slice_Cons)
  with d show ?thesis by (simp add: digit_run_def)
qed

lemma number_frac_result:
  assumes "number_frac env s = (Inr u, t)" "s_pos s \<le> length (sc_body env)"
  shows "lex_step env 0 s t \<and> frac_part (slice (sc_body env) (s_pos s) (s_pos t))"
proof (cases "byte_is env (s_pos s) CHR ''.''")
  case False
  with assms show ?thesis
    by (auto simp: number_frac_def bind_Inr_iff frac_part_def intro: lex_step_refl)
next
  case True
  then have p: "s_pos s < length (sc_body env)" "sc_body env ! s_pos s = CHR ''.''"
    by (simp_all add: byte_is_def)
  let ?s1 = "s\<lparr>s_pos := s_pos s + 1\<rparr>"
  from assms(1) True have "digits1 env ''fraction requires a digit'' ?s1 = (Inr u, t)"
    by (simp add: number_frac_def bind_Inr_iff advance_def)
  from digits1_result [OF this] p have d: "lex_step env 1 ?s1 t"
    "digit_run (slice (sc_body env) (s_pos s + 1) (s_pos t))" by auto
  have "lex_step env 1 s ?s1" using lex_step_advance [of s 1 env] p by simp
  then have "lex_step env 0 s t" using d(1) by (rule lex_step_trans) simp
  moreover have "slice (sc_body env) (s_pos s) (s_pos t) =
      CHR ''.'' # slice (sc_body env) (s_pos s + 1) (s_pos t)"
    using p lex_step_pos [OF d(1)] by (simp add: slice_Cons)
  ultimately show ?thesis using d(2) by (auto simp: frac_part_def)
qed

lemma number_exp_result:
  assumes "number_exp env s = (Inr u, t)" "s_pos s \<le> length (sc_body env)"
  shows "lex_step env 0 s t \<and> exp_part (slice (sc_body env) (s_pos s) (s_pos t))"
proof (cases "byte_is env (s_pos s) CHR ''e'' \<or> byte_is env (s_pos s) CHR ''E''")
  case False
  with assms show ?thesis
    by (auto simp: number_exp_def bind_Inr_iff exp_part_def intro: lex_step_refl)
next
  case True
  let ?b = "sc_body env"
  have p: "s_pos s < length ?b" "?b ! s_pos s \<in> {CHR ''e'', CHR ''E''}"
    using True by (auto simp: byte_is_def)
  let ?s1 = "s\<lparr>s_pos := s_pos s + 1\<rparr>"
  define k where "k = (if byte_is env (s_pos s + 1) CHR ''+'' \<or> byte_is env (s_pos s + 1) CHR ''-''
    then 1 else 0 :: nat)"
  let ?s2 = "s\<lparr>s_pos := s_pos s + 1 + k\<rparr>"
  from assms(1) True have dg: "digits1 env ''exponent requires a digit'' ?s2 = (Inr u, t)"
    by (auto simp: number_exp_def bind_Inr_iff advance_def k_def)
  have k: "s_pos s + 1 + k \<le> length ?b" using p by (auto simp: k_def byte_is_def)
  from digits1_result [OF dg] k have d: "lex_step env 1 ?s2 t"
    "digit_run (slice ?b (s_pos s + 1 + k) (s_pos t))" by auto
  have "lex_step env (1 + k) s ?s2" using lex_step_advance [of s "1 + k" env] k by (simp add: ac_simps)
  then have l: "lex_step env 0 s t" using d(1) by (rule lex_step_trans) simp
  have sgn: "slice ?b (s_pos s + 1) (s_pos s + 1 + k) \<in> {[], ''+'', ''-''}"
    using p by (auto simp: k_def byte_is_def slice_single)
  have le: "s_pos s + 1 + k \<le> s_pos t" using lex_step_pos [OF d(1)] by simp
  have "slice ?b (s_pos s) (s_pos t) = ?b ! s_pos s # slice ?b (s_pos s + 1) (s_pos t)"
    using p(1) le by (simp add: slice_Cons)
  also have "slice ?b (s_pos s + 1) (s_pos t) =
      slice ?b (s_pos s + 1) (s_pos s + 1 + k) @ slice ?b (s_pos s + 1 + k) (s_pos t)"
    using le by (simp add: slice_append)
  finally show ?thesis using l sgn d(2) p(2) unfolding exp_part_def by blast
qed

lemma number_int_result:
  assumes "number_int env s = (Inr u, t)" "s_pos s < length (sc_body env)"
  shows "lex_step env 1 s t \<and>
    (\<exists>sgn i. slice (sc_body env) (s_pos s) (s_pos t) = sgn @ i \<and> sgn \<in> {[], ''-''} \<and> int_part i)"
proof -
  let ?b = "sc_body env"
  define k where "k = (if byte_is env (s_pos s) CHR ''-'' then 1 else 0 :: nat)"
  let ?p = "s_pos s + k" let ?s1 = "s\<lparr>s_pos := ?p\<rparr>"
  have p: "?p < length ?b"
    using assms by (auto simp: number_int_def bind_Inr_iff advance_def k_def split: if_splits)
  have rest: "(if ?b ! ?p = CHR ''0'' then
          seq (advance 1) (bind (gets s_pos) (\<lambda>p.
            fail_if (p < length ?b \<and> is_digit (?b ! p))
              (InvalidJSON p ''leading zero in number'')))
        else if is_digit (?b ! ?p) then skip_while env is_digit
        else invalid (s_pos s) ''invalid number'') ?s1 = (Inr u, t)"
    using assms(1) by (auto simp: number_int_def bind_Inr_iff advance_def k_def split: if_splits)
  have sgn: "slice ?b (s_pos s) ?p \<in> {[], ''-''}"
    using assms(2) by (auto simp: k_def byte_is_def slice_single)
  have s1: "lex_step env k s ?s1" using lex_step_advance [of s k env] p by simp
  have "lex_step env 1 ?s1 t \<and> int_part (slice ?b ?p (s_pos t))"
  proof (cases "?b ! ?p = CHR ''0''")
    case True
    with rest have t: "t = s\<lparr>s_pos := ?p + 1\<rparr>" by (auto simp: bind_Inr_iff advance_def)
    have "slice ?b ?p (?p + 1) = ''0''" using True p by (simp add: slice_single)
    moreover have "lex_step env 1 ?s1 t" using lex_step_advance [of ?s1 1 env] p t by simp
    ultimately show ?thesis by (simp add: t int_part_def)
  next
    case False
    with rest have dg: "is_digit (?b ! ?p)" and sk: "skip_while env is_digit ?s1 = (Inr u, t)"
      by (auto simp: invalid_def split: if_splits)
    from skip_while_result [OF sk] p
    have l: "lex_step env 0 ?s1 t" and a: "all_in is_digit (slice ?b ?p (s_pos t))"
      and stop: "s_pos t < length ?b \<longrightarrow> \<not> is_digit (?b ! s_pos t)" by auto
    have lt: "?p < s_pos t" using lex_step_pos [OF l] stop dg p by (cases "s_pos t = ?p") auto
    then have "lex_step env 1 ?s1 t" using lex_step_more [OF l, of 1] by simp
    moreover have "slice ?b ?p (s_pos t) = ?b ! ?p # slice ?b (Suc ?p) (s_pos t)"
      using lt p by (simp add: slice_Cons)
    ultimately show ?thesis using a False by (simp add: int_part_def digit_run_def)
  qed
  then have l: "lex_step env 1 ?s1 t" and i: "int_part (slice ?b ?p (s_pos t))" by auto
  have "slice ?b (s_pos s) (s_pos t) = slice ?b (s_pos s) ?p @ slice ?b ?p (s_pos t)"
    using lex_step_pos [OF l] by (simp add: slice_append)
  moreover have "lex_step env 1 s t" using s1 l by (rule lex_step_trans) simp
  ultimately show ?thesis using sgn i by blast
qed

lemma number_result:
  assumes "number env s = (Inr u, t)" "s_pos s < length (sc_body env)"
  shows "lex_step env 1 s t \<and> json_number (slice (sc_body env) (s_pos s) (s_pos t))"
proof -
  let ?b = "sc_body env"
  from assms(1) obtain s1 s2 where ni: "number_int env s = (Inr (), s1)"
    and nf: "number_frac env s1 = (Inr (), s2)" and ne: "number_exp env s2 = (Inr u, t)"
    by (auto simp: number_def bind_Inr_iff)
  from number_int_result [OF ni assms(2)] obtain sgn i where i: "lex_step env 1 s s1"
    "slice ?b (s_pos s) (s_pos s1) = sgn @ i" "sgn \<in> {[], ''-''}" "int_part i" by auto
  from number_frac_result [OF nf] lex_step_pos [OF i(1)]
  have f: "lex_step env 0 s1 s2" "frac_part (slice ?b (s_pos s1) (s_pos s2))" by auto
  from number_exp_result [OF ne] lex_step_pos [OF f(1)]
  have e: "lex_step env 0 s2 t" "exp_part (slice ?b (s_pos s2) (s_pos t))" by auto
  have "slice ?b (s_pos s) (s_pos t) = slice ?b (s_pos s) (s_pos s1) @
      slice ?b (s_pos s1) (s_pos s2) @ slice ?b (s_pos s2) (s_pos t)"
    using lex_step_pos [OF i(1)] lex_step_pos [OF f(1)] lex_step_pos [OF e(1)]
    by (simp add: slice_append)
  then have "json_number (slice ?b (s_pos s) (s_pos t))"
    using i f e by (auto simp: json_number_def)
  moreover have "lex_step env 1 s t"
    by (rule lex_step_trans [OF i(1) lex_step_trans [OF f(1) e(1)]]) auto
  ultimately show ?thesis by simp
qed

end
