(* ===== verification/Path_Arena.thy ===== *)
theory Path_Arena
  imports Prelude
begin

text \<open>
  Paths stored as parent references. Both the scanner (\<open>pathNode\<close> in \<open>payload/payload.go\<close>)
  and the tree parser (\<open>treePathNode\<close> in \<open>walker/tree.go\<close>) keep the path of every value as a
  node with the index of its parent, and follow the references by a loop
  \<open>for current := ref; current >= 0; current = nodes[current].parent\<close>.

  \<open>chain\<close> is the list of the nodes that loop visits, nearest first. It is \<open>None\<close> where the
  loop would not end or would index out of range; on a well-formed arena it never is.
\<close>

partial_function (option) chain :: "('n \<Rightarrow> int) \<Rightarrow> 'n list \<Rightarrow> int \<Rightarrow> 'n list option" where
  "chain parent nodes ref =
    (if ref < 0 then Some []
     else if nat ref < length nodes then
       Option.bind (chain parent nodes (parent (nodes ! nat ref)))
         (\<lambda>rest. Some (nodes ! nat ref # rest))
     else None)"

declare chain.simps [code]

definition arena_ok :: "('n \<Rightarrow> int) \<Rightarrow> 'n list \<Rightarrow> bool" where
  "arena_ok parent nodes \<longleftrightarrow>
     (\<forall>i < length nodes. -1 \<le> parent (nodes ! i) \<and> parent (nodes ! i) < int i)"

lemma arena_ok_Nil [simp]: "arena_ok parent []"
  by (simp add: arena_ok_def)

lemma arena_ok_snoc:
  "arena_ok parent nodes \<Longrightarrow> -1 \<le> parent x \<Longrightarrow> parent x < int (length nodes) \<Longrightarrow>
   arena_ok parent (nodes @ [x])"
  by (auto simp: arena_ok_def nth_append less_Suc_eq)

lemma chain_neg [simp]: "ref < 0 \<Longrightarrow> chain parent nodes ref = Some []"
  by (simp add: chain.simps)

lemma chain_step:
  "0 \<le> ref \<Longrightarrow> nat ref < length nodes \<Longrightarrow> chain parent nodes (parent (nodes ! nat ref)) = Some xs \<Longrightarrow>
   chain parent nodes ref = Some (nodes ! nat ref # xs)"
  by (simp add: chain.simps [of parent nodes ref])

lemma chain_range: "chain parent nodes ref = Some xs \<Longrightarrow> ref < int (length nodes)"
  by (simp add: chain.simps [of parent nodes ref] split: if_splits)

lemma chain_Some_cases:
  assumes "chain parent nodes ref = Some xs"
  obtains "ref < 0" "xs = []"
  | ys where "0 \<le> ref" "nat ref < length nodes" "xs = nodes ! nat ref # ys"
      "chain parent nodes (parent (nodes ! nat ref)) = Some ys"
proof (cases "ref < 0")
  case True
  with assms that(1) show thesis by simp
next
  case False
  with assms obtain ys where "nat ref < length nodes" "xs = nodes ! nat ref # ys"
    "chain parent nodes (parent (nodes ! nat ref)) = Some ys"
    by (auto simp: chain.simps [of parent nodes ref] split: if_splits Option.bind_splits)
  with False that(2) show thesis by simp
qed

text \<open>On a well-formed arena the loop ends, within \<open>ref + 1\<close> rounds.\<close>

lemma chain_total:
  assumes "arena_ok parent nodes" "ref < int (length nodes)"
  shows "\<exists>xs. chain parent nodes ref = Some xs \<and> int (length xs) \<le> max 0 (ref + 1)"
  using assms(2)
proof (induction "nat (ref + 1)" arbitrary: ref rule: less_induct)
  case less
  show ?case
  proof (cases "ref < 0")
    case True
    then show ?thesis by simp
  next
    case False
    define p where "p = parent (nodes ! nat ref)"
    have p: "-1 \<le> p" "p < ref"
      using assms(1) [unfolded arena_ok_def, rule_format, of "nat ref"] False less.prems
      by (auto simp: p_def)
    with less.hyps [of p] less.prems obtain xs
      where xs: "chain parent nodes p = Some xs" "int (length xs) \<le> max 0 (p + 1)" by auto
    with chain_step [of ref nodes parent xs] False less.prems
    have "chain parent nodes ref = Some (nodes ! nat ref # xs)" by (simp add: p_def)
    then show ?thesis using xs(2) p by auto
  qed
qed

text \<open>Growing the arena does not disturb the paths it holds.\<close>

lemma chain_append: "chain parent nodes ref = Some xs \<Longrightarrow> chain parent (nodes @ ys) ref = Some xs"
proof (induction xs arbitrary: ref)
  case Nil
  then show ?case by (cases rule: chain_Some_cases) auto
next
  case (Cons x xs)
  from Cons.prems show ?case
  proof (cases rule: chain_Some_cases)
    case (2 zs)
    with Cons.IH have "chain parent (nodes @ ys) (parent x) = Some xs" by auto
    with 2 chain_step [of ref "nodes @ ys" parent xs] show ?thesis by (auto simp: nth_append)
  qed simp
qed

lemma chain_snoc:
  "chain parent nodes (parent x) = Some xs \<Longrightarrow>
   chain parent (nodes @ [x]) (int (length nodes)) = Some (x # xs)"
  using chain_step [of "int (length nodes)" "nodes @ [x]" parent xs]
  by (simp add: chain_append)

end
