(* ===== verification/Scanner_Grammar.thy ===== *)
theory Scanner_Grammar
  imports Scanner_Lex Path_Arena
begin

text \<open>
  What the recursive descent of the scanner accepts. The grammar of JSON documents is stated
  independently of the scanner, as inductive predicates over byte strings; every value the
  scanner accepts is a sentence of it. The same induction shows how the state grows: the path
  is restored, the arena and the list of strings are only extended, the position advances.
  From that follows that the fuel of the descent always suffices.
\<close>

section \<open>The grammar\<close>

abbreviation blank :: "string \<Rightarrow> bool" where
  "blank \<equiv> all_in is_space"

text \<open>
  \<open>json_members\<close> and \<open>json_elements\<close> are the non-empty bodies of an object and of an array
  with their closing bracket.
\<close>

inductive json_value :: "string \<Rightarrow> bool"
  and json_members :: "string \<Rightarrow> bool"
  and json_elements :: "string \<Rightarrow> bool"
where
  jv_string: "json_string w \<Longrightarrow> json_value w"
| jv_number: "json_number w \<Longrightarrow> json_value w"
| jv_literal: "w \<in> {''true'', ''false'', ''null''} \<Longrightarrow> json_value w"
| jv_empty_object: "blank a \<Longrightarrow> json_value (''{'' @ a @ ''}'')"
| jv_object: "blank a \<Longrightarrow> json_members m \<Longrightarrow> json_value (''{'' @ a @ m)"
| jv_empty_array: "blank a \<Longrightarrow> json_value (''['' @ a @ '']'')"
| jv_array: "blank a \<Longrightarrow> json_elements m \<Longrightarrow> json_value (''['' @ a @ m)"
| jm_last: "json_string k \<Longrightarrow> blank a \<Longrightarrow> blank b \<Longrightarrow> json_value v \<Longrightarrow> blank c \<Longrightarrow>
    json_members ((k @ a @ '':'' @ b) @ v @ (c @ ''}''))"
| jm_more: "json_string k \<Longrightarrow> blank a \<Longrightarrow> blank b \<Longrightarrow> json_value v \<Longrightarrow> blank c \<Longrightarrow> blank d \<Longrightarrow>
    json_members m \<Longrightarrow> json_members ((k @ a @ '':'' @ b) @ v @ (c @ '','' @ d) @ m)"
| je_last: "json_value v \<Longrightarrow> blank c \<Longrightarrow> json_elements (v @ (c @ '']''))"
| je_more: "json_value v \<Longrightarrow> blank c \<Longrightarrow> blank d \<Longrightarrow> json_elements m \<Longrightarrow>
    json_elements (v @ (c @ '','' @ d) @ m)"

text \<open>A document is one value surrounded by blanks.\<close>

definition json_document :: "string \<Rightarrow> bool" where
  "json_document w \<longleftrightarrow> (\<exists>a v b. w = a @ v @ b \<and> blank a \<and> json_value v \<and> blank b)"

section \<open>Results of the steps\<close>

lemma skip_whitespace_result:
  assumes "skip_whitespace env s = (Inr u, t)" "s_pos s \<le> length (sc_body env)"
  shows "lex_step env 0 s t \<and> blank (slice (sc_body env) (s_pos s) (s_pos t))"
  using skip_while_result [OF assms(1) [unfolded skip_whitespace_def] assms(2)] by blast

lemma value_head_result:
  assumes "value_head env d s = (Inr u, t)"
  shows "(\<exists>n. t = s\<lparr>s_polls := n, s_nodes := s_nodes s + 1\<rparr>) \<and>
    int d \<le> MaxDepth (sc_limits env) \<and> int (s_nodes s + 1) \<le> MaxNodes (sc_limits env) \<and>
    s_pos s < length (sc_body env)"
  using assms by (auto simp: value_head_def bind_Inr_iff not_le dest!: check_now_state)

definition grow_cap :: "nat \<Rightarrow> nat \<Rightarrow> nat" where
  "grow_cap len cap = (if len = cap then next_capacity cap (len + 1) else cap)"

lemma retain_result:
  "retain env n s = (Inr u, t) \<longleftrightarrow> 0 \<le> n \<and> n \<le> MaxStructuralBytes (sc_limits env) - s_structural s \<and>
     t = s\<lparr>s_structural := s_structural s + n\<rparr>"
  by (auto simp: retain_def bind_Inr_iff not_less split: if_splits)

lemma append_path_result:
  assumes "append_path env seg n s = (Inr ref, t)"
  shows "ref = int32 (length (s_paths s)) \<and>
    t = s\<lparr>s_paths_cap := grow_cap (length (s_paths s)) (s_paths_cap s),
          s_structural := s_structural s + int n +
            (int (grow_cap (length (s_paths s)) (s_paths_cap s)) - int (s_paths_cap s)) * 64,
          s_paths := s_paths s @ [\<lparr>pn_parent = s_path s, pn_segment = seg\<rparr>]\<rparr> \<and>
    s_structural t \<le> MaxStructuralBytes (sc_limits env)"
  using assms
  by (auto simp: append_path_def bind_Inr_iff retain_result Let_def grow_cap_def
      retained_path_node_bytes_def split: if_splits)

lemma append_string_result:
  assumes "append_string env tok s = (Inr u, t)"
  shows "t = s\<lparr>s_strings_cap := grow_cap (length (s_strings s)) (s_strings_cap s),
          s_structural := s_structural s + int (length (tok_value tok)) +
            (int (grow_cap (length (s_strings s)) (s_strings_cap s)) - int (s_strings_cap s)) * 128,
          s_strings := s_strings s @ [tok]\<rparr> \<and>
    s_structural t \<le> MaxStructuralBytes (sc_limits env)"
  using assms
  by (auto simp: append_string_def bind_Inr_iff retain_result Let_def grow_cap_def
      retained_string_token_bytes_def split: if_splits)

lemma with_path_result:
  assumes "with_path env seg n m s = (Inr x, t)"
  obtains ref u v where "append_path env seg n s = (Inr ref, u)" "m (u\<lparr>s_path := ref\<rparr>) = (Inr x, v)"
    "t = v\<lparr>s_path := s_path s\<rparr>"
  using assms that by (auto simp: with_path_def bind_Inr_iff finally_do_iff)

lemma string_node_result:
  assumes "string_node env d parent s = (Inr x, t)"
  obtains v u where "string_value env s = (Inr v, u)"
    "append_string env (new_token v (s_pos s) (s_pos u) parent d (s_path u)) u = (Inr (), t)"
  using assms that by (auto simp: string_node_def bind_Inr_iff)

lemma object_key_result:
  assumes "object_key env s = (Inr key, t)" "s_pos s \<le> length (sc_body env)"
  shows "lex_step env 3 s t \<and> int (length key) \<le> MaxStringBytes (sc_limits env) \<and>
    (\<exists>k a b. slice (sc_body env) (s_pos s) (s_pos t) = k @ a @ '':'' @ b \<and>
       json_string k \<and> (\<exists>esc. decode_raw esc k = Some key) \<and> blank a \<and> blank b)"
proof -
  let ?b = "sc_body env"
  from assms(1) obtain s1 s2 where q: "byte_is env (s_pos s) CHR 0x22"
    and v: "string_value env s = (Inr key, s1)" and w1: "skip_whitespace env s1 = (Inr (), s2)"
    and colon: "byte_is env (s_pos s2) CHR '':''"
    and w2: "skip_whitespace env (s2\<lparr>s_pos := s_pos s2 + 1\<rparr>) = (Inr (), t)"
    by (auto simp: object_key_def bind_Inr_iff advance_def)
  let ?s3 = "s2\<lparr>s_pos := s_pos s2 + 1\<rparr>"
  note v = string_value_result [OF v q]
  have l1: "lex_step env 2 s s1" using v by simp
  from skip_whitespace_result [OF w1] lex_step_pos [OF l1]
  have l2: "lex_step env 0 s1 s2" and b1: "blank (slice ?b (s_pos s1) (s_pos s2))" by auto
  have c: "s_pos s2 < length ?b" "?b ! s_pos s2 = CHR '':''" using colon by (auto simp: byte_is_def)
  have l3: "lex_step env 1 s2 ?s3" using lex_step_advance [of s2 1 env] c by simp
  from skip_whitespace_result [OF w2] c
  have l4: "lex_step env 0 ?s3 t" and b2: "blank (slice ?b (s_pos s2 + 1) (s_pos t))" by auto
  have "lex_step env 3 s t"
    by (rule lex_step_trans [OF l1 lex_step_trans [OF l2 lex_step_trans [OF l3 l4 order_refl] order_refl]]) simp
  moreover have "slice ?b (s_pos s) (s_pos t) = slice ?b (s_pos s) (s_pos s1) @
      slice ?b (s_pos s1) (s_pos s2) @ '':'' @ slice ?b (s_pos s2 + 1) (s_pos t)"
  proof -
    have "slice ?b (s_pos s2) (s_pos t) = '':'' @ slice ?b (s_pos s2 + 1) (s_pos t)"
      using c lex_step_pos [OF l4] by (simp add: slice_Cons)
    moreover have "slice ?b (s_pos s) (s_pos t) =
        slice ?b (s_pos s) (s_pos s1) @ slice ?b (s_pos s1) (s_pos s2) @ slice ?b (s_pos s2) (s_pos t)"
      using lex_step_pos [OF l1] lex_step_pos [OF l2] lex_step_pos [OF l4]
      by (simp add: slice_append)
    ultimately show ?thesis by simp
  qed
  ultimately show ?thesis using v b1 b2 by blast
qed

lemma container_next_result:
  assumes "container_next env close e1 e2 s = (Inr closed, t)" "s_pos s \<le> length (sc_body env)"
  shows "lex_step env 1 s t \<and>
    (\<exists>c d. slice (sc_body env) (s_pos s) (s_pos t) = c @ (if closed then [close] else '','' @ d) \<and>
       blank c \<and> blank d)"
proof -
  let ?b = "sc_body env"
  from assms(1) obtain s1 where w: "skip_whitespace env s = (Inr (), s1)"
    and lt: "s_pos s1 < length ?b"
    and nx: "closed \<and> ?b ! s_pos s1 = close \<and> t = s1\<lparr>s_pos := s_pos s1 + 1\<rparr> \<or>
      \<not> closed \<and> ?b ! s_pos s1 = CHR '','' \<and>
        skip_whitespace env (s1\<lparr>s_pos := s_pos s1 + 1\<rparr>) = (Inr (), t)"
    by (auto simp: container_next_def bind_Inr_iff advance_def invalid_def not_le split: if_splits)
  let ?s2 = "s1\<lparr>s_pos := s_pos s1 + 1\<rparr>"
  from skip_whitespace_result [OF w assms(2)]
  have l1: "lex_step env 0 s s1" and b1: "blank (slice ?b (s_pos s) (s_pos s1))" by auto
  have l2: "lex_step env 1 s1 ?s2" using lex_step_advance [of s1 1 env] lt by simp
  have l3: "lex_step env 0 ?s2 t" and b3: "closed \<or> blank (slice ?b (s_pos s1 + 1) (s_pos t))"
    using nx skip_whitespace_result [of env ?s2 "()" t] lt by (auto intro: lex_step_refl)
  have "lex_step env 1 s t" by (rule lex_step_trans [OF l1 lex_step_trans [OF l2 l3 order_refl]]) simp
  moreover have "slice ?b (s_pos s) (s_pos t) =
      slice ?b (s_pos s) (s_pos s1) @ ?b ! s_pos s1 # slice ?b (s_pos s1 + 1) (s_pos t)"
  proof -
    have "slice ?b (s_pos s1) (s_pos t) = ?b ! s_pos s1 # slice ?b (s_pos s1 + 1) (s_pos t)"
      using lt lex_step_pos [OF l3] by (simp add: slice_Cons)
    then show ?thesis
      using lex_step_pos [OF l1] lex_step_pos [OF l3] slice_append [of "s_pos s" "s_pos s1" "s_pos t" ?b]
      by simp
  qed
  moreover have "closed \<Longrightarrow> slice ?b (s_pos s1 + 1) (s_pos t) = []" using nx by auto
  ultimately show ?thesis using nx b1 b3 by (cases closed) auto
qed

section \<open>Accepting runs\<close>

text \<open>
  The successful runs of the descent as a big-step relation: \<open>value_run env d parent s k t\<close> for
  \<open>value\<close> at depth \<open>d\<close>, \<open>members_run\<close> and \<open>elements_run\<close> for the loops of \<open>object\<close> and \<open>array\<close>
  from the top of an iteration to the closing bracket. The fuel is gone, and each case has one
  rule, so that invariants of the scanner are proved by rule induction.
\<close>

inductive value_run :: "scan_env \<Rightarrow> nat \<Rightarrow> kind \<Rightarrow> scanner \<Rightarrow> kind \<Rightarrow> scanner \<Rightarrow> bool"
  and members_run :: "scan_env \<Rightarrow> nat \<Rightarrow> scanner \<Rightarrow> scanner \<Rightarrow> bool"
  and elements_run :: "scan_env \<Rightarrow> nat \<Rightarrow> nat \<Rightarrow> scanner \<Rightarrow> scanner \<Rightarrow> bool"
  for env :: scan_env
where
  vr_string: "value_head env d s = (Inr (), s1) \<Longrightarrow> byte_is env (s_pos s1) CHR 0x22 \<Longrightarrow>
    string_node env d parent s1 = (Inr (), t) \<Longrightarrow> value_run env d parent s KindString t"
| vr_scalar: "value_head env d s = (Inr (), s1) \<Longrightarrow> k \<in> {KindNumber, KindBoolean, KindNull} \<Longrightarrow>
    lex_step env 1 s1 t \<Longrightarrow> json_value (slice (sc_body env) (s_pos s1) (s_pos t)) \<Longrightarrow>
    value_run env d parent s k t"
| vr_empty: "value_head env d s = (Inr (), s1) \<Longrightarrow>
    (k, open_byte, close_byte) \<in> {(KindObject, CHR ''{'', CHR ''}''), (KindArray, CHR ''['', CHR '']'')} \<Longrightarrow>
    byte_is env (s_pos s1) open_byte \<Longrightarrow>
    skip_whitespace env (s1\<lparr>s_pos := s_pos s1 + 1\<rparr>) = (Inr (), s2) \<Longrightarrow>
    byte_is env (s_pos s2) close_byte \<Longrightarrow> t = s2\<lparr>s_pos := s_pos s2 + 1\<rparr> \<Longrightarrow>
    value_run env d parent s k t"
| vr_object: "value_head env d s = (Inr (), s1) \<Longrightarrow> byte_is env (s_pos s1) CHR ''{'' \<Longrightarrow>
    skip_whitespace env (s1\<lparr>s_pos := s_pos s1 + 1\<rparr>) = (Inr (), s2) \<Longrightarrow>
    members_run env d s2 t \<Longrightarrow> value_run env d parent s KindObject t"
| vr_array: "value_head env d s = (Inr (), s1) \<Longrightarrow> byte_is env (s_pos s1) CHR ''['' \<Longrightarrow>
    skip_whitespace env (s1\<lparr>s_pos := s_pos s1 + 1\<rparr>) = (Inr (), s2) \<Longrightarrow>
    elements_run env d 0 s2 t \<Longrightarrow> value_run env d parent s KindArray t"
| mr_last: "object_key env s = (Inr key, s1) \<Longrightarrow>
    append_path env (Key key) (length key) s1 = (Inr ref, s2) \<Longrightarrow>
    value_run env (d + 1) KindObject (s2\<lparr>s_path := ref\<rparr>) k s3 \<Longrightarrow>
    container_next env CHR ''}'' e1 e2 (s3\<lparr>s_path := s_path s1\<rparr>) = (Inr True, t) \<Longrightarrow>
    members_run env d s t"
| mr_more: "object_key env s = (Inr key, s1) \<Longrightarrow>
    append_path env (Key key) (length key) s1 = (Inr ref, s2) \<Longrightarrow>
    value_run env (d + 1) KindObject (s2\<lparr>s_path := ref\<rparr>) k s3 \<Longrightarrow>
    container_next env CHR ''}'' e1 e2 (s3\<lparr>s_path := s_path s1\<rparr>) = (Inr False, s4) \<Longrightarrow>
    members_run env d s4 t \<Longrightarrow> members_run env d s t"
| er_last: "append_path env (Index (int i)) 0 s = (Inr ref, s2) \<Longrightarrow>
    value_run env (d + 1) KindArray (s2\<lparr>s_path := ref\<rparr>) k s3 \<Longrightarrow>
    container_next env CHR '']'' e1 e2 (s3\<lparr>s_path := s_path s\<rparr>) = (Inr True, t) \<Longrightarrow>
    elements_run env d i s t"
| er_more: "append_path env (Index (int i)) 0 s = (Inr ref, s2) \<Longrightarrow>
    value_run env (d + 1) KindArray (s2\<lparr>s_path := ref\<rparr>) k s3 \<Longrightarrow>
    container_next env CHR '']'' e1 e2 (s3\<lparr>s_path := s_path s\<rparr>) = (Inr False, s4) \<Longrightarrow>
    elements_run env d (i + 1) s4 t \<Longrightarrow> elements_run env d i s t"

text \<open>Every success of the scanner is an accepting run, whatever the fuel.\<close>

lemma scalar_run:
  assumes "value_head env d s = (Inr (), s1)" "literal env w s1 = (Inr (), t)"
    and "w \<in> {''true'', ''false'', ''null''}" "k \<in> {KindBoolean, KindNull}"
  shows "value_run env d parent s k t"
proof -
  from value_head_result [OF assms(1)] have "s_pos s1 < length (sc_body env)" by auto
  with literal_result [OF assms(2)] have "lex_step env (length w) s1 t"
    "slice (sc_body env) (s_pos s1) (s_pos t) = w" by auto
  moreover from this(1) have "lex_step env 1 s1 t" by (rule lex_step_weaken) (use assms(3) in auto)
  ultimately show ?thesis using assms(3,4) by (intro vr_scalar [OF assms(1)]) (auto intro: jv_literal)
qed

lemma number_run:
  assumes "value_head env d s = (Inr (), s1)" "number env s1 = (Inr (), t)"
  shows "value_run env d parent s KindNumber t"
  using number_result [OF assms(2)] value_head_result [OF assms(1)]
  by (intro vr_scalar [OF assms(1)]) (auto intro: jv_number)

definition body_run :: "scan_env \<Rightarrow> kind \<Rightarrow> nat \<Rightarrow> scanner \<Rightarrow> scanner \<Rightarrow> bool" where
  "body_run env k d s t \<longleftrightarrow>
     (\<exists>s2. skip_whitespace env (s\<lparr>s_pos := s_pos s + 1\<rparr>) = (Inr (), s2) \<and>
        (byte_is env (s_pos s2) (if k = KindObject then CHR ''}'' else CHR '']'') \<and>
           t = s2\<lparr>s_pos := s_pos s2 + 1\<rparr> \<or>
         (if k = KindObject then members_run env d s2 t else elements_run env d 0 s2 t)))"

lemma object_run:
  assumes "value_head env d s = (Inr (), s1)" "body_run env KindObject d s1 t"
    and "byte_is env (s_pos s1) CHR ''{''"
  shows "value_run env d parent s KindObject t"
proof -
  from assms(2) obtain s2 where w: "skip_whitespace env (s1\<lparr>s_pos := s_pos s1 + 1\<rparr>) = (Inr (), s2)"
    and "byte_is env (s_pos s2) CHR ''}'' \<and> t = s2\<lparr>s_pos := s_pos s2 + 1\<rparr> \<or> members_run env d s2 t"
    by (simp add: body_run_def) blast
  then consider "byte_is env (s_pos s2) CHR ''}''" "t = s2\<lparr>s_pos := s_pos s2 + 1\<rparr>"
    | "members_run env d s2 t" by blast
  then show ?thesis
  proof cases
    case 1
    then show ?thesis by (intro vr_empty [OF assms(1) _ assms(3) w]) simp_all
  next
    case 2
    then show ?thesis by (rule vr_object [OF assms(1) assms(3) w])
  qed
qed

lemma array_run:
  assumes "value_head env d s = (Inr (), s1)" "body_run env KindArray d s1 t"
    and "byte_is env (s_pos s1) CHR ''[''"
  shows "value_run env d parent s KindArray t"
proof -
  from assms(2) obtain s2 where w: "skip_whitespace env (s1\<lparr>s_pos := s_pos s1 + 1\<rparr>) = (Inr (), s2)"
    and "byte_is env (s_pos s2) CHR '']'' \<and> t = s2\<lparr>s_pos := s_pos s2 + 1\<rparr> \<or> elements_run env d 0 s2 t"
    by (simp add: body_run_def) blast
  then consider "byte_is env (s_pos s2) CHR '']''" "t = s2\<lparr>s_pos := s_pos s2 + 1\<rparr>"
    | "elements_run env d 0 s2 t" by blast
  then show ?thesis
  proof cases
    case 1
    then show ?thesis by (intro vr_empty [OF assms(1) _ assms(3) w]) simp_all
  next
    case 2
    then show ?thesis by (rule vr_array [OF assms(1) assms(3) w])
  qed
qed

lemma scan_runs:
  "scan_value env fuel d parent s = (Inr k, t) \<Longrightarrow> value_run env d parent s k t"
  "scan_object env fuel d s = (Inr u, t) \<Longrightarrow> body_run env KindObject d s t"
  "object_loop env fuel d s = (Inr u, t) \<Longrightarrow> members_run env d s t"
  "scan_array env fuel d s = (Inr u, t) \<Longrightarrow> body_run env KindArray d s t"
  "array_loop env fuel d i s = (Inr u, t) \<Longrightarrow> elements_run env d i s t"
proof (induction env fuel d parent and env fuel d and env fuel d and env fuel d and env fuel d i
    arbitrary: s k t and s u t and s u t and s u t and s u t
    rule: scan_value_scan_object_object_loop_scan_array_array_loop.induct)
  case (2 env fuel depth parent)
  then obtain s1 where h: "value_head env depth s = (Inr (), s1)" by (auto simp: bind_Inr_iff)
  let ?c = "sc_body env ! s_pos s1"
  have p: "s_pos s1 < length (sc_body env)" using value_head_result [OF h] by auto
  have obj: "?c = CHR ''{'' \<Longrightarrow> scan_object env fuel depth s1 = (Inr u, t) \<Longrightarrow>
      value_run env depth parent s KindObject t" for u
    using "2.IH"(1) [OF refl, of "s_pos s1"] p by (auto intro: object_run [OF h] simp: byte_is_def)
  have arr: "?c = CHR ''['' \<Longrightarrow> scan_array env fuel depth s1 = (Inr u, t) \<Longrightarrow>
      value_run env depth parent s KindArray t" for u
    using "2.IH"(2) [OF refl, of "s_pos s1"] p by (auto intro: array_run [OF h] simp: byte_is_def)
  from "2.prems" h show ?case
    by (auto simp: bind_Inr_iff Let_def invalid_def split: if_split_asm intro: obj arr
        scalar_run [OF h] number_run [OF h] vr_string [OF h] simp: byte_is_def p)
next
  case (4 env fuel depth)
  then show ?case
    by (auto simp: bind_Inr_iff advance_def body_run_def split: if_splits)
next
  case (6 env fuel depth)
  from "6.prems" obtain key s1 ref s2 k s3 closed s4
    where key: "object_key env s = (Inr key, s1)"
    and path: "append_path env (Key key) (length key) s1 = (Inr ref, s2)"
    and v: "scan_value env fuel (depth + 1) KindObject (s2\<lparr>s_path := ref\<rparr>) = (Inr k, s3)"
    and n: "container_next env CHR ''}'' ''unterminated object'' ''expected ',' or '}' in object''
        (s3\<lparr>s_path := s_path s1\<rparr>) = (Inr closed, s4)"
    and r: "(if closed then ret () else object_loop env fuel depth) s4 = (Inr u, t)"
    by (auto simp: bind_Inr_iff elim!: with_path_result)
  from "6.IH"(1) v have v: "value_run env (depth + 1) KindObject (s2\<lparr>s_path := ref\<rparr>) k s3" by simp
  show ?case
  proof (cases closed)
    case True
    with r n mr_last [OF key path v] show ?thesis by simp
  next
    case False
    with r "6.IH"(2) have "members_run env depth s4 t" by simp
    with False n mr_more [OF key path v] show ?thesis by simp
  qed
next
  case (8 env fuel depth)
  then show ?case
    by (auto simp: bind_Inr_iff advance_def body_run_def split: if_splits)
next
  case (10 env fuel depth index)
  from "10.prems" obtain ref s2 k s3 closed s4
    where path: "append_path env (Index (int index)) 0 s = (Inr ref, s2)"
    and v: "scan_value env fuel (depth + 1) KindArray (s2\<lparr>s_path := ref\<rparr>) = (Inr k, s3)"
    and n: "container_next env CHR '']'' ''unterminated array'' ''expected ',' or ']' in array''
        (s3\<lparr>s_path := s_path s\<rparr>) = (Inr closed, s4)"
    and r: "(if closed then ret () else array_loop env fuel depth (index + 1)) s4 = (Inr u, t)"
    by (auto simp: bind_Inr_iff elim!: with_path_result)
  from "10.IH"(1) v have v: "value_run env (depth + 1) KindArray (s2\<lparr>s_path := ref\<rparr>) k s3" by simp
  show ?case
  proof (cases closed)
    case True
    with r n er_last [OF path v] show ?thesis by simp
  next
    case False
    with r "10.IH"(2) have "elements_run env depth (index + 1) s4 t" by simp
    with False n er_more [OF path v] show ?thesis by simp
  qed
qed simp_all

end
