(* ===== verification/Scanner_Sound.thy ===== *)
theory Scanner_Sound
  imports Scanner_Grammar
begin

text \<open>
  Two facts about every call of the recursive descent, by rule induction over the accepting
  runs: the state only grows (the path is restored, the arena and the list of strings are
  extended, the position advances), and the text consumed is a sentence of the JSON grammar.
  The first bounds the recursion, so the fuel of the model is never used up.
\<close>

section \<open>Growth\<close>

definition grows :: "scan_env \<Rightarrow> nat \<Rightarrow> scanner \<Rightarrow> scanner \<Rightarrow> bool" where
  "grows env k s t \<longleftrightarrow>
     s_pos s + k \<le> s_pos t \<and> s_pos t \<le> length (sc_body env) \<and> s_path t = s_path s \<and>
     (\<exists>ps. s_paths t = s_paths s @ ps) \<and> (\<exists>ts. s_strings t = s_strings s @ ts)"

lemma grows_trans: "grows env j s t \<Longrightarrow> grows env k t u \<Longrightarrow> i \<le> j + k \<Longrightarrow> grows env i s u"
  unfolding grows_def by (elim conjE exE) simp

lemma grows_weaken: "grows env k s t \<Longrightarrow> j \<le> k \<Longrightarrow> grows env j s t"
  by (auto simp: grows_def)

lemma grows_pos: "grows env k s t \<Longrightarrow> s_pos s + k \<le> s_pos t \<and> s_pos t \<le> length (sc_body env)"
  by (simp add: grows_def)

lemma lex_step_grows: "lex_step env k s t \<Longrightarrow> grows env k s t"
  by (auto simp: lex_step_def grows_def)

lemma value_head_grows:
  assumes "value_head env d s = (Inr (), t)"
  shows "grows env 0 s t \<and> s_pos t = s_pos s \<and> s_pos t < length (sc_body env)"
  using value_head_result [OF assms] by (auto simp: grows_def)

lemma object_key_grows:
  assumes "object_key env s = (Inr key, t)"
  shows "grows env 3 s t"
proof -
  have "s_pos s \<le> length (sc_body env)" using assms by (auto simp: object_key_def bind_Inr_iff byte_is_def)
  with object_key_result [OF assms] show ?thesis by (blast intro: lex_step_grows)
qed

lemma append_path_grows:
  assumes "append_path env seg n s = (Inr ref, t)" "s_pos s \<le> length (sc_body env)"
  shows "grows env 0 s t \<and> s_pos t = s_pos s"
  using append_path_result [OF assms(1)] assms(2) by (auto simp: grows_def)

lemma string_node_grows:
  assumes "string_node env d parent s = (Inr (), t)" "byte_is env (s_pos s) CHR 0x22"
  shows "grows env 2 s t \<and> json_string (slice (sc_body env) (s_pos s) (s_pos t))"
proof -
  obtain v u where v: "string_value env s = (Inr v, u)"
    and a: "append_string env (new_token v (s_pos s) (s_pos u) parent d (s_path u)) u = (Inr (), t)"
    using assms(1) by (rule string_node_result)
  from string_value_result [OF v assms(2)] have l: "lex_step env 2 s u"
    and j: "json_string (slice (sc_body env) (s_pos s) (s_pos u))" by auto
  from append_string_result [OF a] have "grows env 0 u t" "s_pos t = s_pos u"
    using lex_step_pos [OF l] by (auto simp: grows_def)
  with l j show ?thesis using grows_trans [OF lex_step_grows [OF l]] by auto
qed

lemma slice_two: "grows env j s t \<Longrightarrow> grows env k t u \<Longrightarrow>
    slice b (s_pos s) (s_pos u) = slice b (s_pos s) (s_pos t) @ slice b (s_pos t) (s_pos u)"
  by (simp add: grows_def slice_append)

text \<open>The opening bracket and the blanks behind it.\<close>

lemma open_result:
  assumes "byte_is env (s_pos s) c" "skip_whitespace env (s\<lparr>s_pos := s_pos s + 1\<rparr>) = (Inr (), t)"
  shows "lex_step env 1 s t \<and> (\<exists>a. slice (sc_body env) (s_pos s) (s_pos t) = c # a \<and> blank a)"
proof -
  let ?s1 = "s\<lparr>s_pos := s_pos s + 1\<rparr>"
  have c: "s_pos s < length (sc_body env)" "sc_body env ! s_pos s = c"
    using assms(1) by (auto simp: byte_is_def)
  from skip_whitespace_result [OF assms(2)] c
  have w: "lex_step env 0 ?s1 t" "blank (slice (sc_body env) (s_pos s + 1) (s_pos t))" by auto
  have "lex_step env 1 s ?s1" using lex_step_advance [of s 1 env] c by simp
  then have "lex_step env 1 s t" using w(1) by (rule lex_step_trans) simp
  moreover have "slice (sc_body env) (s_pos s) (s_pos t) = c # slice (sc_body env) (s_pos s + 1) (s_pos t)"
    using c lex_step_pos [OF w(1)] by (simp add: slice_Cons)
  ultimately show ?thesis using w(2) by blast
qed

section \<open>The accepting runs satisfy the grammar\<close>

lemma with_path_grows:
  assumes "append_path env seg n s = (Inr ref, s2)" "s_pos s \<le> length (sc_body env)"
    and "grows env k (s2\<lparr>s_path := ref\<rparr>) s3"
  shows "grows env k s (s3\<lparr>s_path := s_path s\<rparr>)"
  using append_path_grows [OF assms(1,2)] assms(3) by (auto simp: grows_def)

lemma member_grows:
  assumes "object_key env s = (Inr key, s1)"
    "append_path env (Key key) (length key) s1 = (Inr ref, s2)"
    "grows env 1 (s2\<lparr>s_path := ref\<rparr>) s3" "json_value (slice (sc_body env) (s_pos s2) (s_pos s3))"
    "container_next env CHR ''}'' e1 e2 (s3\<lparr>s_path := s_path s1\<rparr>) = (Inr closed, t)"
  shows "grows env 5 s t \<and>
    (\<exists>k a b v c d. slice (sc_body env) (s_pos s) (s_pos t) =
        (k @ a @ '':'' @ b) @ v @ (c @ (if closed then ''}'' else '','' @ d)) \<and>
      json_string k \<and> blank a \<and> blank b \<and> json_value v \<and> blank c \<and> blank d)"
proof -
  let ?s3 = "s3\<lparr>s_path := s_path s1\<rparr>"
  have le: "s_pos s \<le> length (sc_body env)"
    using assms(1) by (auto simp: object_key_def bind_Inr_iff byte_is_def)
  note key = object_key_result [OF assms(1) le]
  note g1 = object_key_grows [OF assms(1)]
  then have le1: "s_pos s1 \<le> length (sc_body env)" by (simp add: grows_def)
  note g2 = with_path_grows [OF assms(2) le1 assms(3)]
  have p2: "s_pos s2 = s_pos s1" using append_path_grows [OF assms(2) le1] by simp
  from g2 have "s_pos ?s3 \<le> length (sc_body env)" by (simp add: grows_def)
  note nx = container_next_result [OF assms(5) this]
  then have g3: "grows env 1 ?s3 t" by (blast intro: lex_step_grows)
  have "slice (sc_body env) (s_pos s) (s_pos t) = slice (sc_body env) (s_pos s) (s_pos s1) @
      slice (sc_body env) (s_pos s2) (s_pos s3) @ slice (sc_body env) (s_pos s3) (s_pos t)"
    using slice_two [OF g1 grows_trans [OF g2 g3 order_refl], of "sc_body env"]
      slice_two [OF g2 g3, of "sc_body env"] p2 by simp
  moreover obtain k a b where k: "slice (sc_body env) (s_pos s) (s_pos s1) = k @ a @ '':'' @ b"
    "json_string k" "blank a" "blank b" using key by blast
  moreover obtain c d where c: "slice (sc_body env) (s_pos s3) (s_pos t) =
      c @ (if closed then ''}'' else '','' @ d)" "blank c" "blank d" using nx by auto
  ultimately have "slice (sc_body env) (s_pos s) (s_pos t) =
      (k @ a @ '':'' @ b) @ slice (sc_body env) (s_pos s2) (s_pos s3) @
      (c @ (if closed then ''}'' else '','' @ d))" by simp
  moreover have "grows env 5 s t"
    by (rule grows_trans [OF g1 grows_trans [OF g2 g3 order_refl]]) simp
  ultimately show ?thesis using k(2-4) assms(4) c(2,3)
    by - (intro conjI exI, assumption+)
qed

lemma element_grows:
  assumes "append_path env seg n s = (Inr ref, s2)" "s_pos s \<le> length (sc_body env)"
    "grows env 1 (s2\<lparr>s_path := ref\<rparr>) s3" "json_value (slice (sc_body env) (s_pos s2) (s_pos s3))"
    "container_next env CHR '']'' e1 e2 (s3\<lparr>s_path := s_path s\<rparr>) = (Inr closed, t)"
  shows "grows env 2 s t \<and>
    (\<exists>v c d. slice (sc_body env) (s_pos s) (s_pos t) = v @ (c @ (if closed then '']'' else '','' @ d)) \<and>
      json_value v \<and> blank c \<and> blank d)"
proof -
  let ?s3 = "s3\<lparr>s_path := s_path s\<rparr>"
  note g2 = with_path_grows [OF assms(1,2,3)]
  have p2: "s_pos s2 = s_pos s" using append_path_grows [OF assms(1,2)] by simp
  from g2 have "s_pos ?s3 \<le> length (sc_body env)" by (simp add: grows_def)
  note nx = container_next_result [OF assms(5) this]
  then have g3: "grows env 1 ?s3 t" by (blast intro: lex_step_grows)
  have "slice (sc_body env) (s_pos s) (s_pos t) =
      slice (sc_body env) (s_pos s2) (s_pos s3) @ slice (sc_body env) (s_pos s3) (s_pos t)"
    using slice_two [OF g2 g3, of "sc_body env"] p2 by simp
  moreover obtain c d where c: "slice (sc_body env) (s_pos s3) (s_pos t) =
      c @ (if closed then '']'' else '','' @ d)" "blank c" "blank d" using nx by auto
  ultimately have "slice (sc_body env) (s_pos s) (s_pos t) =
      slice (sc_body env) (s_pos s2) (s_pos s3) @ (c @ (if closed then '']'' else '','' @ d))" by simp
  moreover have "grows env 2 s t" by (rule grows_trans [OF g2 g3]) simp
  ultimately show ?thesis using assms(4) c(2,3)
    by - (intro conjI exI, assumption+)
qed

lemma runs_grow:
  "value_run env d parent s k t \<Longrightarrow>
     grows env 1 s t \<and> json_value (slice (sc_body env) (s_pos s) (s_pos t))"
  "members_run env d s t \<Longrightarrow>
     grows env 5 s t \<and> json_members (slice (sc_body env) (s_pos s) (s_pos t))"
  "elements_run env d i s t \<Longrightarrow> s_pos s \<le> length (sc_body env) \<Longrightarrow>
     grows env 2 s t \<and> json_elements (slice (sc_body env) (s_pos s) (s_pos t))"
proof (induction rule: value_run_members_run_elements_run.inducts)
  case (vr_string d s s1 parent t)
  note h = value_head_grows [OF vr_string(1)] and n = string_node_grows [OF vr_string(3,2)]
  have "grows env 2 s t" by (rule grows_trans [OF conjunct1 [OF h] conjunct1 [OF n]]) simp
  then show ?case using h n by (auto intro: grows_weaken jv_string)
next
  case (vr_scalar d s s1 k t parent)
  note h = value_head_grows [OF vr_scalar(1)]
  have "grows env 1 s t" by (rule grows_trans [OF conjunct1 [OF h] lex_step_grows [OF \<open>lex_step env 1 s1 t\<close>]]) simp
  then show ?case using h vr_scalar by simp
next
  case (vr_empty d s s1 k open_byte close_byte s2 t parent)
  note h = value_head_grows [OF vr_empty(1)] and o = open_result [OF \<open>byte_is env (s_pos s1) open_byte\<close>
    \<open>skip_whitespace env (s1\<lparr>s_pos := s_pos s1 + 1\<rparr>) = (Inr (), s2)\<close>]
  from \<open>byte_is env (s_pos s2) close_byte\<close> have c: "s_pos s2 < length (sc_body env)" "sc_body env ! s_pos s2 = close_byte"
    by (simp_all add: byte_is_def)
  have l: "lex_step env 1 s2 t" using lex_step_advance [of s2 1 env] c by (simp add: \<open>t = _\<close>)
  have g: "grows env 2 s t"
    by (rule grows_trans [OF conjunct1 [OF h] lex_step_grows [OF lex_step_trans [OF conjunct1 [OF o] l order_refl]]]) simp
  obtain a where "slice (sc_body env) (s_pos s1) (s_pos s2) = open_byte # a" "blank a" using o by blast
  moreover have "slice (sc_body env) (s_pos s2) (s_pos t) = [close_byte]"
    using c by (simp add: \<open>t = _\<close> slice_single)
  ultimately have "slice (sc_body env) (s_pos s) (s_pos t) = open_byte # a @ [close_byte]" "blank a"
    using slice_two [OF lex_step_grows [OF conjunct1 [OF o]] lex_step_grows [OF l], of "sc_body env"] h
    by simp_all
  then have "json_value (slice (sc_body env) (s_pos s) (s_pos t))"
    using vr_empty jv_empty_object [of a] jv_empty_array [of a] by auto
  then show ?case using g by (auto intro: grows_weaken)
next
  case (vr_object d s s1 s2 t parent)
  note ih = vr_object(5) and h = value_head_grows [OF vr_object(1)] and o = open_result [OF vr_object(2,3)]
  obtain a where "slice (sc_body env) (s_pos s1) (s_pos s2) = ''{'' @ a" "blank a" using o by auto
  then have "json_value (slice (sc_body env) (s_pos s1) (s_pos t))"
    using slice_two [OF lex_step_grows [OF conjunct1 [OF o]] conjunct1 [OF ih], of "sc_body env"]
      ih jv_object [of a] by simp
  moreover have "grows env 1 s t"
    by (rule grows_trans [OF conjunct1 [OF h] grows_trans [OF lex_step_grows [OF conjunct1 [OF o]]
          conjunct1 [OF ih] order_refl]]) simp
  ultimately show ?case using h by simp
next
  case (vr_array d s s1 s2 t parent)
  note h = value_head_grows [OF vr_array(1)] and o = open_result [OF vr_array(2,3)]
  from vr_array(5) lex_step_pos [OF conjunct1 [OF o]]
  have e: "grows env 2 s2 t" "json_elements (slice (sc_body env) (s_pos s2) (s_pos t))" by auto
  obtain a where "slice (sc_body env) (s_pos s1) (s_pos s2) = ''['' @ a" "blank a" using o by auto
  then have "json_value (slice (sc_body env) (s_pos s1) (s_pos t))"
    using slice_two [OF lex_step_grows [OF conjunct1 [OF o]] e(1), of "sc_body env"] e(2) jv_array [of a]
    by simp
  moreover have "grows env 1 s t"
    by (rule grows_trans [OF conjunct1 [OF h] grows_trans [OF lex_step_grows [OF conjunct1 [OF o]]
          e(1) order_refl]]) simp
  ultimately show ?case using h by simp
next
  case (mr_last s key s1 ref s2 d k s3 e1 e2 t)
  have "grows env 1 (s2\<lparr>s_path := ref\<rparr>) s3" "json_value (slice (sc_body env) (s_pos s2) (s_pos s3))"
    using mr_last by simp_all
  from member_grows [OF mr_last(1,2) this \<open>container_next env _ _ _ _ = _\<close>] show ?case
    by (auto intro: jm_last [simplified])
next
  case (mr_more s key s1 ref s2 d k s3 e1 e2 s4 t)
  have gv: "grows env 1 (s2\<lparr>s_path := ref\<rparr>) s3" "json_value (slice (sc_body env) (s_pos s2) (s_pos s3))"
    using mr_more by simp_all
  have ih: "grows env 5 s4 t \<and> json_members (slice (sc_body env) (s_pos s4) (s_pos t))" by fact
  note m = member_grows [OF mr_more(1,2) gv \<open>container_next env _ _ _ _ = _\<close>]
  then obtain k a b v c d where *: "slice (sc_body env) (s_pos s) (s_pos s4) =
      (k @ a @ '':'' @ b) @ v @ (c @ '','' @ d)" "json_string k" "blank a" "blank b" "json_value v"
    "blank c" "blank d" by (simp del: append_assoc) blast
  have "slice (sc_body env) (s_pos s) (s_pos t) =
      (k @ a @ '':'' @ b) @ v @ (c @ '','' @ d) @ slice (sc_body env) (s_pos s4) (s_pos t)"
    using slice_two [OF conjunct1 [OF m] conjunct1 [OF ih], of "sc_body env"] *(1) by simp
  moreover have "grows env 5 s t"
    by (rule grows_trans [OF conjunct1 [OF m] conjunct1 [OF ih]]) simp
  ultimately show ?case using jm_more [OF *(2-7) conjunct2 [OF ih]] by simp
next
  case (er_last i s ref s2 d k s3 e1 e2 t)
  note le = \<open>s_pos s \<le> _\<close>
  have "grows env 1 (s2\<lparr>s_path := ref\<rparr>) s3" "json_value (slice (sc_body env) (s_pos s2) (s_pos s3))"
    using er_last by simp_all
  from element_grows [OF er_last(1) le this \<open>container_next env _ _ _ _ = _\<close>] show ?case
    by (auto intro: je_last)
next
  case (er_more i s ref s2 d k s3 e1 e2 s4 t)
  note le = \<open>s_pos s \<le> _\<close>
  have "grows env 1 (s2\<lparr>s_path := ref\<rparr>) s3" "json_value (slice (sc_body env) (s_pos s2) (s_pos s3))"
    using er_more by simp_all
  note m = element_grows [OF er_more(1) le this \<open>container_next env _ _ _ _ = _\<close>]
  then obtain v c d where *: "slice (sc_body env) (s_pos s) (s_pos s4) = v @ (c @ '','' @ d)"
    "json_value v" "blank c" "blank d" by auto
  from er_more m have e: "grows env 2 s4 t" "json_elements (slice (sc_body env) (s_pos s4) (s_pos t))"
    by (auto simp: grows_def)
  have "slice (sc_body env) (s_pos s) (s_pos t) =
      v @ (c @ '','' @ d) @ slice (sc_body env) (s_pos s4) (s_pos t)"
    using slice_two [OF conjunct1 [OF m] e(1), of "sc_body env"] *(1) by simp
  moreover have "grows env 2 s t" by (rule grows_trans [OF conjunct1 [OF m] e(1)]) simp
  ultimately show ?case using je_more [OF *(2-4) e(2)] by simp
qed

section \<open>The fuel suffices\<close>

text \<open>Nothing but the five recursive functions fails with \<open>OutOfFuel\<close>.\<close>

abbreviation no_fuel_error :: "payload_error set" where
  "no_fuel_error \<equiv> - {OutOfFuel}"

lemma fails_invalid [fails_rules]: "fails_only no_fuel_error (invalid p reason)"
  by (auto simp: fails_only_def invalid_def)

lemma fails_check_now [fails_rules]: "fails_only no_fuel_error (check_now env)"
  by (auto simp: fails_only_def check_now_def poll_def split: prod.splits option.splits)

lemma fails_check_at [fails_rules]: "fails_only no_fuel_error (check_at env p)"
  by (rule fails_onlyI) (auto simp: check_at_def split: if_splits dest: fails_onlyD [OF fails_check_now])

lemma fails_advance [fails_rules]: "fails_only no_fuel_error (advance n)"
  by (simp add: advance_def fails_rules)

lemma fails_skip_while [fails_rules]: "fails_only no_fuel_error (skip_while env P)"
proof (rule fails_onlyI)
  fix s e t assume "skip_while env P s = (Inl e, t)"
  then show "e \<in> no_fuel_error"
  proof (induction env P s rule: skip_while.induct)
    case (1 env P s)
    then show ?case
      by (fastforce simp: skip_while.simps [of env P s] bind_Inl_iff split: if_splits
          dest: fails_onlyD [OF fails_check_at])
  qed
qed

lemma fails_skip_whitespace [fails_rules]: "fails_only no_fuel_error (skip_whitespace env)"
  by (simp add: skip_whitespace_def fails_rules)

lemma fails_retain [fails_rules]: "fails_only no_fuel_error (retain env n)"
  by (auto simp: retain_def intro!: fails_rules)

lemma fails_append_path [fails_rules]: "fails_only no_fuel_error (append_path env seg n)"
  by (auto simp: append_path_def Let_def intro!: fails_rules)

lemma fails_append_string [fails_rules]: "fails_only no_fuel_error (append_string env tok)"
  by (auto simp: append_string_def Let_def intro!: fails_rules)

lemma fails_close_string [fails_rules]: "fails_only no_fuel_error (close_string env p q esc)"
  by (auto simp: close_string_def intro!: fails_rules split: option.splits)

lemma fails_string_loop [fails_rules]: "fails_only no_fuel_error (string_loop env p i esc)"
proof (induction env p i esc rule: string_loop.induct)
  case (1 env start i esc)
  show ?case
    by (subst string_loop.simps) (auto simp: Let_def simp del: for_each.simps add_2_eq_Suc' intro!: fails_rules "1.IH")
qed

lemma fails_string_value [fails_rules]: "fails_only no_fuel_error (string_value env)"
  by (auto simp: string_value_def intro!: fails_rules)

lemma fails_literal [fails_rules]: "fails_only no_fuel_error (literal env w)"
  by (auto simp: literal_def intro!: fails_rules)

lemma fails_digits1 [fails_rules]: "fails_only no_fuel_error (digits1 env reason)"
  by (auto simp: digits1_def intro!: fails_rules)

lemma fails_number [fails_rules]: "fails_only no_fuel_error (number env)"
  by (auto simp: number_def number_int_def number_frac_def number_exp_def intro!: fails_rules)

lemma fails_string_node [fails_rules]: "fails_only no_fuel_error (string_node env d parent)"
  by (auto simp: string_node_def intro!: fails_rules)

lemma fails_value_head [fails_rules]: "fails_only no_fuel_error (value_head env d)"
  by (auto simp: value_head_def intro!: fails_rules)

lemma fails_object_key [fails_rules]: "fails_only no_fuel_error (object_key env)"
  by (auto simp: object_key_def intro!: fails_rules)

lemma fails_container_next [fails_rules]: "fails_only no_fuel_error (container_next env c e1 e2)"
  by (auto simp: container_next_def intro!: fails_rules)

text \<open>A failing body of \<open>with_path\<close> fails in the state with the new path.\<close>

lemma with_path_out_of_fuel:
  assumes "with_path env seg n m s = (Inl OutOfFuel, t)" "s_pos s \<le> length (sc_body env)"
  obtains u v where "s_pos u = s_pos s" "m u = (Inl OutOfFuel, v)"
proof -
  from assms(1) fails_onlyD [OF fails_append_path] obtain ref u v
    where "append_path env seg n s = (Inr ref, u)" "m (u\<lparr>s_path := ref\<rparr>) = (Inl OutOfFuel, v)"
    by (fastforce simp: with_path_def bind_Inl_iff finally_do_iff)
  then show thesis using that [of "u\<lparr>s_path := ref\<rparr>" v] append_path_grows [OF _ assms(2)] by simp
qed

lemma with_path_value_grows:
  assumes "with_path env seg n (scan_value env fuel d parent) s = (Inr k, t)"
    "s_pos s \<le> length (sc_body env)"
  shows "grows env 1 s t"
proof -
  from assms(1) obtain ref u v where "append_path env seg n s = (Inr ref, u)"
    "scan_value env fuel d parent (u\<lparr>s_path := ref\<rparr>) = (Inr k, v)" "t = v\<lparr>s_path := s_path s\<rparr>"
    by (rule with_path_result)
  then show ?thesis using with_path_grows [OF _ assms(2)] runs_grow(1) scan_runs(1) by blast
qed

text \<open>
  With \<open>R\<close> bytes left, \<open>value\<close> needs \<open>3R+1\<close> units, \<open>object\<close> and \<open>array\<close> need \<open>3R\<close> and their
  loops \<open>3R+2\<close>: a loop spends one unit per round and consumes a byte in each, and a value that
  opens a bracket consumes it before its loop is entered.
\<close>

lemma fuel_suffices:
  "s_pos s \<le> length (sc_body env) \<Longrightarrow> 3 * (length (sc_body env) - s_pos s) + 1 \<le> fuel \<Longrightarrow>
     scan_value env fuel d parent s \<noteq> (Inl OutOfFuel, t)"
  "s_pos s < length (sc_body env) \<Longrightarrow> 3 * (length (sc_body env) - s_pos s) \<le> fuel \<Longrightarrow>
     scan_object env fuel d s \<noteq> (Inl OutOfFuel, t)"
  "s_pos s \<le> length (sc_body env) \<Longrightarrow> 3 * (length (sc_body env) - s_pos s) + 2 \<le> fuel \<Longrightarrow>
     object_loop env fuel d s \<noteq> (Inl OutOfFuel, t)"
  "s_pos s < length (sc_body env) \<Longrightarrow> 3 * (length (sc_body env) - s_pos s) \<le> fuel \<Longrightarrow>
     scan_array env fuel d s \<noteq> (Inl OutOfFuel, t)"
  "s_pos s \<le> length (sc_body env) \<Longrightarrow> 3 * (length (sc_body env) - s_pos s) + 2 \<le> fuel \<Longrightarrow>
     array_loop env fuel d i s \<noteq> (Inl OutOfFuel, t)"
proof (induction env fuel d parent and env fuel d and env fuel d and env fuel d and env fuel d i
    arbitrary: s t and s t and s t and s t and s t
    rule: scan_value_scan_object_object_loop_scan_array_array_loop.induct)
  case (2 env fuel depth parent)
  show ?case
  proof
    assume "scan_value env (Suc fuel) depth parent s = (Inl OutOfFuel, t)"
    moreover have "e \<in> no_fuel_error" if "literal env w u = (Inl e, v)" for w u e v
      using fails_onlyD [OF fails_literal that] .
    moreover have "e \<in> no_fuel_error" if "number env u = (Inl e, v)" for u e v
      using fails_onlyD [OF fails_number that] .
    moreover have "e \<in> no_fuel_error" if "string_node env depth parent u = (Inl e, v)" for u e v
      using fails_onlyD [OF fails_string_node that] .
    moreover have "e \<in> no_fuel_error" if "value_head env depth u = (Inl e, v)" for u e v
      using fails_onlyD [OF fails_value_head that] .
    ultimately obtain s1 where h: "value_head env depth s = (Inr (), s1)"
      and r: "sc_body env ! s_pos s1 = CHR ''{'' \<and> scan_object env fuel depth s1 = (Inl OutOfFuel, t) \<or>
        sc_body env ! s_pos s1 = CHR ''['' \<and> scan_array env fuel depth s1 = (Inl OutOfFuel, t)"
      by (fastforce simp: bind_Inl_iff Let_def invalid_def split: if_split_asm)
    have p: "s_pos s1 = s_pos s" "s_pos s < length (sc_body env)" using value_head_grows [OF h] by auto
    from r show False
    proof
      assume "sc_body env ! s_pos s1 = CHR ''{'' \<and> scan_object env fuel depth s1 = (Inl OutOfFuel, t)"
      with "2.IH"(1) [OF refl, of "s_pos s1" s1 t] p "2.prems" show False by simp
    next
      assume "sc_body env ! s_pos s1 = CHR ''['' \<and> scan_array env fuel depth s1 = (Inl OutOfFuel, t)"
      with "2.IH"(2) [OF refl, of "s_pos s1" s1 t] p "2.prems" show False by simp
    qed
  qed
next
  case (4 env fuel depth)
  show ?case
  proof
    assume "scan_object env (Suc fuel) depth s = (Inl OutOfFuel, t)"
    with fails_onlyD [OF fails_skip_whitespace] obtain s2 where
      w: "skip_whitespace env (s\<lparr>s_pos := s_pos s + 1\<rparr>) = (Inr (), s2)"
      and b: "\<not> byte_is env (s_pos s2) CHR ''}''" and r: "object_loop env fuel depth s2 = (Inl OutOfFuel, t)"
      by (fastforce simp: bind_Inl_iff advance_def split: if_split_asm)
    have "s_pos s + 1 \<le> s_pos s2" "s_pos s2 \<le> length (sc_body env)"
      using skip_whitespace_result [OF w] lex_step_pos "4.prems" by fastforce+
    moreover from this "4.prems" have "3 * (length (sc_body env) - s_pos s2) + 2 \<le> fuel" by linarith
    ultimately show False using "4.IH" [OF b, of s2 t] r by blast
  qed
next
  case (6 env fuel depth)
  let ?wp = "\<lambda>key. with_path env (Key key) (length key) (scan_value env fuel (depth + 1) KindObject)"
  show ?case
  proof
    assume "object_loop env (Suc fuel) depth s = (Inl OutOfFuel, t)"
    with fails_onlyD [OF fails_object_key] obtain key s1 where k: "object_key env s = (Inr key, s1)"
      and r: "?wp key s1 = (Inl OutOfFuel, t) \<or>
        (\<exists>kd s3. ?wp key s1 = (Inr kd, s3) \<and>
           bind (container_next env CHR ''}'' ''unterminated object'' ''expected ',' or '}' in object'')
             (\<lambda>closed. if closed then ret () else object_loop env fuel depth) s3 = (Inl OutOfFuel, t))"
      by (fastforce simp: bind_Inl_iff)
    note g1 = grows_pos [OF object_key_grows [OF k]]
    from r consider "?wp key s1 = (Inl OutOfFuel, t)"
      | kd s3 s4 where "?wp key s1 = (Inr kd, s3)"
        "container_next env CHR ''}'' ''unterminated object'' ''expected ',' or '}' in object'' s3 = (Inr False, s4)"
        "object_loop env fuel depth s4 = (Inl OutOfFuel, t)"
      by (fastforce simp: bind_Inl_iff split: if_split_asm dest: fails_onlyD [OF fails_container_next])
    then show False
    proof cases
      case 1
      then obtain u v where "s_pos u = s_pos s1"
        "scan_value env fuel (depth + 1) KindObject u = (Inl OutOfFuel, v)"
        by (rule with_path_out_of_fuel) (use g1 in auto)
      moreover from this g1 "6.prems" have "s_pos u \<le> length (sc_body env)"
        "3 * (length (sc_body env) - s_pos u) + 1 \<le> fuel" by linarith+
      ultimately show False using "6.IH"(1) [of u v] by blast
    next
      case 2
      have "grows env 1 s1 s3" using with_path_value_grows [OF 2(1)] g1 by simp
      moreover from this have "lex_step env 1 s3 s4" using container_next_result [OF 2(2)] by (simp add: grows_def)
      ultimately have "s_pos s + 1 \<le> s_pos s4" "s_pos s4 \<le> length (sc_body env)"
        using g1 lex_step_pos by (fastforce simp: grows_def)+
      moreover from this "6.prems" have "3 * (length (sc_body env) - s_pos s4) + 2 \<le> fuel" by linarith
      ultimately show False using "6.IH"(2) [of False s4 t] 2(3) by blast
    qed
  qed
next
  case (8 env fuel depth)
  show ?case
  proof
    assume "scan_array env (Suc fuel) depth s = (Inl OutOfFuel, t)"
    with fails_onlyD [OF fails_skip_whitespace] obtain s2 where
      w: "skip_whitespace env (s\<lparr>s_pos := s_pos s + 1\<rparr>) = (Inr (), s2)"
      and b: "\<not> byte_is env (s_pos s2) CHR '']''" and r: "array_loop env fuel depth 0 s2 = (Inl OutOfFuel, t)"
      by (fastforce simp: bind_Inl_iff advance_def split: if_split_asm)
    have "s_pos s + 1 \<le> s_pos s2" "s_pos s2 \<le> length (sc_body env)"
      using skip_whitespace_result [OF w] lex_step_pos "8.prems" by fastforce+
    moreover from this "8.prems" have "3 * (length (sc_body env) - s_pos s2) + 2 \<le> fuel" by linarith
    ultimately show False using "8.IH" [OF b, of s2 t] r by blast
  qed
next
  case (10 env fuel depth index)
  let ?wp = "with_path env (Index (int index)) 0 (scan_value env fuel (depth + 1) KindArray)"
  show ?case
  proof
    assume "array_loop env (Suc fuel) depth index s = (Inl OutOfFuel, t)"
    then consider "?wp s = (Inl OutOfFuel, t)"
      | kd s3 s4 where "?wp s = (Inr kd, s3)"
        "container_next env CHR '']'' ''unterminated array'' ''expected ',' or ']' in array'' s3 = (Inr False, s4)"
        "array_loop env fuel depth (index + 1) s4 = (Inl OutOfFuel, t)"
      by (fastforce simp: bind_Inl_iff split: if_split_asm dest: fails_onlyD [OF fails_container_next])
    then show False
    proof cases
      case 1
      then obtain u v where "s_pos u = s_pos s"
        "scan_value env fuel (depth + 1) KindArray u = (Inl OutOfFuel, v)"
        by (rule with_path_out_of_fuel) (use "10.prems" in auto)
      moreover from this "10.prems" have "s_pos u \<le> length (sc_body env)"
        "3 * (length (sc_body env) - s_pos u) + 1 \<le> fuel" by linarith+
      ultimately show False using "10.IH"(1) [of u v] by blast
    next
      case 2
      have g: "grows env 1 s s3" using with_path_value_grows [OF 2(1)] "10.prems" by simp
      then have "lex_step env 1 s3 s4" using container_next_result [OF 2(2)] by (simp add: grows_def)
      with g have "s_pos s + 1 \<le> s_pos s4" "s_pos s4 \<le> length (sc_body env)"
        using lex_step_pos by (fastforce simp: grows_def)+
      moreover from this "10.prems" have "3 * (length (sc_body env) - s_pos s4) + 2 \<le> fuel" by linarith
      ultimately show False using "10.IH"(2) [of False s4 t] 2(3) by blast
    qed
  qed
qed simp_all

section \<open>Whole documents\<close>

lemma init_scanner_simps [simp]:
  "s_pos (init_scanner n) = 0" "s_nodes (init_scanner n) = 0" "s_path (init_scanner n) = -1"
  "s_paths (init_scanner n) = []" "s_paths_cap (init_scanner n) = 0"
  "s_strings (init_scanner n) = []" "s_strings_cap (init_scanner n) = 0"
  "s_structural (init_scanner n) = 0"
  by (simp_all add: init_scanner_def root_path_ref_def)

lemma scan_json_not_out_of_fuel: "scan_json env (init_scanner n) \<noteq> (Inl OutOfFuel, t)"
proof
  assume "scan_json env (init_scanner n) = (Inl OutOfFuel, t)"
  then obtain s1 v where w: "skip_whitespace env (init_scanner n) = (Inr (), s1)"
    and v: "scan_value env (initial_fuel (sc_body env)) 1 KindInvalid s1 = (Inl OutOfFuel, v)"
    by (fastforce simp: scan_json_def bind_Inl_iff dest: fails_onlyD [OF fails_skip_whitespace]
        fails_onlyD [OF fails_check_now])
  have "s_pos s1 \<le> length (sc_body env)" using skip_whitespace_result [OF w] lex_step_pos by fastforce
  then show False using fuel_suffices(1) [of s1 env "initial_fuel (sc_body env)"] v
    by (simp add: initial_fuel_def)
qed

text \<open>The run of the root value inside a successful scan.\<close>

lemma scan_json_run:
  assumes "scan_json env (init_scanner n) = (Inr (k, sp), t)"
  obtains s1 s2 where "lex_step env 0 (init_scanner n) s1" "value_run env 1 KindInvalid s1 k s2"
    "lex_step env 0 s2 t" "s_pos t = length (sc_body env)"
    "sp = \<lparr>Start = s_pos s1, End = s_pos s2\<rparr>"
    "blank (slice (sc_body env) 0 (s_pos s1))" "blank (slice (sc_body env) (s_pos s2) (s_pos t))"
proof -
  let ?b = "sc_body env"
  from assms obtain s1 s2 s3 where w1: "skip_whitespace env (init_scanner n) = (Inr (), s1)"
    and v: "scan_value env (initial_fuel ?b) 1 KindInvalid s1 = (Inr k, s2)"
    and w2: "skip_whitespace env s2 = (Inr (), s3)" and e: "s_pos s3 = length ?b"
    and c: "check_now env s3 = (Inr (), t)" and sp: "sp = \<lparr>Start = s_pos s1, End = s_pos s2\<rparr>"
    by (auto simp: scan_json_def bind_Inr_iff)
  note r = scan_runs(1) [OF v]
  from runs_grow(1) [OF r] have "s_pos s2 \<le> length ?b" by (simp add: grows_def)
  note l2 = skip_whitespace_result [OF w2 this]
  have "lex_step env 0 s3 t" by (rule lexicalD [OF lexical_check_now _ c]) (use e in simp)
  with l2 have l3: "lex_step env 0 s2 t" using lex_step_trans [of env 0 s2 s3 0 t 0] by simp
  have "s_pos t = s_pos s3" using check_now_state [OF c] by auto
  then show thesis using that [OF _ r l3] skip_whitespace_result [OF w1] l2 e sp by simp
qed

lemma scan_json_grammar:
  assumes "scan_json env (init_scanner n) = (Inr (k, sp), t)"
  shows "json_document (sc_body env) \<and> json_value (slice (sc_body env) (Start sp) (End sp)) \<and>
    Start sp < End sp \<and> End sp \<le> length (sc_body env)"
proof -
  let ?b = "sc_body env"
  from assms obtain s1 s2 where r: "lex_step env 0 (init_scanner n) s1" "value_run env 1 KindInvalid s1 k s2"
    "lex_step env 0 s2 t" "s_pos t = length ?b"
    and sp: "sp = \<lparr>Start = s_pos s1, End = s_pos s2\<rparr>"
    and bl: "blank (slice ?b 0 (s_pos s1))" "blank (slice ?b (s_pos s2) (s_pos t))"
    by (rule scan_json_run)
  note g = runs_grow(1) [OF r(2)]
  have "?b = slice ?b 0 (s_pos s1) @ slice ?b (s_pos s1) (s_pos s2) @ slice ?b (s_pos s2) (length ?b)"
    using g lex_step_pos [OF r(3)] by (simp add: slice_append grows_def)
  then have "json_document ?b" using g bl r(4) unfolding json_document_def by auto
  then show ?thesis using g sp by (simp add: grows_def)
qed

end
