(* ===== verification/Scanner_Invariants.thy ===== *)
theory Scanner_Invariants
  imports Scanner_Sound
begin

text \<open>
  The invariant of the scanner: the path arena is well-formed and the path in force has as many
  segments as the depth says, the collected tokens are ordered, disjoint and decode to their
  values, the node counter agrees with the arena (so that the \<open>int32\<close> references never wrap),
  and the structural budget is exactly what the index retains.
\<close>

section \<open>The invariant\<close>

fun segment_ok :: "limits \<Rightarrow> path_segment \<Rightarrow> bool" where
  "segment_ok l SegInvalid = False"
| "segment_ok l (Key k) = (int (length k) \<le> MaxStringBytes l)"
| "segment_ok l (Index i) = (0 \<le> i)"

text \<open>The kind of the container whose member or element a path (innermost node first) names.\<close>

fun parent_kind_of :: "path_node list \<Rightarrow> kind" where
  "parent_kind_of [] = KindInvalid"
| "parent_kind_of (n # ns) =
    (case pn_segment n of SegInvalid \<Rightarrow> KindInvalid | Key _ \<Rightarrow> KindObject | Index _ \<Rightarrow> KindArray)"

definition token_ok :: "string \<Rightarrow> limits \<Rightarrow> path_node list \<Rightarrow> string_token \<Rightarrow> bool" where
  "token_ok body l paths tok \<longleftrightarrow>
     Start (tok_span tok) < End (tok_span tok) \<and> End (tok_span tok) \<le> length body \<and>
     json_string (raw body (tok_span tok)) \<and>
     (\<exists>esc. decode_raw esc (raw body (tok_span tok)) = Some (tok_value tok)) \<and>
     int (length (tok_value tok)) \<le> MaxStringBytes l \<and>
     int (tok_depth tok) \<le> MaxDepth l \<and> tok_path tok = [] \<and>
     (\<exists>ns. chain pn_parent paths (tok_path_ref tok) = Some ns \<and> length ns + 1 = tok_depth tok \<and>
        tok_parent_kind tok = parent_kind_of ns)"

definition tokens_ok :: "string \<Rightarrow> limits \<Rightarrow> path_node list \<Rightarrow> string_token list \<Rightarrow> bool" where
  "tokens_ok body l paths toks \<longleftrightarrow>
     (\<forall>t \<in> set toks. token_ok body l paths t) \<and>
     sorted_wrt (\<lambda>t u. End (tok_span t) \<le> Start (tok_span u)) toks"

definition key_bytes :: "path_segment \<Rightarrow> nat" where
  "key_bytes seg = (case seg of Key k \<Rightarrow> length k | _ \<Rightarrow> 0)"

definition retained :: "path_node list \<Rightarrow> nat \<Rightarrow> string_token list \<Rightarrow> nat \<Rightarrow> int" where
  "retained paths paths_cap toks toks_cap =
     int (\<Sum>n \<leftarrow> paths. key_bytes (pn_segment n)) + int (\<Sum>t \<leftarrow> toks. length (tok_value t)) +
     64 * int paths_cap + 128 * int toks_cap"

definition scan_ok :: "scan_env \<Rightarrow> nat \<Rightarrow> nat \<Rightarrow> scanner \<Rightarrow> bool" where
  "scan_ok env d k s \<longleftrightarrow>
     s_pos s \<le> length (sc_body env) \<and>
     s_nodes s = length (s_paths s) + k \<and> int (s_nodes s) \<le> MaxNodes (sc_limits env) \<and>
     arena_ok pn_parent (s_paths s) \<and> -1 \<le> s_path s \<and>
     (\<forall>n \<in> set (s_paths s). segment_ok (sc_limits env) (pn_segment n)) \<and>
     (\<exists>ns. chain pn_parent (s_paths s) (s_path s) = Some ns \<and> length ns + 1 = d) \<and>
     tokens_ok (sc_body env) (sc_limits env) (s_paths s) (s_strings s) \<and>
     (\<forall>t \<in> set (s_strings s). End (tok_span t) \<le> s_pos s) \<and>
     s_structural s = retained (s_paths s) (s_paths_cap s) (s_strings s) (s_strings_cap s) \<and>
     s_structural s \<le> MaxStructuralBytes (sc_limits env) \<and>
     length (s_paths s) \<le> s_paths_cap s \<and> length (s_strings s) \<le> s_strings_cap s"

definition under :: "kind \<Rightarrow> scanner \<Rightarrow> bool" where
  "under parent s \<longleftrightarrow> (\<exists>ns. chain pn_parent (s_paths s) (s_path s) = Some ns \<and> parent_kind_of ns = parent)"

section \<open>The steps keep it\<close>

lemma scan_ok_lex:
  assumes "lex_step env j s t" "scan_ok env d k s"
  shows "scan_ok env d k t" "under parent s \<Longrightarrow> under parent t"
proof -
  obtain p n l where t: "t = s\<lparr>s_pos := p, s_polls := n, s_last_check := l\<rparr>" "s_pos s + j \<le> p"
    "p \<le> length (sc_body env)"
    using assms(1) by (auto simp: lex_step_def)
  have "\<forall>x \<in> set (s_strings s). End (tok_span x) \<le> p"
    using assms(2) t(2) unfolding scan_ok_def by fastforce
  then show "scan_ok env d k t" using assms(2) t by (simp add: scan_ok_def)
  show "under parent s \<Longrightarrow> under parent t" by (simp add: under_def t)
qed

lemma scan_ok_value_head:
  assumes "value_head env d s = (Inr (), t)" "scan_ok env d 0 s"
  shows "scan_ok env d 1 t" "int d \<le> MaxDepth (sc_limits env)" "under parent s \<Longrightarrow> under parent t"
  using value_head_result [OF assms(1)] assms(2) by (auto simp: scan_ok_def under_def)

lemma token_ok_append: "token_ok body l paths t \<Longrightarrow> token_ok body l (paths @ ps) t"
  by (auto simp: token_ok_def chain_append)

lemma tokens_ok_append: "tokens_ok body l paths ts \<Longrightarrow> tokens_ok body l (paths @ ps) ts"
  by (auto simp: tokens_ok_def token_ok_append)

lemma scan_ok_append_path:
  assumes "append_path env seg n s = (Inr ref, t)" "scan_ok env d 1 s"
    and "segment_ok (sc_limits env) seg" "n = key_bytes seg" "MaxNodes (sc_limits env) \<le> 250000"
  shows "scan_ok env (d + 1) 0 (t\<lparr>s_path := ref\<rparr>)"
    "under (parent_kind_of [\<lparr>pn_parent = 0, pn_segment = seg\<rparr>]) (t\<lparr>s_path := ref\<rparr>)"
proof -
  let ?x = "\<lparr>pn_parent = s_path s, pn_segment = seg\<rparr>"
  note r = append_path_result [OF assms(1)]
  from assms(2) obtain ns where ns: "chain pn_parent (s_paths s) (s_path s) = Some ns" "length ns + 1 = d"
    by (auto simp: scan_ok_def)
  have nodes: "s_nodes s = length (s_paths s) + 1" "int (s_nodes s) \<le> 250000"
    using assms(2,5) by (auto simp: scan_ok_def)
  then have ref: "ref = int (length (s_paths s))" using r by (simp add: int32_id)
  have ch: "chain pn_parent (s_paths s @ [?x]) (int (length (s_paths s))) = Some (?x # ns)"
    using ns(1) by (intro chain_snoc) simp
  have arena: "arena_ok pn_parent (s_paths s @ [?x])"
    using assms(2) chain_range [OF ns(1)] by (intro arena_ok_snoc) (auto simp: scan_ok_def)
  have t: "s_paths t = s_paths s @ [?x]" "s_strings t = s_strings s" "s_pos t = s_pos s"
    "s_nodes t = s_nodes s" "s_strings_cap t = s_strings_cap s"
    "s_paths_cap t = grow_cap (length (s_paths s)) (s_paths_cap s)"
    "s_structural t = s_structural s + int n +
       (int (grow_cap (length (s_paths s)) (s_paths_cap s)) - int (s_paths_cap s)) * 64"
    "s_structural t \<le> MaxStructuralBytes (sc_limits env)"
    using r by auto
  have cap: "length (s_paths s) + 1 \<le> grow_cap (length (s_paths s)) (s_paths_cap s)"
    using assms(2) by (auto simp: scan_ok_def grow_cap_def)
  have str: "s_structural t = retained (s_paths t) (s_paths_cap t) (s_strings t) (s_strings_cap t)"
    using assms(2,4) unfolding scan_ok_def t by (simp add: retained_def t algebra_simps)
  have tok: "tokens_ok (sc_body env) (sc_limits env) (s_paths t) (s_strings t)"
    using assms(2) by (simp add: scan_ok_def t tokens_ok_append)
  show "scan_ok env (d + 1) 0 (t\<lparr>s_path := ref\<rparr>)"
    using assms(2,3) nodes ch ns(2) arena cap str tok t(8) unfolding scan_ok_def
    by (simp add: t(1-6) ref)
  show "under (parent_kind_of [\<lparr>pn_parent = 0, pn_segment = seg\<rparr>]) (t\<lparr>s_path := ref\<rparr>)"
    using ch by (simp add: under_def t ref)
qed

lemma scan_ok_restore:
  assumes "scan_ok env d 1 s" "scan_ok env d' 1 u" "grows env j s (u\<lparr>s_path := s_path s\<rparr>)"
  shows "scan_ok env d 1 (u\<lparr>s_path := s_path s\<rparr>)"
  using assms by (auto simp: scan_ok_def grows_def chain_append)

lemma scan_ok_string_node:
  assumes "string_node env d parent s = (Inr (), t)" "byte_is env (s_pos s) CHR 0x22"
    "scan_ok env d 1 s" "under parent s" "int d \<le> MaxDepth (sc_limits env)"
  shows "scan_ok env d 1 t"
proof -
  obtain v u where v: "string_value env s = (Inr v, u)"
    and a: "append_string env (new_token v (s_pos s) (s_pos u) parent d (s_path u)) u = (Inr (), t)"
    using assms(1) by (rule string_node_result)
  let ?x = "new_token v (s_pos s) (s_pos u) parent d (s_path u)"
  note r = string_value_result [OF v assms(2)]
  then have l: "lex_step env 2 s u" by simp
  note ok = scan_ok_lex(1) [OF l assms(3)] and un = scan_ok_lex(2) [OF l assms(3,4)]
  have "token_ok (sc_body env) (sc_limits env) (s_paths u) ?x"
    using r ok un lex_step_pos [OF l] assms(5)
    by (auto simp: token_ok_def new_token_def raw_def scan_ok_def under_def)
  moreover have "\<forall>t \<in> set (s_strings u). End (tok_span t) \<le> s_pos s"
    using assms(3) l by (auto simp: scan_ok_def lex_step_def)
  ultimately have tok: "tokens_ok (sc_body env) (sc_limits env) (s_paths u) (s_strings u @ [?x])"
    using ok by (auto simp: scan_ok_def tokens_ok_def sorted_wrt_snoc new_token_def)
  have t: "t = u\<lparr>s_strings_cap := grow_cap (length (s_strings u)) (s_strings_cap u),
      s_structural := s_structural u + int (length v) +
        (int (grow_cap (length (s_strings u)) (s_strings_cap u)) - int (s_strings_cap u)) * 128,
      s_strings := s_strings u @ [?x]\<rparr>" 
    using conjunct1 [OF append_string_result [OF a]] by (simp add: new_token_def)
  have m: "s_structural t \<le> MaxStructuralBytes (sc_limits env)"
    by (rule conjunct2 [OF append_string_result [OF a]])
  have cap: "length (s_strings u) + 1 \<le> grow_cap (length (s_strings u)) (s_strings_cap u)"
    using ok by (auto simp: scan_ok_def grow_cap_def)
  have "s_structural t = retained (s_paths t) (s_paths_cap t) (s_strings t) (s_strings_cap t)"
    using ok by (simp add: t scan_ok_def retained_def new_token_def algebra_simps)
  then show ?thesis using ok tok m cap unfolding scan_ok_def t by (simp add: new_token_def)
qed


section \<open>Every accepting run keeps it\<close>

lemma scan_ok_object_key:
  assumes "object_key env s = (Inr key, s1)" "scan_ok env d 1 s"
  shows "scan_ok env d 1 s1" "segment_ok (sc_limits env) (Key key)"
proof -
  have "s_pos s \<le> length (sc_body env)" using assms(2) by (simp add: scan_ok_def)
  note r = object_key_result [OF assms(1) this]
  then show "scan_ok env d 1 s1" "segment_ok (sc_limits env) (Key key)"
    using scan_ok_lex(1) [OF conjunct1 [OF r] assms(2)] by simp_all
qed

lemma scan_ok_child:
  assumes "append_path env seg n s = (Inr ref, s2)" "scan_ok env d 1 s"
    and "value_run env (d + 1) parent (s2\<lparr>s_path := ref\<rparr>) k s3"
    and "container_next env c e1 e2 (s3\<lparr>s_path := s_path s\<rparr>) = (Inr closed, t)"
    and "scan_ok env (d + 1) 1 s3"
  shows "scan_ok env d 1 t"
proof -
  have le: "s_pos s \<le> length (sc_body env)" using assms(2) by (simp add: scan_ok_def)
  note g = with_path_grows [OF assms(1) le conjunct1 [OF runs_grow(1) [OF assms(3)]]]
  note ok = scan_ok_restore [OF assms(2,5) g]
  then have "s_pos (s3\<lparr>s_path := s_path s\<rparr>) \<le> length (sc_body env)" by (simp add: scan_ok_def)
  note nx = container_next_result [OF assms(4) this]
  show ?thesis by (rule scan_ok_lex(1) [OF conjunct1 [OF nx] ok])
qed

lemma runs_keep_ok:
  assumes lim: "MaxNodes (sc_limits env) \<le> 250000"
  shows "value_run env d parent s k t \<Longrightarrow> scan_ok env d 0 s \<Longrightarrow> under parent s \<Longrightarrow> scan_ok env d 1 t"
    and "members_run env d s t \<Longrightarrow> scan_ok env d 1 s \<Longrightarrow> scan_ok env d 1 t"
    and "elements_run env d i s t \<Longrightarrow> scan_ok env d 1 s \<Longrightarrow> scan_ok env d 1 t"
proof (induction rule: value_run_members_run_elements_run.inducts)
  case (vr_string d s s1 parent t)
  note h = scan_ok_value_head [OF vr_string(1) \<open>scan_ok env d 0 s\<close>]
  show ?case by (rule scan_ok_string_node [OF vr_string(3,2) h(1) h(3) [OF \<open>under parent s\<close>] h(2)])
next
  case (vr_scalar d s s1 k t parent)
  show ?case
    by (rule scan_ok_lex(1) [OF \<open>lex_step env 1 s1 t\<close>
          scan_ok_value_head(1) [OF vr_scalar(1) \<open>scan_ok env d 0 s\<close>]])
next
  case (vr_empty d s s1 k open_byte close_byte s2 t parent)
  note o = open_result [OF \<open>byte_is env (s_pos s1) open_byte\<close>
    \<open>skip_whitespace env (s1\<lparr>s_pos := s_pos s1 + 1\<rparr>) = (Inr (), s2)\<close>]
  have "lex_step env 1 s2 t"
    using lex_step_advance [of s2 1 env] \<open>byte_is env (s_pos s2) close_byte\<close>
    by (simp add: \<open>t = _\<close> byte_is_def)
  from lex_step_trans [OF conjunct1 [OF o] this order_refl]
  show ?case by (rule scan_ok_lex(1)) (rule scan_ok_value_head(1) [OF vr_empty(1) \<open>scan_ok env d 0 s\<close>])
next
  case (vr_object d s s1 s2 t parent)
  note o = open_result [OF vr_object(2,3)]
  show ?case
    by (rule vr_object(5) [OF scan_ok_lex(1) [OF conjunct1 [OF o]
          scan_ok_value_head(1) [OF vr_object(1) \<open>scan_ok env d 0 s\<close>]]])
next
  case (vr_array d s s1 s2 t parent)
  note o = open_result [OF vr_array(2,3)]
  show ?case
    by (rule vr_array(5) [OF scan_ok_lex(1) [OF conjunct1 [OF o]
          scan_ok_value_head(1) [OF vr_array(1) \<open>scan_ok env d 0 s\<close>]]])
next
  case (mr_last s key s1 ref s2 d k s3 e1 e2 t)
  note key = scan_ok_object_key [OF mr_last(1) \<open>scan_ok env d 1 s\<close>]
  note child = scan_ok_append_path [OF mr_last(2) key(1,2) _ lim]
  have "scan_ok env (d + 1) 1 s3" using child by (intro mr_last) (simp_all add: key_bytes_def)
  then show ?case by (rule scan_ok_child [OF mr_last(2) key(1) mr_last(3) \<open>container_next env _ _ _ _ = _\<close>])
next
  case (mr_more s key s1 ref s2 d k s3 e1 e2 s4 t)
  note key = scan_ok_object_key [OF mr_more(1) \<open>scan_ok env d 1 s\<close>]
  note child = scan_ok_append_path [OF mr_more(2) key(1,2) _ lim]
  have "scan_ok env (d + 1) 1 s3" using child by (intro mr_more) (simp_all add: key_bytes_def)
  from scan_ok_child [OF mr_more(2) key(1) mr_more(3) \<open>container_next env _ _ _ _ = _\<close> this]
  show ?case by (rule mr_more)
next
  case (er_last i s ref s2 d k s3 e1 e2 t)
  note ok = \<open>scan_ok env d 1 s\<close>
  note child = scan_ok_append_path [OF er_last(1) ok _ _ lim]
  have "scan_ok env (d + 1) 1 s3" using child by (intro er_last) (simp_all add: key_bytes_def)
  then show ?case by (rule scan_ok_child [OF er_last(1) ok er_last(2) \<open>container_next env _ _ _ _ = _\<close>])
next
  case (er_more i s ref s2 d k s3 e1 e2 s4 t)
  note ok = \<open>scan_ok env d 1 s\<close>
  note child = scan_ok_append_path [OF er_more(1) ok _ _ lim]
  have "scan_ok env (d + 1) 1 s3" using child by (intro er_more) (simp_all add: key_bytes_def)
  from scan_ok_child [OF er_more(1) ok er_more(2) \<open>container_next env _ _ _ _ = _\<close> this]
  show ?case by (rule er_more)
qed

lemma scan_ok_init:
  assumes "limits_ok (sc_limits env)"
  shows "scan_ok env 1 0 (init_scanner n)" "under KindInvalid (init_scanner n)"
  using assms by (simp_all add: scan_ok_def under_def tokens_ok_def retained_def limits_ok_def)

lemma scan_json_ok:
  assumes "scan_json env (init_scanner n) = (Inr (k, sp), t)" "limits_ok (sc_limits env)"
  shows "scan_ok env 1 1 t"
proof -
  from assms(1) obtain s1 s2 where r: "lex_step env 0 (init_scanner n) s1" "value_run env 1 KindInvalid s1 k s2"
    "lex_step env 0 s2 t" by (rule scan_json_run)
  note init = scan_ok_init [OF assms(2), of n]
  have "MaxNodes (sc_limits env) \<le> 250000" using assms(2) by (simp add: limits_ok_def)
  from runs_keep_ok(1) [OF this r(2)] scan_ok_lex [OF r(1) init(1)] init(2)
  have "scan_ok env 1 1 s2" by simp
  then show ?thesis by (rule scan_ok_lex(1) [OF r(3)])
qed

end
