(* ===== verification/Key_Names.thy ===== *)
theory Key_Names
  imports Json_String
begin

text \<open>
  The normalisation of object keys. \<open>normalizeContextKey\<close> (\<open>payload/payload.go\<close>) and
  \<open>normalizeCredentialFieldKey\<close> (\<open>internal/privacyengine/secrets.go\<close>) have the same two loops:
  the first rejects a key with another byte than an ASCII letter, a digit, \<open>-\<close> or \<open>_\<close> and
  notes whether anything changes, the second rewrites the bytes.
\<close>

definition is_upper :: "char \<Rightarrow> bool" where
  "is_upper c \<longleftrightarrow> 65 \<le> byte_of c \<and> byte_of c \<le> 90"

definition is_lower :: "char \<Rightarrow> bool" where
  "is_lower c \<longleftrightarrow> 97 \<le> byte_of c \<and> byte_of c \<le> 122"

text \<open>The first loop: \<open>None\<close> where it returns the empty string.\<close>

fun context_key_changed :: "bool \<Rightarrow> string \<Rightarrow> bool option" where
  "context_key_changed changed [] = Some changed"
| "context_key_changed changed (c # cs) =
    (if is_upper c \<or> c = CHR ''-'' then context_key_changed True cs
     else if is_lower c \<or> is_digit c \<or> c = CHR ''_'' then context_key_changed changed cs
     else None)"

definition context_key_byte :: "char \<Rightarrow> char" where
  "context_key_byte c =
    (if is_upper c then byte (byte_of c + 32) else if c = CHR ''-'' then CHR ''_'' else c)"

definition normalize_key :: "nat \<Rightarrow> string \<Rightarrow> string" where
  "normalize_key max_bytes key =
    (if length key = 0 \<or> length key > max_bytes then []
     else case context_key_changed False key of
       None \<Rightarrow> []
     | Some changed \<Rightarrow> if \<not> changed then key else map context_key_byte key)"

definition context_byte :: "char \<Rightarrow> bool" where
  "context_byte c \<longleftrightarrow> is_lower c \<or> is_digit c \<or> c = CHR ''_''"

lemma context_key_changed_bytes:
  "context_key_changed b key = Some b' \<Longrightarrow> \<forall>c \<in> set key. context_byte (context_key_byte c)"
proof (induction b key rule: context_key_changed.induct)
  case (2 b c cs)
  have "context_byte (context_key_byte c)" if "is_upper c \<or> c = CHR ''-'' \<or> is_lower c \<or> is_digit c \<or> c = CHR ''_''"
    using that by (auto simp: context_byte_def context_key_byte_def is_upper_def is_lower_def is_digit_def)
  with 2 show ?case by (auto split: if_splits)
qed simp

lemma context_key_unchanged:
  "context_key_changed b key = Some False \<Longrightarrow> map context_key_byte key = key"
proof (induction b key rule: context_key_changed.induct)
  case (2 b c cs)
  have "context_key_changed True cs \<noteq> Some False" for cs
    by (induction cs) auto
  with 2 show ?case by (auto simp: context_key_byte_def split: if_splits)
qed simp

lemma normalize_key_bytes:
  "length (normalize_key n key) \<le> n \<and>
   (\<forall>c \<in> set (normalize_key n key). context_byte c)"
proof (cases "context_key_changed False key")
  case None
  then show ?thesis by (simp add: normalize_key_def)
next
  case (Some b)
  then have "\<forall>c \<in> set (map context_key_byte key). context_byte c"
    using context_key_changed_bytes by fastforce
  moreover have "\<not> b \<Longrightarrow> map context_key_byte key = key" using Some context_key_unchanged by simp
  ultimately show ?thesis using Some by (cases b) (auto simp: normalize_key_def)
qed

lemma normalize_key_result:
  "normalize_key n key = (if 0 < length key \<and> length key \<le> n \<and> (\<forall>c \<in> set key. context_byte (context_key_byte c))
     then map context_key_byte key else [])"
proof -
  have none: "context_key_changed b key = None \<longleftrightarrow> \<not> (\<forall>c \<in> set key. context_byte (context_key_byte c))" for b
    by (induction b key rule: context_key_changed.induct)
      (auto simp: context_byte_def context_key_byte_def is_upper_def is_lower_def is_digit_def)
  show ?thesis
  proof (cases "context_key_changed False key")
    case None
    with none [of False] show ?thesis by (auto simp: normalize_key_def)
  next
    case (Some b)
    with none [of False] have "\<forall>c \<in> set key. context_byte (context_key_byte c)" by simp
    with Some context_key_unchanged show ?thesis by (cases b) (auto simp: normalize_key_def)
  qed
qed

text \<open>A normalised key is a fixed point.\<close>

lemma context_key_byte_id: "context_byte c \<Longrightarrow> context_key_byte c = c"
  by (auto simp: context_byte_def context_key_byte_def is_upper_def is_lower_def is_digit_def)

lemma normalize_key_idem: "normalize_key n (normalize_key n key) = normalize_key n key"
proof -
  let ?k = "normalize_key n key"
  have "\<forall>c \<in> set ?k. context_byte c" "length ?k \<le> n" using normalize_key_bytes by auto
  then show ?thesis
    using normalize_key_result [of n ?k] by (auto simp: context_key_byte_id map_idI)
qed

end
