(* ===== verification/Document.thy ===== *)
theory Document
  imports Scanner_Invariants Key_Names
begin

text \<open>
  The read side of \<open>Document\<close> in \<open>payload/payload.go\<close>: paths materialised from the arena,
  tokens handed out by ordinal or by path, the bounded key context, and the check by which a
  token handed back is recognised. Receivers that the code tests for \<open>nil\<close> are options.

  A loop that follows parent references gives \<open>None\<close> where it would not end or would index out
  of range; on a document that \<open>Scan\<close> returned it never does.
\<close>

section \<open>Paths\<close>

text \<open>\<open>materializePath\<close>: one loop counts, a second one fills the path from its end.\<close>

partial_function (option) count_loop :: "path_node list \<Rightarrow> int \<Rightarrow> nat \<Rightarrow> nat option" where
  "count_loop nodes current depth =
    (if current < 0 then Some depth
     else if nat current < length nodes
       then count_loop nodes (pn_parent (nodes ! nat current)) (depth + 1)
     else None)"

partial_function (option) fill_loop :: "path_node list \<Rightarrow> int \<Rightarrow> int \<Rightarrow> path \<Rightarrow> path option" where
  "fill_loop nodes current index path =
    (if current < 0 then Some path
     else if nat current < length nodes
       then fill_loop nodes (pn_parent (nodes ! nat current)) (index - 1)
              (path[nat index := pn_segment (nodes ! nat current)])
     else None)"

declare count_loop.simps [code] fill_loop.simps [code]

definition materialize_path :: "path_node list \<Rightarrow> int \<Rightarrow> path option" where
  "materialize_path nodes ref = Option.bind (count_loop nodes ref 0) (\<lambda>depth.
     fill_loop nodes ref (int depth - 1) (replicate depth SegInvalid))"

text \<open>\<open>pathEqual\<close> compares from the end of the path, without materialising the reference.\<close>

partial_function (option) path_equal_loop :: "path_node list \<Rightarrow> path \<Rightarrow> int \<Rightarrow> int \<Rightarrow> bool option" where
  "path_equal_loop nodes path current index =
    (if current < 0 then Some (index = -1)
     else if nat current < length nodes then
       (if index < 0 \<or> pn_segment (nodes ! nat current) \<noteq> path ! nat index then Some False
        else path_equal_loop nodes path (pn_parent (nodes ! nat current)) (index - 1))
     else None)"

declare path_equal_loop.simps [code]

definition path_equal_ref :: "path_node list \<Rightarrow> int \<Rightarrow> path \<Rightarrow> bool option" where
  "path_equal_ref nodes ref path = path_equal_loop nodes path ref (int (length path) - 1)"

text \<open>The path a reference stands for, by the chain of its nodes.\<close>

definition path_of :: "path_node list \<Rightarrow> int \<Rightarrow> path option" where
  "path_of nodes ref = map_option (\<lambda>ns. rev (map pn_segment ns)) (chain pn_parent nodes ref)"

lemma count_loop_chain:
  "chain pn_parent nodes ref = Some ns \<Longrightarrow> count_loop nodes ref d = Some (d + length ns)"
proof (induction ns arbitrary: ref d)
  case Nil
  then show ?case by (cases rule: chain_Some_cases) (auto simp: count_loop.simps)
next
  case (Cons n ns)
  from Cons.prems show ?case
    by (cases rule: chain_Some_cases) (auto simp: count_loop.simps [of nodes ref] Cons.IH)
qed

lemma fill_loop_chain:
  "chain pn_parent nodes ref = Some ns \<Longrightarrow> length ns \<le> length p \<Longrightarrow>
   fill_loop nodes ref (int (length ns) - 1) p = Some (rev (map pn_segment ns) @ drop (length ns) p)"
proof (induction ns arbitrary: ref p)
  case Nil
  then show ?case by (cases rule: chain_Some_cases) (auto simp: fill_loop.simps)
next
  case (Cons n ns)
  have d: "drop (length ns) (p[length ns := x]) = x # drop (Suc (length ns)) p" for x
    using Cons.prems(2) by (simp add: drop_update_swap Cons_nth_drop_Suc [symmetric])
  from Cons.prems(1) show ?case
  proof (cases rule: chain_Some_cases)
    case (2 ys)
    then have "fill_loop nodes ref (int (length (n # ns)) - 1) p =
        fill_loop nodes (pn_parent n) (int (length ns) - 1) (p[length ns := pn_segment n])"
      by (subst fill_loop.simps) auto
    also have "\<dots> = Some (rev (map pn_segment ns) @ drop (length ns) (p[length ns := pn_segment n]))"
      using 2 Cons.prems(2) by (intro Cons.IH) auto
    finally show ?thesis by (simp add: d)
  qed simp
qed

lemma materialize_path_chain: "chain pn_parent nodes ref = Some ns \<Longrightarrow>
    materialize_path nodes ref = Some (rev (map pn_segment ns))"
  using fill_loop_chain [of nodes ref ns "replicate (length ns) SegInvalid"]
  by (simp add: materialize_path_def count_loop_chain)

lemma path_equal_loop_chain:
  "chain pn_parent nodes ref = Some ns \<Longrightarrow> k \<le> length p \<Longrightarrow>
   path_equal_loop nodes p ref (int k - 1) = Some (rev (map pn_segment ns) = take k p)"
proof (induction ns arbitrary: ref k)
  case Nil
  then show ?case by (cases rule: chain_Some_cases) (auto simp: path_equal_loop.simps)
next
  case (Cons n ns)
  from Cons.prems(1) show ?case
  proof (cases rule: chain_Some_cases)
    case (2 ys)
    show ?thesis
    proof (cases k)
      case 0
      with 2 show ?thesis by (subst path_equal_loop.simps) auto
    next
      case (Suc j)
      then have t: "take k p = take j p @ [p ! j]" using Cons.prems(2) by (simp add: take_Suc_conv_app_nth)
      have "path_equal_loop nodes p ref (int k - 1) =
          (if pn_segment n \<noteq> p ! j then Some False
           else path_equal_loop nodes p (pn_parent n) (int j - 1))"
        using 2 Suc by (subst path_equal_loop.simps) auto
      then show ?thesis using Cons.IH [of "pn_parent n" j] 2 Cons.prems(2) Suc t by auto
    qed
  qed simp
qed

lemma path_equal_ref_chain: "chain pn_parent nodes ref = Some ns \<Longrightarrow>
    path_equal_ref nodes ref p = Some (rev (map pn_segment ns) = p)"
  using path_equal_loop_chain [of nodes ref ns "length p" p] by (simp add: path_equal_ref_def)

lemma path_of_refs:
  assumes "path_of nodes ref = Some q"
  shows "materialize_path nodes ref = Some q" "path_equal_ref nodes ref p = Some (q = p)"
  using assms by (auto simp: path_of_def materialize_path_chain path_equal_ref_chain)

section \<open>Tokens handed out\<close>

definition clone_token :: "document \<Rightarrow> string_token \<Rightarrow> string_token option" where
  "clone_token d tok =
     map_option (\<lambda>p. tok\<lparr>tok_path := p\<rparr>) (materialize_path (doc_paths d) (tok_path_ref tok))"

record string_metadata =
  sm_value :: string
  sm_span :: span
  sm_parent_kind :: kind
  sm_depth :: nat

text \<open>The comma-ok results of the accessors are options; \<open>index\<close> is a Go \<open>int\<close>.\<close>

definition in_strings :: "document \<Rightarrow> int \<Rightarrow> bool" where
  "in_strings d index \<longleftrightarrow> \<not> (index < 0 \<or> int (length (doc_strings d)) \<le> index)"

definition StringMetadataAt :: "document option \<Rightarrow> int \<Rightarrow> string_metadata option" where
  "StringMetadataAt doc index = (case doc of None \<Rightarrow> None | Some d \<Rightarrow>
     if \<not> in_strings d index then None
     else let tok = doc_strings d ! nat index in
       Some \<lparr>sm_value = tok_value tok, sm_span = tok_span tok,
             sm_parent_kind = tok_parent_kind tok, sm_depth = tok_depth tok\<rparr>)"

definition StringTokenAt :: "document option \<Rightarrow> int \<Rightarrow> string_token option" where
  "StringTokenAt doc index = (case doc of None \<Rightarrow> None | Some d \<Rightarrow>
     if \<not> in_strings d index then None else clone_token d (doc_strings d ! nat index))"

definition Strings :: "document \<Rightarrow> string_token option list" where
  "Strings d = map (clone_token d) (doc_strings d)"

fun strings_at_loop :: "document \<Rightarrow> path \<Rightarrow> string_token list \<Rightarrow> string_token list \<Rightarrow> string_token list option" where
  "strings_at_loop d p out [] = Some out"
| "strings_at_loop d p out (t # ts) =
     (case path_equal_ref (doc_paths d) (tok_path_ref t) p of
        None \<Rightarrow> None
      | Some False \<Rightarrow> strings_at_loop d p out ts
      | Some True \<Rightarrow> Option.bind (clone_token d t) (\<lambda>c. strings_at_loop d p (out @ [c]) ts))"

definition StringsAt :: "document \<Rightarrow> path \<Rightarrow> string_token list option" where
  "StringsAt d p = strings_at_loop d p [] (doc_strings d)"

text \<open>\<open>StringAt\<close>: the sole match, or an error. The outer option is about the inner loops.\<close>

fun string_at_loop ::
  "document \<Rightarrow> path \<Rightarrow> string_token option \<Rightarrow> string_token list \<Rightarrow> (payload_error + string_token) option" where
  "string_at_loop d p found [] =
     (case found of None \<Rightarrow> Some (Inl PathNotFound) | Some t \<Rightarrow> Some (Inr t))"
| "string_at_loop d p found (t # ts) =
     (case path_equal_ref (doc_paths d) (tok_path_ref t) p of
        None \<Rightarrow> None
      | Some False \<Rightarrow> string_at_loop d p found ts
      | Some True \<Rightarrow>
          if found \<noteq> None then Some (Inl PathAmbiguous)
          else Option.bind (clone_token d t) (\<lambda>c. string_at_loop d p (Some c) ts))"

definition StringAt :: "document \<Rightarrow> path \<Rightarrow> (payload_error + string_token) option" where
  "StringAt d p = string_at_loop d p None (doc_strings d)"

section \<open>Tokens handed back\<close>

definition canonical_token :: "document \<Rightarrow> string_token \<Rightarrow> payload_error + string_token" where
  "canonical_token d tok =
    (if tok_document tok \<noteq> Some (doc_id d) \<or> length (doc_strings d) \<le> tok_ordinal tok then Inl InvalidToken
     else let canonical = doc_strings d ! tok_ordinal tok in
       if tok_value tok \<noteq> tok_value canonical \<or> tok_span tok \<noteq> tok_span canonical \<or>
          tok_parent_kind tok \<noteq> tok_parent_kind canonical \<or> tok_depth tok \<noteq> tok_depth canonical \<or>
          path_equal_ref (doc_paths d) (tok_path_ref canonical) (tok_path tok) \<noteq> Some True
       then Inl InvalidToken
       else Inr canonical)"

definition RawString :: "document \<Rightarrow> string_token \<Rightarrow> payload_error + string" where
  "RawString d tok = (case canonical_token d tok of
     Inl e \<Rightarrow> Inl e | Inr canonical \<Rightarrow> Inr (raw (doc_body d) (tok_span canonical)))"

section \<open>The key context of a string\<close>

definition max_context_ancestors :: nat where
  "max_context_ancestors = 4"

definition max_context_key_bytes :: nat where
  "max_context_key_bytes = 64"

record string_key_context =
  ImmediateKey :: string
  Ancestors :: "string list"
  AncestorCount :: nat

text \<open>\<open>normalizeContextKey\<close>, see \<open>Key_Names\<close> for its loops.\<close>

definition normalize_context_key :: "string \<Rightarrow> string" where
  "normalize_context_key key = normalize_key max_context_key_bytes key"

partial_function (option) ancestors_loop ::
  "path_node list \<Rightarrow> int \<Rightarrow> string_key_context \<Rightarrow> string_key_context option" where
  "ancestors_loop nodes current result =
    (if 0 \<le> current \<and> AncestorCount result < length (Ancestors result) then
       if nat current < length nodes then
         ancestors_loop nodes (pn_parent (nodes ! nat current))
           (case key_value (pn_segment (nodes ! nat current)) of
              None \<Rightarrow> result
            | Some key \<Rightarrow>
                let normalized = normalize_context_key key in
                if normalized = [] then result
                else result\<lparr>Ancestors := (Ancestors result)[AncestorCount result := normalized],
                            AncestorCount := AncestorCount result + 1\<rparr>)
       else None
     else Some result)"

declare ancestors_loop.simps [code]

definition StringKeyContextAt :: "document option \<Rightarrow> int \<Rightarrow> string_key_context option" where
  "StringKeyContextAt doc index = (case doc of None \<Rightarrow> None | Some d \<Rightarrow>
     if \<not> in_strings d index then None
     else
       let result = \<lparr>ImmediateKey = [], Ancestors = replicate max_context_ancestors [], AncestorCount = 0\<rparr>;
           current = tok_path_ref (doc_strings d ! nat index) in
       if current < 0 then Some result
       else if length (doc_paths d) \<le> nat current then None
       else let node = doc_paths d ! nat current in
         ancestors_loop (doc_paths d) (pn_parent node)
           (case key_value (pn_segment node) of
              None \<Rightarrow> result
            | Some key \<Rightarrow> result\<lparr>ImmediateKey := normalize_context_key key\<rparr>))"

section \<open>What a scanned document satisfies\<close>

definition document_ok :: "document \<Rightarrow> bool" where
  "document_ok d \<longleftrightarrow>
     limits_ok (doc_limits d) \<and> int (length (doc_body d)) \<le> MaxBodyBytes (doc_limits d) \<and>
     json_document (doc_body d) \<and> json_value (raw (doc_body d) (doc_root_span d)) \<and>
     Start (doc_root_span d) < End (doc_root_span d) \<and> End (doc_root_span d) \<le> length (doc_body d) \<and>
     arena_ok pn_parent (doc_paths d) \<and>
     (\<forall>n \<in> set (doc_paths d). segment_ok (doc_limits d) (pn_segment n)) \<and>
     tokens_ok (doc_body d) (doc_limits d) (doc_paths d) (doc_strings d) \<and>
     (\<forall>i < length (doc_strings d). tok_document (doc_strings d ! i) = Some (doc_id d) \<and>
        tok_ordinal (doc_strings d ! i) = i) \<and>
     doc_node_count d = length (doc_paths d) + 1 \<and>
     int (doc_node_count d) \<le> MaxNodes (doc_limits d) \<and>
     (\<exists>pc sc. length (doc_paths d) \<le> pc \<and> length (doc_strings d) \<le> sc \<and>
        doc_structural_bytes d = retained (doc_paths d) pc (doc_strings d) sc) \<and>
     doc_structural_bytes d \<le> MaxStructuralBytes (doc_limits d)"

lemma number_tokens_map: "number_tokens doc i ts =
    map (\<lambda>(k, t). t\<lparr>tok_document := Some doc, tok_ordinal := k\<rparr>) (zip [i..<i + length ts] ts)"
proof (induction ts arbitrary: i)
  case (Cons t ts)
  have "[i..<i + length (t # ts)] = i # [Suc i..<Suc i + length ts]" by (simp add: upt_rec)
  then show ?case by (simp add: Cons.IH)
qed simp

lemma length_number_tokens [simp]: "length (number_tokens doc i ts) = length ts"
  by (simp add: number_tokens_map)

lemma nth_number_tokens: "k < length ts \<Longrightarrow>
    number_tokens doc i ts ! k = (ts ! k)\<lparr>tok_document := Some doc, tok_ordinal := i + k\<rparr>"
  by (simp add: number_tokens_map)

lemma token_ok_number [simp]:
  "token_ok body l paths (t\<lparr>tok_document := x, tok_ordinal := y\<rparr>) = token_ok body l paths t"
  by (simp add: token_ok_def)

lemma tokens_ok_number:
  "tokens_ok body l paths ts \<Longrightarrow> tokens_ok body l paths (number_tokens doc i ts)"
  by (auto simp: tokens_ok_def sorted_wrt_iff_nth_less nth_number_tokens all_set_conv_all_nth)

lemma values_number_tokens: "map tok_value (number_tokens doc i ts) = map tok_value ts"
  by (rule nth_equalityI) (simp_all add: nth_number_tokens)

lemma retained_number_tokens:
  "retained paths pc (number_tokens doc i ts) sc = retained paths pc ts sc"
proof -
  have "map (\<lambda>t. length (tok_value t)) (number_tokens doc i ts) = map length (map tok_value (number_tokens doc i ts))"
    by simp
  also have "\<dots> = map (\<lambda>t. length (tok_value t)) ts"
    by (simp only: values_number_tokens) simp
  finally show ?thesis by (simp only: retained_def)
qed

lemma Scan_ok:
  assumes "Scan self c body opts n = (Inr d, m)"
  shows "document_ok d"
proof -
  let ?env = "\<lambda>l. \<lparr>sc_ctx = or_background c, sc_body = body, sc_limits = l\<rparr>"
  from assms obtain l where l: "normalized opts = Inr l" and b: "int (length body) \<le> MaxBodyBytes l"
    and rest: "(case scan_json (?env l) (init_scanner (Suc n)) of
        (Inl e, s) \<Rightarrow> (Inl e, s_polls s)
      | (Inr (kind, span), s) \<Rightarrow>
          (Inr \<lparr>doc_id = self, doc_body = body, doc_root_kind = kind, doc_root_span = span,
             doc_limits = l, doc_strings = number_tokens self 0 (s_strings s),
             doc_paths = s_paths s, doc_structural_bytes = s_structural s,
             doc_node_count = s_nodes s\<rparr>, s_polls s)) = (Inr d, m)"
    by (auto simp: Scan_def bind_Inr_iff not_less)
  obtain r t where rt: "scan_json (?env l) (init_scanner (Suc n)) = (r, t)" by fastforce
  with rest obtain k sp where "r = Inr (k, sp)" by (cases r) auto
  with rest rt have s: "scan_json (?env l) (init_scanner (Suc n)) = (Inr (k, doc_root_span d), t)"
    and d: "doc_id d = self" "doc_body d = body" "doc_root_kind d = k" "doc_limits d = l"
      "doc_strings d = number_tokens self 0 (s_strings t)" "doc_paths d = s_paths t"
      "doc_structural_bytes d = s_structural t" "doc_node_count d = s_nodes t"
    by auto
  have ok: "limits_ok l" by (rule normalized_limits_ok [OF l])
  from scan_json_ok [OF s] ok
  have i: "scan_ok \<lparr>sc_ctx = or_background c, sc_body = body, sc_limits = l\<rparr> 1 1 t" by simp
  from scan_json_grammar [OF s] have "json_document body" "json_value (raw body (doc_root_span d))"
    "Start (doc_root_span d) < End (doc_root_span d)" "End (doc_root_span d) \<le> length body"
    by (simp_all add: raw_def)
  moreover have "arena_ok pn_parent (s_paths t)" "\<forall>n \<in> set (s_paths t). segment_ok l (pn_segment n)"
    "tokens_ok body l (s_paths t) (s_strings t)" "s_nodes t = length (s_paths t) + 1"
    "int (s_nodes t) \<le> MaxNodes l" "s_structural t \<le> MaxStructuralBytes l"
    "s_structural t = retained (s_paths t) (s_paths_cap t) (s_strings t) (s_strings_cap t)"
    "length (s_paths t) \<le> s_paths_cap t" "length (s_strings t) \<le> s_strings_cap t"
    using i by (simp_all add: scan_ok_def)
  ultimately show ?thesis using ok b unfolding document_ok_def d
    by (auto simp: tokens_ok_number retained_number_tokens nth_number_tokens)
qed

lemma document_token:
  assumes "document_ok d" "i < length (doc_strings d)"
  obtains ns where "chain pn_parent (doc_paths d) (tok_path_ref (doc_strings d ! i)) = Some ns"
    "length ns + 1 = tok_depth (doc_strings d ! i)"
proof -
  have "token_ok (doc_body d) (doc_limits d) (doc_paths d) (doc_strings d ! i)"
    using assms by (auto simp: document_ok_def tokens_ok_def)
  then show thesis using that by (auto simp: token_ok_def)
qed

section \<open>The accessors on such a document\<close>

text \<open>The path of a token of the index.\<close>

definition token_path :: "document \<Rightarrow> string_token \<Rightarrow> path" where
  "token_path d t = (case path_of (doc_paths d) (tok_path_ref t) of None \<Rightarrow> [] | Some p \<Rightarrow> p)"

lemma document_path:
  assumes "document_ok d" "t \<in> set (doc_strings d)"
  shows "path_of (doc_paths d) (tok_path_ref t) = Some (token_path d t)"
proof -
  from assms(2) obtain i where "i < length (doc_strings d)" "t = doc_strings d ! i" by (auto simp: in_set_conv_nth)
  with document_token [OF assms(1)] show ?thesis by (metis token_path_def path_of_def option.map(2) option.simps(5))
qed

lemma document_clone:
  assumes "document_ok d" "t \<in> set (doc_strings d)"
  shows "clone_token d t = Some (t\<lparr>tok_path := token_path d t\<rparr>)"
    "path_equal_ref (doc_paths d) (tok_path_ref t) p = Some (token_path d t = p)"
  using path_of_refs [OF document_path [OF assms]] by (simp_all add: clone_token_def)

lemma in_strings_nth: "in_strings d index \<longleftrightarrow> (\<exists>i < length (doc_strings d). index = int i)"
  unfolding in_strings_def by (metis nat_int nat_eq_iff2 not_le of_nat_0_le_iff of_nat_less_iff zle_int)

lemma StringTokenAt_ok:
  assumes "document_ok d"
  shows "StringTokenAt (Some d) index =
    (if in_strings d index then
       Some ((doc_strings d ! nat index)\<lparr>tok_path := token_path d (doc_strings d ! nat index)\<rparr>)
     else None)"
  using document_clone(1) [OF assms] by (auto simp: StringTokenAt_def in_strings_nth)

lemma string_at_loop_found:
  assumes "document_ok d" "set ts \<subseteq> set (doc_strings d)"
  shows "string_at_loop d p (Some c) ts =
    Some (if filter (\<lambda>t. token_path d t = p) ts = [] then Inr c else Inl PathAmbiguous)"
  using assms(2) by (induction ts) (auto simp: document_clone [OF assms(1)])

lemma string_at_loop_none:
  assumes "document_ok d" "set ts \<subseteq> set (doc_strings d)"
  shows "string_at_loop d p None ts =
    Some (case filter (\<lambda>t. token_path d t = p) ts of
       [] \<Rightarrow> Inl PathNotFound | [t] \<Rightarrow> Inr (t\<lparr>tok_path := p\<rparr>) | _ \<Rightarrow> Inl PathAmbiguous)"
  using assms(2)
  by (induction ts)
    (auto simp: document_clone [OF assms(1)] string_at_loop_found [OF assms(1)] split: list.splits)

lemma StringAt_ok:
  assumes "document_ok d"
  shows "StringAt d p =
    Some (case filter (\<lambda>t. token_path d t = p) (doc_strings d) of
       [] \<Rightarrow> Inl PathNotFound | [t] \<Rightarrow> Inr (t\<lparr>tok_path := p\<rparr>) | _ \<Rightarrow> Inl PathAmbiguous)"
  using string_at_loop_none [OF assms, of "doc_strings d"] by (simp add: StringAt_def)

lemma strings_at_loop_ok:
  assumes "document_ok d" "set ts \<subseteq> set (doc_strings d)"
  shows "strings_at_loop d p out ts =
    Some (out @ map (\<lambda>t. t\<lparr>tok_path := p\<rparr>) (filter (\<lambda>t. token_path d t = p) ts))"
  using assms(2) by (induction ts arbitrary: out) (auto simp: document_clone [OF assms(1)])

lemma canonical_token_iff:
  assumes "document_ok d"
  shows "canonical_token d tok = Inr c \<longleftrightarrow>
    c \<in> set (doc_strings d) \<and> tok = c\<lparr>tok_path := token_path d c, tok_path_ref := tok_path_ref tok\<rparr>"
    (is "?l \<longleftrightarrow> ?r")
proof
  assume ?l
  then have i: "tok_ordinal tok < length (doc_strings d)" "c = doc_strings d ! tok_ordinal tok"
    and e: "tok_document tok = Some (doc_id d)" "tok_value tok = tok_value c" "tok_span tok = tok_span c"
      "tok_parent_kind tok = tok_parent_kind c" "tok_depth tok = tok_depth c"
      "path_equal_ref (doc_paths d) (tok_path_ref c) (tok_path tok) = Some True"
    by (auto simp: canonical_token_def Let_def split: if_splits)
  then have c: "c \<in> set (doc_strings d)" by simp
  moreover have "tok_path tok = token_path d c" using document_clone(2) [OF assms c] e(6) by simp
  moreover have "tok_document c = Some (doc_id d)" "tok_ordinal c = tok_ordinal tok"
    using assms i by (auto simp: document_ok_def)
  ultimately show ?r using e by simp
next
  assume r: ?r
  then obtain i where i: "i < length (doc_strings d)" "c = doc_strings d ! i" by (auto simp: in_set_conv_nth)
  then have "tok_document c = Some (doc_id d)" "tok_ordinal c = i"
    using assms by (auto simp: document_ok_def)
  moreover have "tok_value tok = tok_value c" "tok_span tok = tok_span c" "tok_parent_kind tok = tok_parent_kind c"
    "tok_depth tok = tok_depth c" "tok_document tok = tok_document c" "tok_ordinal tok = tok_ordinal c"
    "tok_path tok = token_path d c"
    using r by (metis string_token.select_convs string_token.surjective string_token.update_convs)+
  ultimately show ?l using i document_clone(2) [OF assms, of c] by (simp add: canonical_token_def)
qed

lemma canonical_token_handed_out:
  assumes "document_ok d"
  shows "canonical_token d tok = Inr c \<longleftrightarrow>
     (\<exists>i h. StringTokenAt (Some d) i = Some h \<and> c = doc_strings d ! nat i \<and>
        tok = h\<lparr>tok_path_ref := tok_path_ref tok\<rparr>)" (is "?l \<longleftrightarrow> ?r")
proof
  assume ?l
  then obtain i where "i < length (doc_strings d)" "c = doc_strings d ! i"
    "tok = c\<lparr>tok_path := token_path d c, tok_path_ref := tok_path_ref tok\<rparr>"
    by (auto simp: canonical_token_iff [OF assms] in_set_conv_nth)
  then show ?r
    by (intro exI [of _ "int i"] exI [of _ "c\<lparr>tok_path := token_path d c\<rparr>"])
      (auto simp: StringTokenAt_ok [OF assms] in_strings_nth)
next
  assume ?r
  then show ?l
    by (auto simp: canonical_token_iff [OF assms] StringTokenAt_ok [OF assms] in_strings_nth split: if_splits)
qed

section \<open>The key context\<close>

text \<open>The normalised keys on the way to the root, nearest first, without the empty ones.\<close>

definition context_keys :: "path_node list \<Rightarrow> string list" where
  "context_keys ns = filter (\<lambda>k. k \<noteq> [])
     (map normalize_context_key (List.map_filter (\<lambda>n. key_value (pn_segment n)) ns))"

lemma normalize_context_key_bytes:
  "length (normalize_context_key key) \<le> max_context_key_bytes \<and>
   (\<forall>c \<in> set (normalize_context_key key). context_byte c)"
  unfolding normalize_context_key_def by (rule normalize_key_bytes)

lemma ancestors_loop_chain:
  assumes "chain pn_parent nodes ref = Some ns" "AncestorCount r = length ks" "length ks \<le> n"
    "Ancestors r = ks @ replicate (n - length ks) []"
  shows "ancestors_loop nodes ref r = Some (let ks' = take n (ks @ context_keys ns) in
    r\<lparr>Ancestors := ks' @ replicate (n - length ks') [], AncestorCount := length ks'\<rparr>)"
  using assms
proof (induction ns arbitrary: ref r ks)
  case Nil
  then show ?case
    by (cases rule: chain_Some_cases) (auto simp: ancestors_loop.simps context_keys_def)
next
  case (Cons x xs)
  note r = Cons.prems(2-4)
  show ?case
  proof (cases "length ks < n")
    case False
    with r have "ks' = take n (ks @ ks'') \<longleftrightarrow> ks' = ks" for ks' ks'' by simp
    with False r show ?thesis by (subst ancestors_loop.simps) simp
  next
    case lt: True
    let ?nk = "\<lambda>key. normalize_context_key key"
    from Cons.prems(1) show ?thesis
    proof (cases rule: chain_Some_cases)
      case (2 ys)
      then have ys: "chain pn_parent nodes (pn_parent x) = Some xs" "nodes ! nat ref = x" by auto
      have step: "ancestors_loop nodes ref r = ancestors_loop nodes (pn_parent x)
          (case key_value (pn_segment x) of None \<Rightarrow> r
           | Some key \<Rightarrow> if ?nk key = [] then r
               else r\<lparr>Ancestors := (Ancestors r)[AncestorCount r := ?nk key],
                      AncestorCount := AncestorCount r + 1\<rparr>)"
        using 2 lt r by (subst ancestors_loop.simps) (simp add: Let_def ys split: option.split)
      show ?thesis
      proof (cases "\<exists>key. key_value (pn_segment x) = Some key \<and> ?nk key \<noteq> []")
        case False
        then have "context_keys (x # xs) = context_keys xs"
          by (auto simp: context_keys_def List.map_filter_simps split: option.splits)
        moreover have "ancestors_loop nodes ref r = ancestors_loop nodes (pn_parent x) r"
          using step False by (auto split: option.splits)
        ultimately show ?thesis using Cons.IH [OF ys(1) r] by simp
      next
        case True
        then obtain key where key: "key_value (pn_segment x) = Some key" "?nk key \<noteq> []" by blast
        let ?r = "r\<lparr>Ancestors := (Ancestors r)[AncestorCount r := ?nk key], AncestorCount := AncestorCount r + 1\<rparr>"
        have "replicate (n - length ks) ([] :: string) = [] # replicate (n - Suc (length ks)) []"
          using lt by (metis Suc_diff_Suc replicate_Suc)
        then have "Ancestors ?r = (ks @ [?nk key]) @ replicate (n - length (ks @ [?nk key])) []"
          using r by simp
        from Cons.IH [OF ys(1), of ?r "ks @ [?nk key]", OF _ _ this] r lt step key
        show ?thesis by (simp add: context_keys_def List.map_filter_simps)
      qed
    qed simp
  qed
qed

definition immediate_key :: "path_node list \<Rightarrow> string" where
  "immediate_key ns = (case ns of [] \<Rightarrow> [] | n # _ \<Rightarrow>
     (case key_value (pn_segment n) of None \<Rightarrow> [] | Some k \<Rightarrow> normalize_context_key k))"

lemma StringKeyContextAt_chain:
  assumes "in_strings d index"
    and "chain pn_parent (doc_paths d) (tok_path_ref (doc_strings d ! nat index)) = Some ns"
  shows "StringKeyContextAt (Some d) index =
    Some (let ks = take max_context_ancestors (context_keys (tl ns)) in
      \<lparr>ImmediateKey = immediate_key ns,
       Ancestors = ks @ replicate (max_context_ancestors - length ks) [],
       AncestorCount = length ks\<rparr>)"
  using assms(2)
proof (cases rule: chain_Some_cases)
  case 1
  with assms(1) show ?thesis
    by (simp add: StringKeyContextAt_def Let_def context_keys_def immediate_key_def List.map_filter_simps)
next
  case (2 ys)
  let ?node = "doc_paths d ! nat (tok_path_ref (doc_strings d ! nat index))"
  let ?r = "\<lparr>ImmediateKey = immediate_key ns, Ancestors = replicate max_context_ancestors [], AncestorCount = 0\<rparr>"
  from ancestors_loop_chain [OF 2(4), of ?r "[]" max_context_ancestors] 2 assms(1) show ?thesis
    by (auto simp: StringKeyContextAt_def Let_def immediate_key_def split: option.splits)
qed

lemma context_keys_normalized:
  assumes "k \<in> set (context_keys ns)"
  shows "k \<noteq> [] \<and> length k \<le> max_context_key_bytes \<and> (\<forall>c \<in> set k. context_byte c)"
  using assms normalize_context_key_bytes by (auto simp: context_keys_def)

lemma StringKeyContextAt_bounded:
  assumes "document_ok d" "in_strings d index"
  obtains r where "StringKeyContextAt (Some d) index = Some r"
    "length (Ancestors r) = max_context_ancestors" "AncestorCount r \<le> max_context_ancestors"
    "\<forall>k \<in> insert (ImmediateKey r) (set (Ancestors r)).
       length k \<le> max_context_key_bytes \<and> (\<forall>c \<in> set k. context_byte c)"
    "\<forall>i < max_context_ancestors. Ancestors r ! i = [] \<longleftrightarrow> AncestorCount r \<le> i"
proof -
  let ?n = max_context_ancestors
  from assms(2) obtain i where i: "i < length (doc_strings d)" "index = int i" by (auto simp: in_strings_nth)
  obtain ns where ns: "chain pn_parent (doc_paths d) (tok_path_ref (doc_strings d ! nat index)) = Some ns"
    using document_token [OF assms(1) i(1)] i(2) by (metis nat_int)
  define ks where "ks = take ?n (context_keys (tl ns))"
  have ks: "\<forall>k \<in> set ks. k \<noteq> [] \<and> length k \<le> max_context_key_bytes \<and> (\<forall>c \<in> set k. context_byte c)"
    unfolding ks_def by (auto dest!: in_set_takeD dest: context_keys_normalized)
  have len: "length ks \<le> ?n" by (simp add: ks_def)
  have imm: "length (immediate_key ns) \<le> max_context_key_bytes \<and> (\<forall>c \<in> set (immediate_key ns). context_byte c)"
    using normalize_context_key_bytes by (auto simp: immediate_key_def split: list.splits option.splits)
  have nth: "\<forall>i < ?n. (ks @ replicate (?n - length ks) []) ! i = [] \<longleftrightarrow> length ks \<le> i"
    using ks len by (auto simp: nth_append)
  have all: "\<forall>k \<in> set ks \<union> set (replicate (?n - length ks) []).
      length k \<le> max_context_key_bytes \<and> (\<forall>c \<in> set k. context_byte c)"
    using ks by auto
  show thesis
    using that [OF StringKeyContextAt_chain [OF assms(2) ns, folded ks_def, unfolded Let_def]] all len imm nth
    by auto
qed

lemma Scan_not_out_of_fuel: "fst (Scan self c body opts n) \<noteq> Inl OutOfFuel"
proof
  assume "fst (Scan self c body opts n) = Inl OutOfFuel"
  then obtain m where "Scan self c body opts n = (Inl OutOfFuel, m)" by (metis prod.collapse)
  then obtain l where "normalized opts = Inl OutOfFuel \<or>
      (case scan_json \<lparr>sc_ctx = or_background c, sc_body = body, sc_limits = l\<rparr> (init_scanner (Suc n)) of
        (Inl e, s) \<Rightarrow> (Inl e, s_polls s)
      | (Inr (kind, span), s) \<Rightarrow>
          (Inr \<lparr>doc_id = self, doc_body = body, doc_root_kind = kind, doc_root_span = span,
             doc_limits = l, doc_strings = number_tokens self 0 (s_strings s),
             doc_paths = s_paths s, doc_structural_bytes = s_structural s,
             doc_node_count = s_nodes s\<rparr>, s_polls s)) = (Inl OutOfFuel, m)"
    by (auto simp: Scan_def bind_Inl_iff)
  then show False
  proof
    assume "normalized opts = Inl OutOfFuel"
    then show False using normalized_error by blast
  next
    assume s: "(case scan_json \<lparr>sc_ctx = or_background c, sc_body = body, sc_limits = l\<rparr> (init_scanner (Suc n)) of
        (Inl e, s) \<Rightarrow> (Inl e, s_polls s)
      | (Inr (kind, span), s) \<Rightarrow>
          (Inr \<lparr>doc_id = self, doc_body = body, doc_root_kind = kind, doc_root_span = span,
             doc_limits = l, doc_strings = number_tokens self 0 (s_strings s),
             doc_paths = s_paths s, doc_structural_bytes = s_structural s,
             doc_node_count = s_nodes s\<rparr>, s_polls s)) = (Inl OutOfFuel, m)"
    obtain r t where rt: "scan_json \<lparr>sc_ctx = or_background c, sc_body = body, sc_limits = l\<rparr>
      (init_scanner (Suc n)) = (r, t)" by fastforce
    with s have "r = Inl OutOfFuel" by (cases r) auto
    with rt show False using scan_json_not_out_of_fuel by blast
  qed
qed

section \<open>A sample document\<close>

text \<open>\<open>{"k-1":["x"]}\<close> under the default limits, for concrete instances.\<close>

definition zero_limits :: limits where
  "zero_limits = \<lparr>MaxBodyBytes = 0, MaxDepth = 0, MaxNodes = 0, MaxStructuralBytes = 0,
     MaxStringBytes = 0, MaxReplacements = 0, MaxReplacementBytes = 0\<rparr>"

definition sample_body :: string where
  "sample_body = ''{'' @ quoted ''k-1'' @ '':['' @ quoted ''x'' @ '']}''"

definition sample_document :: document where
  "sample_document = (case fst (Scan 7 None sample_body zero_limits 0) of
     Inl _ \<Rightarrow> undefined | Inr d \<Rightarrow> d)"

lemma sample_scan: "Scan 7 None sample_body zero_limits 0 = (Inr sample_document, 7)"
proof -
  have "(case fst (Scan 7 None sample_body zero_limits 0) of Inl _ \<Rightarrow> False | Inr _ \<Rightarrow> True)"
    "snd (Scan 7 None sample_body zero_limits 0) = 7" by code_simp+
  then show ?thesis
    by (auto simp: sample_document_def prod_eq_iff split: sum.splits)
qed

lemma sample_document_ok: "document_ok sample_document"
  by (rule Scan_ok [OF sample_scan])

section \<open>Properties\<close>

text \<open>
  The scanner always returns: whatever the body, the limits and the moments at which the
  context is cancelled, the fuel of the recursive descent is never used up, so every result of
  the model is a result of the code.
\<close>

theorem scan_terminates: "fst (Scan self c body opts n) \<noteq> Inl OutOfFuel"
  by (rule Scan_not_out_of_fuel)

text \<open>
  C14: A document that \<open>Scan\<close> returns is well-formed: its body is one JSON document within the
  limits, the tokens are ordered, disjoint, in bounds, their raw text is a JSON string that
  decodes to their value, their path has as many segments as their depth says and ends in a
  segment of their parent's kind, the \<open>int32\<close> references of the path arena never wrap, and the
  structural bytes are exactly what the index retains and stay under their limit.
\<close>

theorem scan_document_wellformed:
  "Scan self c body opts n = (Inr d, m) \<Longrightarrow> document_ok d"
  by (rule Scan_ok)

theorem scan_document_wellformed_witness:
  "document_ok sample_document \<and> int (length sample_body) \<le> MaxBodyBytes (doc_limits sample_document)"
proof -
  have "document_ok sample_document" by (rule scan_document_wellformed [OF sample_scan])
  moreover have "int (length sample_body) \<le> MaxBodyBytes (doc_limits sample_document)" by code_simp
  ultimately show ?thesis ..
qed

text \<open>
  \<open>StringAt\<close> returns the token at a path exactly when one token of the document has it,
  \<open>ErrPathNotFound\<close> when none has, and \<open>ErrPathAmbiguous\<close> (never the first or the last) when
  duplicate keys give several.
\<close>

theorem string_at_sole_match:
  "document_ok d \<Longrightarrow> StringAt d p =
     Some (case filter (\<lambda>t. token_path d t = p) (doc_strings d) of
       [] \<Rightarrow> Inl PathNotFound | [t] \<Rightarrow> Inr (t\<lparr>tok_path := p\<rparr>) | _ \<Rightarrow> Inl PathAmbiguous)"
  by (rule StringAt_ok)

theorem string_at_sole_match_witness:
  "StringAt sample_document [Key ''k-1'', Index 0] =
     Some (Inr ((doc_strings sample_document ! 0)\<lparr>tok_path := [Key ''k-1'', Index 0]\<rparr>))"
proof -
  have "filter (\<lambda>t. token_path sample_document t = [Key ''k-1'', Index 0]) (doc_strings sample_document) =
    [doc_strings sample_document ! 0]" by code_simp
  with string_at_sole_match [OF sample_document_ok, of "[Key ''k-1'', Index 0]"] show ?thesis by simp
qed

text \<open>
  C37: A token is accepted back exactly when it is one the document handed out: a token of the
  index with its materialised path and no exported field changed. In particular a token of
  another document is rejected.
\<close>

theorem canonical_token_exact:
  "document_ok d \<Longrightarrow> canonical_token d tok = Inr c \<longleftrightarrow>
     (\<exists>i h. StringTokenAt (Some d) i = Some h \<and> c = doc_strings d ! nat i \<and>
        tok = h\<lparr>tok_path_ref := tok_path_ref tok\<rparr>)"
  by (rule canonical_token_handed_out)

theorem canonical_token_exact_witness:
  "canonical_token sample_document (the (StringTokenAt (Some sample_document) 0)) =
     Inr (doc_strings sample_document ! 0)"
proof -
  have "StringTokenAt (Some sample_document) 0 \<noteq> None" by code_simp
  then obtain h where h: "StringTokenAt (Some sample_document) 0 = Some h" by blast
  show ?thesis
    by (subst canonical_token_exact [OF sample_document_ok])
      (rule exI [of _ 0], rule exI [of _ h], simp add: h)
qed

text \<open>
  The key context of a string never fails, keeps at most four ancestors in an array of
  exactly four, filled from the front, and every key in it is at most 64 bytes of lower-case
  ASCII letters, digits and underscores, whatever keys the document has.
\<close>

theorem key_context_bounded:
  "document_ok d \<Longrightarrow> in_strings d index \<Longrightarrow>
   \<exists>r. StringKeyContextAt (Some d) index = Some r \<and>
     length (Ancestors r) = max_context_ancestors \<and>
     (\<forall>k \<in> insert (ImmediateKey r) (set (Ancestors r)).
        length k \<le> max_context_key_bytes \<and> (\<forall>c \<in> set k. context_byte c)) \<and>
     (\<forall>i < max_context_ancestors. Ancestors r ! i = [] \<longleftrightarrow> AncestorCount r \<le> i)"
  by (rule StringKeyContextAt_bounded) auto

theorem key_context_bounded_witness:
  "\<exists>r. StringKeyContextAt (Some sample_document) 0 = Some r \<and> ImmediateKey r = [] \<and>
     hd (Ancestors r) = ''k_1'' \<and> length (Ancestors r) = max_context_ancestors"
proof -
  have "in_strings sample_document 0" by code_simp
  from key_context_bounded [OF sample_document_ok this] obtain r
    where r: "StringKeyContextAt (Some sample_document) 0 = Some r"
      "length (Ancestors r) = max_context_ancestors" by blast
  have "map_option (\<lambda>r. (ImmediateKey r, hd (Ancestors r))) (StringKeyContextAt (Some sample_document) 0) =
    Some ([], ''k_1'')" by code_simp
  with r show ?thesis by simp
qed

end
