(* ===== verification/Replace.thy ===== *)
theory Replace
  imports Document
begin

text \<open>
  \<open>Document.Replace\<close> of \<open>payload/payload.go\<close> with its parts in \<open>payload/jsonscan.go\<close>:
  validation of the tokens handed back, the sort by span, the overlap check, the encoding under
  the byte limit and the splice in cancellable chunks.

  The specification is \<open>rewrite\<close>: the body with the raw text of some tokens exchanged. It does
  not mention the order of the replacements, the sort or the edits.
\<close>

section \<open>The code\<close>

record replacement =
  rp_token :: string_token
  rp_value :: string

record replacement_candidate =
  rc_token :: string_token
  rc_value :: string

record string_edit =
  se_span :: span
  se_encoded :: string

type_synonym 'a polled = "(payload_error, nat, 'a) M"

definition chunk_bytes :: nat where
  "chunk_bytes = 65536"

function append_with_context :: "ctx \<Rightarrow> string \<Rightarrow> string \<Rightarrow> string polled" where
  "append_with_context c dst src =
    (if src = [] then ret dst
     else seq (poll c)
       (append_with_context c (dst @ take chunk_bytes src) (drop chunk_bytes src)))"
  by pat_completeness auto
termination
  by (relation "measure (\<lambda>(c, dst, src). length src)") (auto simp: chunk_bytes_def)

declare append_with_context.simps [simp del]

text \<open>The first loop of \<open>splice\<close>: validation and the size of the output.\<close>

fun splice_size :: "ctx \<Rightarrow> string \<Rightarrow> string_edit list \<Rightarrow> nat \<Rightarrow> int \<Rightarrow> int polled" where
  "splice_size c body [] previous_end out_size = ret out_size"
| "splice_size c body (e # es) previous_end out_size =
     seq (poll c)
     (seq (fail_if (Start (se_span e) < previous_end \<or> End (se_span e) \<le> Start (se_span e) \<or>
             length body < End (se_span e)) OverlappingReplacements)
     (let old_bytes = int (End (se_span e)) - int (Start (se_span e));
          new_bytes = int (length (se_encoded e)) in
      if new_bytes > old_bytes then
        seq (fail_if (out_size > max_int - (new_bytes - old_bytes)) ReplacementLimit)
        (splice_size c body es (End (se_span e)) (out_size + (new_bytes - old_bytes)))
      else splice_size c body es (End (se_span e)) (out_size - (old_bytes - new_bytes))))"

fun splice_write :: "ctx \<Rightarrow> string \<Rightarrow> string_edit list \<Rightarrow> nat \<Rightarrow> string \<Rightarrow> string polled" where
  "splice_write c body [] previous_end out = append_with_context c out (drop previous_end body)"
| "splice_write c body (e # es) previous_end out =
     bind (append_with_context c out (slice body previous_end (Start (se_span e)))) (\<lambda>out.
     bind (append_with_context c out (se_encoded e)) (\<lambda>out.
     splice_write c body es (End (se_span e)) out))"

text \<open>The size is only the capacity of the output buffer; \<open>splice_size_exact\<close> shows it is its length.\<close>

definition splice :: "ctx \<Rightarrow> string \<Rightarrow> string_edit list \<Rightarrow> string polled" where
  "splice c body edits =
     bind (splice_size c body edits 0 (int (length body))) (\<lambda>out_size.
     splice_write c body edits 0 [])"

definition candidate_of :: "document \<Rightarrow> ctx \<Rightarrow> replacement \<Rightarrow> replacement_candidate polled" where
  "candidate_of d c r =
     seq (poll c)
     (bind (lift_res (canonical_token d (rp_token r))) (\<lambda>canonical.
     seq (fail_if (int (length (rp_value r)) > MaxStringBytes (doc_limits d)) StringTooLarge)
     (ret \<lparr>rc_token = canonical, rc_value = rp_value r\<rparr>)))"

definition span_key :: "replacement_candidate \<Rightarrow> nat \<times> nat" where
  "span_key x = (Start (tok_span (rc_token x)), End (tok_span (rc_token x)))"

fun check_overlaps :: "document \<Rightarrow> ctx \<Rightarrow> int \<Rightarrow> replacement_candidate list \<Rightarrow> unit polled" where
  "check_overlaps d c previous_end [] = ret ()"
| "check_overlaps d c previous_end (x # xs) =
     seq (poll c)
     (let s = tok_span (rc_token x) in
      seq (fail_if (End s \<le> Start s \<or> length (doc_body d) < End s) InvalidToken)
      (seq (fail_if (int (Start s) < previous_end) OverlappingReplacements)
      (check_overlaps d c (int (End s)) xs)))"

fun build_edits :: "document \<Rightarrow> ctx \<Rightarrow> int \<Rightarrow> string_edit list \<Rightarrow> replacement_candidate list \<Rightarrow>
    string_edit list polled" where
  "build_edits d c encoded_total edits [] = ret edits"
| "build_edits d c encoded_total edits (x # xs) =
     seq (poll c)
     (if rc_value x = tok_value (rc_token x) then build_edits d c encoded_total edits xs
      else bind (encode_string_context (Some c) (rc_value x)) (\<lambda>encoded.
        seq (fail_if (int (length encoded) > MaxReplacementBytes (doc_limits d) - encoded_total)
               ReplacementLimit)
        (build_edits d c (encoded_total + int (length encoded))
           (edits @ [\<lparr>se_span = tok_span (rc_token x), se_encoded = encoded\<rparr>]) xs)))"

text \<open>
  \<open>sort.Slice\<close> is not stable; candidates with equal keys make the overlap check fail, so the
  order among them is never observed.
\<close>

definition replace :: "document option \<Rightarrow> ctx option \<Rightarrow> replacement list \<Rightarrow> (string \<times> bool) polled" where
  "replace doc co replacements =
    (case doc of
       None \<Rightarrow> fail InvalidToken
     | Some d \<Rightarrow>
         let c = or_background co in
         seq (poll c)
         (seq (fail_if (int (length replacements) > MaxReplacements (doc_limits d)) ReplacementLimit)
         (if replacements = [] then ret (doc_body d, False)
          else
            bind (map_each replacements (candidate_of d c)) (\<lambda>candidates.
            let candidates = sort_key span_key candidates in
            seq (poll c)
            (seq (check_overlaps d c (-1) candidates)
            (bind (build_edits d c 0 [] candidates) (\<lambda>edits.
            if edits = [] then ret (doc_body d, False)
            else bind (splice c (doc_body d) edits) (\<lambda>out. ret (out, True)))))))))"

definition Replace ::
  "document option \<Rightarrow> ctx option \<Rightarrow> replacement list \<Rightarrow> (string \<times> bool) polled" where
  "Replace = replace"

section \<open>The specification\<close>

text \<open>
  \<open>rewrite_from body pos toks g\<close>: the rest of the body from \<open>pos\<close> on, in which every token \<open>t\<close>
  with \<open>g t = Some v\<close>, \<open>v\<close> not its value, is the JSON string of \<open>v\<close>, and all other bytes are
  those of the body.
\<close>

fun rewrite_from :: "string \<Rightarrow> nat \<Rightarrow> string_token list \<Rightarrow> (string_token \<Rightarrow> string option) \<Rightarrow> string" where
  "rewrite_from body pos [] g = drop pos body"
| "rewrite_from body pos (t # ts) g =
     slice body pos (Start (tok_span t)) @
     (case g t of
        Some v \<Rightarrow> if v = tok_value t then raw body (tok_span t) else quoted (escape v)
      | None \<Rightarrow> raw body (tok_span t)) @
     rewrite_from body (End (tok_span t)) ts g"

definition rewrite :: "document \<Rightarrow> (string_token \<Rightarrow> string option) \<Rightarrow> string" where
  "rewrite d g = rewrite_from (doc_body d) 0 (doc_strings d) g"

text \<open>
  The assignment that a list of replacements asks for, by the ordinal of the tokens. It depends
  on the list only as a set when no token occurs twice.
\<close>

definition requested :: "replacement list \<Rightarrow> string_token \<Rightarrow> string option" where
  "requested rs t = map_of (map (\<lambda>r. (tok_ordinal (rp_token r), rp_value r)) rs) (tok_ordinal t)"

section \<open>Splicing\<close>

lemma append_with_context_result:
  "append_with_context c dst src n = (Inr out, m) \<Longrightarrow> out = dst @ src"
proof (induction c dst src arbitrary: n rule: append_with_context.induct)
  case (1 c dst src)
  show ?case
  proof (cases "src = []")
    case True
    with "1.prems" show ?thesis by (simp add: append_with_context.simps)
  next
    case False
    with "1.prems" obtain n' where
      "append_with_context c (dst @ take chunk_bytes src) (drop chunk_bytes src) n' = (Inr out, m)"
      by (auto simp: append_with_context.simps [of c dst src] bind_Inr_iff)
    from "1.IH" [OF False this] show ?thesis by simp
  qed
qed

text \<open>Edits in order, without overlaps and inside the body.\<close>

fun edits_ok :: "string \<Rightarrow> nat \<Rightarrow> string_edit list \<Rightarrow> bool" where
  "edits_ok body pos [] = True"
| "edits_ok body pos (e # es) \<longleftrightarrow>
     pos \<le> Start (se_span e) \<and> Start (se_span e) < End (se_span e) \<and>
     End (se_span e) \<le> length body \<and> edits_ok body (End (se_span e)) es"

fun spliced :: "string \<Rightarrow> nat \<Rightarrow> string_edit list \<Rightarrow> string" where
  "spliced body pos [] = drop pos body"
| "spliced body pos (e # es) =
     slice body pos (Start (se_span e)) @ se_encoded e @ spliced body (End (se_span e)) es"

definition growth :: "string_edit list \<Rightarrow> int" where
  "growth es = (\<Sum>e \<leftarrow> es. int (length (se_encoded e)) - (int (End (se_span e)) - int (Start (se_span e))))"

lemma splice_size_result:
  "splice_size c body es pos out_size n = (Inr r, m) \<Longrightarrow> edits_ok body pos es \<and> r = out_size + growth es"
proof (induction c body es pos out_size arbitrary: n rule: splice_size.induct)
  case (2 c body e es pos out_size)
  let ?old = "int (End (se_span e)) - int (Start (se_span e))" and ?new = "int (length (se_encoded e))"
  have g: "growth (e # es) = ?new - ?old + growth es" by (simp add: growth_def)
  from "2.prems" obtain n' where e: "pos \<le> Start (se_span e)" "Start (se_span e) < End (se_span e)"
    "End (se_span e) \<le> length body"
    and r: "?old < ?new \<and> splice_size c body es (End (se_span e)) (out_size + (?new - ?old)) n' = (Inr r, m) \<or>
      \<not> ?old < ?new \<and> splice_size c body es (End (se_span e)) (out_size - (?old - ?new)) n' = (Inr r, m)"
    by (auto simp: bind_Inr_iff Let_def not_less not_le split: if_split_asm)
  from r have "edits_ok body (End (se_span e)) es \<and> r = out_size + (?new - ?old) + growth es"
  proof
    assume "?old < ?new \<and> splice_size c body es (End (se_span e)) (out_size + (?new - ?old)) n' = (Inr r, m)"
    then show ?thesis using "2.IH"(1) [OF refl refl] by blast
  next
    assume "\<not> ?old < ?new \<and> splice_size c body es (End (se_span e)) (out_size - (?old - ?new)) n' = (Inr r, m)"
    then show ?thesis using "2.IH"(2) [OF refl refl, of n'] by simp
  qed
  then show ?case using e g by simp
qed (simp add: growth_def)

lemma splice_write_result:
  "splice_write c body es pos out n = (Inr r, m) \<Longrightarrow> r = out @ spliced body pos es"
proof (induction c body es pos out arbitrary: n rule: splice_write.induct)
  case (1 c body pos out)
  then show ?case by (auto dest: append_with_context_result)
next
  case (2 c body e es pos out)
  then show ?case by (fastforce simp: bind_Inr_iff dest: append_with_context_result)
qed

lemma length_spliced:
  "edits_ok body pos es \<Longrightarrow> pos \<le> length body \<Longrightarrow>
   int (length (spliced body pos es)) = int (length body) - int pos + growth es"
proof (induction body pos es rule: spliced.induct)
  case (2 body pos e es)
  then show ?case by (simp add: growth_def of_nat_diff)
qed (simp add: growth_def of_nat_diff)

text \<open>The size computed in advance is the length of the output.\<close>

lemma splice_size_exact:
  assumes "splice_size c body es 0 (int (length body)) n = (Inr out_size, m)"
    and "splice_write c body es 0 [] n' = (Inr out, m')"
  shows "int (length out) = out_size"
  using splice_size_result [OF assms(1)] splice_write_result [OF assms(2)] length_spliced [of body 0 es]
  by simp

lemma splice_result:
  "splice c body es n = (Inr out, m) \<Longrightarrow> edits_ok body 0 es \<and> out = spliced body 0 es"
  by (auto simp: splice_def bind_Inr_iff dest: splice_size_result splice_write_result)

lemma spliced_from:
  "edits_ok body q es \<Longrightarrow> pos \<le> q \<Longrightarrow> slice body pos q @ spliced body q es = spliced body pos es"
proof (cases es)
  case Nil
  assume "pos \<le> q"
  have "slice body pos q @ drop q body = drop pos body"
    using \<open>pos \<le> q\<close> by (simp add: slice_def) (metis append_take_drop_id drop_drop le_add_diff_inverse2)
  with Nil show ?thesis by simp
next
  case (Cons e es')
  assume "edits_ok body q es" "pos \<le> q"
  with Cons show ?thesis by (simp add: slice_append flip: append_assoc)
qed

section \<open>Edits of a document\<close>

definition edit_of :: "(string_token \<Rightarrow> string option) \<Rightarrow> string_token \<Rightarrow> string_edit" where
  "edit_of g t = \<lparr>se_span = tok_span t, se_encoded = quoted (escape (the (g t)))\<rparr>"

definition changes :: "(string_token \<Rightarrow> string option) \<Rightarrow> string_token \<Rightarrow> bool" where
  "changes g t \<longleftrightarrow> (\<exists>v. g t = Some v \<and> v \<noteq> tok_value t)"

definition edits_of :: "(string_token \<Rightarrow> string option) \<Rightarrow> string_token list \<Rightarrow> string_edit list" where
  "edits_of g ts = map (edit_of g) (filter (changes g) ts)"

definition ordered_from :: "string \<Rightarrow> nat \<Rightarrow> string_token list \<Rightarrow> bool" where
  "ordered_from body pos ts \<longleftrightarrow>
     (\<forall>t \<in> set ts. pos \<le> Start (tok_span t) \<and> Start (tok_span t) < End (tok_span t) \<and>
        End (tok_span t) \<le> length body) \<and>
     sorted_wrt (\<lambda>t u. End (tok_span t) \<le> Start (tok_span u)) ts"

lemma ordered_from_Cons: "ordered_from body pos (t # ts) \<longleftrightarrow>
    pos \<le> Start (tok_span t) \<and> Start (tok_span t) < End (tok_span t) \<and>
    End (tok_span t) \<le> length body \<and> ordered_from body (End (tok_span t)) ts"
  by (fastforce simp: ordered_from_def)

lemma ordered_from_le: "ordered_from body q ts \<Longrightarrow> pos \<le> q \<Longrightarrow> ordered_from body pos ts"
  by (auto simp: ordered_from_def)

lemma edits_of_ok: "ordered_from body pos ts \<Longrightarrow> edits_ok body pos (edits_of g ts)"
proof (induction ts arbitrary: pos)
  case (Cons t ts)
  then have o: "ordered_from body (End (tok_span t)) ts" "ordered_from body pos ts"
    by (auto simp: ordered_from_Cons elim: ordered_from_le)
  show ?case
  proof (cases "changes g t")
    case True
    then show ?thesis using Cons.prems Cons.IH [OF o(1)]
      by (simp add: edits_of_def ordered_from_Cons) (simp add: edit_of_def)
  next
    case False
    then show ?thesis using Cons.IH [OF o(2)] by (simp add: edits_of_def)
  qed
qed (simp add: edits_of_def)

lemma rewrite_spliced:
  "ordered_from body pos ts \<Longrightarrow> rewrite_from body pos ts g = spliced body pos (edits_of g ts)"
proof (induction ts arbitrary: pos)
  case (Cons t ts)
  then have t: "pos \<le> Start (tok_span t)" "Start (tok_span t) < End (tok_span t)"
    and o: "ordered_from body (End (tok_span t)) ts" by (simp_all add: ordered_from_Cons)
  note IH = Cons.IH [OF o]
  show ?case
  proof (cases "changes g t")
    case True
    then show ?thesis using IH by (auto simp: changes_def edits_of_def edit_of_def)
  next
    case False
    then have "rewrite_from body pos (t # ts) g =
        slice body pos (Start (tok_span t)) @ raw body (tok_span t) @ rewrite_from body (End (tok_span t)) ts g"
      by (auto simp: changes_def split: option.splits)
    also have "\<dots> = slice body pos (End (tok_span t)) @ spliced body (End (tok_span t)) (edits_of g ts)"
      using t IH by (simp add: raw_def slice_append flip: append_assoc)
    also have "\<dots> = spliced body pos (edits_of g ts)"
      using t by (intro spliced_from edits_of_ok [OF o]) simp
    also have "edits_of g ts = edits_of g (t # ts)" using False by (simp add: edits_of_def)
    finally show ?thesis .
  qed
qed (simp add: edits_of_def)

lemma document_ordered: "document_ok d \<Longrightarrow> ordered_from (doc_body d) 0 (doc_strings d)"
  by (auto simp: document_ok_def tokens_ok_def ordered_from_def token_ok_def)

lemma rewrite_eq_spliced:
  "document_ok d \<Longrightarrow> rewrite d g = spliced (doc_body d) 0 (edits_of g (doc_strings d))"
  by (simp add: rewrite_def rewrite_spliced document_ordered)

section \<open>From candidates to edits\<close>

abbreviation cand_start :: "replacement_candidate \<Rightarrow> nat" where
  "cand_start x \<equiv> Start (tok_span (rc_token x))"

abbreviation cand_end :: "replacement_candidate \<Rightarrow> nat" where
  "cand_end x \<equiv> End (tok_span (rc_token x))"

text \<open>The candidate of a replacement whose token is recognised.\<close>

definition cand :: "document \<Rightarrow> replacement \<Rightarrow> replacement_candidate" where
  "cand d r = \<lparr>rc_token = projr (canonical_token d (rp_token r)), rc_value = rp_value r\<rparr>"

definition acceptable :: "document \<Rightarrow> replacement \<Rightarrow> bool" where
  "acceptable d r \<longleftrightarrow> (\<exists>t. canonical_token d (rp_token r) = Inr t) \<and>
     int (length (rp_value r)) \<le> MaxStringBytes (doc_limits d)"

lemma candidate_of_result:
  "candidate_of d c r n = (Inr x, m) \<Longrightarrow> acceptable d r \<and> x = cand d r"
  by (auto simp: candidate_of_def bind_Inr_iff acceptable_def cand_def not_less)

lemma check_overlaps_result:
  "check_overlaps d c p xs n = (Inr u, m) \<Longrightarrow>
     (\<forall>x \<in> set xs. p \<le> int (cand_start x) \<and> cand_start x < cand_end x \<and> cand_end x \<le> length (doc_body d)) \<and>
     sorted_wrt (\<lambda>x y. cand_end x \<le> cand_start y) xs"
proof (induction d c p xs arbitrary: n rule: check_overlaps.induct)
  case (2 d c p x xs)
  then obtain n' where x: "cand_start x < cand_end x" "cand_end x \<le> length (doc_body d)" "p \<le> int (cand_start x)"
    and r: "check_overlaps d c (int (cand_end x)) xs n' = (Inr u, m)"
    by (auto simp: bind_Inr_iff Let_def not_less not_le)
  from "2.IH" [OF refl r] x show ?case by fastforce
qed simp

definition cand_edit :: "replacement_candidate \<Rightarrow> string_edit" where
  "cand_edit x = \<lparr>se_span = tok_span (rc_token x), se_encoded = quoted (escape (rc_value x))\<rparr>"

definition cand_changed :: "replacement_candidate \<Rightarrow> bool" where
  "cand_changed x \<longleftrightarrow> rc_value x \<noteq> tok_value (rc_token x)"

definition encoded_bytes :: "replacement_candidate list \<Rightarrow> int" where
  "encoded_bytes xs = (\<Sum>x \<leftarrow> filter cand_changed xs. int (length (quoted (escape (rc_value x)))))"

lemma build_edits_result:
  "build_edits d c k es0 xs n = (Inr es, m) \<Longrightarrow> k \<le> MaxReplacementBytes (doc_limits d) \<Longrightarrow>
     es = es0 @ map cand_edit (filter cand_changed xs) \<and>
     k + encoded_bytes xs \<le> MaxReplacementBytes (doc_limits d)"
proof (induction d c k es0 xs arbitrary: n rule: build_edits.induct)
  case (2 d c k es0 x xs)
  show ?case
  proof (cases "rc_value x = tok_value (rc_token x)")
    case True
    with "2.prems" obtain n' where "build_edits d c k es0 xs n' = (Inr es, m)" by (auto simp: bind_Inr_iff)
    from "2.IH"(1) [OF True this "2.prems"(2)] True show ?thesis
      by (simp add: cand_changed_def encoded_bytes_def)
  next
    case False
    let ?e = "quoted (escape (rc_value x))"
    from "2.prems" False obtain n' where l: "k + int (length ?e) \<le> MaxReplacementBytes (doc_limits d)"
      and "build_edits d c (k + int (length ?e)) (es0 @ [cand_edit x]) xs n' = (Inr es, m)"
      by (fastforce simp: bind_Inr_iff not_less cand_edit_def dest: encode_string_context_result)
    then show ?thesis using "2.IH"(2) [OF False, of ?e n'] False
      by (simp add: cand_edit_def cand_changed_def encoded_bytes_def add.assoc)
  qed
qed (simp add: encoded_bytes_def)

text \<open>An ordered list of tokens of an ordered list is the sublist of its elements.\<close>

lemma ordered_sublist:
  assumes "ordered_from body 0 ts" "set us \<subseteq> set ts"
    and "sorted_wrt (\<lambda>t u. End (tok_span t) \<le> Start (tok_span u)) us"
  shows "us = filter (\<lambda>t. t \<in> set us) ts"
proof -
  let ?f = "\<lambda>t. Start (tok_span t)" and ?vs = "filter (\<lambda>t. t \<in> set us) ts"
  have lt: "\<forall>t \<in> set ts. ?f t < End (tok_span t)" using assms(1) by (simp add: ordered_from_def)
  have strict: "sorted_wrt (<) (map ?f xs)"
    if "set xs \<subseteq> set ts" "sorted_wrt (\<lambda>t u. End (tok_span t) \<le> Start (tok_span u)) xs" for xs
    unfolding sorted_wrt_map using that(2)
    by (rule sorted_wrt_mono_rel [rotated]) (use lt that(1) in fastforce)
  have s: "sorted_wrt (<) (map ?f ts)" using strict [of ts] assms(1) by (simp add: ordered_from_def)
  then have inj: "inj_on ?f (set ts)" by (simp add: strict_sorted_iff distinct_map)
  have "sorted_wrt (<) (map ?f ?vs)"
    using assms(1) by (intro strict) (auto simp: ordered_from_def intro: sorted_wrt_filter)
  moreover have "sorted_wrt (<) (map ?f us)" by (rule strict [OF assms(2,3)])
  moreover have "set ?vs = set us" using assms(2) by auto
  ultimately have "map ?f us = map ?f ?vs" by (intro strict_sorted_equal) auto
  moreover have "inj_on ?f (set us \<union> set ?vs)" by (rule inj_on_subset [OF inj]) (use assms(2) in auto)
  ultimately show ?thesis by (rule map_inj_on)
qed

definition assigned :: "replacement_candidate list \<Rightarrow> string_token \<Rightarrow> string option" where
  "assigned cs = map_of (map (\<lambda>x. (rc_token x, rc_value x)) cs)"

lemma candidate_edits:
  assumes "ordered_from body 0 ts" "set (map rc_token cs) \<subseteq> set ts"
    and "sorted_wrt (\<lambda>x y. cand_end x \<le> cand_start y) (sort_key span_key cs)"
  shows "map cand_edit (filter cand_changed (sort_key span_key cs)) = edits_of (assigned cs) ts"
    "distinct (map rc_token cs)"
proof -
  let ?xs = "sort_key span_key cs" and ?g = "assigned cs"
  let ?us = "map rc_token ?xs"
  have sub: "set ?us \<subseteq> set ts" using assms(2) by simp
  have sorted: "sorted_wrt (\<lambda>t u. End (tok_span t) \<le> Start (tok_span u)) ?us"
    unfolding sorted_wrt_map using assms(3) .
  have us: "?us = filter (\<lambda>t. t \<in> set ?us) ts" by (rule ordered_sublist [OF assms(1) sub sorted])
  have "distinct ts"
  proof -
    have "sorted_wrt (<) (map (\<lambda>t. Start (tok_span t)) ts)"
      unfolding sorted_wrt_map using assms(1)
      by (auto simp: ordered_from_def elim!: sorted_wrt_mono_rel [rotated])
    then show ?thesis by (simp add: strict_sorted_iff distinct_map)
  qed
  then have "distinct ?us" by (subst us) simp
  then show dist: "distinct (map rc_token cs)" by (simp add: distinct_map)
  have g: "?g (rc_token x) = Some (rc_value x)" if "x \<in> set cs" for x
    using that dist by (auto simp: assigned_def map_of_eq_Some_iff comp_def)
  have "map cand_edit (filter cand_changed ?xs) = map (\<lambda>x. edit_of ?g (rc_token x)) (filter (\<lambda>x. changes ?g (rc_token x)) ?xs)"
  proof -
    have "filter cand_changed ?xs = filter (\<lambda>x. changes ?g (rc_token x)) ?xs"
      by (rule filter_cong) (auto simp: g cand_changed_def changes_def)
    then show ?thesis by (auto simp: cand_edit_def edit_of_def g)
  qed
  also have "\<dots> = map (edit_of ?g) (filter (changes ?g) ?us)" by (simp add: filter_map comp_def)
  also have "filter (changes ?g) ?us = filter (changes ?g) (filter (\<lambda>t. t \<in> set ?us) ts)"
    by (subst us) simp
  also have "\<dots> = filter (changes ?g) ts"
  proof -
    have "changes ?g t \<Longrightarrow> t \<in> set ?us" for t
      by (auto simp: changes_def assigned_def dest!: map_of_SomeD)
    then show ?thesis by (auto simp: filter_filter intro: filter_cong)
  qed
  finally show "map cand_edit (filter cand_changed ?xs) = edits_of ?g ts" by (simp add: edits_of_def)
qed

section \<open>Replace meets the specification\<close>

text \<open>The requests that \<open>Replace\<close> grants.\<close>

definition changing :: "replacement \<Rightarrow> bool" where
  "changing r \<longleftrightarrow> rp_value r \<noteq> tok_value (rp_token r)"

definition grantable :: "document \<Rightarrow> replacement list \<Rightarrow> bool" where
  "grantable d rs \<longleftrightarrow>
     int (length rs) \<le> MaxReplacements (doc_limits d) \<and> (\<forall>r \<in> set rs. acceptable d r) \<and>
     distinct (map (\<lambda>r. tok_ordinal (rp_token r)) rs) \<and>
     (\<Sum>r \<leftarrow> filter changing rs. int (length (quoted (escape (rp_value r))))) \<le> MaxReplacementBytes (doc_limits d)"

lemma acceptable_cand:
  assumes "document_ok d" "acceptable d r"
  shows "rc_token (cand d r) \<in> set (doc_strings d)" "rc_value (cand d r) = rp_value r"
    "tok_ordinal (rc_token (cand d r)) = tok_ordinal (rp_token r)"
    "tok_value (rc_token (cand d r)) = tok_value (rp_token r)"
proof -
  from assms(2) obtain t where t: "canonical_token d (rp_token r) = Inr t" by (auto simp: acceptable_def)
  from canonical_token_iff [OF assms(1), THEN iffD1, OF t]
  have e: "rp_token r = t\<lparr>tok_path := token_path d t, tok_path_ref := tok_path_ref (rp_token r)\<rparr>"
    and "t \<in> set (doc_strings d)" by auto
  then show "rc_token (cand d r) \<in> set (doc_strings d)" "rc_value (cand d r) = rp_value r"
    by (simp_all add: cand_def t)
  show "tok_ordinal (rc_token (cand d r)) = tok_ordinal (rp_token r)"
    "tok_value (rc_token (cand d r)) = tok_value (rp_token r)"
    by (subst e, simp add: cand_def t)+
qed

lemma ordinal_inj: "document_ok d \<Longrightarrow> inj_on tok_ordinal (set (doc_strings d))"
  by (auto simp: document_ok_def inj_on_def in_set_conv_nth)

text \<open>On the tokens of the document, the candidates assign what was requested.\<close>

lemma assigned_requested:
  assumes "document_ok d" "\<forall>r \<in> set rs. acceptable d r" "t \<in> set (doc_strings d)"
  shows "assigned (map (cand d) rs) t = requested rs t"
  using assms(2)
proof (induction rs)
  case (Cons r rs)
  have "rc_token (cand d r) = t \<longleftrightarrow> tok_ordinal (rp_token r) = tok_ordinal t"
    using acceptable_cand [OF assms(1), of r] Cons.prems assms(3) inj_onD [OF ordinal_inj [OF assms(1)]]
    by (metis list.set_intros(1))
  then show ?case
    using Cons acceptable_cand(2) [OF assms(1), of r] by (auto simp: assigned_def requested_def)
qed (simp add: assigned_def requested_def)

lemma edits_of_cong: "(\<And>t. t \<in> set ts \<Longrightarrow> g t = h t) \<Longrightarrow> edits_of g ts = edits_of h ts"
  by (induction ts) (auto simp: edits_of_def edit_of_def changes_def)

lemma distinct_ordinals:
  assumes "document_ok d" "\<forall>r \<in> set rs. acceptable d r"
  shows "distinct (map rc_token (map (cand d) rs)) \<longleftrightarrow> distinct (map (\<lambda>r. tok_ordinal (rp_token r)) rs)"
proof -
  have "map (\<lambda>r. tok_ordinal (rp_token r)) rs = map tok_ordinal (map rc_token (map (cand d) rs))"
    using acceptable_cand(3) [OF assms(1)] assms(2) by simp
  moreover have "inj_on tok_ordinal (set (map rc_token (map (cand d) rs)))"
    by (rule inj_on_subset [OF ordinal_inj [OF assms(1)]])
      (use acceptable_cand(1) [OF assms(1)] assms(2) in auto)
  ultimately show ?thesis by (metis distinct_map)
qed

lemma encoded_bytes_cand:
  assumes "document_ok d" "\<forall>r \<in> set rs. acceptable d r"
  shows "encoded_bytes (map (cand d) rs) =
    (\<Sum>r \<leftarrow> filter changing rs. int (length (quoted (escape (rp_value r)))))"
  using assms(2)
proof (induction rs)
  case (Cons r rs)
  then show ?case using acceptable_cand(2,4) [OF assms(1), of r]
    by (simp add: encoded_bytes_def cand_changed_def changing_def)
qed (simp add: encoded_bytes_def)

lemma encoded_bytes_sort: "encoded_bytes (sort_key k xs) = encoded_bytes xs"
proof -
  let ?h = "\<lambda>x. int (length (quoted (escape (rc_value x))))"
  have "mset (map ?h (filter cand_changed (sort_key k xs))) = mset (map ?h (filter cand_changed xs))"
    by (simp add: mset_map mset_filter)
  then show ?thesis unfolding encoded_bytes_def by (metis sum_mset_sum_list)
qed

lemma edits_of_requested:
  assumes "document_ok d" "\<forall>r \<in> set rs. acceptable d r"
  shows "edits_of (assigned (map (cand d) rs)) (doc_strings d) = edits_of (requested rs) (doc_strings d)"
  by (rule edits_of_cong) (rule assigned_requested [OF assms])

lemma edits_empty:
  assumes "document_ok d" "\<forall>r \<in> set rs. acceptable d r"
    "map cand_edit (filter cand_changed (sort_key span_key (map (cand d) rs))) = es"
  shows "es = [] \<longleftrightarrow> (\<forall>r \<in> set rs. \<not> changing r)"
  using acceptable_cand(2,4) [OF assms(1)] assms(2,3)
  by (auto simp: cand_changed_def changing_def filter_empty_conv)

lemma rewrite_nothing: "document_ok d \<Longrightarrow> edits_of g (doc_strings d) = [] \<Longrightarrow> rewrite d g = doc_body d"
  by (simp add: rewrite_eq_spliced)

lemma replace_result:
  assumes "document_ok d" "replace (Some d) co rs n = (Inr (out, changed), m)"
  shows "grantable d rs \<and> out = rewrite d (requested rs) \<and> (changed \<longleftrightarrow> (\<exists>r \<in> set rs. changing r))"
proof (cases "rs = []")
  case True
  have "0 < MaxReplacements (doc_limits d)" "0 < MaxReplacementBytes (doc_limits d)"
    using assms(1) by (simp_all add: document_ok_def limits_ok_def)
  moreover have "rewrite d (requested []) = doc_body d"
    by (rule rewrite_nothing [OF assms(1)]) (simp add: edits_of_def changes_def requested_def)
  ultimately show ?thesis using True assms(2)
    by (auto simp: replace_def Let_def bind_Inr_iff grantable_def)
next
  case False
  let ?c = "or_background co" and ?cs = "map (cand d) rs"
  from assms(2) False obtain cs n1 n2 n3 n4 es where
    len: "int (length rs) \<le> MaxReplacements (doc_limits d)"
    and cs: "map_each rs (candidate_of d ?c) n1 = (Inr cs, n2)"
    and ov: "check_overlaps d ?c (-1) (sort_key span_key cs) (Suc n2) = (Inr (), n3)"
    and es: "build_edits d ?c 0 [] (sort_key span_key cs) n3 = (Inr es, n4)"
    and rest: "(if es = [] then ret (doc_body d, False)
       else bind (splice ?c (doc_body d) es) (\<lambda>out. ret (out, True))) n4 = (Inr (out, changed), m)"
    by (auto simp: replace_def Let_def bind_Inr_iff not_less)
  from map_each_result [OF cs, of "acceptable d" "cand d"] candidate_of_result
  have acc: "\<forall>r \<in> set rs. acceptable d r" and cs_eq: "cs = ?cs" by blast+
  have sub: "set (map rc_token ?cs) \<subseteq> set (doc_strings d)"
    using acc acceptable_cand(1) [OF assms(1)] by auto
  note sorted = conjunct2 [OF check_overlaps_result [OF ov [unfolded cs_eq]]]
  note e = candidate_edits [OF document_ordered [OF assms(1)] sub sorted]
  have "0 \<le> MaxReplacementBytes (doc_limits d)" using assms(1) by (simp add: document_ok_def limits_ok_def)
  with build_edits_result [OF es] have es_eq: "es = map cand_edit (filter cand_changed (sort_key span_key ?cs))"
    and bytes: "encoded_bytes ?cs \<le> MaxReplacementBytes (doc_limits d)"
    by (simp_all add: cs_eq encoded_bytes_sort)
  have "grantable d rs"
    using len acc bytes e(2) distinct_ordinals [OF assms(1) acc] encoded_bytes_cand [OF assms(1) acc]
    by (simp add: grantable_def)
  moreover have es_req: "es = edits_of (requested rs) (doc_strings d)"
    using es_eq e(1) edits_of_requested [OF assms(1) acc] by simp
  have "out = rewrite d (requested rs)"
  proof (cases "es = []")
    case True
    then show ?thesis using rest es_req rewrite_nothing [OF assms(1)] by simp
  next
    case False
    with rest obtain n5 where "splice ?c (doc_body d) es n4 = (Inr out, n5)" by (auto simp: bind_Inr_iff)
    from splice_result [OF this] show ?thesis using es_req rewrite_eq_spliced [OF assms(1)] by simp
  qed
  moreover have "changed \<longleftrightarrow> es \<noteq> []" using rest by (cases "es = []") (auto simp: bind_Inr_iff)
  ultimately show ?thesis using edits_empty [OF assms(1) acc es_eq [symmetric]] by auto
qed

section \<open>Granted requests succeed\<close>

text \<open>Under a context that is never cancelled, every step succeeds.\<close>

lemma poll_background [simp]: "poll background n = (Inr (), Suc n)"
  by (simp add: poll_def background_None)

lemma append_with_context_total: "\<exists>m. append_with_context background dst src n = (Inr (dst @ src), m)"
proof (induction "length src" arbitrary: dst src n rule: less_induct)
  case less
  show ?case
  proof (cases "src = []")
    case True
    then show ?thesis by (simp add: append_with_context.simps ret_def)
  next
    case False
    then have "length (drop chunk_bytes src) < length src" by (simp add: chunk_bytes_def)
    from less [OF this, of "dst @ take chunk_bytes src" "Suc n"] False show ?thesis
      by (simp add: append_with_context.simps [of background dst src] bind_def)
  qed
qed

lemma splice_size_total:
  "edits_ok body pos es \<Longrightarrow> out_size + (\<Sum>e \<leftarrow> es. int (length (se_encoded e))) \<le> max_int \<Longrightarrow>
   \<exists>r m. splice_size background body es pos out_size n = (Inr r, m)"
proof (induction es arbitrary: pos out_size n)
  case (Cons e es)
  let ?old = "int (End (se_span e)) - int (Start (se_span e))" and ?new = "int (length (se_encoded e))"
  have nonneg: "0 \<le> (\<Sum>e \<leftarrow> es. int (length (se_encoded e)))" by (rule sum_list_nonneg) auto
  have ok: "pos \<le> Start (se_span e)" "Start (se_span e) < End (se_span e)" "End (se_span e) \<le> length body"
    "edits_ok body (End (se_span e)) es" using Cons.prems(1) by auto
  have le: "out_size + ?new + (\<Sum>e \<leftarrow> es. int (length (se_encoded e))) \<le> max_int" using Cons.prems(2) by simp
  show ?case
  proof (cases "?old < ?new")
    case True
    then have "out_size + (?new - ?old) + (\<Sum>e \<leftarrow> es. int (length (se_encoded e))) \<le> max_int"
      "\<not> out_size > max_int - (?new - ?old)" using le ok(2) nonneg by linarith+
    then show ?thesis using Cons.IH [OF ok(4)] True ok
      by (auto simp: bind_def Let_def fail_if_def ret_def)
  next
    case False
    then have "out_size - (?old - ?new) + (\<Sum>e \<leftarrow> es. int (length (se_encoded e))) \<le> max_int"
      using le ok(2) by linarith
    then show ?thesis using Cons.IH [OF ok(4)] False ok
      by (auto simp: bind_def Let_def fail_if_def ret_def)
  qed
qed (simp add: ret_def)

lemma splice_write_total: "\<exists>m. splice_write background body es pos out n = (Inr (out @ spliced body pos es), m)"
proof (induction es arbitrary: pos out n)
  case Nil
  then show ?case by (simp add: append_with_context_total)
next
  case (Cons e es)
  obtain m1 where 1: "append_with_context background out (slice body pos (Start (se_span e))) n =
    (Inr (out @ slice body pos (Start (se_span e))), m1)" using append_with_context_total by blast
  obtain m2 where 2: "append_with_context background (out @ slice body pos (Start (se_span e))) (se_encoded e) m1 =
    (Inr ((out @ slice body pos (Start (se_span e))) @ se_encoded e), m2)" using append_with_context_total by blast
  from Cons.IH [of "End (se_span e)" "(out @ slice body pos (Start (se_span e))) @ se_encoded e" m2] 1 2
  show ?case by (simp add: bind_def)
qed

lemma splice_total:
  assumes "edits_ok body 0 es" "int (length body) + (\<Sum>e \<leftarrow> es. int (length (se_encoded e))) \<le> max_int"
  shows "\<exists>m. splice background body es n = (Inr (spliced body 0 es), m)"
proof -
  obtain r k where "splice_size background body es 0 (int (length body)) n = (Inr r, k)"
    using splice_size_total [OF assms] by blast
  then show ?thesis using splice_write_total [of body es 0 "[]" k] by (simp add: splice_def bind_def)
qed

lemma candidate_of_total: "acceptable d r \<Longrightarrow> \<exists>m. candidate_of d background r n = (Inr (cand d r), m)"
  by (auto simp: candidate_of_def acceptable_def cand_def bind_def lift_res_def fail_if_def ret_def)

lemma check_overlaps_total:
  "\<forall>x \<in> set xs. p \<le> int (cand_start x) \<and> cand_start x < cand_end x \<and> cand_end x \<le> length (doc_body d) \<Longrightarrow>
   sorted_wrt (\<lambda>x y. cand_end x \<le> cand_start y) xs \<Longrightarrow>
   \<exists>m. check_overlaps d background p xs n = (Inr (), m)"
proof (induction xs arbitrary: p n)
  case (Cons x xs)
  then have "\<exists>m. check_overlaps d background (int (cand_end x)) xs (Suc n) = (Inr (), m)"
    by (intro Cons.IH) auto
  then show ?case using Cons.prems(1) by (auto simp: bind_def Let_def fail_if_def ret_def)
qed (simp add: ret_def)

lemma encode_string_context_total:
  "\<exists>m. encode_string_context (Some background) v n = (Inr (quoted (escape v)), m)"
proof -
  have "\<exists>m. encode_loop (Some background) v i k out n = (Inr (out @ escape (drop i v)), m)" for i k out n
  proof (induction "length v - i" arbitrary: i k out n rule: less_induct)
    case less
    show ?case
    proof (cases "i < length v")
      case False
      then show ?thesis by (simp add: encode_loop.simps ret_def)
    next
      case True
      define s where "s = drop i v"
      have s: "s \<noteq> []" using True by (simp add: s_def)
      note sz = encode_step_size [OF s]
      have "length v - (i + snd (encode_step s)) < length v - i" using sz True by linarith
      note IH = less.hyps [OF this]
      have "drop (i + snd (encode_step s)) v = drop (snd (encode_step s)) s"
        by (simp add: s_def add.commute)
      then have "\<exists>m. encode_loop (Some background) v (i + snd (encode_step s)) k' (out @ fst (encode_step s)) n' =
          (Inr (out @ fst (encode_step s) @ escape (drop (snd (encode_step s)) s)), m)" for k' n'
        using IH [of k' "out @ fst (encode_step s)" n'] by simp
      then show ?thesis using True sz escape_step [OF s]
        by (simp add: encode_loop.simps [of "Some background" v i] bind_def ret_def poll_opt_def
            s_def [symmetric] case_prod_beta Let_def)
    qed
  qed
  then obtain m where "encode_loop (Some background) v 0 context_check_interval [CHR 0x22] n =
      (Inr ([CHR 0x22] @ escape v), m)" by (metis drop0)
  then show ?thesis by (simp add: encode_string_context_def bind_def poll_opt_def ret_def quoted_def)
qed

lemma build_edits_total:
  "k + encoded_bytes xs \<le> MaxReplacementBytes (doc_limits d) \<Longrightarrow>
   \<exists>m. build_edits d background k es0 xs n = (Inr (es0 @ map cand_edit (filter cand_changed xs)), m)"
proof (induction xs arbitrary: k es0 n)
  case (Cons x xs)
  show ?case
  proof (cases "rc_value x = tok_value (rc_token x)")
    case True
    then show ?thesis using Cons.IH [of k es0 "Suc n"] Cons.prems
      by (simp add: bind_def cand_changed_def encoded_bytes_def)
  next
    case False
    let ?e = "quoted (escape (rc_value x))"
    obtain m where m: "encode_string_context (Some background) (rc_value x) (Suc n) = (Inr ?e, m)"
      using encode_string_context_total by blast
    have "0 \<le> encoded_bytes xs" unfolding encoded_bytes_def by (rule sum_list_nonneg) auto
    moreover have "encoded_bytes (x # xs) = int (length ?e) + encoded_bytes xs"
      using False by (simp add: encoded_bytes_def cand_changed_def)
    ultimately have "\<not> int (length ?e) > MaxReplacementBytes (doc_limits d) - k"
      "(k + int (length ?e)) + encoded_bytes xs \<le> MaxReplacementBytes (doc_limits d)"
      using Cons.prems by linarith+
    then show ?thesis using Cons.IH [of "k + int (length ?e)" "es0 @ [cand_edit x]" m] m False
      by (simp add: bind_def fail_if_def ret_def cand_changed_def cand_edit_def)
  qed
qed (simp add: ret_def)

lemma rewrite_bytes_bound:
  assumes "document_ok d" "\<forall>r \<in> set rs. acceptable d r"
    and "encoded_bytes (map (cand d) rs) \<le> MaxReplacementBytes (doc_limits d)"
  shows "int (length (doc_body d)) +
    (\<Sum>e \<leftarrow> map cand_edit (filter cand_changed (sort_key span_key (map (cand d) rs))). int (length (se_encoded e))) \<le> max_int"
proof -
  have "(\<Sum>e \<leftarrow> map cand_edit (filter cand_changed (sort_key span_key (map (cand d) rs))). int (length (se_encoded e))) =
      encoded_bytes (sort_key span_key (map (cand d) rs))"
    by (simp add: encoded_bytes_def cand_edit_def comp_def)
  moreover have "int (length (doc_body d)) \<le> 33554432" "MaxReplacementBytes (doc_limits d) \<le> 33554432"
    using assms(1) by (simp_all add: document_ok_def limits_ok_def)
  ultimately show ?thesis using assms(3) by (simp add: encoded_bytes_sort max_int_def)
qed

text \<open>The candidates of distinct tokens, sorted by span, do not overlap.\<close>

lemma sorted_candidates:
  assumes "ordered_from body 0 ts" "set (map rc_token cs) \<subseteq> set ts" "distinct (map rc_token cs)"
  shows "sorted_wrt (\<lambda>x y. cand_end x \<le> cand_start y) (sort_key span_key cs)"
proof -
  have disj: "End (tok_span t) \<le> Start (tok_span u)"
    if tu: "t \<in> set ts" "u \<in> set ts" "t \<noteq> u" and le: "Start (tok_span t) \<le> Start (tok_span u)" for t u
  proof -
    from tu obtain i j where ij: "i < length ts" "j < length ts" "t = ts ! i" "u = ts ! j" "i \<noteq> j"
      by (metis in_set_conv_nth)
    have s: "sorted_wrt (\<lambda>t u. End (tok_span t) \<le> Start (tok_span u)) ts" "Start (tok_span u) < End (tok_span u)"
      using assms(1) tu(2) by (auto simp: ordered_from_def)
    show ?thesis
    proof (cases "i < j")
      case True
      then show ?thesis using sorted_wrt_nth_less [OF s(1) True] ij by simp
    next
      case False
      then have "End (tok_span u) \<le> Start (tok_span t)"
        using sorted_wrt_nth_less [OF s(1), of j i] ij by simp
      then show ?thesis using s(2) le by simp
    qed
  qed
  let ?xs = "sort_key span_key cs"
  have "sorted (map span_key ?xs)" by (rule sorted_sort_key)
  then have "sorted_wrt (\<lambda>x y. span_key x \<le> span_key y) ?xs" by (simp add: sorted_map)
  moreover have "distinct ?xs" using assms(3) by (simp add: distinct_map)
  then have "sorted_wrt (\<lambda>x y. x \<noteq> y) ?xs" by (simp add: distinct_conv_nth sorted_wrt_iff_nth_less)
  ultimately have "sorted_wrt (\<lambda>x y. span_key x \<le> span_key y \<and> x \<noteq> y) ?xs"
    by (simp add: sorted_wrt_iff_nth_less)
  then show ?thesis
  proof (rule sorted_wrt_mono_rel [rotated])
    fix x y assume "x \<in> set ?xs" "y \<in> set ?xs" "span_key x \<le> span_key y \<and> x \<noteq> y"
    then have "rc_token x \<noteq> rc_token y" "cand_start x \<le> cand_start y"
      using assms(3) by (auto simp: distinct_map inj_on_def span_key_def less_eq_prod_def)
    with \<open>x \<in> set ?xs\<close> \<open>y \<in> set ?xs\<close> assms(2) show "cand_end x \<le> cand_start y"
      by (intro disj) auto
  qed
qed

lemma replace_granted:
  assumes "document_ok d" "grantable d rs"
  shows "\<exists>m. replace (Some d) None rs n = (Inr (rewrite d (requested rs), \<exists>r \<in> set rs. changing r), m)"
proof (cases "rs = []")
  case True
  have "rewrite d (requested []) = doc_body d"
    by (rule rewrite_nothing [OF assms(1)]) (simp add: edits_of_def changes_def requested_def)
  with True assms(2) show ?thesis by (simp add: replace_def bind_def fail_if_def ret_def grantable_def)
next
  case False
  let ?cs = "map (cand d) rs" let ?xs = "sort_key span_key ?cs"
  let ?es = "map cand_edit (filter cand_changed ?xs)"
  have len: "\<not> int (length rs) > MaxReplacements (doc_limits d)" and acc: "\<forall>r \<in> set rs. acceptable d r"
    using assms(2) by (auto simp: grantable_def)
  have dist: "distinct (map rc_token ?cs)" and bytes: "encoded_bytes ?cs \<le> MaxReplacementBytes (doc_limits d)"
    using assms(2) distinct_ordinals [OF assms(1) acc] encoded_bytes_cand [OF assms(1) acc]
    by (auto simp: grantable_def)
  have sub: "set (map rc_token ?cs) \<subseteq> set (doc_strings d)"
    using acc acceptable_cand(1) [OF assms(1)] by auto
  note ord = document_ordered [OF assms(1)]
  note sorted = sorted_candidates [OF ord sub dist]
  note e = candidate_edits(1) [OF ord sub sorted]
  have es: "?es = edits_of (requested rs) (doc_strings d)"
    using e edits_of_requested [OF assms(1) acc] by simp
  obtain n2 where 1: "map_each rs (candidate_of d background) (Suc n) = (Inr ?cs, n2)"
    using map_each_total [of rs "candidate_of d background" "cand d" "Suc n"] candidate_of_total acc by blast
  have "\<forall>x \<in> set ?xs. -1 \<le> int (cand_start x) \<and> cand_start x < cand_end x \<and> cand_end x \<le> length (doc_body d)"
    using ord sub by (auto simp: ordered_from_def)
  from check_overlaps_total [OF this sorted] obtain n3
    where 2: "check_overlaps d background (-1) ?xs (Suc n2) = (Inr (), n3)" by blast
  have "0 + encoded_bytes ?xs \<le> MaxReplacementBytes (doc_limits d)" using bytes by (simp add: encoded_bytes_sort)
  from build_edits_total [OF this, of "[]" n3] obtain n4
    where 3: "build_edits d background 0 [] ?xs n3 = (Inr ?es, n4)" by auto
  have "edits_ok (doc_body d) 0 ?es" unfolding es by (rule edits_of_ok [OF ord])
  from splice_total [OF this rewrite_bytes_bound [OF assms(1) acc bytes], of n4] obtain n5
    where 4: "splice background (doc_body d) ?es n4 = (Inr (rewrite d (requested rs)), n5)"
    using rewrite_eq_spliced [OF assms(1)] es by auto
  have ch: "?es = [] \<longleftrightarrow> \<not> (\<exists>r \<in> set rs. changing r)" using edits_empty [OF assms(1) acc refl] by auto
  have same: "?es = [] \<Longrightarrow> rewrite d (requested rs) = doc_body d" using es rewrite_nothing [OF assms(1)] by simp
  have rest: "\<exists>m. (if ?es = [] then ret (doc_body d, False)
      else bind (splice background (doc_body d) ?es) (\<lambda>out. ret (out, True))) n4 =
      (Inr (rewrite d (requested rs), \<exists>r \<in> set rs. changing r), m)"
    using 4 ch same by (cases "?es = []") (auto simp: ret_def bind_def)
  show ?thesis using False len 1 2 3 rest by (simp add: replace_def Let_def bind_def fail_if_def ret_def)
qed

lemma requested_mset:
  assumes "mset rs = mset rs'" "distinct (map (\<lambda>r. tok_ordinal (rp_token r)) rs)"
  shows "requested rs = requested rs'"
proof -
  let ?f = "\<lambda>r. (tok_ordinal (rp_token r), rp_value r)"
  have m: "mset (map ?f rs) = mset (map ?f rs')" using assms(1) by simp
  have d: "distinct (map fst (map ?f rs))" using assms(2) by (simp add: comp_def)
  have "mset (map fst (map ?f rs)) = mset (map fst (map ?f rs'))" using m by (simp only: mset_map)
  with d have d': "distinct (map fst (map ?f rs'))" using mset_eq_imp_distinct_iff by blast
  have "set (map ?f rs) = set (map ?f rs')" using m by (rule mset_eq_setD)
  with map_of_inject_set [OF d d'] have "map_of (map ?f rs) = map_of (map ?f rs')" by blast
  then show ?thesis by (simp add: requested_def fun_eq_iff)
qed

lemma grantable_mset:
  assumes "mset rs = mset rs'"
  shows "grantable d rs \<longleftrightarrow> grantable d rs'"
proof -
  have "set rs = set rs'" "length rs = length rs'" using assms by (metis set_mset_mset, metis size_mset)
  moreover have "distinct (map (\<lambda>r. tok_ordinal (rp_token r)) rs) \<longleftrightarrow>
      distinct (map (\<lambda>r. tok_ordinal (rp_token r)) rs')"
    by (rule mset_eq_imp_distinct_iff) (simp add: assms)
  moreover have "(\<Sum>r \<leftarrow> filter changing rs. int (length (quoted (escape (rp_value r))))) =
      (\<Sum>r \<leftarrow> filter changing rs'. int (length (quoted (escape (rp_value r)))))"
  proof -
    have "mset (map (\<lambda>r. int (length (quoted (escape (rp_value r))))) (filter changing rs)) =
        mset (map (\<lambda>r. int (length (quoted (escape (rp_value r))))) (filter changing rs'))"
      by (simp add: assms)
    then show ?thesis by (metis sum_mset_sum_list)
  qed
  ultimately show ?thesis by (simp add: grantable_def)
qed

lemma replace_None_iff:
  assumes "document_ok d"
  shows "fst (replace (Some d) None rs n) = Inr (out, changed) \<longleftrightarrow>
    grantable d rs \<and> out = rewrite d (requested rs) \<and> changed = (\<exists>r \<in> set rs. changing r)"
proof
  assume "fst (replace (Some d) None rs n) = Inr (out, changed)"
  then have "replace (Some d) None rs n = (Inr (out, changed), snd (replace (Some d) None rs n))"
    by (metis prod.collapse)
  from replace_result [OF assms this]
  show "grantable d rs \<and> out = rewrite d (requested rs) \<and> changed = (\<exists>r \<in> set rs. changing r)" by simp
next
  assume "grantable d rs \<and> out = rewrite d (requested rs) \<and> changed = (\<exists>r \<in> set rs. changing r)"
  with replace_granted [OF assms, of rs n] show "fst (replace (Some d) None rs n) = Inr (out, changed)" by auto
qed

section \<open>A sample request\<close>

definition sample_token :: string_token where
  "sample_token = the (StringTokenAt (Some sample_document) 0)"

definition sample_request :: replacement where
  "sample_request = \<lparr>rp_token = sample_token, rp_value = ''[NAME]''\<rparr>"

definition sample_output :: string where
  "sample_output = ''{'' @ quoted ''k-1'' @ '':['' @ quoted ''[NAME]'' @ '']}''"

lemma sample_replace: "fst (replace (Some sample_document) None [sample_request] 0) = Inr (sample_output, True)"
  by code_simp

section \<open>Properties\<close>

text \<open>
  C5: \<open>Replace\<close> under a context that is not cancelled succeeds exactly on the requests that are
  within the limits, name tokens of this document unmodified, and name each at most once. The
  output is then the body with exactly the requested tokens whose value changes exchanged for
  the JSON strings of their new values, every other byte as it was, and \<open>changed\<close> says whether
  there is such a token.
\<close>

theorem replace_exact:
  "document_ok d \<Longrightarrow>
   fst (Replace (Some d) None rs n) = Inr (out, changed) \<longleftrightarrow>
     grantable d rs \<and> out = rewrite d (requested rs) \<and> changed = (\<exists>r \<in> set rs. changing r)"
  unfolding Replace_def by (rule replace_None_iff)

theorem replace_exact_witness:
  "grantable sample_document [sample_request] \<and>
   rewrite sample_document (requested [sample_request]) = sample_output \<and> changing sample_request"
proof -
  have "fst (Replace (Some sample_document) None [sample_request] 0) = Inr (sample_output, True)"
    unfolding Replace_def by (rule sample_replace)
  with replace_exact [OF sample_document_ok, of "[sample_request]" 0 sample_output True]
  show ?thesis by simp
qed

text \<open>
  A cancellable context never changes what \<open>Replace\<close> returns, it can only make it fail:
  every success is the one that the same request has without a context.
\<close>

theorem replace_context_independent:
  "document_ok d \<Longrightarrow> fst (Replace (Some d) co rs n) = Inr res \<Longrightarrow>
   fst (Replace (Some d) None rs n') = Inr res"
proof -
  assume d: "document_ok d" and r: "fst (Replace (Some d) co rs n) = Inr res"
  obtain out ch where res: "res = (out, ch)" by fastforce
  from r have "replace (Some d) co rs n = (Inr (out, ch), snd (replace (Some d) co rs n))"
    unfolding Replace_def res by (metis prod.collapse)
  from replace_result [OF d this] show "fst (Replace (Some d) None rs n') = Inr res"
    unfolding Replace_def res using replace_None_iff [OF d] by blast
qed

theorem replace_context_independent_witness:
  "fst (Replace (Some sample_document) None [sample_request] 5) = Inr (sample_output, True)"
proof -
  have "fst (Replace (Some sample_document) (Some (\<lambda>n. if n < 40 then None else Some Canceled))
      [sample_request] 0) = Inr (sample_output, True)"
    by code_simp
  from replace_context_independent [OF sample_document_ok this] show ?thesis .
qed

text \<open>
  The order of the replacements is irrelevant: a permuted request has the same outcome.
\<close>

theorem replace_order_irrelevant:
  "document_ok d \<Longrightarrow> mset rs = mset rs' \<Longrightarrow>
   fst (Replace (Some d) None rs n) = Inr res \<Longrightarrow> fst (Replace (Some d) None rs' n) = Inr res"
proof -
  assume d: "document_ok d" and m: "mset rs = mset rs'" and r: "fst (Replace (Some d) None rs n) = Inr res"
  obtain out ch where res: "res = (out, ch)" by fastforce
  from r have g: "grantable d rs" "out = rewrite d (requested rs)" "ch = (\<exists>r \<in> set rs. changing r)"
    unfolding Replace_def res replace_None_iff [OF d] by simp_all
  have "set rs = set rs'" using m by (rule mset_eq_setD)
  moreover have "requested rs = requested rs'"
    using g(1) by (intro requested_mset [OF m]) (simp add: grantable_def)
  ultimately show "fst (Replace (Some d) None rs' n) = Inr res"
    unfolding Replace_def res replace_None_iff [OF d] using g grantable_mset [OF m] by simp
qed

definition sample_body2 :: string where
  "sample_body2 = ''['' @ quoted ''a'' @ '','' @ quoted ''b'' @ '']''"

definition sample_document2 :: document where
  "sample_document2 = (case fst (Scan 8 None sample_body2 zero_limits 0) of
     Inl _ \<Rightarrow> undefined | Inr d \<Rightarrow> d)"

lemma sample_document2_ok: "document_ok sample_document2"
proof -
  have "case fst (Scan 8 None sample_body2 zero_limits 0) of Inl _ \<Rightarrow> False | Inr _ \<Rightarrow> True" by code_simp
  then have "Scan 8 None sample_body2 zero_limits 0 =
      (Inr sample_document2, snd (Scan 8 None sample_body2 zero_limits 0))"
    by (auto simp: sample_document2_def prod_eq_iff split: sum.splits)
  then show ?thesis by (rule Scan_ok)
qed

definition sample_requests2 :: "replacement list" where
  "sample_requests2 =
     [\<lparr>rp_token = the (StringTokenAt (Some sample_document2) 0), rp_value = ''x''\<rparr>,
      \<lparr>rp_token = the (StringTokenAt (Some sample_document2) 1), rp_value = ''y''\<rparr>]"

theorem replace_order_irrelevant_witness:
  "fst (Replace (Some sample_document2) None (rev sample_requests2) 0) =
     Inr (''['' @ quoted ''x'' @ '','' @ quoted ''y'' @ '']'', True)"
proof -
  have "fst (Replace (Some sample_document2) None sample_requests2 0) =
     Inr (''['' @ quoted ''x'' @ '','' @ quoted ''y'' @ '']'', True)" by code_simp
  from replace_order_irrelevant [OF sample_document2_ok _ this, of "rev sample_requests2"]
  show ?thesis by simp
qed

text \<open>
  The output size that \<open>splice\<close> computes with its overflow checks before it allocates is
  exactly the length of the output it then writes.
\<close>

theorem splice_size_is_output_length:
  "splice_size c body es 0 (int (length body)) n = (Inr out_size, m) \<Longrightarrow>
   splice_write c body es 0 [] n' = (Inr out, m') \<Longrightarrow> int (length out) = out_size"
  by (rule splice_size_exact)

theorem splice_size_is_output_length_witness:
  "int (length (''a'' @ ''xyz'' @ ''d'')) = (5 :: int)"
proof -
  let ?es = "[\<lparr>se_span = \<lparr>Start = 1, End = 3\<rparr>, se_encoded = ''xyz''\<rparr>]"
  have "splice_size background ''abcd'' ?es 0 (int (length ''abcd'')) 0 = (Inr 5, 1)" by code_simp
  moreover have "splice_write background ''abcd'' ?es 0 [] 0 = (Inr (''a'' @ ''xyz'' @ ''d''), 3)" by code_simp
  ultimately show ?thesis by (rule splice_size_is_output_length)
qed

end
