(* ===== verification/Budget.thy ===== *)
theory Budget
  imports Prelude
begin

text \<open>
  The request budget of \<open>internal/privacyengine/budget.go\<close> and the errors of the engine
  (\<open>internal/privacyengine/types.go\<close>). Each method of \<open>Budget\<close> holds the mutex from its first
  to its last line, so the calls of concurrent scans are a sequence of whole calls in some
  order: \<open>budget_step\<close> is one call, \<open>budget_run\<close> any such sequence.
\<close>

section \<open>Errors\<close>

datatype resource = ResourceBytes | ResourceFindings | ResourceNodes

datatype engine_error =
    ErrNilContext
  | ErrNilEngine
  | ErrNilRenderer
  | LimitError resource int int int  \<comment> \<open>resource, limit, used, requested\<close>
  | ErrInternalFailure
  | ErrNegativeLimits
  | ErrNoPlaceholder
  | ErrRendererFailed
  | EngineCtx ctx_error

text \<open>\<open>errors.Is(err, ErrBudgetExceeded)\<close>\<close>

fun is_budget_exceeded :: "engine_error \<Rightarrow> bool" where
  "is_budget_exceeded (LimitError _ _ _ _) = True"
| "is_budget_exceeded _ = False"

section \<open>Limits and usage\<close>

record engine_limits =
  MaxBytes :: int
  MaxFindings :: int
  EMaxNodes :: int

record usage =
  u_Bytes :: int
  u_Findings :: int
  u_Nodes :: int

definition default_engine_limits :: engine_limits where
  "default_engine_limits = \<lparr>MaxBytes = 1048576, MaxFindings = 256, EMaxNodes = 1024\<rparr>"

definition normalize_limits :: "engine_limits \<Rightarrow> engine_error + engine_limits" where
  "normalize_limits l =
    (if MaxBytes l < 0 \<or> MaxFindings l < 0 \<or> EMaxNodes l < 0 then Inl ErrNegativeLimits
     else
       let d = default_engine_limits;
           l = (if MaxBytes l = 0 then l\<lparr>MaxBytes := MaxBytes d\<rparr> else l);
           l = (if MaxFindings l = 0 then l\<lparr>MaxFindings := MaxFindings d\<rparr> else l);
           l = (if EMaxNodes l = 0 then l\<lparr>EMaxNodes := EMaxNodes d\<rparr> else l)
       in Inr l)"

text \<open>\<open>b_initialized\<close> is false in the zero value, which adopts the defaults on first use.\<close>

record budget =
  b_initialized :: bool
  b_limits :: engine_limits
  b_usage :: usage

type_synonym 'a budgeted = "(engine_error, budget, 'a) M"

definition zero_usage :: usage where
  "zero_usage = \<lparr>u_Bytes = 0, u_Findings = 0, u_Nodes = 0\<rparr>"

definition zero_budget :: budget where
  "zero_budget = \<lparr>b_initialized = False,
     b_limits = \<lparr>MaxBytes = 0, MaxFindings = 0, EMaxNodes = 0\<rparr>, b_usage = zero_usage\<rparr>"

definition new_budget_unchecked :: "engine_limits \<Rightarrow> budget" where
  "new_budget_unchecked l = \<lparr>b_initialized = True, b_limits = l, b_usage = zero_usage\<rparr>"

definition NewBudget :: "engine_limits \<Rightarrow> engine_error + budget" where
  "NewBudget l = (case normalize_limits l of Inl e \<Rightarrow> Inl e | Inr l \<Rightarrow> Inr (new_budget_unchecked l))"

definition initialize_locked :: "budget \<Rightarrow> budget" where
  "initialize_locked b =
    (if b_initialized b then b
     else b\<lparr>b_limits := default_engine_limits, b_initialized := True\<rparr>)"

definition budget_limits :: "engine_limits budgeted" where
  "budget_limits = seq (modify initialize_locked) (gets b_limits)"

definition budget_usage :: "usage budgeted" where
  "budget_usage = seq (modify initialize_locked) (gets b_usage)"

definition take_node :: "int \<Rightarrow> unit budgeted" where
  "take_node byte_count =
     seq (modify initialize_locked)
     (bind get_state (\<lambda>b.
       let u = b_usage b; l = b_limits b in
       seq (fail_if (u_Nodes u \<ge> EMaxNodes l) (LimitError ResourceNodes (EMaxNodes l) (u_Nodes u) 1))
       (seq (fail_if (byte_count < 0 \<or> byte_count > MaxBytes l - u_Bytes u)
              (LimitError ResourceBytes (MaxBytes l) (u_Bytes u) byte_count))
       (modify (\<lambda>b. b\<lparr>b_usage := u\<lparr>u_Nodes := u_Nodes u + 1, u_Bytes := u_Bytes u + byte_count\<rparr>\<rparr>)))))"

definition remaining_findings :: "int budgeted" where
  "remaining_findings =
     seq (modify initialize_locked)
     (gets (\<lambda>b. MaxFindings (b_limits b) - u_Findings (b_usage b)))"

definition take_findings :: "int \<Rightarrow> unit budgeted" where
  "take_findings wanted =
     seq (modify initialize_locked)
     (bind get_state (\<lambda>b.
       let u = b_usage b; l = b_limits b in
       seq (fail_if (wanted < 0 \<or> wanted > MaxFindings l - u_Findings u)
              (LimitError ResourceFindings (MaxFindings l) (u_Findings u) wanted))
       (modify (\<lambda>b. b\<lparr>b_usage := u\<lparr>u_Findings := u_Findings u + wanted\<rparr>\<rparr>))))"

section \<open>The invariant\<close>

definition limits_positive :: "engine_limits \<Rightarrow> bool" where
  "limits_positive l \<longleftrightarrow> 0 < MaxBytes l \<and> 0 < MaxFindings l \<and> 0 < EMaxNodes l"

definition usage_within :: "engine_limits \<Rightarrow> usage \<Rightarrow> bool" where
  "usage_within l u \<longleftrightarrow>
     0 \<le> u_Bytes u \<and> u_Bytes u \<le> MaxBytes l \<and> 0 \<le> u_Findings u \<and> u_Findings u \<le> MaxFindings l \<and>
     0 \<le> u_Nodes u \<and> u_Nodes u \<le> EMaxNodes l"

definition budget_ok :: "budget \<Rightarrow> bool" where
  "budget_ok b \<longleftrightarrow>
     (if b_initialized b then limits_positive (b_limits b) \<and> usage_within (b_limits b) (b_usage b)
      else b_usage b = zero_usage)"

lemma default_limits_positive [simp]: "limits_positive default_engine_limits"
  by (simp add: limits_positive_def default_engine_limits_def)

lemma normalize_limits_positive: "normalize_limits l = Inr l' \<Longrightarrow> limits_positive l'"
  by (auto simp: normalize_limits_def limits_positive_def default_engine_limits_def Let_def split: if_splits)

lemma zero_usage_within [simp]: "limits_positive l \<Longrightarrow> usage_within l zero_usage"
  by (simp add: limits_positive_def usage_within_def zero_usage_def)

lemma new_budget_ok: "NewBudget l = Inr b \<Longrightarrow> budget_ok b"
  by (auto simp: NewBudget_def new_budget_unchecked_def budget_ok_def normalize_limits_positive
      split: sum.splits)

lemma zero_budget_ok: "budget_ok zero_budget"
  by (simp add: budget_ok_def zero_budget_def)

lemma initialize_ok: "budget_ok b \<Longrightarrow> budget_ok (initialize_locked b) \<and> b_initialized (initialize_locked b)"
  by (auto simp: initialize_locked_def budget_ok_def)

lemma initialize_id [simp]: "b_initialized b \<Longrightarrow> initialize_locked b = b"
  by (simp add: initialize_locked_def)

lemma initialize_idem [simp]: "initialize_locked (initialize_locked b) = initialize_locked b"
  by (simp add: initialize_locked_def)

lemma take_node_cases:
  assumes "take_node n b = (r, b')"
  obtains (node) "r = Inr ()" "b' = (initialize_locked b)\<lparr>b_usage :=
      (b_usage b)\<lparr>u_Nodes := u_Nodes (b_usage b) + 1, u_Bytes := u_Bytes (b_usage b) + n\<rparr>\<rparr>"
      "u_Nodes (b_usage b) < EMaxNodes (b_limits b')" "0 \<le> n"
      "n \<le> MaxBytes (b_limits b') - u_Bytes (b_usage b)"
  | (refused) lim used req res where "r = Inl (LimitError res lim used req)" "b' = initialize_locked b"
proof -
  have u: "b_usage (initialize_locked b) = b_usage b" by (simp add: initialize_locked_def)
  show thesis
  proof (cases r)
    case (Inl e)
    then show thesis using assms refused
      by (auto simp: take_node_def bind_Inl_iff bind_Inr_iff Let_def)
  next
    case (Inr x)
    then show thesis using assms node u
      by (auto simp: take_node_def bind_Inr_iff Let_def not_le not_less)
  qed
qed

lemma take_findings_cases:
  assumes "take_findings n b = (r, b')"
  obtains (taken) "r = Inr ()" "b' = (initialize_locked b)\<lparr>b_usage :=
      (b_usage b)\<lparr>u_Findings := u_Findings (b_usage b) + n\<rparr>\<rparr>" "0 \<le> n"
      "n \<le> MaxFindings (b_limits b') - u_Findings (b_usage b)"
  | (refused) lim used req res where "r = Inl (LimitError res lim used req)" "b' = initialize_locked b"
proof -
  have u: "b_usage (initialize_locked b) = b_usage b" by (simp add: initialize_locked_def)
  show thesis
  proof (cases r)
    case (Inl e)
    then show thesis using assms refused
      by (auto simp: take_findings_def bind_Inl_iff bind_Inr_iff Let_def)
  next
    case (Inr x)
    then show thesis using assms taken u
      by (auto simp: take_findings_def bind_Inr_iff Let_def not_less)
  qed
qed

lemma take_node_ok: "budget_ok b \<Longrightarrow> take_node n b = (r, b') \<Longrightarrow> budget_ok b'"
proof (erule take_node_cases)
  assume ok: "budget_ok b" and b': "b' = (initialize_locked b)\<lparr>b_usage :=
      (b_usage b)\<lparr>u_Nodes := u_Nodes (b_usage b) + 1, u_Bytes := u_Bytes (b_usage b) + n\<rparr>\<rparr>"
    and lim: "u_Nodes (b_usage b) < EMaxNodes (b_limits b')" "0 \<le> n"
      "n \<le> MaxBytes (b_limits b') - u_Bytes (b_usage b)"
  show "budget_ok b'"
    using initialize_ok [OF ok] ok lim unfolding b'
    by (auto simp: budget_ok_def usage_within_def initialize_locked_def zero_usage_def split: if_splits)
qed (auto dest: initialize_ok)

lemma take_findings_ok: "budget_ok b \<Longrightarrow> take_findings n b = (r, b') \<Longrightarrow> budget_ok b'"
proof (erule take_findings_cases)
  assume ok: "budget_ok b" and b': "b' = (initialize_locked b)\<lparr>b_usage :=
      (b_usage b)\<lparr>u_Findings := u_Findings (b_usage b) + n\<rparr>\<rparr>"
    and lim: "0 \<le> n" "n \<le> MaxFindings (b_limits b') - u_Findings (b_usage b)"
  show "budget_ok b'"
    using initialize_ok [OF ok] ok lim unfolding b'
    by (auto simp: budget_ok_def usage_within_def initialize_locked_def zero_usage_def split: if_splits)
qed (auto dest: initialize_ok)

section \<open>Interleaved use\<close>

text \<open>One call of a method, by any of the scans that share the budget.\<close>

inductive budget_step :: "budget \<Rightarrow> budget \<Rightarrow> bool" where
  step_limits: "budget_limits b = (r, b') \<Longrightarrow> budget_step b b'"
| step_usage: "budget_usage b = (r', b') \<Longrightarrow> budget_step b b'"
| step_node: "take_node n b = (r'', b') \<Longrightarrow> budget_step b b'"
| step_remaining: "remaining_findings b = (r''', b') \<Longrightarrow> budget_step b b'"
| step_findings: "take_findings n b = (r'', b') \<Longrightarrow> budget_step b b'"

abbreviation budget_run :: "budget \<Rightarrow> budget \<Rightarrow> bool" where
  "budget_run \<equiv> budget_step\<^sup>*\<^sup>*"

inductive_cases budget_stepE: "budget_step b b'"

lemma budget_step_ok: "budget_step b b' \<Longrightarrow> budget_ok b \<Longrightarrow> budget_ok b'"
  by (erule budget_stepE)
    (auto simp: budget_limits_def budget_usage_def remaining_findings_def bind_def modify_def gets_def
      dest: initialize_ok intro: take_node_ok take_findings_ok)

lemma budget_run_ok: "budget_run b b' \<Longrightarrow> budget_ok b \<Longrightarrow> budget_ok b'"
  by (induction rule: rtranclp_induct) (auto dest: budget_step_ok)

definition usage_le :: "usage \<Rightarrow> usage \<Rightarrow> bool" where
  "usage_le u v \<longleftrightarrow> u_Bytes u \<le> u_Bytes v \<and> u_Findings u \<le> u_Findings v \<and> u_Nodes u \<le> u_Nodes v"

lemma budget_step_grows:
  "budget_step b b' \<Longrightarrow> usage_le (b_usage b) (b_usage b') \<and>
     (b_initialized b \<longrightarrow> b_initialized b' \<and> b_limits b' = b_limits b)"
  by (erule budget_stepE)
    (auto simp: budget_limits_def budget_usage_def remaining_findings_def bind_def modify_def gets_def
      usage_le_def initialize_locked_def elim!: take_node_cases take_findings_cases split: if_splits)

lemma budget_run_grows:
  "budget_run b b' \<Longrightarrow> usage_le (b_usage b) (b_usage b') \<and>
     (b_initialized b \<longrightarrow> b_initialized b' \<and> b_limits b' = b_limits b)"
proof (induction rule: rtranclp_induct)
  case base
  then show ?case by (simp add: usage_le_def)
next
  case (step y z)
  with budget_step_grows [OF step(2)] show ?case by (auto simp: usage_le_def)
qed

section \<open>Properties\<close>

text \<open>
  C23: Whatever the scans of a request do with their shared budget, and in whatever order their
  calls interleave, the usage never exceeds the limits, the limits never change, and no usage is
  ever given back.
\<close>

theorem budget_never_exceeded:
  "NewBudget l = Inr b \<Longrightarrow> budget_run b b' \<Longrightarrow>
   b_limits b' = b_limits b \<and> usage_within (b_limits b) (b_usage b') \<and> usage_le (b_usage b) (b_usage b')"
proof -
  assume b: "NewBudget l = Inr b" and run: "budget_run b b'"
  have "b_initialized b" using b by (auto simp: NewBudget_def new_budget_unchecked_def split: sum.splits)
  with budget_run_grows [OF run] budget_run_ok [OF run new_budget_ok [OF b]]
  show "b_limits b' = b_limits b \<and> usage_within (b_limits b) (b_usage b') \<and> usage_le (b_usage b) (b_usage b')"
    by (simp add: budget_ok_def)
qed

theorem budget_never_exceeded_witness:
  "usage_within default_engine_limits \<lparr>u_Bytes = 5, u_Findings = 2, u_Nodes = 1\<rparr>"
proof -
  let ?b = "new_budget_unchecked default_engine_limits"
  let ?b1 = "?b\<lparr>b_usage := \<lparr>u_Bytes = 5, u_Findings = 0, u_Nodes = 1\<rparr>\<rparr>"
  let ?b2 = "?b\<lparr>b_usage := \<lparr>u_Bytes = 5, u_Findings = 2, u_Nodes = 1\<rparr>\<rparr>"
  have new: "NewBudget \<lparr>MaxBytes = 0, MaxFindings = 0, EMaxNodes = 0\<rparr> = Inr ?b" by code_simp
  have "take_node 5 ?b = (Inr (), ?b1)" "take_findings 2 ?b1 = (Inr (), ?b2)" by code_simp+
  then have "budget_run ?b ?b2"
    by (meson converse_rtranclp_into_rtranclp rtranclp.rtrancl_refl step_node step_findings)
  from budget_never_exceeded [OF new this] show ?thesis by (simp add: new_budget_unchecked_def)
qed

text \<open>
  A refused call takes nothing: \<open>takeNode\<close> and \<open>takeFindings\<close> either succeed and add exactly
  what was asked for, or fail with a budget error and leave the usage as it was.
\<close>

theorem budget_refusal_takes_nothing:
  "(case take_node n b of
      (Inr _, b') \<Rightarrow> b_usage b' = (b_usage b)\<lparr>u_Nodes := u_Nodes (b_usage b) + 1, u_Bytes := u_Bytes (b_usage b) + n\<rparr>
    | (Inl e, b') \<Rightarrow> is_budget_exceeded e \<and> b_usage b' = b_usage b) \<and>
   (case take_findings k b of
      (Inr _, b') \<Rightarrow> b_usage b' = (b_usage b)\<lparr>u_Findings := u_Findings (b_usage b) + k\<rparr>
    | (Inl e, b') \<Rightarrow> is_budget_exceeded e \<and> b_usage b' = b_usage b)"
  (is "?node \<and> ?findings")
proof
  obtain r b' where n: "take_node n b = (r, b')" by fastforce
  then show ?node
    by (rule take_node_cases) (auto simp: n initialize_locked_def)
  obtain r b' where f: "take_findings k b = (r, b')" by fastforce
  then show ?findings
    by (rule take_findings_cases) (auto simp: f initialize_locked_def)
qed

end
