(* ===== verification/Spans.thy ===== *)
theory Spans
  imports Budget
begin

text \<open>
  The findings of the engine and \<open>spanCollector\<close> (\<open>internal/privacyengine/types.go\<close> and
  \<open>engine.go\<close>), which unions overlapping candidate spans as the detectors report them.

  The specification is the set of covered byte positions: adding a candidate adds exactly its
  positions, and the spans stay sorted, disjoint, inside the text and within the maximum.
\<close>

section \<open>Findings\<close>

text \<open>A Go \<open>Kind\<close> is a string.\<close>

type_synonym finding_kind = string

definition KindEmail :: finding_kind where "KindEmail = ''email''"
definition KindPhone :: finding_kind where "KindPhone = ''phone''"
definition KindIDCard :: finding_kind where "KindIDCard = ''id_card''"
definition KindBankCard :: finding_kind where "KindBankCard = ''bank_card''"
definition KindIP :: finding_kind where "KindIP = ''ip''"
definition KindSecret :: finding_kind where "KindSecret = ''secret''"

record finding =
  f_Kind :: finding_kind
  f_RuleID :: string
  f_Start :: int
  f_End :: int

record fspan =
  sp_start :: int
  sp_end :: int
  sp_kind :: finding_kind
  sp_rule :: string

section \<open>The collector\<close>

record span_collector =
  c_text_len :: int
  c_max :: int
  c_preferred :: "string set"
  c_spans :: "fspan list"

definition new_span_collector :: "int \<Rightarrow> int \<Rightarrow> string set \<Rightarrow> span_collector" where
  "new_span_collector text_len max_findings preferred =
     \<lparr>c_text_len = text_len, c_max = (if max_findings < 0 then 0 else max_findings),
      c_preferred = preferred, c_spans = []\<rparr>"

definition is_preferred :: "span_collector \<Rightarrow> string \<Rightarrow> bool" where
  "is_preferred c rule = (rule \<in> c_preferred c)"

text \<open>\<open>sort.Search\<close>: the loop of the standard library.\<close>

function search :: "(nat \<Rightarrow> bool) \<Rightarrow> nat \<Rightarrow> nat \<Rightarrow> nat" where
  "search f i j =
    (if i < j then
       let h = (i + j) div 2 in if \<not> f h then search f (h + 1) j else search f i h
     else i)"
  by pat_completeness auto
termination
  by (relation "measure (\<lambda>(f, i, j). j - i)") auto

declare search.simps [simp del]

text \<open>
  The loop of \<open>add\<close>: \<open>i\<close> is where it started, \<open>j\<close> the next existing span. \<open>merge_step\<close> is its body
  up to \<open>j++\<close>.
\<close>

definition merge_step ::
  "span_collector \<Rightarrow> nat \<Rightarrow> nat \<Rightarrow> bool \<Rightarrow> fspan \<Rightarrow> bool \<times> fspan" where
  "merge_step c i j metadata_preferred merged =
    (let existing = c_spans c ! j;
         existing_preferred = is_preferred c (sp_rule existing);
         inherit = (j = i \<and> \<not> metadata_preferred) \<or> (\<not> metadata_preferred \<and> existing_preferred);
         m1 = (if inherit then merged\<lparr>sp_kind := sp_kind existing, sp_rule := sp_rule existing\<rparr> else merged);
         pref = (if inherit then existing_preferred else metadata_preferred);
         m2 = (if sp_start existing < sp_start m1 then m1\<lparr>sp_start := sp_start existing\<rparr> else m1);
         m3 = (if sp_end existing > sp_end m2 then m2\<lparr>sp_end := sp_end existing\<rparr> else m2)
     in (pref, m3))"

function merge_loop ::
  "span_collector \<Rightarrow> nat \<Rightarrow> nat \<Rightarrow> bool \<Rightarrow> fspan \<Rightarrow> nat \<times> fspan" where
  "merge_loop c i j metadata_preferred merged =
    (if j < length (c_spans c) \<and> sp_start (c_spans c ! j) < sp_end merged then
       case merge_step c i j metadata_preferred merged of (pref, m) \<Rightarrow> merge_loop c i (j + 1) pref m
     else (j, merged))"
  by pat_completeness auto
termination
  by (relation "measure (\<lambda>(c, i, j, p, m). length (c_spans c) - j)") auto

declare merge_loop.simps [simp del]

definition span_add :: "fspan \<Rightarrow> (engine_error, span_collector, unit) M" where
  "span_add candidate = bind get_state (\<lambda>c.
     if sp_start candidate < 0 \<or> sp_start candidate \<ge> sp_end candidate \<or> sp_end candidate > c_text_len c
     then ret ()
     else
       let i = search (\<lambda>i. sp_end (c_spans c ! i) > sp_start candidate) 0 (length (c_spans c));
           (j, merged) = merge_loop c i i (is_preferred c (sp_rule candidate)) candidate;
           new_count = int (length (c_spans c)) + 1 - (int j - int i)
       in seq (fail_if (new_count > c_max c)
                (LimitError ResourceFindings (c_max c) (int (length (c_spans c))) 1))
          (modify (\<lambda>c. c\<lparr>c_spans := take i (c_spans c) @ merged # drop j (c_spans c)\<rparr>)))"

definition findings :: "span_collector \<Rightarrow> finding list" where
  "findings c = map (\<lambda>s. \<lparr>f_Kind = sp_kind s, f_RuleID = sp_rule s,
     f_Start = sp_start s, f_End = sp_end s\<rparr>) (c_spans c)"

section \<open>Well-formed collectors\<close>

definition span_in :: "int \<Rightarrow> fspan \<Rightarrow> bool" where
  "span_in len s \<longleftrightarrow> 0 \<le> sp_start s \<and> sp_start s < sp_end s \<and> sp_end s \<le> len"

definition spans_ok :: "int \<Rightarrow> fspan list \<Rightarrow> bool" where
  "spans_ok len xs \<longleftrightarrow> (\<forall>s \<in> set xs. span_in len s) \<and> sorted_wrt (\<lambda>s t. sp_end s \<le> sp_start t) xs"

definition collector_ok :: "span_collector \<Rightarrow> bool" where
  "collector_ok c \<longleftrightarrow> spans_ok (c_text_len c) (c_spans c) \<and> int (length (c_spans c)) \<le> c_max c"

definition positions :: "fspan \<Rightarrow> int set" where
  "positions s = {sp_start s ..< sp_end s}"

definition covered :: "fspan list \<Rightarrow> int set" where
  "covered xs = (\<Union>s \<in> set xs. positions s)"

lemma covered_simps [simp]:
  "covered [] = {}" "covered (s # xs) = positions s \<union> covered xs"
  "covered (xs @ ys) = covered xs \<union> covered ys"
  by (auto simp: covered_def)

lemma new_span_collector_ok: "0 \<le> len \<Longrightarrow> collector_ok (new_span_collector len m p)"
  by (simp add: collector_ok_def new_span_collector_def spans_ok_def)

section \<open>Search\<close>

text \<open>On a predicate that stays true once it is, the search finds the first index where it is.\<close>

lemma search_first:
  assumes mono: "\<And>a b. a \<le> b \<Longrightarrow> b < n \<Longrightarrow> f a \<Longrightarrow> f b"
    and "i \<le> j" "j \<le> n" "\<forall>k < i. \<not> f k" "\<forall>k. j \<le> k \<and> k < n \<longrightarrow> f k"
  shows "search f i j \<le> n \<and> (\<forall>k < search f i j. \<not> f k) \<and> (\<forall>k. search f i j \<le> k \<and> k < n \<longrightarrow> f k)"
  using assms(2-)
proof (induction "j - i" arbitrary: i j rule: less_induct)
  case less
  show ?case
  proof (cases "i < j")
    case False
    with less.prems have "i = j" by simp
    then show ?thesis using less.prems by (subst (1 2 3) search.simps) simp
  next
    case True
    let ?h = "(i + j) div 2"
    have h: "i \<le> ?h" "?h < j" "?h < n" using True less.prems by auto
    show ?thesis
    proof (cases "f ?h")
      case True
      have "\<forall>k. ?h \<le> k \<and> k < n \<longrightarrow> f k" using mono True by blast
      with less.hyps [of ?h i] less.prems h True \<open>i < j\<close> show ?thesis
        by (simp add: search.simps [of f i j] Let_def)
    next
      case False
      have "\<forall>k < ?h + 1. \<not> f k" using mono False h by (metis less_Suc_eq_le Suc_eq_plus1)
      with less.hyps [of j "?h + 1"] less.prems h False \<open>i < j\<close> show ?thesis
        by (simp add: search.simps [of f i j] Let_def)
    qed
  qed
qed

lemma sorted_nth:
  assumes "spans_ok len xs" "a < b" "b < length xs"
  shows "sp_end (xs ! a) \<le> sp_start (xs ! b)"
  using assms sorted_wrt_nth_less by (fastforce simp: spans_ok_def)

lemma span_nth: "spans_ok len xs \<Longrightarrow> a < length xs \<Longrightarrow> span_in len (xs ! a)"
  by (simp add: spans_ok_def)

lemma search_end:
  fixes p :: int
  assumes "spans_ok len xs"
  defines "i \<equiv> search (\<lambda>i. sp_end (xs ! i) > p) 0 (length xs)"
  shows "i \<le> length xs" "\<forall>k < i. sp_end (xs ! k) \<le> p" "\<forall>k. i \<le> k \<and> k < length xs \<longrightarrow> p < sp_end (xs ! k)"
proof -
  have "p < sp_end (xs ! b)" if "a \<le> b" "b < length xs" "p < sp_end (xs ! a)" for a b
    using sorted_nth [OF assms(1), of a b] span_nth [OF assms(1), of b] that
    by (cases "a = b") (auto simp: span_in_def)
  from search_first [of "length xs" "\<lambda>i. sp_end (xs ! i) > p" 0 "length xs", OF this]
  show "i \<le> length xs" "\<forall>k < i. sp_end (xs ! k) \<le> p" "\<forall>k. i \<le> k \<and> k < length xs \<longrightarrow> p < sp_end (xs ! k)"
    unfolding i_def by (auto simp: not_less)
qed

section \<open>The merge\<close>

text \<open>
  What holds of the merged span before each round: it covers the candidate and the spans
  consumed so far, lies right of the spans before \<open>i\<close>, and carries preferred metadata as soon as
  one of its parts has it.
\<close>

definition merging :: "span_collector \<Rightarrow> fspan \<Rightarrow> nat \<Rightarrow> nat \<Rightarrow> bool \<Rightarrow> fspan \<Rightarrow> bool" where
  "merging c x i j pref m \<longleftrightarrow>
     i \<le> j \<and> j \<le> length (c_spans c) \<and> span_in (c_text_len c) m \<and>
     (\<forall>k < i. sp_end (c_spans c ! k) \<le> sp_start m) \<and>
     (\<forall>k. j \<le> k \<and> k < length (c_spans c) \<longrightarrow> sp_start m < sp_end (c_spans c ! k)) \<and>
     positions m = positions x \<union> covered (slice (c_spans c) i j) \<and>
     pref = is_preferred c (sp_rule m) \<and>
     (pref \<longleftrightarrow> is_preferred c (sp_rule x) \<or> (\<exists>s \<in> set (slice (c_spans c) i j). is_preferred c (sp_rule s))) \<and>
     (sp_kind m, sp_rule m) \<in> (\<lambda>s. (sp_kind s, sp_rule s)) ` set (x # slice (c_spans c) i j)"

lemma slice_Suc_snoc: "i \<le> j \<Longrightarrow> j < length xs \<Longrightarrow> slice xs i (Suc j) = slice xs i j @ [xs ! j]"
  using slice_append [of i j "Suc j" xs] by (simp add: slice_Cons)

lemma positions_union:
  "sp_start a < sp_end b \<Longrightarrow> sp_start b < sp_end a \<Longrightarrow>
   positions a \<union> positions b = {min (sp_start a) (sp_start b) ..< max (sp_end a) (sp_end b)}"
  by (auto simp: positions_def)

lemma merging_step:
  assumes ok: "spans_ok (c_text_len c) (c_spans c)" and m: "merging c x i j pref m"
    and j: "j < length (c_spans c)" "sp_start (c_spans c ! j) < sp_end m"
    and step: "merge_step c i j pref m = (pref', m')"
  shows "merging c x i (j + 1) pref' m'"
proof -
  let ?xs = "c_spans c"
  define e where "e = ?xs ! j"
  define inherit where "inherit \<longleftrightarrow> (j = i \<and> \<not> pref) \<or> (\<not> pref \<and> is_preferred c (sp_rule e))"
  have m': "sp_start m' = min (sp_start m) (sp_start e)" "sp_end m' = max (sp_end m) (sp_end e)"
    "sp_kind m' = (if inherit then sp_kind e else sp_kind m)"
    "sp_rule m' = (if inherit then sp_rule e else sp_rule m)"
    "pref' = (if inherit then is_preferred c (sp_rule e) else pref)"
    using step unfolding merge_step_def Let_def e_def [symmetric] inherit_def [symmetric] by auto
  have e: "span_in (c_text_len c) e" using span_nth [OF ok j(1)] by (simp add: e_def)
  have lt: "sp_start m < sp_end e" using m j(1) by (simp add: merging_def e_def)
  have sl: "slice ?xs i (Suc j) = slice ?xs i j @ [e]"
    using m j(1) by (simp add: merging_def slice_Suc_snoc e_def)
  have "positions m' = positions m \<union> positions e"
    using lt j(2) m' by (subst positions_union) (auto simp: positions_def e_def)
  then have pos: "positions m' = positions x \<union> covered (slice ?xs i (Suc j))"
    using m by (auto simp: merging_def sl)
  have left: "sp_end (?xs ! a) \<le> sp_start m'" if "a < i" for a
  proof -
    have "sp_end (?xs ! a) \<le> sp_start m" using m that by (simp add: merging_def)
    moreover have "sp_end (?xs ! a) \<le> sp_start e"
      using sorted_nth [OF ok, of a j] m j(1) that by (simp add: merging_def e_def)
    ultimately show ?thesis using m' by simp
  qed
  have right: "sp_start m' < sp_end (?xs ! a)" if "j + 1 \<le> a" "a < length ?xs" for a
  proof -
    have "sp_start m < sp_end (?xs ! a)" using m that by (simp add: merging_def)
    then show ?thesis using m'(1) by simp
  qed
  have "span_in (c_text_len c) m'" using e m m' by (auto simp: merging_def span_in_def)
  moreover have "pref' = is_preferred c (sp_rule m')"
    using m m' by (auto simp: merging_def)
  moreover have "pref' \<longleftrightarrow>
      is_preferred c (sp_rule x) \<or> (\<exists>s \<in> set (slice ?xs i (Suc j)). is_preferred c (sp_rule s))"
    using m m' by (auto simp: merging_def sl inherit_def)
  moreover have "(sp_kind m', sp_rule m') \<in> (\<lambda>s. (sp_kind s, sp_rule s)) ` set (x # slice ?xs i (Suc j))"
    using m m' by (auto simp: merging_def sl)
  ultimately show ?thesis using pos left right m j(1) by (simp add: merging_def)
qed

lemma merge_loop_result:
  assumes "spans_ok (c_text_len c) (c_spans c)" "merging c x i j pref m"
    and "merge_loop c i j pref m = (j', m')"
  shows "\<exists>p. merging c x i j' p m' \<and>
    (j' < length (c_spans c) \<longrightarrow> sp_end m' \<le> sp_start (c_spans c ! j'))"
  using assms(2,3)
proof (induction "length (c_spans c) - j" arbitrary: j pref m rule: less_induct)
  case less
  show ?case
  proof (cases "j < length (c_spans c) \<and> sp_start (c_spans c ! j) < sp_end m")
    case False
    with less.prems have "j' = j" "m' = m" by (auto simp: merge_loop.simps [of c i j])
    with less.prems(1) False show ?thesis by (auto simp: not_less)
  next
    case True
    obtain pref2 m2 where step: "merge_step c i j pref m = (pref2, m2)" by fastforce
    with less.prems(2) True have "merge_loop c i (j + 1) pref2 m2 = (j', m')"
      by (simp add: merge_loop.simps [of c i j])
    moreover have "merging c x i (j + 1) pref2 m2"
      using merging_step [OF assms(1) less.prems(1) _ _ step] True by simp
    moreover have "length (c_spans c) - (j + 1) < length (c_spans c) - j" using conjunct1 [OF True] by linarith
    ultimately show ?thesis using less.hyps by blast
  qed
qed

section \<open>Adding a span\<close>

definition span_valid :: "span_collector \<Rightarrow> fspan \<Rightarrow> bool" where
  "span_valid c x \<longleftrightarrow> span_in (c_text_len c) x"

text \<open>The positions inside spans with preferred metadata.\<close>

definition preferred_covered :: "span_collector \<Rightarrow> fspan list \<Rightarrow> int set" where
  "preferred_covered c xs = covered (filter (\<lambda>s. is_preferred c (sp_rule s)) xs)"

text \<open>The outcome of adding a valid candidate, before the limit is checked.\<close>

lemma merged_list:
  assumes ok: "spans_ok (c_text_len c) (c_spans c)" and x: "span_in (c_text_len c) x"
  defines "i \<equiv> search (\<lambda>i. sp_end (c_spans c ! i) > sp_start x) 0 (length (c_spans c))"
  assumes loop: "merge_loop c i i (is_preferred c (sp_rule x)) x = (j, m)"
  shows "i \<le> j \<and> j \<le> length (c_spans c)" "spans_ok (c_text_len c) (take i (c_spans c) @ m # drop j (c_spans c))"
    "covered (take i (c_spans c) @ m # drop j (c_spans c)) = covered (c_spans c) \<union> positions x"
    "is_preferred c (sp_rule m) \<longleftrightarrow>
       is_preferred c (sp_rule x) \<or> (\<exists>s \<in> set (slice (c_spans c) i j). is_preferred c (sp_rule s))"
    "(sp_kind m, sp_rule m) \<in> (\<lambda>s. (sp_kind s, sp_rule s)) ` set (x # c_spans c)"
    "preferred_covered c (x # c_spans c) \<subseteq> preferred_covered c (take i (c_spans c) @ m # drop j (c_spans c))"
proof -
  let ?xs = "c_spans c"
  note i = search_end [OF ok, of "sp_start x", folded i_def]
  have start: "merging c x i i (is_preferred c (sp_rule x)) x"
    using i x by (simp add: merging_def)
  from merge_loop_result [OF ok start loop] obtain p where m: "merging c x i j p m"
    and stop: "j < length ?xs \<longrightarrow> sp_end m \<le> sp_start (?xs ! j)" by blast
  show ij: "i \<le> j \<and> j \<le> length ?xs" using m by (simp add: merging_def)
  have split: "?xs = take i ?xs @ slice ?xs i j @ drop j ?xs"
    using ij slice_append [of i j "length ?xs" ?xs] by (simp add: slice_to_end)
  show "covered (take i ?xs @ m # drop j ?xs) = covered ?xs \<union> positions x"
    using m by (subst (3) split) (auto simp: merging_def)
  have pre: "\<forall>s \<in> set (take i ?xs). sp_end s \<le> sp_start m"
    using m ij by (auto simp: merging_def in_set_conv_nth)
  have post: "\<forall>s \<in> set (drop j ?xs). sp_end m \<le> sp_start s"
  proof
    fix s assume "s \<in> set (drop j ?xs)"
    then obtain k where k: "k < length ?xs - j" "s = ?xs ! (j + k)" by (auto simp: in_set_conv_nth)
    then have j: "j < length ?xs" by simp
    then have "sp_end m \<le> sp_start (?xs ! j)" using stop by simp
    also have "\<dots> \<le> sp_start s"
    proof (cases "k = 0")
      case False
      then have "sp_end (?xs ! j) \<le> sp_start s" using sorted_nth [OF ok, of j "j + k"] k by simp
      then show ?thesis using span_nth [OF ok j] by (simp add: span_in_def)
    qed (simp add: k(2))
    finally show "sp_end m \<le> sp_start s" .
  qed
  have "sorted_wrt (\<lambda>s t. sp_end s \<le> sp_start t) (take i ?xs @ slice ?xs i j @ drop j ?xs)"
    using ok split by (simp add: spans_ok_def)
  then have "sorted_wrt (\<lambda>s t. sp_end s \<le> sp_start t) (take i ?xs @ m # drop j ?xs)"
    using pre post by (auto simp: sorted_wrt_append)
  moreover have "span_in (c_text_len c) m" using m by (simp add: merging_def)
  ultimately show "spans_ok (c_text_len c) (take i ?xs @ m # drop j ?xs)"
    using ok by (auto simp: spans_ok_def dest: in_set_takeD in_set_dropD)
  show "is_preferred c (sp_rule m) \<longleftrightarrow>
       is_preferred c (sp_rule x) \<or> (\<exists>s \<in> set (slice ?xs i j). is_preferred c (sp_rule s))"
    using m unfolding merging_def by metis
  have "set (slice ?xs i j) \<subseteq> set ?xs" by (auto simp: slice_def dest: in_set_takeD in_set_dropD)
  then show "(sp_kind m, sp_rule m) \<in> (\<lambda>s. (sp_kind s, sp_rule s)) ` set (x # ?xs)"
    using m by (auto simp: merging_def)
  have pm: "is_preferred c (sp_rule m)"
    if "is_preferred c (sp_rule s)" "s = x \<or> s \<in> set (slice ?xs i j)" for s
    using m that unfolding merging_def by metis
  have sub: "positions s \<subseteq> positions m" if "s = x \<or> s \<in> set (slice ?xs i j)" for s
    using m that by (auto simp: merging_def covered_def)
  have "set ?xs = set (take i ?xs) \<union> set (slice ?xs i j) \<union> set (drop j ?xs)"
    using arg_cong [OF split, of set] by auto
  then show "preferred_covered c (x # ?xs) \<subseteq> preferred_covered c (take i ?xs @ m # drop j ?xs)"
    using pm sub unfolding preferred_covered_def covered_def by (auto split: if_splits)
qed

lemma span_add_cases:
  assumes "span_add x c = (r, c')" "collector_ok c"
  obtains (ignored) "\<not> span_in (c_text_len c) x" "r = Inr ()" "c' = c"
  | (refused) "span_in (c_text_len c) x"
      "r = Inl (LimitError ResourceFindings (c_max c) (int (length (c_spans c))) 1)" "c' = c"
  | (added) "span_in (c_text_len c) x" "r = Inr ()" "collector_ok c'"
      "c_text_len c' = c_text_len c" "c_max c' = c_max c" "c_preferred c' = c_preferred c"
      "covered (c_spans c') = covered (c_spans c) \<union> positions x"
      "preferred_covered c (x # c_spans c) \<subseteq> preferred_covered c (c_spans c')"
proof (cases "span_in (c_text_len c) x")
  case False
  then have "sp_start x < 0 \<or> sp_start x \<ge> sp_end x \<or> sp_end x > c_text_len c" by (auto simp: span_in_def)
  with assms(1) have "r = Inr ()" "c' = c" by (auto simp: span_add_def bind_def get_state_def ret_def)
  with False ignored show thesis by blast
next
  case True
  let ?i = "search (\<lambda>i. sp_end (c_spans c ! i) > sp_start x) 0 (length (c_spans c))"
  obtain j m where loop: "merge_loop c ?i ?i (is_preferred c (sp_rule x)) x = (j, m)" by fastforce
  have ok: "spans_ok (c_text_len c) (c_spans c)" using assms(2) by (simp add: collector_ok_def)
  note l = merged_list [OF ok True loop]
  let ?c' = "c\<lparr>c_spans := take ?i (c_spans c) @ m # drop j (c_spans c)\<rparr>"
  have eq: "span_add x c =
    (if int (length (c_spans c)) + 1 - (int j - int ?i) > c_max c
     then (Inl (LimitError ResourceFindings (c_max c) (int (length (c_spans c))) 1), c)
     else (Inr (), ?c'))"
    using True loop by (auto simp: span_add_def bind_def get_state_def fail_if_def fail_def ret_def
        modify_def Let_def span_in_def)
  show thesis
  proof (cases "int (length (c_spans c)) + 1 - (int j - int ?i) > c_max c")
    case True
    with eq assms(1) refused \<open>span_in (c_text_len c) x\<close> show thesis by simp
  next
    case False
    have "int (length (take ?i (c_spans c) @ m # drop j (c_spans c))) =
        int (length (c_spans c)) + 1 - (int j - int ?i)"
      using l(1) by (simp add: of_nat_diff)
    then have "collector_ok ?c'" using False l(2) by (simp add: collector_ok_def)
    with False eq assms(1) added \<open>span_in (c_text_len c) x\<close> l(3,6) show thesis by simp
  qed
qed

lemma findings_ok:
  assumes "spans_ok len (c_spans c)"
  shows "sorted_wrt (\<lambda>f g. f_End f \<le> f_Start g) (findings c)"
    "\<forall>f \<in> set (findings c). 0 \<le> f_Start f \<and> f_Start f < f_End f \<and> f_End f \<le> len"
    "(\<Union>f \<in> set (findings c). {f_Start f ..< f_End f}) = covered (c_spans c)"
  using assms by (auto simp: findings_def spans_ok_def sorted_wrt_map span_in_def covered_def positions_def)

section \<open>A whole scan\<close>

text \<open>The calls a scan makes are \<open>for_each xs span_add\<close> for its candidates \<open>xs\<close>.\<close>

lemma span_adds_result:
  assumes "for_each xs span_add c = (r, c')" "collector_ok c"
  shows "collector_ok c' \<and> c_text_len c' = c_text_len c \<and> c_max c' = c_max c \<and> c_preferred c' = c_preferred c \<and>
    (r = Inr () \<longrightarrow> covered (c_spans c') =
       covered (c_spans c) \<union> covered (filter (span_in (c_text_len c)) xs)) \<and>
    (r = Inr () \<longrightarrow> preferred_covered c (c_spans c @ filter (span_in (c_text_len c)) xs) \<subseteq>
       preferred_covered c (c_spans c'))"
  using assms
proof (induction xs arbitrary: c)
  case Nil
  then show ?case by (simp add: ret_def preferred_covered_def)
next
  case (Cons x xs)
  obtain r1 c1 where add: "span_add x c = (r1, c1)" by fastforce
  from add Cons.prems(2) show ?case
  proof (cases rule: span_add_cases)
    case ignored
    with add Cons show ?thesis by (auto simp: bind_def)
  next
    case refused
    with add Cons.prems show ?thesis by (auto simp: bind_def)
  next
    case added
    with add Cons.prems(1) have "for_each xs span_add c1 = (r, c')" by (simp add: bind_def)
    note IH = Cons.IH [OF this added(3)]
    have same: "preferred_covered c1 ys = preferred_covered c ys" for ys
      using added(6) by (simp add: preferred_covered_def is_preferred_def)
    have split: "preferred_covered c (ys @ zs) = preferred_covered c ys \<union> preferred_covered c zs" for ys zs
      by (simp add: preferred_covered_def)
    have "preferred_covered c (c_spans c @ x # zs) =
        preferred_covered c (x # c_spans c) \<union> preferred_covered c zs" for zs
      by (auto simp: preferred_covered_def)
    then show ?thesis using IH added by (auto simp: same split)
  qed
qed

section \<open>Properties\<close>

text \<open>
  C22: When a scan's candidates have been added, the findings are sorted, disjoint, inside the
  text, at most as many as the budget allows, and together cover exactly the bytes of the valid
  candidates: no byte a detector reported stays visible and none is redacted without a report.
\<close>

theorem findings_cover_candidates:
  "0 \<le> len \<Longrightarrow> for_each xs span_add (new_span_collector len m pref) = (Inr (), c) \<Longrightarrow>
   sorted_wrt (\<lambda>f g. f_End f \<le> f_Start g) (findings c) \<and>
   (\<forall>f \<in> set (findings c). 0 \<le> f_Start f \<and> f_Start f < f_End f \<and> f_End f \<le> len) \<and>
   int (length (findings c)) \<le> max 0 m \<and>
   (\<Union>f \<in> set (findings c). {f_Start f ..< f_End f}) = covered (filter (span_in len) xs)"
proof -
  assume len: "0 \<le> len" and run: "for_each xs span_add (new_span_collector len m pref) = (Inr (), c)"
  let ?c0 = "new_span_collector len m pref"
  have c0: "c_text_len ?c0 = len" "c_max ?c0 = max 0 m" "c_spans ?c0 = []"
    by (simp_all add: new_span_collector_def)
  from span_adds_result [OF run new_span_collector_ok [OF len]] c0
  have c: "collector_ok c" "c_text_len c = len" "c_max c = max 0 m"
    "covered (c_spans c) = covered (filter (span_in len) xs)" by simp_all
  then have "spans_ok len (c_spans c)" "int (length (findings c)) \<le> max 0 m"
    by (simp_all add: collector_ok_def findings_def)
  with findings_ok [OF this(1)] c(4)
  show "sorted_wrt (\<lambda>f g. f_End f \<le> f_Start g) (findings c) \<and>
   (\<forall>f \<in> set (findings c). 0 \<le> f_Start f \<and> f_Start f < f_End f \<and> f_End f \<le> len) \<and>
   int (length (findings c)) \<le> max 0 m \<and>
   (\<Union>f \<in> set (findings c). {f_Start f ..< f_End f}) = covered (filter (span_in len) xs)" by simp
qed

definition sample_spans :: "fspan list" where
  "sample_spans = [\<lparr>sp_start = 4, sp_end = 8, sp_kind = ''secret'', sp_rule = ''a''\<rparr>,
     \<lparr>sp_start = 0, sp_end = 2, sp_kind = ''email'', sp_rule = ''b''\<rparr>,
     \<lparr>sp_start = 1, sp_end = 5, sp_kind = ''ip'', sp_rule = ''c''\<rparr>]"

theorem findings_cover_candidates_witness:
  "covered (filter (span_in 9) sample_spans) = {0 ..< 8}"
proof -
  let ?c = "\<lparr>c_text_len = 9, c_max = 4, c_preferred = {''b''},
    c_spans = [\<lparr>sp_start = 0, sp_end = 8, sp_kind = ''email'', sp_rule = ''b''\<rparr>]\<rparr>"
  have run: "for_each sample_spans span_add (new_span_collector 9 4 {''b''}) = (Inr (), ?c)" by code_simp
  have "findings ?c = [\<lparr>f_Kind = ''email'', f_RuleID = ''b'', f_Start = 0, f_End = 8\<rparr>]"
    by (simp add: findings_def)
  with findings_cover_candidates [OF _ run] show ?thesis by simp
qed

text \<open>
  Preferred rule metadata is never lost in a union: every byte that a valid candidate with a
  preferred rule reported ends up in a finding whose rule is preferred.
\<close>

theorem preferred_metadata_survives:
  "0 \<le> len \<Longrightarrow> for_each xs span_add (new_span_collector len m pref) = (Inr (), c) \<Longrightarrow>
   x \<in> set xs \<Longrightarrow> span_in len x \<Longrightarrow> sp_rule x \<in> pref \<Longrightarrow> p \<in> positions x \<Longrightarrow>
   \<exists>f \<in> set (findings c). f_Start f \<le> p \<and> p < f_End f \<and> f_RuleID f \<in> pref"
proof -
  assume len: "0 \<le> len" and run: "for_each xs span_add (new_span_collector len m pref) = (Inr (), c)"
    and x: "x \<in> set xs" "span_in len x" "sp_rule x \<in> pref" "p \<in> positions x"
  let ?c0 = "new_span_collector len m pref"
  have c0: "c_text_len ?c0 = len" "c_preferred ?c0 = pref" "c_spans ?c0 = []"
    by (simp_all add: new_span_collector_def)
  from span_adds_result [OF run new_span_collector_ok [OF len]] c0
  have "preferred_covered ?c0 (filter (span_in len) xs) \<subseteq> preferred_covered ?c0 (c_spans c)" by simp
  moreover have "p \<in> preferred_covered ?c0 (filter (span_in len) xs)"
    using x c0 by (auto simp: preferred_covered_def covered_def is_preferred_def)
  ultimately have "p \<in> preferred_covered ?c0 (c_spans c)" by blast
  then show "\<exists>f \<in> set (findings c). f_Start f \<le> p \<and> p < f_End f \<and> f_RuleID f \<in> pref"
    by (auto simp: preferred_covered_def covered_def is_preferred_def c0 findings_def positions_def)
qed

theorem preferred_metadata_survives_witness:
  "\<exists>f \<in> {\<lparr>f_Kind = ''email'', f_RuleID = ''b'', f_Start = 0, f_End = 8\<rparr>}.
     f_Start f \<le> (1 :: int) \<and> 1 < f_End f \<and> f_RuleID f \<in> {''b''}"
proof -
  let ?c = "\<lparr>c_text_len = 9, c_max = 4, c_preferred = {''b''},
    c_spans = [\<lparr>sp_start = 0, sp_end = 8, sp_kind = ''email'', sp_rule = ''b''\<rparr>]\<rparr>"
  have run: "for_each sample_spans span_add (new_span_collector 9 4 {''b''}) = (Inr (), ?c)" by code_simp
  have f: "findings ?c = [\<lparr>f_Kind = ''email'', f_RuleID = ''b'', f_Start = 0, f_End = 8\<rparr>]"
    by (simp add: findings_def)
  have "sample_spans ! 1 \<in> set sample_spans" "span_in 9 (sample_spans ! 1)" "sp_rule (sample_spans ! 1) \<in> {''b''}"
    "1 \<in> positions (sample_spans ! 1)"
    by (simp_all add: sample_spans_def span_in_def positions_def)
  from preferred_metadata_survives [OF _ run this] show ?thesis by (simp add: f)
qed

end
