(* ===== verification/Regex.thy ===== *)
theory Regex
  imports Utf8
begin

text \<open>
  What the engine uses of Go's \<open>regexp\<close>: matching of a fixed syntax of patterns with the
  leftmost-first (Perl-like) preference, over runes decoded from the bytes. \<open>ends\<close> lists the
  ends of all matches that start at a position, in order of preference; \<open>find_submatch\<close> is
  \<open>FindStringSubmatchIndex\<close>. The patterns of the rule files are data that only the regexp
  library reads; a compiled one is a value of type \<open>regexp\<close>.

  \<open>rmatch\<close> says independently of the order and of the matcher what a pattern matches, and
  \<open>ends_exact\<close> that the matcher finds exactly that.
\<close>

section \<open>Patterns\<close>

text \<open>
  \<open>RClass neg icase rs\<close>: one rune in (or, with \<open>neg\<close>, outside) the ranges \<open>rs\<close>; \<open>icase\<close> is the flag
  \<open>(?i)\<close>. \<open>RStar\<close> and \<open>ROpt\<close> are greedy. \<open>RGroup n\<close> is the \<open>n\<close>-th capture group.
\<close>

datatype regex =
    REmpty
  | RClass bool bool "(nat \<times> nat) list"
  | RCat regex regex
  | RAlt regex regex
  | RStar regex
  | ROpt regex
  | RGroup nat regex
  | RBegin
  | REnd
  | RWordB

text \<open>Unions of simple case folding: the two cases of a letter, and the runes U+017F and U+212A
  that fold to \<open>s\<close> and \<open>k\<close>.\<close>

definition in_ranges :: "(nat \<times> nat) list \<Rightarrow> nat \<Rightarrow> bool" where
  "in_ranges rs r = (\<exists>p \<in> set rs. fst p \<le> r \<and> r \<le> snd p)"

definition folds :: "nat \<Rightarrow> nat list" where
  "folds r =
    (if 65 \<le> r \<and> r \<le> 90 then r # (r + 32) # (if r = 75 then [8490] else if r = 83 then [383] else [])
     else if 97 \<le> r \<and> r \<le> 122 then
       r # (r - 32) # (if r = 107 then [8490] else if r = 115 then [383] else [])
     else if r = 8490 then [r, 75, 107]
     else if r = 383 then [r, 83, 115]
     else [r])"

definition class_matches :: "bool \<Rightarrow> bool \<Rightarrow> (nat \<times> nat) list \<Rightarrow> nat \<Rightarrow> bool" where
  "class_matches neg icase rs r =
     (neg \<noteq> (if icase then list_ex (in_ranges rs) (folds r) else in_ranges rs r))"

definition is_word_byte :: "char \<Rightarrow> bool" where
  "is_word_byte c = in_ranges [(48, 57), (65, 90), (95, 95), (97, 122)] (byte_of c)"

definition word_at :: "string \<Rightarrow> nat \<Rightarrow> bool" where
  "word_at s i \<longleftrightarrow> i < length s \<and> is_word_byte (s ! i)"

definition word_boundary :: "string \<Rightarrow> nat \<Rightarrow> bool" where
  "word_boundary s i \<longleftrightarrow> (0 < i \<and> word_at s (i - 1)) \<noteq> word_at s i"

section \<open>The matcher\<close>

type_synonym captures = "(nat \<times> nat \<times> nat) list"

definition rune_at :: "string \<Rightarrow> nat \<Rightarrow> nat \<times> nat" where
  "rune_at s i = decode_rune (drop i s)"

fun star_ends :: "(nat \<times> captures \<Rightarrow> (nat \<times> captures) list) \<Rightarrow> nat \<Rightarrow> nat \<times> captures \<Rightarrow> (nat \<times> captures) list" where
  "star_ends f 0 p = [p]"
| "star_ends f (Suc k) p =
     concat (map (\<lambda>q. if fst p < fst q then star_ends f k q else []) (f p)) @ [p]"

fun ends :: "regex \<Rightarrow> string \<Rightarrow> nat \<times> captures \<Rightarrow> (nat \<times> captures) list" where
  "ends REmpty s p = [p]"
| "ends (RClass neg icase rs) s p =
     (if fst p < length s \<and> class_matches neg icase rs (fst (rune_at s (fst p)))
      then [(fst p + snd (rune_at s (fst p)), snd p)] else [])"
| "ends (RCat r r') s p = concat (map (ends r' s) (ends r s p))"
| "ends (RAlt r r') s p = ends r s p @ ends r' s p"
| "ends (RStar r) s p = star_ends (ends r s) (length s - fst p) p"
| "ends (ROpt r) s p = ends r s p @ [p]"
| "ends (RGroup n r) s p = map (\<lambda>q. (fst q, (n, fst p, fst q) # snd q)) (ends r s p)"
| "ends RBegin s p = (if fst p = 0 then [p] else [])"
| "ends REnd s p = (if fst p = length s then [p] else [])"
| "ends RWordB s p = (if word_boundary s (fst p) then [p] else [])"

text \<open>The search tries every rune position from the left.\<close>

function find_from :: "regex \<Rightarrow> string \<Rightarrow> nat \<Rightarrow> (nat \<times> nat \<times> captures) option" where
  "find_from r s i =
    (case ends r s (i, []) of
       (j, caps) # _ \<Rightarrow> Some (i, j, caps)
     | [] \<Rightarrow> if i < length s then find_from r s (i + max 1 (snd (rune_at s i))) else None)"
  by pat_completeness auto
termination
  by (relation "measure (\<lambda>(r, s, i). length s - i)") auto

declare find_from.simps [simp del]

definition group_pair :: "captures \<Rightarrow> nat \<Rightarrow> int list" where
  "group_pair caps n = (case map_of caps n of None \<Rightarrow> [-1, -1] | Some (i, j) \<Rightarrow> [int i, int j])"

text \<open>A compiled expression answers \<open>FindStringSubmatchIndex\<close>.\<close>

type_synonym regexp = "string \<Rightarrow> int list option"

definition compile_regex :: "nat \<Rightarrow> regex \<Rightarrow> regexp" where
  "compile_regex groups r s = (case find_from r s 0 of
     None \<Rightarrow> None
   | Some (i, j, caps) \<Rightarrow> Some (int i # int j # concat (map (group_pair caps) [1..<Suc groups])))"

definition match_string :: "regexp \<Rightarrow> string \<Rightarrow> bool" where
  "match_string re s = (re s \<noteq> None)"

text \<open>\<open>FindString\<close>: the empty string when nothing matches.\<close>

definition find_string :: "regexp \<Rightarrow> string \<Rightarrow> string" where
  "find_string re s = (case re s of
     Some (i # j # _) \<Rightarrow> slice s (nat i) (nat j) | _ \<Rightarrow> [])"

section \<open>Syntax helpers\<close>

fun rlit :: "string \<Rightarrow> regex" where
  "rlit [] = REmpty"
| "rlit (c # cs) = RCat (RClass False False [(byte_of c, byte_of c)]) (rlit cs)"

text \<open>A literal under \<open>(?i)\<close>.\<close>

fun rlit_fold :: "string \<Rightarrow> regex" where
  "rlit_fold [] = REmpty"
| "rlit_fold (c # cs) = RCat (RClass False True [(byte_of c, byte_of c)]) (rlit_fold cs)"

fun rrunes :: "nat list \<Rightarrow> regex" where
  "rrunes [] = REmpty"
| "rrunes (r # rs) = RCat (RClass False False [(r, r)]) (rrunes rs)"

fun ralts :: "regex list \<Rightarrow> regex" where
  "ralts [] = REmpty"
| "ralts [r] = r"
| "ralts (r # rs) = RAlt r (ralts rs)"

fun rcats :: "regex list \<Rightarrow> regex" where
  "rcats [] = REmpty"
| "rcats [r] = r"
| "rcats (r # rs) = RCat r (rcats rs)"

definition rplus :: "regex \<Rightarrow> regex" where
  "rplus r = RCat r (RStar r)"

text \<open>\<open>r{n}\<close>, \<open>r{n,}\<close> and \<open>r{n,n+k}\<close>.\<close>

fun rrep :: "nat \<Rightarrow> regex \<Rightarrow> regex" where
  "rrep 0 r = REmpty"
| "rrep (Suc n) r = RCat r (rrep n r)"

fun ropts :: "nat \<Rightarrow> regex \<Rightarrow> regex" where
  "ropts 0 r = REmpty"
| "ropts (Suc k) r = ROpt (RCat r (ropts k r))"

definition rmin :: "nat \<Rightarrow> regex \<Rightarrow> regex" where
  "rmin n r = RCat (rrep n r) (RStar r)"

definition rbetween :: "nat \<Rightarrow> nat \<Rightarrow> regex \<Rightarrow> regex" where
  "rbetween n m r = RCat (rrep n r) (ropts (m - n) r)"

definition space_ranges :: "(nat \<times> nat) list" where
  "space_ranges = [(9, 10), (12, 13), (32, 32)]"

definition rspaces :: regex where
  "rspaces = RStar (RClass False False space_ranges)"

section \<open>What a pattern matches\<close>

inductive rmatch :: "string \<Rightarrow> regex \<Rightarrow> nat \<Rightarrow> nat \<Rightarrow> bool" for s :: string where
  rm_empty: "rmatch s REmpty i i"
| rm_class: "i < length s \<Longrightarrow> class_matches neg icase rs (fst (rune_at s i)) \<Longrightarrow>
    rmatch s (RClass neg icase rs) i (i + snd (rune_at s i))"
| rm_cat: "rmatch s r i j \<Longrightarrow> rmatch s r' j k \<Longrightarrow> rmatch s (RCat r r') i k"
| rm_alt1: "rmatch s r i j \<Longrightarrow> rmatch s (RAlt r r') i j"
| rm_alt2: "rmatch s r' i j \<Longrightarrow> rmatch s (RAlt r r') i j"
| rm_star_nil: "rmatch s (RStar r) i i"
| rm_star: "rmatch s r i j \<Longrightarrow> rmatch s (RStar r) j k \<Longrightarrow> rmatch s (RStar r) i k"
| rm_opt_nil: "rmatch s (ROpt r) i i"
| rm_opt: "rmatch s r i j \<Longrightarrow> rmatch s (ROpt r) i j"
| rm_group: "rmatch s r i j \<Longrightarrow> rmatch s (RGroup n r) i j"
| rm_begin: "rmatch s RBegin 0 0"
| rm_end: "rmatch s REnd (length s) (length s)"
| rm_word: "word_boundary s i \<Longrightarrow> rmatch s RWordB i i"

inductive_cases rmatch_elims:
  "rmatch s REmpty i j" "rmatch s (RClass neg icase rs) i j" "rmatch s (RCat r r') i j"
  "rmatch s (RAlt r r') i j" "rmatch s (ROpt r) i j" "rmatch s (RGroup n r) i j"
  "rmatch s RBegin i j" "rmatch s REnd i j" "rmatch s RWordB i j"

lemma rune_at_size: "i < length s \<Longrightarrow> 0 < snd (rune_at s i) \<and> i + snd (rune_at s i) \<le> length s"
  using decode_rune_size [of "drop i s"] by (auto simp: rune_at_def)

lemma rmatch_bounds: "rmatch s r i j \<Longrightarrow> i \<le> length s \<Longrightarrow> i \<le> j \<and> j \<le> length s"
  by (induction rule: rmatch.induct) (auto dest: rune_at_size)

lemma star_ends_sound:
  assumes "\<And>p q. q \<in> set (f p) \<Longrightarrow> rmatch s r (fst p) (fst q)"
  shows "q \<in> set (star_ends f k p) \<Longrightarrow> rmatch s (RStar r) (fst p) (fst q)"
proof (induction k arbitrary: p)
  case (Suc k)
  then show ?case by (auto split: if_splits intro: rm_star_nil rm_star dest: assms)
qed (auto intro: rm_star_nil)

lemma ends_sound: "q \<in> set (ends r s p) \<Longrightarrow> rmatch s r (fst p) (fst q)"
proof (induction r arbitrary: p q)
  case (RStar r)
  then show ?case using star_ends_sound [of "ends r s" s r] by auto
next
  case (RCat r r')
  from RCat.prems obtain k where "k \<in> set (ends r s p)" "q \<in> set (ends r' s k)" by auto
  with RCat.IH show ?case by (blast intro: rm_cat)
qed (auto split: if_splits intro: rmatch.intros)

lemma star_ends_complete:
  assumes f: "\<And>p j. rmatch s r (fst p) j \<Longrightarrow> fst p \<le> length s \<Longrightarrow> j \<in> fst ` set (f p)"
  shows "rmatch s rr i j \<Longrightarrow> rr = RStar r \<Longrightarrow> i = fst p \<Longrightarrow> i \<le> length s \<Longrightarrow> length s - i \<le> k \<Longrightarrow>
    j \<in> fst ` set (star_ends f k p)"
proof (induction arbitrary: p k rule: rmatch.induct)
  case (rm_star_nil r' i)
  then show ?case by (cases k) auto
next
  case (rm_star r' i j' j)
  then have m: "rmatch s r (fst p) j'" "rmatch s (RStar r) j' j" by auto
  have b: "i \<le> j'" "j' \<le> length s" using rmatch_bounds [OF m(1)] rm_star.prems by auto
  show ?case
  proof (cases "i = j'")
    case True
    then show ?thesis using rm_star.IH(2) [of p k] rm_star.prems by simp
  next
    case False
    obtain q where q: "q \<in> set (f p)" "fst q = j'" using f [OF m(1)] rm_star.prems by auto
    from False b rm_star.prems obtain k' where k: "k = Suc k'" "length s - j' \<le> k'"
      by (cases k) auto
    have "j \<in> fst ` set (star_ends f k' q)" using rm_star.IH(2) [of q k'] rm_star.prems(1) q b k by simp
    then obtain w where w: "w \<in> set (star_ends f k' q)" "j = fst w" by auto
    have "fst p < fst q" using False b q rm_star.prems by simp
    then have "w \<in> set (star_ends f k p)" using q(1) w(1) by (auto simp: k(1) intro!: bexI [of _ q])
    then show ?thesis using w(2) by auto
  qed
qed auto

lemma ends_complete: "rmatch s r (fst p) j \<Longrightarrow> fst p \<le> length s \<Longrightarrow> j \<in> fst ` set (ends r s p)"
proof (induction r arbitrary: p j)
  case (RCat r r')
  then obtain k where k: "rmatch s r (fst p) k" "rmatch s r' k j" by (auto elim: rmatch_elims)
  from RCat.IH(1) [OF k(1) RCat.prems(2)] obtain q where q: "q \<in> set (ends r s p)" "fst q = k" by auto
  have "k \<le> length s" using rmatch_bounds [OF k(1) RCat.prems(2)] by simp
  with RCat.IH(2) [of q j] k(2) q(2) obtain w where "w \<in> set (ends r' s q)" "fst w = j" by auto
  with q(1) show ?case by force
next
  case (RStar r)
  show ?case using star_ends_complete [where f = "ends r s" and r = r, OF RStar.IH RStar.prems(1)] RStar.prems(2)
    by simp
next
  case (RAlt r r')
  from RAlt.prems(1) consider "rmatch s r (fst p) j" | "rmatch s r' (fst p) j" by (auto elim: rmatch_elims)
  then show ?case using RAlt.IH(1) [OF _ RAlt.prems(2)] RAlt.IH(2) [OF _ RAlt.prems(2)]
    by cases (simp_all add: image_Un)
next
  case (ROpt r)
  from ROpt.prems(1) consider "j = fst p" | "rmatch s r (fst p) j" by (auto elim: rmatch_elims)
  then show ?case using ROpt.IH [OF _ ROpt.prems(2)] by cases simp_all
next
  case (RGroup n r)
  from RGroup.prems(1) have "rmatch s r (fst p) j" by (auto elim: rmatch_elims)
  from RGroup.IH [OF this RGroup.prems(2)] show ?case by force
qed (auto elim!: rmatch_elims)

lemma ends_exact: "i \<le> length s \<Longrightarrow> fst ` set (ends r s (i, caps)) = {j. rmatch s r i j}"
  using ends_sound [of _ r s "(i, caps)"] ends_complete [of s r "(i, caps)"] by fastforce

section \<open>The search\<close>

text \<open>\<open>from_start s i k\<close>: stepping rune by rune from \<open>i\<close> one comes to \<open>k\<close>.\<close>

inductive from_start :: "string \<Rightarrow> nat \<Rightarrow> nat \<Rightarrow> bool" for s :: string where
  fs_here: "from_start s i i"
| fs_next: "i < length s \<Longrightarrow> from_start s (i + max 1 (snd (rune_at s i))) k \<Longrightarrow> from_start s i k"

lemma find_from_Some:
  "find_from r s i = Some (a, b, caps) \<Longrightarrow> i \<le> length s \<Longrightarrow>
   from_start s i a \<and> a \<le> length s \<and> rmatch s r a b \<and>
   (\<forall>k. from_start s i k \<and> k < a \<longrightarrow> \<not> (\<exists>j. rmatch s r k j))"
proof (induction r s i rule: find_from.induct)
  case (1 r s i)
  show ?case
  proof (cases "ends r s (i, [])")
    case (Cons q qs)
    with "1.prems" have q: "q = (b, caps)" "a = i" by (auto simp: find_from.simps [of r s i] split: prod.splits)
    have "rmatch s r i b" using ends_sound [of q r s "(i, [])"] Cons q by simp
    moreover have "i \<le> k" if "from_start s i k" for k
      using that by (induction rule: from_start.induct) auto
    ultimately show ?thesis using q "1.prems" by (auto intro: fs_here) (meson leD)
  next
    case Nil
    with "1.prems" have i: "i < length s" and f: "find_from r s (i + max 1 (snd (rune_at s i))) = Some (a, b, caps)"
      by (auto simp: find_from.simps [of r s i] split: if_splits)
    have none: "\<not> (\<exists>j. rmatch s r i j)" using ends_exact [of i s r "[]"] Nil "1.prems"(2) by auto
    have "i + max 1 (snd (rune_at s i)) \<le> length s" using rune_at_size [OF i] i by auto
    from "1.IH" [OF Nil i f this] none i show ?thesis
      by (auto intro: fs_next elim: from_start.cases)
  qed
qed

lemma find_from_None:
  "find_from r s i = None \<Longrightarrow> i \<le> length s \<Longrightarrow> from_start s i k \<Longrightarrow> \<not> rmatch s r k j"
proof (induction r s i rule: find_from.induct)
  case (1 r s i)
  from "1.prems"(1) have Nil: "ends r s (i, []) = []" by (auto simp: find_from.simps [of r s i] split: list.splits)
  have none: "\<not> rmatch s r i j" using ends_exact [of i s r "[]"] Nil "1.prems"(2) by auto
  from "1.prems"(3) show ?case
  proof (cases rule: from_start.cases)
    case fs_here
    with none show ?thesis by simp
  next
    case fs_next
    have "find_from r s (i + max 1 (snd (rune_at s i))) = None"
      using "1.prems"(1) Nil fs_next(1) by (simp add: find_from.simps [of r s i])
    moreover have "i + max 1 (snd (rune_at s i)) \<le> length s" using rune_at_size [OF fs_next(1)] fs_next(1) by auto
    ultimately show ?thesis using "1.IH" [OF Nil fs_next(1)] fs_next(2) by blast
  qed
qed

end
