(* ===== verification/Detect_Pii.thy ===== *)
theory Detect_Pii
  imports Complex_Main Spans Regex
begin

text \<open>
  The match loops of \<open>internal/privacyengine/secrets.go\<close> and the PII detectors of
  \<open>internal/privacyengine/pii.go\<close>. A closure passed to a match loop either returns \<open>nil\<close> or adds
  one span, so it is modelled by the candidate it adds, an option; \<open>visit_with\<close> is the closure.
\<close>

section \<open>State of a detection\<close>

text \<open>A detection mutates its collector and polls its context.\<close>

record det =
  d_polls :: nat
  d_spans :: span_collector

type_synonym 'a detect = "(engine_error, det, 'a) M"

definition poll_d :: "ctx \<Rightarrow> unit detect" where
  "poll_d c s = (case c (d_polls s) of
     None \<Rightarrow> (Inr (), s\<lparr>d_polls := Suc (d_polls s)\<rparr>)
   | Some e \<Rightarrow> (Inl (EngineCtx e), s\<lparr>d_polls := Suc (d_polls s)\<rparr>))"

definition add_span :: "fspan \<Rightarrow> unit detect" where
  "add_span x s = (case span_add x (d_spans s) of (r, c) \<Rightarrow> (r, s\<lparr>d_spans := c\<rparr>))"

definition visit_with :: "('a \<Rightarrow> fspan option) \<Rightarrow> 'a \<Rightarrow> unit detect" where
  "visit_with cand x = (case cand x of None \<Rightarrow> ret () | Some s \<Rightarrow> add_span s)"

section \<open>Match loops\<close>

text \<open>
  The width by which a loop advances behind an empty match, \<open>if width <= 0 { width = 1 }\<close>.
\<close>

definition advance_width :: "string \<Rightarrow> nat \<Rightarrow> nat" where
  "advance_width tx offset =
    (let width = snd (decode_rune (drop offset tx)) in if width = 0 then 1 else width)"

text \<open>
  \<open>forEachSubmatchIndex\<close>. An expression whose result had fewer than two indices would panic at
  \<open>indices[1]\<close>, which \<open>Detect\<close> recovers as \<open>ErrInternalFailure\<close>; the expressions of the regexp
  library have at least two.
\<close>

function for_each_submatch ::
  "ctx \<Rightarrow> regexp \<Rightarrow> string \<Rightarrow> (int list \<Rightarrow> unit detect) \<Rightarrow> nat \<Rightarrow> unit detect" where
  "for_each_submatch c re tx visit offset =
    (if offset \<le> length tx then
       seq (poll_d c)
       (case re (drop offset tx) of
          None \<Rightarrow> ret ()
        | Some raw_indices \<Rightarrow>
            let indices = map (\<lambda>x. if 0 \<le> x then int offset + x else x) raw_indices in
            seq (visit indices)
            (if length indices < 2 then fail ErrInternalFailure
             else if int offset < indices ! 1 then
               for_each_submatch c re tx visit (nat (indices ! 1))
             else if offset = length tx then ret ()
             else for_each_submatch c re tx visit (offset + advance_width tx offset)))
     else ret ())"
  by pat_completeness auto
termination
  by (relation "measure (\<lambda>(c, re, tx, visit, offset). Suc (length tx) - offset)")
    (auto simp: advance_width_def Let_def)

declare for_each_submatch.simps [simp del]

definition for_each_match ::
  "ctx \<Rightarrow> regexp \<Rightarrow> string \<Rightarrow> (int \<times> int \<Rightarrow> unit detect) \<Rightarrow> unit detect" where
  "for_each_match c re tx visit = for_each_submatch c re tx
     (\<lambda>indices. if length indices < 2 then ret () else visit (indices ! 0, indices ! 1)) 0"

text \<open>The matches the loop visits, without contexts and state.\<close>

function all_matches :: "regexp \<Rightarrow> string \<Rightarrow> nat \<Rightarrow> int list list" where
  "all_matches re tx offset =
    (if offset \<le> length tx then
       case re (drop offset tx) of
         None \<Rightarrow> []
       | Some raw_indices \<Rightarrow>
           let indices = map (\<lambda>x. if 0 \<le> x then int offset + x else x) raw_indices in
           indices #
           (if length indices < 2 then []
            else if int offset < indices ! 1 then all_matches re tx (nat (indices ! 1))
            else if offset = length tx then []
            else all_matches re tx (offset + advance_width tx offset))
     else [])"
  by pat_completeness auto
termination
  by (relation "measure (\<lambda>(re, tx, offset). Suc (length tx) - offset)")
    (auto simp: advance_width_def Let_def)

declare all_matches.simps [simp del]

lemma poll_d_iff: "poll_d c s = (Inr u, t) \<longleftrightarrow> c (d_polls s) = None \<and> t = s\<lparr>d_polls := Suc (d_polls s)\<rparr>"
  by (auto simp: poll_d_def split: option.splits)

text \<open>A successful detection step adds a list of candidates to the collector, in order.\<close>

definition adds :: "fspan list \<Rightarrow> unit detect \<Rightarrow> bool" where
  "adds xs m \<longleftrightarrow> (\<forall>s t. m s = (Inr (), t) \<longrightarrow> for_each xs span_add (d_spans s) = (Inr (), d_spans t))"

named_theorems adds_rules "detection steps and the candidates they add"

lemma addsD: "adds xs m \<Longrightarrow> m s = (Inr (), t) \<Longrightarrow> for_each xs span_add (d_spans s) = (Inr (), d_spans t)"
  by (simp add: adds_def)

lemma for_each_append: "for_each (xs @ ys) f = seq (for_each xs f) (for_each ys f)"
proof (induction xs)
  case (Cons x xs)
  then show ?case by (auto simp: bind_def fun_eq_iff split: prod.splits sum.splits)
qed (simp add: bind_def ret_def fun_eq_iff)

lemma adds_ret [adds_rules]: "adds [] (ret ())"
  by (simp add: adds_def ret_def)

lemma adds_fail [adds_rules]: "adds xs (fail e)"
  by (simp add: adds_def)

lemma adds_fail_if [adds_rules]: "adds [] (fail_if b e)"
  by (simp add: adds_def fail_if_def ret_def)

lemma adds_poll [adds_rules]: "adds [] (poll_d c)"
  by (auto simp: adds_def poll_d_iff ret_def)

lemma adds_seq [adds_rules]: "adds xs m \<Longrightarrow> adds ys m' \<Longrightarrow> adds (xs @ ys) (seq m m')"
  by (auto simp: adds_def bind_Inr_iff for_each_append)

lemma adds_if [adds_rules]: "(b \<Longrightarrow> adds xs m) \<Longrightarrow> (\<not> b \<Longrightarrow> adds ys m') \<Longrightarrow> adds (if b then xs else ys) (if b then m else m')"
  by simp

lemma adds_visit [adds_rules]: "adds (List.map_filter cand [x]) (visit_with cand x)"
  by (auto simp: adds_def visit_with_def add_span_def List.map_filter_simps ret_def bind_def
      split: option.splits prod.splits)

lemma adds_bind_pure:
  assumes "\<And>s b t. m s = (Inr b, t) \<Longrightarrow> b = v \<and> d_spans t = d_spans s" and "adds xs (f v)"
  shows "adds xs (bind m f)"
  unfolding adds_def
proof (intro allI impI)
  fix s t assume "bind m f s = (Inr (), t)"
  then obtain b u where "m s = (Inr b, u)" "f b u = (Inr (), t)" by (auto simp: bind_Inr_iff)
  with assms(1) [of s b u] have "d_spans u = d_spans s" "f v u = (Inr (), t)" by simp_all
  with addsD [OF assms(2), of u t]
  show "for_each xs span_add (d_spans s) = (Inr (), d_spans t)" by simp
qed

lemma map_filter_Cons: "List.map_filter f (x # xs) = List.map_filter f [x] @ List.map_filter f xs"
  by (simp add: List.map_filter_def)

lemma map_filter_Nil [simp]: "List.map_filter f [] = []"
  by (simp add: List.map_filter_def)

lemma adds_for_each_submatch:
  "(\<And>x. adds (List.map_filter cand [x]) (visit x)) \<Longrightarrow>
   adds (List.map_filter cand (all_matches re tx offset)) (for_each_submatch c re tx visit offset)"
proof (induction c re tx visit offset rule: for_each_submatch.induct)
  case (1 c re tx visit offset)
  show ?case
  proof (cases "offset \<le> length tx \<and> re (drop offset tx) \<noteq> None")
    case False
    have "adds ([] @ []) (seq (poll_d c) (ret ()))" by (intro adds_rules)
    with False show ?thesis
      by (auto simp: for_each_submatch.simps [of c re tx visit offset] all_matches.simps [of re tx offset]
          List.map_filter_simps intro: adds_rules)
  next
    case True
    then obtain ri where ri: "offset \<le> length tx" "re (drop offset tx) = Some ri" by blast
    define ix where "ix = map (\<lambda>x. if 0 \<le> x then int offset + x else x) ri"
    define rest where "rest = (if length ix < 2 then []
            else if int offset < ix ! 1 then all_matches re tx (nat (ix ! 1))
            else if offset = length tx then []
            else all_matches re tx (offset + advance_width tx offset))"
    define loop where "loop = (if length ix < 2 then fail ErrInternalFailure
             else if int offset < ix ! 1 then for_each_submatch c re tx visit (nat (ix ! 1))
             else if offset = length tx then ret ()
             else for_each_submatch c re tx visit (offset + advance_width tx offset))"
    have m: "all_matches re tx offset = ix # rest"
      using ri by (subst all_matches.simps) (simp add: ix_def [symmetric] rest_def Let_def)
    have f: "for_each_submatch c re tx visit offset = seq (poll_d c) (seq (visit ix) loop)"
      using ri by (subst for_each_submatch.simps) (simp add: ix_def [symmetric] loop_def Let_def)
    have "adds (List.map_filter cand rest) loop"
      unfolding rest_def loop_def using "1.IH" [OF ri ix_def] "1.prems"
      by (auto intro: adds_rules simp: List.map_filter_simps)
    then have "adds ([] @ List.map_filter cand [ix] @ List.map_filter cand rest) (seq (poll_d c) (seq (visit ix) loop))"
      by (intro adds_rules "1.prems")
    then show ?thesis unfolding m f by (cases "cand ix") simp_all
  qed
qed

definition match_candidate :: "(int \<times> int \<Rightarrow> fspan option) \<Rightarrow> int list \<Rightarrow> fspan option" where
  "match_candidate cand ix = (if length ix < 2 then None else cand (ix ! 0, ix ! 1))"

lemma adds_for_each_match [adds_rules]:
  "adds (List.map_filter (match_candidate cand) (all_matches re tx 0)) (for_each_match c re tx (visit_with cand))"
  unfolding for_each_match_def
proof (rule adds_for_each_submatch)
  fix x
  have "adds (List.map_filter cand [(x ! 0, x ! 1)]) (visit_with cand (x ! 0, x ! 1))" by (rule adds_rules)
  then show "adds (List.map_filter (match_candidate cand) [x])
    (if length x < 2 then ret () else visit_with cand (x ! 0, x ! 1))"
    by (auto simp: match_candidate_def List.map_filter_simps intro: adds_rules split: option.splits)
qed

section \<open>Strings\<close>

text \<open>
  What is used of package \<open>strings\<close>. Case mapping of a string with a byte above 127 goes through
  the tables of Unicode, which are not part of the model: \<open>tools\<close> holds these two functions and
  the entropy of a string, a floating-point number and so a rational.
\<close>

record tools =
  t_lower :: "string \<Rightarrow> string"
  t_upper :: "string \<Rightarrow> string"
  t_entropy :: "string \<Rightarrow> rat"

definition is_ascii :: "string \<Rightarrow> bool" where
  "is_ascii s = list_all (\<lambda>c. byte_of c < 128) s"

definition lower_byte :: "char \<Rightarrow> char" where
  "lower_byte c = (if 65 \<le> byte_of c \<and> byte_of c \<le> 90 then byte (byte_of c + 32) else c)"

definition upper_byte :: "char \<Rightarrow> char" where
  "upper_byte c = (if 97 \<le> byte_of c \<and> byte_of c \<le> 122 then byte (byte_of c - 32) else c)"

definition to_lower :: "tools \<Rightarrow> string \<Rightarrow> string" where
  "to_lower ts s = (if is_ascii s then map lower_byte s else t_lower ts s)"

definition to_upper :: "tools \<Rightarrow> string \<Rightarrow> string" where
  "to_upper ts s = (if is_ascii s then map upper_byte s else t_upper ts s)"

definition starts_with :: "string \<Rightarrow> string \<Rightarrow> bool" where
  "starts_with s p = (take (length p) s = p)"

definition ends_with :: "string \<Rightarrow> string \<Rightarrow> bool" where
  "ends_with s p = (length p \<le> length s \<and> drop (length s - length p) s = p)"

fun contains :: "string \<Rightarrow> string \<Rightarrow> bool" where
  "contains [] p = (p = [])"
| "contains (c # cs) p = (starts_with (c # cs) p \<or> contains cs p)"

text \<open>\<open>IndexByte\<close> and \<open>LastIndexByte\<close>, -1 when there is none.\<close>

fun index_byte :: "string \<Rightarrow> char \<Rightarrow> int" where
  "index_byte [] c = -1"
| "index_byte (x # xs) c =
    (if x = c then 0 else let i = index_byte xs c in if i < 0 then -1 else i + 1)"

fun last_index_byte :: "string \<Rightarrow> char \<Rightarrow> int" where
  "last_index_byte [] c = -1"
| "last_index_byte (x # xs) c =
    (let i = last_index_byte xs c in if 0 \<le> i then i + 1 else if x = c then 0 else -1)"

text \<open>Go's \<open>s[i:j]\<close> with \<open>int\<close> bounds that the code has checked.\<close>

definition islice :: "string \<Rightarrow> int \<Rightarrow> int \<Rightarrow> string" where
  "islice s i j = slice s (nat i) (nat j)"

section \<open>PII\<close>

definition range_of :: "char \<Rightarrow> char \<Rightarrow> nat \<times> nat" where
  "range_of a b = (byte_of a, byte_of b)"

definition chars :: "string \<Rightarrow> (nat \<times> nat) list" where
  "chars s = map (\<lambda>c. (byte_of c, byte_of c)) s"

definition alnum :: "(nat \<times> nat) list" where
  "alnum = [range_of CHR ''A'' CHR ''Z'', range_of CHR ''a'' CHR ''z'', range_of CHR ''0'' CHR ''9'']"

definition letters :: "(nat \<times> nat) list" where
  "letters = [range_of CHR ''A'' CHR ''Z'', range_of CHR ''a'' CHR ''z'']"

definition rset :: "(nat \<times> nat) list \<Rightarrow> regex" where
  "rset rs = RClass False False rs"

definition rdigit :: regex where
  "rdigit = rset [range_of CHR ''0'' CHR ''9'']"

definition re_email :: regexp where
  "re_email = compile_regex 0 (rcats [rplus (rset (alnum @ chars ''._%+-'')), rlit ''@'',
     rplus (rset (alnum @ chars ''.-'')), rlit ''.'', rmin 2 (rset letters)])"

definition re_phone_cn :: regexp where
  "re_phone_cn = compile_regex 0 (rcats
     [ROpt (rcats [ROpt (rlit ''+''), rlit ''86'', ROpt (rset ((byte_of CHR ''-'', byte_of CHR ''-'') # space_ranges))]),
      rlit ''1'', rset [range_of CHR ''3'' CHR ''9''], rrep 9 rdigit])"

definition re_id_card :: regexp where
  "re_id_card = compile_regex 0 (rcats
     [rset [range_of CHR ''1'' CHR ''9''], rrep 16 rdigit, rset (range_of CHR ''0'' CHR ''9'' # chars ''Xx'')])"

definition re_bank_card :: regexp where
  "re_bank_card = compile_regex 0 (rbetween 13 19 rdigit)"

definition rbyte :: regex where
  "rbyte = ralts [rcats [rlit ''25'', rset [range_of CHR ''0'' CHR ''5'']],
     rcats [rlit ''2'', rset [range_of CHR ''0'' CHR ''4''], rdigit],
     rcats [ROpt (rlit ''1''), ROpt rdigit, rdigit]]"

definition re_ipv4 :: regexp where
  "re_ipv4 = compile_regex 0 (RCat (rrep 3 (RCat rbyte (rlit ''.''))) rbyte)"

definition ssh_commands :: "string list" where
  "ssh_commands = [''ssh '', ''scp '', ''rsync '', ''sftp '', ''ssh-copy-id '', ''ssh-keygen '']"

definition is_in_ssh_command_context :: "string \<Rightarrow> int \<Rightarrow> bool" where
  "is_in_ssh_command_context s email_start =
    (if email_start < 0 \<or> int (length s) < email_start then False
     else let line_start = last_index_byte (islice s 0 email_start) CHR 0x0A + 1;
              line = islice s line_start email_start
          in list_ex (contains line) ssh_commands)"

definition is_digit_byte :: "char \<Rightarrow> bool" where
  "is_digit_byte c = (48 \<le> byte_of c \<and> byte_of c \<le> 57)"

definition digit_bounded :: "string \<Rightarrow> int \<Rightarrow> int \<Rightarrow> bool" where
  "digit_bounded s start stop =
    (if start < 0 \<or> stop < start \<or> int (length s) < stop then False
     else if 0 < start \<and> is_digit_byte (s ! nat (start - 1)) then False
     else if stop < int (length s) \<and> is_digit_byte (s ! nat stop) then False
     else True)"

definition ip_bounded :: "string \<Rightarrow> int \<Rightarrow> int \<Rightarrow> bool" where
  "ip_bounded s start stop =
    (if start < 0 \<or> stop < start \<or> int (length s) < stop then False
     else if 0 < start \<and> (is_digit_byte (s ! nat (start - 1)) \<or> s ! nat (start - 1) = CHR ''.'') then False
     else if stop < int (length s) \<and> (is_digit_byte (s ! nat stop) \<or> s ! nat stop = CHR ''.'') then False
     else True)"

definition is_documentation_email :: "tools \<Rightarrow> string \<Rightarrow> bool" where
  "is_documentation_email ts email =
    (let amp = last_index_byte email CHR ''@'' in
     if amp < 0 \<or> int (length email) \<le> amp + 1 then False
     else let domain = to_lower ts (islice email (amp + 1) (int (length email))) in
       if domain \<in> {''example.com'', ''example.org'', ''example.net'', ''example.edu''} then True
       else ends_with domain ''.invalid'' \<or> ends_with domain ''.localhost'')"

text \<open>
  \<open>net.ParseIP(value).To4()\<close> for a dotted value: four decimal fields of at most 255 without
  leading zeros. (A value with a colon would be parsed as IPv6; the expression that selects
  the values admits none.)
\<close>

fun parse_fields :: "nat option \<Rightarrow> string \<Rightarrow> nat list option" where
  "parse_fields cur [] = map_option (\<lambda>n. [n]) cur"
| "parse_fields cur (c # cs) =
    (if c = CHR ''.'' then
       case cur of None \<Rightarrow> None | Some n \<Rightarrow> map_option (\<lambda>ns. n # ns) (parse_fields None cs)
     else if is_digit_byte c then
       let d = byte_of c - 48 in
       case cur of
         None \<Rightarrow> parse_fields (Some d) cs
       | Some n \<Rightarrow> if n = 0 \<or> 255 < n * 10 + d then None else parse_fields (Some (n * 10 + d)) cs
     else None)"

definition parse_ip4 :: "string \<Rightarrow> (nat \<times> nat \<times> nat \<times> nat) option" where
  "parse_ip4 s = (case parse_fields None s of Some [a, b, c, d] \<Rightarrow> Some (a, b, c, d) | _ \<Rightarrow> None)"

definition is_non_public_ipv4 :: "string \<Rightarrow> bool" where
  "is_non_public_ipv4 s = (case parse_ip4 s of
     None \<Rightarrow> False
   | Some (a, b, c, d) \<Rightarrow>
       if a = 127 \<or> (a = 10 \<or> (a = 172 \<and> 16 \<le> b \<and> b \<le> 31) \<or> (a = 192 \<and> b = 168)) \<or>
          (a = 169 \<and> b = 254) \<or> (a = 0 \<and> b = 0 \<and> c = 0 \<and> d = 0) \<or> (224 \<le> a \<and> a \<le> 239)
       then True
       else (a = 192 \<and> b = 0 \<and> c = 2) \<or> (a = 198 \<and> b = 51 \<and> c = 100) \<or> (a = 203 \<and> b = 0 \<and> c = 113))"

definition is_example_bank_card :: "string \<Rightarrow> bool" where
  "is_example_bank_card num =
    (if num = [] then False
     else if list_all (\<lambda>c. c = num ! 0) (drop 1 num) then True
     else num \<in> {''4111111111111111'', ''4242424242424242'', ''4000000000000002'',
       ''5555555555554444'', ''378282246310005''})"

text \<open>The loop of \<open>luhnValid\<close> runs from the last digit; it is given the reversed number.\<close>

fun luhn_loop :: "nat \<Rightarrow> bool \<Rightarrow> string \<Rightarrow> bool" where
  "luhn_loop acc dbl [] = (acc mod 10 = 0)"
| "luhn_loop acc dbl (c # cs) =
    (if \<not> is_digit_byte c then False
     else let digit = byte_of c - 48;
              digit = (if dbl then let d2 = digit * 2 in if 9 < d2 then d2 - 9 else d2 else digit)
          in luhn_loop (acc + digit) (\<not> dbl) cs)"

definition luhn_valid :: "string \<Rightarrow> bool" where
  "luhn_valid num = (if num = [] then False else luhn_loop 0 False (rev num))"

definition has_payment_card_prefix :: "string \<Rightarrow> bool" where
  "has_payment_card_prefix num =
    (if length num < 13 then False
     else if num ! 0 = CHR ''4'' then length num = 13 \<or> length num = 16 \<or> length num = 19
     else if num ! 0 = CHR ''5'' then length num = 16 \<and> 49 \<le> byte_of (num ! 1) \<and> byte_of (num ! 1) \<le> 53
     else if num ! 0 = CHR ''3'' then length num = 15 \<and> (num ! 1 = CHR ''4'' \<or> num ! 1 = CHR ''7'')
     else False)"

definition is_email_boundary :: "string \<Rightarrow> int \<Rightarrow> bool" where
  "is_email_boundary s start =
     (start = 0 \<or> (s ! nat (start - 1) \<noteq> CHR '':'' \<and> s ! nat (start - 1) \<noteq> CHR ''/''))"

definition mk_span :: "int \<Rightarrow> int \<Rightarrow> finding_kind \<Rightarrow> string \<Rightarrow> fspan" where
  "mk_span start stop k rule = \<lparr>sp_start = start, sp_end = stop, sp_kind = k, sp_rule = rule\<rparr>"

fun email_candidate :: "tools \<Rightarrow> string \<Rightarrow> int \<times> int \<Rightarrow> fspan option" where
  "email_candidate ts s (start, stop) =
    (if stop < int (length s) \<and> s ! nat stop = CHR '':'' \<and> stop + 1 < int (length s) \<and>
        s ! nat (stop + 1) \<noteq> CHR '' '' \<and> s ! nat (stop + 1) \<noteq> CHR 0x09 then None
     else if \<not> is_email_boundary s start \<or> is_in_ssh_command_context s start \<or>
        is_documentation_email ts (islice s start stop) then None
     else Some (mk_span start stop KindEmail ''pii.email''))"

fun phone_candidate :: "string \<Rightarrow> int \<times> int \<Rightarrow> fspan option" where
  "phone_candidate s (start, stop) =
    (if \<not> digit_bounded s start stop then None else Some (mk_span start stop KindPhone ''pii.phone-cn''))"

fun id_card_candidate :: "string \<Rightarrow> int \<times> int \<Rightarrow> fspan option" where
  "id_card_candidate s (start, stop) =
    (if \<not> digit_bounded s start stop then None else Some (mk_span start stop KindIDCard ''pii.id-card-cn''))"

fun ipv4_candidate :: "string \<Rightarrow> int \<times> int \<Rightarrow> fspan option" where
  "ipv4_candidate s (start, stop) =
    (if \<not> ip_bounded s start stop \<or> is_non_public_ipv4 (islice s start stop) then None
     else Some (mk_span start stop KindIP ''pii.ipv4''))"

fun bank_card_candidate :: "string \<Rightarrow> int \<times> int \<Rightarrow> fspan option" where
  "bank_card_candidate s (start, stop) =
    (let num = islice s start stop in
     if \<not> digit_bounded s start stop \<or> \<not> has_payment_card_prefix num \<or> \<not> luhn_valid num \<or>
        is_example_bank_card num then None
     else Some (mk_span start stop KindBankCard ''pii.bank-card''))"

text \<open>The loop over the bytes, with a poll every 4096 of them; whether a digit was found.\<close>

fun has_digit_loop :: "ctx \<Rightarrow> nat \<Rightarrow> string \<Rightarrow> bool detect" where
  "has_digit_loop c i [] = ret False"
| "has_digit_loop c i (x # xs) =
     seq (if i mod 4096 = 0 then poll_d c else ret ())
     (if is_digit_byte x then ret True else has_digit_loop c (Suc i) xs)"

definition detect_pii :: "tools \<Rightarrow> ctx \<Rightarrow> string \<Rightarrow> unit detect" where
  "detect_pii ts c s =
     seq (for_each_match c re_email s (visit_with (email_candidate ts s)))
     (bind (has_digit_loop c 0 s) (\<lambda>has_digit.
       if \<not> has_digit then ret ()
       else
         seq (for_each_match c re_phone_cn s (visit_with (phone_candidate s)))
         (seq (for_each_match c re_id_card s (visit_with (id_card_candidate s)))
         (seq (for_each_match c re_ipv4 s (visit_with (ipv4_candidate s)))
         (for_each_match c re_bank_card s (visit_with (bank_card_candidate s)))))))"

section \<open>The candidates of the PII detectors\<close>

definition pii_candidates :: "tools \<Rightarrow> string \<Rightarrow> fspan list" where
  "pii_candidates ts s =
    (let matches = (\<lambda>re cand. List.map_filter (match_candidate cand) (all_matches re s 0)) in
     matches re_email (email_candidate ts s) @
     (if list_ex is_digit_byte s then
        matches re_phone_cn (phone_candidate s) @ matches re_id_card (id_card_candidate s) @
        matches re_ipv4 (ipv4_candidate s) @ matches re_bank_card (bank_card_candidate s)
      else []))"

lemma has_digit_loop_result:
  "has_digit_loop c i xs s = (Inr b, t) \<Longrightarrow> b = list_ex is_digit_byte xs \<and> d_spans t = d_spans s"
proof (induction c i xs arbitrary: s rule: has_digit_loop.induct)
  case (2 c i x xs)
  then show ?case
    by (fastforce simp: bind_Inr_iff poll_d_iff split: if_split_asm)
qed simp

lemma adds_detect_pii [adds_rules]: "adds (pii_candidates ts s) (detect_pii ts c s)"
proof -
  let ?m = "\<lambda>re cand. List.map_filter (match_candidate cand) (all_matches re s 0)"
  let ?digits = "?m re_phone_cn (phone_candidate s) @ ?m re_id_card (id_card_candidate s) @
        ?m re_ipv4 (ipv4_candidate s) @ ?m re_bank_card (bank_card_candidate s)"
  let ?rest = "seq (for_each_match c re_phone_cn s (visit_with (phone_candidate s)))
         (seq (for_each_match c re_id_card s (visit_with (id_card_candidate s)))
         (seq (for_each_match c re_ipv4 s (visit_with (ipv4_candidate s)))
         (for_each_match c re_bank_card s (visit_with (bank_card_candidate s)))))"
  have "adds ?digits ?rest" by (intro adds_rules)
  then have "adds (if list_ex is_digit_byte s then ?digits else [])
      (bind (has_digit_loop c 0 s) (\<lambda>has_digit. if \<not> has_digit then ret () else ?rest))"
    by (intro adds_bind_pure [where v = "list_ex is_digit_byte s"] has_digit_loop_result)
      (auto intro: adds_rules)
  then have "adds (?m re_email (email_candidate ts s) @ (if list_ex is_digit_byte s then ?digits else []))
      (detect_pii ts c s)"
    unfolding detect_pii_def by (intro adds_rules)
  then show ?thesis by (simp add: pii_candidates_def)
qed

section \<open>The checksum\<close>

text \<open>The weight of a digit, and the weighted sum from the last digit on.\<close>

definition luhn_weight :: "bool \<Rightarrow> nat \<Rightarrow> nat" where
  "luhn_weight dbl d = (if dbl then if 9 < 2 * d then 2 * d - 9 else 2 * d else d)"

fun luhn_sum :: "bool \<Rightarrow> string \<Rightarrow> nat" where
  "luhn_sum dbl [] = 0"
| "luhn_sum dbl (c # cs) = luhn_weight dbl (byte_of c - 48) + luhn_sum (\<not> dbl) cs"

lemma luhn_loop_sum:
  "luhn_loop acc dbl cs \<longleftrightarrow> list_all is_digit_byte cs \<and> (acc + luhn_sum dbl cs) mod 10 = 0"
  by (induction acc dbl cs rule: luhn_loop.induct)
    (auto simp: Let_def luhn_weight_def mult.commute add.assoc)

lemma luhn_sum_append:
  "luhn_sum dbl (xs @ ys) = luhn_sum dbl xs + luhn_sum (dbl \<noteq> odd (length xs)) ys"
proof (induction xs arbitrary: dbl)
  case (Cons x xs)
  show ?case by (cases dbl; cases "even (length xs)") (simp_all add: Cons.IH)
qed simp

lemma luhn_valid_sum:
  "luhn_valid num \<longleftrightarrow> num \<noteq> [] \<and> list_all is_digit_byte num \<and> luhn_sum False (rev num) mod 10 = 0"
  by (simp add: luhn_valid_def luhn_loop_sum)

lemma digit_cases: "(d :: nat) < 10 \<Longrightarrow> d \<in> {0, 1, 2, 3, 4, 5, 6, 7, 8, 9}"
  by auto

lemma luhn_weight_inj:
  assumes "a < 10" "b < 10" "luhn_weight dbl a mod 10 = luhn_weight dbl b mod 10"
  shows "a = b"
  using digit_cases [OF assms(1)] digit_cases [OF assms(2)] assms(3)
  by (cases dbl) (auto simp: luhn_weight_def)

lemma digit_value: "is_digit_byte c \<Longrightarrow> byte_of c - 48 < 10 \<and> byte_of c = 48 + (byte_of c - 48)"
  by (auto simp: is_digit_byte_def)

lemma same_residue: "(r + a) mod 10 = 0 \<Longrightarrow> (r + b) mod 10 = 0 \<Longrightarrow> a mod 10 = b mod (10 :: nat)"
proof -
  assume "(r + a) mod 10 = 0" "(r + b) mod 10 = 0"
  then have "(10 :: int) dvd int (r + a) - int (r + b)"
    by (intro dvd_diff) (presburger, presburger)
  then have "int a mod 10 = int b mod 10" by (simp add: mod_eq_dvd_iff)
  then show ?thesis by (metis of_nat_eq_iff of_nat_mod of_nat_numeral)
qed

lemma luhn_single_error:
  assumes "luhn_valid (xs @ [c] @ ys)" "luhn_valid (xs @ [d] @ ys)"
  shows "c = d"
proof -
  let ?b = "odd (length ys)"
  let ?r = "luhn_sum False (rev ys) + luhn_sum (\<not> ?b) (rev xs)"
  have sum: "luhn_sum False (rev (xs @ [x] @ ys)) = ?r + luhn_weight ?b (byte_of x - 48)" for x
    by (simp add: luhn_sum_append)
  have "(?r + luhn_weight ?b (byte_of c - 48)) mod 10 = 0" "(?r + luhn_weight ?b (byte_of d - 48)) mod 10 = 0"
    and dg: "is_digit_byte c" "is_digit_byte d"
    using assms unfolding luhn_valid_sum sum by simp_all
  from same_residue [OF this(1,2)]
  have "luhn_weight ?b (byte_of c - 48) mod 10 = luhn_weight ?b (byte_of d - 48) mod 10" .
  then have "byte_of c - 48 = byte_of d - 48"
    using digit_value [OF dg(1)] digit_value [OF dg(2)] luhn_weight_inj by blast
  then have "byte_of c = byte_of d" using digit_value [OF dg(1)] digit_value [OF dg(2)] by simp
  then show ?thesis by (simp add: byte_of_inj)
qed

end
