(* ===== verification/Detect_Secrets.thy ===== *)
theory Detect_Secrets
  imports Detect_Pii Key_Names
begin

text \<open>
  The secret detectors of \<open>internal/privacyengine/secrets.go\<close>: credential fields, the rules of
  the rule files, values next to a keyword, and tokens of high entropy. As in \<open>Detect_Pii\<close> a
  closure passed to a loop is modelled by the candidate it adds.
\<close>

section \<open>Patterns\<close>

text \<open>The runes of the Chinese keywords.\<close>

definition rword :: "string \<Rightarrow> regex" where "rword s = rlit_fold s"

definition rclass_fold :: "(nat \<times> nat) list \<Rightarrow> regex" where
  "rclass_fold rs = RClass False True rs"

definition ident_start :: "(nat \<times> nat) list" where
  "ident_start = letters @ chars ''_''"

definition ident_rest :: "(nat \<times> nat) list" where
  "ident_rest = alnum @ chars ''_''"

definition rident :: regex where
  "rident = RCat (rset ident_start) (RStar (rset ident_rest))"

definition rident_fold :: regex where
  "rident_fold = RCat (rclass_fold ident_start) (RStar (rclass_fold ident_rest))"

definition quote_chars :: "(nat \<times> nat) list" where
  "quote_chars = [(39, 39), (34, 34)]"

definition re_context_secret :: regexp where
  "re_context_secret = compile_regex 1 (rcats
     [ralts (map rword [''PASSWORD'', ''PASSWD'', ''SECRET'', ''API_KEY'', ''PRIVATE_KEY'', ''ACCESS_KEY'',
         ''AUTH_TOKEN'', ''ENCRYPTION_KEY'', ''SIGNING_KEY'', ''DB_PASSWORD'', ''DATABASE_PASSWORD''] @
         map rrunes [[0x5BC6, 0x7801], [0x53E3, 0x4EE4], [0x5BC6, 0x94A5]]),
      rspaces, rset (chars ''=:'' @ [(0xFF1A, 0xFF1A)]), rspaces, ROpt (rset quote_chars),
      RGroup 1 (rmin 8 (RClass True True
        (space_ranges @ quote_chars @ [(0xFF0C, 0xFF0C), (0x3002, 0x3002), (0xFF1B, 0xFF1B)] @ chars '';'')))])"

definition re_secret_context :: regexp where
  "re_secret_context = compile_regex 0 (ralts
     (map rword [''password'', ''passwd'', ''pwd'', ''secret'', ''token''] @
      [rcats [rword ''api'', ROpt (rset (chars ''_-'' @ space_ranges)), rword ''key''],
       rcats [rword ''access'', ROpt (rset (chars ''_-'' @ space_ranges)), rword ''key'']] @
      map rword [''bearer'', ''authorization'', ''credential'', ''jwt''] @
      map rrunes [[0x5BC6, 0x7801], [0x53E3, 0x4EE4], [0x5BC6, 0x94A5], [0x51ED, 0x8BC1],
        [0x4EE4, 0x724C], [0x9274, 0x6743]]))"

definition re_template_var :: regexp where
  "re_template_var = compile_regex 0 (rcats [RBegin, ralts
     [rcats [rlit ''{{'', rspaces, rident, rspaces, rlit ''}}''],
      rcats [rlit ''${{'', rspaces, rword ''secrets'', rlit ''.'', rident, rspaces, rlit ''}}''],
      rcats [rlit ''${'', rident, rlit ''}''],
      rcats [rlit ''$('', rident, rlit '')''],
      rcats [rlit ''%{'', rident, rlit ''}''],
      rcats [rlit ''<'', rident, rlit ''>'']], REnd])"

definition re_simple_var :: regexp where
  "re_simple_var = compile_regex 0 (rcats [RBegin, ralts
     [rcats [rlit ''$'', rident_fold], rcats [rlit ''$'', rword ''env'', rlit '':'', rident_fold],
      rcats [rlit ''%'', rident_fold, rlit ''%'']], REnd])"

definition re_credential_placeholder :: regexp where
  "re_credential_placeholder = compile_regex 0 (rcats [RBegin, RAlt
     (RCat (ralts (map rword [''redacted'', ''masked'', ''hidden''])) (ROpt (RCat (rlit ''#'') (rplus rdigit))))
     (rcats [rlit ''['', ralts (map rword [''redacted'', ''masked'', ''hidden'', ''secret'', ''credential''] @
        [rcats [rword ''api'', ROpt (rset (chars ''_ -'')), rword ''key''],
         rcats [rword ''e'', ROpt (rlit ''-''), rword ''mail''], rword ''phone'',
         RCat (rword ''id'') (ROpt (rword ''_card'')), rword ''card'', rword ''bank_card'',
         RCat (rword ''ip'') (ROpt (rword ''_address''))] @
        map rrunes [[0x90AE, 0x7BB1], [0x7535, 0x8BDD], [0x8EAB, 0x4EFD, 0x8BC1],
          [0x94F6, 0x884C, 0x5361], [0x5BC6, 0x94A5]]),
        ROpt (RCat (rlit ''#'') (rplus rdigit)), rlit '']'']), REnd])"

definition re_mask_only :: regexp where
  "re_mask_only = compile_regex 0 (rcats [RBegin, rmin 3 (rset (chars ''*xX._-'')), REnd])"

definition hex_ranges :: "(nat \<times> nat) list" where
  "hex_ranges = [range_of CHR ''0'' CHR ''9'', range_of CHR ''a'' CHR ''f'', range_of CHR ''A'' CHR ''F'']"

definition re_uuid :: regexp where
  "re_uuid = compile_regex 0 (rcats [RBegin, rrep 8 (rset hex_ranges), rlit ''-'', rrep 4 (rset hex_ranges), rlit ''-'',
     rrep 4 (rset hex_ranges), rlit ''-'', rrep 4 (rset hex_ranges), rlit ''-'', rrep 12 (rset hex_ranges), REnd])"

definition re_hex_only :: regexp where
  "re_hex_only = compile_regex 0 (rcats [RBegin, rplus (rset hex_ranges), REnd])"

definition re_auth_header_prefix :: regexp where
  "re_auth_header_prefix = compile_regex 0 (rcats [RWordB, rword ''authorization'', rspaces, rlit '':'', rspaces,
     ralts (map rword [''basic'', ''bearer'', ''digest'', ''ntlm'', ''hmac'', ''token'']),
     rplus (RClass False False space_ranges), REnd])"

definition re_host_port_prefix :: regexp where
  "re_host_port_prefix = compile_regex 0 (rcats [RBegin, rset alnum, RStar (rset (alnum @ chars ''.-'')), rlit ''.'',
     rplus (rset (alnum @ chars ''-'')), rlit '':''])"

section \<open>Word lists\<close>

definition path_boundary_chars :: string where "path_boundary_chars = CHR 0x5C # ''/:.@?=''"
definition path_internal_chars :: string where "path_internal_chars = CHR 0x5C # ''/:''"
definition assignment_chars :: string where
  "assignment_chars = [CHR '' '', CHR 0x09, CHR 0x0D, CHR 0x0A, CHR ''='', CHR '':'', CHR 0x27, CHR 0x22]"

definition url_prefixes :: "string list" where
  "url_prefixes = [''http://'', ''https://'', ''ftp://'', ''ssh://'', ''s3://'', ''gs://'', ''oss://'',
     ''git@'', ''sha256:'', ''sha1:'', ''md5:'']"

definition benign_id_suffixes :: "string list" where
  "benign_id_suffixes = [''_id'', ''_uuid'', ''_uid'', ''_oid'', ''_no'', ''_seq'']"

definition common_placeholders :: "string list" where
  "common_placeholders = [''REPLACE_ME'', ''REPLACE_THIS'', ''REPLACE_WITH'',
     ''YOUR_KEY'', ''YOUR_TOKEN'', ''YOUR_SECRET'', ''YOUR_API_KEY'', ''YOUR_PASSWORD'',
     ''INSERT_HERE'', ''INSERT_KEY'', ''INSERT_TOKEN'', ''PLACEHOLDER'', ''EXAMPLE_KEY'', ''EXAMPLE_TOKEN'',
     ''TODO'', ''FIXME'', ''XXXX'']"

section \<open>Tests on candidates\<close>

definition is_template_var :: "string \<Rightarrow> bool" where
  "is_template_var v = match_string re_template_var v"

definition is_hex_hash :: "string \<Rightarrow> bool" where
  "is_hex_hash v = ((length v = 32 \<or> length v = 40 \<or> length v = 64) \<and> match_string re_hex_only v)"

definition is_uuid :: "string \<Rightarrow> bool" where
  "is_uuid v = match_string re_uuid v"

definition is_business_id_assignment :: "tools \<Rightarrow> string \<Rightarrow> bool" where
  "is_business_id_assignment ts v =
    (let equals = index_byte v CHR ''='' in
     if equals \<le> 0 then False
     else let name = to_lower ts (islice v 0 equals) in
       if list_ex (contains name) [''key'', ''secret'', ''token'', ''auth'', ''password'', ''credential''] then False
       else list_ex (ends_with name) benign_id_suffixes)"

definition looks_like_url_match :: "string \<Rightarrow> bool" where
  "looks_like_url_match v = (contains v ''://'' \<or> match_string re_host_port_prefix v)"

definition is_likely_placeholder :: "tools \<Rightarrow> string \<Rightarrow> bool" where
  "is_likely_placeholder ts v = list_ex (contains (to_upper ts v)) common_placeholders"

definition is_exact_common_placeholder :: "tools \<Rightarrow> string \<Rightarrow> bool" where
  "is_exact_common_placeholder ts v = list_ex (\<lambda>p. to_upper ts v = p) common_placeholders"

definition has_json_noise :: "string \<Rightarrow> bool" where
  "has_json_noise v = (0 \<le> index_byte v CHR '','')"

text \<open>\<open>strings.TrimSpace\<close>: the white space of Unicode, decoded from either end.\<close>

definition space_runes :: "nat list" where
  "space_runes = [9, 10, 11, 12, 13, 32, 0x85, 0xA0, 0x1680, 0x2028, 0x2029, 0x202F, 0x205F, 0x3000] @ [0x2000..<0x200B]"

function trim_left :: "string \<Rightarrow> string" where
  "trim_left s =
    (if s \<noteq> [] \<and> fst (decode_rune s) \<in> set space_runes then trim_left (drop (max 1 (snd (decode_rune s))) s) else s)"
  by pat_completeness auto
termination
  by (relation "measure length") auto

declare trim_left.simps [simp del]

function trim_right :: "string \<Rightarrow> string" where
  "trim_right s =
    (case find (\<lambda>r. ends_with s (encode_rune r)) space_runes of
       None \<Rightarrow> s
     | Some r \<Rightarrow> if s = [] then s else trim_right (take (length s - max 1 (length (encode_rune r))) s))"
  by pat_completeness auto
termination
  by (relation "measure length") auto

declare trim_right.simps [simp del]

definition trim_space :: "string \<Rightarrow> string" where
  "trim_space s = trim_right (trim_left s)"

definition is_credential_placeholder :: "tools \<Rightarrow> string \<Rightarrow> bool" where
  "is_credential_placeholder ts v =
    (let trimmed = trim_space v in
     trimmed = [] \<or> is_template_var trimmed \<or> match_string re_simple_var trimmed \<or>
     match_string re_credential_placeholder trimmed \<or> match_string re_mask_only trimmed \<or>
     is_exact_common_placeholder ts trimmed)"

definition contains_any :: "string \<Rightarrow> string \<Rightarrow> bool" where
  "contains_any s cs = list_ex (\<lambda>c. c \<in> set cs) s"

definition is_context_secret_noise :: "tools \<Rightarrow> string \<Rightarrow> bool" where
  "is_context_secret_noise ts v =
    (if is_credential_placeholder ts v \<or> is_template_var v \<or> contains v ''${'' then True
     else if length v \<le> 16 \<and> t_entropy ts v < 3 then True
     else if length v \<le> 24 \<and> contains_any v ''()[]{}'' then True
     else False)"

definition is_filesystem_path :: "string \<Rightarrow> bool" where
  "is_filesystem_path v =
    (if length (filter (\<lambda>c. c = CHR ''/'') v) < 2 then False
     else starts_with v ''/'' \<or> starts_with v ''./'' \<or> starts_with v ''../'')"

definition is_on_path_or_url_boundary :: "string \<Rightarrow> int \<Rightarrow> int \<Rightarrow> bool" where
  "is_on_path_or_url_boundary s start stop =
    (if start < 0 \<or> stop \<le> start \<or> int (length s) < stop then True
     else if contains_any (islice s start stop) path_internal_chars then True
     else if 0 < start \<and> s ! nat (start - 1) \<in> set path_boundary_chars then True
     else if stop < int (length s) \<and> s ! nat stop \<in> set path_boundary_chars then True
     else let lookback = islice s (if start - 8 < 0 then 0 else start - 8) start
       in list_ex (contains lookback) url_prefixes)"

section \<open>Context of a candidate\<close>

function skip_continuation :: "string \<Rightarrow> int \<Rightarrow> int \<Rightarrow> int" where
  "skip_continuation s start i =
    (if i < start \<and> i < int (length s) \<and> \<not> rune_start (s ! nat i) then skip_continuation s start (i + 1) else i)"
  by pat_completeness auto
termination
  by (relation "measure (\<lambda>(s, start, i). nat (start - i))") auto

declare skip_continuation.simps [simp del]

definition context_start :: "string \<Rightarrow> int \<Rightarrow> int" where
  "context_start s start =
     (let lookback_start = (if start - 30 < 0 then 0 else start - 30)
      in skip_continuation s start lookback_start)"

definition context_probe_end :: "string \<Rightarrow> int \<Rightarrow> int \<Rightarrow> int" where
  "context_probe_end s start stop =
     (let probe_end = (if start + 64 > stop then stop else start + 64)
      in if probe_end > int (length s) then int (length s) else probe_end)"

text \<open>\<open>lastMatchIndex\<close>: \<open>None\<close> for not found.\<close>

function last_match_loop :: "regexp \<Rightarrow> string \<Rightarrow> nat \<Rightarrow> (int \<times> int) option \<Rightarrow> (int \<times> int) option" where
  "last_match_loop re s offset found =
    (if offset \<le> length s then
       case re (drop offset s) of
         Some (a # b # _) \<Rightarrow>
           let found' = Some (int offset + a, int offset + b) in
           if b \<le> 0 then
             (if offset = length s then found'
              else last_match_loop re s (offset + advance_width s offset) found')
           else last_match_loop re s (offset + nat b) found'
       | _ \<Rightarrow> found
     else found)"
  by pat_completeness auto
termination
  by (relation "measure (\<lambda>(re, s, offset, found). Suc (length s) - offset)")
    (auto simp: advance_width_def Let_def)

declare last_match_loop.simps [simp del]

definition last_match_index :: "regexp \<Rightarrow> string \<Rightarrow> (int \<times> int) option" where
  "last_match_index re s = last_match_loop re s 0 None"

definition has_secret_context :: "string \<Rightarrow> int \<Rightarrow> int \<Rightarrow> bool" where
  "has_secret_context s start stop =
    (if start < 0 \<or> stop \<le> start \<or> int (length s) < stop then False
     else match_string re_secret_context (islice s (context_start s start) (context_probe_end s start stop)))"

definition has_strong_secret_context :: "string \<Rightarrow> int \<Rightarrow> int \<Rightarrow> bool" where
  "has_strong_secret_context s start stop =
    (if start < 0 \<or> stop \<le> start \<or> int (length s) < stop then False
     else let lookback_start = context_start s start in
       if match_string re_auth_header_prefix (islice s lookback_start start) then True
       else let region = islice s lookback_start (context_probe_end s start stop) in
         case last_match_index re_secret_context region of
           None \<Rightarrow> False
         | Some (last_start, last_end) \<Rightarrow>
             let candidate_start = start - lookback_start in
             if candidate_start < 0 \<or> candidate_start > int (length region) \<or> last_start < 0 \<or>
                last_end < last_start \<or> last_end > int (length region) then False
             else if last_start \<ge> candidate_start \<or> last_end > candidate_start then True
             else list_all (\<lambda>c. c \<in> set assignment_chars) (islice region last_end candidate_start))"

section \<open>Rules\<close>

datatype allowlist_condition = AllowlistOR | AllowlistAND

datatype allowlist_target = AllowlistSecret | AllowlistMatch | AllowlistLine

record compiled_allowlist =
  al_condition :: allowlist_condition
  al_target :: allowlist_target
  al_regexes :: "regexp list"
  al_stopwords :: "string list"

record secret_rule =
  r_id :: string
  r_re :: regexp
  r_keywords :: "string list"
  r_entropy :: rat
  r_secret_group :: int
  r_automatic_capture :: bool
  r_allowlists :: "compiled_allowlist list"

definition rule_applies :: "secret_rule \<Rightarrow> string \<Rightarrow> bool" where
  "rule_applies r lower_text = (if r_keywords r = [] then True else list_ex (contains lower_text) (r_keywords r))"

record allowlist_candidate =
  ac_secret :: string
  ac_match :: string
  ac_line :: string

definition allowlist_matches :: "tools \<Rightarrow> compiled_allowlist \<Rightarrow> allowlist_candidate \<Rightarrow> bool" where
  "allowlist_matches ts al cand =
    (let target = (case al_target al of
           AllowlistSecret \<Rightarrow> ac_secret cand | AllowlistMatch \<Rightarrow> ac_match cand | AllowlistLine \<Rightarrow> ac_line cand);
         regex_matched = list_ex (\<lambda>re. find_string re target \<noteq> []) (al_regexes al);
         lower_secret = to_lower ts (ac_secret cand);
         stopword_matched = list_ex (contains lower_secret) (al_stopwords al)
     in if al_condition al = AllowlistAND then
          (al_regexes al = [] \<or> regex_matched) \<and> (al_stopwords al = [] \<or> stopword_matched)
        else regex_matched \<or> stopword_matched)"

definition any_allowlisted :: "tools \<Rightarrow> compiled_allowlist list \<Rightarrow> allowlist_candidate \<Rightarrow> bool" where
  "any_allowlisted ts als cand = list_ex (\<lambda>al. allowlist_matches ts al cand) als"

definition line_containing :: "string \<Rightarrow> int \<Rightarrow> int \<Rightarrow> string" where
  "line_containing s start stop =
    (if start < 0 \<or> stop < start \<or> int (length s) < stop then []
     else
       let line_start = last_index_byte (islice s 0 start) CHR 0x0A + 1;
           relative = index_byte (drop (nat stop) s) CHR 0x0A;
           line_end = (if 0 \<le> relative then stop + relative else int (length s))
       in islice s line_start line_end)"

text \<open>The first participating capture group, from index 2 on.\<close>

fun first_capture :: "int list \<Rightarrow> (int \<times> int) option" where
  "first_capture (a # b # rest) = (if 0 \<le> a \<and> a < b then Some (a, b) else first_capture rest)"
| "first_capture _ = None"

text \<open>The span a rule selects from the indices of a match; \<open>None\<close> for \<open>return nil\<close>.\<close>

definition rule_span :: "secret_rule \<Rightarrow> int list \<Rightarrow> (int \<times> int) option" where
  "rule_span r ix =
    (if r_automatic_capture r then
       (case first_capture (drop 2 ix) of None \<Rightarrow> Some (ix ! 0, ix ! 1) | Some p \<Rightarrow> Some p)
     else if 0 < r_secret_group r then
       let group_index = 2 * r_secret_group r in
       if group_index < 0 \<or> int (length ix) \<le> group_index + 1 then None
       else Some (ix ! nat group_index, ix ! nat (group_index + 1))
     else Some (ix ! 0, ix ! 1))"

definition rule_candidate ::
  "tools \<Rightarrow> compiled_allowlist list \<Rightarrow> string \<Rightarrow> secret_rule \<Rightarrow> int list \<Rightarrow> fspan option" where
  "rule_candidate ts globals s r ix =
    (if length ix < 2 \<or> ix ! 0 < 0 \<or> ix ! 1 < ix ! 0 \<or> int (length s) < ix ! 1 then None
     else case rule_span r ix of
       None \<Rightarrow> None
     | Some (start, stop) \<Rightarrow>
         if start < 0 \<or> stop \<le> start \<or> int (length s) < stop then None
         else let candidate = islice s start stop in
           if 0 < r_entropy r \<and> t_entropy ts candidate \<le> r_entropy r then None
           else let allow = \<lparr>ac_secret = candidate, ac_match = islice s (ix ! 0) (ix ! 1),
                             ac_line = line_containing s (ix ! 0) (ix ! 1)\<rparr> in
             if any_allowlisted ts globals allow \<or> any_allowlisted ts (r_allowlists r) allow then None
             else if looks_like_url_match candidate \<or> is_template_var candidate \<or> is_hex_hash candidate \<or>
                is_uuid candidate \<or> is_business_id_assignment ts candidate \<or>
                is_likely_placeholder ts candidate \<or> has_json_noise candidate then None
             else Some (mk_span start stop KindSecret (r_id r)))"

fun detect_rules ::
  "tools \<Rightarrow> compiled_allowlist list \<Rightarrow> ctx \<Rightarrow> string \<Rightarrow> string \<Rightarrow> secret_rule list \<Rightarrow> unit detect" where
  "detect_rules ts globals c s lower_text [] = ret ()"
| "detect_rules ts globals c s lower_text (r # rs) =
     seq (poll_d c)
     (seq (if \<not> rule_applies r lower_text then ret ()
           else for_each_submatch c (r_re r) s (visit_with (rule_candidate ts globals s r)) 0)
     (detect_rules ts globals c s lower_text rs))"

definition context_secret_candidate :: "tools \<Rightarrow> string \<Rightarrow> int list \<Rightarrow> fspan option" where
  "context_secret_candidate ts s ix =
    (if length ix < 4 \<or> ix ! 2 < 0 \<or> ix ! 3 \<le> ix ! 2 \<or> int (length s) < ix ! 3 then None
     else if is_context_secret_noise ts (islice s (ix ! 2) (ix ! 3)) then None
     else Some (mk_span (ix ! 2) (ix ! 3) KindSecret ''builtin.context-secret''))"

section \<open>Entropy tokens\<close>

definition is_entropy_token_byte :: "char \<Rightarrow> bool" where
  "is_entropy_token_byte c = in_ranges (alnum @ chars ''+/=_-'') (byte_of c)"

text \<open>The loop runs one index past the end; \<open>start\<close> is -1 outside a token.\<close>

fun entropy_loop :: "ctx \<Rightarrow> (int \<times> int \<Rightarrow> unit detect) \<Rightarrow> nat \<Rightarrow> int \<Rightarrow> string \<Rightarrow> unit detect" where
  "entropy_loop c visit i start [] =
     seq (if i mod 4096 = 0 then poll_d c else ret ())
     (if 0 \<le> start \<and> 20 \<le> int i - start then visit (start, int i) else ret ())"
| "entropy_loop c visit i start (x # xs) =
     seq (if i mod 4096 = 0 then poll_d c else ret ())
     (if is_entropy_token_byte x then
        entropy_loop c visit (Suc i) (if start < 0 then int i else start) xs
      else
        seq (if 0 \<le> start \<and> 20 \<le> int i - start then visit (start, int i) else ret ())
        (entropy_loop c visit (Suc i) (-1) xs))"

fun entropy_tokens :: "nat \<Rightarrow> int \<Rightarrow> string \<Rightarrow> (int \<times> int) list" where
  "entropy_tokens i start [] = (if 0 \<le> start \<and> 20 \<le> int i - start then [(start, int i)] else [])"
| "entropy_tokens i start (x # xs) =
    (if is_entropy_token_byte x then entropy_tokens (Suc i) (if start < 0 then int i else start) xs
     else (if 0 \<le> start \<and> 20 \<le> int i - start then [(start, int i)] else []) @ entropy_tokens (Suc i) (-1) xs)"

text \<open>The \<open>float64\<close> nearest to 4.8.\<close>

definition entropy_min_strict :: rat where
  "entropy_min_strict = 5404319552844595 / 1125899906842624"

fun entropy_candidate :: "tools \<Rightarrow> string \<Rightarrow> int \<times> int \<Rightarrow> fspan option" where
  "entropy_candidate ts s (start, stop) =
    (let candidate = islice s start stop;
         strong = has_strong_secret_context s start stop in
     if is_filesystem_path candidate \<or> (\<not> strong \<and> is_on_path_or_url_boundary s start stop) then None
     else if is_template_var candidate \<or> is_hex_hash candidate \<or> is_uuid candidate \<or>
        is_business_id_assignment ts candidate then None
     else let threshold = (if has_secret_context s start stop then 4 else entropy_min_strict) in
       if t_entropy ts candidate < threshold then None
       else Some (mk_span start stop KindSecret ''builtin.high-entropy''))"

definition has_ascii_upper :: "string \<Rightarrow> bool" where
  "has_ascii_upper s = list_ex (\<lambda>c. 65 \<le> byte_of c \<and> byte_of c \<le> 90) s"

definition detect_secrets ::
  "tools \<Rightarrow> secret_rule list \<Rightarrow> compiled_allowlist list \<Rightarrow> ctx \<Rightarrow> string \<Rightarrow> unit detect" where
  "detect_secrets ts rules globals c s =
     (let lower_text = (if has_ascii_upper s then to_lower ts s else s) in
      seq (detect_rules ts globals c s lower_text rules)
      (seq (for_each_submatch c re_context_secret s (visit_with (context_secret_candidate ts s)) 0)
      (entropy_loop c (visit_with (entropy_candidate ts s)) 0 (-1) s)))"

section \<open>Credential fields\<close>

record field_context =
  fc_ImmediateKey :: string
  fc_Ancestors :: "string list"
  fc_AncestorCount :: nat
  fc_ToolScope :: string
  fc_Structured :: bool
  fc_Encoded :: bool

definition normalize_credential_field_key :: "string \<Rightarrow> string" where
  "normalize_credential_field_key key = normalize_key 64 key"

definition credential_keys :: "string list" where
  "credential_keys = [''ak'', ''sk'', ''api_key'', ''apikey'', ''api_secret'', ''apisecret'',
     ''api_secret_key'', ''apisecretkey'', ''access_key'', ''accesskey'', ''access_key_id'', ''accesskeyid'',
     ''secret_key'', ''secretkey'', ''secret_access_key'', ''secretaccesskey'',
     ''aws_access_key_id'', ''awsaccesskeyid'', ''aws_secret_access_key'', ''awssecretaccesskey'',
     ''client_secret'', ''clientsecret'', ''private_key'', ''privatekey'',
     ''token'', ''access_token'', ''accesstoken'', ''api_token'', ''apitoken'',
     ''auth_token'', ''authtoken'', ''refresh_token'', ''refreshtoken'',
     ''session_token'', ''sessiontoken'', ''id_token'', ''idtoken'',
     ''client_token'', ''clienttoken'', ''secret_token'', ''secrettoken'',
     ''bearer_token'', ''bearertoken'', ''oauth_token'', ''oauthtoken'',
     ''password'', ''passwd'', ''pwd'', ''credential'', ''secret'', ''secrets'', ''authorization'']"

definition is_credential_field_key :: "string \<Rightarrow> bool" where
  "is_credential_field_key key = (normalize_credential_field_key key \<in> set credential_keys)"

definition is_credential_ancestor_field_key :: "string \<Rightarrow> bool" where
  "is_credential_ancestor_field_key key =
    (let normalized = normalize_credential_field_key key in
     normalized \<noteq> ''ak'' \<and> normalized \<noteq> ''sk'' \<and> is_credential_field_key normalized)"

definition credential_field_applies :: "field_context \<Rightarrow> bool" where
  "credential_field_applies f =
    (if \<not> fc_Structured f \<or> (fc_ToolScope f \<noteq> ''tool-input'' \<and> fc_ToolScope f \<noteq> ''tool-output'') then False
     else if is_credential_field_key (fc_ImmediateKey f) then True
     else list_ex is_credential_ancestor_field_key (take (fc_AncestorCount f) (fc_Ancestors f)))"

definition credential_field_candidate :: "tools \<Rightarrow> string \<Rightarrow> field_context \<Rightarrow> fspan option" where
  "credential_field_candidate ts s f =
    (if \<not> credential_field_applies f \<or> is_credential_placeholder ts s then None
     else Some (mk_span 0 (int (length s)) KindSecret ''builtin.credential-field''))"

definition detect_credential_field :: "tools \<Rightarrow> string \<Rightarrow> field_context \<Rightarrow> unit detect" where
  "detect_credential_field ts s f = visit_with (\<lambda>f. credential_field_candidate ts s f) f"

section \<open>The candidates of the secret detectors\<close>

definition rule_candidates ::
  "tools \<Rightarrow> compiled_allowlist list \<Rightarrow> string \<Rightarrow> string \<Rightarrow> secret_rule list \<Rightarrow> fspan list" where
  "rule_candidates ts globals s lower_text rules = concat (map (\<lambda>r.
     if rule_applies r lower_text then List.map_filter (rule_candidate ts globals s r) (all_matches (r_re r) s 0)
     else []) rules)"

definition secret_candidates ::
  "tools \<Rightarrow> secret_rule list \<Rightarrow> compiled_allowlist list \<Rightarrow> string \<Rightarrow> fspan list" where
  "secret_candidates ts rules globals s =
     rule_candidates ts globals s (if has_ascii_upper s then to_lower ts s else s) rules @
     List.map_filter (context_secret_candidate ts s) (all_matches re_context_secret s 0) @
     List.map_filter (entropy_candidate ts s) (entropy_tokens 0 (-1) s)"

lemma adds_detect_rules [adds_rules]:
  "adds (rule_candidates ts globals s lt rules) (detect_rules ts globals c s lt rules)"
proof (induction rules)
  case Nil
  then show ?case by (simp add: rule_candidates_def adds_rules)
next
  case (Cons r rules)
  let ?one = "if rule_applies r lt then List.map_filter (rule_candidate ts globals s r) (all_matches (r_re r) s 0) else []"
  have "adds ?one (if \<not> rule_applies r lt then ret ()
      else for_each_submatch c (r_re r) s (visit_with (rule_candidate ts globals s r)) 0)"
    by (auto intro: adds_rules adds_for_each_submatch)
  then have "adds ([] @ ?one @ rule_candidates ts globals s lt rules) (detect_rules ts globals c s lt (r # rules))"
    unfolding detect_rules.simps by (intro adds_rules Cons.IH)
  then show ?case by (simp add: rule_candidates_def)
qed

lemma map_filter_append [simp]: "List.map_filter f (xs @ ys) = List.map_filter f xs @ List.map_filter f ys"
  by (simp add: List.map_filter_def)

lemma adds_poll_if [adds_rules]: "adds [] (if b then poll_d c else ret ())"
  by (auto intro: adds_rules)

lemma adds_visit_if:
  "adds (List.map_filter cand (if b then [x] else [])) (if b then visit_with cand x else ret ())"
  using adds_visit [of cand x] adds_ret by (cases b) simp_all

lemma adds_entropy_loop [adds_rules]:
  "adds (List.map_filter cand (entropy_tokens i start xs)) (entropy_loop c (visit_with cand) i start xs)"
proof (induction c "visit_with cand" i start xs rule: entropy_loop.induct)
  case (1 c i start)
  have "adds ([] @ List.map_filter cand (if 0 \<le> start \<and> 20 \<le> int i - start then [(start, int i)] else []))
      (entropy_loop c (visit_with cand) i start [])"
    unfolding entropy_loop.simps by (intro adds_rules adds_visit_if)
  then show ?case by simp
next
  case (2 c i start x xs)
  show ?case
  proof (cases "is_entropy_token_byte x")
    case True
    have "adds ([] @ List.map_filter cand (entropy_tokens (Suc i) (if start < 0 then int i else start) xs))
        (entropy_loop c (visit_with cand) i start (x # xs))"
      unfolding entropy_loop.simps using True "2.hyps"(1) [OF True] by (intro adds_rules) simp
    with True show ?thesis by simp
  next
    case False
    let ?v = "if 0 \<le> start \<and> 20 \<le> int i - start then [(start, int i)] else []"
    have "adds ([] @ List.map_filter cand ?v @ List.map_filter cand (entropy_tokens (Suc i) (-1) xs))
        (seq (if i mod 4096 = 0 then poll_d c else ret ())
          (seq (if 0 \<le> start \<and> 20 \<le> int i - start then visit_with cand (start, int i) else ret ())
            (entropy_loop c (visit_with cand) (Suc i) (-1) xs)))"
      by (intro adds_seq adds_poll_if adds_visit_if "2.hyps"(2) [OF False])
    with False show ?thesis by simp
  qed
qed

lemma adds_detect_secrets [adds_rules]:
  "adds (secret_candidates ts rules globals s) (detect_secrets ts rules globals c s)"
  unfolding detect_secrets_def secret_candidates_def Let_def
  by (intro adds_rules adds_for_each_submatch)

lemma adds_detect_credential_field [adds_rules]:
  "adds (List.map_filter (credential_field_candidate ts s) [f]) (detect_credential_field ts s f)"
  unfolding detect_credential_field_def by (rule adds_visit)

end
