(* ===== verification/Rules.thy ===== *)
theory Rules
  imports Detect_Secrets
begin

text \<open>
  The rule loader: \<open>internal/privacyengine/rules.go\<close> and \<open>compatibility.go\<close>. The TOML library and
  the compiler of regular expressions are parameters: the result of \<open>toml.Decode\<close> is a \<open>raw_config\<close>
  together with the keys it did not decode, and \<open>regexp.Compile\<close> gives the expression and the
  number of its capture groups.
\<close>

section \<open>The report\<close>

datatype rule_source = RuleSourceEmbedded | RuleSourceCustom

type_synonym policy = "8 word"

definition CompatibilityError :: policy where "CompatibilityError = 0"
definition CompatibilitySkipUnsupported :: policy where "CompatibilitySkipUnsupported = 1"

datatype compat_action = CompatibilityRejected | CompatibilitySkipped | CompatibilityIgnored

record compat_issue =
  ci_Source :: rule_source
  ci_RuleID :: string
  ci_Feature :: string
  ci_Action :: compat_action
  ci_Detail :: string

record compat_report =
  cr_RulesSeen :: int
  cr_RulesLoaded :: int
  cr_RulesSkipped :: int
  cr_Issues :: "compat_issue list"

definition empty_report :: compat_report where
  "empty_report = \<lparr>cr_RulesSeen = 0, cr_RulesLoaded = 0, cr_RulesSkipped = 0, cr_Issues = []\<rparr>"

definition Compatible :: "compat_report \<Rightarrow> bool" where
  "Compatible r = (cr_Issues r = [])"

definition report_append :: "compat_report \<Rightarrow> compat_report \<Rightarrow> compat_report" where
  "report_append r other = r\<lparr>cr_RulesSeen := cr_RulesSeen r + cr_RulesSeen other,
     cr_RulesLoaded := cr_RulesLoaded r + cr_RulesLoaded other,
     cr_RulesSkipped := cr_RulesSkipped r + cr_RulesSkipped other,
     cr_Issues := cr_Issues r @ cr_Issues other\<rparr>"

definition has_rejected :: "compat_report \<Rightarrow> bool" where
  "has_rejected r = list_ex (\<lambda>i. ci_Action i = CompatibilityRejected) (cr_Issues r)"

definition push_issue :: "compat_issue \<Rightarrow> compat_report \<Rightarrow> compat_report" where
  "push_issue i r = r\<lparr>cr_Issues := cr_Issues r @ [i]\<rparr>"

section \<open>The decoded TOML\<close>

datatype toml_float = TFinite rat | TInf bool | TNaN

record raw_allowlist =
  ra_Condition :: string
  ra_RegexTarget :: string
  ra_Commits :: "string list"
  ra_Paths :: "string list"
  ra_Regexes :: "string list"
  ra_Stopwords :: "string list"

record raw_rule =
  rr_ID :: string
  rr_Regex :: string
  rr_Path :: string
  rr_Keywords :: "string list"
  rr_Entropy :: toml_float
  rr_SecretGroup :: "int option"
  rr_Allowlist :: "raw_allowlist option"
  rr_Allowlists :: "raw_allowlist list"

record raw_config =
  rc_Allowlist :: "raw_allowlist option"
  rc_Allowlists :: "raw_allowlist list"
  rc_Rules :: "raw_rule list"

type_synonym toml_decoder = "string \<Rightarrow> (raw_config \<times> string list) option"
type_synonym re_compiler = "string \<Rightarrow> (regexp \<times> nat) option"

text \<open>\<open>%d\<close> of an integer.\<close>

fun digits_of :: "nat \<Rightarrow> string" where
  "digits_of n = (if n < 10 then [byte (48 + n)] else digits_of (n div 10) @ [byte (48 + n mod 10)])"

declare digits_of.simps [simp del]

definition format_int :: "int \<Rightarrow> string" where
  "format_int i = (if i < 0 then ''-'' @ digits_of (nat (- i)) else digits_of (nat i))"

section \<open>Allowlists\<close>

text \<open>The closure \<open>addIssue\<close> of \<open>compileAllowlist\<close>; the state is the report and \<open>invalid\<close>.\<close>

definition allowlist_issue ::
  "policy \<Rightarrow> rule_source \<Rightarrow> string \<Rightarrow> string \<Rightarrow> string \<Rightarrow> string \<Rightarrow> bool \<Rightarrow>
     compat_report \<times> bool \<Rightarrow> compat_report \<times> bool" where
  "allowlist_issue pol src rid feature suffix detail unsupported s =
    (push_issue \<lparr>ci_Source = src, ci_RuleID = rid, ci_Feature = feature @ suffix,
       ci_Action = (if pol = CompatibilitySkipUnsupported then CompatibilityIgnored else CompatibilityRejected),
       ci_Detail = detail\<rparr> (fst s),
     snd s \<or> \<not> unsupported \<or> pol = CompatibilityError)"

fun compile_regexes ::
  "re_compiler \<Rightarrow> (compat_report \<times> bool \<Rightarrow> compat_report \<times> bool) \<Rightarrow> string list \<Rightarrow>
     compat_report \<times> bool \<Rightarrow> regexp list \<times> compat_report \<times> bool" where
  "compile_regexes rx bad [] s = ([], s)"
| "compile_regexes rx bad (e # es) s =
    (case rx e of
       None \<Rightarrow> compile_regexes rx bad es (bad s)
     | Some (re, _) \<Rightarrow> (case compile_regexes rx bad es s of (res, s) \<Rightarrow> (re # res, s)))"

fun compile_words ::
  "tools \<Rightarrow> (compat_report \<times> bool \<Rightarrow> compat_report \<times> bool) \<Rightarrow> string list \<Rightarrow>
     compat_report \<times> bool \<Rightarrow> string list \<times> compat_report \<times> bool" where
  "compile_words ts bad [] s = ([], s)"
| "compile_words ts bad (w # ws) s =
    (if w = [] then compile_words ts bad ws (bad s)
     else (case compile_words ts bad ws s of (out, s) \<Rightarrow> (to_lower ts w # out, s)))"

text \<open>The two \<open>switch\<close> statements; \<open>bad\<close> is the issue of the default branch.\<close>

definition parse_condition ::
  "tools \<Rightarrow> (compat_report \<times> bool \<Rightarrow> compat_report \<times> bool) \<Rightarrow> string \<Rightarrow>
     compat_report \<times> bool \<Rightarrow> allowlist_condition \<times> compat_report \<times> bool" where
  "parse_condition ts bad condition s =
    (let c = to_upper ts condition in
     if c \<in> {'''', ''OR'', ''||''} then (AllowlistOR, s)
     else if c \<in> {''AND'', ''&&''} then (AllowlistAND, s)
     else (AllowlistOR, bad s))"

definition parse_target ::
  "(compat_report \<times> bool \<Rightarrow> compat_report \<times> bool) \<Rightarrow> string \<Rightarrow>
     compat_report \<times> bool \<Rightarrow> allowlist_target \<times> compat_report \<times> bool" where
  "parse_target bad target s =
    (if target \<in> {'''', ''secret''} then (AllowlistSecret, s)
     else if target = ''match'' then (AllowlistMatch, s)
     else if target = ''line'' then (AllowlistLine, s)
     else (AllowlistSecret, bad s))"

definition unsupported_criteria ::
  "(string \<Rightarrow> string \<Rightarrow> compat_report \<times> bool \<Rightarrow> compat_report \<times> bool) \<Rightarrow> raw_allowlist \<Rightarrow>
     compat_report \<times> bool \<Rightarrow> compat_report \<times> bool" where
  "unsupported_criteria bad a s =
    (let s = (if ra_Paths a \<noteq> [] then bad ''.paths'' ''path criteria are unavailable for protocol text'' s else s)
     in if ra_Commits a \<noteq> [] then bad ''.commits'' ''commit criteria are unavailable for protocol text'' s else s)"

definition compile_allowlist ::
  "tools \<Rightarrow> re_compiler \<Rightarrow> raw_allowlist \<Rightarrow> rule_source \<Rightarrow> string \<Rightarrow> string \<Rightarrow> policy \<Rightarrow>
     compat_report \<Rightarrow> compiled_allowlist option \<times> compat_report" where
  "compile_allowlist ts rx a src rid feature pol report =
    (let issue = allowlist_issue pol src rid feature;
         (cond, s) = parse_condition ts (issue ''.condition'' ''condition must be OR or AND'' False)
           (ra_Condition a) (report, False);
         (target, s) = parse_target
           (issue ''.regexTarget'' ''regexTarget must be secret, match, or line'' False) (ra_RegexTarget a) s;
         (res, s) = compile_regexes rx
           (issue ''.regexes'' ''allowlist regular expression does not compile'' False) (ra_Regexes a) s;
         (words, s) = compile_words ts
           (issue ''.stopwords'' ''stopwords must not contain an empty string'' False) (ra_Stopwords a) s;
         s = unsupported_criteria (\<lambda>suffix detail. issue suffix detail True) a s;
         unsupported_criterion = (ra_Paths a \<noteq> [] \<or> ra_Commits a \<noteq> [])
     in
       if pol = CompatibilitySkipUnsupported \<and> cond = AllowlistAND \<and> unsupported_criterion then (None, fst s)
       else if snd s then (None, fst s)
       else if res = [] \<and> words = [] then
         (if unsupported_criterion \<and> pol = CompatibilitySkipUnsupported then (None, fst s)
          else (None, fst (issue [] ''allowlist has no supported criteria'' False s)))
       else (Some \<lparr>al_condition = cond, al_target = target, al_regexes = res, al_stopwords = words\<rparr>, fst s))"

section \<open>Rule sets\<close>

record parsed_rule_set =
  ps_rules :: "secret_rule list"
  ps_globals :: "compiled_allowlist list"
  ps_report :: compat_report

definition add_issue :: "policy \<Rightarrow> rule_source \<Rightarrow> string \<Rightarrow> string \<Rightarrow> string \<Rightarrow> compat_report \<Rightarrow> compat_report" where
  "add_issue pol src rid feature detail =
     push_issue \<lparr>ci_Source = src, ci_RuleID = rid, ci_Feature = feature,
       ci_Action = (if pol = CompatibilitySkipUnsupported then CompatibilityIgnored else CompatibilityRejected),
       ci_Detail = detail\<rparr>"

text \<open>\<open>addRuleIssue\<close>, called by the closure \<open>invalidate\<close>; the state is the report and \<open>invalid\<close>.\<close>

definition add_rule_issue ::
  "policy \<Rightarrow> string \<Rightarrow> rule_source \<Rightarrow> string \<Rightarrow> string \<Rightarrow> compat_report \<times> bool \<Rightarrow> compat_report \<times> bool" where
  "add_rule_issue pol rid src feature detail s =
    (push_issue \<lparr>ci_Source = src, ci_RuleID = rid, ci_Feature = feature,
       ci_Action = (if pol = CompatibilitySkipUnsupported then CompatibilitySkipped else CompatibilityRejected),
       ci_Detail = detail\<rparr> (fst s), True)"

definition finish_invalid_rule :: "policy \<Rightarrow> bool \<Rightarrow> compat_report \<Rightarrow> compat_report" where
  "finish_invalid_rule pol invalid r =
    (if invalid \<and> pol = CompatibilitySkipUnsupported then r\<lparr>cr_RulesSkipped := cr_RulesSkipped r + 1\<rparr> else r)"

definition load_keywords ::
  "tools \<Rightarrow> (compat_report \<times> bool \<Rightarrow> compat_report \<times> bool) \<Rightarrow> string list \<Rightarrow>
     compat_report \<times> bool \<Rightarrow> string list \<times> compat_report \<times> bool" where
  "load_keywords ts bad ws s = compile_words ts bad ws s"

fun load_allowlists ::
  "(raw_allowlist \<Rightarrow> string \<Rightarrow> compat_report \<Rightarrow> compiled_allowlist option \<times> compat_report) \<Rightarrow> string \<Rightarrow> nat \<Rightarrow>
     raw_allowlist list \<Rightarrow> compat_report \<Rightarrow> compiled_allowlist list \<times> compat_report" where
  "load_allowlists compile_one prefix i [] r = ([], r)"
| "load_allowlists compile_one prefix i (a # as) r =
    (case compile_one a (prefix @ ''['' @ digits_of i @ '']'') r of
       (o1, r) \<Rightarrow>
         (case load_allowlists compile_one prefix (Suc i) as r of
            (rest, r) \<Rightarrow> ((case o1 of None \<Rightarrow> rest | Some c \<Rightarrow> c # rest), r)))"

text \<open>The singular and the plural allowlists of a rule or of the file.\<close>

definition both_allowlists ::
  "tools \<Rightarrow> re_compiler \<Rightarrow> policy \<Rightarrow> rule_source \<Rightarrow> string \<Rightarrow> string \<Rightarrow> string \<Rightarrow>
     raw_allowlist option \<Rightarrow> raw_allowlist list \<Rightarrow> compat_report \<Rightarrow> compiled_allowlist list \<times> compat_report" where
  "both_allowlists ts rx pol src rid feature mixed single many r =
    (let compile_one = (\<lambda>a f r. compile_allowlist ts rx a src rid f pol r);
         r = (if single \<noteq> None \<and> many \<noteq> [] then add_issue pol src rid feature mixed r else r);
         (first, r) = (case single of None \<Rightarrow> (None, r) | Some a \<Rightarrow> compile_one a feature r);
         (rest, r) = load_allowlists compile_one (feature @ ''s'') 0 many r
     in ((case first of None \<Rightarrow> rest | Some c \<Rightarrow> c # rest), r))"

definition finite_entropy :: "toml_float \<Rightarrow> rat option" where
  "finite_entropy e = (case e of TFinite q \<Rightarrow> if q < 0 then None else Some q | _ \<Rightarrow> None)"

text \<open>The checks of the id and of the path, in this order.\<close>

definition check_rule_id ::
  "(string \<Rightarrow> string \<Rightarrow> compat_report \<times> bool \<Rightarrow> compat_report \<times> bool) \<Rightarrow> string set \<Rightarrow> string \<Rightarrow>
     compat_report \<times> bool \<Rightarrow> compat_report \<times> bool" where
  "check_rule_id invalidate seen rid s =
    (if rid = [] then invalidate ''rule.id'' ''rule id is required'' s
     else if rid \<in> seen then invalidate ''rule.id'' ''duplicate rule id'' s
     else s)"

definition check_rule_path ::
  "re_compiler \<Rightarrow> (string \<Rightarrow> string \<Rightarrow> compat_report \<times> bool \<Rightarrow> compat_report \<times> bool) \<Rightarrow> raw_rule \<Rightarrow>
     compat_report \<times> bool \<Rightarrow> compat_report \<times> bool" where
  "check_rule_path rx invalidate rr s =
    (if rr_Path rr = [] then s
     else if rx (rr_Path rr) = None then invalidate ''rule.path'' ''path regular expression does not compile'' s
     else if rr_Regex rr = [] then
       invalidate ''rule.path-only'' ''path-only rules cannot produce a protocol-text span'' s
     else invalidate ''rule.path'' ''path-constrained rules do not run for pathless protocol text'' s)"

text \<open>The checks of a rule with a content expression, up to its keywords.\<close>

definition rule_checks ::
  "tools \<Rightarrow> re_compiler \<Rightarrow> policy \<Rightarrow> rule_source \<Rightarrow> string \<Rightarrow> string set \<Rightarrow> raw_rule \<Rightarrow>
     compat_report \<Rightarrow> string list \<times> compat_report \<times> bool" where
  "rule_checks ts rx pol src rid seen rr r =
    (let invalidate = (\<lambda>f d. add_rule_issue pol rid src f d);
         s = check_rule_path rx invalidate rr (check_rule_id invalidate seen rid (r, False));
         re = rx (rr_Regex rr);
         s = (if re = None then
                invalidate ''rule.regex'' ''regular expression is not compatible with Go RE2'' s else s);
         s = (if finite_entropy (rr_Entropy rr) = None then
                invalidate ''rule.entropy'' ''entropy must be a finite non-negative number'' s else s);
         group = (case rr_SecretGroup rr of None \<Rightarrow> 0 | Some g \<Rightarrow> g);
         s = (case re of None \<Rightarrow> s
              | Some (_, n) \<Rightarrow>
                  if group < 0 \<or> int n < group then
                    invalidate ''rule.secretGroup''
                      (''capture group '' @ format_int group @ '' is outside 0..'' @ format_int (int n)) s
                  else s)
     in load_keywords ts (invalidate ''rule.keywords'' ''keywords must not contain an empty string'') (rr_Keywords rr) s)"

text \<open>One round of the loop over the rules.\<close>

definition load_rule ::
  "tools \<Rightarrow> re_compiler \<Rightarrow> policy \<Rightarrow> rule_source \<Rightarrow> raw_rule \<Rightarrow>
     string set \<times> parsed_rule_set \<Rightarrow> string set \<times> parsed_rule_set" where
  "load_rule ts rx pol src rr st =
    (case st of (seen, p) \<Rightarrow>
     let rid = trim_space (rr_ID rr);
         seen' = (if rid = [] then seen else insert rid seen)
     in
       if rr_Regex rr = [] then
         (let invalidate = (\<lambda>f d. add_rule_issue pol rid src f d);
              s = check_rule_path rx invalidate rr (check_rule_id invalidate seen rid (ps_report p, False));
              s = (if rr_Path rr = [] then invalidate ''rule.regex'' ''content regular expression is required'' s else s)
          in (seen', p\<lparr>ps_report := finish_invalid_rule pol (snd s) (fst s)\<rparr>))
       else
         (let (keywords, s) = rule_checks ts rx pol src rid seen rr (ps_report p);
              (allowlists, r) = both_allowlists ts rx pol src rid ''rule.allowlist''
                ''singular and plural rule allowlists cannot be mixed'' (rr_Allowlist rr) (rr_Allowlists rr) (fst s)
          in
            if snd s then (seen', p\<lparr>ps_report := finish_invalid_rule pol True r\<rparr>)
            else
              (seen', p\<lparr>ps_rules := ps_rules p @
                 [\<lparr>r_id = rid, r_re = (case rx (rr_Regex rr) of None \<Rightarrow> (\<lambda>_. None) | Some (m, _) \<Rightarrow> m),
                   r_keywords = keywords,
                   r_entropy = (case finite_entropy (rr_Entropy rr) of None \<Rightarrow> 0 | Some q \<Rightarrow> q),
                   r_secret_group = (case rr_SecretGroup rr of None \<Rightarrow> 0 | Some g \<Rightarrow> g),
                   r_automatic_capture = (rr_SecretGroup rr = None),
                   r_allowlists = allowlists\<rparr>],
                 ps_report := r\<lparr>cr_RulesLoaded := cr_RulesLoaded r + 1\<rparr>\<rparr>)))"

fun load_rules ::
  "tools \<Rightarrow> re_compiler \<Rightarrow> policy \<Rightarrow> rule_source \<Rightarrow> raw_rule list \<Rightarrow>
     string set \<times> parsed_rule_set \<Rightarrow> string set \<times> parsed_rule_set" where
  "load_rules ts rx pol src [] st = st"
| "load_rules ts rx pol src (rr # rrs) st = load_rules ts rx pol src rrs (load_rule ts rx pol src rr st)"

datatype load_error =
    NegativeDefaultLimits
  | InvalidPolicy
  | CustomNeedsMode
  | ModeWithoutCustom
  | InvalidCustomMode
  | NoRulesSupplied
  | ExtendNeedsEmbedded
  | EmptyToml rule_source
  | ParseToml rule_source
  | RulesCompatibility compat_report

definition empty_rule_set :: parsed_rule_set where
  "empty_rule_set = \<lparr>ps_rules = [], ps_globals = [], ps_report = empty_report\<rparr>"

text \<open>\<open>parseRuleSet\<close> after the decoding.\<close>

definition load_config ::
  "tools \<Rightarrow> re_compiler \<Rightarrow> rule_source \<Rightarrow> policy \<Rightarrow> raw_config \<Rightarrow> string list \<Rightarrow> parsed_rule_set" where
  "load_config ts rx src pol cfg undecoded =
    (let r = foldl (\<lambda>r key. add_issue pol src [] (''toml.'' @ key) ''unknown field or unsupported table'' r)
           empty_report undecoded;
         (globals, r) = both_allowlists ts rx pol src [] ''global.allowlist''
           ''singular and plural global allowlists cannot be mixed'' (rc_Allowlist cfg) (rc_Allowlists cfg) r;
         r = r\<lparr>cr_RulesSeen := int (length (rc_Rules cfg))\<rparr>;
         (seen, p) = load_rules ts rx pol src (rc_Rules cfg)
           ({}, \<lparr>ps_rules = [], ps_globals = globals, ps_report = r\<rparr>)
     in if rc_Rules cfg = [] then
          p\<lparr>ps_report := add_issue pol src [] ''rules'' ''ruleset contains no rules'' (ps_report p)\<rparr>
        else p)"

text \<open>\<open>parseRuleSet\<close>: the result is returned together with the error.\<close>

definition parse_rule_set ::
  "tools \<Rightarrow> toml_decoder \<Rightarrow> re_compiler \<Rightarrow> string \<Rightarrow> rule_source \<Rightarrow> policy \<Rightarrow> parsed_rule_set \<times> load_error option" where
  "parse_rule_set ts toml rx data src pol =
    (if data = [] then (empty_rule_set, Some (EmptyToml src))
     else
       (case toml data of
          None \<Rightarrow> (empty_rule_set, Some (ParseToml src))
        | Some (cfg, undecoded) \<Rightarrow>
            let p = load_config ts rx src pol cfg undecoded
            in (p, if has_rejected (ps_report p) then Some (RulesCompatibility (ps_report p)) else None)))"

section \<open>What loading keeps\<close>

text \<open>\<open>r'\<close> is \<open>r\<close> with further issues; \<open>tracked pol r s\<close>: so is the report of \<open>s\<close>, and under a policy
that rejects, an invalid rule has a rejecting issue.\<close>

definition extends :: "policy \<Rightarrow> compat_report \<Rightarrow> compat_report \<Rightarrow> bool" where
  "extends pol r r' \<longleftrightarrow> (\<exists>is. r' = r\<lparr>cr_Issues := cr_Issues r @ is\<rparr> \<and>
     (\<forall>i \<in> set is. ci_Action i = CompatibilityRejected \<longleftrightarrow> pol \<noteq> CompatibilitySkipUnsupported))"

definition tracked :: "policy \<Rightarrow> compat_report \<Rightarrow> compat_report \<times> bool \<Rightarrow> bool" where
  "tracked pol r s \<longleftrightarrow> extends pol r (fst s) \<and>
     (snd s \<longrightarrow> pol \<noteq> CompatibilitySkipUnsupported \<longrightarrow> has_rejected (fst s))"

lemma extends_refl [simp, intro!]: "extends pol r r"
  by (auto simp: extends_def intro!: exI [of _ "[]"])

lemma extends_trans: "extends pol r r' \<Longrightarrow> extends pol r' r'' \<Longrightarrow> extends pol r r''"
proof -
  assume 1: "extends pol r r'" and 2: "extends pol r' r''"
  from 1 obtain xs where xs: "r' = r\<lparr>cr_Issues := cr_Issues r @ xs\<rparr>"
    "\<forall>i \<in> set xs. ci_Action i = CompatibilityRejected \<longleftrightarrow> pol \<noteq> CompatibilitySkipUnsupported"
    unfolding extends_def by blast
  from 2 obtain ys where ys: "r'' = r'\<lparr>cr_Issues := cr_Issues r' @ ys\<rparr>"
    "\<forall>i \<in> set ys. ci_Action i = CompatibilityRejected \<longleftrightarrow> pol \<noteq> CompatibilitySkipUnsupported"
    unfolding extends_def by blast
  have "r'' = r\<lparr>cr_Issues := cr_Issues r @ (xs @ ys)\<rparr>" by (simp add: xs(1) ys(1))
  moreover have "\<forall>i \<in> set (xs @ ys). ci_Action i = CompatibilityRejected \<longleftrightarrow> pol \<noteq> CompatibilitySkipUnsupported"
    using xs(2) ys(2) by auto
  ultimately show ?thesis unfolding extends_def by blast
qed

lemma extends_push:
  assumes "extends pol r r'" "ci_Action i = CompatibilityRejected \<longleftrightarrow> pol \<noteq> CompatibilitySkipUnsupported"
  shows "extends pol r (push_issue i r')"
  by (rule extends_trans [OF assms(1)])
    (auto simp: extends_def push_issue_def assms(2) intro!: exI [of _ "[i]"])

lemma extends_fields:
  assumes "extends pol r r'"
  shows "cr_RulesSeen r' = cr_RulesSeen r" "cr_RulesLoaded r' = cr_RulesLoaded r"
    "cr_RulesSkipped r' = cr_RulesSkipped r"
  using assms by (auto simp: extends_def)

lemma extends_rejected: "extends pol r r' \<Longrightarrow> has_rejected r \<Longrightarrow> has_rejected r'"
  by (auto simp: extends_def has_rejected_def)

lemma add_issue_extends: "extends pol r r' \<Longrightarrow> extends pol r (add_issue pol src rid f d r')"
  unfolding add_issue_def by (erule extends_push) simp

lemma allowlist_issue_extends:
  "extends pol r (fst s) \<Longrightarrow> extends pol r (fst (allowlist_issue pol src rid f x d u s))"
  by (simp add: allowlist_issue_def extends_push)

text \<open>The loops with a closure \<open>bad\<close> that only reports.\<close>

definition reports :: "policy \<Rightarrow> (compat_report \<times> bool \<Rightarrow> compat_report \<times> bool) \<Rightarrow> bool" where
  "reports pol bad \<longleftrightarrow> (\<forall>s. extends pol (fst s) (fst (bad s)))"

lemma reports_allowlist_issue [simp]: "reports pol (allowlist_issue pol src rid f x d u)"
  by (simp add: reports_def allowlist_issue_extends)

lemma reports_step: "reports pol bad \<Longrightarrow> extends pol r (fst s) \<Longrightarrow> extends pol r (fst (bad s))"
  unfolding reports_def using extends_trans by blast

lemma compile_regexes_extends:
  assumes "reports pol bad"
  shows "extends pol r (fst s) \<Longrightarrow> compile_regexes rx bad es s = (out, s') \<Longrightarrow> extends pol r (fst s')"
proof (induction es arbitrary: s out s')
  case (Cons e es)
  show ?case
  proof (cases "rx e")
    case None
    with Cons.prems Cons.IH [OF reports_step [OF assms]] show ?thesis by auto
  next
    case (Some p)
    with Cons.prems Cons.IH [OF Cons.prems(1)] show ?thesis by (auto split: prod.split_asm)
  qed
qed simp

lemma compile_words_extends:
  assumes "reports pol bad"
  shows "extends pol r (fst s) \<Longrightarrow> compile_words ts bad ws s = (out, s') \<Longrightarrow> extends pol r (fst s')"
proof (induction ws arbitrary: s out s')
  case (Cons w ws)
  show ?case
  proof (cases "w = []")
    case True
    with Cons.prems Cons.IH [OF reports_step [OF assms]] show ?thesis by auto
  next
    case False
    with Cons.prems Cons.IH [OF Cons.prems(1)] show ?thesis by (auto split: prod.split_asm)
  qed
qed simp

lemma unsupported_criteria_extends:
  "(\<And>x d. reports pol (bad x d)) \<Longrightarrow> extends pol r (fst s) \<Longrightarrow> extends pol r (fst (unsupported_criteria bad a s))"
  by (simp add: unsupported_criteria_def reports_step Let_def)

lemma parse_condition_extends:
  "reports pol bad \<Longrightarrow> extends pol r (fst s) \<Longrightarrow> parse_condition ts bad c s = (out, s') \<Longrightarrow> extends pol r (fst s')"
  by (auto simp: parse_condition_def Let_def reports_step split: if_split_asm)

lemma parse_target_extends:
  "reports pol bad \<Longrightarrow> extends pol r (fst s) \<Longrightarrow> parse_target bad t s = (out, s') \<Longrightarrow> extends pol r (fst s')"
  by (auto simp: parse_target_def reports_step split: if_split_asm)

lemma compile_allowlist_extends:
  assumes "compile_allowlist ts rx a src rid f pol r = (out, r')"
  shows "extends pol r r'"
proof -
  let ?bad = "allowlist_issue pol src rid f"
  obtain cond s1 where 1: "parse_condition ts (?bad ''.condition'' ''condition must be OR or AND'' False)
      (ra_Condition a) (r, False) = (cond, s1)" by (rule prod.exhaust)
  obtain target s2 where 2: "parse_target (?bad ''.regexTarget'' ''regexTarget must be secret, match, or line'' False)
      (ra_RegexTarget a) s1 = (target, s2)" by (rule prod.exhaust)
  obtain res s3 where 3: "compile_regexes rx (?bad ''.regexes'' ''allowlist regular expression does not compile'' False)
      (ra_Regexes a) s2 = (res, s3)" by (rule prod.exhaust)
  obtain ws s4 where 4: "compile_words ts (?bad ''.stopwords'' ''stopwords must not contain an empty string'' False)
      (ra_Stopwords a) s3 = (ws, s4)" by (rule prod.exhaust)
  define s5 where "s5 = unsupported_criteria (\<lambda>suffix detail. ?bad suffix detail True) a s4"
  have "extends pol r (fst s1)" by (rule parse_condition_extends [OF _ _ 1]) auto
  then have "extends pol r (fst s2)" by (rule parse_target_extends [OF _ _ 2, rotated]) simp
  then have "extends pol r (fst s3)" by (rule compile_regexes_extends [OF _ _ 3, rotated]) simp
  then have "extends pol r (fst s4)" by (rule compile_words_extends [OF _ _ 4, rotated]) simp
  then have 5: "extends pol r (fst s5)" unfolding s5_def by (rule unsupported_criteria_extends [rotated]) simp
  moreover have "r' = fst s5 \<or> r' = fst (?bad [] ''allowlist has no supported criteria'' False s5)"
    using assms unfolding compile_allowlist_def Let_def
    by (simp only: 1 2 3 4 prod.case s5_def [symmetric]) (auto split: if_split_asm)
  ultimately show ?thesis using allowlist_issue_extends [OF 5] by auto
qed

text \<open>
  An allowlist that is kept has a criterion; and under either policy a criterion that cannot be
  evaluated on protocol text is never dropped from a conjunction.
\<close>

lemma compile_allowlist_criteria:
  assumes "compile_allowlist ts rx a src rid f pol r = (Some c, r')"
  shows "al_regexes c \<noteq> [] \<or> al_stopwords c \<noteq> []"
  using assms by (auto simp: compile_allowlist_def Let_def split: prod.split_asm if_split_asm)

lemma unsupported_criteria_invalid:
  "snd (unsupported_criteria (\<lambda>x d. allowlist_issue CompatibilityError src rid f x d True) a s) \<longleftrightarrow>
     snd s \<or> ra_Paths a \<noteq> [] \<or> ra_Commits a \<noteq> []"
  by (simp add: unsupported_criteria_def allowlist_issue_def)

lemma compile_allowlist_conjunction:
  assumes "compile_allowlist ts rx a src rid f pol r = (Some c, r')" "al_condition c = AllowlistAND"
    and "pol = CompatibilityError \<or> pol = CompatibilitySkipUnsupported"
  shows "ra_Paths a = [] \<and> ra_Commits a = []"
  using assms by (elim disjE)
    (auto simp: compile_allowlist_def Let_def unsupported_criteria_invalid split: prod.split_asm if_split_asm)

lemma load_allowlists_extends:
  assumes "\<And>a f r o' r'. compile_one a f r = (o', r') \<Longrightarrow> extends pol r r'"
  shows "load_allowlists compile_one f i as r = (out, r') \<Longrightarrow> extends pol r r'"
proof (induction as arbitrary: i r out r')
  case (Cons a as)
  obtain o1 r1 where 1: "compile_one a (f @ ''['' @ digits_of i @ '']'') r = (o1, r1)" by (rule prod.exhaust)
  obtain rest r2 where 2: "load_allowlists compile_one f (Suc i) as r1 = (rest, r2)" by (rule prod.exhaust)
  from Cons.prems 1 2 have "r' = r2" by simp
  with assms [OF 1] Cons.IH [OF 2] show ?case by (auto intro: extends_trans)
qed simp

lemma both_allowlists_extends:
  assumes "both_allowlists ts rx pol src rid f m single many r = (out, r')"
  shows "extends pol r r'"
proof -
  let ?one = "\<lambda>a f r. compile_allowlist ts rx a src rid f pol r"
  define r0 where "r0 = (if single \<noteq> None \<and> many \<noteq> [] then add_issue pol src rid f m r else r)"
  obtain o1 r1 where 1: "(case single of None \<Rightarrow> (None, r0) | Some a \<Rightarrow> ?one a f r0) = (o1, r1)" by (rule prod.exhaust)
  obtain rest r2 where 2: "load_allowlists ?one (f @ ''s'') 0 many r1 = (rest, r2)" by (rule prod.exhaust)
  have "r' = r2" using assms unfolding both_allowlists_def Let_def r0_def [symmetric] 1 2 prod.case by simp
  moreover have "extends pol r r0" by (simp add: r0_def add_issue_extends)
  moreover have "extends pol r0 r1" using 1 by (auto split: option.split_asm dest: compile_allowlist_extends)
  moreover have "extends pol r1 r2" by (rule load_allowlists_extends [OF _ 2]) (rule compile_allowlist_extends)
  ultimately show ?thesis by (blast intro: extends_trans)
qed

lemma tracked_start: "tracked pol r (r, False)"
  by (simp add: tracked_def)

lemma tracked_invalidate: "tracked pol r s \<Longrightarrow> tracked pol r (add_rule_issue pol rid src f d s)"
  by (simp add: tracked_def add_rule_issue_def extends_push) (simp add: has_rejected_def push_issue_def)

lemma snd_invalidate [simp]: "snd (add_rule_issue pol rid src f d s)"
  by (simp add: add_rule_issue_def)

lemma snd_check_rule_id:
  "snd (check_rule_id (\<lambda>f d. add_rule_issue pol rid src f d) seen rid s) \<longleftrightarrow> rid = [] \<or> rid \<in> seen \<or> snd s"
  by (simp add: check_rule_id_def)

lemma tracked_compile_words:
  "tracked pol r s \<Longrightarrow> compile_words ts (add_rule_issue pol rid src f d) ws s = (out, s') \<Longrightarrow>
     tracked pol r s' \<and> (snd s \<longrightarrow> snd s')"
proof (induction ws arbitrary: s out s')
  case (Cons w ws)
  show ?case
  proof (cases "w = []")
    case True
    with Cons.prems(2) have "compile_words ts (add_rule_issue pol rid src f d) ws (add_rule_issue pol rid src f d s) = (out, s')"
      by simp
    from Cons.IH [OF tracked_invalidate [OF Cons.prems(1)] this] show ?thesis by simp
  next
    case False
    with Cons.prems(2) obtain out' where "compile_words ts (add_rule_issue pol rid src f d) ws s = (out', s')"
      by (auto split: prod.split_asm)
    from Cons.IH [OF Cons.prems(1) this] show ?thesis .
  qed
qed simp

section \<open>One rule\<close>

text \<open>A loaded rule: its expression compiled, its group is one of the expression, its entropy is not negative.\<close>

definition rule_ok :: "re_compiler \<Rightarrow> secret_rule \<Rightarrow> bool" where
  "rule_ok rx rule \<longleftrightarrow> r_id rule \<noteq> [] \<and> 0 \<le> r_entropy rule \<and>
     (\<exists>src n. rx src = Some (r_re rule, n) \<and> 0 \<le> r_secret_group rule \<and> r_secret_group rule \<le> int n)"

lemma rule_checks_result:
  assumes "rule_checks ts rx pol src rid seen rr r = (kws, s)"
  shows "tracked pol r s"
    and "\<not> snd s \<Longrightarrow> rid \<noteq> [] \<and> rid \<notin> seen \<and> (\<exists>q. finite_entropy (rr_Entropy rr) = Some q) \<and>
      (\<exists>m n. rx (rr_Regex rr) = Some (m, n) \<and>
         0 \<le> (case rr_SecretGroup rr of None \<Rightarrow> 0 | Some g \<Rightarrow> g) \<and>
         (case rr_SecretGroup rr of None \<Rightarrow> 0 | Some g \<Rightarrow> g) \<le> int n)"
proof -
  let ?inv = "\<lambda>f d. add_rule_issue pol rid src f d"
  let ?group = "case rr_SecretGroup rr of None \<Rightarrow> 0 | Some g \<Rightarrow> g"
  define s1 where "s1 = check_rule_id ?inv seen rid (r, False)"
  define s2 where "s2 = check_rule_path rx ?inv rr s1"
  define s3 where "s3 = (if rx (rr_Regex rr) = None then
    ?inv ''rule.regex'' ''regular expression is not compatible with Go RE2'' s2 else s2)"
  define s4 where "s4 = (if finite_entropy (rr_Entropy rr) = None then
    ?inv ''rule.entropy'' ''entropy must be a finite non-negative number'' s3 else s3)"
  define s5 where "s5 = (case rx (rr_Regex rr) of None \<Rightarrow> s4
    | Some (_, n) \<Rightarrow> if ?group < 0 \<or> int n < ?group then
        ?inv ''rule.secretGroup'' (''capture group '' @ format_int ?group @ '' is outside 0..'' @ format_int (int n)) s4
      else s4)"
  have 6: "compile_words ts (?inv ''rule.keywords'' ''keywords must not contain an empty string'') (rr_Keywords rr) s5
      = (kws, s)"
    using assms unfolding rule_checks_def Let_def load_keywords_def
      s1_def [symmetric] s2_def [symmetric] s3_def [symmetric] s4_def [symmetric] s5_def [symmetric] .
  have "tracked pol r s1" by (simp add: s1_def check_rule_id_def tracked_start tracked_invalidate)
  then have "tracked pol r s2" by (simp add: s2_def check_rule_path_def tracked_invalidate)
  then have "tracked pol r s3" by (simp add: s3_def tracked_invalidate)
  then have "tracked pol r s4" by (simp add: s4_def tracked_invalidate)
  then have 5: "tracked pol r s5" by (simp add: s5_def tracked_invalidate split: option.split prod.split)
  note words = tracked_compile_words [OF 5 6]
  then show "tracked pol r s" by simp
  assume "\<not> snd s"
  with words have 5: "\<not> snd s5" by blast
  then have 4: "\<not> snd s4" by (auto simp: s5_def split: option.split_asm if_split_asm)
  then have 3: "\<not> snd s3" and ent: "finite_entropy (rr_Entropy rr) \<noteq> None" by (auto simp: s4_def split: if_split_asm)
  then have 2: "\<not> snd s2" and re: "rx (rr_Regex rr) \<noteq> None" by (auto simp: s3_def split: if_split_asm)
  then have "\<not> snd s1" by (auto simp: s2_def check_rule_path_def split: if_split_asm)
  then have "rid \<noteq> [] \<and> rid \<notin> seen" by (auto simp: s1_def snd_check_rule_id)
  moreover from re obtain m n where mn: "rx (rr_Regex rr) = Some (m, n)" by auto
  with 5 have "0 \<le> ?group \<and> ?group \<le> int n" by (auto simp: s5_def not_less split: if_split_asm)
  ultimately show "rid \<noteq> [] \<and> rid \<notin> seen \<and> (\<exists>q. finite_entropy (rr_Entropy rr) = Some q) \<and>
      (\<exists>m n. rx (rr_Regex rr) = Some (m, n) \<and> 0 \<le> ?group \<and> ?group \<le> int n)"
    using ent mn by auto
qed


text \<open>Under the policy that rejects, a rule set loads only without any issue.\<close>

definition all_rejected :: "compat_report \<Rightarrow> bool" where
  "all_rejected r = list_all (\<lambda>i. ci_Action i = CompatibilityRejected) (cr_Issues r)"

lemma extends_all_rejected:
  "extends pol r r' \<Longrightarrow> pol \<noteq> CompatibilitySkipUnsupported \<Longrightarrow> all_rejected r \<Longrightarrow> all_rejected r'"
  by (auto simp: extends_def all_rejected_def list_all_iff)

lemma all_rejected_none: "all_rejected r \<Longrightarrow> \<not> has_rejected r \<Longrightarrow> cr_Issues r = []"
  by (cases "cr_Issues r") (auto simp: all_rejected_def has_rejected_def)

text \<open>A round either loads one rule, whose id is new, or counts or rejects it.\<close>

definition round_loads :: "re_compiler \<Rightarrow> string set \<Rightarrow> parsed_rule_set \<Rightarrow> string set \<Rightarrow> parsed_rule_set \<Rightarrow> bool" where
  "round_loads rx seen p seen' p' \<longleftrightarrow>
    (\<exists>rule. ps_rules p' = ps_rules p @ [rule] \<and> rule_ok rx rule \<and> r_id rule \<notin> seen \<and>
       seen' = insert (r_id rule) seen \<and>
       cr_RulesLoaded (ps_report p') = cr_RulesLoaded (ps_report p) + 1 \<and>
       cr_RulesSkipped (ps_report p') = cr_RulesSkipped (ps_report p))"

definition round_refuses :: "policy \<Rightarrow> string set \<Rightarrow> parsed_rule_set \<Rightarrow> string set \<Rightarrow> parsed_rule_set \<Rightarrow> bool" where
  "round_refuses pol seen p seen' p' \<longleftrightarrow>
    ps_rules p' = ps_rules p \<and> seen \<subseteq> seen' \<and>
    cr_RulesLoaded (ps_report p') = cr_RulesLoaded (ps_report p) \<and>
    (if pol = CompatibilitySkipUnsupported
     then cr_RulesSkipped (ps_report p') = cr_RulesSkipped (ps_report p) + 1
     else cr_RulesSkipped (ps_report p') = cr_RulesSkipped (ps_report p) \<and> has_rejected (ps_report p'))"

lemma finish_refuses:
  assumes "tracked pol (ps_report p) s" "snd s" "extends pol (fst s) r" "seen \<subseteq> seen'"
  shows "round_refuses pol seen p seen' (p\<lparr>ps_report := finish_invalid_rule pol True r\<rparr>)"
    "cr_RulesSeen (finish_invalid_rule pol True r) = cr_RulesSeen (ps_report p)"
    "has_rejected (ps_report p) \<Longrightarrow> has_rejected (finish_invalid_rule pol True r)"
    "pol \<noteq> CompatibilitySkipUnsupported \<Longrightarrow> all_rejected (ps_report p) \<Longrightarrow>
       all_rejected (finish_invalid_rule pol True r)"
proof -
  have e: "extends pol (ps_report p) r" using assms(1,3) by (auto simp: tracked_def intro: extends_trans)
  show "round_refuses pol seen p seen' (p\<lparr>ps_report := finish_invalid_rule pol True r\<rparr>)"
    using assms extends_fields [OF e] extends_rejected [OF assms(3)]
    by (simp add: round_refuses_def finish_invalid_rule_def tracked_def)
  show "cr_RulesSeen (finish_invalid_rule pol True r) = cr_RulesSeen (ps_report p)"
    using extends_fields [OF e] by (simp add: finish_invalid_rule_def)
  show "has_rejected (ps_report p) \<Longrightarrow> has_rejected (finish_invalid_rule pol True r)"
    using extends_rejected [OF e] by (simp add: finish_invalid_rule_def has_rejected_def)
  show "pol \<noteq> CompatibilitySkipUnsupported \<Longrightarrow> all_rejected (ps_report p) \<Longrightarrow>
       all_rejected (finish_invalid_rule pol True r)"
    using extends_all_rejected [OF e] by (simp add: finish_invalid_rule_def)
qed

lemma load_rule_cases:
  assumes "load_rule ts rx pol src rr (seen, p) = (seen', p')"
  shows "round_loads rx seen p seen' p' \<or> round_refuses pol seen p seen' p'"
    and "cr_RulesSeen (ps_report p') = cr_RulesSeen (ps_report p)"
    and "has_rejected (ps_report p) \<Longrightarrow> has_rejected (ps_report p')"
    and "ps_globals p' = ps_globals p"
    and "pol \<noteq> CompatibilitySkipUnsupported \<Longrightarrow> all_rejected (ps_report p) \<Longrightarrow> all_rejected (ps_report p')"
proof -
  let ?rid = "trim_space (rr_ID rr)"
  let ?seen' = "if ?rid = [] then seen else insert ?rid seen"
  have sub: "seen \<subseteq> ?seen'" by auto
  have "(round_loads rx seen p seen' p' \<or> round_refuses pol seen p seen' p') \<and>
    cr_RulesSeen (ps_report p') = cr_RulesSeen (ps_report p) \<and>
    (has_rejected (ps_report p) \<longrightarrow> has_rejected (ps_report p')) \<and> ps_globals p' = ps_globals p \<and>
    (pol \<noteq> CompatibilitySkipUnsupported \<longrightarrow> all_rejected (ps_report p) \<longrightarrow> all_rejected (ps_report p'))"
  proof (cases "rr_Regex rr = []")
    case True
    let ?inv = "\<lambda>f d. add_rule_issue pol ?rid src f d"
    define s1 where "s1 = check_rule_id ?inv seen ?rid (ps_report p, False)"
    define s2 where "s2 = check_rule_path rx ?inv rr s1"
    define s3 where "s3 = (if rr_Path rr = [] then ?inv ''rule.regex'' ''content regular expression is required'' s2 else s2)"
    have "tracked pol (ps_report p) s1" by (simp add: s1_def check_rule_id_def tracked_start tracked_invalidate)
    then have "tracked pol (ps_report p) s2" by (simp add: s2_def check_rule_path_def tracked_invalidate)
    then have t: "tracked pol (ps_report p) s3" by (simp add: s3_def tracked_invalidate)
    have inv: "snd s3" using True by (simp add: s3_def s2_def check_rule_path_def)
    have r: "seen' = ?seen'" "p' = p\<lparr>ps_report := finish_invalid_rule pol True (fst s3)\<rparr>"
      using assms True inv unfolding load_rule_def Let_def prod.case s1_def [symmetric] s2_def [symmetric] s3_def [symmetric]
      by simp_all
    show ?thesis using finish_refuses [OF t inv extends_refl sub] unfolding r by simp
  next
    case False
    obtain kws s where c: "rule_checks ts rx pol src ?rid seen rr (ps_report p) = (kws, s)" by (rule prod.exhaust)
    obtain als r where a: "both_allowlists ts rx pol src ?rid ''rule.allowlist''
      ''singular and plural rule allowlists cannot be mixed'' (rr_Allowlist rr) (rr_Allowlists rr) (fst s) = (als, r)"
      by (rule prod.exhaust)
    note t = rule_checks_result(1) [OF c]
    note e = both_allowlists_extends [OF a]
    show ?thesis
    proof (cases "snd s")
      case True
      have r: "seen' = ?seen'" "p' = p\<lparr>ps_report := finish_invalid_rule pol True r\<rparr>"
        using assms False True unfolding load_rule_def Let_def prod.case c a by simp_all
      show ?thesis using finish_refuses [OF t True e sub] unfolding r by simp
    next
      case valid: False
      note ok = rule_checks_result(2) [OF c valid]
      then obtain q m n where q: "finite_entropy (rr_Entropy rr) = Some q" and mn: "rx (rr_Regex rr) = Some (m, n)"
        and g: "0 \<le> (case rr_SecretGroup rr of None \<Rightarrow> 0 | Some g \<Rightarrow> g)"
          "(case rr_SecretGroup rr of None \<Rightarrow> 0 | Some g \<Rightarrow> g) \<le> int n"
        and id: "?rid \<noteq> []" "?rid \<notin> seen" by auto
      let ?rule = "\<lparr>r_id = ?rid, r_re = m, r_keywords = kws, r_entropy = q,
         r_secret_group = (case rr_SecretGroup rr of None \<Rightarrow> 0 | Some g \<Rightarrow> g),
         r_automatic_capture = (rr_SecretGroup rr = None), r_allowlists = als\<rparr>"
      have r: "seen' = insert ?rid seen"
        "p' = p\<lparr>ps_rules := ps_rules p @ [?rule], ps_report := r\<lparr>cr_RulesLoaded := cr_RulesLoaded r + 1\<rparr>\<rparr>"
        using assms False valid q mn id unfolding load_rule_def Let_def prod.case c a by simp_all
      have "0 \<le> q" using q by (auto simp: finite_entropy_def split: toml_float.split_asm if_split_asm)
      then have "rule_ok rx ?rule" using mn g id by (auto simp: rule_ok_def)
      moreover have er: "extends pol (ps_report p) r" using t e by (auto simp: tracked_def intro: extends_trans)
      ultimately show ?thesis
        using id extends_fields [OF er] extends_rejected [OF er] extends_all_rejected [OF er] unfolding r
        by (auto simp: round_loads_def has_rejected_def all_rejected_def)
    qed
  qed
  then show "round_loads rx seen p seen' p' \<or> round_refuses pol seen p seen' p'"
    "cr_RulesSeen (ps_report p') = cr_RulesSeen (ps_report p)"
    "has_rejected (ps_report p) \<Longrightarrow> has_rejected (ps_report p')"
    "ps_globals p' = ps_globals p"
    "pol \<noteq> CompatibilitySkipUnsupported \<Longrightarrow> all_rejected (ps_report p) \<Longrightarrow> all_rejected (ps_report p')" by blast+
qed


section \<open>A rule set\<close>

text \<open>The invariant of the loop after \<open>n\<close> rounds.\<close>

definition rules_ok :: "re_compiler \<Rightarrow> secret_rule list \<Rightarrow> bool" where
  "rules_ok rx rs \<longleftrightarrow> distinct (map r_id rs) \<and> (\<forall>r \<in> set rs. rule_ok rx r)"

definition loading :: "re_compiler \<Rightarrow> policy \<Rightarrow> nat \<Rightarrow> string set \<times> parsed_rule_set \<Rightarrow> bool" where
  "loading rx pol n st \<longleftrightarrow> (case st of (seen, p) \<Rightarrow>
     rules_ok rx (ps_rules p) \<and> r_id ` set (ps_rules p) \<subseteq> seen \<and>
     cr_RulesLoaded (ps_report p) = int (length (ps_rules p)) \<and>
     (has_rejected (ps_report p) \<or> cr_RulesLoaded (ps_report p) + cr_RulesSkipped (ps_report p) = int n))"

lemma load_rule_loading:
  assumes "loading rx pol n st"
  shows "loading rx pol (Suc n) (load_rule ts rx pol src rr st)"
proof -
  obtain seen p where st: "st = (seen, p)" by (cases st)
  obtain seen' p' where r: "load_rule ts rx pol src rr (seen, p) = (seen', p')" by (rule prod.exhaust)
  from load_rule_cases(1) [OF r] show ?thesis
  proof
    assume "round_loads rx seen p seen' p'"
    then show ?thesis using assms load_rule_cases(3) [OF r]
      by (auto simp: st r loading_def round_loads_def rules_ok_def image_subset_iff)
  next
    assume "round_refuses pol seen p seen' p'"
    then show ?thesis using assms load_rule_cases(3) [OF r]
      by (auto simp: st r loading_def round_refuses_def split: if_split_asm)
  qed
qed

lemma load_rules_loading:
  "loading rx pol n st \<Longrightarrow> loading rx pol (n + length rrs) (load_rules ts rx pol src rrs st)"
  by (induction rrs arbitrary: n st) (use load_rule_loading in fastforce)+

lemma load_rules_report:
  assumes "load_rules ts rx pol src rrs (seen, p) = (seen', p')"
  shows "cr_RulesSeen (ps_report p') = cr_RulesSeen (ps_report p) \<and> ps_globals p' = ps_globals p \<and>
    (pol \<noteq> CompatibilitySkipUnsupported \<longrightarrow> all_rejected (ps_report p) \<longrightarrow> all_rejected (ps_report p'))"
  using assms
proof (induction rrs arbitrary: seen p)
  case (Cons rr rrs)
  obtain seen1 p1 where 1: "load_rule ts rx pol src rr (seen, p) = (seen1, p1)" by (rule prod.exhaust)
  with Cons.prems have "load_rules ts rx pol src rrs (seen1, p1) = (seen', p')" by simp
  from Cons.IH [OF this] load_rule_cases(2,4,5) [OF 1] show ?case by simp
qed simp

definition rule_set_ok :: "re_compiler \<Rightarrow> parsed_rule_set \<Rightarrow> bool" where
  "rule_set_ok rx p \<longleftrightarrow> rules_ok rx (ps_rules p) \<and>
     cr_RulesLoaded (ps_report p) = int (length (ps_rules p)) \<and>
     cr_RulesSeen (ps_report p) = cr_RulesLoaded (ps_report p) + cr_RulesSkipped (ps_report p) \<and>
     \<not> has_rejected (ps_report p)"

lemma empty_rule_set_ok: "rule_set_ok rx empty_rule_set"
  by (simp add: rule_set_ok_def empty_rule_set_def rules_ok_def empty_report_def has_rejected_def)

lemma undecoded_extends:
  "extends pol r (foldl (\<lambda>r key. add_issue pol src [] (''toml.'' @ key) m r) r keys)"
proof (induction keys rule: rev_induct)
  case (snoc k ks)
  then show ?case by (simp add: add_issue_extends)
qed simp

lemma load_config_ok:
  assumes "\<not> has_rejected (ps_report (load_config ts rx src pol cfg undecoded))"
  shows "rule_set_ok rx (load_config ts rx src pol cfg undecoded)"
    and "pol \<noteq> CompatibilitySkipUnsupported \<Longrightarrow> cr_Issues (ps_report (load_config ts rx src pol cfg undecoded)) = []"
proof -
  define r0 where "r0 = foldl (\<lambda>r key. add_issue pol src [] (''toml.'' @ key) ''unknown field or unsupported table'' r)
    empty_report undecoded"
  obtain gs r1 where g: "both_allowlists ts rx pol src [] ''global.allowlist''
    ''singular and plural global allowlists cannot be mixed'' (rc_Allowlist cfg) (rc_Allowlists cfg) r0 = (gs, r1)"
    by (rule prod.exhaust)
  let ?r1 = "r1\<lparr>cr_RulesSeen := int (length (rc_Rules cfg))\<rparr>"
  let ?p0 = "\<lparr>ps_rules = [], ps_globals = gs, ps_report = ?r1\<rparr>"
  obtain seen p1 where l: "load_rules ts rx pol src (rc_Rules cfg) ({}, ?p0) = (seen, p1)" by (rule prod.exhaust)
  let ?p2 = "if rc_Rules cfg = [] then
    p1\<lparr>ps_report := add_issue pol src [] ''rules'' ''ruleset contains no rules'' (ps_report p1)\<rparr> else p1"
  have p: "load_config ts rx src pol cfg undecoded = ?p2"
    unfolding load_config_def Let_def r0_def [symmetric] g prod.case l by (rule refl)
  have "extends pol empty_report r0" unfolding r0_def by (rule undecoded_extends)
  with both_allowlists_extends [OF g] have e: "extends pol empty_report r1" by (blast intro: extends_trans)
  have "loading rx pol 0 ({}, ?p0)"
    using extends_fields [OF e] by (simp add: loading_def rules_ok_def empty_report_def)
  from load_rules_loading [OF this, of "rc_Rules cfg" ts src]
  have inv: "loading rx pol (length (rc_Rules cfg)) (seen, p1)" by (simp add: l)
  have e2: "extends pol (ps_report p1) (ps_report ?p2)" by (simp add: add_issue_extends)
  then have "\<not> has_rejected (ps_report p1)" using assms [unfolded p] extends_rejected by blast
  with inv extends_fields [OF e2] load_rules_report [OF l] assms [unfolded p]
  show "rule_set_ok rx (load_config ts rx src pol cfg undecoded)"
    unfolding p by (simp add: rule_set_ok_def loading_def)
  assume strict: "pol \<noteq> CompatibilitySkipUnsupported"
  have "all_rejected r1"
    by (rule extends_all_rejected [OF e strict]) (simp add: all_rejected_def empty_report_def)
  then have "all_rejected (ps_report p1)"
    using load_rules_report [OF l] strict by (simp add: all_rejected_def)
  then have "all_rejected (ps_report ?p2)" by (rule extends_all_rejected [OF e2 strict])
  then show "cr_Issues (ps_report (load_config ts rx src pol cfg undecoded)) = []"
    using assms unfolding p by (rule all_rejected_none)
qed

lemma parse_rule_set_ok:
  assumes "parse_rule_set ts toml rx data src pol = (p, None)"
  shows "rule_set_ok rx p"
    and "pol \<noteq> CompatibilitySkipUnsupported \<Longrightarrow> cr_Issues (ps_report p) = []"
  using assms load_config_ok
  by (auto simp: parse_rule_set_def Let_def split: if_split_asm option.split_asm)

end
