(* ===== verification/Engine.thy ===== *)
theory Engine
  imports Rules
begin

text \<open>
  \<open>Engine.Detect\<close> and \<open>Engine.Redact\<close> (\<open>internal/privacyengine/engine.go\<close>) and the placeholder
  renderer (\<open>renderer.go\<close>).

  A renderer is an interface value: a function that may fail, poll the context and change a state
  of its own, whose type is a parameter. The state of a call is the number of polls, the budget
  of the options (if any) and the state of the renderer.
\<close>

section \<open>Renderers\<close>

type_synonym 'r renderer = "ctx option \<Rightarrow> finding \<Rightarrow> string \<Rightarrow> (engine_error, nat \<times> 'r, string) M"

definition default_placeholders :: "(finding_kind \<times> string) list" where
  "default_placeholders =
     [(KindEmail, ''[EMAIL]''), (KindPhone, ''[PHONE]''), (KindIDCard, ''[ID]''),
      (KindBankCard, ''[CARD]''), (KindIP, ''[IP]''), (KindSecret, ''[SECRET]'')]"

definition new_placeholder_renderer :: "(finding_kind \<rightharpoonup> string) \<Rightarrow> (finding_kind \<rightharpoonup> string)" where
  "new_placeholder_renderer overrides = map_of default_placeholders ++ overrides"

text \<open>\<open>PlaceholderRenderer.Render\<close>; \<open>ph\<close> is the map of the receiver, \<open>None\<close> for a nil receiver.\<close>

definition render_placeholder :: "(finding_kind \<rightharpoonup> string) option \<Rightarrow> 'r renderer" where
  "render_placeholder ph co f plaintext s =
    (case co of
       None \<Rightarrow> (Inl ErrNilContext, s)
     | Some c \<Rightarrow>
         (case c (fst s) of
            Some e \<Rightarrow> (Inl (EngineCtx e), (Suc (fst s), snd s))
          | None \<Rightarrow>
              ((case ph of
                  None \<Rightarrow> Inl ErrNilRenderer
                | Some m \<Rightarrow> (case m (f_Kind f) of None \<Rightarrow> Inl ErrNoPlaceholder | Some p \<Rightarrow> Inr p)),
               (Suc (fst s), snd s))))"

definition default_renderer :: "'r renderer" where
  "default_renderer = render_placeholder (Some (new_placeholder_renderer Map.empty))"

section \<open>Detect\<close>

record engine =
  e_rules :: "secret_rule list"
  e_global_allowlists :: "compiled_allowlist list"
  e_limits :: engine_limits
  e_report :: compat_report

record request_options =
  ro_PreferredRuleIDs :: "string set"
  ro_FieldContext :: field_context
  ro_PreservePlaceholder :: bool

record 'r call =
  k_polls :: nat
  k_budget :: "budget option"
  k_renderer :: 'r

type_synonym ('r, 'a) engine_call = "(engine_error, 'r call, 'a) M"

definition poll_k :: "ctx \<Rightarrow> ('r, unit) engine_call" where
  "poll_k c s = (case c (k_polls s) of
     None \<Rightarrow> (Inr (), s\<lparr>k_polls := Suc (k_polls s)\<rparr>)
   | Some e \<Rightarrow> (Inl (EngineCtx e), s\<lparr>k_polls := Suc (k_polls s)\<rparr>))"

text \<open>A method of the budget of the call: that of the options, or a fresh one.\<close>

definition with_budget :: "budget \<Rightarrow> 'a budgeted \<Rightarrow> ('r, 'a) engine_call" where
  "with_budget fresh m s =
    (let b = (case k_budget s of None \<Rightarrow> fresh | Some b \<Rightarrow> b) in
     case m b of (r, b') \<Rightarrow> (r, s\<lparr>k_budget := Some b'\<rparr>))"

text \<open>The detectors, run on a collector of their own.\<close>

definition detectors :: "tools \<Rightarrow> engine \<Rightarrow> ctx \<Rightarrow> string \<Rightarrow> request_options \<Rightarrow> unit detect" where
  "detectors ts e c s opts =
     seq (if \<not> credential_field_applies (ro_FieldContext opts) \<or> \<not> is_credential_placeholder ts s
          then detect_credential_field ts s (ro_FieldContext opts) else ret ())
     (seq (detect_pii ts c s)
     (detect_secrets ts (e_rules e) (e_global_allowlists e) c s))"

definition run_detectors ::
  "tools \<Rightarrow> engine \<Rightarrow> ctx \<Rightarrow> string \<Rightarrow> request_options \<Rightarrow> int \<Rightarrow> ('r, span_collector) engine_call" where
  "run_detectors ts e c s opts remaining st =
    (case detectors ts e c s opts
       \<lparr>d_polls = k_polls st,
        d_spans = new_span_collector (int (length s)) remaining (ro_PreferredRuleIDs opts)\<rparr> of
       (Inl err, d) \<Rightarrow> (Inl err, st\<lparr>k_polls := d_polls d\<rparr>)
     | (Inr _, d) \<Rightarrow> (Inr (d_spans d), st\<lparr>k_polls := d_polls d\<rparr>))"

definition detect_with :: "tools \<Rightarrow> engine \<Rightarrow> ctx \<Rightarrow> string \<Rightarrow> request_options \<Rightarrow> budget \<Rightarrow> ('r, finding list) engine_call" where
  "detect_with ts e c s opts fresh =
     seq (poll_k c)
     (seq (with_budget fresh (take_node (int (length s))))
     (if ro_PreservePlaceholder opts then ret []
      else
        bind (with_budget fresh remaining_findings) (\<lambda>remaining.
        bind (run_detectors ts e c s opts remaining) (\<lambda>collector.
        seq (with_budget fresh (take_findings (int (length (findings collector)))))
        (ret (findings collector))))))"

text \<open>
  \<open>detect\<close>. Without a budget in the options the call has one of its own, with the limits of the
  engine, and the options stay without.
\<close>

definition detect :: "tools \<Rightarrow> engine option \<Rightarrow> ctx option \<Rightarrow> string \<Rightarrow> request_options \<Rightarrow> ('r, finding list) engine_call" where
  "detect ts eo co s opts =
    (case co of
       None \<Rightarrow> fail ErrNilContext
     | Some c \<Rightarrow>
         (case eo of
            None \<Rightarrow> fail ErrNilEngine
          | Some e \<Rightarrow> bind (gets k_budget) (\<lambda>given.
              finally_do (detect_with ts e c s opts (new_budget_unchecked (e_limits e)))
                (\<lambda>st. if given = None then st\<lparr>k_budget := None\<rparr> else st))))"

definition Detect :: "tools \<Rightarrow> engine option \<Rightarrow> ctx option \<Rightarrow> string \<Rightarrow> request_options \<Rightarrow> ('r, finding list) engine_call" where
  "Detect = detect"

section \<open>Redact\<close>

record redaction =
  rd_Redacted :: string
  rd_Findings :: "finding list"

text \<open>The result and the error are both returned, so the result is not part of a sum here.\<close>

type_synonym 'r redact_result = "(redaction \<times> engine_error option) \<times> 'r call"

fun render_all :: "'r renderer \<Rightarrow> ctx \<Rightarrow> string \<Rightarrow> finding list \<Rightarrow> string list \<Rightarrow> finding list \<Rightarrow> 'r call \<Rightarrow>
    ((redaction \<times> engine_error) + string list) \<times> 'r call" where
  "render_all rend c s all_findings out [] st = (Inr out, st)"
| "render_all rend c s all_findings out (f # fs) st =
    (case poll_k c st of
       (Inl e, st) \<Rightarrow> (Inl (\<lparr>rd_Redacted = s, rd_Findings = all_findings\<rparr>, e), st)
     | (Inr _, st) \<Rightarrow>
         if f_Start f < 0 \<or> f_End f \<le> f_Start f \<or> int (length s) < f_End f then
           (Inl (\<lparr>rd_Redacted = s, rd_Findings = []\<rparr>, ErrInternalFailure), st)
         else
           (case rend (Some c) f (islice s (f_Start f) (f_End f)) (k_polls st, k_renderer st) of
              (Inl e, (p, r)) \<Rightarrow>
                (Inl (\<lparr>rd_Redacted = s, rd_Findings = all_findings\<rparr>, ErrRendererFailed),
                 st\<lparr>k_polls := p, k_renderer := r\<rparr>)
            | (Inr x, (p, r)) \<Rightarrow>
                render_all rend c s all_findings (out @ [x]) fs (st\<lparr>k_polls := p, k_renderer := r\<rparr>)))"

text \<open>The \<open>strings.Builder\<close> loop.\<close>

fun rebuild :: "string \<Rightarrow> int \<Rightarrow> string \<Rightarrow> (finding \<times> string) list \<Rightarrow> string" where
  "rebuild s previous built [] = built @ drop (nat previous) s"
| "rebuild s previous built ((f, x) # rest) =
     rebuild s (f_End f) (built @ islice s previous (f_Start f) @ x) rest"

definition Redact :: "tools \<Rightarrow> engine option \<Rightarrow> ctx option \<Rightarrow> string \<Rightarrow> request_options \<Rightarrow> 'r renderer option \<Rightarrow>
    'r call \<Rightarrow> 'r redact_result" where
  "Redact ts eo co s opts ro st =
    (case detect ts eo co s opts st of
       (Inl e, st) \<Rightarrow> ((\<lparr>rd_Redacted = s, rd_Findings = []\<rparr>, Some e), st)
     | (Inr fs, st) \<Rightarrow>
         if fs = [] then ((\<lparr>rd_Redacted = s, rd_Findings = []\<rparr>, None), st)
         else
           (case co of
              None \<Rightarrow> ((\<lparr>rd_Redacted = s, rd_Findings = []\<rparr>, Some ErrNilContext), st)
            | Some c \<Rightarrow>
                let rend = (case ro of None \<Rightarrow> default_renderer | Some r \<Rightarrow> r) in
                case render_all rend c s fs [] fs st of
                  (Inl (red, e), st) \<Rightarrow> ((red, Some e), st)
                | (Inr xs, st) \<Rightarrow>
                    ((\<lparr>rd_Redacted = rebuild s 0 [] (zip fs xs), rd_Findings = fs\<rparr>, None), st)))"

definition Hit :: "redaction \<Rightarrow> bool" where
  "Hit r = (rd_Findings r \<noteq> [])"

section \<open>What a detection finds\<close>

text \<open>All candidates of all detectors, in the order in which they are added.\<close>

definition all_candidates :: "tools \<Rightarrow> engine \<Rightarrow> string \<Rightarrow> request_options \<Rightarrow> fspan list" where
  "all_candidates ts e s opts =
     List.map_filter (credential_field_candidate ts s) [ro_FieldContext opts] @
     pii_candidates ts s @ secret_candidates ts (e_rules e) (e_global_allowlists e) s"

lemma adds_detectors: "adds (all_candidates ts e s opts) (detectors ts e c s opts)"
proof -
  let ?f = "ro_FieldContext opts"
  have "adds (List.map_filter (credential_field_candidate ts s) [?f])
      (if \<not> credential_field_applies ?f \<or> \<not> is_credential_placeholder ts s
       then detect_credential_field ts s ?f else ret ())"
  proof (cases "\<not> credential_field_applies ?f \<or> \<not> is_credential_placeholder ts s")
    case True
    then show ?thesis using adds_detect_credential_field [of ts s ?f] by (simp del: List.map_filter_simps)
  next
    case False
    then have "List.map_filter (credential_field_candidate ts s) [?f] = []"
      by (simp add: credential_field_candidate_def)
    with False show ?thesis by (simp only: if_False adds_ret)
  qed
  then show ?thesis unfolding detectors_def all_candidates_def by (intro adds_rules)
qed

lemma poll_k_iff: "poll_k c s = (Inr u, t) \<longleftrightarrow> c (k_polls s) = None \<and> t = s\<lparr>k_polls := Suc (k_polls s)\<rparr>"
  by (auto simp: poll_k_def split: option.splits)

lemma run_detectors_result:
  assumes "run_detectors ts e c s opts m st = (Inr col, st')"
  shows "for_each (all_candidates ts e s opts) span_add
      (new_span_collector (int (length s)) m (ro_PreferredRuleIDs opts)) = (Inr (), col)"
proof -
  from assms obtain d where "detectors ts e c s opts \<lparr>d_polls = k_polls st,
      d_spans = new_span_collector (int (length s)) m (ro_PreferredRuleIDs opts)\<rparr> = (Inr (), d)" "col = d_spans d"
    by (auto simp: run_detectors_def split: prod.splits sum.splits)
  with addsD [OF adds_detectors this(1)] show ?thesis by simp
qed

lemma detect_with_result:
  assumes "detect_with ts e c s opts fresh st = (Inr fs, st')" "\<not> ro_PreservePlaceholder opts"
  obtains m col where "for_each (all_candidates ts e s opts) span_add
      (new_span_collector (int (length s)) m (ro_PreferredRuleIDs opts)) = (Inr (), col)" "fs = findings col"
  using assms that by (auto simp: detect_with_def bind_Inr_iff dest!: run_detectors_result)

definition findings_sound :: "string \<Rightarrow> finding list \<Rightarrow> bool" where
  "findings_sound s fs \<longleftrightarrow>
     sorted_wrt (\<lambda>f g. f_End f \<le> f_Start g) fs \<and>
     (\<forall>f \<in> set fs. 0 \<le> f_Start f \<and> f_Start f < f_End f \<and> f_End f \<le> int (length s))"

lemma detect_result:
  assumes "detect ts (Some e) co s opts st = (Inr fs, st')"
  shows "findings_sound s fs"
    "\<not> ro_PreservePlaceholder opts \<Longrightarrow>
      (\<Union>f \<in> set fs. {f_Start f ..< f_End f}) =
        covered (filter (span_in (int (length s))) (all_candidates ts e s opts))"
    "ro_PreservePlaceholder opts \<Longrightarrow> fs = []"
proof -
  from assms obtain c st1 where w: "detect_with ts e c s opts (new_budget_unchecked (e_limits e)) st = (Inr fs, st1)"
    by (auto simp: detect_def bind_Inr_iff finally_do_iff split: option.splits)
  show "ro_PreservePlaceholder opts \<Longrightarrow> fs = []"
    using w by (auto simp: detect_with_def bind_Inr_iff)
  then have "ro_PreservePlaceholder opts \<Longrightarrow> findings_sound s fs" by (simp add: findings_sound_def)
  moreover {
    assume "\<not> ro_PreservePlaceholder opts"
    with w obtain m col where run: "for_each (all_candidates ts e s opts) span_add
        (new_span_collector (int (length s)) m (ro_PreferredRuleIDs opts)) = (Inr (), col)" and fs: "fs = findings col"
      by (rule detect_with_result)
    let ?c0 = "new_span_collector (int (length s)) m (ro_PreferredRuleIDs opts)"
    have c0: "c_text_len ?c0 = int (length s)" "c_spans ?c0 = []" by (simp_all add: new_span_collector_def)
    have "collector_ok ?c0" by (rule new_span_collector_ok) simp
    from span_adds_result [OF run this] c0 have col: "collector_ok col" "c_text_len col = int (length s)"
      "covered (c_spans col) = covered (filter (span_in (int (length s))) (all_candidates ts e s opts))" by simp_all
    then have "spans_ok (int (length s)) (c_spans col)" by (simp add: collector_ok_def)
    from findings_ok [OF this] col(3)
    have "findings_sound s fs \<and> (\<Union>f \<in> set fs. {f_Start f ..< f_End f}) =
        covered (filter (span_in (int (length s))) (all_candidates ts e s opts))"
      by (simp add: fs findings_sound_def)
  }
  ultimately show "findings_sound s fs"
    "\<not> ro_PreservePlaceholder opts \<Longrightarrow>
      (\<Union>f \<in> set fs. {f_Start f ..< f_End f}) =
        covered (filter (span_in (int (length s))) (all_candidates ts e s opts))" by blast+
qed

section \<open>What a redaction writes\<close>

text \<open>
  The specification of the output: the text with the bytes of each finding exchanged for its
  replacement.
\<close>

fun redacted_from :: "string \<Rightarrow> int \<Rightarrow> (finding \<times> string) list \<Rightarrow> string" where
  "redacted_from s pos [] = drop (nat pos) s"
| "redacted_from s pos ((f, x) # rest) =
     islice s pos (f_Start f) @ x @ redacted_from s (f_End f) rest"

lemma rebuild_redacted: "rebuild s pos built fxs = built @ redacted_from s pos fxs"
  by (induction s pos built fxs rule: rebuild.induct) auto

text \<open>The replacements a renderer gives for findings in order, from one renderer state to another.\<close>

inductive renders :: "'r renderer \<Rightarrow> ctx \<Rightarrow> string \<Rightarrow> finding list \<Rightarrow> 'r \<Rightarrow> string list \<Rightarrow> 'r \<Rightarrow> bool"
  for rend :: "'r renderer" and c :: ctx and s :: string where
  renders_Nil: "renders rend c s [] r [] r"
| renders_Cons: "rend (Some c) f (islice s (f_Start f) (f_End f)) (p, r) = (Inr x, (p', r')) \<Longrightarrow>
    renders rend c s fs r' xs r'' \<Longrightarrow> renders rend c s (f # fs) r (x # xs) r''"

lemma renders_length: "renders rend c s fs r xs r' \<Longrightarrow> length xs = length fs"
  by (induction rule: renders.induct) auto

lemma render_all_result:
  "render_all rend c s all out fs st = (Inr ys, st') \<Longrightarrow>
   \<exists>xs. ys = out @ xs \<and> renders rend c s fs (k_renderer st) xs (k_renderer st')"
proof (induction rend c s all out fs st arbitrary: ys rule: render_all.induct)
  case (1 rend c s all out st)
  then show ?case by (auto intro: renders_Nil)
next
  case (2 rend c s all out f fs st)
  from "2.prems" obtain st1 x p r where
    1: "poll_k c st = (Inr (), st1)" and ok: "\<not> (f_Start f < 0 \<or> f_End f \<le> f_Start f \<or> int (length s) < f_End f)"
    and 2: "rend (Some c) f (islice s (f_Start f) (f_End f)) (k_polls st1, k_renderer st1) = (Inr x, (p, r))"
    and 3: "render_all rend c s all (out @ [x]) fs (st1\<lparr>k_polls := p, k_renderer := r\<rparr>) = (Inr ys, st')"
    by (auto split: prod.split_asm sum.split_asm if_split_asm)
  have "k_renderer st1 = k_renderer st" using 1 by (auto simp: poll_k_iff)
  with "2.IH" [OF 1[symmetric] refl ok 2[symmetric] refl refl 3] 2 show ?case by (auto intro: renders_Cons)
qed

lemma render_all_error:
  "render_all rend c s all out fs st = (Inl (red, e), st') \<Longrightarrow>
   rd_Redacted red = s \<and> (rd_Findings red = all \<or> rd_Findings red = [])"
  by (induction rend c s all out fs st rule: render_all.induct)
    (auto split: prod.split_asm sum.split_asm if_split_asm)

lemma Redact_result:
  assumes "Redact ts (Some e) co s opts ro st = ((red, err), st')"
  shows "err \<noteq> None \<Longrightarrow> rd_Redacted red = s"
    "err = None \<Longrightarrow> findings_sound s (rd_Findings red) \<and>
       (rd_Findings red = [] \<longrightarrow> rd_Redacted red = s) \<and>
       (rd_Findings red \<noteq> [] \<longrightarrow> (\<exists>c r xs r'. co = Some c \<and>
          renders (case ro of None \<Rightarrow> default_renderer | Some r \<Rightarrow> r) c s (rd_Findings red) r xs r' \<and>
          rd_Redacted red = redacted_from s 0 (zip (rd_Findings red) xs)))"
proof -
  obtain d st1 where d: "detect ts (Some e) co s opts st = (d, st1)" by fastforce
  show "err \<noteq> None \<Longrightarrow> rd_Redacted red = s"
    using assms d by (auto simp: Redact_def Let_def split: sum.split_asm if_split_asm option.split_asm prod.split_asm
        dest: render_all_error)
  assume err: "err = None"
  from assms d err obtain fs where fs: "d = Inr fs" "rd_Findings red = fs"
    by (auto simp: Redact_def Let_def split: sum.split_asm if_split_asm option.split_asm prod.split_asm)
  note sound = detect_result(1) [OF d [unfolded fs(1)]]
  show "findings_sound s (rd_Findings red) \<and>
       (rd_Findings red = [] \<longrightarrow> rd_Redacted red = s) \<and>
       (rd_Findings red \<noteq> [] \<longrightarrow> (\<exists>c r xs r'. co = Some c \<and>
          renders (case ro of None \<Rightarrow> default_renderer | Some r \<Rightarrow> r) c s (rd_Findings red) r xs r' \<and>
          rd_Redacted red = redacted_from s 0 (zip (rd_Findings red) xs)))"
  proof (cases "fs = []")
    case True
    with assms d fs err sound show ?thesis by (auto simp: Redact_def)
  next
    case False
    let ?rend = "case ro of None \<Rightarrow> default_renderer | Some r \<Rightarrow> r"
    obtain c where c: "co = Some c"
      using assms d fs err False by (cases co) (auto simp: Redact_def)
    obtain r1 st2 where ra: "render_all ?rend c s fs [] fs st1 = (r1, st2)" by fastforce
    obtain ys where ys: "render_all ?rend c s fs [] fs st1 = (Inr ys, st')"
      and out: "rd_Redacted red = rebuild s 0 [] (zip fs ys)"
      using assms d fs err False ra unfolding c Redact_def Let_def by (cases r1; cases red) auto
    from render_all_result [OF ys] obtain xs where "ys = xs"
      "renders ?rend c s fs (k_renderer st1) xs (k_renderer st')" by auto
    with c out fs sound False show ?thesis by (auto simp: rebuild_redacted)
  qed
qed


section \<open>Properties\<close>

text \<open>A fixed call: no rules, a context that is never cancelled, the default limits.\<close>

definition sample_tools :: tools where
  "sample_tools = \<lparr>t_lower = (\<lambda>s. s), t_upper = (\<lambda>s. s), t_entropy = (\<lambda>_. 0)\<rparr>"

definition sample_engine :: engine where
  "sample_engine = \<lparr>e_rules = [], e_global_allowlists = [], e_limits = default_engine_limits,
     e_report = empty_report\<rparr>"

definition sample_options :: request_options where
  "sample_options = \<lparr>ro_PreferredRuleIDs = {},
     ro_FieldContext = \<lparr>fc_ImmediateKey = [], fc_Ancestors = [], fc_AncestorCount = 0, fc_ToolScope = [], fc_Structured = False,
       fc_Encoded = False\<rparr>, ro_PreservePlaceholder = False\<rparr>"

definition sample_call :: "unit call" where
  "sample_call = \<lparr>k_polls = 0, k_budget = None, k_renderer = ()\<rparr>"


definition sample_text :: string where
  "sample_text = ''ip 8.8.8.8''"

definition never :: ctx where
  "never = (\<lambda>_. None)"

lemma sample_detect:
  "detect sample_tools (Some sample_engine) (Some never) sample_text sample_options sample_call =
    (Inr [\<lparr>f_Kind = ''ip'', f_RuleID = ''pii.ipv4'', f_Start = 3, f_End = 10\<rparr>],
     \<lparr>k_polls = 10, k_budget = None, k_renderer = ()\<rparr>)"
  by code_simp

text \<open>
  C7: What \<open>Detect\<close> returns without an error are findings that lie inside the text, are not empty,
  are sorted and do not overlap, and the bytes they cover are exactly the bytes of the candidates of
  all detectors (the credential field, the PII detectors, every rule, the context and the entropy
  detector) that lie inside the text: no layer hides a byte that another layer found.
\<close>

theorem detect_covers_every_candidate:
  assumes "detect ts (Some e) co s opts st = (Inr fs, st')" "\<not> ro_PreservePlaceholder opts"
  shows "findings_sound s fs \<and>
    (\<Union>f \<in> set fs. {f_Start f ..< f_End f}) =
      covered (filter (span_in (int (length s))) (all_candidates ts e s opts))"
  using detect_result(1,2) [OF assms(1)] assms(2) by simp

lemma detect_covers_every_candidate_witness:
  "findings_sound sample_text [\<lparr>f_Kind = ''ip'', f_RuleID = ''pii.ipv4'', f_Start = 3, f_End = 10\<rparr>] \<and>
   covered (filter (span_in (int (length sample_text)))
     (all_candidates sample_tools sample_engine sample_text sample_options)) = {3 ..< 10}"
  using detect_covers_every_candidate [OF sample_detect] by (simp add: sample_options_def)

text \<open>
  C6: Redaction is exact and all or nothing. An error leaves the text as it was. Without an error the
  output is the text in which each finding's bytes, and no others, are replaced by what the renderer
  gave for them, the renderer being called once per finding from left to right.
\<close>

theorem redact_exact:
  assumes "Redact ts (Some e) co s opts ro st = ((red, err), st')"
  shows "if err \<noteq> None then rd_Redacted red = s
    else findings_sound s (rd_Findings red) \<and>
      (if rd_Findings red = [] then rd_Redacted red = s
       else (\<exists>c r xs r'. co = Some c \<and>
         renders (case ro of None \<Rightarrow> default_renderer | Some rend \<Rightarrow> rend) c s (rd_Findings red) r xs r' \<and>
         rd_Redacted red = redacted_from s 0 (zip (rd_Findings red) xs)))"
  using Redact_result [OF assms] by simp

lemma sample_redact:
  "Redact sample_tools (Some sample_engine) (Some never) sample_text sample_options None sample_call =
     ((\<lparr>rd_Redacted = ''ip [IP]'',
        rd_Findings = [\<lparr>f_Kind = ''ip'', f_RuleID = ''pii.ipv4'', f_Start = 3, f_End = 10\<rparr>]\<rparr>, None),
      \<lparr>k_polls = 12, k_budget = None, k_renderer = ()\<rparr>)"
  unfolding Redact_def sample_detect by code_simp

lemma redact_exact_witness:
  "\<exists>c r xs r'. renders (default_renderer :: unit renderer) c sample_text
       [\<lparr>f_Kind = ''ip'', f_RuleID = ''pii.ipv4'', f_Start = 3, f_End = 10\<rparr>] r xs r' \<and>
     ''ip [IP]'' = redacted_from sample_text 0
       (zip [\<lparr>f_Kind = ''ip'', f_RuleID = ''pii.ipv4'', f_Start = 3, f_End = 10\<rparr>] xs)"
  using redact_exact [OF sample_redact] by simp blast

end
