(* ===== verification/Loader.thy ===== *)
theory Loader
  imports Engine
begin

text \<open>
  \<open>New\<close> of \<open>internal/privacyengine/engine.go\<close>: the construction of an engine from the embedded and
  the custom rules. The report is returned with and without an error.
\<close>

type_synonym custom_mode = "8 word"

definition CustomRulesNone :: custom_mode where "CustomRulesNone = 0"
definition CustomRulesExtend :: custom_mode where "CustomRulesExtend = 1"
definition CustomRulesReplace :: custom_mode where "CustomRulesReplace = 2"

record config =
  cf_EmbeddedTOML :: string
  cf_CustomTOML :: string
  cf_CustomMode :: custom_mode
  cf_EmbeddedCompatibility :: policy
  cf_CustomCompatibility :: policy
  cf_DefaultLimits :: engine_limits

definition valid_policy :: "policy \<Rightarrow> bool" where
  "valid_policy p = (p = CompatibilityError \<or> p = CompatibilitySkipUnsupported)"

text \<open>\<open>errWithCombinedReport\<close>\<close>

definition with_combined_report :: "load_error \<Rightarrow> compat_report \<Rightarrow> load_error" where
  "with_combined_report e r = (case e of RulesCompatibility _ \<Rightarrow> RulesCompatibility r | _ \<Rightarrow> e)"

text \<open>The checks of the modes.\<close>

definition check_config :: "config \<Rightarrow> load_error option" where
  "check_config c =
    (let has_embedded = cf_EmbeddedTOML c \<noteq> []; has_custom = cf_CustomTOML c \<noteq> []; mode = cf_CustomMode c in
     if \<not> valid_policy (cf_EmbeddedCompatibility c) \<or> \<not> valid_policy (cf_CustomCompatibility c) then Some InvalidPolicy
     else if has_custom \<and> mode = CustomRulesNone then Some CustomNeedsMode
     else if \<not> has_custom \<and> mode \<noteq> CustomRulesNone then Some ModeWithoutCustom
     else if mode \<noteq> CustomRulesNone \<and> mode \<noteq> CustomRulesExtend \<and> mode \<noteq> CustomRulesReplace then
       Some InvalidCustomMode
     else if \<not> has_embedded \<and> \<not> has_custom then Some NoRulesSupplied
     else None)"

text \<open>The loop that extends the embedded rules by the custom ones; the state is the report.\<close>

fun extend_rules ::
  "policy \<Rightarrow> string set \<Rightarrow> secret_rule list \<Rightarrow> secret_rule list \<Rightarrow> (load_error, compat_report, secret_rule list) M" where
  "extend_rules pol ids rs [] = ret rs"
| "extend_rules pol ids rs (rule # rest) =
    (if r_id rule \<in> ids then
       (let action = (if pol = CompatibilitySkipUnsupported then CompatibilitySkipped else CompatibilityRejected) in
        seq (modify (\<lambda>r. (push_issue \<lparr>ci_Source = RuleSourceCustom, ci_RuleID = r_id rule, ci_Feature = ''rule.id'',
               ci_Action = action, ci_Detail = ''custom rule id duplicates an embedded rule''\<rparr> r)
               \<lparr>cr_RulesLoaded := cr_RulesLoaded r - 1\<rparr>))
        (if action = CompatibilitySkipped then
           seq (modify (\<lambda>r. r\<lparr>cr_RulesSkipped := cr_RulesSkipped r + 1\<rparr>))
             (extend_rules pol ids rs rest)
         else bind get_state (\<lambda>r. fail (RulesCompatibility r))))
     else extend_rules pol (insert (r_id rule) ids) (rs @ [rule]) rest)"

text \<open>\<open>report.append(parsed.report)\<close> and the check of its error.\<close>

definition load_source ::
  "tools \<Rightarrow> toml_decoder \<Rightarrow> re_compiler \<Rightarrow> string \<Rightarrow> rule_source \<Rightarrow> policy \<Rightarrow>
     (load_error, compat_report, parsed_rule_set) M" where
  "load_source ts toml rx data src pol r =
    (case parse_rule_set ts toml rx data src pol of
       (p, e) \<Rightarrow>
         let r = report_append r (ps_report p) in
         (case e of None \<Rightarrow> (Inr p, r) | Some e \<Rightarrow> (Inl (with_combined_report e r), r)))"

definition load_both ::
  "tools \<Rightarrow> toml_decoder \<Rightarrow> re_compiler \<Rightarrow> config \<Rightarrow> engine_limits \<Rightarrow> (load_error, compat_report, engine) M" where
  "load_both ts toml rx c lims =
    bind (if cf_CustomMode c \<noteq> CustomRulesReplace then
            (if cf_EmbeddedTOML c = [] then fail ExtendNeedsEmbedded
             else load_source ts toml rx (cf_EmbeddedTOML c) RuleSourceEmbedded (cf_EmbeddedCompatibility c))
          else ret empty_rule_set) (\<lambda>embedded.
    bind (if cf_CustomTOML c \<noteq> [] then
            load_source ts toml rx (cf_CustomTOML c) RuleSourceCustom (cf_CustomCompatibility c)
          else ret empty_rule_set) (\<lambda>custom.
    bind (if cf_CustomTOML c \<noteq> [] then
            (if cf_CustomMode c = CustomRulesReplace then ret (ps_rules embedded @ ps_rules custom)
             else extend_rules (cf_CustomCompatibility c) (r_id ` set (ps_rules embedded)) (ps_rules embedded)
                    (ps_rules custom))
          else ret (ps_rules embedded)) (\<lambda>rs.
    bind get_state (\<lambda>r.
    ret \<lparr>e_rules = rs,
         e_global_allowlists = ps_globals embedded @ (if cf_CustomTOML c \<noteq> [] then ps_globals custom else []),
         e_limits = lims, e_report = r\<rparr>))))"

definition New :: "tools \<Rightarrow> toml_decoder \<Rightarrow> re_compiler \<Rightarrow> config \<Rightarrow> (load_error + engine) \<times> compat_report" where
  "New ts toml rx c =
    (case normalize_limits (cf_DefaultLimits c) of
       Inl _ \<Rightarrow> (Inl NegativeDefaultLimits, empty_report)
     | Inr lims \<Rightarrow>
         (case check_config c of
            Some e \<Rightarrow> (Inl e, empty_report)
          | None \<Rightarrow> load_both ts toml rx c lims empty_report))"

text \<open>\<open>Stats\<close> and \<open>CompatibilityReport\<close> of a possibly nil engine.\<close>

definition Stats :: "engine option \<Rightarrow> int \<times> int" where
  "Stats eo = (case eo of None \<Rightarrow> (0, 0) | Some e \<Rightarrow> (cr_RulesLoaded (e_report e), cr_RulesSkipped (e_report e)))"

definition CompatibilityReport_of :: "engine option \<Rightarrow> compat_report" where
  "CompatibilityReport_of eo = (case eo of None \<Rightarrow> empty_report | Some e \<Rightarrow> e_report e)"

section \<open>Construction keeps the accounts\<close>

definition accounts :: "secret_rule list \<Rightarrow> compat_report \<Rightarrow> bool" where
  "accounts rs r \<longleftrightarrow> cr_RulesLoaded r = int (length rs) \<and>
     cr_RulesSeen r = cr_RulesLoaded r + cr_RulesSkipped r"

lemma extend_rules_result:
  assumes "extend_rules pol ids rs custom r = (Inr out, r')" "rules_ok rx rs" "rules_ok rx custom"
    "ids = r_id ` set rs" "cr_RulesLoaded r = int (length rs + length custom)"
    "cr_RulesSeen r = cr_RulesLoaded r + cr_RulesSkipped r"
  shows "rules_ok rx out \<and> accounts out r' \<and> set rs \<subseteq> set out \<and>
    (pol \<noteq> CompatibilitySkipUnsupported \<longrightarrow> cr_Issues r' = cr_Issues r \<and> out = rs @ custom) \<and>
    (\<forall>rule \<in> set custom. r_id rule \<in> r_id ` set out)"
  using assms
proof (induction custom arbitrary: ids rs r)
  case Nil
  then show ?case by (simp add: accounts_def)
next
  case (Cons rule custom)
  have ok: "rules_ok rx custom" "rule_ok rx rule" "r_id rule \<notin> r_id ` set custom"
    using Cons.prems(3) by (auto simp: rules_ok_def)
  show ?case
  proof (cases "r_id rule \<in> ids")
    case True
    let ?r1 = "(push_issue \<lparr>ci_Source = RuleSourceCustom, ci_RuleID = r_id rule, ci_Feature = ''rule.id'',
        ci_Action = CompatibilitySkipped, ci_Detail = ''custom rule id duplicates an embedded rule''\<rparr> r)
        \<lparr>cr_RulesLoaded := cr_RulesLoaded r - 1, cr_RulesSkipped := cr_RulesSkipped r + 1\<rparr>"
    have pol: "pol = CompatibilitySkipUnsupported" and run: "extend_rules pol ids rs custom ?r1 = (Inr out, r')"
      using Cons.prems(1) True
      by (auto simp: bind_Inr_iff Let_def push_issue_def split: if_split_asm)
    have "rules_ok rx out \<and> accounts out r' \<and> set rs \<subseteq> set out \<and>
      (pol \<noteq> CompatibilitySkipUnsupported \<longrightarrow> cr_Issues r' = cr_Issues ?r1 \<and> out = rs @ custom) \<and>
      (\<forall>rule \<in> set custom. r_id rule \<in> r_id ` set out)"
      by (rule Cons.IH [OF run Cons.prems(2) ok(1) Cons.prems(4)])
        (use Cons.prems(5,6) in \<open>simp_all add: push_issue_def\<close>)
    with pol True Cons.prems(4) show ?thesis by auto
  next
    case False
    with Cons.prems(1) have run: "extend_rules pol (insert (r_id rule) ids) (rs @ [rule]) custom r = (Inr out, r')" by simp
    have "rules_ok rx out \<and> accounts out r' \<and> set (rs @ [rule]) \<subseteq> set out \<and>
      (pol \<noteq> CompatibilitySkipUnsupported \<longrightarrow> cr_Issues r' = cr_Issues r \<and> out = (rs @ [rule]) @ custom) \<and>
      (\<forall>rule \<in> set custom. r_id rule \<in> r_id ` set out)"
      by (rule Cons.IH [OF run _ ok(1)])
        (use Cons.prems ok False in \<open>auto simp: rules_ok_def\<close>)
    then show ?thesis by auto
  qed
qed


lemma load_source_result:
  assumes "load_source ts toml rx data src pol r = (Inr p, r')"
  shows "rule_set_ok rx p" "r' = report_append r (ps_report p)"
    "pol \<noteq> CompatibilitySkipUnsupported \<Longrightarrow> cr_Issues (ps_report p) = []"
proof -
  from assms have *: "parse_rule_set ts toml rx data src pol = (p, None)" "r' = report_append r (ps_report p)"
    by (auto simp: load_source_def Let_def split: prod.split_asm option.split_asm)
  show "rule_set_ok rx p" by (rule parse_rule_set_ok(1) [OF *(1)])
  show "r' = report_append r (ps_report p)" by (rule *(2))
  show "pol \<noteq> CompatibilitySkipUnsupported \<Longrightarrow> cr_Issues (ps_report p) = []" by (rule parse_rule_set_ok(2) [OF *(1)])
qed

definition skips :: "config \<Rightarrow> bool" where
  "skips c \<longleftrightarrow> cf_EmbeddedCompatibility c = CompatibilitySkipUnsupported \<or>
     cf_CustomCompatibility c = CompatibilitySkipUnsupported"

lemma empty_rule_set_fields [simp]:
  "ps_rules empty_rule_set = []" "ps_globals empty_rule_set = []" "ps_report empty_rule_set = empty_report"
  by (simp_all add: empty_rule_set_def)

lemma empty_report_fields [simp]:
  "cr_RulesSeen empty_report = 0" "cr_RulesLoaded empty_report = 0" "cr_RulesSkipped empty_report = 0"
  "cr_Issues empty_report = []"
  by (simp_all add: empty_report_def)

lemma report_append_empty [simp]: "report_append r empty_report = r" "report_append empty_report r = r"
  by (simp_all add: report_append_def empty_report_def)

lemma load_both_result:
  assumes "load_both ts toml rx c lims empty_report = (Inr e, r)"
    and "cf_CustomTOML c = [] \<Longrightarrow> cf_CustomMode c = CustomRulesNone"
  shows "rules_ok rx (e_rules e) \<and> accounts (e_rules e) r \<and> e_report e = r \<and> e_limits e = lims \<and>
    (\<not> skips c \<longrightarrow> cr_Issues r = [])"
proof -
  let ?replace = "cf_CustomMode c = CustomRulesReplace" and ?custom = "cf_CustomTOML c \<noteq> []"
  from assms(1) obtain emb r1 cus r2 rs where
    1: "(if \<not> ?replace then if cf_EmbeddedTOML c = [] then fail ExtendNeedsEmbedded
         else load_source ts toml rx (cf_EmbeddedTOML c) RuleSourceEmbedded (cf_EmbeddedCompatibility c)
       else ret empty_rule_set) empty_report = (Inr emb, r1)"
    and 2: "(if ?custom then load_source ts toml rx (cf_CustomTOML c) RuleSourceCustom (cf_CustomCompatibility c)
       else ret empty_rule_set) r1 = (Inr cus, r2)"
    and 3: "(if ?custom then if ?replace then ret (ps_rules emb @ ps_rules cus)
         else extend_rules (cf_CustomCompatibility c) (r_id ` set (ps_rules emb)) (ps_rules emb) (ps_rules cus)
       else ret (ps_rules emb)) r2 = (Inr rs, r)"
    and e: "e_rules e = rs" "e_report e = r" "e_limits e = lims"
    unfolding load_both_def bind_Inr_iff by auto
  have emb: "rule_set_ok rx emb \<and> r1 = ps_report emb \<and> (\<not> skips c \<longrightarrow> cr_Issues (ps_report emb) = [])
      \<and> (?replace \<longrightarrow> emb = empty_rule_set)"
    using 1 load_source_result [of ts toml rx "cf_EmbeddedTOML c" RuleSourceEmbedded
        "cf_EmbeddedCompatibility c" empty_report emb r1] empty_rule_set_ok
    by (auto simp: skips_def split: if_split_asm)
  have cus: "rule_set_ok rx cus \<and> r2 = report_append r1 (ps_report cus) \<and>
      (\<not> skips c \<longrightarrow> cr_Issues (ps_report cus) = []) \<and> (\<not> ?custom \<longrightarrow> cus = empty_rule_set)"
    using 2 load_source_result [of ts toml rx "cf_CustomTOML c" RuleSourceCustom
        "cf_CustomCompatibility c" r1 cus r2] empty_rule_set_ok
    by (auto simp: skips_def split: if_split_asm)
  show ?thesis
  proof (cases "?custom \<and> \<not> ?replace")
    case True
    with 3 have run: "extend_rules (cf_CustomCompatibility c) (r_id ` set (ps_rules emb)) (ps_rules emb) (ps_rules cus) r2
        = (Inr rs, r)" by simp
    have "rules_ok rx rs \<and> accounts rs r \<and> set (ps_rules emb) \<subseteq> set rs \<and>
      (cf_CustomCompatibility c \<noteq> CompatibilitySkipUnsupported \<longrightarrow>
        cr_Issues r = cr_Issues r2 \<and> rs = ps_rules emb @ ps_rules cus) \<and>
      (\<forall>rule \<in> set (ps_rules cus). r_id rule \<in> r_id ` set rs)"
      by (rule extend_rules_result [OF run]) (use emb cus in \<open>auto simp: rule_set_ok_def report_append_def\<close>)
    with emb cus e show ?thesis by (auto simp: skips_def report_append_def)
  next
    case False
    with 3 emb cus assms(2) have rs: "rs = ps_rules emb @ ps_rules cus" "r = r2" "emb = empty_rule_set \<or> cus = empty_rule_set"
      by (auto split: if_split_asm)
    with emb cus e show ?thesis
      by (auto simp: rule_set_ok_def accounts_def report_append_def)
  qed
qed

section \<open>Properties\<close>

text \<open>
  C24: An engine that is constructed has sound rules and honest accounts: the ids of its rules are
  distinct and not empty, each expression compiled, each selected capture group is one of the
  expression, no entropy threshold is negative, the limits are positive; the report counts exactly
  the rules the engine has, every rule seen is loaded or skipped; and when no policy allows
  skipping, there is no issue at all.
\<close>

theorem new_engine_sound:
  "New ts toml rx c = (Inr e, r) \<Longrightarrow>
   rules_ok rx (e_rules e) \<and> accounts (e_rules e) r \<and> e_report e = r \<and> limits_positive (e_limits e) \<and>
   (\<not> skips c \<longrightarrow> cr_Issues r = [])"
proof -
  assume "New ts toml rx c = (Inr e, r)"
  then obtain lims where l: "normalize_limits (cf_DefaultLimits c) = Inr lims" and c: "check_config c = None"
    and b: "load_both ts toml rx c lims empty_report = (Inr e, r)"
    by (auto simp: New_def split: sum.split_asm option.split_asm)
  from c have "cf_CustomTOML c = [] \<Longrightarrow> cf_CustomMode c = CustomRulesNone"
    by (auto simp: check_config_def Let_def split: if_split_asm)
  from load_both_result [OF b this] normalize_limits_positive [OF l] show ?thesis by simp
qed

definition sample_toml :: toml_decoder where
  "sample_toml data = Some (\<lparr>rc_Allowlist = None, rc_Allowlists = [],
     rc_Rules = [\<lparr>rr_ID = '' demo '', rr_Regex = ''k'', rr_Path = [], rr_Keywords = [''k''],
       rr_Entropy = TFinite 3, rr_SecretGroup = Some 1, rr_Allowlist = None, rr_Allowlists = []\<rparr>,
      \<lparr>rr_ID = data, rr_Regex = ''k'', rr_Path = [], rr_Keywords = [],
       rr_Entropy = TNaN, rr_SecretGroup = None, rr_Allowlist = None, rr_Allowlists = []\<rparr>]\<rparr>, [])"

definition sample_rx :: re_compiler where
  "sample_rx src = (if src = ''k'' then Some (\<lambda>_. None, 1) else None)"

definition sample_config :: config where
  "sample_config = \<lparr>cf_EmbeddedTOML = ''e'', cf_CustomTOML = ''c'', cf_CustomMode = CustomRulesExtend,
     cf_EmbeddedCompatibility = CompatibilitySkipUnsupported,
     cf_CustomCompatibility = CompatibilitySkipUnsupported,
     cf_DefaultLimits = \<lparr>MaxBytes = 0, MaxFindings = 0, EMaxNodes = 0\<rparr>\<rparr>"

lemma new_engine_sound_witness:
  "\<exists>e r. New sample_tools sample_toml sample_rx sample_config = (Inr e, r) \<and>
     map r_id (e_rules e) = [''demo''] \<and> accounts (e_rules e) r"
proof -
  let ?n = "New sample_tools sample_toml sample_rx sample_config"
  have "(case ?n of (Inr e, r) \<Rightarrow> map r_id (e_rules e) = [''demo''] | _ \<Rightarrow> False)" by code_simp
  then obtain e r where n: "?n = (Inr e, r)" "map r_id (e_rules e) = [''demo'']"
    by (cases ?n; cases "fst ?n") auto
  from new_engine_sound [OF n(1)] n show ?thesis by (intro exI [of _ e] exI [of _ r]) simp
qed

text \<open>
  An allowlist is kept only when it can be evaluated: it has a regular expression or a stop
  word, and a conjunction keeps none of the criteria (paths, commits) that protocol text does not
  have, so a partly evaluated conjunction never suppresses a finding.
\<close>

theorem kept_allowlist_is_evaluable:
  "compile_allowlist ts rx a src rid f pol r = (Some c, r') \<Longrightarrow> valid_policy pol \<Longrightarrow>
   (al_regexes c \<noteq> [] \<or> al_stopwords c \<noteq> []) \<and>
   (al_condition c = AllowlistAND \<longrightarrow> ra_Paths a = [] \<and> ra_Commits a = [])"
  using compile_allowlist_criteria [of ts rx a src rid f pol r c r']
    compile_allowlist_conjunction [of ts rx a src rid f pol r c r'] by (auto simp: valid_policy_def)

lemma kept_allowlist_is_evaluable_witness:
  "let a = \<lparr>ra_Condition = ''and'', ra_RegexTarget = ''line'', ra_Commits = [], ra_Paths = [],
        ra_Regexes = [''k''], ra_Stopwords = [''Test'']\<rparr>
   in (\<exists>c r'. compile_allowlist sample_tools sample_rx a RuleSourceCustom ''id'' ''f''
         CompatibilityError empty_report = (Some c, r') \<and> al_stopwords c = [''test''] \<and>
         (al_regexes c \<noteq> [] \<or> al_stopwords c \<noteq> []) \<and> ra_Paths a = [])"
proof -
  let ?a = "\<lparr>ra_Condition = ''and'', ra_RegexTarget = ''line'', ra_Commits = [], ra_Paths = [],
        ra_Regexes = [''k''], ra_Stopwords = [''Test'']\<rparr>"
  let ?c = "compile_allowlist sample_tools sample_rx ?a RuleSourceCustom ''id'' ''f'' CompatibilityError empty_report"
  have "(case fst ?c of Some c \<Rightarrow> al_stopwords c = [''test''] \<and> al_condition c = AllowlistAND | None \<Rightarrow> False)"
    by code_simp
  then obtain c r' where c: "?c = (Some c, r')" "al_stopwords c = [''test'']" "al_condition c = AllowlistAND"
    by (cases ?c; cases "fst ?c") auto
  have "valid_policy CompatibilityError" by (simp add: valid_policy_def)
  from kept_allowlist_is_evaluable [OF c(1) this] c show ?thesis by (auto simp: Let_def)
qed

end
