(* ===== verification/Walk_Types.thy ===== *)
theory Walk_Types
  imports Document
begin

text \<open>
  The data of package \<open>walker\<close> (\<open>walker/types.go\<close>): protocols, scopes, target kinds,
  mutability, targets, unsupported shapes, results and errors. Go's named string types
  \<open>Protocol\<close>, \<open>Scope\<close> and \<open>TargetKind\<close> only hold the declared constants (and the empty scope),
  so they are datatypes; \<open>protocol_string\<close> is the conversion the registry uses.
\<close>

section \<open>Names\<close>

datatype protocol =
  ProtocolOpenAI | ProtocolOpenAIResponse | ProtocolClaude | ProtocolGemini | ProtocolInteractions

fun protocol_string :: "protocol \<Rightarrow> string" where
  "protocol_string ProtocolOpenAI = ''openai''"
| "protocol_string ProtocolOpenAIResponse = ''openai-response''"
| "protocol_string ProtocolClaude = ''claude''"
| "protocol_string ProtocolGemini = ''gemini''"
| "protocol_string ProtocolInteractions = ''interactions''"

datatype scope = NoScope | ScopeSystem | ScopeUser | ScopeAssistant | ScopeToolInput | ScopeToolOutput

datatype target_kind =
    TargetKindNaturalText
  | TargetKindEncodedJSON
  | TargetKindJSONValue
  | TargetKindToolOutput
  | TargetKindCode
  | TargetKindExecutionOutput

datatype mutability = MutabilityInvalid | MutabilityDirect | MutabilityEncodedJSON | MutabilityJSONOrPlain

section \<open>Errors\<close>

text \<open>
  \<open>decode_error\<close> is what \<open>encoding/json\<close> reports. The text Go formats into an error is kept
  where it is a constant; \<open>None\<close> as a path stands for a path that could not be materialised,
  which never happens on a parsed tree. \<open>NilDereference\<close> is a run-time panic of the program;
  \<open>TreeFuel\<close> is no error of the program, see \<open>Tree\<close>.
\<close>

datatype decode_error = DecodeEOF | DecodeUnexpectedEOF | DecodeSyntax

datatype walk_error =
    Payload payload_error
  | Decode decode_error
  | Internal string
  | InternalAt string "path option"
  | IndexMismatch nat nat
  | StringMismatch "path option"
  | ShapeError protocol "path option" string kind string
  | AmbiguityError protocol "path option" "string list"
  | UnsupportedFormat string
  | InvalidOptions nat
  | NilDereference
  | TreeFuel

section \<open>Results\<close>

record target_context =
  tc_Fields :: string_key_context
  tc_ToolScope :: scope
  tc_Structured :: bool
  tc_Encoded :: bool

record target =
  tg_Token :: string_token
  tg_Path :: path
  tg_Scope :: scope
  tg_Kind :: target_kind
  tg_Mutable :: mutability
  tg_Context :: target_context

text \<open>A detail is a constant, or a constant followed by a quoted value of the request.\<close>

datatype shape_detail = Plain string | Quoted string string

record unsupported_shape =
  us_Protocol :: protocol
  us_Path :: "path option"
  us_Detail :: shape_detail

record walk_result =
  wr_Protocol :: protocol
  wr_SourceFormat :: string
  wr_Document :: document
  wr_Targets :: "target list"
  wr_Skipped :: int
  wr_Opaque :: nat
  wr_UnsupportedCount :: nat
  wr_Unsupported :: "unsupported_shape list"
  wr_JSONNodes :: nat
  wr_StructuralBytes :: int

end
