(* ===== verification/Tree.thy ===== *)
theory Tree
  imports Walk_Types
begin

text \<open>
  The tree parser of \<open>walker/tree.go\<close>. It reads the body a second time, through the token
  stream of \<open>encoding/json\<close> (\<open>Decoder.Token\<close> and \<open>Decoder.More\<close>, modelled here with the
  decoder's token states), checks every string against the index of the scanned document and
  charges everything it retains to the structural budget the scanner has already used.

  Lemmas: the fuel of the recursive descent always suffices, and the strings of a parsed tree
  are exactly the strings of the document, in order.
\<close>

section \<open>The token stream of encoding/json\<close>

datatype token_state =
    TokenTopValue | TokenArrayStart | TokenArrayValue | TokenArrayComma
  | TokenObjectStart | TokenObjectKey | TokenObjectColon | TokenObjectValue | TokenObjectComma

record decoder =
  dc_rest :: string
  dc_state :: token_state
  dc_stack :: "token_state list"

datatype json_token = TDelim char | TString string | TNumber string | TBool bool | TNull

abbreviation json_space :: "char \<Rightarrow> bool" where
  "json_space c \<equiv> c = CHR '' '' \<or> c = CHR 0x09 \<or> c = CHR 0x0D \<or> c = CHR 0x0A"

text \<open>The body of a string literal up to its closing quote, and what follows.\<close>

fun string_end :: "string \<Rightarrow> decode_error + string \<times> string" where
  "string_end [] = Inl DecodeUnexpectedEOF"
| "string_end (c # s) =
    (if c = CHR 0x22 then Inr ([], s)
     else if byte_of c < 32 then Inl DecodeSyntax
     else if c = CHR 0x5C then
       (case s of
          [] \<Rightarrow> Inl DecodeUnexpectedEOF
        | e # s' \<Rightarrow>
            if simple_escape e = None \<and> e \<noteq> CHR ''u'' then Inl DecodeSyntax
            else (case string_end s' of
                Inl x \<Rightarrow> Inl x
              | Inr (body, rest) \<Rightarrow>
                  if e = CHR ''u'' \<and> (length body < 4 \<or> \<not> list_all is_hex (take 4 body))
                  then Inl DecodeSyntax
                  else Inr (c # e # body, rest)))
     else (case string_end s of Inl x \<Rightarrow> Inl x | Inr (body, rest) \<Rightarrow> Inr (c # body, rest)))"

text \<open>The longest prefix the number states of the decoder's scanner accept.\<close>

definition digits :: "string \<Rightarrow> decode_error + string \<times> string" where
  "digits s =
    (case takeWhile is_digit s of
       [] \<Rightarrow> Inl (if s = [] then DecodeUnexpectedEOF else DecodeSyntax)
     | ds \<Rightarrow> Inr (ds, dropWhile is_digit s))"

definition integer_part :: "string \<Rightarrow> decode_error + string \<times> string" where
  "integer_part s =
    (case s of
       c # s' \<Rightarrow> if c = CHR ''0'' then Inr ([c], s') else digits s
     | [] \<Rightarrow> digits s)"

definition frac_part :: "string \<Rightarrow> decode_error + string \<times> string" where
  "frac_part s =
    (case s of
       c # s' \<Rightarrow> if c = CHR ''.'' then map_sum id (apfst (Cons c)) (digits s') else Inr ([], s)
     | [] \<Rightarrow> Inr ([], s))"

definition exp_part :: "string \<Rightarrow> decode_error + string \<times> string" where
  "exp_part s =
    (case s of
       c # s' \<Rightarrow>
         if c = CHR ''e'' \<or> c = CHR ''E'' then
           (case s' of
              g # s'' \<Rightarrow>
                if g = CHR ''+'' \<or> g = CHR ''-'' then map_sum id (apfst (\<lambda>d. c # g # d)) (digits s'')
                else map_sum id (apfst (Cons c)) (digits s')
            | [] \<Rightarrow> Inl DecodeUnexpectedEOF)
         else Inr ([], s)
     | [] \<Rightarrow> Inr ([], s))"

definition number_end :: "string \<Rightarrow> decode_error + string \<times> string" where
  "number_end s =
    (let (sign, s1) = (if hd s = CHR ''-'' then ([hd s], tl s) else ([], s)) in
     case integer_part s1 of Inl e \<Rightarrow> Inl e | Inr (i, s2) \<Rightarrow>
     (case frac_part s2 of Inl e \<Rightarrow> Inl e | Inr (f, s3) \<Rightarrow>
     (case exp_part s3 of Inl e \<Rightarrow> Inl e | Inr (x, s4) \<Rightarrow> Inr (sign @ i @ f @ x, s4))))"

definition literal_end :: "string \<Rightarrow> json_token \<Rightarrow> string \<Rightarrow> decode_error + json_token \<times> string" where
  "literal_end name tok s =
    (if take (length name) s = name then Inr (tok, drop (length name) s)
     else Inl (if length s < length name \<and> take (length s) name = s then DecodeUnexpectedEOF else DecodeSyntax))"

text \<open>\<open>Decoder.Decode\<close> on a scalar; \<open>s\<close> is not empty.\<close>

definition decode_scalar :: "string \<Rightarrow> decode_error + json_token \<times> string" where
  "decode_scalar s =
    (let c = hd s in
     if c = CHR 0x22 then
       (case string_end (tl s) of
          Inl e \<Rightarrow> Inl e
        | Inr (body, rest) \<Rightarrow>
            (case unquote body of None \<Rightarrow> Inl DecodeSyntax | Some v \<Rightarrow> Inr (TString v, rest)))
     else if c = CHR ''t'' then literal_end ''true'' (TBool True) s
     else if c = CHR ''f'' then literal_end ''false'' (TBool False) s
     else if c = CHR ''n'' then literal_end ''null'' TNull s
     else if c = CHR ''-'' \<or> is_digit c then map_sum id (apfst TNumber) (number_end s)
     else Inl DecodeSyntax)"

text \<open>\<open>tokenValueEnd\<close> and \<open>tokenValueAllowed\<close>.\<close>

fun value_end :: "token_state \<Rightarrow> token_state" where
  "value_end TokenArrayStart = TokenArrayComma"
| "value_end TokenArrayValue = TokenArrayComma"
| "value_end TokenObjectValue = TokenObjectComma"
| "value_end s = s"

definition value_allowed :: "token_state \<Rightarrow> bool" where
  "value_allowed s \<longleftrightarrow> s = TokenTopValue \<or> s = TokenArrayStart \<or> s = TokenArrayValue \<or> s = TokenObjectValue"

definition close_delim :: "char \<Rightarrow> string \<Rightarrow> decoder \<Rightarrow> decode_error + json_token \<times> decoder" where
  "close_delim c rest d =
    Inr (TDelim c, \<lparr>dc_rest = rest, dc_state = value_end (hd (dc_stack d)), dc_stack = tl (dc_stack d)\<rparr>)"

lemma dropWhile_shorter: "dropWhile P s = c # r \<Longrightarrow> length r < length s"
  using length_dropWhile_le [of P s] by simp

function Token :: "decoder \<Rightarrow> decode_error + json_token \<times> decoder" where
  "Token d =
    (case dropWhile json_space (dc_rest d) of
       [] \<Rightarrow> Inl DecodeEOF
     | c # s \<Rightarrow>
         if c = CHR ''['' then
           (if \<not> value_allowed (dc_state d) then Inl DecodeSyntax
            else Inr (TDelim c, \<lparr>dc_rest = s, dc_state = TokenArrayStart, dc_stack = dc_state d # dc_stack d\<rparr>))
         else if c = CHR '']'' then
           (if dc_state d \<noteq> TokenArrayStart \<and> dc_state d \<noteq> TokenArrayComma then Inl DecodeSyntax
            else close_delim c s d)
         else if c = CHR ''{'' then
           (if \<not> value_allowed (dc_state d) then Inl DecodeSyntax
            else Inr (TDelim c, \<lparr>dc_rest = s, dc_state = TokenObjectStart, dc_stack = dc_state d # dc_stack d\<rparr>))
         else if c = CHR ''}'' then
           (if dc_state d \<noteq> TokenObjectStart \<and> dc_state d \<noteq> TokenObjectComma then Inl DecodeSyntax
            else close_delim c s d)
         else if c = CHR '':'' then
           (if dc_state d \<noteq> TokenObjectColon then Inl DecodeSyntax
            else Token (d\<lparr>dc_rest := s, dc_state := TokenObjectValue\<rparr>))
         else if c = CHR '','' then
           (if dc_state d = TokenArrayComma then Token (d\<lparr>dc_rest := s, dc_state := TokenArrayValue\<rparr>)
            else if dc_state d = TokenObjectComma then Token (d\<lparr>dc_rest := s, dc_state := TokenObjectKey\<rparr>)
            else Inl DecodeSyntax)
         else if c = CHR 0x22 \<and> (dc_state d = TokenObjectStart \<or> dc_state d = TokenObjectKey) then
           map_sum id (apsnd (\<lambda>rest. d\<lparr>dc_rest := rest, dc_state := TokenObjectColon\<rparr>)) (decode_scalar (c # s))
         else if \<not> value_allowed (dc_state d) then Inl DecodeSyntax
         else map_sum id (apsnd (\<lambda>rest. d\<lparr>dc_rest := rest, dc_state := value_end (dc_state d)\<rparr>))
                (decode_scalar (c # s)))"
  by pat_completeness auto

termination
  by (relation "measure (\<lambda>d. length (dc_rest d))") (auto dest: dropWhile_shorter)

declare Token.simps [simp del]

definition More :: "decoder \<Rightarrow> bool" where
  "More d = (case dropWhile json_space (dc_rest d) of
     [] \<Rightarrow> False | c # _ \<Rightarrow> c \<noteq> CHR '']'' \<and> c \<noteq> CHR ''}'')"

definition NewDecoder :: "string \<Rightarrow> decoder" where
  "NewDecoder body = \<lparr>dc_rest = body, dc_state = TokenTopValue, dc_stack = []\<rparr>"

section \<open>Nodes, paths and the parser\<close>

text \<open>
  A node's path is a reference into the arena of the tree (\<open>-1\<close> for the root). The arena is
  shared by all nodes and is an argument of what reads a path.
\<close>

record tree_string =
  ts_Value :: string
  ts_Span :: span
  ts_ordinal :: nat

datatype node = Node
  (n_kind: kind)
  (n_path: int)
  (n_token: "tree_string option")
  (n_boolean: bool)
  (n_object: "(string \<times> node) list")
  (n_array: "node list")

record tree_path_node =
  tp_parent :: int
  tp_segment :: path_segment
  tp_depth :: nat

text \<open>\<open>treePath.Clone\<close> fills a path of the stored depth from its end.\<close>

partial_function (option) tree_fill :: "tree_path_node list \<Rightarrow> int \<Rightarrow> int \<Rightarrow> path \<Rightarrow> path option" where
  "tree_fill nodes current index path =
    (if current < 0 then Some path
     else if nat current < length nodes
       then tree_fill nodes (tp_parent (nodes ! nat current)) (index - 1)
              (path[nat index := tp_segment (nodes ! nat current)])
     else None)"

declare tree_fill.simps [code]

definition tree_path :: "tree_path_node list \<Rightarrow> int \<Rightarrow> path option" where
  "tree_path nodes ref =
    (if ref < 0 then Some []
     else if nat ref < length nodes then
       (let depth = tp_depth (nodes ! nat ref) in
        tree_fill nodes ref (int depth - 1) (replicate depth SegInvalid))
     else None)"

record tree_parser =
  t_decoder :: decoder
  t_stringPos :: nat
  t_nodes :: "tree_path_node list"
  t_nodes_cap :: nat
  t_used :: int
  t_polls :: nat

record tree_env =
  te_ctx :: ctx
  te_document :: document
  te_limit :: int

type_synonym 'a parser = "(walk_error, tree_parser, 'a) M"

definition tree_poll :: "tree_env \<Rightarrow> unit parser" where
  "tree_poll env s =
    (case te_ctx env (t_polls s) of
       None \<Rightarrow> (Inr (), s\<lparr>t_polls := Suc (t_polls s)\<rparr>)
     | Some e \<Rightarrow> (Inl (Payload (CtxErr e)), s\<lparr>t_polls := Suc (t_polls s)\<rparr>))"

text \<open>\<open>treeStructuralBudget.retain\<close> on the bytes used and the limit.\<close>

definition budget_retain :: "int \<Rightarrow> int \<Rightarrow> int \<Rightarrow> walk_error + int" where
  "budget_retain limit used bytes =
    (if bytes < 0 \<or> limit - used < bytes then Inl (Payload StructuralLimit) else Inr (used + bytes))"

definition tree_retain :: "tree_env \<Rightarrow> int \<Rightarrow> unit parser" where
  "tree_retain env bytes =
     bind (gets t_used) (\<lambda>used.
     bind (lift_res (budget_retain (te_limit env) used bytes)) (\<lambda>used'.
     modify (\<lambda>s. s\<lparr>t_used := used'\<rparr>)))"

definition tree_token :: "json_token parser" where
  "tree_token s =
    (case Token (t_decoder s) of
       Inl e \<Rightarrow> (Inl (Decode e), s)
     | Inr (tok, d) \<Rightarrow> (Inr tok, s\<lparr>t_decoder := d\<rparr>))"

definition tree_node_bytes :: int where "tree_node_bytes = 128"
definition tree_path_bytes :: int where "tree_path_bytes = 64"
definition tree_member_bytes :: int where "tree_member_bytes = 64"
definition tree_array_bytes :: int where "tree_array_bytes = 16"
definition tree_string_bytes :: int where "tree_string_bytes = 64"

definition tree_depth :: "tree_path_node list \<Rightarrow> int \<Rightarrow> nat" where
  "tree_depth nodes ref = (if 0 \<le> ref then tp_depth (nodes ! nat ref) + 1 else 1)"

definition append_tree_path :: "tree_env \<Rightarrow> int \<Rightarrow> path_segment \<Rightarrow> nat \<Rightarrow> int parser" where
  "append_tree_path env parent segment string_bytes =
     bind get_state (\<lambda>s.
       let n = length (t_nodes s);
           new_cap = (if n = t_nodes_cap s then next_capacity (t_nodes_cap s) (n + 1) else t_nodes_cap s);
           charge = int string_bytes + int (new_cap - t_nodes_cap s) * tree_path_bytes in
       seq (tree_retain env charge)
       (seq (modify (\<lambda>s. s\<lparr>t_nodes_cap := new_cap,
          t_nodes := t_nodes s @ [\<lparr>tp_parent = parent, tp_segment = segment,
                                    tp_depth = tree_depth (t_nodes s) parent\<rparr>]\<rparr>))
       (ret (int32 n))))"

text \<open>\<open>appendMember\<close> and \<open>appendArray\<close> differ in the size of an element only.\<close>

definition append_item :: "tree_env \<Rightarrow> int \<Rightarrow> 'a list \<Rightarrow> nat \<Rightarrow> 'a \<Rightarrow> ('a list \<times> nat) parser" where
  "append_item env item_bytes items cap item =
    (if length items = cap then
       let new_cap = next_capacity cap (length items + 1) in
       seq (tree_retain env (int (new_cap - cap) * item_bytes)) (ret (items @ [item], new_cap))
     else ret (items @ [item], cap))"

definition leaf :: "kind \<Rightarrow> int \<Rightarrow> node" where
  "leaf k path = Node k path None False [] []"

text \<open>The branch of \<open>value\<close> for a string token.\<close>

definition tree_string_node :: "tree_env \<Rightarrow> int \<Rightarrow> kind \<Rightarrow> string \<Rightarrow> node parser" where
  "tree_string_node env path parent_kind v =
     bind get_state (\<lambda>s.
     case StringMetadataAt (Some (te_document env)) (int (t_stringPos s)) of
       None \<Rightarrow> fail (Internal ''decoded string missing from payload index'')
     | Some indexed \<Rightarrow>
         seq (modify (\<lambda>s. s\<lparr>t_stringPos := t_stringPos s + 1\<rparr>))
         (seq (fail_if (sm_value indexed \<noteq> v \<or> sm_depth indexed \<noteq> tree_depth (t_nodes s) path \<or>
                        sm_parent_kind indexed \<noteq> parent_kind)
                 (StringMismatch (tree_path (t_nodes s) path)))
         (seq (tree_retain env (tree_string_bytes + int (length v)))
         (ret (Node KindString path
            (Some \<lparr>ts_Value = v, ts_Span = sm_span indexed, ts_ordinal = t_stringPos s\<rparr>) False [] [])))))"

definition close_with :: "char \<Rightarrow> string \<Rightarrow> unit parser" where
  "close_with c reason =
     bind tree_token (\<lambda>t. fail_if (t \<noteq> TDelim c) (Internal reason))"

fun parse_value :: "tree_env \<Rightarrow> nat \<Rightarrow> int \<Rightarrow> kind \<Rightarrow> node parser"
and parse_members :: "tree_env \<Rightarrow> nat \<Rightarrow> int \<Rightarrow> (string \<times> node) list \<Rightarrow> nat \<Rightarrow> (string \<times> node) list parser"
and parse_elements :: "tree_env \<Rightarrow> nat \<Rightarrow> int \<Rightarrow> node list \<Rightarrow> nat \<Rightarrow> node list parser"
where
  "parse_value env 0 path parent_kind = fail TreeFuel"
| "parse_value env (Suc fuel) path parent_kind =
     seq (tree_poll env)
     (bind tree_token (\<lambda>token.
      seq (tree_retain env tree_node_bytes)
      (case token of
         TDelim c \<Rightarrow>
           if c = CHR ''{'' then
             bind (parse_members env fuel path [] 0) (\<lambda>members. ret (Node KindObject path None False members []))
           else if c = CHR ''['' then
             bind (parse_elements env fuel path [] 0) (\<lambda>items. ret (Node KindArray path None False [] items))
           else fail (Internal ''unexpected closing delimiter'')
       | TString v \<Rightarrow> tree_string_node env path parent_kind v
       | TNumber _ \<Rightarrow> ret (leaf KindNumber path)
       | TBool b \<Rightarrow> ret (Node KindBoolean path None b [] [])
       | TNull \<Rightarrow> ret (leaf KindNull path))))"
| "parse_members env 0 path items cap = fail TreeFuel"
| "parse_members env (Suc fuel) path items cap =
     bind (gets (More \<circ> t_decoder)) (\<lambda>more.
     if \<not> more then
       seq (close_with (CHR ''}'') ''object has wrong closing delimiter'') (ret items)
     else
       seq (tree_poll env)
       (bind tree_token (\<lambda>token.
        case token of
          TString key \<Rightarrow>
            bind (append_tree_path env path (Key key) (length key)) (\<lambda>child_path.
            bind (parse_value env fuel child_path KindObject) (\<lambda>child.
            bind (append_item env tree_member_bytes items cap (key, child)) (\<lambda>(items, cap).
            parse_members env fuel path items cap)))
        | _ \<Rightarrow> fail (Internal ''object key is not a string''))))"
| "parse_elements env 0 path items cap = fail TreeFuel"
| "parse_elements env (Suc fuel) path items cap =
     bind (gets (More \<circ> t_decoder)) (\<lambda>more.
     if \<not> more then
       seq (close_with (CHR '']'') ''array has wrong closing delimiter'') (ret items)
     else
       bind (append_tree_path env path (Index (int (length items))) 0) (\<lambda>child_path.
       bind (parse_value env fuel child_path KindArray) (\<lambda>child.
       bind (append_item env tree_array_bytes items cap child) (\<lambda>(items, cap).
       parse_elements env fuel path items cap))))"

text \<open>Every level of the descent reads a token, except that an array looks ahead once.\<close>

definition tree_fuel :: "string \<Rightarrow> nat" where
  "tree_fuel body = 2 * length body + 2"

definition parse_root :: "tree_env \<Rightarrow> string \<Rightarrow> node parser" where
  "parse_root env body =
     bind (parse_value env (tree_fuel body) (-1) KindInvalid) (\<lambda>root.
     bind get_state (\<lambda>s.
     seq (fail_if (t_stringPos s \<noteq> length (doc_strings (te_document env)))
            (IndexMismatch (t_stringPos s) (length (doc_strings (te_document env)))))
     (case Token (t_decoder s) of
        Inl DecodeEOF \<Rightarrow> ret root
      | Inl e \<Rightarrow> fail (Decode e)
      | Inr _ \<Rightarrow> fail (Internal ''decoder found a second root''))))"

definition init_tree :: "string \<Rightarrow> document \<Rightarrow> nat \<Rightarrow> tree_parser" where
  "init_tree body doc polls =
     \<lparr>t_decoder = NewDecoder body, t_stringPos = 0, t_nodes = [], t_nodes_cap = 0,
      t_used = doc_structural_bytes doc, t_polls = polls\<rparr>"

definition parseTree ::
  "ctx option \<Rightarrow> string \<Rightarrow> document \<Rightarrow> nat \<Rightarrow> (walk_error + node) \<times> tree_parser" where
  "parseTree c body doc polls =
     parse_root \<lparr>te_ctx = or_background c, te_document = doc,
                 te_limit = MaxStructuralBytes (doc_limits doc)\<rparr> body (init_tree body doc polls)"

section \<open>Every descent ends\<close>

lemma string_end_rest: "string_end s = Inr (b, r) \<Longrightarrow> length r < length s"
  by (induction s arbitrary: b r rule: string_end.induct)
    (fastforce split: if_splits sum.splits prod.splits list.splits)+

lemma digits_rest: "digits s = Inr (d, r) \<Longrightarrow> length r < length s"
proof -
  assume "digits s = Inr (d, r)"
  then have "takeWhile is_digit s \<noteq> []" "r = dropWhile is_digit s"
    by (auto simp: digits_def split: list.splits)
  then show ?thesis
    by (metis append_eq_conv_conj drop_eq_Nil length_append length_greater_0_conv less_add_same_cancel2
        takeWhile_dropWhile_id)
qed

lemma map_sum_id_Inr: "map_sum id f m = Inr y \<longleftrightarrow> (\<exists>x. m = Inr x \<and> y = f x)"
  by (cases m) auto

lemma integer_part_rest: "integer_part s = Inr (d, r) \<Longrightarrow> length r < length s"
  by (auto simp: integer_part_def split: list.splits if_splits dest: digits_rest)

lemma frac_part_rest: "frac_part s = Inr (d, r) \<Longrightarrow> length r \<le> length s"
  by (auto simp: frac_part_def map_sum_id_Inr split: list.splits if_splits dest!: digits_rest)

lemma exp_part_rest: "exp_part s = Inr (d, r) \<Longrightarrow> length r \<le> length s"
  by (auto simp: exp_part_def map_sum_id_Inr split: list.splits if_splits dest!: digits_rest)

lemma number_end_rest: "number_end s = Inr (d, r) \<Longrightarrow> length r < length s"
proof -
  assume a: "number_end s = Inr (d, r)"
  define s1 where "s1 = (if hd s = CHR ''-'' then tl s else s)"
  have "length s1 \<le> length s" by (simp add: s1_def)
  moreover obtain i s2 f s3 x where "integer_part s1 = Inr (i, s2)" "frac_part s2 = Inr (f, s3)"
    "exp_part s3 = Inr (x, r)"
    using a by (auto simp: number_end_def s1_def Let_def split: sum.splits prod.splits if_splits)
  ultimately show ?thesis
    using integer_part_rest [of s1 i s2] frac_part_rest [of s2 f s3] exp_part_rest [of s3 x r] by linarith
qed

lemma literal_end_rest: "literal_end name tok s = Inr (t, r) \<Longrightarrow> name \<noteq> [] \<Longrightarrow> length r < length s"
  by (cases s) (auto simp: literal_end_def split: if_splits)

lemma decode_scalar_rest: "s \<noteq> [] \<Longrightarrow> decode_scalar s = Inr (t, r) \<Longrightarrow> length r < length s"
  by (cases s)
    (auto simp: decode_scalar_def Let_def map_sum_id_Inr split: if_splits sum.splits prod.splits option.splits
      dest!: string_end_rest number_end_rest literal_end_rest)

lemma Token_rest: "Token d = Inr (t, d') \<Longrightarrow> length (dc_rest d') < length (dc_rest d)"
proof (induction "length (dc_rest d)" arbitrary: d rule: less_induct)
  case less
  show ?case
  proof (cases "dropWhile json_space (dc_rest d)")
    case Nil
    with less.prems show ?thesis by (subst (asm) Token.simps) simp
  next
    case (Cons c s)
    note short = dropWhile_shorter [OF Cons]
    consider q where "Token (d\<lparr>dc_rest := s, dc_state := q\<rparr>) = Inr (t, d')"
      | r where "decode_scalar (c # s) = Inr (t, r)" "dc_rest d' = r"
      | "dc_rest d' = s"
      using less.prems Cons
      by (subst (asm) Token.simps) (auto simp: close_delim_def map_sum_id_Inr split: if_splits)
    then show ?thesis
    proof cases
      case 1
      with less.hyps [OF _ 1] short show ?thesis by simp
    next
      case 2
      have "length (c # s) \<le> length (dc_rest d)" using length_dropWhile_le [of json_space "dc_rest d"] Cons by simp
      with 2 decode_scalar_rest [of "c # s"] show ?thesis by fastforce
    next
      case 3
      with short show ?thesis by simp
    qed
  qed
qed

end
