(* ===== verification/Tree_Sound.thy ===== *)
theory Tree_Sound
  imports Tree
begin

text \<open>
  What a parsed tree satisfies. \<open>run_ok\<close> relates the parser before and after a successful call:
  some input is consumed, the arena only grows and stays well formed, the budget is kept, and the
  strings of the result are the strings of the document the call stepped over.
\<close>

section \<open>Trees and arenas\<close>

text \<open>The strings of a node, in document order.\<close>

fun node_strings :: "node \<Rightarrow> tree_string list" where
  "node_strings (Node k p tok b obj arr) =
     (case tok of Some t \<Rightarrow> [t] | None \<Rightarrow> []) @ concat (map (node_strings \<circ> snd) obj) @
     concat (map node_strings arr)"

text \<open>A node carries a token, members or elements exactly as its kind says; \<open>m\<close> bounds its path.\<close>

fun node_ok :: "nat \<Rightarrow> node \<Rightarrow> bool" where
  "node_ok m (Node k p tok b obj arr) \<longleftrightarrow>
     -1 \<le> p \<and> p < int m \<and> k \<noteq> KindInvalid \<and> (tok \<noteq> None \<longleftrightarrow> k = KindString) \<and>
     (k \<noteq> KindObject \<longrightarrow> obj = []) \<and> (k \<noteq> KindArray \<longrightarrow> arr = []) \<and>
     list_all (node_ok m \<circ> snd) obj \<and> list_all (node_ok m) arr"

definition doc_string :: "document \<Rightarrow> nat \<Rightarrow> tree_string" where
  "doc_string doc i = \<lparr>ts_Value = tok_value (doc_strings doc ! i), ts_Span = tok_span (doc_strings doc ! i),
     ts_ordinal = i\<rparr>"

definition doc_range :: "document \<Rightarrow> nat \<Rightarrow> nat \<Rightarrow> tree_string list" where
  "doc_range doc i j = map (doc_string doc) [i..<j]"

lemma doc_range_append: "i \<le> j \<Longrightarrow> j \<le> k \<Longrightarrow> doc_range doc i j @ doc_range doc j k = doc_range doc i k"
  using upt_add_eq_append [of i j "k - j"] by (simp add: doc_range_def)

lemma doc_range_self [simp]: "doc_range doc i i = []"
  by (simp add: doc_range_def)

lemma doc_range_Suc: "doc_range doc i (Suc i) = [doc_string doc i]"
  by (simp add: doc_range_def)

lemma node_ok_mono: "node_ok m n \<Longrightarrow> m \<le> m' \<Longrightarrow> node_ok m' n"
  by (induction m n rule: node_ok.induct) (auto simp: list_all_iff)

text \<open>Every reference of the arena has a chain of as many nodes as the depth it stores.\<close>

definition tree_arena_ok :: "tree_path_node list \<Rightarrow> bool" where
  "tree_arena_ok nodes \<longleftrightarrow> arena_ok tp_parent nodes \<and>
     (\<forall>i < length nodes. tp_depth (nodes ! i) = tree_depth nodes (tp_parent (nodes ! i)))"

lemma tree_arena_Nil [simp]: "tree_arena_ok []"
  by (simp add: tree_arena_ok_def)

lemma tree_depth_append:
  "ref < int (length nodes) \<Longrightarrow> tree_depth (nodes @ xs) ref = tree_depth nodes ref"
  by (auto simp: tree_depth_def nth_append)

lemma tree_arena_snoc:
  assumes "tree_arena_ok nodes" "-1 \<le> p" "p < int (length nodes)"
  shows "tree_arena_ok (nodes @ [\<lparr>tp_parent = p, tp_segment = g, tp_depth = tree_depth nodes p\<rparr>])"
proof -
  have "tp_parent (nodes ! i) < int (length nodes)" if "i < length nodes" for i
    using assms(1) that by (fastforce simp: tree_arena_ok_def arena_ok_def)
  then show ?thesis
    using assms arena_ok_snoc [of tp_parent nodes "\<lparr>tp_parent = p, tp_segment = g, tp_depth = tree_depth nodes p\<rparr>"]
    by (auto simp: tree_arena_ok_def nth_append tree_depth_append less_Suc_eq)
qed

lemma tree_chain:
  assumes "tree_arena_ok nodes" "ref < int (length nodes)"
  shows "\<exists>ns. chain tp_parent nodes ref = Some ns \<and> length ns + 1 = tree_depth nodes ref"
  using assms(2)
proof (induction "nat (ref + 1)" arbitrary: ref rule: less_induct)
  case less
  show ?case
  proof (cases "ref < 0")
    case True
    then show ?thesis by (simp add: tree_depth_def)
  next
    case False
    then have i: "nat ref < length nodes" using less.prems by simp
    let ?p = "tp_parent (nodes ! nat ref)"
    have p: "-1 \<le> ?p" "?p < ref" "tp_depth (nodes ! nat ref) = tree_depth nodes ?p"
      using assms(1) i False by (fastforce simp: tree_arena_ok_def arena_ok_def)+
    obtain ns where "chain tp_parent nodes ?p = Some ns" "length ns + 1 = tree_depth nodes ?p"
      using less.hyps [of ?p] p less.prems False by auto
    then show ?thesis
      using chain_step [of ref nodes tp_parent ns] i False p(3) by (simp add: tree_depth_def)
  qed
qed

lemma tree_fill_chain:
  "chain tp_parent nodes ref = Some ns \<Longrightarrow> length ns \<le> length p \<Longrightarrow>
   tree_fill nodes ref (int (length ns) - 1) p = Some (rev (map tp_segment ns) @ drop (length ns) p)"
proof (induction ns arbitrary: ref p)
  case Nil
  then show ?case by (cases rule: chain_Some_cases) (auto simp: tree_fill.simps)
next
  case (Cons n ns)
  have d: "drop (length ns) (p[length ns := x]) = x # drop (Suc (length ns)) p" for x
    using Cons.prems(2) by (simp add: drop_update_swap Cons_nth_drop_Suc [symmetric])
  from Cons.prems(1) show ?case
  proof (cases rule: chain_Some_cases)
    case (2 ys)
    then have "tree_fill nodes ref (int (length (n # ns)) - 1) p =
        tree_fill nodes (tp_parent n) (int (length ns) - 1) (p[length ns := tp_segment n])"
      by (subst tree_fill.simps) auto
    also have "\<dots> = Some (rev (map tp_segment ns) @ drop (length ns) (p[length ns := tp_segment n]))"
      using 2 Cons.prems(2) by (intro Cons.IH) auto
    finally show ?thesis by (simp add: d)
  qed simp
qed

text \<open>So every path a parsed tree refers to can be materialised.\<close>

lemma tree_path_total:
  assumes "tree_arena_ok nodes" "ref < int (length nodes)"
  shows "\<exists>p. tree_path nodes ref = Some p \<and> length p + 1 = tree_depth nodes ref"
proof (cases "ref < 0")
  case True
  then show ?thesis by (simp add: tree_path_def tree_depth_def)
next
  case False
  obtain ns where ns: "chain tp_parent nodes ref = Some ns" "length ns + 1 = tree_depth nodes ref"
    using tree_chain [OF assms] by blast
  then have "tp_depth (nodes ! nat ref) = length ns" using False by (simp add: tree_depth_def)
  then show ?thesis
    using tree_fill_chain [OF ns(1), of "replicate (length ns) SegInvalid"] ns(2) False assms(2)
    by (simp add: tree_path_def)
qed

section \<open>Successful steps\<close>

definition tree_ok :: "tree_env \<Rightarrow> tree_parser \<Rightarrow> bool" where
  "tree_ok env s \<longleftrightarrow> tree_arena_ok (t_nodes s) \<and> length (t_nodes s) \<le> t_nodes_cap s \<and>
     int (t_nodes_cap s) * tree_path_bytes \<le> t_used s \<and> t_used s \<le> te_limit env \<and>
     t_stringPos s \<le> length (doc_strings (te_document env))"

definition run_ok :: "tree_env \<Rightarrow> tree_parser \<Rightarrow> tree_parser \<Rightarrow> tree_string list \<Rightarrow> bool" where
  "run_ok env s t strings \<longleftrightarrow>
     tree_ok env t \<and> length (dc_rest (t_decoder t)) \<le> length (dc_rest (t_decoder s)) \<and>
     (\<exists>xs. t_nodes t = t_nodes s @ xs) \<and> t_stringPos s \<le> t_stringPos t \<and> t_used s \<le> t_used t \<and>
     strings = doc_range (te_document env) (t_stringPos s) (t_stringPos t)"

lemma run_ok_trans:
  "run_ok env s t xs \<Longrightarrow> run_ok env t u ys \<Longrightarrow> run_ok env s u (xs @ ys)"
  by (auto simp: run_ok_def doc_range_append)

lemma run_ok_arena: "run_ok env s t xs \<Longrightarrow> length (t_nodes s) \<le> length (t_nodes t)"
  by (auto simp: run_ok_def)

lemma run_ok_rest: "run_ok env s t xs \<Longrightarrow> length (dc_rest (t_decoder t)) \<le> length (dc_rest (t_decoder s))"
  by (simp add: run_ok_def)

lemma run_ok_ok: "run_ok env s t xs \<Longrightarrow> tree_ok env t"
  by (simp add: run_ok_def)

lemma run_ok_refl: "tree_ok env s \<Longrightarrow> run_ok env s s []"
  by (auto simp: run_ok_def)

lemma tree_poll_run:
  assumes "tree_poll env s = (Inr u, t)" "tree_ok env s"
  shows "run_ok env s t []"
  using assms by (auto simp: tree_poll_def run_ok_def tree_ok_def split: option.splits)

lemma tree_token_run:
  assumes "tree_token s = (Inr tok, t)" "tree_ok env s"
  shows "run_ok env s t []" "length (dc_rest (t_decoder t)) < length (dc_rest (t_decoder s))"
  using assms Token_rest [of "t_decoder s" tok "t_decoder t"]
  by (auto simp: tree_token_def run_ok_def tree_ok_def split: sum.splits)

lemma budget_retain_Inr:
  "budget_retain limit used b = Inr used' \<longleftrightarrow> 0 \<le> b \<and> used + b \<le> limit \<and> used' = used + b"
  by (auto simp: budget_retain_def)

lemma tree_retain_Inr:
  "tree_retain env b s = (Inr u, t) \<longleftrightarrow>
     0 \<le> b \<and> t_used s + b \<le> te_limit env \<and> t = s\<lparr>t_used := t_used s + b\<rparr>"
  by (auto simp: tree_retain_def bind_Inr_iff budget_retain_Inr)

lemma tree_retain_run:
  assumes "tree_retain env b s = (Inr u, t)" "tree_ok env s"
  shows "run_ok env s t []"
  using assms by (auto simp: tree_retain_Inr run_ok_def tree_ok_def)

lemma append_item_run:
  assumes "append_item env b items cap x s = (Inr (items', cap'), t)" "tree_ok env s"
  shows "run_ok env s t []" "items' = items @ [x]"
  using assms by (auto simp: append_item_def Let_def bind_Inr_iff run_ok_refl split: if_splits intro: tree_retain_run)

lemma append_tree_path_run:
  assumes a: "append_tree_path env p g b s = (Inr ref, t)" and ok: "tree_ok env s"
    and p: "-1 \<le> p" "p < int (length (t_nodes s))" and small: "te_limit env < 137438953472"
  shows "run_ok env s t []" "-1 \<le> ref" "ref < int (length (t_nodes t))"
proof -
  let ?n = "length (t_nodes s)"
  let ?cap = "if ?n = t_nodes_cap s then next_capacity (t_nodes_cap s) (?n + 1) else t_nodes_cap s"
  have cap: "t_nodes_cap s \<le> ?cap" "?n + 1 \<le> ?cap"
    using ok by (auto simp: tree_ok_def)
  have r: "int b + int (?cap - t_nodes_cap s) * tree_path_bytes + t_used s \<le> te_limit env"
    and t: "t = s\<lparr>t_used := t_used s + (int b + int (?cap - t_nodes_cap s) * tree_path_bytes), t_nodes_cap := ?cap,
       t_nodes := t_nodes s @ [\<lparr>tp_parent = p, tp_segment = g, tp_depth = tree_depth (t_nodes s) p\<rparr>]\<rparr>"
    and ref: "ref = int32 ?n"
    using a by (auto simp: append_tree_path_def Let_def bind_Inr_iff tree_retain_Inr)
  have u: "int ?cap * tree_path_bytes \<le> t_used t"
    using ok cap(1) t by (simp add: tree_ok_def of_nat_diff algebra_simps)
  then show "run_ok env s t []"
    using ok r cap tree_arena_snoc [of "t_nodes s" p g] p t
    by (auto simp: run_ok_def tree_ok_def tree_path_bytes_def)
  have "int ?n * tree_path_bytes \<le> te_limit env"
    using ok by (simp add: tree_ok_def tree_path_bytes_def)
  then have "?n < 2147483648" using small by (simp add: tree_path_bytes_def)
  then show "-1 \<le> ref" "ref < int (length (t_nodes t))"
    using int32_id [of ?n] ref t by auto
qed

lemma tree_string_node_run:
  assumes a: "tree_string_node env p k v s = (Inr n, t)" and ok: "tree_ok env s"
  shows "run_ok env s t (node_strings n) \<and> (-1 \<le> p \<longrightarrow> p < int (length (t_nodes s)) \<longrightarrow> node_ok (length (t_nodes t)) n)"
proof -
  let ?d = "te_document env" and ?i = "t_stringPos s"
  obtain m where m: "StringMetadataAt (Some ?d) (int ?i) = Some m"
    using a by (auto simp: tree_string_node_def bind_Inr_iff split: option.splits)
  then have i: "?i < length (doc_strings ?d)"
    by (auto simp: StringMetadataAt_def in_strings_def split: if_splits)
  have mm: "sm_value m = tok_value (doc_strings ?d ! ?i)" "sm_span m = tok_span (doc_strings ?d ! ?i)"
    using m i by (auto simp: StringMetadataAt_def in_strings_def Let_def split: if_splits)
  have v: "sm_value m = v" and n: "n = Node KindString p (Some \<lparr>ts_Value = v, ts_Span = sm_span m, ts_ordinal = ?i\<rparr>) False [] []"
    and t: "\<exists>b \<ge> 0. t_used s + b \<le> te_limit env \<and> t = s\<lparr>t_stringPos := ?i + 1, t_used := t_used s + b\<rparr>"
    using a m by (auto simp: tree_string_node_def bind_Inr_iff tree_retain_Inr)
  then show ?thesis using ok i mm by (auto simp: run_ok_def tree_ok_def doc_range_Suc doc_string_def)
qed

section \<open>The descent\<close>

definition value_spec :: "tree_env \<Rightarrow> nat \<Rightarrow> bool" where
  "value_spec env f \<longleftrightarrow> (\<forall>p k s n t. parse_value env f p k s = (Inr n, t) \<longrightarrow> tree_ok env s \<longrightarrow>
     -1 \<le> p \<longrightarrow> p < int (length (t_nodes s)) \<or> p = -1 \<longrightarrow>
     run_ok env s t (node_strings n) \<and> node_ok (length (t_nodes t)) n \<and>
     length (dc_rest (t_decoder t)) < length (dc_rest (t_decoder s)))"

definition members_spec :: "tree_env \<Rightarrow> nat \<Rightarrow> bool" where
  "members_spec env f \<longleftrightarrow> (\<forall>p items cap s ms t. parse_members env f p items cap s = (Inr ms, t) \<longrightarrow>
     tree_ok env s \<longrightarrow> -1 \<le> p \<longrightarrow> p < int (length (t_nodes s)) \<or> p = -1 \<longrightarrow>
     (\<exists>new. ms = items @ new \<and> run_ok env s t (concat (map (node_strings \<circ> snd) new)) \<and>
        list_all (node_ok (length (t_nodes t)) \<circ> snd) new) \<and>
     length (dc_rest (t_decoder t)) < length (dc_rest (t_decoder s)))"

definition elements_spec :: "tree_env \<Rightarrow> nat \<Rightarrow> bool" where
  "elements_spec env f \<longleftrightarrow> (\<forall>p items cap s ms t. parse_elements env f p items cap s = (Inr ms, t) \<longrightarrow>
     tree_ok env s \<longrightarrow> -1 \<le> p \<longrightarrow> p < int (length (t_nodes s)) \<or> p = -1 \<longrightarrow>
     (\<exists>new. ms = items @ new \<and> run_ok env s t (concat (map node_strings new)) \<and>
        list_all (node_ok (length (t_nodes t))) new) \<and>
     length (dc_rest (t_decoder t)) < length (dc_rest (t_decoder s)))"

lemma range_cases: "-1 \<le> p \<Longrightarrow> p < int m \<or> p = -1 \<Longrightarrow> p < int m"
  by linarith

lemma close_with_run:
  assumes "close_with c r s = (Inr u, t)" "tree_ok env s"
  shows "run_ok env s t []" "length (dc_rest (t_decoder t)) < length (dc_rest (t_decoder s))"
  using assms by (auto simp: close_with_def bind_Inr_iff dest: tree_token_run)

lemma value_step:
  assumes m: "members_spec env f" and e: "elements_spec env f"
  shows "value_spec env (Suc f)"
  unfolding value_spec_def
proof (intro allI impI)
  fix p k s n t
  assume a: "parse_value env (Suc f) p k s = (Inr n, t)" and ok: "tree_ok env s"
    and p: "-1 \<le> p" "p < int (length (t_nodes s)) \<or> p = -1"
  obtain s1 tok s2 s3 where 1: "tree_poll env s = (Inr (), s1)" and 2: "tree_token s1 = (Inr tok, s2)"
    and 3: "tree_retain env tree_node_bytes s2 = (Inr (), s3)"
    and body: "(case tok of
         TDelim c \<Rightarrow>
           if c = CHR ''{'' then
             bind (parse_members env f p [] 0) (\<lambda>members. ret (Node KindObject p None False members []))
           else if c = CHR ''['' then
             bind (parse_elements env f p [] 0) (\<lambda>items. ret (Node KindArray p None False [] items))
           else fail (Internal ''unexpected closing delimiter'')
       | TString v \<Rightarrow> tree_string_node env p k v
       | TNumber _ \<Rightarrow> ret (leaf KindNumber p)
       | TBool b \<Rightarrow> ret (Node KindBoolean p None b [] [])
       | TNull \<Rightarrow> ret (leaf KindNull p)) s3 = (Inr n, t)"
    using a by (auto simp: bind_Inr_iff)
  note r1 = tree_poll_run [OF 1 ok]
  note r2 = tree_token_run [OF 2 run_ok_ok [OF r1]]
  note r3 = tree_retain_run [OF 3 run_ok_ok [OF r2(1)]]
  have r: "run_ok env s s3 []" using run_ok_trans [OF run_ok_trans [OF r1 r2(1)] r3] by simp
  have ok3: "tree_ok env s3" by (rule run_ok_ok [OF r])
  have short: "length (dc_rest (t_decoder s3)) < length (dc_rest (t_decoder s))"
    using run_ok_rest [OF r1] r2(2) run_ok_rest [OF r3] by simp
  have p3: "p < int (length (t_nodes s3)) \<or> p = -1" using p(2) run_ok_arena [OF r] by auto
  have fin: "run_ok env s t xs" "length (dc_rest (t_decoder t)) < length (dc_rest (t_decoder s))"
    if "run_ok env s3 t xs" for xs
    using run_ok_trans [OF r that] run_ok_rest [OF that] short by simp_all
  have pt: "p < int (length (t_nodes t))" if "run_ok env s3 t xs" for xs
    using p p3 run_ok_arena [OF that] by auto
  show "run_ok env s t (node_strings n) \<and> node_ok (length (t_nodes t)) n \<and>
     length (dc_rest (t_decoder t)) < length (dc_rest (t_decoder s))"
  proof (cases tok)
    case (TDelim c)
    consider (obj) ms where "parse_members env f p [] 0 s3 = (Inr ms, t)" "n = Node KindObject p None False ms []"
      | (arr) xs where "parse_elements env f p [] 0 s3 = (Inr xs, t)" "n = Node KindArray p None False [] xs"
      using body TDelim by (auto simp: bind_Inr_iff split: if_splits)
    then show ?thesis
    proof cases
      case obj
      then have "run_ok env s3 t (node_strings n)" "list_all (node_ok (length (t_nodes t)) \<circ> snd) ms"
        using m [unfolded members_spec_def, rule_format, OF obj(1) ok3 p(1) p3] by auto
      then show ?thesis using fin pt obj(2) p(1) by auto
    next
      case arr
      then have "run_ok env s3 t (node_strings n)" "list_all (node_ok (length (t_nodes t))) xs"
        using e [unfolded elements_spec_def, rule_format, OF arr(1) ok3 p(1) p3] by auto
      then show ?thesis using fin pt arr(2) p(1) by auto
    qed
  next
    case (TString v)
    have q: "run_ok env s3 t (node_strings n)" using tree_string_node_run [of env p k v s3 n t] body TString ok3 by simp
    have "node_ok (length (t_nodes t)) n"
      using tree_string_node_run [of env p k v s3 n t] body TString ok3 p p3 by fastforce
    then show ?thesis using fin [OF q] by simp
  qed (use body r short range_cases [OF p(1) p3] p(1) in \<open>auto simp: leaf_def\<close>)
qed

lemma members_step:
  assumes v: "value_spec env f" and m: "members_spec env f" and small: "te_limit env < 137438953472"
  shows "members_spec env (Suc f)"
  unfolding members_spec_def
proof (intro allI impI)
  fix p items cap s ms t
  assume a: "parse_members env (Suc f) p items cap s = (Inr ms, t)" and ok: "tree_ok env s"
    and p: "-1 \<le> p" "p < int (length (t_nodes s)) \<or> p = -1"
  show "(\<exists>new. ms = items @ new \<and> run_ok env s t (concat (map (node_strings \<circ> snd) new)) \<and>
        list_all (node_ok (length (t_nodes t)) \<circ> snd) new) \<and>
     length (dc_rest (t_decoder t)) < length (dc_rest (t_decoder s))"
  proof (cases "More (t_decoder s)")
    case False
    then have "close_with (CHR ''}'') ''object has wrong closing delimiter'' s = (Inr (), t)" "ms = items"
      using a by (auto simp: bind_Inr_iff)
    then show ?thesis using close_with_run [OF _ ok] by auto
  next
    case True
    obtain s1 tok s2 where 1: "tree_poll env s = (Inr (), s1)" and 2: "tree_token s1 = (Inr tok, s2)"
        and body: "(case tok of
          TString key \<Rightarrow>
            bind (append_tree_path env p (Key key) (length key)) (\<lambda>child_path.
            bind (parse_value env f child_path KindObject) (\<lambda>child.
            bind (append_item env tree_member_bytes items cap (key, child)) (\<lambda>(items, cap).
            parse_members env f p items cap)))
        | _ \<Rightarrow> fail (Internal ''object key is not a string'')) s2 = (Inr ms, t)"
      using a True by (auto simp: bind_Inr_iff)
    obtain key ref s3 child s4 items' cap' s5
      where 3: "append_tree_path env p (Key key) (length key) s2 = (Inr ref, s3)"
        and 4: "parse_value env f ref KindObject s3 = (Inr child, s4)"
        and 5: "append_item env tree_member_bytes items cap (key, child) s4 = (Inr (items', cap'), s5)"
        and 6: "parse_members env f p items' cap' s5 = (Inr ms, t)"
      using body by (cases tok) (auto simp: bind_Inr_iff)
    note r1 = tree_poll_run [OF 1 ok]
    note r2 = tree_token_run [OF 2 run_ok_ok [OF r1]]
    have p2: "p < int (length (t_nodes s2))" using p run_ok_arena [OF r1] run_ok_arena [OF r2(1)] by auto
    note r3 = append_tree_path_run [OF 3 run_ok_ok [OF r2(1)] p(1) p2 small]
    have r4: "run_ok env s3 s4 (node_strings child)" "node_ok (length (t_nodes s4)) child"
      using v [unfolded value_spec_def, rule_format, OF 4 run_ok_ok [OF r3(1)] r3(2)] r3(3) by auto
    note r5 = append_item_run [OF 5 run_ok_ok [OF r4(1)]]
    have p5: "p < int (length (t_nodes s5))"
      using p2 run_ok_arena [OF r3(1)] run_ok_arena [OF r4(1)] run_ok_arena [OF r5(1)] by auto
    obtain new where new: "ms = items' @ new" "run_ok env s5 t (concat (map (node_strings \<circ> snd) new))"
        "list_all (node_ok (length (t_nodes t)) \<circ> snd) new"
      using m [unfolded members_spec_def, rule_format, OF 6 run_ok_ok [OF r5(1)] p(1)] p5 by blast
    have "run_ok env s t (node_strings child @ concat (map (node_strings \<circ> snd) new))"
      using run_ok_trans [OF r1 run_ok_trans [OF r2(1) run_ok_trans [OF r3(1)
            run_ok_trans [OF r4(1) run_ok_trans [OF r5(1) new(2)]]]]] by simp
    moreover have "node_ok (length (t_nodes t)) child"
      by (rule node_ok_mono [OF r4(2)]) (use run_ok_arena [OF r5(1)] run_ok_arena [OF new(2)] in simp)
    moreover have "length (dc_rest (t_decoder t)) < length (dc_rest (t_decoder s))"
      using run_ok_rest [OF r1] r2(2) run_ok_rest [OF r3(1)] run_ok_rest [OF r4(1)] run_ok_rest [OF r5(1)]
        run_ok_rest [OF new(2)] by linarith
    ultimately show ?thesis
      using new r5(2) by (intro conjI exI [of _ "(key, child) # new"]) auto
  qed
qed

lemma elements_step:
  assumes v: "value_spec env f" and e: "elements_spec env f" and small: "te_limit env < 137438953472"
  shows "elements_spec env (Suc f)"
  unfolding elements_spec_def
proof (intro allI impI)
  fix p items cap s ms t
  assume a: "parse_elements env (Suc f) p items cap s = (Inr ms, t)" and ok: "tree_ok env s"
    and p: "-1 \<le> p" "p < int (length (t_nodes s)) \<or> p = -1"
  show "(\<exists>new. ms = items @ new \<and> run_ok env s t (concat (map node_strings new)) \<and>
        list_all (node_ok (length (t_nodes t))) new) \<and>
     length (dc_rest (t_decoder t)) < length (dc_rest (t_decoder s))"
  proof (cases "More (t_decoder s)")
    case False
    then have "close_with (CHR '']'') ''array has wrong closing delimiter'' s = (Inr (), t)" "ms = items"
      using a by (auto simp: bind_Inr_iff)
    then show ?thesis using close_with_run [OF _ ok] by auto
  next
    case True
    obtain ref s3 child s4 items' cap' s5
      where 3: "append_tree_path env p (Index (int (length items))) 0 s = (Inr ref, s3)"
        and 4: "parse_value env f ref KindArray s3 = (Inr child, s4)"
        and 5: "append_item env tree_array_bytes items cap child s4 = (Inr (items', cap'), s5)"
        and 6: "parse_elements env f p items' cap' s5 = (Inr ms, t)"
      using a True by (auto simp: bind_Inr_iff)
    note r3 = append_tree_path_run [OF 3 ok p(1) range_cases [OF p] small]
    have r4: "run_ok env s3 s4 (node_strings child)" "node_ok (length (t_nodes s4)) child"
        "length (dc_rest (t_decoder s4)) < length (dc_rest (t_decoder s3))"
      using v [unfolded value_spec_def, rule_format, OF 4 run_ok_ok [OF r3(1)] r3(2)] r3(3) by auto
    note r5 = append_item_run [OF 5 run_ok_ok [OF r4(1)]]
    have p5: "p < int (length (t_nodes s5))"
      using range_cases [OF p] run_ok_arena [OF r3(1)] run_ok_arena [OF r4(1)] run_ok_arena [OF r5(1)] by auto
    obtain new where new: "ms = items' @ new" "run_ok env s5 t (concat (map node_strings new))"
        "list_all (node_ok (length (t_nodes t))) new"
      using e [unfolded elements_spec_def, rule_format, OF 6 run_ok_ok [OF r5(1)] p(1)] p5 by blast
    have "run_ok env s t (node_strings child @ concat (map node_strings new))"
      using run_ok_trans [OF r3(1) run_ok_trans [OF r4(1) run_ok_trans [OF r5(1) new(2)]]] by simp
    moreover have "node_ok (length (t_nodes t)) child"
      by (rule node_ok_mono [OF r4(2)]) (use run_ok_arena [OF r5(1)] run_ok_arena [OF new(2)] in simp)
    moreover have "length (dc_rest (t_decoder t)) < length (dc_rest (t_decoder s))"
      using run_ok_rest [OF r3(1)] r4(3) run_ok_rest [OF r5(1)] run_ok_rest [OF new(2)] by linarith
    ultimately show ?thesis
      using new r5(2) by (intro conjI exI [of _ "child # new"]) auto
  qed
qed

lemma parse_specs:
  assumes "te_limit env < 137438953472"
  shows "value_spec env f \<and> members_spec env f \<and> elements_spec env f"
proof (induction f)
  case 0
  show ?case by (simp add: value_spec_def members_spec_def elements_spec_def)
next
  case (Suc f)
  then show ?case using value_step members_step [OF _ _ assms] elements_step [OF _ _ assms] by blast
qed

section \<open>The fuel suffices\<close>

abbreviation not_fuel :: "walk_error set" where
  "not_fuel \<equiv> - {TreeFuel}"

lemma steps_not_fuel [fails_rules]:
  "fails_only not_fuel (tree_poll env)" "fails_only not_fuel tree_token"
  "fails_only not_fuel (tree_retain env b)" "fails_only not_fuel (close_with c r)"
  "fails_only not_fuel (append_tree_path env p g n)"
  "fails_only not_fuel (append_item env b items cap x)"
  "fails_only not_fuel (tree_string_node env p k v)"
  by (auto simp: fails_only_def tree_poll_def tree_token_def tree_retain_def budget_retain_def close_with_def
      append_tree_path_def append_item_def tree_string_node_def bind_Inl_iff Let_def
      split: option.splits sum.splits if_splits)

lemma run_not_fuel: "fails_only not_fuel m \<Longrightarrow> m s = (Inl TreeFuel, t) \<Longrightarrow> False"
  by (auto simp: fails_only_def)

definition fuel_spec :: "tree_env \<Rightarrow> nat \<Rightarrow> bool" where
  "fuel_spec env f \<longleftrightarrow> (\<forall>p s. tree_ok env s \<longrightarrow> -1 \<le> p \<longrightarrow> p < int (length (t_nodes s)) \<or> p = -1 \<longrightarrow>
     (\<forall>k t. 2 * length (dc_rest (t_decoder s)) + 1 \<le> f \<longrightarrow> parse_value env f p k s \<noteq> (Inl TreeFuel, t)) \<and>
     (\<forall>items cap t. 2 * length (dc_rest (t_decoder s)) + 1 \<le> f \<longrightarrow>
        parse_members env f p items cap s \<noteq> (Inl TreeFuel, t)) \<and>
     (\<forall>items cap t. 2 * length (dc_rest (t_decoder s)) + 2 \<le> f \<longrightarrow>
        parse_elements env f p items cap s \<noteq> (Inl TreeFuel, t)))"

lemma value_fuel:
  assumes f: "fuel_spec env f" and ok: "tree_ok env s" and p: "-1 \<le> p" "p < int (length (t_nodes s)) \<or> p = -1"
    and n: "2 * length (dc_rest (t_decoder s)) \<le> f"
  shows "parse_value env (Suc f) p k s \<noteq> (Inl TreeFuel, t)"
proof
  assume a: "parse_value env (Suc f) p k s = (Inl TreeFuel, t)"
  obtain s1 tok s2 s3 where 1: "tree_poll env s = (Inr (), s1)" and 2: "tree_token s1 = (Inr tok, s2)"
    and 3: "tree_retain env tree_node_bytes s2 = (Inr (), s3)"
    and body: "(case tok of
         TDelim c \<Rightarrow>
           if c = CHR ''{'' then
             bind (parse_members env f p [] 0) (\<lambda>members. ret (Node KindObject p None False members []))
           else if c = CHR ''['' then
             bind (parse_elements env f p [] 0) (\<lambda>items. ret (Node KindArray p None False [] items))
           else fail (Internal ''unexpected closing delimiter'')
       | TString v \<Rightarrow> tree_string_node env p k v
       | TNumber _ \<Rightarrow> ret (leaf KindNumber p)
       | TBool b \<Rightarrow> ret (Node KindBoolean p None b [] [])
       | TNull \<Rightarrow> ret (leaf KindNull p)) s3 = (Inl TreeFuel, t)"
    using a by (auto simp: bind_Inl_iff dest: steps_not_fuel [THEN run_not_fuel])
  note r1 = tree_poll_run [OF 1 ok]
  note r2 = tree_token_run [OF 2 run_ok_ok [OF r1]]
  note r3 = tree_retain_run [OF 3 run_ok_ok [OF r2(1)]]
  have r: "run_ok env s s3 []" using run_ok_trans [OF run_ok_trans [OF r1 r2(1)] r3] by simp
  have short: "length (dc_rest (t_decoder s3)) < length (dc_rest (t_decoder s))"
    using run_ok_rest [OF r1] r2(2) run_ok_rest [OF r3] by simp
  have p3: "p < int (length (t_nodes s3)) \<or> p = -1" using p(2) run_ok_arena [OF r] by auto
  have need: "2 * length (dc_rest (t_decoder s3)) + 2 \<le> f" using short n by linarith
  note F = f [unfolded fuel_spec_def, rule_format, OF run_ok_ok [OF r] p(1) p3]
  show False
    using body F need by (cases tok) (auto simp: bind_Inl_iff split: if_splits dest: steps_not_fuel [THEN run_not_fuel])
qed

lemma members_fuel:
  assumes f: "fuel_spec env f" and ok: "tree_ok env s" and p: "-1 \<le> p" "p < int (length (t_nodes s)) \<or> p = -1"
    and n: "2 * length (dc_rest (t_decoder s)) \<le> f" and small: "te_limit env < 137438953472"
  shows "parse_members env (Suc f) p items cap s \<noteq> (Inl TreeFuel, t)"
proof
  assume a: "parse_members env (Suc f) p items cap s = (Inl TreeFuel, t)"
  have "More (t_decoder s)"
    using a by (cases "More (t_decoder s)") (auto simp: bind_Inl_iff dest: steps_not_fuel [THEN run_not_fuel])
  then obtain s1 tok s2 where 1: "tree_poll env s = (Inr (), s1)" and 2: "tree_token s1 = (Inr tok, s2)"
    and body: "(case tok of
        TString key \<Rightarrow>
          bind (append_tree_path env p (Key key) (length key)) (\<lambda>child_path.
          bind (parse_value env f child_path KindObject) (\<lambda>child.
          bind (append_item env tree_member_bytes items cap (key, child)) (\<lambda>(items, cap).
          parse_members env f p items cap)))
      | _ \<Rightarrow> fail (Internal ''object key is not a string'')) s2 = (Inl TreeFuel, t)"
    using a by (auto simp: bind_Inl_iff dest: steps_not_fuel [THEN run_not_fuel])
  then obtain key where tok: "tok = TString key" by (cases tok) auto
  obtain ref s3 where 3: "append_tree_path env p (Key key) (length key) s2 = (Inr ref, s3)"
    and rest: "bind (parse_value env f ref KindObject) (\<lambda>child.
          bind (append_item env tree_member_bytes items cap (key, child)) (\<lambda>(items, cap).
          parse_members env f p items cap)) s3 = (Inl TreeFuel, t)"
    using body tok by (auto simp: bind_Inl_iff [of "append_tree_path env p (Key key) (length key)"]
        dest: steps_not_fuel [THEN run_not_fuel])
  note r1 = tree_poll_run [OF 1 ok]
  note r2 = tree_token_run [OF 2 run_ok_ok [OF r1]]
  have p2: "p < int (length (t_nodes s2))" using p run_ok_arena [OF r1] run_ok_arena [OF r2(1)] by auto
  note r3 = append_tree_path_run [OF 3 run_ok_ok [OF r2(1)] p(1) p2 small]
  have need: "2 * length (dc_rest (t_decoder s3)) + 2 \<le> f"
    using run_ok_rest [OF r1] r2(2) run_ok_rest [OF r3(1)] n by linarith
  have "parse_value env f ref KindObject s3 \<noteq> (Inl TreeFuel, t)"
    using f [unfolded fuel_spec_def, rule_format, OF run_ok_ok [OF r3(1)] r3(2)] r3(3) need by auto
  then obtain child s4 items' cap' s5 where 4: "parse_value env f ref KindObject s3 = (Inr child, s4)"
    and 5: "append_item env tree_member_bytes items cap (key, child) s4 = (Inr (items', cap'), s5)"
    and 6: "parse_members env f p items' cap' s5 = (Inl TreeFuel, t)"
    using rest by (auto simp: bind_Inl_iff dest: steps_not_fuel [THEN run_not_fuel])
  have r4: "run_ok env s3 s4 (node_strings child)"
    using parse_specs [OF small, of f] 4 r3 run_ok_ok [OF r3(1)] unfolding value_spec_def by blast
  note r5 = append_item_run [OF 5 run_ok_ok [OF r4]]
  have p5: "p < int (length (t_nodes s5))"
    using p2 run_ok_arena [OF r3(1)] run_ok_arena [OF r4] run_ok_arena [OF r5(1)] by auto
  show False
    using f [unfolded fuel_spec_def, rule_format, OF run_ok_ok [OF r5(1)] p(1)] p5 6 need
      run_ok_rest [OF r4] run_ok_rest [OF r5(1)] by auto
qed

lemma elements_fuel:
  assumes f: "fuel_spec env f" and ok: "tree_ok env s" and p: "-1 \<le> p" "p < int (length (t_nodes s)) \<or> p = -1"
    and n: "2 * length (dc_rest (t_decoder s)) + 1 \<le> f" and small: "te_limit env < 137438953472"
  shows "parse_elements env (Suc f) p items cap s \<noteq> (Inl TreeFuel, t)"
proof
  assume a: "parse_elements env (Suc f) p items cap s = (Inl TreeFuel, t)"
  have "More (t_decoder s)"
    using a by (cases "More (t_decoder s)") (auto simp: bind_Inl_iff dest: steps_not_fuel [THEN run_not_fuel])
  then obtain ref s3 where 3: "append_tree_path env p (Index (int (length items))) 0 s = (Inr ref, s3)"
    and rest: "bind (parse_value env f ref KindArray) (\<lambda>child.
       bind (append_item env tree_array_bytes items cap child) (\<lambda>(items, cap).
       parse_elements env f p items cap)) s3 = (Inl TreeFuel, t)"
    using a by (auto simp: bind_Inl_iff [of "append_tree_path env p (Index (int (length items))) 0"]
        bind_Inl_iff [of "gets (More \<circ> t_decoder)"] dest: steps_not_fuel [THEN run_not_fuel])
  note r3 = append_tree_path_run [OF 3 ok p(1) range_cases [OF p] small]
  have need: "2 * length (dc_rest (t_decoder s3)) + 1 \<le> f"
    using run_ok_rest [OF r3(1)] n by linarith
  have "parse_value env f ref KindArray s3 \<noteq> (Inl TreeFuel, t)"
    using f [unfolded fuel_spec_def, rule_format, OF run_ok_ok [OF r3(1)] r3(2)] r3(3) need by auto
  then obtain child s4 items' cap' s5 where 4: "parse_value env f ref KindArray s3 = (Inr child, s4)"
    and 5: "append_item env tree_array_bytes items cap child s4 = (Inr (items', cap'), s5)"
    and 6: "parse_elements env f p items' cap' s5 = (Inl TreeFuel, t)"
    using rest by (auto simp: bind_Inl_iff dest: steps_not_fuel [THEN run_not_fuel])
  have r4: "run_ok env s3 s4 (node_strings child)"
      "length (dc_rest (t_decoder s4)) < length (dc_rest (t_decoder s3))"
    using parse_specs [OF small, of f] 4 r3 run_ok_ok [OF r3(1)] unfolding value_spec_def by blast+
  note r5 = append_item_run [OF 5 run_ok_ok [OF r4(1)]]
  have p5: "p < int (length (t_nodes s5))"
    using range_cases [OF p] run_ok_arena [OF r3(1)] run_ok_arena [OF r4(1)] run_ok_arena [OF r5(1)] by auto
  show False
    using f [unfolded fuel_spec_def, rule_format, OF run_ok_ok [OF r5(1)] p(1)] p5 6 need
      r4(2) run_ok_rest [OF r5(1)] by auto
qed

lemma parse_fuel:
  assumes "te_limit env < 137438953472"
  shows "fuel_spec env f"
proof (induction f)
  case 0
  show ?case by (simp add: fuel_spec_def)
next
  case (Suc f)
  show ?case
    unfolding fuel_spec_def
    using value_fuel [OF Suc] members_fuel [OF Suc _ _ _ _ assms] elements_fuel [OF Suc _ _ _ _ assms]
    by (simp del: parse_value.simps parse_members.simps parse_elements.simps)
qed

section \<open>The whole parser\<close>

definition tree_of :: "document \<Rightarrow> tree_path_node list \<Rightarrow> node \<Rightarrow> bool" where
  "tree_of doc nodes root \<longleftrightarrow> tree_arena_ok nodes \<and> node_ok (length nodes) root \<and>
     node_strings root = doc_range doc 0 (length (doc_strings doc))"

definition doc_bounded :: "document \<Rightarrow> bool" where
  "doc_bounded doc \<longleftrightarrow> limits_ok (doc_limits doc) \<and> 0 \<le> doc_structural_bytes doc \<and>
     doc_structural_bytes doc \<le> MaxStructuralBytes (doc_limits doc)"

lemma init_tree_ok:
  "doc_bounded doc \<Longrightarrow> te_document env = doc \<Longrightarrow> te_limit env = MaxStructuralBytes (doc_limits doc) \<Longrightarrow>
   tree_ok env (init_tree body doc polls)"
  by (simp add: tree_ok_def init_tree_def doc_bounded_def)

lemma end_of_body:
  "(case Token d of Inl DecodeEOF \<Rightarrow> ret root | Inl e \<Rightarrow> fail (Decode e)
     | Inr _ \<Rightarrow> fail (Internal ''decoder found a second root'')) u = (Inr x, t) \<longleftrightarrow>
     Token d = Inl DecodeEOF \<and> x = root \<and> t = u"
  "(case Token d of Inl DecodeEOF \<Rightarrow> ret root | Inl e \<Rightarrow> fail (Decode e)
     | Inr _ \<Rightarrow> fail (Internal ''decoder found a second root'')) u \<noteq> (Inl TreeFuel, t)"
  by (auto split: sum.split decode_error.split)

lemma parse_tree_sound:
  assumes d: "doc_bounded doc" and r: "parseTree c body doc polls = (Inr root, t)"
  shows "tree_of doc (t_nodes t) root" "doc_structural_bytes doc \<le> t_used t"
    "t_used t \<le> MaxStructuralBytes (doc_limits doc)"
proof -
  let ?env = "\<lparr>te_ctx = or_background c, te_document = doc, te_limit = MaxStructuralBytes (doc_limits doc)\<rparr>"
  have small: "te_limit ?env < 137438953472" using d by (simp add: doc_bounded_def limits_ok_def)
  have v: "parse_value ?env (tree_fuel body) (-1) KindInvalid (init_tree body doc polls) = (Inr root, t)"
    and n: "t_stringPos t = length (doc_strings doc)"
    using r by (auto simp: parseTree_def parse_root_def bind_Inr_iff end_of_body)
  have "run_ok ?env (init_tree body doc polls) t (node_strings root) \<and> node_ok (length (t_nodes t)) root"
    using parse_specs [OF small, of "tree_fuel body"] v init_tree_ok [OF d, of ?env body polls]
    by (simp add: value_spec_def del: parse_value.simps)
  then show "tree_of doc (t_nodes t) root" "doc_structural_bytes doc \<le> t_used t"
    "t_used t \<le> MaxStructuralBytes (doc_limits doc)"
    using n by (auto simp: run_ok_def tree_ok_def tree_of_def init_tree_def)
qed

lemma parse_tree_not_out_of_fuel:
  assumes d: "doc_bounded doc"
  shows "fst (parseTree c body doc polls) \<noteq> Inl TreeFuel"
proof
  let ?env = "\<lparr>te_ctx = or_background c, te_document = doc, te_limit = MaxStructuralBytes (doc_limits doc)\<rparr>"
  have small: "te_limit ?env < 137438953472" using d by (simp add: doc_bounded_def limits_ok_def)
  assume "fst (parseTree c body doc polls) = Inl TreeFuel"
  then obtain t where "parse_root ?env body (init_tree body doc polls) = (Inl TreeFuel, t)"
    by (cases "parseTree c body doc polls") (simp add: parseTree_def)
  then have "parse_value ?env (tree_fuel body) (-1) KindInvalid (init_tree body doc polls) = (Inl TreeFuel, t)"
    by (auto simp: parse_root_def bind_Inl_iff end_of_body)
  moreover have "2 * length (dc_rest (t_decoder (init_tree body doc polls))) + 1 \<le> tree_fuel body"
    by (simp add: init_tree_def NewDecoder_def tree_fuel_def)
  ultimately show False
    using parse_fuel [OF small, of "tree_fuel body"] init_tree_ok [OF d, of ?env body polls]
    by (simp add: fuel_spec_def del: parse_value.simps)
qed

end
