(* ===== verification/Collector.thy ===== *)
theory Collector
  imports Tree_Sound "HOL-Library.List_Lexorder" "HOL-Library.Char_ord"
begin

text \<open>
  The collector of \<open>walker/common.go\<close>: what every protocol walker calls to look fields up, to
  select a string as a target, to protect it as opaque, or to record that a shape is not
  supported. The context, the protocol, the document, the path arena and the limit of the budget
  never change during a walk and form the environment; the rest of \<open>collector\<close> and of the
  \<open>Result\<close> it builds is the state.

  The three sets hold the start offsets of the strings disposed of so far. A collector made by
  \<open>Walk\<close> has a root and so a budget; the branches for a missing budget or a nil node are left out.
\<close>

section \<open>State\<close>

record walk_env =
  we_ctx :: ctx
  we_protocol :: protocol
  we_document :: document
  we_nodes :: "tree_path_node list"
  we_limit :: int

record collector =
  k_polls :: nat
  k_used :: int
  k_err :: "walk_error option"
  k_targets :: "nat set"
  k_opaque :: "nat set"
  k_rejected :: "nat set"
  k_out :: "target list"
  k_out_cap :: nat
  k_unsupported :: "unsupported_shape list"
  k_unsupported_cap :: nat

type_synonym 'a walker = "(walk_error, collector, 'a) M"

definition index_entry_bytes :: int where "index_entry_bytes = 128"
definition target_bytes :: int where "target_bytes = 384"
definition unsupported_bytes :: int where "unsupported_bytes = 256"
definition path_segment_bytes :: int where "path_segment_bytes = 48"
definition field_context_bytes :: int where
  "field_context_bytes = int ((max_context_ancestors + 1) * max_context_key_bytes)"

definition new_collector :: "int \<Rightarrow> nat \<Rightarrow> collector" where
  "new_collector used polls = \<lparr>k_polls = polls, k_used = used, k_err = None, k_targets = {},
     k_opaque = {}, k_rejected = {}, k_out = [], k_out_cap = 0, k_unsupported = [], k_unsupported_cap = 0\<rparr>"

definition check_err :: "unit walker" where
  "check_err = bind (gets k_err) (\<lambda>e. case e of None \<Rightarrow> ret () | Some e \<Rightarrow> fail e)"

definition walk_poll :: "walk_env \<Rightarrow> unit walker" where
  "walk_poll env s =
    (case we_ctx env (k_polls s) of
       None \<Rightarrow> (Inr (), s\<lparr>k_polls := Suc (k_polls s)\<rparr>)
     | Some e \<Rightarrow> (Inl (Payload (CtxErr e)), s\<lparr>k_polls := Suc (k_polls s)\<rparr>))"

definition retain :: "walk_env \<Rightarrow> int \<Rightarrow> unit walker" where
  "retain env bytes =
     bind (gets k_used) (\<lambda>used.
     bind (lift_res (budget_retain (we_limit env) used bytes)) (\<lambda>used'.
     modify (\<lambda>s. s\<lparr>k_used := used'\<rparr>)))"

definition path_at :: "walk_env \<Rightarrow> node \<Rightarrow> path option" where
  "path_at env v = tree_path (we_nodes env) (n_path v)"

definition member_path :: "walk_env \<Rightarrow> node \<Rightarrow> string \<Rightarrow> path option" where
  "member_path env v key = map_option (\<lambda>p. p @ [Key key]) (path_at env v)"

definition token_value :: "node \<Rightarrow> string" where
  "token_value v = (case n_token v of Some t \<Rightarrow> ts_Value t | None \<Rightarrow> [])"

text \<open>\<open>path_bytes\<close> is what a materialised path is charged, \<open>reserveMaterialized\<close>.\<close>

definition path_bytes :: "walk_env \<Rightarrow> int \<Rightarrow> int" where
  "path_bytes env ref =
    (if 0 \<le> ref then int (tp_depth (we_nodes env ! nat ref)) * path_segment_bytes else 0)"

definition reserve_materialized :: "walk_env \<Rightarrow> node \<Rightarrow> unit walker" where
  "reserve_materialized env v = (if n_path v < 0 then ret () else retain env (path_bytes env (n_path v)))"

section \<open>Errors\<close>

definition shape :: "walk_env \<Rightarrow> node \<Rightarrow> string \<Rightarrow> string \<Rightarrow> 'a walker" where
  "shape env v expected detail =
     seq check_err (fail (ShapeError (we_protocol env) (path_at env v) expected (n_kind v) detail))"

definition missing :: "walk_env \<Rightarrow> node \<Rightarrow> string \<Rightarrow> string \<Rightarrow> 'a walker" where
  "missing env obj key expected =
     seq check_err
       (fail (ShapeError (we_protocol env) (member_path env obj key) expected KindInvalid ''required field''))"

section \<open>Fields\<close>

fun field_loop :: "string \<Rightarrow> (string \<times> node) list \<Rightarrow> node option \<Rightarrow> nat \<Rightarrow> node option \<times> nat" where
  "field_loop key [] found n = (found, n)"
| "field_loop key ((k, v) # items) found n =
    (if k \<noteq> key then field_loop key items found n else field_loop key items (Some v) (n + 1))"

definition field :: "walk_env \<Rightarrow> node \<Rightarrow> string \<Rightarrow> node option walker" where
  "field env obj key =
     seq check_err
     (if n_kind obj \<noteq> KindObject then shape env obj ''object'' ''field lookup''
      else (case field_loop key (n_object obj) None 0 of
        (found, n) \<Rightarrow>
          if 1 < n then fail (AmbiguityError (we_protocol env) (member_path env obj key) [key])
          else ret (if n = 1 then found else None)))"

fun one_of_loop ::
  "walk_env \<Rightarrow> node \<Rightarrow> string list \<Rightarrow> string list \<Rightarrow> (node \<times> string) option \<Rightarrow> (node \<times> string) option walker" where
  "one_of_loop env obj all [] found = ret found"
| "one_of_loop env obj all (key # keys) found =
     bind (field env obj key) (\<lambda>v. case v of
       None \<Rightarrow> one_of_loop env obj all keys found
     | Some v \<Rightarrow>
         if found \<noteq> None then fail (AmbiguityError (we_protocol env) (path_at env obj) all)
         else one_of_loop env obj all keys (Some (v, key)))"

definition one_of :: "walk_env \<Rightarrow> node \<Rightarrow> string list \<Rightarrow> (node \<times> string) option walker" where
  "one_of env obj keys = one_of_loop env obj keys keys None"

definition unique :: "walk_env \<Rightarrow> node \<Rightarrow> string list \<Rightarrow> unit walker" where
  "unique env obj keys = for_each keys (\<lambda>key. seq (field env obj key) (ret ()))"

fun first_repeat :: "string list \<Rightarrow> string option" where
  "first_repeat (a # b # xs) = (if b = a then Some b else first_repeat (b # xs))"
| "first_repeat _ = None"

definition unique_object_keys :: "walk_env \<Rightarrow> node \<Rightarrow> unit walker" where
  "unique_object_keys env obj =
    (if n_kind obj \<noteq> KindObject then shape env obj ''object'' ''duplicate-field validation''
     else if length (n_object obj) < 2 then ret ()
     else if max_int div index_entry_bytes < int (length (n_object obj)) then fail (Payload StructuralLimit)
     else
       seq (retain env (int (length (n_object obj)) * index_entry_bytes))
       (case first_repeat (sort (map fst (n_object obj))) of
          None \<Rightarrow> ret ()
        | Some key \<Rightarrow> fail (AmbiguityError (we_protocol env) (member_path env obj key) [key])))"

section \<open>Unsupported shapes\<close>

definition disposed :: "collector \<Rightarrow> nat set" where
  "disposed s = k_targets s \<union> k_opaque s \<union> k_rejected s"

definition undisposed :: "collector \<Rightarrow> nat \<Rightarrow> bool" where
  "undisposed s start \<longleftrightarrow> \<not> (start \<in> k_targets s \<or> start \<in> k_opaque s \<or> start \<in> k_rejected s)"

fun count_undisposed :: "collector \<Rightarrow> node \<Rightarrow> nat" where
  "count_undisposed s (Node k p tok b obj arr) =
    (case k of
       KindString \<Rightarrow>
         (case tok of None \<Rightarrow> 0 | Some t \<Rightarrow> if undisposed s (Start (ts_Span t)) then 1 else 0)
     | KindObject \<Rightarrow> sum_list (map (\<lambda>m. count_undisposed s (snd m)) obj)
     | KindArray \<Rightarrow> sum_list (map (count_undisposed s) arr)
     | _ \<Rightarrow> 0)"

fun mark_unsupported_strings :: "node \<Rightarrow> collector \<Rightarrow> collector" where
  "mark_unsupported_strings (Node k p tok b obj arr) s =
    (case k of
       KindString \<Rightarrow>
         (case tok of
            None \<Rightarrow> s
          | Some t \<Rightarrow>
              if undisposed s (Start (ts_Span t))
              then s\<lparr>k_rejected := insert (Start (ts_Span t)) (k_rejected s)\<rparr> else s)
     | KindObject \<Rightarrow> fold (\<lambda>m. mark_unsupported_strings (snd m)) obj s
     | KindArray \<Rightarrow> fold mark_unsupported_strings arr s
     | _ \<Rightarrow> s)"

definition set_err :: "walk_error \<Rightarrow> unit walker" where
  "set_err e = modify (\<lambda>s. s\<lparr>k_err := Some e\<rparr>)"

definition reserve_unsupported :: "walk_env \<Rightarrow> node \<Rightarrow> int \<Rightarrow> nat \<Rightarrow> bool walker" where
  "reserve_unsupported env v detail_bytes string_count =
     bind get_state (\<lambda>s.
       if k_err s \<noteq> None then ret False
       else
         let n = length (k_unsupported s);
             new_cap = (if n = k_unsupported_cap s then next_capacity (k_unsupported_cap s) (n + 1)
                        else k_unsupported_cap s);
             charge = detail_bytes + path_bytes env (n_path v) + int string_count * index_entry_bytes +
                      int (new_cap - k_unsupported_cap s) * unsupported_bytes in
         case budget_retain (we_limit env) (k_used s) charge of
           Inl e \<Rightarrow> seq (set_err e) (ret False)
         | Inr used \<Rightarrow>
             seq (modify (\<lambda>s. s\<lparr>k_used := used, k_unsupported_cap := new_cap\<rparr>)) (ret True))"

definition append_unsupported :: "walk_env \<Rightarrow> node \<Rightarrow> shape_detail \<Rightarrow> unit walker" where
  "append_unsupported env v detail = modify (\<lambda>s. s\<lparr>k_unsupported := k_unsupported s @
     [\<lparr>us_Protocol = we_protocol env, us_Path = path_at env v, us_Detail = detail\<rparr>]\<rparr>)"

definition reject :: "walk_env \<Rightarrow> node \<Rightarrow> int \<Rightarrow> shape_detail \<Rightarrow> unit walker" where
  "reject env v detail_bytes detail =
     bind get_state (\<lambda>s.
     bind (reserve_unsupported env v detail_bytes (count_undisposed s v)) (\<lambda>ok.
       if \<not> ok then ret ()
       else seq (modify (mark_unsupported_strings v)) (append_unsupported env v detail)))"

definition unsupported :: "walk_env \<Rightarrow> node \<Rightarrow> string \<Rightarrow> unit walker" where
  "unsupported env v detail = reject env v (int (length detail)) (Plain detail)"

definition unsupported_value :: "walk_env \<Rightarrow> node \<Rightarrow> string \<Rightarrow> string \<Rightarrow> unit walker" where
  "unsupported_value env v pre untrusted =
     bind (gets k_err) (\<lambda>e.
       if e \<noteq> None then ret ()
       else if max_int - 2 < int (length pre) \<or> (max_int - int (length pre) - 2) div 4 < int (length untrusted)
       then set_err (Payload StructuralLimit)
       else reject env v (int (length pre) + 2 + 4 * int (length untrusted)) (Quoted pre untrusted))"

fun ensure_string_disposition :: "walk_env \<Rightarrow> node \<Rightarrow> unit walker" where
  "ensure_string_disposition env (Node k p tok b obj arr) =
     seq check_err
     (seq (walk_poll env)
     (seq
       (case k of
          KindString \<Rightarrow>
            bind get_state (\<lambda>s.
              if count_undisposed s (Node k p tok b obj arr) \<noteq> 0
              then unsupported env (Node k p tok b obj arr) ''string has no explicit protocol disposition''
              else ret ())
        | KindObject \<Rightarrow> for_each obj (\<lambda>m. ensure_string_disposition env (snd m))
        | KindArray \<Rightarrow> for_each arr (ensure_string_disposition env)
        | _ \<Rightarrow> ret ())
       check_err))"

section \<open>Targets\<close>

definition reserve_target_capacity :: "walk_env \<Rightarrow> unit walker" where
  "reserve_target_capacity env =
     bind get_state (\<lambda>s.
       if length (k_out s) < k_out_cap s then ret ()
       else
         let new_cap = next_capacity (k_out_cap s) (length (k_out s) + 1) in
         seq (retain env (int (new_cap - k_out_cap s) * target_bytes))
             (modify (\<lambda>s. s\<lparr>k_out_cap := new_cap\<rparr>)))"

definition is_tool_scope :: "scope \<Rightarrow> bool" where
  "is_tool_scope scope \<longleftrightarrow> scope = ScopeToolInput \<or> scope = ScopeToolOutput"

definition make_target ::
  "string_token \<Rightarrow> string_key_context \<Rightarrow> scope \<Rightarrow> target_kind \<Rightarrow> mutability \<Rightarrow> target" where
  "make_target token key_context scope kind mutable =
     \<lparr>tg_Token = token, tg_Path = tok_path token, tg_Scope = scope, tg_Kind = kind,
      tg_Mutable = (if is_tool_scope scope \<and> mutable = MutabilityDirect then MutabilityJSONOrPlain else mutable),
      tg_Context = \<lparr>tc_Fields = key_context, tc_ToolScope = (if is_tool_scope scope then scope else NoScope),
        tc_Structured = (kind = TargetKindJSONValue),
        tc_Encoded = (mutable = MutabilityEncodedJSON \<or> mutable = MutabilityJSONOrPlain)\<rparr>\<rparr>"

definition add :: "walk_env \<Rightarrow> node \<Rightarrow> scope \<Rightarrow> target_kind \<Rightarrow> mutability \<Rightarrow> unit walker" where
  "add env v scope kind mutable =
     seq check_err
     (seq (walk_poll env)
     (case (n_kind v = KindString, n_token v) of
        (True, Some t) \<Rightarrow>
          let start = Start (ts_Span t); path = path_at env v in
          bind get_state (\<lambda>s.
          seq (fail_if (start \<in> k_targets s) (InternalAt ''string selected twice'' path))
          (seq (fail_if (start \<in> k_opaque s) (InternalAt ''opaque string selected as target'' path))
          (seq (fail_if (start \<in> k_rejected s) (InternalAt ''unsupported string selected as target'' path))
          (seq (retain env index_entry_bytes)
          (seq (reserve_target_capacity env)
          (seq (reserve_materialized env v)
          (seq (reserve_materialized env v)
          (case StringTokenAt (Some (we_document env)) (int (ts_ordinal t)) of
             None \<Rightarrow> fail (Internal ''selected string no longer matches payload index'')
           | Some token \<Rightarrow>
               seq (fail_if (tok_value token \<noteq> ts_Value t \<or> tok_span token \<noteq> ts_Span t)
                      (Internal ''selected string no longer matches payload index''))
               (seq (retain env field_context_bytes)
               (case StringKeyContextAt (Some (we_document env)) (int (ts_ordinal t)) of
                  None \<Rightarrow> fail (Internal ''selected string field context is unavailable'')
                | Some key_context \<Rightarrow>
                    modify (\<lambda>s. s\<lparr>k_targets := insert start (k_targets s),
                      k_out := k_out s @ [make_target token key_context scope kind mutable]\<rparr>)))))))))))
      | _ \<Rightarrow> shape env v ''string'' ''target''))"

section \<open>Opaque strings\<close>

definition mark_opaque_string :: "walk_env \<Rightarrow> int \<Rightarrow> tree_string \<Rightarrow> unit walker" where
  "mark_opaque_string env ref t =
     (let start = Start (ts_Span t); path = tree_path (we_nodes env) ref in
      bind get_state (\<lambda>s.
      seq (fail_if (start \<in> k_targets s) (InternalAt ''target string marked opaque'' path))
      (seq (fail_if (start \<in> k_rejected s) (InternalAt ''unsupported string marked opaque'' path))
      (if start \<in> k_opaque s then ret ()
       else seq (retain env index_entry_bytes)
         (modify (\<lambda>s. s\<lparr>k_opaque := insert start (k_opaque s)\<rparr>))))))"

fun mark_opaque :: "walk_env \<Rightarrow> node \<Rightarrow> unit walker" where
  "mark_opaque env (Node k p tok b obj arr) =
     seq check_err
     (seq (walk_poll env)
     (case k of
        KindString \<Rightarrow> (case tok of None \<Rightarrow> ret () | Some t \<Rightarrow> mark_opaque_string env p t)
      | KindObject \<Rightarrow> for_each obj (\<lambda>m. mark_opaque env (snd m))
      | KindArray \<Rightarrow> for_each arr (mark_opaque env)
      | _ \<Rightarrow> ret ()))"

fun walk_string_values :: "walk_env \<Rightarrow> node \<Rightarrow> scope \<Rightarrow> target_kind \<Rightarrow> unit walker" where
  "walk_string_values env (Node k p tok b obj arr) scope kind =
     seq check_err
     (seq (walk_poll env)
     (case k of
        KindString \<Rightarrow> add env (Node k p tok b obj arr) scope kind MutabilityDirect
      | KindObject \<Rightarrow> for_each obj (\<lambda>m. walk_string_values env (snd m) scope kind)
      | KindArray \<Rightarrow> for_each arr (\<lambda>item. walk_string_values env item scope kind)
      | _ \<Rightarrow> ret ()))"

section \<open>Typed fields\<close>

text \<open>
  \<open>need\<close> is the dereference of a node: the code uses the result of a required field without a
  test for nil. \<open>with_field\<close> is the common part of the operations that look a field up, accept its
  absence or null, and act on a value of one kind.
\<close>

definition need :: "'a option \<Rightarrow> 'a walker" where
  "need v = (case v of None \<Rightarrow> fail NilDereference | Some x \<Rightarrow> ret x)"

definition kind_field :: "kind \<Rightarrow> string \<Rightarrow> walk_env \<Rightarrow> node \<Rightarrow> string \<Rightarrow> bool \<Rightarrow> node option walker" where
  "kind_field kind name env obj key required =
     bind (field env obj key) (\<lambda>v. case v of
       None \<Rightarrow> if required then missing env obj key name else ret None
     | Some value \<Rightarrow> if n_kind value \<noteq> kind then shape env value name key else ret (Some value))"

definition string_field :: "walk_env \<Rightarrow> node \<Rightarrow> string \<Rightarrow> bool \<Rightarrow> node option walker" where
  "string_field = kind_field KindString ''string''"

definition object_field :: "walk_env \<Rightarrow> node \<Rightarrow> string \<Rightarrow> bool \<Rightarrow> node option walker" where
  "object_field = kind_field KindObject ''object''"

definition array_field :: "walk_env \<Rightarrow> node \<Rightarrow> string \<Rightarrow> bool \<Rightarrow> node option walker" where
  "array_field = kind_field KindArray ''array''"

definition with_field :: "kind \<Rightarrow> string \<Rightarrow> walk_env \<Rightarrow> node \<Rightarrow> string \<Rightarrow> bool \<Rightarrow> bool \<Rightarrow>
    (node \<Rightarrow> unit walker) \<Rightarrow> unit walker" where
  "with_field kind name env obj key required nullable act =
     bind (field env obj key) (\<lambda>v. case v of
       None \<Rightarrow> if required then missing env obj key name else ret ()
     | Some value \<Rightarrow>
         if n_kind value = KindNull \<and> nullable then ret ()
         else if n_kind value \<noteq> kind then shape env value (if nullable then name @ '' or null'' else name) key
         else act value)"

definition mark_opaque_string_field :: "walk_env \<Rightarrow> node \<Rightarrow> string \<Rightarrow> bool \<Rightarrow> bool \<Rightarrow> unit walker" where
  "mark_opaque_string_field env obj key required nullable =
     with_field KindString ''string'' env obj key required nullable (mark_opaque env)"

definition add_string_field ::
  "walk_env \<Rightarrow> node \<Rightarrow> string \<Rightarrow> bool \<Rightarrow> bool \<Rightarrow> scope \<Rightarrow> target_kind \<Rightarrow> unit walker" where
  "add_string_field env obj key required nullable scope kind =
     with_field KindString ''string'' env obj key required nullable (\<lambda>v. add env v scope kind MutabilityDirect)"

definition walk_string_object_field ::
  "walk_env \<Rightarrow> node \<Rightarrow> string \<Rightarrow> bool \<Rightarrow> bool \<Rightarrow> scope \<Rightarrow> unit walker" where
  "walk_string_object_field env obj key required nullable scope =
     with_field KindObject ''object'' env obj key required nullable
       (\<lambda>v. walk_string_values env v scope TargetKindJSONValue)"

definition mark_opaque_string_array_field :: "walk_env \<Rightarrow> node \<Rightarrow> string \<Rightarrow> bool \<Rightarrow> bool \<Rightarrow> unit walker" where
  "mark_opaque_string_array_field env obj key required nullable =
     with_field KindArray ''array'' env obj key required nullable (\<lambda>v. for_each (n_array v) (\<lambda>item.
       if n_kind item \<noteq> KindString then shape env item ''string'' (key @ '' element'')
       else mark_opaque env item))"

definition mark_fields :: "walk_env \<Rightarrow> node \<Rightarrow> string list \<Rightarrow> unit walker" where
  "mark_fields env obj keys = for_each keys (\<lambda>key.
     bind (field env obj key) (\<lambda>v. case v of None \<Rightarrow> ret () | Some value \<Rightarrow> mark_opaque env value))"

text \<open>The loop \<open>for _, key := range keys { markOpaqueStringField(obj, key, false, true) }\<close>.\<close>

definition mark_optional_strings :: "walk_env \<Rightarrow> node \<Rightarrow> string list \<Rightarrow> unit walker" where
  "mark_optional_strings env obj keys = for_each keys (\<lambda>key. mark_opaque_string_field env obj key False True)"

definition required_string :: "walk_env \<Rightarrow> node \<Rightarrow> string \<Rightarrow> node walker" where
  "required_string env obj key = bind (string_field env obj key True) need"

definition required_object :: "walk_env \<Rightarrow> node \<Rightarrow> string \<Rightarrow> node walker" where
  "required_object env obj key = bind (object_field env obj key True) need"

definition required_array :: "walk_env \<Rightarrow> node \<Rightarrow> string \<Rightarrow> node walker" where
  "required_array env obj key = bind (array_field env obj key True) need"

text \<open>An object field that is skipped when it is absent or null, and must be of kind \<open>k\<close> otherwise.\<close>

definition optional_field :: "walk_env \<Rightarrow> node \<Rightarrow> string \<Rightarrow> (node \<Rightarrow> unit walker) \<Rightarrow> unit walker" where
  "optional_field env obj key act =
     bind (field env obj key) (\<lambda>v. case v of
       None \<Rightarrow> ret ()
     | Some value \<Rightarrow> if n_kind value = KindNull then ret () else act value)"

text \<open>The same where the code only remembers that the field was there.\<close>

definition when_field :: "walk_env \<Rightarrow> node \<Rightarrow> string \<Rightarrow> (node \<Rightarrow> unit walker) \<Rightarrow> bool walker" where
  "when_field env obj key act =
     bind (field env obj key) (\<lambda>v. case v of
       None \<Rightarrow> ret False
     | Some value \<Rightarrow> seq (act value) (ret True))"

text \<open>A present field must have one of the kinds.\<close>

definition check_kind :: "walk_env \<Rightarrow> node \<Rightarrow> string \<Rightarrow> kind list \<Rightarrow> string \<Rightarrow> string \<Rightarrow> unit walker" where
  "check_kind env obj key kinds expected detail =
     bind (field env obj key) (\<lambda>v. case v of
       None \<Rightarrow> ret ()
     | Some value \<Rightarrow> if n_kind value \<in> set kinds then ret () else shape env value expected detail)"

text \<open>
  Patterns of the walkers: select a required string; protect the required \<open>type\<close> and go on with its
  value; walk the elements of an array that must be objects, or strings.
\<close>

definition add_required :: "walk_env \<Rightarrow> node \<Rightarrow> string \<Rightarrow> scope \<Rightarrow> target_kind \<Rightarrow> mutability \<Rightarrow> unit walker" where
  "add_required env obj key scope kind mutable =
     bind (required_string env obj key) (\<lambda>v. add env v scope kind mutable)"

definition with_type :: "walk_env \<Rightarrow> node \<Rightarrow> (string \<Rightarrow> unit walker) \<Rightarrow> unit walker" where
  "with_type env obj act =
     bind (required_string env obj ''type'') (\<lambda>type_node.
     seq (mark_opaque env type_node) (act (token_value type_node)))"

definition each_object :: "walk_env \<Rightarrow> node \<Rightarrow> string \<Rightarrow> (node \<Rightarrow> unit walker) \<Rightarrow> unit walker" where
  "each_object env arr detail act = for_each (n_array arr) (\<lambda>x.
     if n_kind x \<noteq> KindObject then unsupported env x detail else act x)"

definition each_string :: "walk_env \<Rightarrow> node \<Rightarrow> string \<Rightarrow> (node \<Rightarrow> unit walker) \<Rightarrow> unit walker" where
  "each_string env arr detail act = for_each (n_array arr) (\<lambda>x.
     if n_kind x \<noteq> KindString then unsupported env x detail else act x)"

text \<open>Consecutive calls that each return early on an error.\<close>

fun steps :: "('e, 's, unit) M list \<Rightarrow> ('e, 's, unit) M" where
  "steps [] = ret ()"
| "steps (m # ms) = seq m (steps ms)"

section \<open>Content blocks\<close>

fun scope_for_role :: "string \<Rightarrow> scope option" where
  "scope_for_role role =
    (if role = ''system'' \<or> role = ''developer'' then Some ScopeSystem
     else if role = ''user'' then Some ScopeUser
     else if role = ''assistant'' \<or> role = ''model'' then Some ScopeAssistant
     else if role = ''tool'' \<or> role = ''function'' then Some ScopeToolOutput
     else None)"

definition text_block_types :: "string list" where
  "text_block_types = [''text'', ''input_text'', ''output_text'', ''summary_text'']"

definition common_opaque_content_fields :: "(string \<times> string list) list" where
  "common_opaque_content_fields = [
    (''image'', [''image_url'', ''url'', ''file_id'', ''detail'', ''data'', ''mime_type'', ''mimeType'']),
    (''input_image'', [''image_url'', ''url'', ''file_id'', ''detail'']),
    (''output_image'', [''image_url'', ''url'', ''file_id'', ''data'', ''mime_type'', ''mimeType'']),
    (''image_url'', [''image_url'', ''url'', ''detail'']),
    (''input_audio'', [''input_audio'', ''audio'', ''data'', ''format'']),
    (''output_audio'', [''audio'', ''data'', ''format'', ''id'']),
    (''audio'', [''audio'', ''data'', ''format'', ''id'']),
    (''video'', [''video'', ''data'', ''url'', ''file_id'', ''mime_type'', ''mimeType'']),
    (''file'', [''file'', ''file_id'', ''file_data'', ''filename'', ''url'']),
    (''input_file'', [''file'', ''file_id'', ''file_data'', ''filename'', ''url'']),
    (''output_file'', [''file'', ''file_id'', ''file_data'', ''filename'', ''url''])]"

definition common_opaque_nested_content_fields :: "(string \<times> string list) list" where
  "common_opaque_nested_content_fields = [
    (''image_url'', [''url'', ''file_id'', ''detail'']),
    (''input_audio'', [''data'', ''format'']),
    (''audio'', [''data'', ''format'', ''id'', ''url'', ''file_id'']),
    (''video'', [''data'', ''url'', ''file_id'', ''mime_type'', ''mimeType'']),
    (''file'', [''file_id'', ''file_data'', ''filename'', ''url''])]"

definition walk_common_opaque_content_fields :: "walk_env \<Rightarrow> node \<Rightarrow> string list \<Rightarrow> unit walker" where
  "walk_common_opaque_content_fields env block keys = for_each keys (\<lambda>key.
     optional_field env block key (\<lambda>value.
       if n_kind value = KindString then mark_opaque env value
       else (case map_of common_opaque_nested_content_fields key of
           Some nested \<Rightarrow>
             if n_kind value \<noteq> KindObject then shape env value ''string, object, or null'' key
             else steps [unique env value nested, mark_optional_strings env value nested]
         | None \<Rightarrow> shape env value ''string, object, or null'' key)))"

definition walk_common_cache_breakpoint :: "walk_env \<Rightarrow> node \<Rightarrow> unit walker" where
  "walk_common_cache_breakpoint env block =
     optional_field env block ''prompt_cache_breakpoint'' (\<lambda>breakpoint.
       if n_kind breakpoint \<noteq> KindObject then shape env breakpoint ''object or null'' ''prompt_cache_breakpoint''
       else steps [unique env breakpoint [''mode''], mark_opaque_string_field env breakpoint ''mode'' True False])"

definition walk_anthropic_cache_control :: "walk_env \<Rightarrow> node \<Rightarrow> unit walker" where
  "walk_anthropic_cache_control env obj =
     optional_field env obj ''cache_control'' (\<lambda>cache_control.
       if n_kind cache_control \<noteq> KindObject then shape env cache_control ''object or null'' ''cache_control''
       else steps [
         unique env cache_control [''type'', ''ttl''],
         mark_opaque_string_field env cache_control ''type'' True False,
         mark_opaque_string_field env cache_control ''ttl'' False True])"

definition walk_typed_text_block :: "walk_env \<Rightarrow> node \<Rightarrow> scope \<Rightarrow> unit walker" where
  "walk_typed_text_block env block scope =
    (if n_kind block \<noteq> KindObject then unsupported env block ''content array element is not an object''
     else steps [
       unique env block [''type'', ''text'', ''refusal'', ''id'', ''name'', ''call_id'', ''signature'',
         ''prompt_cache_breakpoint'', ''cache_control''],
       mark_optional_strings env block [''id'', ''name'', ''call_id'', ''signature''],
       walk_common_cache_breakpoint env block,
       walk_anthropic_cache_control env block,
       bind (string_field env block ''type'' False) (\<lambda>type_node. case type_node of
         None \<Rightarrow> unsupported env block ''content block has no type''
       | Some type_node \<Rightarrow>
           seq (mark_opaque env type_node)
           (let block_type = token_value type_node in
            if block_type \<in> set text_block_types then
              bind (string_field env block ''text'' True) (\<lambda>t. case t of
                None \<Rightarrow> ret ()
              | Some t \<Rightarrow> add env t scope TargetKindNaturalText MutabilityDirect)
            else if block_type = ''refusal'' then
              bind (string_field env block ''refusal'' True) (\<lambda>r. case r of
                None \<Rightarrow> ret ()
              | Some r \<Rightarrow> add env r scope TargetKindNaturalText MutabilityDirect)
            else (case map_of common_opaque_content_fields block_type of
                Some keys \<Rightarrow> walk_common_opaque_content_fields env block keys
              | None \<Rightarrow> unsupported_value env block ''unknown content block type '' block_type)))])"

definition walk_typed_text_content :: "walk_env \<Rightarrow> node \<Rightarrow> scope \<Rightarrow> unit walker" where
  "walk_typed_text_content env content scope =
    (case n_kind content of
       KindString \<Rightarrow> add env content scope TargetKindNaturalText MutabilityDirect
     | KindNull \<Rightarrow> ret ()
     | KindArray \<Rightarrow> for_each (n_array content) (\<lambda>block. walk_typed_text_block env block scope)
     | _ \<Rightarrow> shape env content ''string, array, or null'' ''content'')"

definition validate_root_controls :: "walk_env \<Rightarrow> node \<Rightarrow> unit walker" where
  "validate_root_controls env root =
     steps [unique env root [''model''], mark_opaque_string_field env root ''model'' False True]"

section \<open>The result\<close>

definition finish :: "walk_env \<Rightarrow> string \<Rightarrow> collector \<Rightarrow> walk_result" where
  "finish env source_format s =
     \<lparr>wr_Protocol = we_protocol env, wr_SourceFormat = source_format, wr_Document = we_document env,
      wr_Targets = sort_key (\<lambda>t. Start (tok_span (tg_Token t))) (k_out s),
      wr_Skipped = int (length (doc_strings (we_document env))) - int (length (k_out s)),
      wr_Opaque = card (k_opaque s), wr_UnsupportedCount = length (k_unsupported s),
      wr_Unsupported = k_unsupported s, wr_JSONNodes = doc_node_count (we_document env),
      wr_StructuralBytes = k_used s\<rparr>"

end
