(* ===== verification/Walk_Contract.thy ===== *)
theory Walk_Contract
  imports Collector
begin

text \<open>
  The contract between the collector and the protocol walkers. A walker only touches the
  collector through its operations, and only with nodes reached from the root. The locale
  \<open>walk_contract\<close> fixes an invariant \<open>I\<close> of the collector and a predicate \<open>N\<close> on nodes; what it
  assumes is that the few primitive operations keep \<open>I\<close> on nodes that satisfy \<open>N\<close>, and that \<open>N\<close> passes
  to members and elements. Everything a walker is made of is then \<open>safe\<close>: it keeps \<open>I\<close>, it never
  dereferences a nil node, and it never runs out of the fuel of a recursive walker. The rules are
  collected in \<open>walk_rules\<close>; the locale is interpreted on the model's own operations with the
  invariant of the collector and with the growth of its sets.
\<close>

section \<open>Safe operations\<close>

definition proper :: "walk_error \<Rightarrow> bool" where
  "proper e \<longleftrightarrow> e \<noteq> NilDereference \<and> e \<noteq> TreeFuel \<and> e \<noteq> Payload OutOfFuel"

definition err_ok :: "collector \<Rightarrow> bool" where
  "err_ok s \<longleftrightarrow> (\<forall>e. k_err s = Some e \<longrightarrow> proper e)"

definition safe :: "(collector \<Rightarrow> bool) \<Rightarrow> 'a walker \<Rightarrow> bool" where
  "safe I m \<longleftrightarrow> valid (\<lambda>s. I s \<and> err_ok s) m (\<lambda>_ s. I s \<and> err_ok s) (\<lambda>e s. I s \<and> err_ok s \<and> proper e)"

named_theorems walk_rules "operations of the collector that are safe"

lemma proper_simps [simp]:
  "proper (Payload (CtxErr e))" "proper (Payload StructuralLimit)" "proper (Internal r)" "proper (InternalAt r p)" "proper (ShapeError a b c d f)"
  "proper (AmbiguityError a b ks)" "proper (Decode x)" "proper (UnsupportedFormat t)"
  "proper (StringMismatch b)" "proper (IndexMismatch i j)" "proper (InvalidOptions i)"
  by (auto simp: proper_def)

lemma safe_keeps: "safe I m \<Longrightarrow> keeps (\<lambda>s. I s \<and> err_ok s) m"
  unfolding safe_def keeps_def by (erule valid_weaken) auto

lemma safe_error: "safe I m \<Longrightarrow> I s \<Longrightarrow> err_ok s \<Longrightarrow> m s = (Inl e, t) \<Longrightarrow> proper e"
  unfolding safe_def by (auto dest: valid_Inl)

lemma safe_state: "safe I m \<Longrightarrow> I s \<Longrightarrow> err_ok s \<Longrightarrow> m s = (r, t) \<Longrightarrow> I t \<and> err_ok t"
  using keepsD [OF safe_keeps, of I m s r t] by simp

text \<open>Only what a primitive operation does to its own part is proved apart from the errors.\<close>

lemma safe_from_keeps: "keeps I m \<Longrightarrow> safe (\<lambda>_. True) m \<Longrightarrow> safe I m"
  unfolding safe_def by (rule validI) (auto dest: keepsD valid_Inr valid_Inl)

lemma safe_bind_post:
  assumes "safe I m" and "\<And>s x t. m s = (Inr x, t) \<Longrightarrow> Q x" and "\<And>x. Q x \<Longrightarrow> safe I (f x)"
  shows "safe I (bind m f)"
  unfolding safe_def
proof (rule valid_bind)
  show "valid (\<lambda>s. I s \<and> err_ok s) m (\<lambda>x s. (I s \<and> err_ok s) \<and> Q x) (\<lambda>e s. I s \<and> err_ok s \<and> proper e)"
    by (rule validI) (use assms(1,2) safe_state safe_error in blast)+
  show "valid (\<lambda>s. (I s \<and> err_ok s) \<and> Q x) (f x) (\<lambda>_ s. I s \<and> err_ok s) (\<lambda>e s. I s \<and> err_ok s \<and> proper e)" for x
    by (rule validI) (use assms(3) safe_state safe_error in blast)+
qed

lemma safe_bind: "safe I m \<Longrightarrow> (\<And>x. safe I (f x)) \<Longrightarrow> safe I (bind m f)"
  by (rule safe_bind_post [where Q = "\<lambda>_. True"]) auto

lemma safe_ret: "safe I (ret x)"
  unfolding safe_def by (rule validI) auto

lemma safe_fail: "proper e \<Longrightarrow> safe I (fail e)"
  unfolding safe_def by (rule validI) auto

lemma safe_fail_if: "proper e \<Longrightarrow> safe I (fail_if b e)"
  unfolding safe_def by (rule validI) auto

lemma safe_gets: "safe I (gets f)"
  unfolding safe_def by (rule validI) auto

lemma safe_get_state: "safe I get_state"
  unfolding safe_def by (rule validI) auto

lemma safe_modify: "(\<And>s. I s \<Longrightarrow> I (f s)) \<Longrightarrow> (\<And>s. err_ok s \<Longrightarrow> err_ok (f s)) \<Longrightarrow> safe I (modify f)"
  unfolding safe_def by (rule validI) auto

lemma safe_if: "(b \<Longrightarrow> safe I m) \<Longrightarrow> (\<not> b \<Longrightarrow> safe I m') \<Longrightarrow> safe I (if b then m else m')"
  by simp

lemma safe_for_each: "(\<And>x. x \<in> set xs \<Longrightarrow> safe I (f x)) \<Longrightarrow> safe I (for_each xs f)"
  by (induction xs) (simp_all add: safe_ret safe_bind)

lemma safe_seq: "safe I m \<Longrightarrow> safe I m' \<Longrightarrow> safe I (seq m m')"
  by (rule safe_bind)

lemma safe_bind_get: "(\<And>s. safe I (f s)) \<Longrightarrow> safe I (bind get_state f)"
  by (rule safe_bind) (rule safe_get_state)

lemma safe_bind_gets: "(\<And>x. safe I (f x)) \<Longrightarrow> safe I (bind (gets g) f)"
  by (rule safe_bind) (rule safe_gets)

lemma safe_steps_Nil: "safe I (steps [])"
  by (simp add: safe_ret)

lemma safe_steps_Cons: "safe I m \<Longrightarrow> safe I (steps ms) \<Longrightarrow> safe I (steps (m # ms))"
  by (simp add: safe_seq)

lemma safe_case_option: "(v = None \<Longrightarrow> safe I a) \<Longrightarrow> (\<And>x. v = Some x \<Longrightarrow> safe I (f x)) \<Longrightarrow>
    safe I (case v of None \<Rightarrow> a | Some x \<Rightarrow> f x)"
  by (cases v) auto

lemma safe_case_None: "safe I a \<Longrightarrow> safe I (case None of None \<Rightarrow> a | Some x \<Rightarrow> f x)"
  by simp

lemma safe_case_Some: "safe I (f x) \<Longrightarrow> safe I (case Some x of None \<Rightarrow> a | Some x \<Rightarrow> f x)"
  by simp

lemma safe_case_kind:
  assumes "k = KindObject \<Longrightarrow> safe I a" "k = KindArray \<Longrightarrow> safe I b" "k = KindString \<Longrightarrow> safe I c"
    "k = KindNumber \<Longrightarrow> safe I d" "k = KindBoolean \<Longrightarrow> safe I e" "k = KindNull \<Longrightarrow> safe I f"
    "k = KindInvalid \<Longrightarrow> safe I g"
  shows "safe I (case k of KindInvalid \<Rightarrow> g | KindObject \<Rightarrow> a | KindArray \<Rightarrow> b | KindString \<Rightarrow> c
    | KindNumber \<Rightarrow> d | KindBoolean \<Rightarrow> e | KindNull \<Rightarrow> f)"
  using assms by (cases k) auto

lemma safe_let: "(\<And>x. x = y \<Longrightarrow> safe I (f x)) \<Longrightarrow> safe I (Let y f)"
  by simp

lemma safe_case_pair: "safe I (f a b) \<Longrightarrow> safe I (case (a, b) of (a, b) \<Rightarrow> f a b)"
  by simp

lemmas safe_rules = safe_seq safe_bind_get safe_bind_gets safe_steps_Nil safe_steps_Cons
  safe_case_None safe_case_Some safe_case_kind safe_case_pair safe_let safe_if safe_for_each safe_ret

lemma safe_check_err: "safe I check_err"
  unfolding safe_def
  by (rule validI) (auto simp: check_err_def err_ok_def bind_Inr_iff bind_Inl_iff split: option.splits)

lemma safe_shape: "safe I (shape env v x d)"
  by (simp add: shape_def safe_seq safe_check_err safe_fail)

lemma safe_missing: "safe I (missing env v x d)"
  by (simp add: missing_def safe_seq safe_check_err safe_fail)

lemma safe_field: "safe I (field env obj key)"
  by (auto simp: field_def intro!: safe_seq safe_check_err safe_if safe_shape safe_fail safe_ret split: prod.split)

lemma safe_unique: "safe I (unique env obj keys)"
  by (auto simp: unique_def intro!: safe_for_each safe_seq safe_field safe_ret)

lemma safe_kind_field: "safe I (kind_field k n env obj key req)"
  by (auto simp: kind_field_def intro!: safe_bind safe_field safe_case_option safe_if safe_shape safe_missing safe_ret)

lemma safe_one_of_loop: "safe I (one_of_loop env obj all keys found)"
  by (induction keys arbitrary: found) (auto intro!: safe_bind safe_field safe_case_option safe_if safe_fail safe_ret)

subsection \<open>The errors of the primitive operations\<close>

lemma keeps_check_err: "keeps I check_err"
  by (rule keepsI) (auto simp: check_err_def bind_Inr_iff bind_Inl_iff split: option.splits)

lemma keeps_shape: "keeps I (shape env v x d)"
  by (simp add: shape_def keeps_bind keeps_check_err keeps_fail)

lemma err_ok_update [simp]:
  "err_ok (s\<lparr>k_polls := p\<rparr>) \<longleftrightarrow> err_ok s" "err_ok (s\<lparr>k_used := u\<rparr>) \<longleftrightarrow> err_ok s"
  "err_ok (s\<lparr>k_targets := a\<rparr>) \<longleftrightarrow> err_ok s" "err_ok (s\<lparr>k_opaque := a\<rparr>) \<longleftrightarrow> err_ok s"
  "err_ok (s\<lparr>k_rejected := a\<rparr>) \<longleftrightarrow> err_ok s" "err_ok (s\<lparr>k_out := o'\<rparr>) \<longleftrightarrow> err_ok s"
  "err_ok (s\<lparr>k_out_cap := n\<rparr>) \<longleftrightarrow> err_ok s" "err_ok (s\<lparr>k_unsupported := us\<rparr>) \<longleftrightarrow> err_ok s"
  "err_ok (s\<lparr>k_unsupported_cap := n\<rparr>) \<longleftrightarrow> err_ok s" "err_ok (s\<lparr>k_err := Some e\<rparr>) \<longleftrightarrow> proper e"
  by (auto simp: err_ok_def)

lemma budget_retain_Inl: "budget_retain limit used b = Inl e \<Longrightarrow> proper e"
  by (auto simp: budget_retain_def split: if_splits)

lemma primitive_poll: "safe (\<lambda>_. True) (walk_poll env)"
  unfolding safe_def by (rule validI) (auto simp: walk_poll_def split: option.splits)

lemma primitive_retain: "safe (\<lambda>_. True) (retain env n)"
  unfolding safe_def
  by (rule validI) (auto simp: retain_def bind_Inr_iff bind_Inl_iff dest: budget_retain_Inl)

lemma primitive_set_err: "proper e \<Longrightarrow> safe (\<lambda>_. True) (set_err e)"
  unfolding set_err_def by (rule safe_modify) auto

lemma primitive_materialized: "safe (\<lambda>_. True) (reserve_materialized env v)"
  by (simp add: reserve_materialized_def safe_ret primitive_retain)

lemma primitive_capacity: "safe (\<lambda>_. True) (reserve_target_capacity env)"
  unfolding reserve_target_capacity_def by (intro safe_rules primitive_retain safe_modify) auto

lemma primitive_add: "safe (\<lambda>_. True) (add env v scope kind mutable)"
  unfolding add_def
  by (cases "n_kind v = KindString"; cases "n_token v")
    (auto intro!: safe_rules safe_check_err primitive_poll safe_shape primitive_retain safe_fail_if safe_fail
      primitive_materialized primitive_capacity safe_case_option safe_modify)

lemma primitive_opaque: "safe (\<lambda>_. True) (mark_opaque_string env p t)"
  unfolding mark_opaque_string_def by (intro safe_rules safe_fail_if primitive_retain safe_modify) auto

lemma err_ok_mark: "err_ok (mark_unsupported_strings v s) \<longleftrightarrow> err_ok s"
proof (induction v s rule: mark_unsupported_strings.induct)
  case (1 k p tok b obj arr s)
  have f: "err_ok (fold g xs s) \<longleftrightarrow> err_ok s" if "\<And>x s. x \<in> set xs \<Longrightarrow> err_ok (g x s) \<longleftrightarrow> err_ok s"
    for g :: "'x \<Rightarrow> collector \<Rightarrow> collector" and xs s
    using that by (induction xs arbitrary: s) auto
  show ?case using 1 by (cases k) (auto split: option.split intro!: f)
qed

lemma primitive_reserve: "safe (\<lambda>_. True) (reserve_unsupported env v n c)"
  unfolding reserve_unsupported_def Let_def
  by (intro safe_bind_get safe_if safe_ret)
    (auto split: sum.split intro!: safe_seq safe_ret primitive_set_err safe_modify dest: budget_retain_Inl)

lemma primitive_reject: "safe (\<lambda>_. True) (reject env v n d)"
  unfolding reject_def append_unsupported_def
  by (intro safe_bind_get safe_bind primitive_reserve safe_if safe_ret safe_seq safe_modify)
    (auto simp: err_ok_mark)

section \<open>Members\<close>

lemma need_Inr: "need v s = (Inr x, t) \<longleftrightarrow> v = Some x \<and> t = s"
  by (auto simp: need_def split: option.splits)

lemma field_loop_member:
  "field_loop key items found n = (Some v, m) \<Longrightarrow> found = Some v \<or> (\<exists>k. (k, v) \<in> set items)"
  by (induction key items found n rule: field_loop.induct) (auto split: if_splits)

lemma field_member: "field env obj key s = (Inr (Some v), t) \<Longrightarrow> \<exists>k. (k, v) \<in> set (n_object obj)"
  by (auto simp: field_def bind_Inr_iff shape_def split: if_splits prod.splits dest: field_loop_member)

lemma kind_field_member: "kind_field k n env obj key req s = (Inr (Some v), t) \<Longrightarrow>
    n_kind v = k \<and> (\<exists>k. (k, v) \<in> set (n_object obj))"
  by (auto simp: kind_field_def bind_Inr_iff shape_def missing_def split: option.splits if_splits dest: field_member)

lemma kind_field_required: "kind_field k n env obj key True s = (Inr v, t) \<Longrightarrow> v \<noteq> None"
  by (auto simp: kind_field_def bind_Inr_iff shape_def missing_def split: option.splits if_splits)

lemma one_of_loop_member: "one_of_loop env obj all keys found s = (Inr (Some (v, key)), t) \<Longrightarrow>
    found = Some (v, key) \<or> (\<exists>k. (k, v) \<in> set (n_object obj))"
proof (induction keys arbitrary: found s)
  case (Cons a keys)
  obtain y u where f: "field env obj a s = (Inr y, u)"
    using Cons.prems by (auto simp: bind_Inr_iff)
  show ?case
  proof (cases y)
    case None
    with Cons.prems f have "one_of_loop env obj all keys found u = (Inr (Some (v, key)), t)"
      by (simp add: bind_def)
    then show ?thesis by (rule Cons.IH)
  next
    case (Some x)
    with Cons.prems f have "one_of_loop env obj all keys (Some (x, a)) u = (Inr (Some (v, key)), t)"
      by (simp add: bind_def fail_def split: if_splits)
    then show ?thesis using Cons.IH f Some field_member by blast
  qed
qed simp

lemma size_member: "(k, x) \<in> set (n_object v) \<Longrightarrow> size x < size v"
proof (cases v)
  case (Node kd p tok b obj arr)
  assume "(k, x) \<in> set (n_object v)"
  from size_list_estimation' [OF this order_refl, of "size_prod (\<lambda>_. 0) size"] show ?thesis
    by (simp add: Node)
qed

lemma size_item: "x \<in> set (n_array v) \<Longrightarrow> size x < size v"
proof (cases v)
  case (Node kd p tok b obj arr)
  assume "x \<in> set (n_array v)"
  from size_list_estimation' [OF this order_refl, of size] show ?thesis
    by (simp add: Node)
qed

lemma node_descent [case_names 1]:
  assumes "\<And>v. (\<And>k x. (k, x) \<in> set (n_object v) \<Longrightarrow> P x) \<Longrightarrow> (\<And>x. x \<in> set (n_array v) \<Longrightarrow> P x) \<Longrightarrow> P v"
  shows "P v"
  by (induction v rule: measure_induct_rule [of size]) (use assms size_member size_item in blast)

section \<open>The contract\<close>

locale walk_contract =
  fixes env :: walk_env and I :: "collector \<Rightarrow> bool" and N :: "node \<Rightarrow> bool"
  assumes poll_keeps: "keeps I (walk_poll env)"
    and retain_keeps: "keeps I (retain env n)"
    and set_err_keeps: "keeps I (set_err e)"
    and add_keeps: "N v \<Longrightarrow> keeps I (add env v scope kind mutable)"
    and opaque_keeps: "N (Node KindString p (Some t) b obj arr) \<Longrightarrow> keeps I (mark_opaque_string env p t)"
    and reject_keeps: "N v \<Longrightarrow> keeps I (reject env v n d)"
    and N_member: "N v \<Longrightarrow> (k, x) \<in> set (n_object v) \<Longrightarrow> N x"
    and N_item: "N v \<Longrightarrow> x \<in> set (n_array v) \<Longrightarrow> N x"
begin

lemma primitive_rules [walk_rules]:
  "safe I (walk_poll env)" "safe I (retain env n)" "proper e \<Longrightarrow> safe I (set_err e)"
  "N v \<Longrightarrow> safe I (add env v scope kind mutable)" "N v \<Longrightarrow> safe I (reject env v n d)"
  by (simp_all add: safe_from_keeps poll_keeps primitive_poll retain_keeps primitive_retain set_err_keeps
      primitive_set_err add_keeps primitive_add reject_keeps primitive_reject)

lemma opaque_rule: "N (Node KindString p (Some t) b obj arr) \<Longrightarrow> safe I (mark_opaque_string env p t)"
  by (rule safe_from_keeps [OF opaque_keeps primitive_opaque])

lemmas basic_rules [walk_rules] = safe_rules safe_fail safe_fail_if safe_check_err safe_shape safe_missing safe_unique proper_simps

lemma child: "N obj \<Longrightarrow> \<exists>k. (k, v) \<in> set (n_object obj) \<Longrightarrow> N v \<and> size v < size obj"
  using N_member size_member by blast

definition child_option :: "node \<Rightarrow> node option \<Rightarrow> bool" where
  "child_option obj x \<longleftrightarrow> (\<forall>v. x = Some v \<longrightarrow> N v \<and> size v < size obj)"

lemma bind_child:
  assumes "N obj" and "safe I m" and m: "\<And>s v t. m s = (Inr (Some v), t) \<Longrightarrow> \<exists>k. (k, v) \<in> set (n_object obj)"
    and "safe I (f None)" and "\<And>v. N v \<Longrightarrow> size v < size obj \<Longrightarrow> safe I (f (Some v))"
  shows "safe I (bind m f)"
proof (rule safe_bind_post [where Q = "child_option obj", OF assms(2)])
  show "child_option obj x" if "m s = (Inr x, t)" for s x t
    using child [OF assms(1)] m [of s _ t] that unfolding child_option_def by metis
  show "safe I (f x)" if "child_option obj x" for x
    using that assms(4,5) by (cases x) (simp_all add: child_option_def)
qed

lemma bind_field [walk_rules]:
  assumes "N obj" and "safe I (f None)" and "\<And>v. N v \<Longrightarrow> size v < size obj \<Longrightarrow> safe I (f (Some v))"
  shows "safe I (bind (field env obj key) f)"
  by (rule bind_child [OF assms(1) safe_field field_member assms(2,3)])

lemma bind_kind_field:
  assumes "N obj" and "safe I (f None)"
    and "\<And>v. N v \<Longrightarrow> size v < size obj \<Longrightarrow> safe I (f (Some v))"
  shows "safe I (bind (kind_field k n env obj key req) f)"
  by (rule bind_child [OF assms(1) safe_kind_field _ assms(2,3)]) (drule kind_field_member, simp)

lemma bind_required:
  assumes "N obj" and "\<And>v. N v \<Longrightarrow> size v < size obj \<Longrightarrow> safe I (f v)"
  shows "safe I (bind (bind (kind_field k n env obj key True) need) f)"
proof (rule safe_bind_post [where Q = "\<lambda>v. child_option obj (Some v)"])
  have need: "safe I (need v)" if "v \<noteq> None" for v :: "node option"
    using that safe_ret by (auto simp: need_def)
  show "safe I (bind (kind_field k n env obj key True) need)"
    by (rule safe_bind_post [OF safe_kind_field kind_field_required need])
  show "child_option obj (Some v)" if "bind (kind_field k n env obj key True) need s = (Inr v, t)" for s v t
  proof -
    from that obtain u where "kind_field k n env obj key True s = (Inr (Some v), u)"
      by (auto simp: bind_Inr_iff need_Inr)
    from child [OF assms(1)] kind_field_member [OF this] show ?thesis by (simp add: child_option_def)
  qed
  show "safe I (f v)" if "child_option obj (Some v)" for v
    using that assms(2) by (simp add: child_option_def)
qed

lemmas bind_typed_field [walk_rules] =
  bind_kind_field [where k = KindString and n = "''string''", folded string_field_def]
  bind_kind_field [where k = KindObject and n = "''object''", folded object_field_def]
  bind_kind_field [where k = KindArray and n = "''array''", folded array_field_def]
  bind_required [where k = KindString and n = "''string''", folded string_field_def, folded required_string_def]
  bind_required [where k = KindObject and n = "''object''", folded object_field_def, folded required_object_def]
  bind_required [where k = KindArray and n = "''array''", folded array_field_def, folded required_array_def]

lemma bind_one_of [walk_rules]:
  assumes "N obj" and "safe I (f None)" and "\<And>v key. N v \<Longrightarrow> size v < size obj \<Longrightarrow> safe I (f (Some (v, key)))"
  shows "safe I (bind (one_of env obj keys) f)"
  unfolding one_of_def
proof (rule safe_bind_post [where Q = "\<lambda>x. child_option obj (map_option fst x)", OF safe_one_of_loop])
  show "child_option obj (map_option fst x)" if o: "one_of_loop env obj keys keys None s = (Inr x, t)" for s x t
  proof (cases x)
    case (Some p)
    obtain v key where "p = (v, key)" by (rule prod.exhaust)
    with Some o one_of_loop_member [of env obj keys keys None s v key t] child [OF assms(1), of v]
    show ?thesis by (simp add: child_option_def)
  qed (simp add: child_option_def)
  show "safe I (f x)" if "child_option obj (map_option fst x)" for x
    using that assms(2,3) by (cases x) (auto simp: child_option_def)
qed

lemma item_rule [walk_rules]:
  "N v \<Longrightarrow> (\<And>x. N x \<Longrightarrow> size x < size v \<Longrightarrow> safe I (f x)) \<Longrightarrow> safe I (for_each (n_array v) f)"
  by (rule safe_for_each) (blast intro: N_item size_item)

lemma with_field_safe [walk_rules]:
  "N obj \<Longrightarrow> (\<And>v. N v \<Longrightarrow> size v < size obj \<Longrightarrow> safe I (act v)) \<Longrightarrow>
   safe I (with_field k name env obj key required nullable act)"
  unfolding with_field_def
  by (rule bind_field) (auto intro!: safe_if safe_missing safe_shape safe_ret)

lemma optional_field_safe [walk_rules]:
  "N obj \<Longrightarrow> (\<And>v. N v \<Longrightarrow> size v < size obj \<Longrightarrow> safe I (act v)) \<Longrightarrow> safe I (optional_field env obj key act)"
  unfolding optional_field_def by (rule bind_field) (auto intro!: safe_ret safe_if)

lemma bind_when_field [walk_rules]:
  assumes "N obj" and "\<And>v. N v \<Longrightarrow> size v < size obj \<Longrightarrow> safe I (act v)" and "\<And>b. safe I (f b)"
  shows "safe I (bind (when_field env obj key act) f)"
proof (rule safe_bind [OF _ assms(3)])
  show "safe I (when_field env obj key act)"
    unfolding when_field_def
    by (rule bind_field [OF assms(1)]) (auto intro!: safe_ret safe_seq assms(2))
qed

lemma check_kind_safe [walk_rules]: "N obj \<Longrightarrow> safe I (check_kind env obj key kinds expected detail)"
  unfolding check_kind_def by (rule bind_field) (auto intro!: safe_ret safe_if safe_shape)

lemma member_rule [walk_rules]:
  "N v \<Longrightarrow> (\<And>x. N (snd x) \<Longrightarrow> size (snd x) < size v \<Longrightarrow> safe I (f x)) \<Longrightarrow> safe I (for_each (n_object v) f)"
  by (rule safe_for_each) (metis N_member size_member prod.collapse)

lemma each_rules [walk_rules]:
  "N v \<Longrightarrow> (\<And>x. N x \<Longrightarrow> size x < size v \<Longrightarrow> safe I (act x)) \<Longrightarrow> safe I (each_object env v d act)"
  "N v \<Longrightarrow> (\<And>x. N x \<Longrightarrow> size x < size v \<Longrightarrow> safe I (act x)) \<Longrightarrow> safe I (each_string env v d act)"
  unfolding each_object_def each_string_def unsupported_def
  by (rule item_rule, assumption, rule safe_if, erule primitive_rules(5), simp)+

lemma mark_opaque_safe [walk_rules]: "N v \<Longrightarrow> safe I (mark_opaque env v)"
proof (induction v rule: node_descent)
  case (1 v)
  then show ?case
    by (cases v) (fastforce intro!: walk_rules opaque_rule intro: N_member N_item split: option.split)
qed

lemma walk_string_values_safe [walk_rules]: "N v \<Longrightarrow> safe I (walk_string_values env v scope kind)"
proof (induction v rule: node_descent)
  case (1 v)
  then show ?case
    by (cases v) (fastforce intro!: walk_rules intro: N_member N_item)
qed

lemma unsupported_safe [walk_rules]: "N v \<Longrightarrow> safe I (unsupported env v d)"
  unfolding unsupported_def by (intro walk_rules)

lemma unsupported_value_safe [walk_rules]: "N v \<Longrightarrow> safe I (unsupported_value env v pre d)"
  unfolding unsupported_value_def by (intro walk_rules)

lemma ensure_string_disposition_safe [walk_rules]: "N v \<Longrightarrow> safe I (ensure_string_disposition env v)"
proof (induction v rule: node_descent)
  case (1 v)
  then show ?case
    by (cases v) (fastforce intro!: walk_rules intro: N_member N_item)
qed

lemma unique_object_keys_safe [walk_rules]: "safe I (unique_object_keys env v)"
  unfolding unique_object_keys_def by (intro walk_rules safe_case_option safe_fail)

lemma string_field_ops [walk_rules]:
  "N v \<Longrightarrow> safe I (mark_opaque_string_field env v key required nullable)"
  "N v \<Longrightarrow> safe I (add_string_field env v key required nullable scope kind)"
  "N v \<Longrightarrow> safe I (walk_string_object_field env v key required nullable scope)"
  "N v \<Longrightarrow> safe I (mark_opaque_string_array_field env v key required nullable)"
  "N v \<Longrightarrow> safe I (mark_fields env v keys)"
  unfolding mark_opaque_string_field_def add_string_field_def walk_string_object_field_def
    mark_opaque_string_array_field_def mark_fields_def
  by (intro walk_rules; assumption)+

lemma add_required_safe [walk_rules]: "N v \<Longrightarrow> safe I (add_required env v key scope kind mutable)"
  unfolding add_required_def by (intro walk_rules)

lemma with_type_safe [walk_rules]: "N v \<Longrightarrow> (\<And>t. safe I (act t)) \<Longrightarrow> safe I (with_type env v act)"
  unfolding with_type_def by (intro walk_rules)

lemma mark_optional_strings_safe [walk_rules]: "N v \<Longrightarrow> safe I (mark_optional_strings env v keys)"
  unfolding mark_optional_strings_def by (intro walk_rules)

lemma content_ops [walk_rules]:
  "N v \<Longrightarrow> safe I (walk_common_opaque_content_fields env v keys)"
  "N v \<Longrightarrow> safe I (walk_common_cache_breakpoint env v)"
  "N v \<Longrightarrow> safe I (walk_anthropic_cache_control env v)"
  unfolding walk_common_opaque_content_fields_def walk_common_cache_breakpoint_def walk_anthropic_cache_control_def
  by (intro walk_rules safe_case_option; assumption)+

lemma walk_typed_text_block_safe [walk_rules]: "N v \<Longrightarrow> safe I (walk_typed_text_block env v scope)"
  unfolding walk_typed_text_block_def by (intro walk_rules safe_case_option; assumption)

lemma walk_typed_text_content_safe [walk_rules]: "N v \<Longrightarrow> safe I (walk_typed_text_content env v scope)"
  unfolding walk_typed_text_content_def by (intro walk_rules; assumption)

lemma validate_root_controls_safe [walk_rules]: "N v \<Longrightarrow> safe I (validate_root_controls env v)"
  unfolding validate_root_controls_def by (intro walk_rules; assumption)

end

end
