(* ===== verification/Walk_Invariant.thy ===== *)
theory Walk_Invariant
  imports Walk_Contract
begin

text \<open>
  The invariant of the collector and the interpretations of \<open>walk_contract\<close>: every string is
  disposed of at most once, the targets are tokens the document handed out, a rejected string is
  always reported, and the budget is kept. Growth: what is a target, opaque or rejected stays so.
\<close>

section \<open>Nodes of the tree\<close>

abbreviation start_of :: "tree_string \<Rightarrow> nat" where
  "start_of t \<equiv> Start (ts_Span t)"

definition node_starts :: "node \<Rightarrow> nat set" where
  "node_starts v = start_of ` set (node_strings v)"

definition doc_starts :: "document \<Rightarrow> nat set" where
  "doc_starts d = (\<lambda>t. Start (tok_span t)) ` set (doc_strings d)"

definition tree_node :: "walk_env \<Rightarrow> node \<Rightarrow> bool" where
  "tree_node env v \<longleftrightarrow> node_ok (length (we_nodes env)) v \<and> node_starts v \<subseteq> doc_starts (we_document env)"

lemma node_starts_simps:
  "node_starts (Node k p tok b obj arr) =
     (case tok of None \<Rightarrow> {} | Some t \<Rightarrow> {start_of t}) \<union> (\<Union>m \<in> set obj. node_starts (snd m)) \<union>
     (\<Union>x \<in> set arr. node_starts x)"
  by (auto simp: node_starts_def split: option.split)

lemma tree_node_member: "tree_node env v \<Longrightarrow> (k, x) \<in> set (n_object v) \<Longrightarrow> tree_node env x"
  by (cases v) (fastforce simp: tree_node_def node_starts_simps list_all_iff)

lemma tree_node_item: "tree_node env v \<Longrightarrow> x \<in> set (n_array v) \<Longrightarrow> tree_node env x"
  by (cases v) (fastforce simp: tree_node_def node_starts_simps list_all_iff)

lemma doc_range_starts: "start_of ` set (doc_range d 0 (length (doc_strings d))) = doc_starts d"
proof -
  have "doc_starts d = (\<lambda>t. Start (tok_span t)) ` (!) (doc_strings d) ` {0..<length (doc_strings d)}"
    by (simp add: doc_starts_def nth_image)
  then show ?thesis by (simp add: doc_range_def image_image doc_string_def)
qed

lemma tree_node_root: "tree_of (we_document env) (we_nodes env) root \<Longrightarrow> tree_node env root"
  by (simp add: tree_of_def tree_node_def node_starts_def doc_range_starts)

section \<open>Marking unsupported strings\<close>

lemma undisposed_iff: "undisposed s x \<longleftrightarrow> x \<notin> disposed s"
  by (auto simp: undisposed_def disposed_def)

lemma reject_set_disposed: "disposed (s\<lparr>k_rejected := A\<rparr>) = k_targets s \<union> k_opaque s \<union> A"
  by (simp add: disposed_def)

lemma fold_mark:
  assumes "\<And>x s. x \<in> set xs \<Longrightarrow> g x s = s\<lparr>k_rejected := k_rejected s \<union> (S x - disposed s)\<rparr>"
  shows "fold g xs s = s\<lparr>k_rejected := k_rejected s \<union> ((\<Union>x \<in> set xs. S x) - disposed s)\<rparr>"
  using assms
proof (induction xs arbitrary: s)
  case (Cons x xs)
  let ?s = "s\<lparr>k_rejected := k_rejected s \<union> (S x - disposed s)\<rparr>"
  have IH: "fold g xs ?s = ?s\<lparr>k_rejected := k_rejected ?s \<union> ((\<Union>x \<in> set xs. S x) - disposed ?s)\<rparr>"
    by (rule Cons.IH) (rule Cons.prems, simp)
  have eq: "k_rejected ?s \<union> ((\<Union>x \<in> set xs. S x) - disposed ?s) =
      k_rejected s \<union> ((\<Union>x \<in> set (x # xs). S x) - disposed s)"
    by (auto simp: disposed_def)
  have "fold g (x # xs) s = fold g xs ?s" using Cons.prems [of x s] by simp
  also have "\<dots> = ?s\<lparr>k_rejected := k_rejected s \<union> ((\<Union>x \<in> set (x # xs). S x) - disposed s)\<rparr>"
    by (simp only: IH eq)
  finally show ?case by simp
qed simp

lemma mark_unsupported_strings_eq: "node_ok m v \<Longrightarrow>
    mark_unsupported_strings v s = s\<lparr>k_rejected := k_rejected s \<union> (node_starts v - disposed s)\<rparr>"
proof (induction v arbitrary: s rule: node_descent)
  case (1 v)
  obtain k p tok b obj arr where v: "v = Node k p tok b obj arr" by (cases v)
  have o: "mark_unsupported_strings (snd x) s = s\<lparr>k_rejected := k_rejected s \<union> (node_starts (snd x) - disposed s)\<rparr>"
    if "x \<in> set obj" for x s
    using 1(1) [of "fst x" "snd x"] 1(3) that by (simp add: v list_all_iff)
  have a: "mark_unsupported_strings x s = s\<lparr>k_rejected := k_rejected s \<union> (node_starts x - disposed s)\<rparr>"
    if "x \<in> set arr" for x s
    using 1(2) [of x] 1(3) that by (simp add: v list_all_iff)
  show ?case
    using 1(3) fold_mark [of obj "\<lambda>m. mark_unsupported_strings (snd m)" "\<lambda>m. node_starts (snd m)", OF o]
      fold_mark [of arr mark_unsupported_strings node_starts, OF a]
    by (cases k) (auto simp: v node_starts_simps undisposed_iff insert_Diff_if)
qed

lemma count_undisposed_0:
  "node_ok m v \<Longrightarrow> count_undisposed s v = 0 \<longleftrightarrow> node_starts v \<subseteq> disposed s"
proof (induction v rule: node_descent)
  case (1 v)
  obtain k p tok b obj arr where v: "v = Node k p tok b obj arr" by (cases v)
  have o: "count_undisposed s (snd x) = 0 \<longleftrightarrow> node_starts (snd x) \<subseteq> disposed s" if "x \<in> set obj" for x
    using 1(1) [of "fst x" "snd x"] 1(3) that by (simp add: v list_all_iff)
  have a: "count_undisposed s x = 0 \<longleftrightarrow> node_starts x \<subseteq> disposed s" if "x \<in> set arr" for x
    using 1(2) [of x] 1(3) that by (simp add: v list_all_iff)
  show ?case
    using 1(3) o a by (cases k) (auto simp: v node_starts_simps undisposed_iff split: if_splits)
qed

section \<open>The invariant\<close>

definition handed_out :: "document \<Rightarrow> target \<Rightarrow> bool" where
  "handed_out d t \<longleftrightarrow> (\<exists>i < length (doc_strings d). StringTokenAt (Some d) (int i) = Some (tg_Token t)) \<and>
     tg_Path t = tok_path (tg_Token t) \<and> (is_tool_scope (tg_Scope t) \<longrightarrow> tg_Mutable t \<noteq> MutabilityDirect)"

definition target_start :: "target \<Rightarrow> nat" where
  "target_start t = Start (tok_span (tg_Token t))"

definition collector_ok :: "walk_env \<Rightarrow> collector \<Rightarrow> bool" where
  "collector_ok env s \<longleftrightarrow>
     k_targets s \<inter> k_opaque s = {} \<and> k_targets s \<inter> k_rejected s = {} \<and> k_opaque s \<inter> k_rejected s = {} \<and>
     disposed s \<subseteq> doc_starts (we_document env) \<and>
     distinct (map target_start (k_out s)) \<and> target_start ` set (k_out s) = k_targets s \<and>
     (\<forall>t \<in> set (k_out s). handed_out (we_document env) t) \<and>
     (k_rejected s \<noteq> {} \<longrightarrow> k_unsupported s \<noteq> []) \<and>
     length (k_out s) \<le> k_out_cap s \<and> length (k_unsupported s) \<le> k_unsupported_cap s \<and>
     0 \<le> k_used s \<and> k_used s \<le> we_limit env"

lemma collector_ok_update:
  assumes "collector_ok env s" "0 \<le> u" "u \<le> we_limit env" "k_out_cap s \<le> c" "k_unsupported_cap s \<le> d"
  shows "collector_ok env (s\<lparr>k_used := u, k_out_cap := c, k_unsupported_cap := d\<rparr>)"
  using assms by (auto simp: collector_ok_def disposed_def)

lemma new_collector_ok: "0 \<le> used \<Longrightarrow> used \<le> we_limit env \<Longrightarrow> collector_ok env (new_collector used polls)"
  by (simp add: collector_ok_def new_collector_def disposed_def)

lemma walk_poll_result: "walk_poll env s = (r, t) \<Longrightarrow> t = s\<lparr>k_polls := Suc (k_polls s)\<rparr>"
  by (auto simp: walk_poll_def split: option.splits)

lemma retain_Inr: "retain env b s = (Inr u, t) \<longleftrightarrow>
    0 \<le> b \<and> k_used s + b \<le> we_limit env \<and> t = s\<lparr>k_used := k_used s + b\<rparr>"
  by (auto simp: retain_def bind_Inr_iff budget_retain_Inr)

lemma retain_Inl: "retain env b s = (Inl e, t) \<longleftrightarrow>
    (b < 0 \<or> we_limit env - k_used s < b) \<and> e = Payload StructuralLimit \<and> t = s"
  by (auto simp: retain_def bind_Inl_iff budget_retain_def)

lemma collector_poll: "keeps (collector_ok env) (walk_poll env)"
  by (rule keepsI) (auto simp: collector_ok_def disposed_def dest!: walk_poll_result)

lemma collector_retain: "keeps (collector_ok env) (retain env b)"
  by (rule keepsI) (auto simp: retain_Inr retain_Inl collector_ok_def disposed_def)

lemma collector_set_err: "keeps (collector_ok env) (set_err e)"
  by (rule keepsI) (auto simp: set_err_def collector_ok_def disposed_def)

lemma reserve_target_capacity_Inr: "reserve_target_capacity env s = (Inr u, t) \<longleftrightarrow>
    (if length (k_out s) < k_out_cap s then t = s
     else let cap = next_capacity (k_out_cap s) (length (k_out s) + 1) in
       k_used s + int (cap - k_out_cap s) * target_bytes \<le> we_limit env \<and>
       t = s\<lparr>k_used := k_used s + int (cap - k_out_cap s) * target_bytes, k_out_cap := cap\<rparr>)"
  by (auto simp: reserve_target_capacity_def bind_Inr_iff Let_def retain_Inr target_bytes_def)

lemma collector_reserve: "keeps (collector_ok env) (reserve_target_capacity env)"
proof (rule keepsI)
  fix s u t assume "collector_ok env s" "reserve_target_capacity env s = (Inr u, t)"
  then show "collector_ok env t"
    by (auto simp: reserve_target_capacity_Inr Let_def collector_ok_def disposed_def target_bytes_def
        intro: order_trans split: if_splits)
next
  fix s e t assume "collector_ok env s" "reserve_target_capacity env s = (Inl e, t)"
  then show "collector_ok env t"
    by (auto simp: reserve_target_capacity_def bind_Inl_iff Let_def retain_Inl split: if_splits)
qed

lemma collector_materialize: "keeps (collector_ok env) (reserve_materialized env v)"
  by (auto simp: reserve_materialized_def intro: keeps_ret collector_retain)

section \<open>Targets and opaque strings\<close>

text \<open>\<open>frame s t\<close>: between \<open>s\<close> and \<open>t\<close> nothing was disposed of.\<close>

definition frame :: "collector \<Rightarrow> collector \<Rightarrow> bool" where
  "frame s t \<longleftrightarrow> k_targets t = k_targets s \<and> k_opaque t = k_opaque s \<and> k_rejected t = k_rejected s \<and>
     k_out t = k_out s \<and> k_unsupported t = k_unsupported s"

lemma frame_refl [simp]: "frame s s"
  by (simp add: frame_def)

lemma frame_trans: "frame s t \<Longrightarrow> frame t u \<Longrightarrow> frame s u"
  by (simp add: frame_def)

lemma frame_steps:
  "walk_poll env s = (r, t) \<Longrightarrow> frame s t"
  "retain env b s = (r', t) \<Longrightarrow> frame s t"
  "reserve_target_capacity env s = (r', t) \<Longrightarrow> frame s t"
  "reserve_materialized env v s = (r', t) \<Longrightarrow> frame s t"
  "check_err s = (r', t) \<Longrightarrow> frame s t"
  "shape env v x d s = (r', t) \<Longrightarrow> frame s t"
  by (cases r'; auto simp: frame_def retain_Inr retain_Inl reserve_target_capacity_def reserve_materialized_def
      bind_Inr_iff bind_Inl_iff Let_def check_err_def shape_def dest!: walk_poll_result
      split: if_splits option.splits)+

text \<open>A successful \<open>add\<close> selects its string; \<open>w\<close> is the state just before it is recorded.\<close>

lemma add_Inr:
  assumes "add env v scope kind mutable s = (Inr u, t)"
  obtains tok token key_context w where "n_token v = Some tok" "n_kind v = KindString" "frame s w"
    "start_of tok \<notin> disposed s" "length (k_out s) < k_out_cap w"
    "StringTokenAt (Some (we_document env)) (int (ts_ordinal tok)) = Some token"
    "tok_span token = ts_Span tok" "tok_value token = ts_Value tok"
    "\<forall>I. keeps I (walk_poll env) \<longrightarrow> (\<forall>b. keeps I (retain env b)) \<longrightarrow> keeps I (reserve_target_capacity env) \<longrightarrow>
       I s \<longrightarrow> I w"
    "t = w\<lparr>k_targets := insert (start_of tok) (k_targets w),
           k_out := k_out w @ [make_target token key_context scope kind mutable]\<rparr>"
proof -
  have k: "n_kind v = KindString" "n_token v \<noteq> None"
    using assms by (auto simp: add_def bind_Inr_iff shape_def split: prod.splits bool.splits option.splits)
  then obtain tok where tok: "n_token v = Some tok" by auto
  obtain s1 s2 where 1: "check_err s = (Inr (), s1)" "walk_poll env s1 = (Inr (), s2)"
    "start_of tok \<notin> k_targets s2" "start_of tok \<notin> k_opaque s2" "start_of tok \<notin> k_rejected s2"
    using assms k tok by (auto simp: add_def bind_Inr_iff Let_def)
  obtain s3 s4 s5 s6 token w key_context where 2: "retain env index_entry_bytes s2 = (Inr (), s3)"
    "reserve_target_capacity env s3 = (Inr (), s4)" "reserve_materialized env v s4 = (Inr (), s5)"
    "reserve_materialized env v s5 = (Inr (), s6)"
    "StringTokenAt (Some (we_document env)) (int (ts_ordinal tok)) = Some token"
    "tok_value token = ts_Value tok" "tok_span token = ts_Span tok"
    "retain env field_context_bytes s6 = (Inr (), w)"
    "t = w\<lparr>k_targets := insert (start_of tok) (k_targets w),
           k_out := k_out w @ [make_target token key_context scope kind mutable]\<rparr>"
    using assms k tok 1 by (auto simp: add_def bind_Inr_iff Let_def split: option.splits)
  have fr: "frame s s2" "frame s2 s4" "frame s4 w" "frame s w"
    using frame_steps(5) [OF 1(1)] frame_steps(1) [OF 1(2)] frame_steps(2) [OF 2(1)] frame_steps(3) [OF 2(2)]
      frame_steps(4) [OF 2(3)] frame_steps(4) [OF 2(4)] frame_steps(2) [OF 2(8)]
    by (simp_all add: frame_def)
  have cap: "length (k_out s4) < k_out_cap s4"
    using 2(2) by (auto simp: reserve_target_capacity_Inr Let_def Suc_le_eq [symmetric] split: if_splits)
  moreover have "k_out_cap w = k_out_cap s4"
    using 2 by (auto simp: reserve_materialized_def retain_Inr split: if_splits)
  ultimately have len: "length (k_out s) < k_out_cap w" using fr by (simp add: frame_def)
  have keep: "I w" if I: "keeps I (walk_poll env)" "\<And>b. keeps I (retain env b)"
    "keeps I (reserve_target_capacity env)" "I s" for I
  proof -
    have "keeps I (reserve_materialized env v)"
      using I(2) by (auto simp: reserve_materialized_def intro: keeps_ret)
    note m = this
    note D = keepsD [where I = I]
    have "I s2" by (rule D [OF I(1) _ 1(2)]) (rule D [OF keeps_check_err I(4) 1(1)])
    then have "I s3" by (rule D [OF I(2) _ 2(1)])
    then have "I s4" by (rule D [OF I(3) _ 2(2)])
    then have "I s5" by (rule D [OF m _ 2(3)])
    then have "I s6" by (rule D [OF m _ 2(4)])
    then show ?thesis by (rule D [OF I(2) _ 2(8)])
  qed
  have new: "start_of tok \<notin> disposed s" using 1 fr(1) by (simp add: disposed_def frame_def)
  have "\<forall>I. keeps I (walk_poll env) \<longrightarrow> (\<forall>b. keeps I (retain env b)) \<longrightarrow> keeps I (reserve_target_capacity env) \<longrightarrow>
      I s \<longrightarrow> I w"
    using keep by blast
  then show thesis by (rule that [OF tok k(1) fr(4) new len 2(5,7,6) _ 2(9)])
qed

lemma token_start_in_doc: "StringTokenAt (Some d) (int i) = Some token \<Longrightarrow>
    i < length (doc_strings d) \<and> Start (tok_span token) \<in> doc_starts d"
  by (auto simp: StringTokenAt_def in_strings_def clone_token_def doc_starts_def split: if_splits)

text \<open>On its error path \<open>add\<close> keeps whatever its steps keep.\<close>

definition err_keeps :: "(collector \<Rightarrow> bool) \<Rightarrow> 'a walker \<Rightarrow> bool" where
  "err_keeps I m \<longleftrightarrow> (\<forall>s e t. I s \<longrightarrow> m s = (Inl e, t) \<longrightarrow> I t)"

lemma err_keeps_bind: "keeps I m \<Longrightarrow> (\<And>x. err_keeps I (f x)) \<Longrightarrow> err_keeps I (bind m f)"
  by (fastforce simp: err_keeps_def bind_Inl_iff dest: keepsD)

lemma err_keeps_basic:
  "err_keeps I (modify f)" "err_keeps I (fail e)" "err_keeps I (ret x)" "err_keeps I (shape env v x d)"
  using keepsD [OF keeps_shape] by (auto simp: err_keeps_def)

lemma err_keeps_if: "err_keeps I m \<Longrightarrow> err_keeps I m' \<Longrightarrow> err_keeps I (if b then m else m')"
  by simp

lemma err_keeps_option: "err_keeps I a \<Longrightarrow> (\<And>x. err_keeps I (f x)) \<Longrightarrow>
    err_keeps I (case v of None \<Rightarrow> a | Some x \<Rightarrow> f x)"
  by (cases v) auto

lemma add_err:
  assumes "keeps I (walk_poll env)" "\<And>b. keeps I (retain env b)" "keeps I (reserve_target_capacity env)"
  shows "err_keeps I (add env v scope kind mutable)"
proof -
  have "keeps I (reserve_materialized env v)"
    using assms(2) by (auto simp: reserve_materialized_def intro: keeps_ret)
  then show ?thesis
    unfolding add_def Let_def
    by (cases "n_kind v = KindString"; cases "n_token v")
      (auto intro!: err_keeps_bind err_keeps_basic err_keeps_option assms keeps_check_err keeps_get_state keeps_fail_if)
qed

lemma collector_add: "keeps (collector_ok env) (add env v scope kind mutable)"
proof (rule keepsI)
  fix s u t
  assume ok: "collector_ok env s" and a: "add env v scope kind mutable s = (Inr u, t)"
  from a show "collector_ok env t"
  proof (rule add_Inr)
    fix tok token key_context w
    assume fr: "frame s w" and new: "start_of tok \<notin> disposed s" and len: "length (k_out s) < k_out_cap w"
      and st: "StringTokenAt (Some (we_document env)) (int (ts_ordinal tok)) = Some token"
        "tok_span token = ts_Span tok"
      and keep: "\<forall>I. keeps I (walk_poll env) \<longrightarrow> (\<forall>b. keeps I (retain env b)) \<longrightarrow>
        keeps I (reserve_target_capacity env) \<longrightarrow> I s \<longrightarrow> I w"
      and t: "t = w\<lparr>k_targets := insert (start_of tok) (k_targets w),
           k_out := k_out w @ [make_target token key_context scope kind mutable]\<rparr>"
    have w: "collector_ok env w"
      using keep collector_poll collector_retain collector_reserve ok by blast
    have "handed_out (we_document env) (make_target token key_context scope kind mutable)"
      using st token_start_in_doc by (auto simp: handed_out_def make_target_def)
    moreover have "target_start (make_target token key_context scope kind mutable) = start_of tok"
      by (simp add: target_start_def make_target_def st)
    moreover have "start_of tok \<in> doc_starts (we_document env)"
      using token_start_in_doc [OF st(1)] st(2) by simp
    ultimately show "collector_ok env t"
      using w fr new len by (auto simp: collector_ok_def t disposed_def frame_def)
  qed
next
  fix s e t
  assume "collector_ok env s" "add env v scope kind mutable s = (Inl e, t)"
  then show "collector_ok env t"
    using add_err [OF collector_poll collector_retain collector_reserve] by (auto simp: err_keeps_def)
qed

lemma mark_opaque_string_Inr: "mark_opaque_string env p tok s = (Inr u, t) \<longleftrightarrow>
    start_of tok \<notin> k_targets s \<and> start_of tok \<notin> k_rejected s \<and>
    (if start_of tok \<in> k_opaque s then t = s
     else k_used s + index_entry_bytes \<le> we_limit env \<and>
       t = s\<lparr>k_used := k_used s + index_entry_bytes, k_opaque := insert (start_of tok) (k_opaque s)\<rparr>)"
  by (auto simp: mark_opaque_string_def Let_def bind_Inr_iff retain_Inr index_entry_bytes_def)

lemma mark_opaque_string_Inl: "mark_opaque_string env p tok s = (Inl e, t) \<Longrightarrow> t = s"
  by (auto simp: mark_opaque_string_def Let_def bind_Inl_iff retain_Inl retain_Inr split: if_splits)

lemma collector_opaque:
  assumes "tree_node env (Node KindString p (Some tok) b obj arr)"
  shows "keeps (collector_ok env) (mark_opaque_string env p tok)"
proof (rule keepsI)
  fix s u t assume "collector_ok env s" "mark_opaque_string env p tok s = (Inr u, t)"
  then show "collector_ok env t"
    using assms by (auto simp: mark_opaque_string_Inr collector_ok_def disposed_def tree_node_def node_starts_simps
        index_entry_bytes_def split: if_splits)
qed (auto dest: mark_opaque_string_Inl)

section \<open>Unsupported shapes\<close>

lemma reserve_unsupported_eq:
  assumes "k_err s = None"
    and "cap = (if length (k_unsupported s) = k_unsupported_cap s
      then next_capacity (k_unsupported_cap s) (length (k_unsupported s) + 1) else k_unsupported_cap s)"
    and "charge = n + path_bytes env (n_path v) + int c * index_entry_bytes +
      int (cap - k_unsupported_cap s) * unsupported_bytes"
  shows "reserve_unsupported env v n c s =
    (case budget_retain (we_limit env) (k_used s) charge of
       Inl e \<Rightarrow> (Inr False, s\<lparr>k_err := Some e\<rparr>)
     | Inr used \<Rightarrow> (Inr True, s\<lparr>k_used := used, k_unsupported_cap := cap\<rparr>))"
  unfolding assms(3) reserve_unsupported_def
  by (cases "budget_retain (we_limit env) (k_used s) (n + path_bytes env (n_path v) + int c * index_entry_bytes +
      int (cap - k_unsupported_cap s) * unsupported_bytes)")
    (simp_all only: bind_def get_state_def Let_def assms(1) assms(2) [symmetric] set_err_def modify_def ret_def
      prod.case sum.case HOL.simp_thms if_False)

lemma reject_cases:
  assumes "reject env v n d s = (r, t)"
  obtains (stopped) "r = Inr ()" "t = s\<lparr>k_err := k_err t\<rparr>" "k_err t \<noteq> None"
  | (marked) used cap where "r = Inr ()" "k_used s \<le> used" "used \<le> we_limit env"
      "k_unsupported_cap s \<le> cap" "length (k_unsupported s) \<le> k_unsupported_cap s \<longrightarrow> length (k_unsupported s) < cap" "k_err s = None"
      "t = mark_unsupported_strings v (s\<lparr>k_used := used, k_unsupported_cap := cap\<rparr>)
        \<lparr>k_unsupported := k_unsupported (mark_unsupported_strings v (s\<lparr>k_used := used, k_unsupported_cap := cap\<rparr>)) @
          [\<lparr>us_Protocol = we_protocol env, us_Path = path_at env v, us_Detail = d\<rparr>]\<rparr>"
proof (cases "k_err s")
  case (Some e)
  then show thesis
    using assms by (intro stopped) (auto simp: reject_def reserve_unsupported_def bind_def get_state_def ret_def)
next
  case None
  define cap where "cap = (if length (k_unsupported s) = k_unsupported_cap s
      then next_capacity (k_unsupported_cap s) (length (k_unsupported s) + 1) else k_unsupported_cap s)"
  define charge where "charge = n + path_bytes env (n_path v) + int (count_undisposed s v) * index_entry_bytes +
      int (cap - k_unsupported_cap s) * unsupported_bytes"
  note eq = reserve_unsupported_eq [OF None cap_def charge_def]
  have cap: "k_unsupported_cap s \<le> cap"
    "length (k_unsupported s) \<le> k_unsupported_cap s \<longrightarrow> length (k_unsupported s) < cap"
    using next_capacity_ge [of "Suc (k_unsupported_cap s)" "k_unsupported_cap s", THEN Suc_le_lessD]
    by (auto simp: cap_def)
  show thesis
  proof (cases "budget_retain (we_limit env) (k_used s) charge")
    case (Inl e)
    then have "r = Inr ()" "t = s\<lparr>k_err := Some e\<rparr>"
      using assms by (auto simp: reject_def bind_def get_state_def eq ret_def)
    then show thesis by (intro stopped) auto
  next
    case (Inr used)
    then have "r = Inr ()" "t = mark_unsupported_strings v (s\<lparr>k_used := used, k_unsupported_cap := cap\<rparr>)
        \<lparr>k_unsupported := k_unsupported (mark_unsupported_strings v (s\<lparr>k_used := used, k_unsupported_cap := cap\<rparr>)) @
          [\<lparr>us_Protocol = we_protocol env, us_Path = path_at env v, us_Detail = d\<rparr>]\<rparr>"
      using assms by (auto simp: reject_def bind_def get_state_def eq ret_def modify_def append_unsupported_def)
    moreover have "k_used s \<le> used" "used \<le> we_limit env"
      using Inr by (auto simp: budget_retain_Inr)
    ultimately show thesis using cap None by (intro marked [of used cap]) auto
  qed
qed

lemma reject_frame:
  assumes "reject env v n d s = (r, t)" "node_ok m v"
  shows "r = Inr () \<and> k_targets t = k_targets s \<and> k_opaque t = k_opaque s \<and> k_out t = k_out s \<and>
     k_out_cap t = k_out_cap s \<and>
     (k_err t \<noteq> None \<and> k_rejected t = k_rejected s \<and> k_used t = k_used s \<and>
        k_unsupported t = k_unsupported s \<and> k_unsupported_cap t = k_unsupported_cap s \<or>
      k_err t = None \<and> k_rejected t = k_rejected s \<union> (node_starts v - disposed s) \<and>
        k_used s \<le> k_used t \<and> k_used t \<le> we_limit env \<and> k_unsupported_cap s \<le> k_unsupported_cap t \<and>
        (length (k_unsupported s) \<le> k_unsupported_cap s \<longrightarrow> length (k_unsupported t) \<le> k_unsupported_cap t) \<and>
        k_unsupported t = k_unsupported s @ [\<lparr>us_Protocol = we_protocol env, us_Path = path_at env v, us_Detail = d\<rparr>])"
  using assms(1)
proof (cases rule: reject_cases)
  case stopped
  from stopped(2) have "k_targets t = k_targets s" "k_opaque t = k_opaque s" "k_out t = k_out s"
    "k_out_cap t = k_out_cap s" "k_rejected t = k_rejected s" "k_used t = k_used s"
    "k_unsupported t = k_unsupported s" "k_unsupported_cap t = k_unsupported_cap s"
    by (metis collector.select_convs collector.surjective collector.update_convs(3))+
  with stopped show ?thesis by simp
next
  case (marked used cap)
  then show ?thesis using assms(2) by (simp add: mark_unsupported_strings_eq disposed_def Suc_le_eq)
qed

lemma collector_reject:
  assumes "tree_node env v"
  shows "keeps (collector_ok env) (reject env v n d)"
proof -
  have "collector_ok env t" if "collector_ok env s" "reject env v n d s = (r, t)" for s t r
  proof -
    have nv: "node_ok (length (we_nodes env)) v" "node_starts v \<subseteq> doc_starts (we_document env)"
      using assms by (auto simp: tree_node_def)
    from reject_frame [OF that(2) nv(1)] that(1) show ?thesis
      using nv(2) by (elim conjE disjE) (auto simp: collector_ok_def disposed_def)
  qed
  then show ?thesis by (auto intro: keepsI)
qed

interpretation collected: walk_contract env "collector_ok env" "tree_node env" for env
  by unfold_locales
    (rule collector_poll collector_retain collector_set_err collector_add collector_opaque collector_reject
      tree_node_member tree_node_item, assumption?, assumption?)+

section \<open>Growth\<close>

text \<open>What is in one of the three sets stays there.\<close>

definition grown :: "collector \<Rightarrow> collector \<Rightarrow> bool" where
  "grown s t \<longleftrightarrow> k_targets s \<subseteq> k_targets t \<and> k_opaque s \<subseteq> k_opaque t \<and> k_rejected s \<subseteq> k_rejected t \<and>
     (\<exists>xs. k_out t = k_out s @ xs) \<and> (\<exists>ys. k_unsupported t = k_unsupported s @ ys)"

lemma grown_refl: "grown s s"
  by (auto simp: grown_def)

lemma grown_trans: "grown s t \<Longrightarrow> grown t u \<Longrightarrow> grown s u"
  by (auto simp: grown_def)

lemma frame_grown: "frame s t \<Longrightarrow> grown s t"
  by (auto simp: frame_def grown_def)

lemma keeps_grownI: "(\<And>s r t. m s = (r, t) \<Longrightarrow> grown s t) \<Longrightarrow> keeps (grown a) m"
  by (rule keepsI) (blast intro: grown_trans)+

lemma add_grown: "add env v scope kind mutable s = (r, t) \<Longrightarrow> grown s t"
proof (cases r)
  case (Inr u)
  assume "add env v scope kind mutable s = (r, t)"
  with Inr have "add env v scope kind mutable s = (Inr u, t)" by simp
  then show "grown s t" by (rule add_Inr) (auto simp: grown_def frame_def)
next
  case (Inl e)
  assume a: "add env v scope kind mutable s = (r, t)"
  have "err_keeps (grown s) (add env v scope kind mutable)"
    by (rule add_err) (blast intro: keeps_grownI frame_grown dest: frame_steps)+
  then show "grown s t" using a Inl grown_refl by (auto simp: err_keeps_def)
qed

interpretation growth: walk_contract env "grown a" "node_ok m" for env a m
proof unfold_locales
  show "keeps (grown a) (mark_opaque_string env p t)" for p t
    by (rule keeps_grownI) (case_tac r;
      auto simp: mark_opaque_string_Inr grown_def dest: mark_opaque_string_Inl split: if_splits)
  show "keeps (grown a) (reject env v n d)" if "node_ok m v" for v n d
    by (rule keeps_grownI) (use that in \<open>auto dest!: reject_frame simp: grown_def\<close>)
  show "keeps (grown a) (set_err e)" for e
    by (rule keeps_grownI) (auto simp: set_err_def modify_def grown_def)
  show "node_ok m x" if "node_ok m v" "(k, x) \<in> set (n_object v)" for v k x
    using that by (cases v) (force simp: list_all_iff)
  show "node_ok m x" if "node_ok m v" "x \<in> set (n_array v)" for v x
    using that by (cases v) (auto simp: list_all_iff)
  show "keeps (grown a) (walk_poll env)"
    by (rule keeps_grownI) (rule frame_grown, erule frame_steps)
  show "keeps (grown a) (retain env b)" for b
    by (rule keeps_grownI) (rule frame_grown, erule frame_steps)
  show "keeps (grown a) (add env v scope kind mutable)" for v scope kind mutable
    by (rule keeps_grownI) (erule add_grown)
qed

end
