(* ===== verification/Walk_Claude.thy ===== *)
theory Walk_Claude
  imports Walk_Invariant
begin

text \<open>
  The walker of the Claude protocol, \<open>walker/claude.go\<close>, one definition per function, and that
  it keeps the contract of the collector.
\<close>

definition claudeRootControlFields :: "string list" where
  "claudeRootControlFields = [
    ''model'', ''max_tokens'', ''inference_geo'', ''temperature'', ''top_k'', ''top_p'', ''container'',
    ''cache_control'', ''metadata'', ''output_config'', ''service_tier'', ''stop_sequences'', ''stream'',
    ''thinking'', ''tool_choice'', ''context_management'', ''mcp_servers'']"

definition walkClaudeCacheControl :: "walk_env \<Rightarrow> node \<Rightarrow> unit walker" where
  "walkClaudeCacheControl env obj =
     optional_field env obj ''cache_control'' (\<lambda>cache_control.
       if n_kind cache_control \<noteq> KindObject then shape env cache_control ''object or null'' ''cache_control''
       else steps [
         unique env cache_control [''type'', ''ttl''],
         mark_opaque_string_field env cache_control ''type'' True False,
         mark_opaque_string_field env cache_control ''ttl'' False True])"

definition walkClaudeToolDefinition :: "walk_env \<Rightarrow> node \<Rightarrow> unit walker" where
  "walkClaudeToolDefinition env tool =
    (if n_kind tool \<noteq> KindObject then unsupported env tool ''tool definition is not an object''
     else seq (unique env tool [''type'', ''name'', ''description'', ''input_schema'', ''cache_control'', ''strict'',
         ''defer_loading''])
       (bind (string_field env tool ''type'' False) (\<lambda>type_node. steps [
         (case type_node of None \<Rightarrow> ret () | Some type_node \<Rightarrow> mark_opaque env type_node),
         mark_opaque_string_field env tool ''name'' True False,
         add_string_field env tool ''description'' False True ScopeSystem TargetKindNaturalText,
         walk_string_object_field env tool ''input_schema'' (type_node = None) False ScopeSystem,
         walkClaudeCacheControl env tool])))"

definition walkClaudeToolDefinitions :: "walk_env \<Rightarrow> node \<Rightarrow> unit walker" where
  "walkClaudeToolDefinitions env root =
     bind (field env root ''tools'') (\<lambda>tools. case tools of
       None \<Rightarrow> ret ()
     | Some tools \<Rightarrow>
         if n_kind tools \<noteq> KindArray then shape env tools ''array'' ''tools''
         else for_each (n_array tools) (walkClaudeToolDefinition env))"

definition walkClaudeCitations :: "walk_env \<Rightarrow> node \<Rightarrow> unit walker" where
  "walkClaudeCitations env obj =
     optional_field env obj ''citations'' (\<lambda>citations.
       case n_kind citations of
         KindObject \<Rightarrow>
           seq (unique env citations [''enabled''])
           (bind (field env citations ''enabled'') (\<lambda>enabled. case enabled of
              None \<Rightarrow> missing env citations ''enabled'' ''boolean''
            | Some enabled \<Rightarrow>
                if n_kind enabled \<noteq> KindBoolean then shape env enabled ''boolean'' ''citations enabled'' else ret ()))
       | KindArray \<Rightarrow>
           if length (n_array citations) \<noteq> 0
           then unsupported env citations ''citation replay metadata is integrity-coupled'' else ret ()
       | _ \<Rightarrow> shape env citations ''object, array, or null'' ''citations'')"

definition walkClaudeSystemBlock :: "walk_env \<Rightarrow> node \<Rightarrow> unit walker" where
  "walkClaudeSystemBlock env block =
    (if n_kind block \<noteq> KindObject then unsupported env block ''system array element is not an object''
     else steps [
       unique env block [''type'', ''text'', ''id'', ''name'', ''signature'', ''cache_control'', ''citations''],
       mark_optional_strings env block [''id'', ''name'', ''signature''],
       walkClaudeCacheControl env block,
       walkClaudeCitations env block,
       bind (string_field env block ''type'' False) (\<lambda>type_node. case type_node of
         None \<Rightarrow> unsupported env block ''system block has no type''
       | Some type_node \<Rightarrow>
           seq (mark_opaque env type_node)
           (if token_value type_node \<noteq> ''text''
            then unsupported_value env block ''unknown system block type '' (token_value type_node)
            else bind (required_string env block ''text'') (\<lambda>t.
              add env t ScopeSystem TargetKindNaturalText MutabilityDirect)))])"

definition walkClaudeSystem :: "walk_env \<Rightarrow> node \<Rightarrow> unit walker" where
  "walkClaudeSystem env system =
    (case n_kind system of
       KindString \<Rightarrow> add env system ScopeSystem TargetKindNaturalText MutabilityDirect
     | KindArray \<Rightarrow> for_each (n_array system) (walkClaudeSystemBlock env)
     | _ \<Rightarrow> shape env system ''string or array'' ''system'')"

definition walkClaudeOpaqueSource :: "walk_env \<Rightarrow> node \<Rightarrow> unit walker" where
  "walkClaudeOpaqueSource env block =
     bind (required_object env block ''source'') (\<lambda>source.
     seq (unique env source [''type'', ''media_type'', ''data'', ''url'', ''file_id''])
     (bind (required_string env source ''type'') (\<lambda>type_node.
      seq (mark_opaque env type_node)
      (let t = token_value type_node in
       if t = ''base64'' then steps [
         mark_opaque_string_field env source ''media_type'' True False,
         mark_opaque_string_field env source ''data'' True False]
       else if t = ''url'' then mark_opaque_string_field env source ''url'' True False
       else if t = ''file'' then mark_opaque_string_field env source ''file_id'' True False
       else unsupported_value env source ''unknown media source type '' t))))"

definition walkClaudeDocument :: "walk_env \<Rightarrow> node \<Rightarrow> scope \<Rightarrow> unit walker" where
  "walkClaudeDocument env block scope =
    (let kind = (if scope = ScopeToolOutput then TargetKindToolOutput else TargetKindNaturalText) in
     steps [
       walkClaudeCacheControl env block,
       walkClaudeCitations env block,
       for_each [''context'', ''title''] (\<lambda>key. optional_field env block key (\<lambda>value.
         if n_kind value \<noteq> KindString then shape env value ''string or null'' key
         else add env value scope kind MutabilityDirect)),
       bind (required_object env block ''source'') (\<lambda>source.
       seq (unique env source [''type'', ''media_type'', ''data'', ''url'', ''file_id'', ''content''])
       (bind (required_string env source ''type'') (\<lambda>type_node.
        seq (mark_opaque env type_node)
        (let t = token_value type_node in
         if t = ''text'' then bind (required_string env source ''data'') (\<lambda>data. add env data scope kind MutabilityDirect)
         else if t = ''content'' then
           bind (required_array env source ''content'') (\<lambda>content.
           for_each (n_array content) (\<lambda>item. walk_typed_text_block env item scope))
         else if t = ''base64'' then steps [
           mark_opaque_string_field env source ''media_type'' True False,
           mark_opaque_string_field env source ''data'' True False]
         else if t = ''url'' then mark_opaque_string_field env source ''url'' True False
         else if t = ''file'' then mark_opaque_string_field env source ''file_id'' True False
         else unsupported_value env source ''unknown document source type '' t))))])"

definition walkClaudeToolResultItem :: "walk_env \<Rightarrow> node \<Rightarrow> unit walker" where
  "walkClaudeToolResultItem env item =
    (if n_kind item \<noteq> KindObject then walk_string_values env item ScopeToolOutput TargetKindJSONValue
     else bind (string_field env item ''type'' False) (\<lambda>type_node. case type_node of
       None \<Rightarrow> walk_string_values env item ScopeToolOutput TargetKindJSONValue
     | Some type_node \<Rightarrow>
         seq (mark_opaque env type_node)
         (let t = token_value type_node in
          if t = ''text'' then steps [
            unique env item [''type'', ''text'', ''cache_control'', ''citations''],
            walkClaudeCacheControl env item,
            walkClaudeCitations env item,
            bind (required_string env item ''text'') (\<lambda>t.
              add env t ScopeToolOutput TargetKindToolOutput MutabilityDirect)]
          else if t = ''image'' then walkClaudeOpaqueSource env item
          else if t = ''document'' then walkClaudeDocument env item ScopeToolOutput
          else if t = ''thinking'' then steps [
            mark_opaque_string_field env item ''thinking'' True False,
            mark_opaque_string_field env item ''signature'' True False]
          else if t = ''redacted_thinking'' then mark_opaque_string_field env item ''data'' True False
          else unsupported_value env item ''unknown tool-result content block type '' t)))"

definition walkClaudeToolResult :: "walk_env \<Rightarrow> node \<Rightarrow> unit walker" where
  "walkClaudeToolResult env value =
    (case n_kind value of
       KindString \<Rightarrow> add env value ScopeToolOutput TargetKindToolOutput MutabilityJSONOrPlain
     | KindArray \<Rightarrow> for_each (n_array value) (walkClaudeToolResultItem env)
     | _ \<Rightarrow> walk_string_values env value ScopeToolOutput TargetKindJSONValue)"

text \<open>The branch of a content block of type \<open>tool_use\<close>.\<close>

definition walkClaudeToolUse :: "walk_env \<Rightarrow> node \<Rightarrow> unit walker" where
  "walkClaudeToolUse env block = steps [
     mark_optional_strings env block [''id'', ''name'', ''toolset_name''],
     walkClaudeCacheControl env block,
     optional_field env block ''caller'' (\<lambda>caller.
       unsupported env caller ''tool-use caller metadata is not admitted''),
     bind (field env block ''input'') (\<lambda>input. case input of
       None \<Rightarrow> missing env block ''input'' ''JSON value''
     | Some input \<Rightarrow> walk_string_values env input ScopeToolInput TargetKindJSONValue)]"

definition walkClaudeContentBlock :: "walk_env \<Rightarrow> node \<Rightarrow> scope \<Rightarrow> unit walker" where
  "walkClaudeContentBlock env block message_scope =
    (if n_kind block \<noteq> KindObject then unsupported env block ''content array element is not an object''
     else seq (unique env block [
         ''type'', ''text'', ''input'', ''content'', ''source'', ''context'', ''title'', ''thinking'', ''data'',
         ''signature'', ''id'', ''name'', ''tool_use_id'', ''toolset_name'', ''cache_control'', ''citations'',
         ''caller'', ''is_error''])
       (bind (string_field env block ''type'' False) (\<lambda>type_node. case type_node of
         None \<Rightarrow> unsupported env block ''content block has no type''
       | Some type_node \<Rightarrow>
           seq (mark_opaque env type_node)
           (let block_type = token_value type_node in
            if block_type = ''text'' then steps [
              mark_optional_strings env block [''id'', ''name'', ''signature''],
              walkClaudeCacheControl env block,
              walkClaudeCitations env block,
              bind (required_string env block ''text'') (\<lambda>t.
                add env t message_scope TargetKindNaturalText MutabilityDirect)]
            else if block_type = ''tool_use'' then walkClaudeToolUse env block
            else if block_type = ''tool_result'' then steps [
              mark_optional_strings env block [''tool_use_id'', ''toolset_name''],
              walkClaudeCacheControl env block,
              bind (field env block ''content'') (\<lambda>content. case content of
                None \<Rightarrow> missing env block ''content'' ''string or array''
              | Some content \<Rightarrow> walkClaudeToolResult env content)]
            else if block_type = ''thinking'' then steps [
              mark_opaque_string_field env block ''thinking'' True False,
              mark_opaque_string_field env block ''signature'' True False]
            else if block_type = ''redacted_thinking'' then mark_opaque_string_field env block ''data'' True False
            else if block_type = ''image'' then steps [
              walkClaudeCacheControl env block,
              walkClaudeOpaqueSource env block]
            else if block_type = ''document'' then walkClaudeDocument env block message_scope
            else unsupported_value env block ''unknown content block type '' block_type))))"

definition walkClaudeMessage :: "walk_env \<Rightarrow> node \<Rightarrow> unit walker" where
  "walkClaudeMessage env message =
    (if n_kind message \<noteq> KindObject then shape env message ''object'' ''messages element''
     else steps [
       unique env message [''role'', ''content'', ''id'', ''name'', ''signature''],
       mark_optional_strings env message [''id'', ''name'', ''signature''],
       bind (required_string env message ''role'') (\<lambda>role_node.
       seq (mark_opaque env role_node)
       (case scope_for_role (token_value role_node) of
          None \<Rightarrow> unsupported_value env role_node ''unknown message role '' (token_value role_node)
        | Some scope \<Rightarrow>
            bind (field env message ''content'') (\<lambda>content. case content of
              None \<Rightarrow> missing env message ''content'' ''string or array''
            | Some content \<Rightarrow>
                (case n_kind content of
                   KindString \<Rightarrow> add env content scope TargetKindNaturalText MutabilityDirect
                 | KindArray \<Rightarrow> for_each (n_array content) (\<lambda>block. walkClaudeContentBlock env block scope)
                 | _ \<Rightarrow> shape env content ''string or array'' ''message content''))))])"

definition walkClaude :: "walk_env \<Rightarrow> node \<Rightarrow> unit walker" where
  "walkClaude env root = steps [
     unique env root [''system'', ''messages'', ''tools''],
     mark_fields env root claudeRootControlFields,
     bind (field env root ''system'') (\<lambda>system. case system of
       None \<Rightarrow> ret () | Some system \<Rightarrow> walkClaudeSystem env system),
     bind (required_array env root ''messages'') (\<lambda>messages.
       for_each (n_array messages) (walkClaudeMessage env)),
     walkClaudeToolDefinitions env root]"

section \<open>The contract\<close>

context walk_contract
begin

lemma claude_parts [walk_rules]:
  "N v \<Longrightarrow> safe I (walkClaudeCacheControl env v)"
  "N v \<Longrightarrow> safe I (walkClaudeCitations env v)"
  "N v \<Longrightarrow> safe I (walkClaudeOpaqueSource env v)"
  unfolding walkClaudeCacheControl_def walkClaudeCitations_def walkClaudeOpaqueSource_def
  by (intro walk_rules; assumption)+

lemma claude_document [walk_rules]: "N v \<Longrightarrow> safe I (walkClaudeDocument env v scope)"
  unfolding walkClaudeDocument_def by (intro walk_rules; assumption)

lemma claude_system [walk_rules]:
  "N v \<Longrightarrow> safe I (walkClaudeSystemBlock env v)" "N v \<Longrightarrow> safe I (walkClaudeSystem env v)"
  subgoal unfolding walkClaudeSystemBlock_def by (intro walk_rules; assumption)
  subgoal unfolding walkClaudeSystem_def walkClaudeSystemBlock_def by (intro walk_rules; assumption)
  done

lemma claude_tool_definitions [walk_rules]: "N v \<Longrightarrow> safe I (walkClaudeToolDefinitions env v)"
  unfolding walkClaudeToolDefinitions_def walkClaudeToolDefinition_def by (intro walk_rules; assumption)

lemma claude_tool_result [walk_rules]: "N v \<Longrightarrow> safe I (walkClaudeToolResult env v)"
  unfolding walkClaudeToolResult_def walkClaudeToolResultItem_def by (intro walk_rules; assumption)

lemma claude_tool_use [walk_rules]: "N v \<Longrightarrow> safe I (walkClaudeToolUse env v)"
  unfolding walkClaudeToolUse_def by (intro walk_rules; assumption)

lemma claude_content_block [walk_rules]: "N v \<Longrightarrow> safe I (walkClaudeContentBlock env v scope)"
  unfolding walkClaudeContentBlock_def by (intro walk_rules; assumption)

lemma claude_message [walk_rules]: "N v \<Longrightarrow> safe I (walkClaudeMessage env v)"
  unfolding walkClaudeMessage_def by (intro walk_rules safe_case_option; assumption)

lemma claude_safe [walk_rules]: "N v \<Longrightarrow> safe I (walkClaude env v)"
  unfolding walkClaude_def by (intro walk_rules; assumption)

end

end
