(* ===== verification/Walk_OpenAI.thy ===== *)
theory Walk_OpenAI
  imports Walk_Invariant
begin

text \<open>
  The walker of the OpenAI chat protocol, \<open>walker/openai.go\<close>, one definition per function (and
  per loop body), and that it is safe under the contract of the collector.
\<close>

definition openAIRootControlFields :: "string list" where
  "openAIRootControlFields = [
    ''audio'', ''frequency_penalty'', ''function_call'', ''logit_bias'', ''logprobs'',
    ''max_completion_tokens'', ''max_tokens'', ''metadata'', ''modalities'', ''moderation'', ''n'',
    ''parallel_tool_calls'', ''presence_penalty'', ''prompt_cache_key'', ''prompt_cache_options'',
    ''prompt_cache_retention'', ''reasoning_effort'', ''response_format'', ''safety_identifier'', ''seed'',
    ''service_tier'', ''stop'', ''store'', ''stream'', ''stream_options'', ''temperature'', ''tool_choice'',
    ''top_logprobs'', ''top_p'', ''user'', ''verbosity'', ''web_search_options'']"

definition walkOpenAIFunctionDefinition :: "walk_env \<Rightarrow> node \<Rightarrow> unit walker" where
  "walkOpenAIFunctionDefinition env func = steps [
     unique env func [''name'', ''description'', ''parameters'', ''strict''],
     mark_opaque_string_field env func ''name'' True False,
     add_string_field env func ''description'' False True ScopeSystem TargetKindNaturalText,
     walk_string_object_field env func ''parameters'' False True ScopeSystem]"

definition walkOpenAIToolDefinition :: "walk_env \<Rightarrow> node \<Rightarrow> unit walker" where
  "walkOpenAIToolDefinition env tool =
    (if n_kind tool \<noteq> KindObject then unsupported env tool ''tool definition is not an object''
     else seq (unique env tool [''type'', ''function'', ''cache_control''])
       (bind (required_string env tool ''type'') (\<lambda>type_node.
        seq (mark_opaque env type_node)
        (if token_value type_node \<noteq> ''function''
         then unsupported_value env tool ''unknown tool definition type '' (token_value type_node)
         else steps [
           bind (required_object env tool ''function'') (walkOpenAIFunctionDefinition env),
           walk_anthropic_cache_control env tool]))))"

definition walkOpenAIToolDefinitions :: "walk_env \<Rightarrow> node \<Rightarrow> unit walker" where
  "walkOpenAIToolDefinitions env root = steps [
     bind (field env root ''tools'') (\<lambda>tools. case tools of
       None \<Rightarrow> ret ()
     | Some tools \<Rightarrow>
         if n_kind tools \<noteq> KindArray then shape env tools ''array'' ''tools''
         else for_each (n_array tools) (walkOpenAIToolDefinition env)),
     bind (field env root ''functions'') (\<lambda>functions. case functions of
       None \<Rightarrow> ret ()
     | Some functions \<Rightarrow>
         if n_kind functions \<noteq> KindArray then shape env functions ''array'' ''functions''
         else for_each (n_array functions) (\<lambda>func.
           if n_kind func \<noteq> KindObject
           then unsupported env func ''legacy function definition is not an object''
           else walkOpenAIFunctionDefinition env func))]"

definition walkOpenAIPrediction :: "walk_env \<Rightarrow> node \<Rightarrow> unit walker" where
  "walkOpenAIPrediction env prediction =
    (if n_kind prediction \<noteq> KindObject then shape env prediction ''object'' ''prediction''
     else seq (unique env prediction [''type'', ''content''])
       (bind (required_string env prediction ''type'') (\<lambda>type_node.
        seq (mark_opaque env type_node)
        (if token_value type_node \<noteq> ''content''
         then unsupported_value env prediction ''unknown prediction type '' (token_value type_node)
         else bind (field env prediction ''content'') (\<lambda>content. case content of
             None \<Rightarrow> missing env prediction ''content'' ''string or array''
           | Some content \<Rightarrow> walk_typed_text_content env content ScopeAssistant)))))"

definition walkOpenAIReasoningDetail :: "walk_env \<Rightarrow> node \<Rightarrow> unit walker" where
  "walkOpenAIReasoningDetail env detail =
    (if n_kind detail \<noteq> KindObject then shape env detail ''object'' ''reasoning_details element''
     else seq (unique_object_keys env detail)
       (bind (required_string env detail ''type'') (\<lambda>type_node. steps [
          mark_opaque env type_node,
          mark_optional_strings env detail [''id'', ''format''],
          bind (field env detail ''index'') (\<lambda>index. case index of
            None \<Rightarrow> ret ()
          | Some index \<Rightarrow>
              if n_kind index \<noteq> KindNumber \<and> n_kind index \<noteq> KindNull
              then shape env index ''number or null'' ''reasoning_details index'' else ret ()),
          (let t = token_value type_node in
           if t = ''reasoning.text'' then mark_optional_strings env detail [''text'', ''signature'']
           else if t = ''reasoning.summary'' then mark_opaque_string_field env detail ''summary'' True False
           else if t = ''reasoning.encrypted'' then mark_opaque_string_field env detail ''data'' True False
           else unsupported_value env detail ''unknown reasoning_details type '' t)])))"

definition walkOpenAIReasoningReplay :: "walk_env \<Rightarrow> node \<Rightarrow> bool \<Rightarrow> unit walker" where
  "walkOpenAIReasoningReplay env message assistant = steps [
     for_each [''reasoning'', ''reasoning_content''] (\<lambda>key. optional_field env message key (\<lambda>value.
       if n_kind value \<noteq> KindString then shape env value ''string or null'' key
       else if assistant then mark_opaque env value
       else unsupported env value (key @ '' outside an assistant message''))),
     optional_field env message ''reasoning_details'' (\<lambda>details.
       if n_kind details \<noteq> KindArray then shape env details ''array or null'' ''reasoning_details''
       else if \<not> assistant then unsupported env details ''reasoning_details outside an assistant message''
       else for_each (n_array details) (walkOpenAIReasoningDetail env))]"

definition walkOpenAIFunction :: "walk_env \<Rightarrow> node \<Rightarrow> unit walker" where
  "walkOpenAIFunction env func = steps [
     unique env func [''arguments'', ''name'', ''id'', ''call_id''],
     mark_optional_strings env func [''name'', ''id'', ''call_id''],
     bind (string_field env func ''arguments'' False) (\<lambda>arguments. case arguments of
       None \<Rightarrow> ret ()
     | Some arguments \<Rightarrow> add env arguments ScopeToolInput TargetKindEncodedJSON MutabilityEncodedJSON)]"

definition walkOpenAIToolCall :: "walk_env \<Rightarrow> node \<Rightarrow> unit walker" where
  "walkOpenAIToolCall env call =
    (if n_kind call \<noteq> KindObject then shape env call ''object'' ''tool_calls element''
     else steps [
       unique env call [''type'', ''function'', ''id'', ''name'', ''call_id'', ''extra_content'', ''cache_control''],
       mark_optional_strings env call [''id'', ''name'', ''call_id''],
       bind (field env call ''extra_content'') (\<lambda>extra. case extra of
         None \<Rightarrow> ret () | Some extra \<Rightarrow> mark_opaque env extra),
       walk_anthropic_cache_control env call,
       bind (string_field env call ''type'' False) (\<lambda>call_type. case call_type of
         None \<Rightarrow> bind (required_object env call ''function'') (walkOpenAIFunction env)
       | Some call_type \<Rightarrow>
           seq (mark_opaque env call_type)
           (if token_value call_type \<noteq> ''function''
            then unsupported_value env call ''unknown tool call type '' (token_value call_type)
            else bind (required_object env call ''function'') (walkOpenAIFunction env)))])"

definition walkOpenAIContent :: "walk_env \<Rightarrow> node \<Rightarrow> scope option \<Rightarrow> unit walker" where
  "walkOpenAIContent env message scope =
     bind (field env message ''content'') (\<lambda>content. case content of
       None \<Rightarrow> ret ()
     | Some content \<Rightarrow>
         (case scope of
            None \<Rightarrow> ret ()
          | Some scope \<Rightarrow>
              if scope = ScopeToolOutput \<and> n_kind content = KindString
              then add env content ScopeToolOutput TargetKindToolOutput MutabilityJSONOrPlain
              else walk_typed_text_content env content scope))"

definition walkOpenAIRefusal :: "walk_env \<Rightarrow> node \<Rightarrow> scope option \<Rightarrow> unit walker" where
  "walkOpenAIRefusal env message scope =
     optional_field env message ''refusal'' (\<lambda>refusal.
       if n_kind refusal \<noteq> KindString then shape env refusal ''string or null'' ''refusal''
       else if scope = Some ScopeAssistant
       then add env refusal ScopeAssistant TargetKindNaturalText MutabilityDirect
       else unsupported env refusal ''refusal text outside an assistant message'')"

definition walkOpenAICalls :: "walk_env \<Rightarrow> node \<Rightarrow> unit walker" where
  "walkOpenAICalls env message = steps [
     bind (field env message ''tool_calls'') (\<lambda>calls. case calls of
       None \<Rightarrow> ret ()
     | Some calls \<Rightarrow>
         if n_kind calls \<noteq> KindArray then shape env calls ''array'' ''tool_calls''
         else for_each (n_array calls) (walkOpenAIToolCall env)),
     bind (field env message ''function_call'') (\<lambda>legacy. case legacy of
       None \<Rightarrow> ret ()
     | Some legacy \<Rightarrow>
         if n_kind legacy \<noteq> KindObject then shape env legacy ''object'' ''function_call''
         else walkOpenAIFunction env legacy)]"

text \<open>\<open>scope\<close> is \<open>None\<close> where the code has \<open>roleOK\<close> false.\<close>

definition walkOpenAIMessage :: "walk_env \<Rightarrow> node \<Rightarrow> unit walker" where
  "walkOpenAIMessage env message =
    (if n_kind message \<noteq> KindObject then shape env message ''object'' ''messages element''
     else steps [
       unique env message [''role'', ''content'', ''tool_calls'', ''function_call'', ''name'', ''id'', ''call_id'',
         ''tool_call_id'', ''refusal'', ''audio'', ''reasoning'', ''reasoning_content'', ''reasoning_details'',
         ''cache_control'', ''annotations''],
       mark_optional_strings env message [''name'', ''id'', ''call_id'', ''tool_call_id''],
       walk_anthropic_cache_control env message,
       bind (field env message ''annotations'') (\<lambda>annotations. case annotations of
         None \<Rightarrow> ret () | Some annotations \<Rightarrow> mark_opaque env annotations),
       bind (required_string env message ''role'') (\<lambda>role_node.
       seq (mark_opaque env role_node)
       (let scope = scope_for_role (token_value role_node) in steps [
          (if scope = None then unsupported_value env role_node ''unknown message role '' (token_value role_node)
           else ret ()),
          walkOpenAIReasoningReplay env message (scope = Some ScopeAssistant),
          walkOpenAIContent env message scope,
          walkOpenAIRefusal env message scope,
          optional_field env message ''audio'' (\<lambda>audio.
            if n_kind audio \<noteq> KindObject then shape env audio ''object or null'' ''audio''
            else mark_opaque_string_field env audio ''id'' False True),
          walkOpenAICalls env message]))])"

definition walkOpenAI :: "walk_env \<Rightarrow> node \<Rightarrow> unit walker" where
  "walkOpenAI env root = steps [
     unique env root [''messages'', ''prediction'', ''tools'', ''functions''],
     mark_fields env root openAIRootControlFields,
     bind (required_array env root ''messages'') (\<lambda>messages.
       for_each (n_array messages) (walkOpenAIMessage env)),
     bind (field env root ''prediction'') (\<lambda>prediction. case prediction of
       None \<Rightarrow> ret () | Some prediction \<Rightarrow> walkOpenAIPrediction env prediction),
     walkOpenAIToolDefinitions env root]"

section \<open>The contract\<close>

context walk_contract
begin

lemma openai_function_definition [walk_rules]: "N v \<Longrightarrow> safe I (walkOpenAIFunctionDefinition env v)"
  unfolding walkOpenAIFunctionDefinition_def by (intro walk_rules; assumption)

lemma openai_tool_definitions [walk_rules]: "N v \<Longrightarrow> safe I (walkOpenAIToolDefinitions env v)"
  unfolding walkOpenAIToolDefinitions_def walkOpenAIToolDefinition_def by (intro walk_rules; assumption)

lemma openai_prediction [walk_rules]: "N v \<Longrightarrow> safe I (walkOpenAIPrediction env v)"
  unfolding walkOpenAIPrediction_def by (intro walk_rules; assumption)

lemma openai_reasoning [walk_rules]: "N v \<Longrightarrow> safe I (walkOpenAIReasoningReplay env v assistant)"
  unfolding walkOpenAIReasoningReplay_def walkOpenAIReasoningDetail_def by (intro walk_rules; assumption)

lemma openai_function [walk_rules]: "N v \<Longrightarrow> safe I (walkOpenAIFunction env v)"
  unfolding walkOpenAIFunction_def by (intro walk_rules; assumption)

lemma openai_tool_call [walk_rules]: "N v \<Longrightarrow> safe I (walkOpenAIToolCall env v)"
  unfolding walkOpenAIToolCall_def by (intro walk_rules; assumption)

lemma openai_message_parts [walk_rules]:
  "N v \<Longrightarrow> safe I (walkOpenAIContent env v scope)"
  "N v \<Longrightarrow> safe I (walkOpenAIRefusal env v scope)"
  "N v \<Longrightarrow> safe I (walkOpenAICalls env v)"
  unfolding walkOpenAIContent_def walkOpenAIRefusal_def walkOpenAICalls_def
  by (intro walk_rules safe_case_option; assumption)+

lemma openai_message [walk_rules]: "N v \<Longrightarrow> safe I (walkOpenAIMessage env v)"
  unfolding walkOpenAIMessage_def by (intro walk_rules; assumption)

lemma openai_safe [walk_rules]: "N v \<Longrightarrow> safe I (walkOpenAI env v)"
  unfolding walkOpenAI_def by (intro walk_rules; assumption)

end

end
