(* ===== verification/Walk_Gemini.thy ===== *)
theory Walk_Gemini
  imports Walk_Invariant
begin

text \<open>
  The walker of the Gemini protocol, \<open>walker/gemini.go\<close>. \<open>walkGeminiPart\<close> calls itself on the parts
  of a function response; it carries a fuel that starts at the size of the tree, and the last
  section shows that the walker is safe under the contract, so the fuel is never used up.
\<close>

definition geminiRootControlFields :: "string list" where
  "geminiRootControlFields = [
    ''model'', ''toolConfig'', ''safetySettings'', ''generationConfig'', ''cachedContent'',
    ''serviceTier'', ''store'', ''labels'', ''tool_config'', ''safety_settings'', ''generation_config'',
    ''cached_content'', ''service_tier'']"

section \<open>Tool definitions\<close>

definition walkGeminiMarkerTool :: "walk_env \<Rightarrow> node \<Rightarrow> string \<Rightarrow> unit walker" where
  "walkGeminiMarkerTool env marker detail =
    (if n_kind marker \<noteq> KindObject then shape env marker ''object'' detail else ret ())"

definition walkGeminiSchema :: "walk_env \<Rightarrow> node option \<Rightarrow> unit walker" where
  "walkGeminiSchema env schema = (case schema of
     None \<Rightarrow> ret ()
   | Some schema \<Rightarrow>
       if n_kind schema = KindNull then ret ()
       else if n_kind schema \<noteq> KindObject then shape env schema ''object or null'' ''function schema''
       else walk_string_values env schema ScopeSystem TargetKindJSONValue)"

definition walkGeminiFunctionDeclaration :: "walk_env \<Rightarrow> node \<Rightarrow> unit walker" where
  "walkGeminiFunctionDeclaration env declaration = steps [
     unique env declaration [''name'', ''description'', ''parameters'', ''parametersJsonSchema'', ''response'',
       ''responseJsonSchema'', ''behavior''],
     bind (required_string env declaration ''name'') (mark_opaque env),
     add_string_field env declaration ''description'' False True ScopeSystem TargetKindNaturalText,
     mark_opaque_string_field env declaration ''behavior'' False True,
     for_each [(''parameters'', ''parametersJsonSchema''), (''response'', ''responseJsonSchema'')] (\<lambda>pair.
       bind (field env declaration (fst pair)) (\<lambda>first.
       bind (field env declaration (snd pair)) (\<lambda>second. steps [
         fail_if (first \<noteq> None \<and> second \<noteq> None)
           (AmbiguityError (we_protocol env) (path_at env declaration) [fst pair, snd pair]),
         walkGeminiSchema env first,
         walkGeminiSchema env second])))]"

definition walkGeminiFunctionDeclarations :: "walk_env \<Rightarrow> node \<Rightarrow> unit walker" where
  "walkGeminiFunctionDeclarations env declarations =
    (if n_kind declarations \<noteq> KindArray then shape env declarations ''array'' ''function declarations''
     else for_each (n_array declarations) (\<lambda>declaration.
       if n_kind declaration \<noteq> KindObject then unsupported env declaration ''function declaration is not an object''
       else walkGeminiFunctionDeclaration env declaration))"

definition walkGeminiGoogleSearch :: "walk_env \<Rightarrow> node \<Rightarrow> unit walker" where
  "walkGeminiGoogleSearch env search =
    (if n_kind search \<noteq> KindObject then shape env search ''object'' ''googleSearch''
     else steps [
       unique env search [''searchTypes'', ''blockingConfidence'', ''excludeDomains'', ''timeRangeFilter''],
       mark_opaque_string_field env search ''blockingConfidence'' False True,
       optional_field env search ''searchTypes'' (\<lambda>types.
         if n_kind types \<noteq> KindObject then shape env types ''object or null'' ''googleSearch searchTypes''
         else steps [
           unique env types [''webSearch'', ''imageSearch''],
           for_each [''webSearch'', ''imageSearch''] (\<lambda>key.
             bind (field env types key) (\<lambda>marker. case marker of
               None \<Rightarrow> ret ()
             | Some marker \<Rightarrow> walkGeminiMarkerTool env marker (''googleSearch '' @ key)))]),
       optional_field env search ''excludeDomains'' (\<lambda>domains.
         if n_kind domains \<noteq> KindArray then shape env domains ''array or null'' ''googleSearch excludeDomains''
         else for_each (n_array domains) (\<lambda>domain.
           if n_kind domain \<noteq> KindString then shape env domain ''string'' ''googleSearch excluded domain''
           else mark_opaque env domain)),
       optional_field env search ''timeRangeFilter'' (\<lambda>range.
         if n_kind range \<noteq> KindObject then shape env range ''object or null'' ''googleSearch timeRangeFilter''
         else steps [
           unique env range [''startTime'', ''endTime''],
           mark_optional_strings env range [''startTime'', ''endTime'']])])"

definition walkGeminiToolDefinition :: "walk_env \<Rightarrow> node \<Rightarrow> unit walker" where
  "walkGeminiToolDefinition env tool =
    (if n_kind tool \<noteq> KindObject then unsupported env tool ''tool definition is not an object''
     else steps [
       unique env tool [''functionDeclarations'', ''function_declarations'', ''googleSearch'', ''codeExecution'',
         ''urlContext''],
       bind (one_of env tool [''functionDeclarations'', ''function_declarations'']) (\<lambda>declarations.
         case declarations of
           None \<Rightarrow> ret ()
         | Some (declarations, _) \<Rightarrow> walkGeminiFunctionDeclarations env declarations),
       bind (field env tool ''googleSearch'') (\<lambda>search. case search of
         None \<Rightarrow> ret () | Some search \<Rightarrow> walkGeminiGoogleSearch env search),
       for_each [''codeExecution'', ''urlContext''] (\<lambda>key.
         bind (field env tool key) (\<lambda>marker. case marker of
           None \<Rightarrow> ret () | Some marker \<Rightarrow> walkGeminiMarkerTool env marker key))])"

definition walkGeminiToolDefinitions :: "walk_env \<Rightarrow> node \<Rightarrow> unit walker" where
  "walkGeminiToolDefinitions env root =
     bind (field env root ''tools'') (\<lambda>tools. case tools of
       None \<Rightarrow> ret ()
     | Some tools \<Rightarrow>
         if n_kind tools \<noteq> KindArray then shape env tools ''array'' ''tools''
         else for_each (n_array tools) (walkGeminiToolDefinition env))"

section \<open>Media\<close>

definition markGeminiMediaMIME :: "walk_env \<Rightarrow> node \<Rightarrow> unit walker" where
  "markGeminiMediaMIME env data =
     bind (one_of env data [''mimeType'', ''mime_type'']) (\<lambda>mime. case mime of
       None \<Rightarrow> ret ()
     | Some (mime, _) \<Rightarrow>
         if n_kind mime \<noteq> KindString then shape env mime ''string'' ''media MIME type'' else mark_opaque env mime)"

definition addGeminiDisplayName :: "walk_env \<Rightarrow> node \<Rightarrow> scope \<Rightarrow> unit walker" where
  "addGeminiDisplayName env data scope =
     optional_field env data ''displayName'' (\<lambda>name.
       if n_kind name \<noteq> KindString then shape env name ''string or null'' ''media displayName''
       else add env name scope TargetKindNaturalText MutabilityDirect)"

definition walkGeminiInlineData :: "walk_env \<Rightarrow> node \<Rightarrow> scope \<Rightarrow> unit walker" where
  "walkGeminiInlineData env data scope =
    (if n_kind data \<noteq> KindObject then shape env data ''object'' ''inlineData''
     else steps [
       unique env data [''data'', ''displayName'', ''mimeType'', ''mime_type''],
       bind (required_string env data ''data'') (mark_opaque env),
       markGeminiMediaMIME env data,
       addGeminiDisplayName env data scope])"

definition walkGeminiFileData :: "walk_env \<Rightarrow> node \<Rightarrow> scope \<Rightarrow> unit walker" where
  "walkGeminiFileData env data scope =
    (if n_kind data \<noteq> KindObject then shape env data ''object'' ''fileData''
     else steps [
       unique env data [''displayName'', ''fileUri'', ''file_uri'', ''mimeType'', ''mime_type''],
       bind (one_of env data [''fileUri'', ''file_uri'']) (\<lambda>uri. case uri of
         None \<Rightarrow> missing env data ''fileUri'' ''string''
       | Some (uri, _) \<Rightarrow>
           if n_kind uri \<noteq> KindString then shape env uri ''string'' ''file URI'' else mark_opaque env uri),
       markGeminiMediaMIME env data,
       addGeminiDisplayName env data scope])"

definition walkGeminiMediaFields :: "walk_env \<Rightarrow> node \<Rightarrow> scope \<Rightarrow> bool walker" where
  "walkGeminiMediaFields env part scope =
     bind (one_of env part [''inlineData'', ''inline_data'']) (\<lambda>inline.
     bind (one_of env part [''fileData'', ''file_data'']) (\<lambda>file.
     seq (case inline of None \<Rightarrow> ret () | Some (data, _) \<Rightarrow> walkGeminiInlineData env data scope)
     (seq (case file of None \<Rightarrow> ret () | Some (data, _) \<Rightarrow> walkGeminiFileData env data scope)
     (ret (inline \<noteq> None \<or> file \<noteq> None)))))"

section \<open>Parts\<close>

definition thought_of :: "node option \<Rightarrow> bool" where
  "thought_of v = (case v of None \<Rightarrow> False | Some v \<Rightarrow> n_boolean v)"

definition walkGeminiSystemPart :: "walk_env \<Rightarrow> node \<Rightarrow> unit walker" where
  "walkGeminiSystemPart env part =
    (if n_kind part \<noteq> KindObject then unsupported env part ''system parts element is not an object''
     else steps [
       unique env part [''text'', ''thought'', ''thoughtSignature'', ''inlineData'', ''inline_data'', ''fileData'',
         ''file_data'', ''id'', ''name''],
       mark_optional_strings env part [''thoughtSignature'', ''id'', ''name''],
       bind (string_field env part ''text'' False) (\<lambda>text_node.
       bind (field env part ''thought'') (\<lambda>thought.
       seq (case thought of
           None \<Rightarrow> ret ()
         | Some v \<Rightarrow> if n_kind v \<noteq> KindBoolean then shape env v ''boolean'' ''thought'' else ret ())
       (bind (field env part ''thoughtSignature'') (\<lambda>signature.
        seq (case text_node of
            None \<Rightarrow> ret ()
          | Some t \<Rightarrow>
              if signature \<noteq> None \<or> thought_of thought then mark_opaque env t
              else add env t ScopeSystem TargetKindNaturalText MutabilityDirect)
        (bind (walkGeminiMediaFields env part ScopeSystem) (\<lambda>has_media.
         if text_node = None \<and> \<not> has_media then unsupported env part ''system part has no text or media''
         else ret ()))))))])"

definition walkGeminiSystem :: "walk_env \<Rightarrow> node \<Rightarrow> unit walker" where
  "walkGeminiSystem env system =
    (if n_kind system \<noteq> KindObject then shape env system ''object'' ''system instruction''
     else steps [
       unique env system [''parts'', ''role'', ''id'', ''name''],
       mark_optional_strings env system [''role'', ''id'', ''name''],
       bind (required_array env system ''parts'') (\<lambda>parts.
         for_each (n_array parts) (walkGeminiSystemPart env))])"

definition walkGeminiPartMediaControls :: "walk_env \<Rightarrow> node \<Rightarrow> unit walker" where
  "walkGeminiPartMediaControls env part = steps [
     optional_field env part ''mediaResolution'' (\<lambda>resolution.
       if n_kind resolution \<noteq> KindObject then shape env resolution ''object or null'' ''mediaResolution''
       else steps [
         unique env resolution [''level'', ''numTokens''],
         mark_opaque_string_field env resolution ''level'' False True,
         check_kind env resolution ''numTokens'' [KindNumber, KindNull] ''number or null'' ''mediaResolution numTokens'']),
     optional_field env part ''videoMetadata'' (\<lambda>video.
       if n_kind video \<noteq> KindObject then shape env video ''object or null'' ''videoMetadata''
       else steps [
         unique env video [''startOffset'', ''endOffset'', ''fps''],
         mark_optional_strings env video [''startOffset'', ''endOffset''],
         check_kind env video ''fps'' [KindNumber, KindNull] ''number or null'' ''videoMetadata fps''])]"

definition walkGeminiPartialArgs :: "walk_env \<Rightarrow> node \<Rightarrow> unit walker" where
  "walkGeminiPartialArgs env partials =
    (if n_kind partials \<noteq> KindArray then shape env partials ''array'' ''partialArgs''
     else for_each (n_array partials) (\<lambda>part.
       if n_kind part \<noteq> KindObject then unsupported env part ''partialArgs element is not an object''
       else steps [
         unique env part [''boolValue'', ''jsonPath'', ''nullValue'', ''numberValue'', ''stringValue'', ''willContinue''],
         mark_optional_strings env part [''jsonPath'', ''nullValue''],
         bind (string_field env part ''stringValue'' False) (\<lambda>v. case v of
           None \<Rightarrow> ret () | Some v \<Rightarrow> add env v ScopeToolInput TargetKindJSONValue MutabilityDirect)]))"

definition walkGeminiFunctionCall :: "walk_env \<Rightarrow> node \<Rightarrow> unit walker" where
  "walkGeminiFunctionCall env call =
    (if n_kind call \<noteq> KindObject then shape env call ''object'' ''functionCall''
     else steps [
       unique env call [''args'', ''partialArgs'', ''name'', ''id'', ''call_id'', ''willContinue''],
       mark_optional_strings env call [''name'', ''id'', ''call_id''],
       check_kind env call ''willContinue'' [KindBoolean] ''boolean'' ''functionCall willContinue'',
       bind (field env call ''args'') (\<lambda>args. case args of
         None \<Rightarrow> ret () | Some args \<Rightarrow> walk_string_values env args ScopeToolInput TargetKindJSONValue),
       bind (field env call ''partialArgs'') (\<lambda>partials. case partials of
         None \<Rightarrow> ret () | Some partials \<Rightarrow> walkGeminiPartialArgs env partials)])"

definition walkGeminiExecutableCode :: "walk_env \<Rightarrow> node \<Rightarrow> scope \<Rightarrow> unit walker" where
  "walkGeminiExecutableCode env code scope =
    (if n_kind code \<noteq> KindObject then shape env code ''object'' ''executableCode''
     else steps [
       unique env code [''code'', ''language'', ''id'', ''name''],
       mark_optional_strings env code [''language'', ''id''],
       bind (string_field env code ''code'' False) (\<lambda>v. case v of
         None \<Rightarrow> ret () | Some v \<Rightarrow> add env v scope TargetKindCode MutabilityDirect)])"

definition walkGeminiExecutionResult :: "walk_env \<Rightarrow> node \<Rightarrow> unit walker" where
  "walkGeminiExecutionResult env execution =
    (if n_kind execution \<noteq> KindObject then shape env execution ''object'' ''codeExecutionResult''
     else steps [
       unique env execution [''output'', ''outcome'', ''id'', ''name''],
       mark_optional_strings env execution [''outcome'', ''id''],
       bind (string_field env execution ''output'' False) (\<lambda>v. case v of
         None \<Rightarrow> ret () | Some v \<Rightarrow> add env v ScopeToolOutput TargetKindExecutionOutput MutabilityDirect)])"

text \<open>\<open>walk_part\<close> is the call of \<open>walkGeminiPart\<close> on a part of the response.\<close>

definition walkGeminiFunctionResponse :: "walk_env \<Rightarrow> (node \<Rightarrow> unit walker) \<Rightarrow> node \<Rightarrow> unit walker" where
  "walkGeminiFunctionResponse env walk_part response =
    (if n_kind response \<noteq> KindObject then shape env response ''object'' ''functionResponse''
     else steps [
       unique env response [''response'', ''parts'', ''name'', ''id'', ''call_id'', ''willContinue'', ''scheduling''],
       mark_optional_strings env response [''name'', ''id'', ''call_id'', ''scheduling''],
       check_kind env response ''willContinue'' [KindBoolean] ''boolean'' ''functionResponse willContinue'',
       bind (field env response ''response'') (\<lambda>v. case v of
         None \<Rightarrow> ret () | Some v \<Rightarrow> walk_string_values env v ScopeToolOutput TargetKindJSONValue),
       bind (field env response ''parts'') (\<lambda>parts. case parts of
         None \<Rightarrow> ret ()
       | Some parts \<Rightarrow>
           if n_kind parts \<noteq> KindArray then shape env parts ''array'' ''functionResponse parts''
           else for_each (n_array parts) walk_part)])"

definition geminiPartKeys :: "string list" where
  "geminiPartKeys = [
    ''text'', ''thought'', ''thoughtSignature'', ''functionCall'', ''functionResponse'',
    ''executableCode'', ''codeExecutionResult'', ''inlineData'', ''inline_data'', ''fileData'', ''file_data'',
    ''mediaResolution'', ''videoMetadata'', ''mediaProcessing'', ''partMetadata'', ''audioTranscription'', ''name'',
    ''id'', ''call_id'', ''mimeType'']"

fun walkGeminiPart :: "walk_env \<Rightarrow> nat \<Rightarrow> node \<Rightarrow> scope \<Rightarrow> bool \<Rightarrow> unit walker" where
  "walkGeminiPart env 0 part scope role_ok = fail TreeFuel"
| "walkGeminiPart env (Suc fuel) part scope role_ok =
    (if n_kind part \<noteq> KindObject then unsupported env part ''parts element is not an object''
     else steps [
       unique env part geminiPartKeys,
       mark_opaque_string_field env part ''thoughtSignature'' False True,
       walkGeminiPartMediaControls env part,
       bind (field env part ''partMetadata'') (\<lambda>metadata. case metadata of
         None \<Rightarrow> ret ()
       | Some metadata \<Rightarrow>
           if n_kind metadata \<noteq> KindObject then shape env metadata ''object'' ''partMetadata''
           else mark_opaque env metadata),
       bind (field env part ''thought'') (\<lambda>thought.
       seq (case thought of
           None \<Rightarrow> ret ()
         | Some v \<Rightarrow> if n_kind v \<noteq> KindBoolean then shape env v ''boolean'' ''thought'' else ret ())
       (bind (field env part ''thoughtSignature'') (\<lambda>signature.
       (bind (walkGeminiMediaFields env part scope) (\<lambda>has_media.
       (bind (string_field env part ''text'' False) (\<lambda>text_node.
       seq (case text_node of
            None \<Rightarrow> ret ()
          | Some t \<Rightarrow>
              if thought_of thought \<or> signature \<noteq> None \<or> \<not> role_ok then mark_opaque env t
              else add env t scope TargetKindNaturalText MutabilityDirect)
       (bind (when_field env part ''functionCall'' (walkGeminiFunctionCall env)) (\<lambda>has_call.
       (bind (when_field env part ''functionResponse'' (walkGeminiFunctionResponse env (\<lambda>p.
           walkGeminiPart env fuel p ScopeToolOutput True))) (\<lambda>has_response.
       (bind (when_field env part ''executableCode'' (\<lambda>code. walkGeminiExecutableCode env code scope)) (\<lambda>has_code.
       (bind (when_field env part ''codeExecutionResult'' (walkGeminiExecutionResult env)) (\<lambda>has_execution.
        if thought \<noteq> None \<or> signature \<noteq> None \<or> has_media \<or> text_node \<noteq> None \<or> has_call \<or> has_response \<or>
           has_code \<or> has_execution
        then ret ()
        else unsupported env part ''unknown Gemini part shape'')))))))))))))))])"

definition walkGeminiRole :: "walk_env \<Rightarrow> node \<Rightarrow> (scope \<times> bool) walker" where
  "walkGeminiRole env content =
     bind (string_field env content ''role'' False) (\<lambda>role. case role of
       None \<Rightarrow> ret (ScopeUser, True)
     | Some role \<Rightarrow>
         seq (mark_opaque env role)
         (if token_value role = ''user'' then ret (ScopeUser, True)
          else if token_value role = ''model'' then ret (ScopeAssistant, True)
          else seq (unsupported_value env role ''unknown Gemini role '' (token_value role))
            (ret (ScopeUser, False))))"

definition walkGeminiContent :: "walk_env \<Rightarrow> nat \<Rightarrow> node \<Rightarrow> unit walker" where
  "walkGeminiContent env fuel content =
    (if n_kind content \<noteq> KindObject then shape env content ''object'' ''contents element''
     else steps [
       unique env content [''role'', ''parts'', ''id'', ''name''],
       mark_optional_strings env content [''id'', ''name''],
       bind (walkGeminiRole env content) (\<lambda>role.
       bind (required_array env content ''parts'') (\<lambda>parts.
         for_each (n_array parts) (\<lambda>part. walkGeminiPart env fuel part (fst role) (snd role))))])"

definition walkGemini :: "walk_env \<Rightarrow> node \<Rightarrow> unit walker" where
  "walkGemini env root = steps [
     unique env root [''systemInstruction'', ''system_instruction'', ''contents'', ''tools''],
     mark_fields env root geminiRootControlFields,
     bind (one_of env root [''systemInstruction'', ''system_instruction'']) (\<lambda>system. case system of
       None \<Rightarrow> ret () | Some (system, _) \<Rightarrow> walkGeminiSystem env system),
     bind (required_array env root ''contents'') (\<lambda>contents.
       for_each (n_array contents) (walkGeminiContent env (size root))),
     walkGeminiToolDefinitions env root]"

section \<open>The contract\<close>

context walk_contract
begin

lemma gemini_schema [walk_rules]: "safe I (walkGeminiSchema env None)" "N v \<Longrightarrow> safe I (walkGeminiSchema env (Some v))"
  unfolding walkGeminiSchema_def by (intro walk_rules; assumption)+

lemma gemini_marker [walk_rules]: "safe I (walkGeminiMarkerTool env v d)"
  unfolding walkGeminiMarkerTool_def by (intro walk_rules)

lemma gemini_declaration [walk_rules]: "N v \<Longrightarrow> safe I (walkGeminiFunctionDeclaration env v)"
  unfolding walkGeminiFunctionDeclaration_def by (intro walk_rules; assumption)

lemma gemini_tools [walk_rules]: "N v \<Longrightarrow> safe I (walkGeminiToolDefinitions env v)"
  unfolding walkGeminiToolDefinitions_def walkGeminiToolDefinition_def walkGeminiFunctionDeclarations_def
    walkGeminiGoogleSearch_def
  by (intro walk_rules; assumption)

lemma gemini_media_data [walk_rules]:
  "N v \<Longrightarrow> safe I (walkGeminiInlineData env v scope)" "N v \<Longrightarrow> safe I (walkGeminiFileData env v scope)"
  unfolding walkGeminiInlineData_def walkGeminiFileData_def markGeminiMediaMIME_def addGeminiDisplayName_def
  by (intro walk_rules; assumption)+

lemma gemini_media [walk_rules]:
  assumes "N v" and "\<And>b. safe I (f b)"
  shows "safe I (bind (walkGeminiMediaFields env v scope) f)"
proof (rule safe_bind [OF _ assms(2)])
  show "safe I (walkGeminiMediaFields env v scope)"
    unfolding walkGeminiMediaFields_def
    by (insert assms(1)) (intro walk_rules; assumption)
qed

lemma gemini_system [walk_rules]: "N v \<Longrightarrow> safe I (walkGeminiSystem env v)"
  unfolding walkGeminiSystem_def walkGeminiSystemPart_def by (intro walk_rules; assumption)

lemma gemini_part_fields [walk_rules]:
  "N v \<Longrightarrow> safe I (walkGeminiPartMediaControls env v)"
  "N v \<Longrightarrow> safe I (walkGeminiFunctionCall env v)"
  "N v \<Longrightarrow> safe I (walkGeminiExecutableCode env v scope)"
  "N v \<Longrightarrow> safe I (walkGeminiExecutionResult env v)"
  unfolding walkGeminiPartMediaControls_def walkGeminiFunctionCall_def walkGeminiPartialArgs_def
    walkGeminiExecutableCode_def walkGeminiExecutionResult_def
  by (intro walk_rules; assumption)+

lemma gemini_response:
  assumes "N v" and "\<And>x. N x \<Longrightarrow> size x < size v \<Longrightarrow> safe I (walk_part x)"
  shows "safe I (walkGeminiFunctionResponse env walk_part v)"
  unfolding walkGeminiFunctionResponse_def
  by (insert assms(1)) (intro walk_rules assms(2); (assumption | simp))

lemma gemini_part: "N v \<Longrightarrow> size v < fuel \<Longrightarrow> safe I (walkGeminiPart env fuel v scope role_ok)"
proof (induction fuel arbitrary: v scope role_ok)
  case (Suc fuel)
  have r: "safe I (walkGeminiFunctionResponse env (\<lambda>p. walkGeminiPart env fuel p ScopeToolOutput True) x)"
    if "N x" "size x < size v" for x
    by (rule gemini_response [OF that(1)]) (use that(2) Suc.IH Suc.prems(2) in auto)
  show ?case
    unfolding walkGeminiPart.simps
    by (insert Suc.prems(1)) (intro walk_rules r; assumption)
qed simp

lemma gemini_role [walk_rules]:
  assumes "N v" and "\<And>r. safe I (f r)"
  shows "safe I (bind (walkGeminiRole env v) f)"
proof (rule safe_bind [OF _ assms(2)])
  show "safe I (walkGeminiRole env v)"
    unfolding walkGeminiRole_def by (insert assms(1)) (intro walk_rules; assumption)
qed

lemma gemini_content: "N v \<Longrightarrow> size v < fuel \<Longrightarrow> safe I (walkGeminiContent env fuel v)"
  unfolding walkGeminiContent_def by (intro walk_rules gemini_part; (assumption | linarith))

lemma gemini_safe [walk_rules]: "N v \<Longrightarrow> safe I (walkGemini env v)"
  unfolding walkGemini_def by (intro walk_rules gemini_content; (assumption | linarith))

end

end
