(* ===== verification/Walk_Interactions.thy ===== *)
theory Walk_Interactions
  imports Walk_Invariant
begin

text \<open>
  The walker of the Interactions protocol, \<open>walker/interactions.go\<close>. \<open>walkInteractionItem\<close> calls
  itself on nested steps; it carries a fuel that starts above the size of the tree, and the last
  section shows that the walker is safe under the contract, so the fuel is never used up.
\<close>

definition interactionsRootControlFields :: "string list" where
  "interactionsRootControlFields = [
    ''model'', ''agent'', ''agent_config'', ''background'', ''environment'', ''labels'', ''previous_interaction_id'',
    ''previous_response_id'', ''response_format'', ''response_mime_type'', ''response_modalities'', ''safety_settings'',
    ''service_tier'', ''store'', ''stream'', ''generation_config'', ''generationConfig'', ''webhook_config'',
    ''tool_choice'', ''ToolChoice'', ''parallel_tool_calls'', ''seed'', ''user'', ''metadata'', ''include'', ''truncation'',
    ''reasoning'', ''environment_id'']"

section \<open>Tool definitions\<close>

definition walkInteractionsToolDefinition :: "walk_env \<Rightarrow> node \<Rightarrow> unit walker" where
  "walkInteractionsToolDefinition env tool =
    (if n_kind tool \<noteq> KindObject then unsupported env tool ''tool definition is not an object''
     else seq (unique env tool [''type'', ''name'', ''description'', ''parameters'', ''strict'', ''defer_loading''])
       (bind (required_string env tool ''type'') (\<lambda>type_node.
        seq (mark_opaque env type_node)
        (if token_value type_node \<noteq> ''function''
         then unsupported_value env tool ''unknown tool definition type '' (token_value type_node)
         else steps [
           mark_opaque_string_field env tool ''name'' True False,
           add_string_field env tool ''description'' False True ScopeSystem TargetKindNaturalText,
           walk_string_object_field env tool ''parameters'' True False ScopeSystem]))))"

definition walkInteractionsToolDefinitions :: "walk_env \<Rightarrow> node \<Rightarrow> unit walker" where
  "walkInteractionsToolDefinitions env root =
     bind (field env root ''tools'') (\<lambda>tools. case tools of
       None \<Rightarrow> ret ()
     | Some tools \<Rightarrow>
         if n_kind tools \<noteq> KindArray then shape env tools ''array'' ''tools''
         else for_each (n_array tools) (walkInteractionsToolDefinition env))"

section \<open>Content\<close>

definition walkInteractionsOpaqueReasoningFields :: "walk_env \<Rightarrow> node \<Rightarrow> unit walker" where
  "walkInteractionsOpaqueReasoningFields env item =
     for_each [''thought'', ''thinking'', ''redacted_thinking''] (\<lambda>key. optional_field env item key (\<lambda>value.
       if n_kind value = KindString then mark_opaque env value
       else if n_kind value = KindBoolean then ret ()
       else unsupported env value ''structured reasoning integrity field is not admitted''))"

definition interactionTextTypes :: "string list" where
  "interactionTextTypes = [''text'', ''input_text'', ''output_text'']"

definition interactionMediaTypes :: "string list" where
  "interactionMediaTypes = [''image'', ''audio'', ''video'', ''document'', ''file'', ''input_image'', ''output_image'',
    ''input_audio'']"

definition interactionPartKeys :: "string list" where
  "interactionPartKeys = [
    ''type'', ''text'', ''content'', ''summary'', ''thought'', ''thinking'', ''signature'', ''thoughtSignature'',
    ''thought_signature'', ''id'', ''name'', ''call_id'', ''data'', ''url'', ''file_uri'', ''fileUri'', ''file_id'',
    ''file_data'', ''filename'', ''image_url'', ''mime_type'', ''mimeType'', ''annotations'']"

text \<open>
  \<open>walkInteractionsPart\<close> and \<open>walkInteractionsNaturalContent\<close> call each other: a reasoning part holds
  content again. The fuel counts the calls of \<open>walkInteractionsPart\<close>.
\<close>

definition walkInteractionsContent :: "walk_env \<Rightarrow> (node \<Rightarrow> unit walker) \<Rightarrow> node \<Rightarrow> scope \<Rightarrow> unit walker" where
  "walkInteractionsContent env walk_part content scope =
    (case n_kind content of
       KindString \<Rightarrow> add env content scope TargetKindNaturalText MutabilityDirect
     | KindObject \<Rightarrow> walk_part content
     | KindArray \<Rightarrow> for_each (n_array content) walk_part
     | KindNull \<Rightarrow> ret ()
     | _ \<Rightarrow> shape env content ''string, object, array, or null'' ''natural content'')"

definition walkInteractionsTextPart :: "walk_env \<Rightarrow> node \<Rightarrow> scope \<Rightarrow> unit walker" where
  "walkInteractionsTextPart env part scope = steps [
     mark_opaque_string_field env part ''name'' False True,
     optional_field env part ''annotations'' (\<lambda>annotations.
       if n_kind annotations \<noteq> KindArray then shape env annotations ''array or null'' ''annotations''
       else if length (n_array annotations) \<noteq> 0
       then unsupported env annotations ''text annotations are integrity-coupled'' else ret ()),
     bind (required_string env part ''text'') (\<lambda>t. add env t scope TargetKindNaturalText MutabilityDirect)]"

fun walkInteractionsPart :: "walk_env \<Rightarrow> nat \<Rightarrow> node \<Rightarrow> scope \<Rightarrow> unit walker" where
  "walkInteractionsPart env 0 part scope = fail TreeFuel"
| "walkInteractionsPart env (Suc fuel) part scope =
    (if n_kind part = KindString then add env part scope TargetKindNaturalText MutabilityDirect
     else if n_kind part \<noteq> KindObject then unsupported env part ''content part is neither string nor object''
     else steps [
       unique env part interactionPartKeys,
       mark_optional_strings env part [''signature'', ''thoughtSignature'', ''thought_signature'', ''id'', ''call_id''],
       bind (string_field env part ''type'' False) (\<lambda>type_node. case type_node of
         None \<Rightarrow>
           bind (string_field env part ''text'' False) (\<lambda>t. case t of
             None \<Rightarrow> unsupported env part ''content part has no type''
           | Some t \<Rightarrow> add env t scope TargetKindNaturalText MutabilityDirect)
       | Some type_node \<Rightarrow>
           seq (mark_opaque env type_node)
           (let part_type = token_value type_node in
            if part_type \<in> set interactionTextTypes then walkInteractionsTextPart env part scope
            else if part_type = ''thought'' \<or> part_type = ''reasoning'' then steps [
              walkInteractionsOpaqueReasoningFields env part,
              for_each [''text'', ''content'', ''summary''] (\<lambda>key.
                bind (field env part key) (\<lambda>value. case value of
                  None \<Rightarrow> ret ()
                | Some value \<Rightarrow>
                    walkInteractionsContent env (\<lambda>p. walkInteractionsPart env fuel p ScopeAssistant) value
                      ScopeAssistant))]
            else if part_type \<in> set interactionMediaTypes then
              walk_common_opaque_content_fields env part [''data'', ''url'', ''file_uri'', ''fileUri'', ''file_id'',
                ''file_data'', ''filename'', ''image_url'', ''mime_type'', ''mimeType'']
            else unsupported_value env part ''unknown content part type '' part_type))])"

definition walkInteractionsNaturalContent :: "walk_env \<Rightarrow> node \<Rightarrow> scope \<Rightarrow> unit walker" where
  "walkInteractionsNaturalContent env content scope =
     walkInteractionsContent env (\<lambda>p. walkInteractionsPart env (Suc (size content)) p scope) content scope"

definition walkInteractionsParts :: "walk_env \<Rightarrow> node \<Rightarrow> scope \<Rightarrow> unit walker" where
  "walkInteractionsParts env parts scope =
    (if n_kind parts \<noteq> KindArray then shape env parts ''array'' ''parts''
     else for_each (n_array parts) (\<lambda>p. walkInteractionsPart env (size parts) p scope))"

definition walkInteractionsSystem :: "walk_env \<Rightarrow> node \<Rightarrow> unit walker" where
  "walkInteractionsSystem env system =
    (case n_kind system of
       KindString \<Rightarrow> add env system ScopeSystem TargetKindNaturalText MutabilityDirect
     | KindObject \<Rightarrow> steps [
         unique env system [''text'', ''parts'', ''content'', ''role'', ''type'', ''id'', ''name'', ''signature''],
         mark_optional_strings env system [''role'', ''type'', ''id'', ''name'', ''signature''],
         bind (string_field env system ''text'' False) (\<lambda>text_node.
         bind (field env system ''parts'') (\<lambda>parts.
         seq (fail_if (text_node \<noteq> None \<and> parts \<noteq> None)
               (AmbiguityError (we_protocol env) (path_at env system) [''text'', ''parts'']))
         (case text_node of
            Some t \<Rightarrow> add env t ScopeSystem TargetKindNaturalText MutabilityDirect
          | None \<Rightarrow>
              (case parts of
                 Some parts \<Rightarrow> walkInteractionsParts env parts ScopeSystem
               | None \<Rightarrow>
                   bind (field env system ''content'') (\<lambda>content. case content of
                     Some content \<Rightarrow> walkInteractionsNaturalContent env content ScopeSystem
                   | None \<Rightarrow> unsupported env system ''system instruction has no text or parts'')))))]
     | _ \<Rightarrow> shape env system ''string or object'' ''system instruction'')"

section \<open>Steps\<close>

definition interactionRoleScope :: "walk_env \<Rightarrow> node \<Rightarrow> scope \<Rightarrow> (scope \<times> bool) walker" where
  "interactionRoleScope env item inherited =
     bind (string_field env item ''role'' False) (\<lambda>role. case role of
       None \<Rightarrow> ret (inherited, True)
     | Some role \<Rightarrow>
         seq (mark_opaque env role)
         (case scope_for_role (token_value role) of
            None \<Rightarrow>
              seq (unsupported_value env role ''unknown step role '' (token_value role)) (ret (inherited, False))
          | Some scope \<Rightarrow> ret (scope, True)))"

definition walkInteractionNaturalFields :: "walk_env \<Rightarrow> node \<Rightarrow> scope \<Rightarrow> bool \<Rightarrow> bool walker" where
  "walkInteractionNaturalFields env item scope role_ok =
     bind (when_field env item ''content'' (\<lambda>v.
       if role_ok then walkInteractionsNaturalContent env v scope else ret ())) (\<lambda>has_content.
     bind (when_field env item ''parts'' (\<lambda>v.
       if role_ok then walkInteractionsParts env v scope else ret ())) (\<lambda>has_parts.
     bind (string_field env item ''text'' False) (\<lambda>text_node.
     seq (case text_node of
         None \<Rightarrow> ret ()
       | Some t \<Rightarrow> if role_ok then add env t scope TargetKindNaturalText MutabilityDirect else ret ())
     (bind (when_field env item ''summary'' (\<lambda>v.
       if role_ok then walkInteractionsNaturalContent env v scope else ret ())) (\<lambda>has_summary.
      ret (has_content \<or> has_parts \<or> text_node \<noteq> None \<or> has_summary))))))"

definition walkInteractionToolOutput :: "walk_env \<Rightarrow> node \<Rightarrow> unit walker" where
  "walkInteractionToolOutput env output =
    (if n_kind output = KindString then add env output ScopeToolOutput TargetKindToolOutput MutabilityJSONOrPlain
     else walk_string_values env output ScopeToolOutput TargetKindJSONValue)"

definition walkInteractionSteps :: "walk_env \<Rightarrow> (node \<Rightarrow> unit walker) \<Rightarrow> node \<Rightarrow> unit walker" where
  "walkInteractionSteps env walk_item nested =
    (if n_kind nested \<noteq> KindArray then shape env nested ''array'' ''nested steps''
     else for_each (n_array nested) walk_item)"

definition interactionItemKeys :: "string list" where
  "interactionItemKeys = [
    ''type'', ''role'', ''steps'', ''content'', ''parts'', ''text'', ''summary'', ''arguments'', ''result'', ''output'',
    ''thought'', ''thinking'', ''redacted_thinking'', ''signature'', ''thoughtSignature'', ''thought_signature'',
    ''id'', ''name'', ''call_id'', ''tool_use_id'', ''model'']"

definition interactionImmutableTypes :: "string list" where
  "interactionImmutableTypes = [''image'', ''audio'', ''video'', ''document'', ''file'', ''computer_call'',
    ''web_search_call'', ''file_search_call'', ''image_generation_call'']"

text \<open>
  The switch on the type of an item. \<open>walk_steps scope\<close> walks the nested steps, if there are any.
\<close>

definition walkInteractionTyped ::
  "walk_env \<Rightarrow> (scope \<Rightarrow> unit walker) \<Rightarrow> node \<Rightarrow> string \<Rightarrow> scope \<Rightarrow> bool \<Rightarrow> unit walker" where
  "walkInteractionTyped env walk_steps item item_type scope role_ok =
    (if item_type = ''user_input'' then
       (if \<not> role_ok then ret ()
        else seq (walk_steps ScopeUser)
          (bind (walkInteractionNaturalFields env item ScopeUser True) (\<lambda>_. ret ())))
     else if item_type = ''model_output'' then
       seq (walkInteractionsOpaqueReasoningFields env item)
       (if \<not> role_ok then ret ()
        else seq (walk_steps ScopeAssistant)
          (bind (walkInteractionNaturalFields env item ScopeAssistant True) (\<lambda>_. ret ())))
     else if item_type = ''thought'' \<or> item_type = ''reasoning'' then
       seq (walkInteractionsOpaqueReasoningFields env item)
         (bind (walkInteractionNaturalFields env item ScopeAssistant True) (\<lambda>_. ret ()))
     else if item_type = ''function_call'' then
       optional_field env item ''arguments'' (\<lambda>arguments.
         if n_kind arguments = KindString
         then add env arguments ScopeToolInput TargetKindEncodedJSON MutabilityEncodedJSON
         else walk_string_values env arguments ScopeToolInput TargetKindJSONValue)
     else if item_type = ''function_result'' then
       optional_field env item ''result'' (walkInteractionToolOutput env)
     else if item_type = ''function_call_output'' \<or> item_type = ''custom_tool_call_output'' then
       optional_field env item ''output'' (walkInteractionToolOutput env)
     else if item_type \<in> set interactionTextTypes then
       (if \<not> role_ok then ret ()
        else bind (required_string env item ''text'') (\<lambda>t.
          add env t (if item_type = ''output_text'' then ScopeAssistant else scope)
            TargetKindNaturalText MutabilityDirect))
     else if item_type \<in> set interactionImmutableTypes then
       unsupported env item ''typed interaction item is not safely mutable''
     else unsupported_value env item ''unknown step type '' item_type)"

fun walkInteractionItem :: "walk_env \<Rightarrow> nat \<Rightarrow> node \<Rightarrow> scope \<Rightarrow> unit walker" where
  "walkInteractionItem env 0 item inherited = fail TreeFuel"
| "walkInteractionItem env (Suc fuel) item inherited =
    (if n_kind item = KindString then add env item inherited TargetKindNaturalText MutabilityDirect
     else if n_kind item \<noteq> KindObject then unsupported env item ''step is neither a string nor object''
     else steps [
       unique env item interactionItemKeys,
       mark_optional_strings env item [''signature'', ''thoughtSignature'', ''thought_signature'', ''id'', ''name'',
         ''call_id'', ''tool_use_id'', ''model''],
       bind (interactionRoleScope env item inherited) (\<lambda>role.
       bind (field env item ''steps'') (\<lambda>nested.
       seq (case nested of
           None \<Rightarrow> ret ()
         | Some v \<Rightarrow> if n_kind v \<noteq> KindArray then shape env v ''array'' ''nested steps'' else ret ())
       (bind (string_field env item ''type'' False) (\<lambda>type_node. case type_node of
          None \<Rightarrow>
            seq (case nested of
                None \<Rightarrow> ret ()
              | Some v \<Rightarrow>
                  if snd role
                  then walkInteractionSteps env (\<lambda>i. walkInteractionItem env fuel i (fst role)) v else ret ())
            (bind (walkInteractionNaturalFields env item (fst role) (snd role)) (\<lambda>processed.
             if \<not> processed \<and> nested = None
             then unsupported env item ''step has no recognized type or natural-text field'' else ret ()))
        | Some type_node \<Rightarrow>
            seq (mark_opaque env type_node)
            (walkInteractionTyped env
               (\<lambda>scope. case nested of
                  None \<Rightarrow> ret ()
                | Some v \<Rightarrow> walkInteractionSteps env (\<lambda>i. walkInteractionItem env fuel i scope) v)
               item (token_value type_node) (fst role) (snd role))))))])"

definition walkInteractionsInput :: "walk_env \<Rightarrow> node \<Rightarrow> scope \<Rightarrow> unit walker" where
  "walkInteractionsInput env input inherited =
    (case n_kind input of
       KindString \<Rightarrow> add env input inherited TargetKindNaturalText MutabilityDirect
     | KindArray \<Rightarrow> for_each (n_array input) (\<lambda>item. walkInteractionItem env (size input) item inherited)
     | KindObject \<Rightarrow> walkInteractionItem env (Suc (size input)) input inherited
     | _ \<Rightarrow> shape env input ''string, object, or array'' ''input'')"

definition walkInteractions :: "walk_env \<Rightarrow> node \<Rightarrow> unit walker" where
  "walkInteractions env root = steps [
     unique env root [''system_instruction'', ''systemInstruction'', ''input'', ''steps'', ''tools''],
     mark_fields env root interactionsRootControlFields,
     bind (one_of env root [''system_instruction'', ''systemInstruction'']) (\<lambda>system. case system of
       None \<Rightarrow> ret () | Some (system, _) \<Rightarrow> walkInteractionsSystem env system),
     bind (field env root ''input'') (\<lambda>input. case input of
       None \<Rightarrow> ret () | Some input \<Rightarrow> walkInteractionsInput env input ScopeUser),
     bind (field env root ''steps'') (\<lambda>nested. case nested of
       None \<Rightarrow> ret ()
     | Some nested \<Rightarrow>
         if n_kind nested \<noteq> KindArray then shape env nested ''array'' ''steps''
         else for_each (n_array nested) (\<lambda>item. walkInteractionItem env (size nested) item ScopeUser)),
     walkInteractionsToolDefinitions env root]"

section \<open>The contract\<close>

context walk_contract
begin

lemma interactions_tools [walk_rules]: "N v \<Longrightarrow> safe I (walkInteractionsToolDefinitions env v)"
  unfolding walkInteractionsToolDefinitions_def walkInteractionsToolDefinition_def by (intro walk_rules; assumption)

lemma interactions_reasoning [walk_rules]: "N v \<Longrightarrow> safe I (walkInteractionsOpaqueReasoningFields env v)"
  unfolding walkInteractionsOpaqueReasoningFields_def by (intro walk_rules; assumption)

lemma interactions_text_part [walk_rules]: "N v \<Longrightarrow> safe I (walkInteractionsTextPart env v scope)"
  unfolding walkInteractionsTextPart_def by (intro walk_rules; assumption)

lemma interactions_content:
  assumes "N v" and "\<And>x. N x \<Longrightarrow> size x \<le> size v \<Longrightarrow> safe I (walk_part x)"
  shows "safe I (walkInteractionsContent env walk_part v scope)"
  unfolding walkInteractionsContent_def
  by (insert assms(1)) (intro walk_rules assms(2); (assumption | simp))

lemma interactions_part: "N v \<Longrightarrow> size v < fuel \<Longrightarrow> safe I (walkInteractionsPart env fuel v scope)"
proof (induction fuel arbitrary: v scope)
  case (Suc fuel)
  have r: "safe I (walkInteractionsContent env (\<lambda>p. walkInteractionsPart env fuel p ScopeAssistant) x ScopeAssistant)"
    if "N x" "size x < size v" for x
    by (rule interactions_content [OF that(1)]) (use that(2) Suc.IH Suc.prems(2) in auto)
  show ?case
    unfolding walkInteractionsPart.simps
    by (insert Suc.prems(1)) (intro walk_rules r; assumption)
qed simp

lemma interactions_natural [walk_rules]: "N v \<Longrightarrow> safe I (walkInteractionsNaturalContent env v scope)"
  unfolding walkInteractionsNaturalContent_def
  by (rule interactions_content, assumption, rule interactions_part, assumption, simp)

lemma interactions_parts [walk_rules]: "N v \<Longrightarrow> safe I (walkInteractionsParts env v scope)"
  unfolding walkInteractionsParts_def by (intro walk_rules interactions_part; (assumption | linarith))

lemma interactions_system [walk_rules]: "N v \<Longrightarrow> safe I (walkInteractionsSystem env v)"
  unfolding walkInteractionsSystem_def by (intro walk_rules; assumption)

lemma interactions_role [walk_rules]:
  assumes "N v" and "\<And>r. safe I (f r)"
  shows "safe I (bind (interactionRoleScope env v inherited) f)"
proof (rule safe_bind [OF _ assms(2)])
  show "safe I (interactionRoleScope env v inherited)"
    unfolding interactionRoleScope_def by (insert assms(1)) (intro walk_rules safe_case_option; assumption)
qed

lemma interactions_fields [walk_rules]:
  assumes "N v" and "\<And>r. safe I (f r)"
  shows "safe I (bind (walkInteractionNaturalFields env v scope role_ok) f)"
proof (rule safe_bind [OF _ assms(2)])
  show "safe I (walkInteractionNaturalFields env v scope role_ok)"
    unfolding walkInteractionNaturalFields_def by (insert assms(1)) (intro walk_rules; assumption)
qed

lemma interactions_output [walk_rules]: "N v \<Longrightarrow> safe I (walkInteractionToolOutput env v)"
  unfolding walkInteractionToolOutput_def by (intro walk_rules; assumption)

lemma interactions_steps:
  assumes "N v" and "\<And>x. N x \<Longrightarrow> size x < size v \<Longrightarrow> safe I (walk_item x)"
  shows "safe I (walkInteractionSteps env walk_item v)"
  unfolding walkInteractionSteps_def
  by (insert assms(1)) (intro walk_rules assms(2); assumption)

lemma interactions_typed:
  assumes "N v" and "\<And>scope. safe I (walk_steps scope)"
  shows "safe I (walkInteractionTyped env walk_steps v item_type scope role_ok)"
  unfolding walkInteractionTyped_def
  by (insert assms(1)) (intro walk_rules assms(2); assumption)

lemma interactions_item: "N v \<Longrightarrow> size v < fuel \<Longrightarrow> safe I (walkInteractionItem env fuel v inherited)"
proof (induction fuel arbitrary: v inherited)
  case (Suc fuel)
  have r: "safe I (walkInteractionSteps env (\<lambda>i. walkInteractionItem env fuel i scope) x)"
    if "N x" "size x < size v" for x scope
    by (rule interactions_steps [OF that(1)]) (use that(2) Suc.IH Suc.prems(2) in auto)
  show ?case
    unfolding walkInteractionItem.simps
    by (insert Suc.prems(1)) (intro walk_rules r interactions_typed; assumption)
qed simp

lemma interactions_input [walk_rules]: "N v \<Longrightarrow> safe I (walkInteractionsInput env v inherited)"
  unfolding walkInteractionsInput_def by (intro walk_rules interactions_item; (assumption | simp))

lemma interactions_safe [walk_rules]: "N v \<Longrightarrow> safe I (walkInteractions env v)"
  unfolding walkInteractions_def by (intro walk_rules interactions_item; (assumption | linarith))

end

end
