(* ===== verification/Responses_Config.thy ===== *)
theory Responses_Config
  imports Walk_Invariant
begin

text \<open>
  The first half of \<open>walker/responses.go\<close>: the configuration fields, references, metadata, tool
  choice and tool definitions of a Responses request. A namespace tool holds tool definitions
  again; \<open>walkResponsesRootTools\<close> carries a fuel above the size of the tree.
\<close>

section \<open>Fields of one kind\<close>

definition responsesFieldOfKind ::
  "walk_env \<Rightarrow> node \<Rightarrow> string \<Rightarrow> kind \<Rightarrow> bool \<Rightarrow> bool \<Rightarrow> node option walker" where
  "responsesFieldOfKind env obj key expected required nullable =
     bind (field env obj key) (\<lambda>v. case v of
       None \<Rightarrow> if required then missing env obj key (kind_string expected) else ret None
     | Some value \<Rightarrow>
         if n_kind value = KindNull \<and> nullable then ret None
         else if n_kind value \<noteq> expected
         then shape env value (if nullable then kind_string expected @ '' or null'' else kind_string expected) key
         else ret (Some value))"

text \<open>The three ways the result is used: only checked, walked if present, walked where required.\<close>

definition responsesCheck :: "walk_env \<Rightarrow> node \<Rightarrow> string \<Rightarrow> kind \<Rightarrow> bool \<Rightarrow> bool \<Rightarrow> unit walker" where
  "responsesCheck env obj key expected required nullable =
     bind (responsesFieldOfKind env obj key expected required nullable) (\<lambda>_. ret ())"

definition responsesOptional :: "walk_env \<Rightarrow> node \<Rightarrow> string \<Rightarrow> kind \<Rightarrow> (node \<Rightarrow> unit walker) \<Rightarrow> unit walker" where
  "responsesOptional env obj key expected act =
     bind (responsesFieldOfKind env obj key expected False True) (\<lambda>v. case v of
       None \<Rightarrow> ret () | Some v \<Rightarrow> act v)"

definition responsesRequired :: "walk_env \<Rightarrow> node \<Rightarrow> string \<Rightarrow> kind \<Rightarrow> (node \<Rightarrow> unit walker) \<Rightarrow> unit walker" where
  "responsesRequired env obj key expected act =
     bind (bind (responsesFieldOfKind env obj key expected True False) need) act"

section \<open>Metadata\<close>

fun walkResponsesUntrustedMetadata :: "walk_env \<Rightarrow> node \<Rightarrow> unit walker" where
  "walkResponsesUntrustedMetadata env (Node k p tok b obj arr) =
    (case k of
       KindString \<Rightarrow> add env (Node k p tok b obj arr) ScopeToolInput TargetKindJSONValue MutabilityJSONOrPlain
     | KindObject \<Rightarrow>
         seq (unique_object_keys env (Node k p tok b obj arr))
             (for_each obj (\<lambda>entry. walkResponsesUntrustedMetadata env (snd entry)))
     | KindArray \<Rightarrow> for_each arr (walkResponsesUntrustedMetadata env)
     | _ \<Rightarrow> ret ())"

definition isResponsesClientMetadataControl :: "string \<Rightarrow> bool" where
  "isResponsesClientMetadataControl key \<longleftrightarrow> key \<in> set [
    ''x-codex-installation-id'', ''session_id'', ''thread_id'', ''x-codex-window-id'',
    ''turn_id'', ''x-openai-subagent'', ''x-codex-parent-thread-id'', ''parent_turn_id'',
    ''root_turn_id'', ''x-codex-turn-state'', ''x-codex-responses-lite'',
    ''x-codex-ws-stream-request-start-ms'', ''traceparent'', ''tracestate'']"

definition walkResponsesMetadataEntry :: "walk_env \<Rightarrow> string \<times> node \<Rightarrow> unit walker" where
  "walkResponsesMetadataEntry env entry =
    (if fst entry = ''x-codex-turn-metadata'' then
       (if n_kind (snd entry) = KindNull then ret ()
        else if n_kind (snd entry) = KindString
        then add env (snd entry) ScopeToolInput TargetKindEncodedJSON MutabilityEncodedJSON
        else shape env (snd entry) ''string or null'' ''x-codex-turn-metadata'')
     else if isResponsesClientMetadataControl (fst entry) then
       (if n_kind (snd entry) = KindNull then ret ()
        else if n_kind (snd entry) \<noteq> KindString then shape env (snd entry) ''string or null'' (fst entry)
        else mark_opaque env (snd entry))
     else walkResponsesUntrustedMetadata env (snd entry))"

definition walkResponsesClientMetadata :: "walk_env \<Rightarrow> node \<Rightarrow> unit walker" where
  "walkResponsesClientMetadata env root =
     responsesOptional env root ''client_metadata'' KindObject (\<lambda>metadata.
       seq (unique_object_keys env metadata) (for_each (n_object metadata) (walkResponsesMetadataEntry env)))"

section \<open>Configuration\<close>

definition walkResponsesModeration :: "walk_env \<Rightarrow> node \<Rightarrow> unit walker" where
  "walkResponsesModeration env root =
     responsesOptional env root ''moderation'' KindObject (\<lambda>moderation. steps [
       unique env moderation [''model'', ''policy''],
       mark_opaque_string_field env moderation ''model'' True False,
       responsesOptional env moderation ''policy'' KindObject (\<lambda>policy. steps [
         unique env policy [''input'', ''output''],
         for_each [''input'', ''output''] (\<lambda>key.
           responsesOptional env policy key KindObject (\<lambda>direction. steps [
             unique env direction [''mode''],
             mark_opaque_string_field env direction ''mode'' True False]))])])"

definition walkResponsesPromptCacheOptions :: "walk_env \<Rightarrow> node \<Rightarrow> unit walker" where
  "walkResponsesPromptCacheOptions env root =
     responsesOptional env root ''prompt_cache_options'' KindObject (\<lambda>options. steps [
       unique env options [''mode'', ''ttl''],
       mark_opaque_string_field env options ''mode'' False True,
       mark_opaque_string_field env options ''ttl'' False True])"

definition walkResponsesStreamOptions :: "walk_env \<Rightarrow> node \<Rightarrow> unit walker" where
  "walkResponsesStreamOptions env root =
     responsesOptional env root ''stream_options'' KindObject (\<lambda>options. steps [
       unique env options [''include_obfuscation''],
       responsesCheck env options ''include_obfuscation'' KindBoolean False True])"

definition walkResponsesReasoningConfig :: "walk_env \<Rightarrow> node \<Rightarrow> unit walker" where
  "walkResponsesReasoningConfig env root =
     responsesOptional env root ''reasoning'' KindObject (\<lambda>reasoning. steps [
       unique env reasoning [''context'', ''effort'', ''generate_summary'', ''summary'', ''mode''],
       mark_optional_strings env reasoning [''context'', ''effort'', ''generate_summary'', ''summary'', ''mode'']])"

definition walkResponsesTextConfig :: "walk_env \<Rightarrow> node \<Rightarrow> unit walker" where
  "walkResponsesTextConfig env root =
     responsesOptional env root ''text'' KindObject (\<lambda>txt. steps [
       unique env txt [''verbosity'', ''format''],
       mark_opaque_string_field env txt ''verbosity'' False True,
       responsesOptional env txt ''format'' KindObject (\<lambda>format.
         with_type env format (\<lambda>t.
           if t = ''text'' \<or> t = ''json_object'' then unique env format [''type'']
           else if t = ''json_schema'' then steps [
             unique env format [''type'', ''name'', ''schema'', ''strict'', ''description''],
             mark_opaque_string_field env format ''name'' True False,
             add_string_field env format ''description'' False True ScopeSystem TargetKindNaturalText,
             responsesRequired env format ''schema'' KindObject (\<lambda>schema.
               walk_string_values env schema ScopeSystem TargetKindJSONValue),
             responsesCheck env format ''strict'' KindBoolean False True]
           else unsupported_value env format ''unknown response text format type '' t))])"

definition responsesPlainChoices :: "string list" where
  "responsesPlainChoices = [
    ''file_search'', ''web_search_preview'', ''computer'', ''computer_use_preview'', ''computer_use'',
    ''web_search_preview_2025_03_11'', ''image_generation'', ''code_interpreter'',
    ''programmatic_tool_calling'', ''apply_patch'', ''shell'']"

definition walkResponsesToolChoice :: "walk_env \<Rightarrow> node \<Rightarrow> unit walker" where
  "walkResponsesToolChoice env root =
     optional_field env root ''tool_choice'' (\<lambda>choice.
       if n_kind choice = KindString then mark_opaque env choice
       else if n_kind choice \<noteq> KindObject then shape env choice ''string, object, or null'' ''tool_choice''
       else with_type env choice (\<lambda>t.
         if t = ''allowed_tools'' then steps [
           unique env choice [''type'', ''mode'', ''tools''],
           mark_opaque_string_field env choice ''mode'' True False,
           responsesRequired env choice ''tools'' KindArray (\<lambda>tools.
             for_each (n_array tools) (\<lambda>tool.
               if n_kind tool \<noteq> KindObject then shape env tool ''object'' ''allowed tool definition''
               else mark_opaque env tool))]
         else if t = ''function'' \<or> t = ''custom'' then steps [
           unique env choice [''type'', ''name''],
           mark_opaque_string_field env choice ''name'' True False]
         else if t = ''mcp'' then steps [
           unique env choice [''type'', ''server_label'', ''name''],
           mark_opaque_string_field env choice ''server_label'' True False,
           mark_opaque_string_field env choice ''name'' False True]
         else if t \<in> set responsesPlainChoices then unique env choice [''type'']
         else unsupported_value env choice ''unknown tool-choice type '' t))"

definition walkResponsesRootControls :: "walk_env \<Rightarrow> node \<Rightarrow> unit walker" where
  "walkResponsesRootControls env root = steps [
     unique env root [
       ''model'', ''background'', ''max_output_tokens'', ''max_tool_calls'', ''parallel_tool_calls'',
       ''previous_response_id'', ''store'', ''temperature'', ''top_logprobs'', ''top_p'', ''prompt_cache_key'',
       ''safety_identifier'', ''user'', ''include'', ''metadata'', ''moderation'', ''prompt_cache_retention'',
       ''service_tier'', ''stream'', ''stream_options'', ''truncation'', ''prompt_cache_options'', ''reasoning'',
       ''text'', ''tool_choice''],
     mark_optional_strings env root [
       ''model'', ''previous_response_id'', ''prompt_cache_key'', ''safety_identifier'', ''user'',
       ''prompt_cache_retention'', ''service_tier'', ''truncation''],
     for_each [
       (''background'', KindBoolean), (''max_output_tokens'', KindNumber), (''max_tool_calls'', KindNumber),
       (''parallel_tool_calls'', KindBoolean), (''store'', KindBoolean), (''temperature'', KindNumber),
       (''top_logprobs'', KindNumber), (''top_p'', KindNumber), (''stream'', KindBoolean)]
       (\<lambda>f. responsesCheck env root (fst f) (snd f) False True),
     mark_opaque_string_array_field env root ''include'' False True,
     responsesOptional env root ''metadata'' KindObject (mark_opaque env),
     walkResponsesModeration env root,
     walkResponsesPromptCacheOptions env root,
     walkResponsesStreamOptions env root,
     walkResponsesReasoningConfig env root,
     walkResponsesTextConfig env root,
     walkResponsesToolChoice env root]"

definition walkResponsesRootReferences :: "walk_env \<Rightarrow> node \<Rightarrow> unit walker" where
  "walkResponsesRootReferences env root = steps [
     bind (field env root ''context_management'') (\<lambda>management. case management of
       None \<Rightarrow> ret ()
     | Some management \<Rightarrow>
         if n_kind management \<noteq> KindArray then shape env management ''array'' ''context_management''
         else each_object env management ''context_management element is not an object'' (\<lambda>entry.
           seq (unique env entry [''type'', ''compact_threshold''])
           (with_type env entry (\<lambda>t.
             if t \<noteq> ''compaction'' then unsupported_value env entry ''unknown context-management type '' t
             else ret ())))),
     optional_field env root ''conversation'' (\<lambda>conversation.
       case n_kind conversation of
         KindString \<Rightarrow> mark_opaque env conversation
       | KindObject \<Rightarrow>
           seq (unique env conversation [''id'']) (bind (required_string env conversation ''id'') (mark_opaque env))
       | _ \<Rightarrow> shape env conversation ''string or object'' ''conversation'')]"

section \<open>Tool definitions\<close>

definition walkResponsesFunctionTool :: "walk_env \<Rightarrow> node \<Rightarrow> unit walker" where
  "walkResponsesFunctionTool env tool = steps [
     unique env tool [''type'', ''name'', ''description'', ''parameters'', ''strict'', ''allowed_callers'',
       ''defer_loading'', ''output_schema''],
     mark_opaque_string_field env tool ''name'' True False,
     add_string_field env tool ''description'' False True ScopeSystem TargetKindNaturalText,
     walk_string_object_field env tool ''parameters'' True False ScopeSystem,
     mark_opaque_string_array_field env tool ''allowed_callers'' False True,
     walk_string_object_field env tool ''output_schema'' False True ScopeSystem]"

definition walkResponsesCustomTool :: "walk_env \<Rightarrow> node \<Rightarrow> unit walker" where
  "walkResponsesCustomTool env tool = steps [
     unique env tool [''type'', ''name'', ''description'', ''defer_loading'', ''format'', ''allowed_callers''],
     mark_opaque_string_field env tool ''name'' True False,
     add_string_field env tool ''description'' False True ScopeSystem TargetKindNaturalText,
     responsesCheck env tool ''defer_loading'' KindBoolean False True,
     mark_opaque_string_array_field env tool ''allowed_callers'' False True,
     responsesOptional env tool ''format'' KindObject (\<lambda>format. steps [
       unique env format [''type'', ''syntax'', ''definition''],
       mark_opaque_string_field env format ''type'' True False,
       mark_opaque_string_field env format ''syntax'' False True,
       add_string_field env format ''definition'' False True ScopeSystem TargetKindCode])]"

definition walkResponsesToolSearchDefinition :: "walk_env \<Rightarrow> node \<Rightarrow> unit walker" where
  "walkResponsesToolSearchDefinition env tool = steps [
     unique env tool [''type'', ''execution'', ''description'', ''parameters''],
     mark_opaque_string_field env tool ''execution'' True False,
     add_string_field env tool ''description'' True False ScopeSystem TargetKindNaturalText,
     walk_string_object_field env tool ''parameters'' True False ScopeSystem]"

definition walkResponsesWebSearchDefinition :: "walk_env \<Rightarrow> node \<Rightarrow> unit walker" where
  "walkResponsesWebSearchDefinition env tool = steps [
     unique env tool [''type'', ''external_web_access'', ''indexed_web_access'', ''filters'', ''user_location'',
       ''search_context_size'', ''search_content_types'', ''return_token_budget''],
     for_each [''external_web_access'', ''indexed_web_access''] (\<lambda>key.
       responsesCheck env tool key KindBoolean False True),
     responsesOptional env tool ''filters'' KindObject (\<lambda>filters. steps [
       unique env filters [''allowed_domains'', ''blocked_domains''],
       for_each [''allowed_domains'', ''blocked_domains''] (\<lambda>key.
         mark_opaque_string_array_field env filters key False True)]),
     responsesOptional env tool ''user_location'' KindObject (\<lambda>location. steps [
       unique env location [''type'', ''country'', ''region'', ''city'', ''timezone''],
       mark_opaque_string_field env location ''type'' True False,
       mark_optional_strings env location [''country'', ''region'', ''city'', ''timezone'']]),
     mark_opaque_string_field env tool ''search_context_size'' False True,
     mark_opaque_string_array_field env tool ''search_content_types'' False True,
     responsesCheck env tool ''return_token_budget'' KindNumber False True]"

definition walkResponsesNamespaceTool :: "walk_env \<Rightarrow> (node \<Rightarrow> unit walker) \<Rightarrow> node \<Rightarrow> unit walker" where
  "walkResponsesNamespaceTool env walk_tools tool = steps [
     unique env tool [''type'', ''name'', ''description'', ''tools''],
     mark_opaque_string_field env tool ''name'' True False,
     add_string_field env tool ''description'' False True ScopeSystem TargetKindNaturalText,
     responsesRequired env tool ''tools'' KindArray walk_tools]"

definition responsesRejectedTools :: "string list" where
  "responsesRejectedTools = [
    ''file_search'', ''computer'', ''computer_use_preview'', ''mcp'', ''code_interpreter'',
    ''programmatic_tool_calling'', ''image_generation'', ''local_shell'', ''shell'', ''apply_patch'']"

definition responsesWebSearchTools :: "string list" where
  "responsesWebSearchTools = [''web_search'', ''web_search_2025_08_26'', ''web_search_preview'',
    ''web_search_preview_2025_03_11'']"

fun walkResponsesRootTools :: "walk_env \<Rightarrow> nat \<Rightarrow> node \<Rightarrow> unit walker" where
  "walkResponsesRootTools env 0 tools = fail TreeFuel"
| "walkResponsesRootTools env (Suc fuel) tools =
    (if n_kind tools \<noteq> KindArray then shape env tools ''array'' ''tools''
     else each_object env tools ''tool definition is not an object'' (\<lambda>tool.
       with_type env tool (\<lambda>t.
         if t = ''function'' then walkResponsesFunctionTool env tool
         else if t = ''custom'' then walkResponsesCustomTool env tool
         else if t = ''namespace'' then walkResponsesNamespaceTool env (walkResponsesRootTools env fuel) tool
         else if t = ''tool_search'' then walkResponsesToolSearchDefinition env tool
         else if t \<in> set responsesWebSearchTools then walkResponsesWebSearchDefinition env tool
         else if t \<in> set responsesRejectedTools
         then unsupported env tool ''root tool definition variant is not admitted''
         else unsupported_value env tool ''unknown root tool definition type '' t)))"

section \<open>The contract\<close>

context walk_contract
begin

lemma safe_field_of_kind: "safe I (responsesFieldOfKind env obj key k required nullable)"
  unfolding responsesFieldOfKind_def
  by (intro safe_bind safe_field safe_case_option safe_if safe_missing safe_shape safe_ret)

lemma field_of_kind_member: "responsesFieldOfKind env obj key k required nullable s = (Inr (Some v), t) \<Longrightarrow>
    \<exists>k. (k, v) \<in> set (n_object obj)"
  by (auto simp: responsesFieldOfKind_def bind_Inr_iff shape_def missing_def split: option.splits if_splits
      dest: field_member)

lemma field_of_kind_required: "responsesFieldOfKind env obj key k True False s = (Inr v, t) \<Longrightarrow> v \<noteq> None"
  by (auto simp: responsesFieldOfKind_def bind_Inr_iff shape_def missing_def split: option.splits if_splits)

lemma bind_field_of_kind [walk_rules]:
  assumes "N obj" and "safe I (f None)" and "\<And>v. N v \<Longrightarrow> size v < size obj \<Longrightarrow> safe I (f (Some v))"
  shows "safe I (bind (responsesFieldOfKind env obj key k required nullable) f)"
  by (rule bind_child [OF assms(1) safe_field_of_kind field_of_kind_member assms(2,3)])

lemma responses_check [walk_rules]: "safe I (responsesCheck env obj key k required nullable)"
  unfolding responsesCheck_def by (intro safe_seq safe_field_of_kind safe_ret)

lemma responses_optional [walk_rules]:
  "N obj \<Longrightarrow> (\<And>v. N v \<Longrightarrow> size v < size obj \<Longrightarrow> safe I (act v)) \<Longrightarrow> safe I (responsesOptional env obj key k act)"
  unfolding responsesOptional_def by (rule bind_field_of_kind) (auto intro: safe_ret)

lemma responses_required [walk_rules]:
  assumes "N obj" and "\<And>v. N v \<Longrightarrow> size v < size obj \<Longrightarrow> safe I (act v)"
  shows "safe I (responsesRequired env obj key k act)"
  unfolding responsesRequired_def
proof (rule safe_bind_post [where Q = "\<lambda>v. child_option obj (Some v)"])
  have need: "safe I (need v)" if "v \<noteq> None" for v :: "node option"
    using that safe_ret by (auto simp: need_def)
  show "safe I (bind (responsesFieldOfKind env obj key k True False) need)"
    by (rule safe_bind_post [OF safe_field_of_kind field_of_kind_required need])
  show "child_option obj (Some v)" if "bind (responsesFieldOfKind env obj key k True False) need s = (Inr v, t)" for s v t
  proof -
    from that obtain u where "responsesFieldOfKind env obj key k True False s = (Inr (Some v), u)"
      by (auto simp: bind_Inr_iff need_Inr)
    from child [OF assms(1)] field_of_kind_member [OF this] show ?thesis by (simp add: child_option_def)
  qed
  show "safe I (act v)" if "child_option obj (Some v)" for v
    using that assms(2) by (simp add: child_option_def)
qed

lemma responses_untrusted [walk_rules]: "N v \<Longrightarrow> safe I (walkResponsesUntrustedMetadata env v)"
proof (induction v rule: node_descent)
  case (1 v)
  then show ?case
    by (cases v) (fastforce intro!: walk_rules intro: N_member N_item)
qed

lemma responses_metadata [walk_rules]: "N v \<Longrightarrow> safe I (walkResponsesClientMetadata env v)"
  unfolding walkResponsesClientMetadata_def walkResponsesMetadataEntry_def by (intro walk_rules; assumption)

lemma responses_config [walk_rules]:
  "N v \<Longrightarrow> safe I (walkResponsesModeration env v)"
  "N v \<Longrightarrow> safe I (walkResponsesPromptCacheOptions env v)"
  "N v \<Longrightarrow> safe I (walkResponsesStreamOptions env v)"
  "N v \<Longrightarrow> safe I (walkResponsesReasoningConfig env v)"
  "N v \<Longrightarrow> safe I (walkResponsesTextConfig env v)"
  "N v \<Longrightarrow> safe I (walkResponsesToolChoice env v)"
  unfolding walkResponsesModeration_def walkResponsesPromptCacheOptions_def walkResponsesStreamOptions_def
    walkResponsesReasoningConfig_def walkResponsesTextConfig_def walkResponsesToolChoice_def
  by (intro walk_rules; assumption)+

lemma responses_controls [walk_rules]: "N v \<Longrightarrow> safe I (walkResponsesRootControls env v)"
  unfolding walkResponsesRootControls_def by (intro walk_rules; assumption)

lemma responses_references [walk_rules]: "N v \<Longrightarrow> safe I (walkResponsesRootReferences env v)"
  unfolding walkResponsesRootReferences_def by (intro walk_rules; assumption)

lemma responses_tool_definitions [walk_rules]:
  "N v \<Longrightarrow> safe I (walkResponsesFunctionTool env v)"
  "N v \<Longrightarrow> safe I (walkResponsesCustomTool env v)"
  "N v \<Longrightarrow> safe I (walkResponsesToolSearchDefinition env v)"
  "N v \<Longrightarrow> safe I (walkResponsesWebSearchDefinition env v)"
  unfolding walkResponsesFunctionTool_def walkResponsesCustomTool_def walkResponsesToolSearchDefinition_def
    walkResponsesWebSearchDefinition_def
  by (intro walk_rules; assumption)+

lemma responses_namespace:
  assumes "N v" and "\<And>x. N x \<Longrightarrow> size x < size v \<Longrightarrow> safe I (walk_tools x)"
  shows "safe I (walkResponsesNamespaceTool env walk_tools v)"
  unfolding walkResponsesNamespaceTool_def
  by (insert assms(1)) (intro walk_rules assms(2); assumption)

lemma responses_tools: "N v \<Longrightarrow> size v < fuel \<Longrightarrow> safe I (walkResponsesRootTools env fuel v)"
proof (induction fuel arbitrary: v)
  case (Suc fuel)
  have r: "safe I (walkResponsesNamespaceTool env (walkResponsesRootTools env fuel) x)"
    if "N x" "size x < size v" for x
    by (rule responses_namespace [OF that(1)]) (use that(2) Suc.IH Suc.prems(2) in auto)
  show ?case
    unfolding walkResponsesRootTools.simps
    by (insert Suc.prems(1)) (intro walk_rules r; assumption)
qed simp

end

end
