(* ===== verification/Walk_Responses.thy ===== *)
theory Walk_Responses
  imports Responses_Config
begin

text \<open>
  The second half of \<open>walker/responses.go\<close>: the input items of a Responses request, one
  definition per item type, the message content, and \<open>walkResponses\<close> itself.
\<close>

section \<open>Content\<close>

definition walkResponsesCacheBreakpoint :: "walk_env \<Rightarrow> node \<Rightarrow> unit walker" where
  "walkResponsesCacheBreakpoint env obj =
     optional_field env obj ''prompt_cache_breakpoint'' (\<lambda>breakpoint.
       if n_kind breakpoint \<noteq> KindObject then shape env breakpoint ''object'' ''prompt_cache_breakpoint''
       else seq (unique env breakpoint [''mode'']) (bind (required_string env breakpoint ''mode'') (mark_opaque env)))"

definition walkResponsesInputContent :: "walk_env \<Rightarrow> node \<Rightarrow> scope \<Rightarrow> target_kind \<Rightarrow> unit walker" where
  "walkResponsesInputContent env block scope kind =
    (if n_kind block \<noteq> KindObject then shape env block ''object'' ''input content''
     else seq (unique env block [''type'', ''text'', ''file_id'', ''image_url'', ''detail'', ''file_data'', ''file_url'',
         ''filename'', ''prompt_cache_breakpoint''])
       (with_type env block (\<lambda>t.
         seq (walkResponsesCacheBreakpoint env block)
         (if t = ''input_text'' then add_required env block ''text'' scope kind MutabilityDirect
          else if t = ''input_image'' then mark_optional_strings env block [''file_id'', ''image_url'', ''detail'']
          else if t = ''input_file''
          then mark_optional_strings env block [''file_data'', ''file_id'', ''file_url'', ''filename'', ''detail'']
          else unsupported_value env block ''unknown input content type '' t))))"

text \<open>\<open>walkResponsesOutputAnnotations\<close>: the loop answers whether the text may be changed.\<close>

fun responsesAnnotations :: "walk_env \<Rightarrow> node \<Rightarrow> node list \<Rightarrow> bool walker" where
  "responsesAnnotations env block [] = ret True"
| "responsesAnnotations env block (annotation # annotations) =
    (if n_kind annotation \<noteq> KindObject then
       seq (unsupported env block ''output-text annotation is not an object'') (ret False)
     else
       bind (required_string env annotation ''type'') (\<lambda>type_node.
       seq (mark_opaque env type_node)
       (let t = token_value type_node in
        if t = ''file_citation'' then
          seq (steps [
            unique env annotation [''type'', ''file_id'', ''filename'', ''index''],
            mark_opaque_string_field env annotation ''file_id'' True False,
            mark_opaque_string_field env annotation ''filename'' True False,
            responsesCheck env annotation ''index'' KindNumber True False])
          (responsesAnnotations env block annotations)
        else if t = ''file_path'' then
          seq (steps [
            unique env annotation [''type'', ''file_id'', ''index''],
            mark_opaque_string_field env annotation ''file_id'' True False,
            responsesCheck env annotation ''index'' KindNumber True False])
          (responsesAnnotations env block annotations)
        else if t = ''url_citation'' \<or> t = ''container_file_citation'' then
          seq (unsupported env block ''output text has position-coupled annotations'') (ret False)
        else seq (unsupported_value env block ''unknown output-text annotation type '' t) (ret False))))"

definition walkResponsesOutputAnnotations :: "walk_env \<Rightarrow> node \<Rightarrow> bool walker" where
  "walkResponsesOutputAnnotations env block =
     bind (field env block ''annotations'') (\<lambda>annotations. case annotations of
       None \<Rightarrow> ret True
     | Some annotations \<Rightarrow>
         if n_kind annotations = KindNull then ret True
         else if n_kind annotations \<noteq> KindArray then shape env annotations ''array or null'' ''annotations''
         else responsesAnnotations env block (n_array annotations))"

definition responsesOutputText :: "walk_env \<Rightarrow> node \<Rightarrow> unit walker" where
  "responsesOutputText env block =
     bind (field env block ''logprobs'') (\<lambda>logprobs. case logprobs of
       None \<Rightarrow> add_required env block ''text'' ScopeAssistant TargetKindNaturalText MutabilityDirect
     | Some logprobs \<Rightarrow>
         if n_kind logprobs \<noteq> KindNull \<and> n_kind logprobs \<noteq> KindArray
         then shape env logprobs ''array or null'' ''logprobs''
         else if n_kind logprobs = KindArray \<and> length (n_array logprobs) \<noteq> 0
         then unsupported env block ''output text has integrity-coupled logprobs''
         else add_required env block ''text'' ScopeAssistant TargetKindNaturalText MutabilityDirect)"

definition walkResponsesOutputContent :: "walk_env \<Rightarrow> node \<Rightarrow> unit walker" where
  "walkResponsesOutputContent env block =
     seq (unique env block [''type'', ''text'', ''refusal'', ''annotations'', ''logprobs''])
     (with_type env block (\<lambda>t.
        if t = ''output_text'' then
          bind (walkResponsesOutputAnnotations env block) (\<lambda>safe_text.
            if \<not> safe_text then ret () else responsesOutputText env block)
        else if t = ''refusal'' then
          add_required env block ''refusal'' ScopeAssistant TargetKindNaturalText MutabilityDirect
        else unsupported_value env block ''unknown output content type '' t))"

definition responsesMessageBlock :: "walk_env \<Rightarrow> scope \<Rightarrow> node \<Rightarrow> unit walker" where
  "responsesMessageBlock env scope block =
     with_type env block (\<lambda>t.
       if t = ''input_text'' \<or> t = ''input_image'' \<or> t = ''input_file'' then
         walkResponsesInputContent env block scope TargetKindNaturalText
       else if t = ''output_text'' \<or> t = ''refusal'' then
         (if scope \<noteq> ScopeAssistant then unsupported env block ''output content outside assistant message''
          else walkResponsesOutputContent env block)
       else if t = ''text'' then steps [
         unique env block [''type'', ''text'', ''id'', ''name'', ''call_id'', ''signature'', ''prompt_cache_breakpoint''],
         mark_optional_strings env block [''id'', ''name'', ''call_id'', ''signature''],
         walkResponsesCacheBreakpoint env block,
         add_required env block ''text'' scope
           (if scope = ScopeToolOutput then TargetKindToolOutput else TargetKindNaturalText) MutabilityDirect]
       else unsupported_value env block ''unknown message content type '' t)"

definition walkResponsesMessage :: "walk_env \<Rightarrow> node \<Rightarrow> unit walker" where
  "walkResponsesMessage env message = steps [
     unique env message [''type'', ''role'', ''content'', ''id'', ''status'', ''phase''],
     mark_optional_strings env message [''id'', ''status'', ''phase''],
     bind (required_string env message ''role'') (\<lambda>role_node.
     seq (mark_opaque env role_node)
     (case scope_for_role (token_value role_node) of
        None \<Rightarrow> unsupported_value env role_node ''unknown message role '' (token_value role_node)
      | Some scope \<Rightarrow>
          bind (field env message ''content'') (\<lambda>content. case content of
            None \<Rightarrow> missing env message ''content'' ''string or array''
          | Some content \<Rightarrow>
              if n_kind content = KindString then
                (if scope = ScopeToolOutput then add env content scope TargetKindToolOutput MutabilityJSONOrPlain
                 else add env content scope TargetKindNaturalText MutabilityDirect)
              else if n_kind content \<noteq> KindArray then shape env content ''string or array'' ''message content''
              else each_object env content ''message content element is not an object''
                (responsesMessageBlock env scope))))]"

definition walkResponsesPrompt :: "walk_env \<Rightarrow> node \<Rightarrow> unit walker" where
  "walkResponsesPrompt env prompt =
    (if n_kind prompt \<noteq> KindObject then shape env prompt ''object'' ''prompt''
     else steps [
       unique env prompt [''variables'', ''id'', ''version'', ''name''],
       mark_optional_strings env prompt [''id'', ''version'', ''name''],
       optional_field env prompt ''variables'' (\<lambda>variables.
         if n_kind variables \<noteq> KindObject then shape env variables ''object'' ''prompt variables''
         else for_each (n_object variables) (\<lambda>variable.
           case n_kind (snd variable) of
             KindString \<Rightarrow> add env (snd variable) ScopeUser TargetKindJSONValue MutabilityDirect
           | KindObject \<Rightarrow> walkResponsesInputContent env (snd variable) ScopeUser TargetKindJSONValue
           | _ \<Rightarrow> unsupported env (snd variable) ''prompt variable is not a supported v3.42.0 variant''))])"

section \<open>Shared item fields\<close>

definition walkResponsesCallerField :: "walk_env \<Rightarrow> node \<Rightarrow> unit walker" where
  "walkResponsesCallerField env obj =
     optional_field env obj ''caller'' (\<lambda>caller.
       if n_kind caller \<noteq> KindObject then shape env caller ''object'' ''caller''
       else seq (unique env caller [''type'', ''caller_id''])
         (with_type env caller (\<lambda>t.
            if t = ''direct'' then ret ()
            else if t = ''program'' then bind (required_string env caller ''caller_id'') (mark_opaque env)
            else unsupported_value env caller ''unknown caller type '' t)))"

definition walkResponsesEnvironmentField :: "walk_env \<Rightarrow> node \<Rightarrow> unit walker" where
  "walkResponsesEnvironmentField env obj =
     optional_field env obj ''environment'' (\<lambda>environment.
       if n_kind environment \<noteq> KindObject then shape env environment ''object'' ''environment''
       else seq (unique env environment [''type'', ''container_id'', ''skills''])
         (with_type env environment (\<lambda>t.
            if t = ''container_reference'' then bind (required_string env environment ''container_id'') (mark_opaque env)
            else if t = ''local'' then
              optional_field env environment ''skills'' (\<lambda>skills.
                if n_kind skills \<noteq> KindArray then shape env skills ''array'' ''local skills''
                else each_object env skills ''local skill is not an object'' (\<lambda>skill. steps [
                  unique env skill [''name'', ''description'', ''path''],
                  mark_optional_strings env skill [''name'', ''path''],
                  add_string_field env skill ''description'' False True ScopeSystem TargetKindNaturalText]))
            else unsupported_value env environment ''unknown environment type '' t)))"

definition walkResponsesSafetyChecks :: "walk_env \<Rightarrow> node \<Rightarrow> string \<Rightarrow> bool \<Rightarrow> unit walker" where
  "walkResponsesSafetyChecks env item key required =
     bind (field env item key) (\<lambda>checks. case checks of
       None \<Rightarrow> if required then missing env item key ''array'' else ret ()
     | Some checks \<Rightarrow>
         if n_kind checks \<noteq> KindArray then shape env checks ''array'' key
         else each_object env checks ''safety check is not an object'' (\<lambda>check. steps [
           unique env check [''id'', ''code'', ''message''],
           mark_optional_strings env check [''id'', ''code'', ''message'']]))"

definition walkResponsesCoordinates :: "walk_env \<Rightarrow> node \<Rightarrow> string list \<Rightarrow> unit walker" where
  "walkResponsesCoordinates env action keys =
     for_each keys (\<lambda>key. responsesCheck env action key KindNumber True False)"

definition walkResponsesDragPath :: "walk_env \<Rightarrow> node \<Rightarrow> unit walker" where
  "walkResponsesDragPath env action =
     responsesRequired env action ''path'' KindArray (\<lambda>path. for_each (n_array path) (\<lambda>point.
       if n_kind point \<noteq> KindObject then shape env point ''object'' ''drag path element''
       else steps [unique env point [''x'', ''y''], walkResponsesCoordinates env point [''x'', ''y'']]))"

text \<open>A nullable string field that is selected, with the detail of its error.\<close>

definition responsesNullableText ::
  "walk_env \<Rightarrow> node \<Rightarrow> string \<Rightarrow> string \<Rightarrow> scope \<Rightarrow> target_kind \<Rightarrow> mutability \<Rightarrow> unit walker" where
  "responsesNullableText env item key detail scope kind mutable =
     optional_field env item key (\<lambda>v.
       if n_kind v \<noteq> KindString then shape env v ''string or null'' detail else add env v scope kind mutable)"

definition responsesStringMap :: "walk_env \<Rightarrow> node \<Rightarrow> scope \<Rightarrow> unit walker" where
  "responsesStringMap env value scope =
    (if n_kind value \<noteq> KindObject then shape env value ''object'' ''string map''
     else for_each (n_object value) (\<lambda>entry.
       if n_kind (snd entry) \<noteq> KindString then unsupported env (snd entry) ''string-map value is not a string''
       else add env (snd entry) scope TargetKindJSONValue MutabilityDirect))"

section \<open>Search and computer items\<close>

definition responsesSearchResult :: "walk_env \<Rightarrow> node \<Rightarrow> unit walker" where
  "responsesSearchResult env result = steps [
     unique env result [''file_id'', ''filename'', ''score'', ''text'', ''attributes''],
     mark_optional_strings env result [''file_id'', ''filename''],
     bind (string_field env result ''text'' False) (\<lambda>t. case t of
       None \<Rightarrow> ret () | Some t \<Rightarrow> add env t ScopeToolOutput TargetKindToolOutput MutabilityDirect),
     bind (field env result ''attributes'') (\<lambda>attributes. case attributes of
       None \<Rightarrow> ret ()
     | Some attributes \<Rightarrow>
         if n_kind attributes \<noteq> KindObject then shape env attributes ''object'' ''file-search attributes''
         else for_each (n_object attributes) (\<lambda>attribute.
           case n_kind (snd attribute) of
             KindString \<Rightarrow> add env (snd attribute) ScopeToolOutput TargetKindJSONValue MutabilityDirect
           | KindNumber \<Rightarrow> ret ()
           | KindBoolean \<Rightarrow> ret ()
           | _ \<Rightarrow> unsupported env (snd attribute) ''file-search attribute has unsupported type''))]"

definition walkResponsesFileSearch :: "walk_env \<Rightarrow> node \<Rightarrow> unit walker" where
  "walkResponsesFileSearch env item = steps [
     unique env item [''type'', ''id'', ''queries'', ''status'', ''results''],
     mark_optional_strings env item [''id'', ''status''],
     bind (required_array env item ''queries'') (\<lambda>queries.
       each_string env queries ''file-search query is not a string'' (\<lambda>q.
         add env q ScopeToolInput TargetKindNaturalText MutabilityDirect)),
     optional_field env item ''results'' (\<lambda>results.
       if n_kind results \<noteq> KindArray then shape env results ''array'' ''file-search results''
       else each_object env results ''file-search result is not an object'' (responsesSearchResult env))]"

definition walkResponsesComputerAction :: "walk_env \<Rightarrow> node \<Rightarrow> unit walker" where
  "walkResponsesComputerAction env action =
    (if n_kind action \<noteq> KindObject then unsupported env action ''computer action is not an object''
     else seq (unique env action [''type'', ''text'', ''button'', ''keys'', ''path'', ''x'', ''y'', ''scroll_x'', ''scroll_y''])
       (with_type env action (\<lambda>t.
         if t = ''type'' then steps [
           unique env action [''type'', ''text''],
           add_required env action ''text'' ScopeToolInput TargetKindNaturalText MutabilityDirect]
         else if t = ''click'' then steps [
           unique env action [''type'', ''button'', ''keys'', ''x'', ''y''],
           mark_opaque_string_field env action ''button'' True False,
           mark_opaque_string_array_field env action ''keys'' False True,
           walkResponsesCoordinates env action [''x'', ''y'']]
         else if t = ''double_click'' then steps [
           unique env action [''type'', ''keys'', ''x'', ''y''],
           mark_opaque_string_array_field env action ''keys'' True False,
           walkResponsesCoordinates env action [''x'', ''y'']]
         else if t = ''drag'' then steps [
           unique env action [''type'', ''path'', ''keys''],
           mark_opaque_string_array_field env action ''keys'' False True,
           walkResponsesDragPath env action]
         else if t = ''keypress'' then steps [
           unique env action [''type'', ''keys''],
           mark_opaque_string_array_field env action ''keys'' True False]
         else if t = ''move'' then steps [
           unique env action [''type'', ''keys'', ''x'', ''y''],
           mark_opaque_string_array_field env action ''keys'' False True,
           walkResponsesCoordinates env action [''x'', ''y'']]
         else if t = ''scroll'' then steps [
           unique env action [''type'', ''keys'', ''scroll_x'', ''scroll_y'', ''x'', ''y''],
           mark_opaque_string_array_field env action ''keys'' False True,
           walkResponsesCoordinates env action [''scroll_x'', ''scroll_y'', ''x'', ''y'']]
         else if t = ''screenshot'' \<or> t = ''wait'' then unique env action [''type'']
         else unsupported_value env action ''unknown computer action type '' t)))"

definition walkResponsesComputerCall :: "walk_env \<Rightarrow> node \<Rightarrow> unit walker" where
  "walkResponsesComputerCall env item = steps [
     unique env item [''type'', ''id'', ''call_id'', ''pending_safety_checks'', ''status'', ''action'', ''actions''],
     mark_optional_strings env item [''id'', ''call_id'', ''status''],
     walkResponsesSafetyChecks env item ''pending_safety_checks'' True,
     bind (field env item ''action'') (\<lambda>action.
     bind (field env item ''actions'') (\<lambda>actions.
     seq (case action of None \<Rightarrow> ret () | Some action \<Rightarrow> walkResponsesComputerAction env action)
     (case actions of
        None \<Rightarrow> ret ()
      | Some actions \<Rightarrow>
          if n_kind actions \<noteq> KindArray then shape env actions ''array'' ''computer actions''
          else for_each (n_array actions) (walkResponsesComputerAction env))))]"

definition walkResponsesComputerOutput :: "walk_env \<Rightarrow> node \<Rightarrow> unit walker" where
  "walkResponsesComputerOutput env item = steps [
     unique env item [''type'', ''call_id'', ''output'', ''id'', ''acknowledged_safety_checks'', ''status''],
     mark_optional_strings env item [''call_id'', ''id'', ''status''],
     walkResponsesSafetyChecks env item ''acknowledged_safety_checks'' False,
     bind (required_object env item ''output'') (\<lambda>output.
       seq (unique env output [''type'', ''file_id'', ''image_url''])
       (with_type env output (\<lambda>t.
         if t \<noteq> ''computer_screenshot'' then unsupported_value env output ''unknown computer output type '' t
         else mark_optional_strings env output [''file_id'', ''image_url''])))]"

definition walkResponsesWebSearchSources :: "walk_env \<Rightarrow> node \<Rightarrow> unit walker" where
  "walkResponsesWebSearchSources env action =
     optional_field env action ''sources'' (\<lambda>sources.
       if n_kind sources \<noteq> KindArray then shape env sources ''array'' ''web-search sources''
       else each_object env sources ''web-search source is not an object'' (\<lambda>source.
         seq (unique env source [''type'', ''url''])
         (with_type env source (\<lambda>t.
            if t \<noteq> ''url'' then unsupported_value env source ''unknown web-search source type '' t
            else bind (required_string env source ''url'') (mark_opaque env)))))"

definition walkResponsesWebSearch :: "walk_env \<Rightarrow> node \<Rightarrow> unit walker" where
  "walkResponsesWebSearch env item = steps [
     unique env item [''type'', ''id'', ''action'', ''status''],
     mark_optional_strings env item [''id'', ''status''],
     bind (required_object env item ''action'') (\<lambda>action.
       seq (unique env action [''type'', ''query'', ''queries'', ''sources'', ''url'', ''pattern''])
       (with_type env action (\<lambda>t.
         if t = ''search'' then steps [
           bind (string_field env action ''query'' False) (\<lambda>q. case q of
             None \<Rightarrow> ret () | Some q \<Rightarrow> add env q ScopeToolInput TargetKindNaturalText MutabilityDirect),
           bind (field env action ''queries'') (\<lambda>queries. case queries of
             None \<Rightarrow> ret ()
           | Some queries \<Rightarrow>
               if n_kind queries \<noteq> KindArray then shape env queries ''array'' ''web-search queries''
               else each_string env queries ''web-search query is not a string'' (\<lambda>q.
                 add env q ScopeToolInput TargetKindNaturalText MutabilityDirect)),
           walkResponsesWebSearchSources env action]
         else if t = ''open_page'' then mark_opaque_string_field env action ''url'' False True
         else if t = ''find_in_page'' then steps [
           mark_opaque_string_field env action ''url'' True False,
           add_required env action ''pattern'' ScopeToolInput TargetKindNaturalText MutabilityDirect]
         else unsupported_value env action ''unknown web-search action type '' t)))]"

section \<open>Calls and their outputs\<close>

definition walkResponsesFunctionCall :: "walk_env \<Rightarrow> node \<Rightarrow> unit walker" where
  "walkResponsesFunctionCall env item = steps [
     unique env item [''type'', ''arguments'', ''call_id'', ''id'', ''name'', ''namespace'', ''caller'', ''status''],
     mark_optional_strings env item [''call_id'', ''id'', ''name'', ''namespace'', ''status''],
     walkResponsesCallerField env item,
     add_required env item ''arguments'' ScopeToolInput TargetKindEncodedJSON MutabilityEncodedJSON]"

definition walkResponsesCallOutput :: "walk_env \<Rightarrow> node \<Rightarrow> bool \<Rightarrow> unit walker" where
  "walkResponsesCallOutput env item custom = steps [
     unique env item [''type'', ''output'', ''call_id'', ''id'', ''caller'', ''status''],
     mark_optional_strings env item [''call_id'', ''id'', ''status''],
     walkResponsesCallerField env item,
     bind (field env item ''output'') (\<lambda>output. case output of
       None \<Rightarrow> missing env item ''output'' ''string or content list''
     | Some output \<Rightarrow>
         (case n_kind output of
            KindString \<Rightarrow> add env output ScopeToolOutput TargetKindToolOutput MutabilityJSONOrPlain
          | KindArray \<Rightarrow> for_each (n_array output) (\<lambda>block.
              walkResponsesInputContent env block ScopeToolOutput TargetKindToolOutput)
          | _ \<Rightarrow> shape env output ''string or array''
              (if custom then ''custom-tool-call output'' else ''function-call output'')))]"

definition walkResponsesToolSearchCall :: "walk_env \<Rightarrow> node \<Rightarrow> unit walker" where
  "walkResponsesToolSearchCall env item = steps [
     unique env item [''type'', ''arguments'', ''id'', ''call_id'', ''status'', ''execution''],
     mark_optional_strings env item [''id'', ''call_id'', ''status'', ''execution''],
     bind (field env item ''arguments'') (\<lambda>arguments. case arguments of
       None \<Rightarrow> missing env item ''arguments'' ''JSON value''
     | Some arguments \<Rightarrow> walk_string_values env arguments ScopeToolInput TargetKindJSONValue)]"

definition walkResponsesCustomCall :: "walk_env \<Rightarrow> node \<Rightarrow> unit walker" where
  "walkResponsesCustomCall env item = steps [
     unique env item [''type'', ''input'', ''call_id'', ''id'', ''name'', ''namespace'', ''caller'', ''status''],
     mark_optional_strings env item [''call_id'', ''id'', ''name'', ''namespace'', ''status''],
     walkResponsesCallerField env item,
     add_required env item ''input'' ScopeToolInput TargetKindEncodedJSON MutabilityJSONOrPlain]"

definition walkResponsesProgramOutput :: "walk_env \<Rightarrow> node \<Rightarrow> unit walker" where
  "walkResponsesProgramOutput env item = steps [
     unique env item [''type'', ''result'', ''id'', ''call_id'', ''status''],
     mark_optional_strings env item [''id'', ''call_id'', ''status''],
     add_required env item ''result'' ScopeToolOutput TargetKindToolOutput MutabilityJSONOrPlain]"

section \<open>Replayed items\<close>

definition walkResponsesReasoningParts :: "walk_env \<Rightarrow> node \<Rightarrow> string \<Rightarrow> string \<Rightarrow> bool \<Rightarrow> unit walker" where
  "walkResponsesReasoningParts env item key expected_type required =
     bind (responsesFieldOfKind env item key KindArray required (\<not> required)) (\<lambda>parts. case parts of
       None \<Rightarrow> ret ()
     | Some parts \<Rightarrow> for_each (n_array parts) (\<lambda>part.
         if n_kind part \<noteq> KindObject then shape env part ''object'' (key @ '' element'')
         else seq (unique env part [''type'', ''text''])
           (with_type env part (\<lambda>t.
              if t \<noteq> expected_type then unsupported_value env part ''unknown reasoning replay content type '' t
              else add_required env part ''text'' ScopeAssistant TargetKindNaturalText MutabilityDirect))))"

definition walkResponsesReasoningReplay :: "walk_env \<Rightarrow> node \<Rightarrow> unit walker" where
  "walkResponsesReasoningReplay env item = steps [
     unique env item [''type'', ''id'', ''summary'', ''encrypted_content'', ''content'', ''status''],
     mark_opaque_string_field env item ''id'' True False,
     mark_opaque_string_field env item ''encrypted_content'' False True,
     mark_opaque_string_field env item ''status'' False True,
     walkResponsesReasoningParts env item ''summary'' ''summary_text'' True,
     walkResponsesReasoningParts env item ''content'' ''reasoning_text'' False]"

definition walkResponsesCompactionReplay :: "walk_env \<Rightarrow> node \<Rightarrow> unit walker" where
  "walkResponsesCompactionReplay env item = steps [
     unique env item [''type'', ''encrypted_content'', ''id''],
     mark_opaque_string_field env item ''encrypted_content'' True False,
     mark_opaque_string_field env item ''id'' False True]"

definition walkResponsesImageGenerationReplay :: "walk_env \<Rightarrow> node \<Rightarrow> unit walker" where
  "walkResponsesImageGenerationReplay env item = steps [
     unique env item [''type'', ''result'', ''id'', ''status''],
     mark_opaque_string_field env item ''result'' True True,
     mark_opaque_string_field env item ''id'' True False,
     mark_opaque_string_field env item ''status'' True False]"

definition walkResponsesCodeInterpreter :: "walk_env \<Rightarrow> node \<Rightarrow> unit walker" where
  "walkResponsesCodeInterpreter env item = steps [
     unique env item [''type'', ''code'', ''outputs'', ''id'', ''container_id'', ''status''],
     mark_optional_strings env item [''id'', ''container_id'', ''status''],
     responsesNullableText env item ''code'' ''code'' ScopeToolInput TargetKindCode MutabilityDirect,
     optional_field env item ''outputs'' (\<lambda>outputs.
       if n_kind outputs \<noteq> KindArray then shape env outputs ''array or null'' ''code-interpreter outputs''
       else each_object env outputs ''code-interpreter output is not an object'' (\<lambda>output.
         seq (unique env output [''type'', ''logs'', ''url''])
         (with_type env output (\<lambda>t.
           if t = ''logs'' then
             add_required env output ''logs'' ScopeToolOutput TargetKindExecutionOutput MutabilityDirect
           else if t = ''image'' then mark_opaque_string_field env output ''url'' True False
           else unsupported_value env output ''unknown code-interpreter output type '' t))))]"

section \<open>Shell and patch items\<close>

definition walkResponsesLocalShell :: "walk_env \<Rightarrow> node \<Rightarrow> unit walker" where
  "walkResponsesLocalShell env item = steps [
     unique env item [''type'', ''id'', ''action'', ''call_id'', ''status''],
     mark_optional_strings env item [''id'', ''call_id'', ''status''],
     bind (required_object env item ''action'') (\<lambda>action.
       seq (unique env action [''type'', ''command'', ''env'', ''timeout_ms'', ''user'', ''working_directory''])
       (with_type env action (\<lambda>t.
         if t \<noteq> ''exec'' then unsupported_value env action ''unknown local-shell action type '' t
         else steps [
           mark_optional_strings env action [''user'', ''working_directory''],
           bind (required_array env action ''command'') (\<lambda>commands.
             each_string env commands ''local-shell command is not a string'' (\<lambda>command.
               add env command ScopeToolInput TargetKindCode MutabilityDirect)),
           bind (field env action ''env'') (\<lambda>variables. case variables of
             None \<Rightarrow> missing env action ''env'' ''object''
           | Some variables \<Rightarrow> responsesStringMap env variables ScopeToolInput)])))]"

definition walkResponsesLocalShellOutput :: "walk_env \<Rightarrow> node \<Rightarrow> unit walker" where
  "walkResponsesLocalShellOutput env item = steps [
     unique env item [''type'', ''id'', ''output'', ''status''],
     mark_optional_strings env item [''id'', ''status''],
     add_required env item ''output'' ScopeToolOutput TargetKindToolOutput MutabilityJSONOrPlain]"

definition walkResponsesShellCall :: "walk_env \<Rightarrow> node \<Rightarrow> unit walker" where
  "walkResponsesShellCall env item = steps [
     unique env item [''type'', ''action'', ''call_id'', ''id'', ''caller'', ''environment'', ''status''],
     mark_optional_strings env item [''call_id'', ''id'', ''status''],
     walkResponsesCallerField env item,
     walkResponsesEnvironmentField env item,
     bind (required_object env item ''action'') (\<lambda>action.
       seq (unique env action [''commands'', ''max_output_length'', ''timeout_ms''])
       (bind (required_array env action ''commands'') (\<lambda>commands.
         each_string env commands ''shell command is not a string'' (\<lambda>command.
           add env command ScopeToolInput TargetKindCode MutabilityDirect))))]"

definition walkResponsesShellOutput :: "walk_env \<Rightarrow> node \<Rightarrow> unit walker" where
  "walkResponsesShellOutput env item = steps [
     unique env item [''type'', ''call_id'', ''output'', ''id'', ''max_output_length'', ''caller'', ''status''],
     mark_optional_strings env item [''call_id'', ''id'', ''status''],
     walkResponsesCallerField env item,
     bind (required_array env item ''output'') (\<lambda>output.
       each_object env output ''shell output chunk is not an object'' (\<lambda>chunk. steps [
         unique env chunk [''outcome'', ''stderr'', ''stdout''],
         bind (required_object env chunk ''outcome'') (\<lambda>outcome.
           seq (unique env outcome [''type'', ''exit_code''])
           (with_type env outcome (\<lambda>t.
              if t \<noteq> ''timeout'' \<and> t \<noteq> ''exit'' then unsupported_value env outcome ''unknown shell outcome type '' t
              else ret ()))),
         for_each [''stdout'', ''stderr''] (\<lambda>key.
           add_required env chunk key ScopeToolOutput TargetKindExecutionOutput MutabilityDirect)]))]"

definition walkResponsesApplyPatch :: "walk_env \<Rightarrow> node \<Rightarrow> unit walker" where
  "walkResponsesApplyPatch env item = steps [
     unique env item [''type'', ''call_id'', ''operation'', ''status'', ''id'', ''caller''],
     mark_optional_strings env item [''call_id'', ''status'', ''id''],
     walkResponsesCallerField env item,
     bind (required_object env item ''operation'') (\<lambda>operation.
       seq (unique env operation [''type'', ''diff'', ''path''])
       (with_type env operation (\<lambda>t.
         seq (mark_opaque_string_field env operation ''path'' True False)
         (if t = ''create_file'' \<or> t = ''update_file'' then
            add_required env operation ''diff'' ScopeToolInput TargetKindCode MutabilityDirect
          else if t = ''delete_file'' then ret ()
          else unsupported_value env operation ''unknown apply-patch operation type '' t))))]"

definition walkResponsesApplyPatchOutput :: "walk_env \<Rightarrow> node \<Rightarrow> unit walker" where
  "walkResponsesApplyPatchOutput env item = steps [
     unique env item [''type'', ''call_id'', ''status'', ''id'', ''output'', ''caller''],
     mark_optional_strings env item [''call_id'', ''status'', ''id''],
     walkResponsesCallerField env item,
     responsesNullableText env item ''output'' ''apply-patch output'' ScopeToolOutput TargetKindExecutionOutput
       MutabilityDirect]"

section \<open>MCP items\<close>

definition responsesListedTool :: "walk_env \<Rightarrow> node \<Rightarrow> unit walker" where
  "responsesListedTool env tool = steps [
     unique env tool [''name'', ''description'', ''input_schema'', ''annotations''],
     mark_opaque_string_field env tool ''name'' True False,
     add_string_field env tool ''description'' False True ScopeSystem TargetKindNaturalText,
     bind (field env tool ''input_schema'') (\<lambda>schema. case schema of
       None \<Rightarrow> missing env tool ''input_schema'' ''JSON value''
     | Some schema \<Rightarrow> walk_string_values env schema ScopeSystem TargetKindJSONValue),
     bind (field env tool ''annotations'') (\<lambda>annotations. case annotations of
       None \<Rightarrow> ret ()
     | Some annotations \<Rightarrow> walk_string_values env annotations ScopeSystem TargetKindJSONValue)]"

definition walkResponsesMCPListTools :: "walk_env \<Rightarrow> node \<Rightarrow> unit walker" where
  "walkResponsesMCPListTools env item = steps [
     unique env item [''type'', ''id'', ''server_label'', ''tools'', ''error''],
     mark_optional_strings env item [''id'', ''server_label''],
     responsesNullableText env item ''error'' ''MCP list-tools error'' ScopeToolOutput TargetKindToolOutput
       MutabilityDirect,
     optional_field env item ''tools'' (\<lambda>tools.
       if n_kind tools \<noteq> KindArray then shape env tools ''array or null'' ''MCP listed tools''
       else each_object env tools ''MCP listed tool is not an object'' (responsesListedTool env))]"

definition walkResponsesMCPApprovalRequest :: "walk_env \<Rightarrow> node \<Rightarrow> unit walker" where
  "walkResponsesMCPApprovalRequest env item = steps [
     unique env item [''type'', ''arguments'', ''id'', ''name'', ''server_label''],
     mark_optional_strings env item [''id'', ''name'', ''server_label''],
     add_required env item ''arguments'' ScopeToolInput TargetKindEncodedJSON MutabilityEncodedJSON]"

definition walkResponsesMCPApprovalResponse :: "walk_env \<Rightarrow> node \<Rightarrow> unit walker" where
  "walkResponsesMCPApprovalResponse env item = steps [
     unique env item [''type'', ''approval_request_id'', ''approve'', ''id'', ''reason''],
     mark_optional_strings env item [''approval_request_id'', ''id''],
     responsesNullableText env item ''reason'' ''MCP approval reason'' ScopeUser TargetKindNaturalText MutabilityDirect]"

definition walkResponsesMCPCall :: "walk_env \<Rightarrow> node \<Rightarrow> unit walker" where
  "walkResponsesMCPCall env item = steps [
     unique env item [''type'', ''arguments'', ''error'', ''output'', ''id'', ''approval_request_id'', ''name'',
       ''server_label'', ''status''],
     mark_optional_strings env item [''id'', ''approval_request_id'', ''name'', ''server_label'', ''status''],
     bind (string_field env item ''arguments'' False) (\<lambda>arguments. case arguments of
       None \<Rightarrow> ret ()
     | Some arguments \<Rightarrow> add env arguments ScopeToolInput TargetKindEncodedJSON MutabilityEncodedJSON),
     responsesNullableText env item ''error'' ''MCP error'' ScopeToolOutput TargetKindToolOutput MutabilityDirect,
     responsesNullableText env item ''output'' ''MCP output'' ScopeToolOutput TargetKindToolOutput
       MutabilityJSONOrPlain]"

section \<open>Items\<close>

definition walkResponsesInternalItemMetadata :: "walk_env \<Rightarrow> node \<Rightarrow> unit walker" where
  "walkResponsesInternalItemMetadata env item =
     responsesOptional env item ''internal_chat_message_metadata_passthrough'' KindObject (\<lambda>metadata. steps [
       unique env metadata [''turn_id'', ''create_time'', ''content_item_kinds'', ''cell_id'', ''executed_tool_calls'',
         ''tool_calls_complete''],
       mark_optional_strings env metadata [''turn_id'', ''cell_id''],
       mark_opaque_string_array_field env metadata ''content_item_kinds'' False True,
       responsesCheck env metadata ''create_time'' KindNumber False True,
       responsesCheck env metadata ''tool_calls_complete'' KindBoolean False True,
       optional_field env metadata ''executed_tool_calls'' (walkResponsesUntrustedMetadata env)])"

definition walkResponsesAdditionalTools :: "walk_env \<Rightarrow> node \<Rightarrow> unit walker" where
  "walkResponsesAdditionalTools env item = steps [
     unique env item [''type'', ''id'', ''role'', ''tools''],
     mark_opaque_string_field env item ''id'' False True,
     mark_opaque_string_field env item ''role'' True False,
     responsesRequired env item ''tools'' KindArray (\<lambda>tools. walkResponsesRootTools env (Suc (size tools)) tools)]"

definition walkResponsesReferenceItem :: "walk_env \<Rightarrow> node \<Rightarrow> unit walker" where
  "walkResponsesReferenceItem env item = steps [
     unique env item [''type'', ''id''],
     bind (required_string env item ''id'') (mark_opaque env)]"

definition walkResponsesCompatibilityText :: "walk_env \<Rightarrow> node \<Rightarrow> string \<Rightarrow> unit walker" where
  "walkResponsesCompatibilityText env item item_type = steps [
     unique env item [''type'', ''text''],
     add_required env item ''text'' (if item_type = ''output_text'' then ScopeAssistant else ScopeUser)
       TargetKindNaturalText MutabilityDirect]"

text \<open>The switch on the type of an item: the types that call another function, as a table.\<close>

definition responsesItemWalkers :: "(string \<times> (walk_env \<Rightarrow> node \<Rightarrow> unit walker)) list" where
  "responsesItemWalkers = [
    (''message'', walkResponsesMessage),
    (''file_search_call'', walkResponsesFileSearch),
    (''computer_call'', walkResponsesComputerCall),
    (''computer_call_output'', walkResponsesComputerOutput),
    (''web_search_call'', walkResponsesWebSearch),
    (''function_call'', walkResponsesFunctionCall),
    (''function_call_output'', \<lambda>env item. walkResponsesCallOutput env item False),
    (''tool_search_call'', walkResponsesToolSearchCall),
    (''tool_search_output'', \<lambda>env item. unsupported env item ''tool-search output definitions are not admitted''),
    (''additional_tools'', walkResponsesAdditionalTools),
    (''reasoning'', walkResponsesReasoningReplay),
    (''compaction'', walkResponsesCompactionReplay),
    (''image_generation_call'', walkResponsesImageGenerationReplay),
    (''code_interpreter_call'', walkResponsesCodeInterpreter),
    (''local_shell_call'', walkResponsesLocalShell),
    (''local_shell_call_output'', walkResponsesLocalShellOutput),
    (''shell_call'', walkResponsesShellCall),
    (''shell_call_output'', walkResponsesShellOutput),
    (''apply_patch_call'', walkResponsesApplyPatch),
    (''apply_patch_call_output'', walkResponsesApplyPatchOutput),
    (''mcp_list_tools'', walkResponsesMCPListTools),
    (''mcp_approval_request'', walkResponsesMCPApprovalRequest),
    (''mcp_approval_response'', walkResponsesMCPApprovalResponse),
    (''mcp_call'', walkResponsesMCPCall),
    (''custom_tool_call_output'', \<lambda>env item. walkResponsesCallOutput env item True),
    (''custom_tool_call'', walkResponsesCustomCall),
    (''compaction_trigger'', \<lambda>env item. unique env item [''type'']),
    (''item_reference'', walkResponsesReferenceItem),
    (''program'', \<lambda>env item. unsupported env item ''program code is integrity-coupled to its fingerprint''),
    (''program_output'', walkResponsesProgramOutput),
    (''text'', \<lambda>env item. walkResponsesCompatibilityText env item ''text''),
    (''input_text'', \<lambda>env item. walkResponsesCompatibilityText env item ''input_text''),
    (''output_text'', \<lambda>env item. walkResponsesCompatibilityText env item ''output_text''),
    (''thought'', \<lambda>env item. unsupported env item ''legacy thought item semantics are not admitted'')]"

definition walkResponsesItem :: "walk_env \<Rightarrow> node \<Rightarrow> unit walker" where
  "walkResponsesItem env item =
    (if n_kind item \<noteq> KindObject then unsupported env item ''input array element is not an object''
     else seq (walkResponsesInternalItemMetadata env item)
       (bind (string_field env item ''type'' False) (\<lambda>type_node. case type_node of
          None \<Rightarrow>
            bind (field env item ''content'') (\<lambda>content. case content of
              Some _ \<Rightarrow> walkResponsesMessage env item
            | None \<Rightarrow> unsupported env item ''input item has no type'')
        | Some type_node \<Rightarrow>
            seq (mark_opaque env type_node)
            (case map_of responsesItemWalkers (token_value type_node) of
               Some walk \<Rightarrow> walk env item
             | None \<Rightarrow> unsupported_value env item ''unknown input item type '' (token_value type_node)))))"

definition walkResponsesInput :: "walk_env \<Rightarrow> node \<Rightarrow> unit walker" where
  "walkResponsesInput env input =
    (case n_kind input of
       KindString \<Rightarrow> add env input ScopeUser TargetKindNaturalText MutabilityDirect
     | KindArray \<Rightarrow> for_each (n_array input) (walkResponsesItem env)
     | _ \<Rightarrow> shape env input ''string or array'' ''input'')"

definition walkResponses :: "walk_env \<Rightarrow> node \<Rightarrow> unit walker" where
  "walkResponses env root = steps [
     unique env root [''instructions'', ''input'', ''prompt'', ''context_management'', ''conversation'', ''tools'',
       ''client_metadata''],
     walkResponsesRootControls env root,
     walkResponsesRootReferences env root,
     bind (field env root ''instructions'') (\<lambda>instructions. case instructions of
       None \<Rightarrow> ret ()
     | Some instructions \<Rightarrow>
         (case n_kind instructions of
            KindString \<Rightarrow> add env instructions ScopeSystem TargetKindNaturalText MutabilityDirect
          | KindNull \<Rightarrow> ret ()
          | _ \<Rightarrow> shape env instructions ''string or null'' ''instructions'')),
     optional_field env root ''input'' (walkResponsesInput env),
     bind (field env root ''prompt'') (\<lambda>prompt. case prompt of
       None \<Rightarrow> ret () | Some prompt \<Rightarrow> walkResponsesPrompt env prompt),
     walkResponsesClientMetadata env root,
     bind (field env root ''tools'') (\<lambda>tools. case tools of
       None \<Rightarrow> ret () | Some tools \<Rightarrow> walkResponsesRootTools env (Suc (size tools)) tools)]"

section \<open>The contract\<close>

context walk_contract
begin

lemma responses_content [walk_rules]:
  "N v \<Longrightarrow> safe I (walkResponsesCacheBreakpoint env v)"
  "N v \<Longrightarrow> safe I (walkResponsesInputContent env v scope kind)"
  unfolding walkResponsesInputContent_def walkResponsesCacheBreakpoint_def
  by (intro walk_rules; assumption)+

lemma responses_annotations_loop: "N v \<Longrightarrow> \<forall>x \<in> set xs. N x \<Longrightarrow> safe I (responsesAnnotations env v xs)"
proof (induction xs)
  case (Cons x xs)
  then have "N x" "safe I (responsesAnnotations env v xs)" by auto
  with Cons.prems(1) show ?case
    unfolding responsesAnnotations.simps by - (intro walk_rules; assumption)
qed (simp add: safe_ret)

lemma responses_annotations [walk_rules]:
  assumes "N v" and "\<And>b. safe I (f b)"
  shows "safe I (bind (walkResponsesOutputAnnotations env v) f)"
proof (rule safe_bind [OF _ assms(2)])
  show "safe I (walkResponsesOutputAnnotations env v)"
    unfolding walkResponsesOutputAnnotations_def
    by (insert assms(1)) (intro walk_rules responses_annotations_loop ballI; (assumption | erule (1) N_item))
qed

lemma responses_output_content [walk_rules]: "N v \<Longrightarrow> safe I (walkResponsesOutputContent env v)"
  unfolding walkResponsesOutputContent_def responsesOutputText_def by (intro walk_rules; assumption)

lemma responses_message [walk_rules]: "N v \<Longrightarrow> safe I (walkResponsesMessage env v)"
  unfolding walkResponsesMessage_def responsesMessageBlock_def by (intro walk_rules safe_case_option; assumption)

lemma responses_prompt [walk_rules]: "N v \<Longrightarrow> safe I (walkResponsesPrompt env v)"
  unfolding walkResponsesPrompt_def by (intro walk_rules; assumption)

lemma responses_item_fields [walk_rules]:
  "N v \<Longrightarrow> safe I (walkResponsesCallerField env v)"
  "N v \<Longrightarrow> safe I (walkResponsesEnvironmentField env v)"
  "N v \<Longrightarrow> safe I (walkResponsesSafetyChecks env v key required)"
  "N v \<Longrightarrow> safe I (walkResponsesDragPath env v)"
  "safe I (walkResponsesCoordinates env v keys)"
  "N v \<Longrightarrow> safe I (responsesNullableText env v key detail scope kind mutable)"
  "N v \<Longrightarrow> safe I (responsesStringMap env v scope)"
  unfolding walkResponsesCallerField_def walkResponsesEnvironmentField_def walkResponsesSafetyChecks_def
    walkResponsesDragPath_def walkResponsesCoordinates_def responsesNullableText_def responsesStringMap_def
  by (intro walk_rules; assumption)+

lemma responses_search [walk_rules]:
  "N v \<Longrightarrow> safe I (walkResponsesFileSearch env v)"
  "N v \<Longrightarrow> safe I (walkResponsesWebSearch env v)"
  unfolding walkResponsesFileSearch_def responsesSearchResult_def walkResponsesWebSearch_def
    walkResponsesWebSearchSources_def
  by (intro walk_rules; assumption)+

lemma responses_computer [walk_rules]:
  "N v \<Longrightarrow> safe I (walkResponsesComputerCall env v)"
  "N v \<Longrightarrow> safe I (walkResponsesComputerOutput env v)"
  unfolding walkResponsesComputerCall_def walkResponsesComputerAction_def walkResponsesComputerOutput_def
  by (intro walk_rules; assumption)+

lemma responses_calls [walk_rules]:
  "N v \<Longrightarrow> safe I (walkResponsesFunctionCall env v)"
  "N v \<Longrightarrow> safe I (walkResponsesCallOutput env v custom)"
  "N v \<Longrightarrow> safe I (walkResponsesToolSearchCall env v)"
  "N v \<Longrightarrow> safe I (walkResponsesCustomCall env v)"
  "N v \<Longrightarrow> safe I (walkResponsesProgramOutput env v)"
  unfolding walkResponsesFunctionCall_def walkResponsesCallOutput_def walkResponsesToolSearchCall_def
    walkResponsesCustomCall_def walkResponsesProgramOutput_def
  by (intro walk_rules; assumption)+

lemma responses_reasoning_parts [walk_rules]: "N v \<Longrightarrow> safe I (walkResponsesReasoningParts env v key t required)"
  unfolding walkResponsesReasoningParts_def by (intro walk_rules; assumption)

lemma responses_replay [walk_rules]:
  "N v \<Longrightarrow> safe I (walkResponsesReasoningReplay env v)"
  "N v \<Longrightarrow> safe I (walkResponsesCompactionReplay env v)"
  "N v \<Longrightarrow> safe I (walkResponsesImageGenerationReplay env v)"
  "N v \<Longrightarrow> safe I (walkResponsesCodeInterpreter env v)"
  unfolding walkResponsesReasoningReplay_def walkResponsesCompactionReplay_def
    walkResponsesImageGenerationReplay_def walkResponsesCodeInterpreter_def
  by (intro walk_rules; assumption)+

lemma responses_shell [walk_rules]:
  "N v \<Longrightarrow> safe I (walkResponsesLocalShell env v)"
  "N v \<Longrightarrow> safe I (walkResponsesLocalShellOutput env v)"
  "N v \<Longrightarrow> safe I (walkResponsesShellCall env v)"
  "N v \<Longrightarrow> safe I (walkResponsesShellOutput env v)"
  "N v \<Longrightarrow> safe I (walkResponsesApplyPatch env v)"
  "N v \<Longrightarrow> safe I (walkResponsesApplyPatchOutput env v)"
  unfolding walkResponsesLocalShell_def walkResponsesLocalShellOutput_def walkResponsesShellCall_def
    walkResponsesShellOutput_def walkResponsesApplyPatch_def walkResponsesApplyPatchOutput_def
  by (intro walk_rules; assumption)+

lemma responses_mcp [walk_rules]:
  "N v \<Longrightarrow> safe I (walkResponsesMCPListTools env v)"
  "N v \<Longrightarrow> safe I (walkResponsesMCPApprovalRequest env v)"
  "N v \<Longrightarrow> safe I (walkResponsesMCPApprovalResponse env v)"
  "N v \<Longrightarrow> safe I (walkResponsesMCPCall env v)"
  unfolding walkResponsesMCPListTools_def responsesListedTool_def walkResponsesMCPApprovalRequest_def
    walkResponsesMCPApprovalResponse_def walkResponsesMCPCall_def
  by (intro walk_rules; assumption)+

lemma responses_small_items [walk_rules]:
  "N v \<Longrightarrow> safe I (walkResponsesInternalItemMetadata env v)"
  "N v \<Longrightarrow> safe I (walkResponsesAdditionalTools env v)"
  "N v \<Longrightarrow> safe I (walkResponsesReferenceItem env v)"
  "N v \<Longrightarrow> safe I (walkResponsesCompatibilityText env v t)"
  unfolding walkResponsesInternalItemMetadata_def walkResponsesAdditionalTools_def walkResponsesReferenceItem_def
    walkResponsesCompatibilityText_def
  by (intro walk_rules responses_tools; (assumption | simp))+

lemma responses_item_walkers: "N v \<Longrightarrow> \<forall>w \<in> snd ` set responsesItemWalkers. safe I (w env v)"
  unfolding responsesItemWalkers_def list.set image_insert image_empty snd_conv
  by (intro ballI; elim insertE emptyE; hypsubst; intro walk_rules; assumption)

lemma responses_item [walk_rules]:
  assumes "N v"
  shows "safe I (walkResponsesItem env v)"
proof -
  have "safe I (w env v)" if "map_of responsesItemWalkers t = Some w" for t w
    using responses_item_walkers [OF assms] map_of_SomeD [OF that] by force
  then have w: "safe I (case map_of responsesItemWalkers t of Some walk \<Rightarrow> walk env v
      | None \<Rightarrow> unsupported_value env v d t)" for t d
    using unsupported_value_safe [OF assms] by (auto split: option.split)
  show ?thesis
    unfolding walkResponsesItem_def by (insert assms) (intro walk_rules w; assumption)
qed

lemma responses_input [walk_rules]: "N v \<Longrightarrow> safe I (walkResponsesInput env v)"
  unfolding walkResponsesInput_def by (intro walk_rules; assumption)

lemma responses_safe [walk_rules]: "N v \<Longrightarrow> safe I (walkResponses env v)"
  unfolding walkResponses_def by (intro walk_rules responses_tools; (assumption | simp))

end

end
