(* ===== verification/Registry.thy ===== *)
theory Registry
  imports Walk_Claude Walk_OpenAI Walk_Gemini Walk_Interactions Walk_Responses
begin

text \<open>
  The registry of protocol walkers and \<open>Walk\<close>, the entry point of package \<open>walker\<close>
  (\<open>walker/registry.go\<close>): a body is scanned, its tree is rebuilt, the walker of the source format
  disposes of the strings, and every string it left over is reported. A nil registry is \<open>None\<close>.
\<close>

section \<open>The registry\<close>

record registry_entry =
  re_protocol :: protocol
  re_walk :: "walk_env \<Rightarrow> node \<Rightarrow> unit walker"
  re_alias :: bool

type_synonym registry = "(string \<times> registry_entry) list"

definition NewRegistry :: registry where
  "NewRegistry = [
     (protocol_string ProtocolOpenAI,
        \<lparr>re_protocol = ProtocolOpenAI, re_walk = walkOpenAI, re_alias = False\<rparr>),
     (protocol_string ProtocolOpenAIResponse,
        \<lparr>re_protocol = ProtocolOpenAIResponse, re_walk = walkResponses, re_alias = False\<rparr>),
     (protocol_string ProtocolClaude,
        \<lparr>re_protocol = ProtocolClaude, re_walk = walkClaude, re_alias = False\<rparr>),
     (protocol_string ProtocolGemini,
        \<lparr>re_protocol = ProtocolGemini, re_walk = walkGemini, re_alias = False\<rparr>),
     (protocol_string ProtocolInteractions,
        \<lparr>re_protocol = ProtocolInteractions, re_walk = walkInteractions, re_alias = False\<rparr>),
     (''gemini-cli'',
        \<lparr>re_protocol = ProtocolInteractions, re_walk = walkInteractions, re_alias = True\<rparr>)]"

definition registry_get :: "registry option \<Rightarrow> string \<Rightarrow> registry_entry option" where
  "registry_get r source_format = Option.bind r (\<lambda>entries. map_of entries source_format)"

definition Lookup :: "registry option \<Rightarrow> string \<Rightarrow> protocol option" where
  "Lookup r source_format = map_option re_protocol (registry_get r source_format)"

definition Resolve :: "registry option \<Rightarrow> string \<Rightarrow> walk_error + protocol" where
  "Resolve r source_format =
     (case Lookup r source_format of None \<Rightarrow> Inl (UnsupportedFormat source_format) | Some p \<Rightarrow> Inr p)"

definition Formats :: "registry option \<Rightarrow> string list" where
  "Formats r = (case r of None \<Rightarrow> [] | Some entries \<Rightarrow> sort (map fst entries))"

definition IsAlias :: "registry option \<Rightarrow> string \<Rightarrow> bool" where
  "IsAlias r source_format = (case registry_get r source_format of None \<Rightarrow> False | Some e \<Rightarrow> re_alias e)"

section \<open>Walk\<close>

text \<open>
  Where a step returns an error, the error the collector recorded first wins (\<open>prefer_err\<close>); where
  the walker or the last check succeeds, a recorded error still fails the walk (\<open>check_err\<close>).
  \<open>walk_tree\<close> is \<open>Walk\<close> after \<open>newCollector\<close> and before \<open>finish\<close>.
\<close>

definition prefer_err :: "unit walker \<Rightarrow> unit walker" where
  "prefer_err m s = (case m s of
     (Inr u, t) \<Rightarrow> (Inr u, t)
   | (Inl e, t) \<Rightarrow> (case k_err t of Some e' \<Rightarrow> (Inl e', t) | None \<Rightarrow> (Inl e, t)))"

definition walk_tree :: "registry_entry \<Rightarrow> walk_env \<Rightarrow> node \<Rightarrow> unit walker" where
  "walk_tree entry env root = steps [
     prefer_err (validate_root_controls env root),
     prefer_err (re_walk entry env root),
     check_err,
     prefer_err (ensure_string_disposition env root),
     check_err,
     walk_poll env]"

definition Walk ::
  "registry option \<Rightarrow> nat \<Rightarrow> ctx option \<Rightarrow> string \<Rightarrow> string \<Rightarrow> limits list \<Rightarrow> walk_error + walk_result" where
  "Walk r self c source_format body options =
     (if 1 < length options then Inl (InvalidOptions (length options))
      else case registry_get r source_format of
        None \<Rightarrow> Inl (UnsupportedFormat source_format)
      | Some entry \<Rightarrow>
          (case ScanObject self c body (case options of [] \<Rightarrow> zero_limits | opts # _ \<Rightarrow> opts) 0 of
             (Inl e, _) \<Rightarrow> Inl (Payload e)
           | (Inr doc, polls) \<Rightarrow>
               (case parseTree c body doc polls of
                  (Inl e, _) \<Rightarrow> Inl e
                | (Inr root, t) \<Rightarrow>
                    let env = \<lparr>we_ctx = or_background c, we_protocol = re_protocol entry, we_document = doc,
                               we_nodes = t_nodes t, we_limit = MaxStructuralBytes (doc_limits doc)\<rparr> in
                    (case walk_tree entry env root (new_collector (t_used t) (t_polls t)) of
                       (Inl e, _) \<Rightarrow> Inl e
                     | (Inr _, s) \<Rightarrow> Inr (finish env source_format s)))))"

text \<open>The package-level functions use the process-wide registry.\<close>

definition DefaultRegistry :: "registry option" where
  "DefaultRegistry = Some NewRegistry"

definition DefaultWalk ::
  "nat \<Rightarrow> ctx option \<Rightarrow> string \<Rightarrow> string \<Rightarrow> limits list \<Rightarrow> walk_error + walk_result" where
  "DefaultWalk self c source_format body options = Walk DefaultRegistry self c source_format body options"

definition DefaultFormats :: "string list" where
  "DefaultFormats = Formats DefaultRegistry"

end
