(* ===== verification/Walk_Sound.thy ===== *)
theory Walk_Sound
  imports Registry Replace
begin

text \<open>
  What \<open>Walk\<close> guarantees, whatever the protocol: no string of the request is left without a
  disposition, the targets are tokens \<open>Replace\<close> accepts, the errors are those of the program, and
  the tree is the document's. The proofs put the scanner (\<open>Scan_ok\<close>), the tree parser
  (\<open>parse_tree_sound\<close>) and the two interpretations of \<open>walk_contract\<close> together.
\<close>

section \<open>Errors of the tree parser\<close>

abbreviation sane :: "walk_error set" where
  "sane \<equiv> {e. e \<noteq> NilDereference \<and> e \<noteq> Payload OutOfFuel}"

lemma steps_sane:
  "fails_only sane (tree_poll env)" "fails_only sane tree_token"
  "fails_only sane (tree_retain env b)" "fails_only sane (close_with c r)"
  "fails_only sane (append_tree_path env p g n)"
  "fails_only sane (append_item env b items cap x)"
  "fails_only sane (tree_string_node env p k v)"
  by (auto simp: fails_only_def tree_poll_def tree_token_def tree_retain_def budget_retain_def close_with_def
      append_tree_path_def append_item_def tree_string_node_def bind_Inl_iff Let_def
      split: option.splits sum.splits if_splits)

lemma fails_only_case_pair: "(\<And>a b. fails_only E (f a b)) \<Longrightarrow> fails_only E (case p of (a, b) \<Rightarrow> f a b)"
  by (cases p) simp

lemma fails_only_case_token:
  assumes "\<And>c. fails_only E (a c)" "\<And>v. fails_only E (b v)" "\<And>v. fails_only E (c v)" "\<And>v. fails_only E (d v)"
    "fails_only E e"
  shows "fails_only E (case tok of TDelim x \<Rightarrow> a x | TString v \<Rightarrow> b v | TNumber v \<Rightarrow> c v | TBool v \<Rightarrow> d v | TNull \<Rightarrow> e)"
  using assms by (cases tok) simp_all

lemmas sane_rules = fails_rules steps_sane fails_only_case_pair fails_only_case_token

lemma parse_sane: "(\<forall>p k. fails_only sane (parse_value env f p k)) \<and>
  (\<forall>p items cap. fails_only sane (parse_members env f p items cap)) \<and>
  (\<forall>p items cap. fails_only sane (parse_elements env f p items cap))"
proof (induction f)
  case (Suc f)
  then have v: "fails_only sane (parse_value env f p k)" and m: "fails_only sane (parse_members env f p ms cap)"
    and e: "fails_only sane (parse_elements env f p es cap)" for p k ms es cap by simp_all
  have "fails_only sane (parse_value env (Suc f) p k)" for p k
    unfolding parse_value.simps by (intro sane_rules m e; simp)
  moreover have "fails_only sane (parse_members env (Suc f) p items cap)" for p items cap
    unfolding parse_members.simps by (intro sane_rules v m; simp)
  moreover have "fails_only sane (parse_elements env (Suc f) p items cap)" for p items cap
    unfolding parse_elements.simps by (intro sane_rules v e; simp)
  ultimately show ?case by simp
qed (auto intro: fails_rules)

lemma fails_only_case_sum: "(\<And>x. fails_only E (f x)) \<Longrightarrow> (\<And>y. fails_only E (g y)) \<Longrightarrow>
    fails_only E (case v of Inl x \<Rightarrow> f x | Inr y \<Rightarrow> g y)"
  by (cases v) simp_all

lemma parse_tree_sane: "parseTree c body doc polls = (Inl e, t) \<Longrightarrow> e \<in> sane"
  unfolding parseTree_def parse_root_def
  by (erule fails_onlyD [rotated])
    (intro fails_rules parse_sane [THEN conjunct1, rule_format] fails_only_case_sum; auto intro: fails_rules split: decode_error.split)

section \<open>Nothing is left over\<close>

lemma grown_disposed: "grown s t \<Longrightarrow> disposed s \<subseteq> disposed t"
  by (auto simp: grown_def disposed_def)

lemma growth_ensure:
  assumes "node_ok m v" "ensure_string_disposition env v s = (r, t)" "err_ok s"
  shows "grown s t \<and> err_ok t"
  using safe_state [OF growth.ensure_string_disposition_safe [OF assms(1)] grown_refl assms(3,2)] .

lemma for_each_disposes:
  assumes "for_each xs f s = (Inr u, t)" "err_ok s"
    and "\<And>x s r t. x \<in> set xs \<Longrightarrow> err_ok s \<Longrightarrow> f x s = (r, t) \<Longrightarrow>
      grown s t \<and> err_ok t \<and> (r = Inr () \<longrightarrow> S x \<subseteq> disposed t)"
  shows "(\<Union>x \<in> set xs. S x) \<subseteq> disposed t \<and> grown s t"
  using assms
proof (induction xs arbitrary: s)
  case Nil
  then show ?case by (simp add: ret_def grown_refl)
next
  case (Cons x xs)
  from Cons.prems(1) obtain w where w: "f x s = (Inr (), w)" "for_each xs f w = (Inr u, t)"
    by (auto simp: bind_Inr_iff)
  have x: "grown s w" "err_ok w" "S x \<subseteq> disposed w" using Cons.prems(3) [OF _ Cons.prems(2) w(1)] by auto
  have "(\<Union>x \<in> set xs. S x) \<subseteq> disposed t \<and> grown w t"
    by (rule Cons.IH [OF w(2) x(2)]) (rule Cons.prems(3), auto)
  then show ?case using x grown_disposed [of w t] grown_trans [of s w t] by auto
qed

lemma check_err_Inr: "check_err s = (Inr u, t) \<longleftrightarrow> k_err s = None \<and> t = s"
  by (auto simp: check_err_def bind_Inr_iff split: option.splits)

lemma ensure_string:
  assumes v: "node_ok m v" "(if count_undisposed s v \<noteq> 0 then unsupported env v d else ret ()) s = (Inr u, t)"
    and e: "k_err t = None"
  shows "node_starts v \<subseteq> disposed t"
proof (cases "count_undisposed s v = 0")
  case True
  then show ?thesis using v by (auto simp: count_undisposed_0 ret_def)
next
  case False
  with v(2) have "reject env v (int (length d)) (Plain d) s = (Inr u, t)" by (simp add: unsupported_def)
  from reject_frame [OF this v(1)] e show ?thesis by (auto simp: disposed_def)
qed

lemma ensure_disposes:
  "node_ok m v \<Longrightarrow> err_ok s \<Longrightarrow> ensure_string_disposition env v s = (Inr u, t) \<Longrightarrow>
   node_starts v \<subseteq> disposed t"
proof (induction v arbitrary: s u t rule: node_descent)
  case (1 v)
  obtain k p tok b obj arr where v: "v = Node k p tok b obj arr" by (cases v)
  define body where "body = (case k of
          KindString \<Rightarrow>
            bind get_state (\<lambda>s.
              if count_undisposed s (Node k p tok b obj arr) \<noteq> 0
              then unsupported env (Node k p tok b obj arr) ''string has no explicit protocol disposition''
              else ret ())
        | KindObject \<Rightarrow> for_each obj (\<lambda>m. ensure_string_disposition env (snd m))
        | KindArray \<Rightarrow> for_each arr (ensure_string_disposition env)
        | _ \<Rightarrow> ret ())"
  from 1(5) obtain w where w: "walk_poll env s = (Inr (), w)" "body w = (Inr (), t)" "k_err t = None"
    unfolding v ensure_string_disposition.simps body_def [symmetric] by (auto simp: bind_Inr_iff check_err_Inr)
  have ew: "err_ok w" using w(1) 1(4) by (auto dest!: walk_poll_result)
  have member: "grown s t \<and> err_ok t \<and> (r = Inr () \<longrightarrow> node_starts (snd x) \<subseteq> disposed t)"
    if "x \<in> set obj" "err_ok s" "ensure_string_disposition env (snd x) s = (r, t)" for x s r t
    using growth_ensure [OF _ that(3,2)] 1(1) [of "fst x" "snd x" s "()" t] 1(3) that by (auto simp: v list_all_iff)
  have item: "grown s t \<and> err_ok t \<and> (r = Inr () \<longrightarrow> node_starts x \<subseteq> disposed t)"
    if "x \<in> set arr" "err_ok s" "ensure_string_disposition env x s = (r, t)" for x s r t
    using growth_ensure [OF _ that(3,2)] 1(2) [of x s "()" t] 1(3) that by (auto simp: v list_all_iff)
  show ?case
  proof (cases k)
    case KindObject
    then have "for_each obj (\<lambda>m. ensure_string_disposition env (snd m)) w = (Inr (), t)"
      using w(2) by (simp add: body_def)
    from for_each_disposes [OF this ew, of "\<lambda>m. node_starts (snd m)"] member 1(3) KindObject show ?thesis
      by (auto simp: v node_starts_simps)
  next
    case KindArray
    then have "for_each arr (ensure_string_disposition env) w = (Inr (), t)"
      using w(2) by (simp add: body_def)
    from for_each_disposes [OF this ew, of node_starts] item 1(3) KindArray show ?thesis
      by (auto simp: v node_starts_simps)
  next
    case KindString
    then have "(if count_undisposed w v \<noteq> 0 then unsupported env v ''string has no explicit protocol disposition''
        else ret ()) w = (Inr (), t)"
      using w(2) unfolding body_def v KindString by (simp only: kind.case bind_def get_state_def prod.case sum.case)
    from ensure_string [OF 1(3) this w(3)] show ?thesis .
  qed (use 1(3) in \<open>auto simp: v node_starts_simps\<close>)
qed

section \<open>The steps of Walk\<close>

lemma prefer_err_Inr: "prefer_err m s = (Inr u, t) \<longleftrightarrow> m s = (Inr u, t)"
  by (auto simp: prefer_err_def split: prod.splits sum.splits option.splits)

lemma prefer_err_safe: "safe I m \<Longrightarrow> safe I (prefer_err m)"
  unfolding safe_def
  by (rule validI)
    (auto simp: prefer_err_def err_ok_def dest: valid_Inr valid_Inl split: prod.splits sum.splits option.splits)

context walk_contract
begin

lemma registered_walkers: "e \<in> snd ` set NewRegistry \<Longrightarrow> N v \<Longrightarrow> safe I (re_walk e env v)"
  by (auto simp: NewRegistry_def intro: walk_rules)

lemma walk_tree_safe: "e \<in> snd ` set NewRegistry \<Longrightarrow> N v \<Longrightarrow> safe I (walk_tree e env v)"
  unfolding walk_tree_def
  by (intro safe_rules prefer_err_safe registered_walkers walk_rules; assumption)

end

section \<open>A walk that succeeds\<close>

lemma ScanObject_ok:
  assumes "ScanObject self c body opts n = (Inr d, m)"
  shows "document_ok d" "doc_body d = body" "doc_id d = self"
proof -
  from assms have s: "Scan self c body opts n = (Inr d, m)"
    by (auto simp: ScanObject_def bind_Inr_iff)
  then show "document_ok d" by (rule Scan_ok)
  from s obtain l where "(case scan_json \<lparr>sc_ctx = or_background c, sc_body = body, sc_limits = l\<rparr>
        (init_scanner (Suc n)) of
        (Inl e, s) \<Rightarrow> (Inl e, s_polls s)
      | (Inr (kind, span), s) \<Rightarrow>
          (Inr \<lparr>doc_id = self, doc_body = body, doc_root_kind = kind, doc_root_span = span,
             doc_limits = l, doc_strings = number_tokens self 0 (s_strings s),
             doc_paths = s_paths s, doc_structural_bytes = s_structural s,
             doc_node_count = s_nodes s\<rparr>, s_polls s)) = (Inr d, m)"
    by (auto simp: Scan_def bind_Inr_iff)
  then show "doc_body d = body" "doc_id d = self"
    by (auto split: prod.split_asm sum.split_asm)
qed

lemma document_ok_bounded: "document_ok d \<Longrightarrow> doc_bounded d"
  by (auto simp: document_ok_def doc_bounded_def retained_def)

lemma distinct_starts:
  assumes "document_ok d"
  shows "distinct (map (\<lambda>t. Start (tok_span t)) (doc_strings d))"
proof -
  have "ordered_from (doc_body d) 0 (doc_strings d)" using assms by (rule document_ordered)
  then have "sorted_wrt (<) (map (\<lambda>t. Start (tok_span t)) (doc_strings d))"
    unfolding ordered_from_def sorted_wrt_map by (auto elim!: sorted_wrt_mono_rel [rotated])
  then show ?thesis by (simp add: strict_sorted_iff)
qed

lemma card_doc_starts: "document_ok d \<Longrightarrow> card (doc_starts d) = length (doc_strings d)"
  using distinct_card [OF distinct_starts] by (simp add: doc_starts_def)

lemma registered: "registry_get DefaultRegistry f = Some e \<Longrightarrow> e \<in> snd ` set NewRegistry"
  by (force simp: registry_get_def DefaultRegistry_def dest: map_of_SomeD)

lemma walk_tree_success:
  assumes e: "e \<in> snd ` set NewRegistry" and v: "tree_of (we_document env) (we_nodes env) root"
    and s: "collector_ok env s" "err_ok s" and w: "walk_tree e env root s = (Inr u, t)"
  shows "collector_ok env t \<and> disposed t = doc_starts (we_document env)"
proof -
  have N: "tree_node env root" and m: "node_ok (length (we_nodes env)) root"
    using v tree_node_root by (auto simp: tree_of_def)
  have I: "collector_ok env t" using safe_state [OF collected.walk_tree_safe [OF e N] s w] by simp
  from w obtain a b x where w': "prefer_err (validate_root_controls env root) s = (Inr (), a)"
    "prefer_err (re_walk e env root) a = (Inr (), b)" "ensure_string_disposition env root b = (Inr (), x)"
    "walk_poll env x = (Inr u, t)"
    by (auto simp: walk_tree_def bind_Inr_iff prefer_err_Inr check_err_Inr ret_def)
  have a: "err_ok a"
    using safe_state [OF prefer_err_safe [OF collected.validate_root_controls_safe [OF N]] s w'(1)] by simp
  have b: "err_ok b"
    using safe_state [OF prefer_err_safe [OF growth.registered_walkers [OF e m]] grown_refl a w'(2)] by simp
  have "node_starts root \<subseteq> disposed x" by (rule ensure_disposes [OF m b w'(3)])
  moreover have "disposed t = disposed x" using walk_poll_result [OF w'(4)] by (simp add: disposed_def)
  moreover have "node_starts root = doc_starts (we_document env)"
    using v by (simp add: tree_of_def node_starts_def doc_range_starts)
  ultimately show ?thesis using I by (auto simp: collector_ok_def)
qed

text \<open>What holds when \<open>Walk\<close> comes to its collector.\<close>

definition walk_env_of :: "ctx option \<Rightarrow> registry_entry \<Rightarrow> document \<Rightarrow> tree_parser \<Rightarrow> walk_env" where
  "walk_env_of c e doc t = \<lparr>we_ctx = or_background c, we_protocol = re_protocol e, we_document = doc,
     we_nodes = t_nodes t, we_limit = MaxStructuralBytes (doc_limits doc)\<rparr>"

lemma walk_env_of_simps [simp]:
  "we_protocol (walk_env_of c e doc t) = re_protocol e" "we_document (walk_env_of c e doc t) = doc"
  "we_nodes (walk_env_of c e doc t) = t_nodes t"
  "we_limit (walk_env_of c e doc t) = MaxStructuralBytes (doc_limits doc)"
  by (simp_all add: walk_env_of_def)

lemma start_of_walk:
  assumes d: "document_ok doc" and p: "parseTree c body doc polls = (Inr root, t)"
  shows "tree_of doc (t_nodes t) root" "tree_node (walk_env_of c e doc t) root"
    "collector_ok (walk_env_of c e doc t) (new_collector (t_used t) (t_polls t))"
    "err_ok (new_collector (t_used t) (t_polls t))"
proof -
  note T = parse_tree_sound [OF document_ok_bounded [OF d] p]
  show "tree_of doc (t_nodes t) root" by (rule T)
  then show "tree_node (walk_env_of c e doc t) root" by (intro tree_node_root) simp
  have "0 \<le> doc_structural_bytes doc" using document_ok_bounded [OF d] by (simp add: doc_bounded_def)
  then show "collector_ok (walk_env_of c e doc t) (new_collector (t_used t) (t_polls t))"
    using T by (intro new_collector_ok) auto
  show "err_ok (new_collector (t_used t) (t_polls t))" by (simp add: err_ok_def new_collector_def)
qed

text \<open>The four ways a walk can end.\<close>

lemma DefaultWalk_cases:
  obtains (refused) e where "DefaultWalk self c f body options = Inl e" "proper e"
  | (scan_failed) x where "DefaultWalk self c f body options = Inl (Payload x)" "x \<noteq> OutOfFuel"
  | (parse_failed) x where "DefaultWalk self c f body options = Inl x" "x \<in> sane" "x \<noteq> TreeFuel"
  | (walked) e opts doc polls root t r s where "registry_get DefaultRegistry f = Some e"
      "ScanObject self c body opts 0 = (Inr doc, polls)" "parseTree c body doc polls = (Inr root, t)"
      "walk_tree e (walk_env_of c e doc t) root (new_collector (t_used t) (t_polls t)) = (r, s)"
      "DefaultWalk self c f body options = (case r of Inl x \<Rightarrow> Inl x | Inr _ \<Rightarrow> Inr (finish (walk_env_of c e doc t) f s))"
proof (cases "1 < length options \<or> registry_get DefaultRegistry f = None")
  case True
  then show thesis
    by (intro refused [of "if 1 < length options then InvalidOptions (length options) else UnsupportedFormat f"])
      (auto simp: DefaultWalk_def Walk_def)
next
  case False
  then obtain e where e: "registry_get DefaultRegistry f = Some e" "\<not> 1 < length options" by auto
  define opts where "opts = (case options of [] \<Rightarrow> zero_limits | opts # _ \<Rightarrow> opts)"
  obtain y polls where d: "ScanObject self c body opts 0 = (y, polls)" by fastforce
  show thesis
  proof (cases y)
    case (Inl x)
    moreover have "x \<noteq> OutOfFuel"
      using Scan_not_out_of_fuel [of self c body opts 0] d Inl by (auto simp: ScanObject_def bind_Inl_iff)
    ultimately show thesis using e d by (intro scan_failed) (auto simp: DefaultWalk_def Walk_def opts_def)
  next
    case doc: (Inr doc)
    obtain p t where p: "parseTree c body doc polls = (p, t)" by fastforce
    note ok = document_ok_bounded [OF ScanObject_ok(1), OF d [unfolded doc]]
    show thesis
    proof (cases p)
      case (Inl x)
      then show thesis
        using parse_tree_sane [of c body doc polls x t] parse_tree_not_out_of_fuel [OF ok, of c body polls] e d doc p
        by (intro parse_failed [of x]) (auto simp: DefaultWalk_def Walk_def opts_def)
    next
      case root: (Inr root)
      obtain r s where "walk_tree e (walk_env_of c e doc t) root (new_collector (t_used t) (t_polls t)) = (r, s)"
        by fastforce
      then show thesis
        using e d doc p root
        by (intro walked [of e opts doc polls root t r s])
          (auto simp: DefaultWalk_def Walk_def opts_def walk_env_of_def Let_def split: sum.split)
    qed
  qed
qed

lemma DefaultWalk_Inr:
  assumes "DefaultWalk self c f body options = Inr res"
  obtains e env s where "registry_get DefaultRegistry f = Some e" "document_ok (we_document env)"
    "doc_body (we_document env) = body" "doc_id (we_document env) = self"
    "we_protocol env = re_protocol e" "we_limit env = MaxStructuralBytes (doc_limits (we_document env))"
    "collector_ok env s" "disposed s = doc_starts (we_document env)" "res = finish env f s"
proof (cases rule: DefaultWalk_cases [of self c f body options])
  case (walked e opts doc polls root t r s)
  then obtain u where s: "walk_tree e (walk_env_of c e doc t) root (new_collector (t_used t) (t_polls t)) = (Inr u, s)"
    "res = finish (walk_env_of c e doc t) f s"
    using assms by (cases r) auto
  note D = ScanObject_ok [OF walked(2)]
  note S = start_of_walk [OF D(1) walked(3)]
  have "collector_ok (walk_env_of c e doc t) s \<and> disposed s = doc_starts doc"
    using walk_tree_success [OF registered [OF walked(1)] _ S(3,4) s(1)] S(1) by simp
  then show thesis using that [of e "walk_env_of c e doc t" s] walked(1) D s(2) by simp
qed (use assms in auto)

lemma disposed_card:
  assumes "collector_ok env s" "document_ok (we_document env)" "disposed s = doc_starts (we_document env)"
  shows "length (doc_strings (we_document env)) = length (k_out s) + card (k_opaque s) + card (k_rejected s)"
proof -
  have "finite (disposed s)" by (simp add: assms(3) doc_starts_def)
  then have fin: "finite (k_targets s)" "finite (k_opaque s)" "finite (k_rejected s)"
    by (simp_all add: disposed_def)
  have "length (doc_strings (we_document env)) = card (disposed s)"
    using assms card_doc_starts by simp
  also have "\<dots> = card (k_targets s) + card (k_opaque s) + card (k_rejected s)"
    using assms(1) fin unfolding disposed_def
    by (subst card_Un_disjoint; auto simp: collector_ok_def card_Un_disjoint)
  also have "card (k_targets s) = length (k_out s)"
    using assms(1) distinct_card [of "map target_start (k_out s)"] by (simp add: collector_ok_def)
  finally show ?thesis .
qed

end
