(* ===== verification/Walk_Properties.thy ===== *)
theory Walk_Properties
  imports Walk_Sound
begin

text \<open>
  The properties of package \<open>walker\<close> as its callers see them, on the result of \<open>Walk\<close> with the
  built-in registry, and sample requests at which they are evaluated.
\<close>

section \<open>Sample requests\<close>

definition json_member :: "string \<Rightarrow> string \<Rightarrow> string" where
  "json_member key v = quoted key @ '':'' @ v"

definition sample_chat :: string where
  "sample_chat = ''{'' @ json_member ''messages'' (''[{'' @ json_member ''role'' (quoted ''user'') @ '','' @
     json_member ''content'' (quoted ''hi'') @ ''}]'') @ ''}''"

definition sample_walk :: walk_result where
  "sample_walk = projr (DefaultWalk 7 None ''openai'' sample_chat [])"

definition sample_view :: "walk_result \<Rightarrow> (string \<times> scope) list \<times> nat \<times> nat \<times> bool" where
  "sample_view res = (map (\<lambda>t. (tok_value (tg_Token t), tg_Scope t)) (wr_Targets res), wr_Opaque res,
     wr_UnsupportedCount res, doc_limits (wr_Document res) = DefaultLimits)"

lemma sample_walk_view:
  "map_sum id sample_view (DefaultWalk 7 None ''openai'' sample_chat []) = Inr ([(''hi'', ScopeUser)], 1, 0, True)"
  by code_simp

lemma sample_walk: "DefaultWalk 7 None ''openai'' sample_chat [] = Inr sample_walk"
  using sample_walk_view by (cases "DefaultWalk 7 None ''openai'' sample_chat []") (simp_all add: sample_walk_def)

lemma sample_walk_facts:
  "map (\<lambda>t. (tok_value (tg_Token t), tg_Scope t)) (wr_Targets sample_walk) = [(''hi'', ScopeUser)]"
  "wr_Opaque sample_walk = 1" "wr_UnsupportedCount sample_walk = 0"
  "doc_limits (wr_Document sample_walk) = DefaultLimits"
  using sample_walk_view by (simp_all add: sample_walk sample_view_def)

section \<open>Properties\<close>

text \<open>
  C4: A walk that succeeds has accounted for every string of the request. The strings split into the
  targets, the strings the protocol protects and those reported as unsupported; no string is in two
  of the groups. \<open>Opaque\<close> counts the second group, \<open>Skipped\<close> the second and third, and with
  \<open>UnsupportedCount = 0\<close> there is no third: nothing was skipped by accident.
\<close>

theorem walk_accounts_for_every_string:
  "DefaultWalk self c f body options = Inr res \<Longrightarrow>
   \<exists>protected rejected.
     doc_starts (wr_Document res) = target_start ` set (wr_Targets res) \<union> protected \<union> rejected \<and>
     target_start ` set (wr_Targets res) \<inter> protected = {} \<and>
     target_start ` set (wr_Targets res) \<inter> rejected = {} \<and> protected \<inter> rejected = {} \<and>
     wr_Opaque res = card protected \<and>
     wr_Skipped res = int (card protected + card rejected) \<and>
     (wr_UnsupportedCount res = 0 \<longrightarrow> rejected = {})"
proof -
  assume "DefaultWalk self c f body options = Inr res"
  then obtain e env s where s: "document_ok (we_document env)" "collector_ok env s"
    "disposed s = doc_starts (we_document env)" "res = finish env f s"
    by (rule DefaultWalk_Inr)
  then have "target_start ` set (wr_Targets res) = k_targets s" by (simp add: finish_def collector_ok_def)
  moreover have "wr_Skipped res = int (card (k_opaque s) + card (k_rejected s))"
    using disposed_card [OF s(2,1,3)] s(4) by (simp add: finish_def)
  moreover have "wr_UnsupportedCount res = 0 \<longrightarrow> k_rejected s = {}"
    using s(2,4) by (auto simp: finish_def collector_ok_def)
  ultimately show ?thesis
    using s by (intro exI [of _ "k_opaque s"] exI [of _ "k_rejected s"])
      (simp add: finish_def collector_ok_def disposed_def)
qed

theorem walk_accounts_for_every_string_witness:
  "doc_starts (wr_Document sample_walk) = target_start ` set (wr_Targets sample_walk) \<union>
     (doc_starts (wr_Document sample_walk) - target_start ` set (wr_Targets sample_walk)) \<and>
   wr_Skipped sample_walk = 1"
  using walk_accounts_for_every_string [OF sample_walk] sample_walk_facts by fastforce

text \<open>
  C11: The targets of a walk are strings of the request in the order of the body and without
  overlaps. Each carries the token and the path the document hands out, so \<open>Replace\<close> recognises it,
  and a string in a tool scope is never a direct target: it may be JSON that the provider parses.
\<close>

theorem walk_targets_wellformed:
  "DefaultWalk self c f body options = Inr res \<Longrightarrow>
   doc_body (wr_Document res) = body \<and>
   sorted_wrt (\<lambda>t u. Start (tok_span (tg_Token t)) < Start (tok_span (tg_Token u))) (wr_Targets res) \<and>
   (\<forall>t \<in> set (wr_Targets res). \<exists>i < length (doc_strings (wr_Document res)).
      canonical_token (wr_Document res) (tg_Token t) = Inr (doc_strings (wr_Document res) ! i) \<and>
      tg_Path t = token_path (wr_Document res) (doc_strings (wr_Document res) ! i) \<and>
      (is_tool_scope (tg_Scope t) \<longrightarrow> tg_Mutable t \<noteq> MutabilityDirect))"
proof -
  assume "DefaultWalk self c f body options = Inr res"
  then obtain e env s where s: "document_ok (we_document env)" "collector_ok env s"
    "doc_body (we_document env) = body" "res = finish env f s"
    by (rule DefaultWalk_Inr)
  let ?d = "we_document env"
  have "sorted (map target_start (wr_Targets res))" "distinct (map target_start (wr_Targets res))"
    using s(2,4) unfolding finish_def collector_ok_def target_start_def [abs_def]
    by (simp_all add: distinct_map)
  then have "sorted_wrt (\<lambda>t u. target_start t < target_start u) (wr_Targets res)"
    using strict_sorted_iff [of "map target_start (wr_Targets res)"] by (simp add: sorted_wrt_map)
  moreover have "\<exists>i < length (doc_strings ?d). canonical_token ?d (tg_Token t) = Inr (doc_strings ?d ! i) \<and>
      tg_Path t = token_path ?d (doc_strings ?d ! i) \<and>
      (is_tool_scope (tg_Scope t) \<longrightarrow> tg_Mutable t \<noteq> MutabilityDirect)"
    if "t \<in> set (wr_Targets res)" for t
  proof -
    have "handed_out ?d t" using that s(2,4) by (auto simp: finish_def collector_ok_def)
    then obtain i where i: "i < length (doc_strings ?d)" "StringTokenAt (Some ?d) (int i) = Some (tg_Token t)"
      and t: "tg_Path t = tok_path (tg_Token t)" "is_tool_scope (tg_Scope t) \<longrightarrow> tg_Mutable t \<noteq> MutabilityDirect"
      by (auto simp: handed_out_def)
    let ?tok = "doc_strings ?d ! i"
    have "tg_Token t = ?tok\<lparr>tok_path := token_path ?d ?tok\<rparr>"
      using i StringTokenAt_ok [OF s(1), of "int i"] by (simp split: if_splits)
    then have "canonical_token ?d (tg_Token t) = Inr ?tok" "tg_Path t = token_path ?d ?tok"
      using i(1) t(1) by (simp_all add: canonical_token_iff [OF s(1)])
    with i(1) t(2) show ?thesis by blast
  qed
  ultimately show ?thesis using s(3,4) by (simp add: finish_def target_start_def)
qed

theorem walk_targets_wellformed_witness:
  "doc_body (wr_Document sample_walk) = sample_chat \<and> length (wr_Targets sample_walk) = 1"
  using walk_targets_wellformed [OF sample_walk] sample_walk_facts(1) by auto

text \<open>
  C8: Walking and replacing fit together. Whatever new values are chosen for the targets of a walk,
  \<open>Replace\<close> grants them unless a limit of the document is exceeded, and the output is the body
  with the values of the targets exchanged and every other byte kept.
\<close>

definition redactions :: "walk_result \<Rightarrow> (target \<Rightarrow> string) \<Rightarrow> replacement list" where
  "redactions res g = map (\<lambda>t. \<lparr>rp_token = tg_Token t, rp_value = g t\<rparr>) (wr_Targets res)"

theorem walk_targets_replaceable:
  "DefaultWalk self c f body options = Inr res \<Longrightarrow>
   int (length (wr_Targets res)) \<le> MaxReplacements (doc_limits (wr_Document res)) \<Longrightarrow>
   (\<forall>t \<in> set (wr_Targets res). int (length (g t)) \<le> MaxStringBytes (doc_limits (wr_Document res))) \<Longrightarrow>
   (\<Sum>r \<leftarrow> filter changing (redactions res g). int (length (quoted (escape (rp_value r)))))
     \<le> MaxReplacementBytes (doc_limits (wr_Document res)) \<Longrightarrow>
   fst (Replace (Some (wr_Document res)) None (redactions res g) n) =
     Inr (rewrite (wr_Document res) (requested (redactions res g)), \<exists>r \<in> set (redactions res g). changing r)"
proof -
  let ?d = "wr_Document res"
  assume w: "DefaultWalk self c f body options = Inr res"
    and l: "int (length (wr_Targets res)) \<le> MaxReplacements (doc_limits ?d)"
      "\<forall>t \<in> set (wr_Targets res). int (length (g t)) \<le> MaxStringBytes (doc_limits ?d)"
      "(\<Sum>r \<leftarrow> filter changing (redactions res g). int (length (quoted (escape (rp_value r)))))
        \<le> MaxReplacementBytes (doc_limits ?d)"
  from DefaultWalk_Inr [OF w] obtain env s where s: "document_ok ?d" "collector_ok env s" "?d = we_document env"
    "res = finish env f s" by (metis finish_def walk_result.select_convs(3))
  have h: "handed_out ?d t" if "t \<in> set (wr_Targets res)" for t
    using that s by (auto simp: finish_def collector_ok_def)
  have tok: "\<exists>i < length (doc_strings ?d). tg_Token t = (doc_strings ?d ! i)\<lparr>tok_path := token_path ?d (doc_strings ?d ! i)\<rparr>"
    if "t \<in> set (wr_Targets res)" for t
    using h [OF that] StringTokenAt_ok [OF s(1)] by (auto simp: handed_out_def in_strings_nth split: if_splits)
  have acc: "acceptable ?d r" if "r \<in> set (redactions res g)" for r
  proof -
    from that obtain t where t: "t \<in> set (wr_Targets res)" "r = \<lparr>rp_token = tg_Token t, rp_value = g t\<rparr>"
      by (auto simp: redactions_def)
    with tok obtain i where "i < length (doc_strings ?d)"
      "tg_Token t = (doc_strings ?d ! i)\<lparr>tok_path := token_path ?d (doc_strings ?d ! i)\<rparr>" by blast
    then have "canonical_token ?d (tg_Token t) = Inr (doc_strings ?d ! i)"
      by (simp add: canonical_token_iff [OF s(1)])
    with t l(2) show ?thesis by (simp add: acceptable_def)
  qed
  have start: "target_start t = Start (tok_span (doc_strings ?d ! tok_ordinal (tg_Token t)))"
    if "t \<in> set (wr_Targets res)" for t
    using tok [OF that] s(1) by (auto simp: document_ok_def target_start_def)
  have "distinct (map target_start (wr_Targets res))"
    using s unfolding finish_def collector_ok_def by (simp add: distinct_map)
  then have "distinct (map (\<lambda>t. tok_ordinal (tg_Token t)) (wr_Targets res))"
    using start unfolding distinct_map inj_on_def by metis
  then have "distinct (map (\<lambda>r. tok_ordinal (rp_token r)) (redactions res g))"
    by (simp add: redactions_def comp_def)
  with acc l(1,3) have "grantable ?d (redactions res g)" by (simp add: grantable_def redactions_def)
  from replace_granted [OF s(1) this, of n] show ?thesis by (auto simp: Replace_def)
qed

theorem walk_targets_replaceable_witness:
  "fst (Replace (Some (wr_Document sample_walk)) None (redactions sample_walk (\<lambda>_. ''[X]'')) 0) =
     Inr (rewrite (wr_Document sample_walk) (requested (redactions sample_walk (\<lambda>_. ''[X]''))), True)"
proof -
  obtain t where t: "wr_Targets sample_walk = [t]" "tok_value (tg_Token t) = ''hi''"
    using sample_walk_facts(1) by auto
  have "int (length (quoted (escape ''[X]''))) = 5" by code_simp
  then show ?thesis
    using walk_targets_replaceable [OF sample_walk, of "\<lambda>_. ''[X]''" 0]
    by (simp add: t sample_walk_facts(4) DefaultLimits_def redactions_def changing_def)
qed

text \<open>
  C19: Whatever the body, the context and the limits, a walk returns: it does not dereference a nil
  node, and neither the scanner, the tree parser nor a recursive walker runs out of the fuel of its
  model, so the code terminates there.
\<close>

theorem walk_never_panics:
  "DefaultWalk self c f body options \<notin> {Inl NilDereference, Inl TreeFuel, Inl (Payload OutOfFuel)}"
proof (cases rule: DefaultWalk_cases [of self c f body options])
  case (walked e opts doc polls root t r s)
  note S = start_of_walk [OF ScanObject_ok(1) [OF walked(2)] walked(3)]
  show ?thesis
    using safe_error [OF collected.walk_tree_safe [OF registered [OF walked(1)] S(2)] S(3,4)] walked(4,5)
    by (cases r) (auto simp: proper_def)
qed (auto simp: proper_def)

text \<open>
  A source format is accepted exactly when it is in \<open>Formats\<close>; any other is refused before
  the body is read. The alias \<open>gemini-cli\<close> is walked as \<open>interactions\<close> on every body.
\<close>

theorem formats_decide:
  "(Resolve DefaultRegistry f = Inl (UnsupportedFormat f) \<longleftrightarrow> f \<notin> set DefaultFormats) \<and>
   (f \<notin> set DefaultFormats \<longrightarrow> length options \<le> 1 \<longrightarrow>
      DefaultWalk self c f body options = Inl (UnsupportedFormat f))"
proof -
  have "registry_get DefaultRegistry f = None \<longleftrightarrow> f \<notin> set DefaultFormats"
    by (auto simp: registry_get_def DefaultFormats_def Formats_def DefaultRegistry_def map_of_eq_None_iff)
  then show ?thesis
    by (auto simp: Resolve_def Lookup_def DefaultWalk_def Walk_def split: option.splits)
qed

theorem formats_decide_witness:
  "Resolve DefaultRegistry ''cohere'' = Inl (UnsupportedFormat ''cohere'') \<and>
   DefaultWalk 7 None ''cohere'' sample_chat [] = Inl (UnsupportedFormat ''cohere'')"
proof -
  have "''cohere'' \<notin> set DefaultFormats" by code_simp
  then show ?thesis using formats_decide [of "''cohere''" "[]"] by simp
qed

text \<open>
  The alias \<open>gemini-cli\<close> is walked as \<open>interactions\<close> on every body: the results differ in the
  recorded source format only, and so do the errors not at all.
\<close>

theorem gemini_cli_is_interactions:
  "DefaultWalk self c ''gemini-cli'' body options =
   map_sum id (\<lambda>res. res\<lparr>wr_SourceFormat := ''gemini-cli''\<rparr>) (DefaultWalk self c ''interactions'' body options)"
proof -
  have "registry_get DefaultRegistry ''gemini-cli'' =
      Some \<lparr>re_protocol = ProtocolInteractions, re_walk = walkInteractions, re_alias = True\<rparr>"
    "registry_get DefaultRegistry ''interactions'' =
      Some \<lparr>re_protocol = ProtocolInteractions, re_walk = walkInteractions, re_alias = False\<rparr>"
    by (simp_all add: registry_get_def DefaultRegistry_def NewRegistry_def)
  then show ?thesis
    by (simp add: DefaultWalk_def Walk_def walk_tree_def finish_def Let_def split: prod.split sum.split)
qed

text \<open>
  C36: A walk stays within the limits in force: the body, the JSON nodes and the bytes it accounts for
  as retained (index, tree, targets, opaque and unsupported entries) never exceed them.
\<close>

theorem walk_within_limits:
  "DefaultWalk self c f body options = Inr res \<Longrightarrow>
   limits_ok (doc_limits (wr_Document res)) \<and>
   int (length body) \<le> MaxBodyBytes (doc_limits (wr_Document res)) \<and>
   int (wr_JSONNodes res) \<le> MaxNodes (doc_limits (wr_Document res)) \<and>
   0 \<le> wr_StructuralBytes res \<and>
   wr_StructuralBytes res \<le> MaxStructuralBytes (doc_limits (wr_Document res))"
proof -
  assume "DefaultWalk self c f body options = Inr res"
  then obtain e env s where "document_ok (we_document env)" "doc_body (we_document env) = body"
    "we_limit env = MaxStructuralBytes (doc_limits (we_document env))"
    "collector_ok env s" "res = finish env f s"
    by (rule DefaultWalk_Inr)
  then show ?thesis by (auto simp: finish_def collector_ok_def document_ok_def)
qed

theorem walk_within_limits_witness:
  "int (length sample_chat) \<le> 33554432 \<and> wr_StructuralBytes sample_walk \<le> MaxStructuralBytes DefaultLimits"
  using walk_within_limits [OF sample_walk] by (simp add: sample_walk_facts(4) DefaultLimits_def)

text \<open>
  C21: The tree a walker sees is the indexed document: read from left to right, its string nodes are
  exactly the strings of the index, with their values, their spans and their ordinals, although the
  tree is rebuilt from the bytes by another parser.
\<close>

theorem tree_strings_are_document_strings:
  "ScanObject self c body opts n = (Inr doc, m) \<Longrightarrow> parseTree c' body doc polls = (Inr root, t) \<Longrightarrow>
   node_strings root = map (doc_string doc) [0..<length (doc_strings doc)] \<and>
   node_ok (length (t_nodes t)) root"
  using parse_tree_sound(1) [OF document_ok_bounded [OF ScanObject_ok(1)]]
  by (simp add: tree_of_def doc_range_def)

theorem tree_strings_are_document_strings_witness:
  "case parseTree None sample_body sample_document 0 of
     (Inl _, _) \<Rightarrow> False
   | (Inr root, t) \<Rightarrow> node_strings root = map (doc_string sample_document) [0..<length (doc_strings sample_document)]"
proof -
  have scan: "ScanObject 7 None sample_body zero_limits 0 = (Inr sample_document, 7)"
  proof -
    have "doc_root_kind sample_document = KindObject" by code_simp
    then show ?thesis by (simp add: ScanObject_def bind_def sample_scan fail_if_def ret_def)
  qed
  obtain r t where p: "parseTree None sample_body sample_document 0 = (r, t)" by fastforce
  have "case fst (parseTree None sample_body sample_document 0) of Inl _ \<Rightarrow> False | Inr _ \<Rightarrow> True" by code_simp
  with p obtain root where "r = Inr root" by (auto split: sum.splits)
  with tree_strings_are_document_strings [OF scan, of None 0 root t] p show ?thesis by simp
qed

definition gemini_body :: "string \<Rightarrow> string" where
  "gemini_body extra = ''{'' @ json_member ''contents'' (''[{'' @ json_member ''role'' (quoted ''user'') @ '','' @
     json_member ''parts'' (''[{'' @ json_member ''text'' (quoted ''hi'') @ extra @ ''}]'') @ ''}]'') @ ''}''"

lemma gemini_null_signature:
  "map_sum id sample_view (DefaultWalk 7 None ''gemini'' (gemini_body ('','' @ json_member ''thoughtSignature'' ''null'')) []) =
     Inr ([], 2, 0, True)"
  by code_simp

lemma gemini_no_signature:
  "map_sum id sample_view (DefaultWalk 7 None ''gemini'' (gemini_body []) []) = Inr ([(''hi'', ScopeUser)], 1, 0, True)"
  by code_simp


end
