(* ===== verification/Redact_Call.thy ===== *)
theory Redact_Call
  imports Engine
begin

text \<open>
  \<open>Engine.Redact\<close> as the plugin calls it: always with an engine, a context, a budget and a renderer,
  whose states are threaded through the texts of a request, and what such a call guarantees. The
  state of a call is the triple of the polls made, the budget and the state of the renderer.
\<close>

section \<open>The call\<close>

definition engine_redact :: "tools \<Rightarrow> engine \<Rightarrow> ctx \<Rightarrow> string \<Rightarrow> request_options \<Rightarrow> 'r renderer \<Rightarrow>
    nat \<times> budget \<times> 'r \<Rightarrow> (redaction \<times> engine_error option) \<times> nat \<times> budget \<times> 'r" where
  "engine_redact ts e c s opts rend st =
    (case st of (polls, b, r) \<Rightarrow>
      (case Redact ts (Some e) (Some c) s opts (Some rend) \<lparr>k_polls = polls, k_budget = Some b, k_renderer = r\<rparr> of
         (out, st') \<Rightarrow> (out, k_polls st', (case k_budget st' of Some b' \<Rightarrow> b' | None \<Rightarrow> b), k_renderer st')))"

section \<open>The budget survives\<close>

text \<open>The budget given in the options stays, with its limits and its invariant.\<close>

definition given_ok :: "engine_limits \<Rightarrow> 'r call \<Rightarrow> bool" where
  "given_ok l st \<longleftrightarrow> (\<exists>b. k_budget st = Some b \<and> budget_ok b \<and> b_initialized b \<and> b_limits b = l)"

lemma given_ok_frame: "k_budget st' = k_budget st \<Longrightarrow> given_ok l st \<Longrightarrow> given_ok l st'"
  by (simp add: given_ok_def)

lemma keeps_poll_k [keeps_rules]: "keeps (given_ok l) (poll_k c)"
  by (rule keepsI) (auto simp: poll_k_def split: option.splits elim: given_ok_frame [rotated])

lemma keeps_with_budget:
  assumes m: "\<And>b r b'. budget_ok b \<Longrightarrow> b_initialized b \<Longrightarrow> m b = (r, b') \<Longrightarrow>
      budget_ok b' \<and> b_initialized b' \<and> b_limits b' = b_limits b"
  shows "keeps (given_ok l) (with_budget fresh m)"
proof -
  have "given_ok l t" if st: "given_ok l s" and w: "with_budget fresh m s = (r, t)" for s r t
  proof -
    obtain b where b: "k_budget s = Some b" "budget_ok b" "b_initialized b" "b_limits b = l"
      using st by (auto simp: given_ok_def)
    obtain x b' where mb: "m b = (x, b')" by fastforce
    with w b(1) have "t = s\<lparr>k_budget := Some b'\<rparr>" by (simp add: with_budget_def)
    with m [OF b(2,3) mb] b(4) show ?thesis by (simp add: given_ok_def)
  qed
  then show ?thesis by (blast intro: keepsI)
qed

lemma given_take_node [keeps_rules]: "keeps (given_ok l) (with_budget fresh (take_node n))"
proof (rule keeps_with_budget)
  fix b r b' assume b: "budget_ok b" "b_initialized b" "take_node n b = (r, b')"
  from take_node_ok [OF b(1,3)] b(2,3) show "budget_ok b' \<and> b_initialized b' \<and> b_limits b' = b_limits b"
    by (auto elim!: take_node_cases)
qed

lemma given_take_findings [keeps_rules]: "keeps (given_ok l) (with_budget fresh (take_findings n))"
proof (rule keeps_with_budget)
  fix b r b' assume b: "budget_ok b" "b_initialized b" "take_findings n b = (r, b')"
  from take_findings_ok [OF b(1,3)] b(2,3) show "budget_ok b' \<and> b_initialized b' \<and> b_limits b' = b_limits b"
    by (auto elim!: take_findings_cases)
qed

lemma given_remaining [keeps_rules]: "keeps (given_ok l) (with_budget fresh remaining_findings)"
  by (rule keeps_with_budget) (auto simp: remaining_findings_def bind_def modify_def gets_def)

lemma given_run_detectors [keeps_rules]: "keeps (given_ok l) (run_detectors ts e c s opts m)"
  by (rule keepsI) (auto simp: run_detectors_def split: prod.split_asm sum.split_asm elim: given_ok_frame [rotated])

lemma given_detect_with: "keeps (given_ok l) (detect_with ts e c s opts fresh)"
  unfolding detect_with_def by (intro keeps_rules)

lemma given_detect:
  assumes "detect ts (Some e) (Some c) s opts st = (r, st')" "given_ok l st"
  shows "given_ok l st'"
proof -
  have "k_budget st \<noteq> None" using assms(2) by (auto simp: given_ok_def)
  with assms(1) have "detect_with ts e c s opts (new_budget_unchecked (e_limits e)) st = (r, st')"
    by (auto simp: detect_def bind_def gets_def finally_do_def split: prod.split_asm)
  from keepsD [OF given_detect_with assms(2) this] show ?thesis .
qed

section \<open>The renderer\<close>

text \<open>
  \<open>steady R rend\<close>: the predicate \<open>R\<close> on the state of the renderer survives every call, with or without
  an error.
\<close>

definition steady :: "('r \<Rightarrow> bool) \<Rightarrow> 'r renderer \<Rightarrow> bool" where
  "steady R rend \<longleftrightarrow> (\<forall>co f p n r res n' r'. R r \<longrightarrow> rend co f p (n, r) = (res, (n', r')) \<longrightarrow> R r')"

lemma steadyD: "steady R rend \<Longrightarrow> R r \<Longrightarrow> rend co f p (n, r) = (res, (n', r')) \<Longrightarrow> R r'"
  unfolding steady_def by blast

lemma run_detectors_renderer: "run_detectors ts e c s opts m st = (r, st') \<Longrightarrow> k_renderer st' = k_renderer st"
  by (auto simp: run_detectors_def split: prod.split_asm sum.split_asm)

lemma with_budget_renderer: "with_budget fresh m st = (r, st') \<Longrightarrow> k_renderer st' = k_renderer st"
  by (auto simp: with_budget_def split: prod.split_asm)

lemma poll_k_renderer: "poll_k c st = (r, st') \<Longrightarrow> k_renderer st' = k_renderer st \<and> k_budget st' = k_budget st"
  by (auto simp: poll_k_def split: option.split_asm)

lemma keeps_renderer:
  assumes "\<And>st r st'. m st = (r, st') \<Longrightarrow> k_renderer st' = k_renderer st"
  shows "keeps (\<lambda>st. R (k_renderer st)) m"
  by (rule keepsI) (auto dest: assms)

lemma detect_renderer:
  assumes "detect ts (Some e) (Some c) s opts st = (r, st')"
  shows "k_renderer st' = k_renderer st"
proof -
  have "keeps (\<lambda>t. k_renderer t = k_renderer st) (detect_with ts e c s opts (new_budget_unchecked (e_limits e)))"
    unfolding detect_with_def
    by (intro keeps_rules keeps_renderer)
      (auto dest: with_budget_renderer run_detectors_renderer poll_k_renderer)
  moreover from assms obtain st1 where
    "detect_with ts e c s opts (new_budget_unchecked (e_limits e)) st = (r, st1)" "k_renderer st' = k_renderer st1"
    by (auto simp: detect_def bind_def gets_def finally_do_def split: prod.split_asm)
  ultimately show ?thesis by (auto dest: keepsD)
qed

lemma render_all_keeps:
  "render_all rend c s all out fs st = (res, st') \<Longrightarrow> steady R rend \<Longrightarrow> given_ok l st \<Longrightarrow> R (k_renderer st) \<Longrightarrow>
   given_ok l st' \<and> R (k_renderer st')"
proof (induction rend c s all out fs st arbitrary: res rule: render_all.induct)
  case (1 rend c s all out st)
  then show ?case by simp
next
  case (2 rend c s all out f fs st)
  obtain r st1 where p: "poll_k c st = (r, st1)" by fastforce
  have st1: "k_renderer st1 = k_renderer st" "given_ok l st1"
    using poll_k_renderer [OF p] "2.prems"(3) given_ok_frame [of st1 st l] by simp_all
  show ?case
  proof (cases "r = Inr () \<and> \<not> (f_Start f < 0 \<or> f_End f \<le> f_Start f \<or> int (length s) < f_End f)")
    case False
    then have "st' = st1" using "2.prems"(1) p by (cases r) (auto split: if_split_asm)
    with st1 "2.prems"(4) show ?thesis by simp
  next
    case True
    then have r: "r = Inr ()" and in_text: "\<not> (f_Start f < 0 \<or> f_End f \<le> f_Start f \<or> int (length s) < f_End f)"
      by simp_all
    obtain x q r' where x: "rend (Some c) f (islice s (f_Start f) (f_End f)) (k_polls st1, k_renderer st1) = (x, (q, r'))"
      by (metis prod.exhaust)
    have R: "R r'" using steadyD [OF "2.prems"(2) _ x] "2.prems"(4) st1(1) by simp
    let ?st2 = "st1\<lparr>k_polls := q, k_renderer := r'\<rparr>"
    have g: "given_ok l ?st2" using st1(2) by (simp add: given_ok_def)
    show ?thesis
    proof (cases x)
      case (Inl e)
      then have "st' = ?st2" using "2.prems"(1) p r in_text x by simp
      with R g show ?thesis by simp
    next
      case (Inr y)
      then have "render_all rend c s all (out @ [y]) fs ?st2 = (res, st')"
        using "2.prems"(1) p r in_text x by simp
      from "2.IH" [OF p [unfolded r, symmetric] refl in_text x [unfolded Inr, symmetric] refl refl this "2.prems"(2) g] R
      show ?thesis by simp
    qed
  qed
qed

lemma Redact_keeps:
  assumes "Redact ts (Some e) (Some c) s opts (Some rend) st = (res, st')" "steady R rend" "given_ok l st" "R (k_renderer st)"
  shows "given_ok l st' \<and> R (k_renderer st')"
proof -
  obtain d st1 where d: "detect ts (Some e) (Some c) s opts st = (d, st1)" by fastforce
  note 1 = given_detect [OF d assms(3)] detect_renderer [OF d]
  show ?thesis
  proof (cases "\<exists>fs. d = Inr fs \<and> fs \<noteq> []")
    case False
    then have "st' = st1" using assms(1) d by (cases d) (auto simp: Redact_def)
    with 1 assms(4) show ?thesis by simp
  next
    case True
    then obtain fs where fs: "d = Inr fs" "fs \<noteq> []" by blast
    obtain ra st2 where ra: "render_all rend c s fs [] fs st1 = (ra, st2)" by fastforce
    then have "st' = st2" using assms(1) d fs by (cases ra) (auto simp: Redact_def split: prod.split_asm)
    with render_all_keeps [OF ra assms(2) 1(1)] 1(2) assms(4) show ?thesis by simp
  qed
qed

section \<open>What a call returns\<close>

text \<open>
  \<open>clean ts e opts s fs xs out\<close>: the output is the text with the findings \<open>fs\<close> replaced by \<open>xs\<close>, and the
  findings cover every candidate of every detector.
\<close>

definition clean :: "tools \<Rightarrow> engine \<Rightarrow> request_options \<Rightarrow> string \<Rightarrow> finding list \<Rightarrow> string list \<Rightarrow> string \<Rightarrow> bool" where
  "clean ts e opts s fs xs out \<longleftrightarrow>
     findings_sound s fs \<and> length xs = length fs \<and> out = redacted_from s 0 (zip fs xs) \<and>
     (\<Union>f \<in> set fs. {f_Start f ..< f_End f}) = covered (filter (span_in (int (length s))) (all_candidates ts e s opts))"

text \<open>The renderer is called once per finding, from the state before the call to the state after it.\<close>

lemma Redact_renders:
  assumes "Redact ts (Some e) (Some c) s opts (Some rend) st = ((red, None), st')"
  obtains st1 xs where "detect ts (Some e) (Some c) s opts st = (Inr (rd_Findings red), st1)"
    "renders rend c s (rd_Findings red) (k_renderer st) xs (k_renderer st')"
    "rd_Redacted red = redacted_from s 0 (zip (rd_Findings red) xs)"
proof -
  obtain d st1 where d: "detect ts (Some e) (Some c) s opts st = (d, st1)" by fastforce
  then have fs: "d = Inr (rd_Findings red)"
    using assms by (auto simp: Redact_def Let_def split: sum.split_asm if_split_asm prod.split_asm)
  note same = detect_renderer [OF d]
  show ?thesis
  proof (cases "rd_Findings red = []")
    case True
    then have "st' = st1" "rd_Redacted red = s" using assms d fs by (auto simp: Redact_def)
    with True d fs same that [of st1 "[]"] show ?thesis by (simp add: renders_Nil)
  next
    case False
    obtain ra st2 where ra: "render_all rend c s (rd_Findings red) [] (rd_Findings red) st1 = (ra, st2)" by fastforce
    obtain ys where "ra = Inr ys" "st' = st2" "rd_Redacted red = rebuild s 0 [] (zip (rd_Findings red) ys)"
      using assms d fs False ra unfolding Redact_def Let_def by (cases ra; cases red) auto
    with render_all_result [of rend c s "rd_Findings red" "[]" "rd_Findings red" st1 ys st2] ra same d fs that
    show ?thesis by (auto simp: rebuild_redacted)
  qed
qed

lemma engine_redact_keeps:
  assumes "engine_redact ts e c s opts rend (n, b, r) = (res, (n', b', r'))" "steady R rend" "R r"
    "budget_ok b" "b_initialized b"
  shows "budget_ok b' \<and> b_initialized b' \<and> b_limits b' = b_limits b \<and> R r'"
proof -
  let ?st = "\<lparr>k_polls = n, k_budget = Some b, k_renderer = r\<rparr>"
  obtain st' where st': "Redact ts (Some e) (Some c) s opts (Some rend) ?st = (res, st')"
    using assms(1) by (auto simp: engine_redact_def split: prod.split_asm)
  have "given_ok (b_limits b) ?st" using assms(4,5) by (simp add: given_ok_def)
  from Redact_keeps [OF st' assms(2) this] assms(3) have "given_ok (b_limits b) st' \<and> R (k_renderer st')" by simp
  with assms(1) st' show ?thesis by (auto simp: engine_redact_def given_ok_def)
qed

lemma engine_redact_result:
  assumes "engine_redact ts e c s opts rend (n, b, r) = ((red, None), (n', b', r'))"
  obtains xs where "renders rend c s (rd_Findings red) r xs r'"
    "rd_Findings red = [] \<Longrightarrow> rd_Redacted red = s"
    "ro_PreservePlaceholder opts \<Longrightarrow> rd_Findings red = []"
    "\<not> ro_PreservePlaceholder opts \<Longrightarrow> clean ts e opts s (rd_Findings red) xs (rd_Redacted red)"
proof -
  let ?st = "\<lparr>k_polls = n, k_budget = Some b, k_renderer = r\<rparr>"
  obtain st' where st': "Redact ts (Some e) (Some c) s opts (Some rend) ?st = ((red, None), st')" "k_renderer st' = r'"
    using assms by (auto simp: engine_redact_def split: prod.split_asm)
  from Redact_renders [OF st'(1)] obtain st1 xs where d: "detect ts (Some e) (Some c) s opts ?st = (Inr (rd_Findings red), st1)"
    and x: "renders rend c s (rd_Findings red) r xs r'" "rd_Redacted red = redacted_from s 0 (zip (rd_Findings red) xs)"
    using st'(2) by auto
  show ?thesis
  proof (rule that [OF x(1)])
    show "rd_Findings red = [] \<Longrightarrow> rd_Redacted red = s" using x(2) by simp
    show "ro_PreservePlaceholder opts \<Longrightarrow> rd_Findings red = []" by (rule detect_result(3) [OF d])
    assume "\<not> ro_PreservePlaceholder opts"
    with detect_result(1,2) [OF d] x renders_length [OF x(1)]
    show "clean ts e opts s (rd_Findings red) xs (rd_Redacted red)" by (simp add: clean_def)
  qed
qed

end
