(* ===== verification/Request_Renderer.thy ===== *)
theory Request_Renderer
  imports Engine
begin

text \<open>
  The renderer of one request (\<open>requestRenderer\<close> of \<open>redactor.go\<close>): equal plaintexts of one kind get
  equal placeholders, different ones are numbered. Its mutex makes concurrent calls a sequence of
  whole calls. \<open>sha\<close> is \<open>sha256.Sum256\<close>, a parameter, and \<open>base\<close> the renderer of the plugin. The
  substitution log it may write to is added in \<open>Substitution_Log\<close>.
\<close>

section \<open>Numbered placeholders\<close>

text \<open>\<open>strconv.Itoa\<close> on a number that is not negative.\<close>

fun itoa :: "nat \<Rightarrow> string" where
  "itoa n = (if n < 10 then [char_of (48 + n)] else itoa (n div 10) @ [char_of (48 + n mod 10)])"

declare itoa.simps [simp del]

definition has_suffix :: "string \<Rightarrow> char \<Rightarrow> bool" where
  "has_suffix s c \<longleftrightarrow> s \<noteq> [] \<and> last s = c"

definition numbered_placeholder :: "string \<Rightarrow> nat \<Rightarrow> string" where
  "numbered_placeholder base number =
    (if base = [] \<or> number \<le> 1 then base
     else let suffix = ''#'' @ itoa number in
       if has_suffix base (CHR '']'') then butlast base @ suffix @ '']''
       else if has_suffix base (CHR ''>'') then butlast base @ suffix @ ''>''
       else base @ suffix)"

fun value_of_digits :: "string \<Rightarrow> nat \<Rightarrow> nat" where
  "value_of_digits [] acc = acc"
| "value_of_digits (c # cs) acc = value_of_digits cs (10 * acc + (of_char c - 48))"

lemma value_of_digits_append: "value_of_digits (xs @ ys) acc = value_of_digits ys (value_of_digits xs acc)"
  by (induction xs arbitrary: acc) auto

lemma digit_char: "d < 10 \<Longrightarrow> (of_char (char_of (48 + d) :: char) :: nat) - 48 = d"
  by (simp add: of_char_of)

text \<open>Reading the digits of a number back gives the number.\<close>

lemma value_of_itoa: "value_of_digits (itoa n) 0 = n"
proof (induction n rule: itoa.induct)
  case (1 n)
  show ?case
  proof (cases "n < 10")
    case True
    then show ?thesis using digit_char [of n] by (simp add: itoa.simps [of n])
  next
    case False
    then show ?thesis
      using 1 digit_char [of "n mod 10"] by (simp add: itoa.simps [of n] value_of_digits_append)
  qed
qed

lemma itoa_inj: "itoa m = itoa n \<longleftrightarrow> m = n"
  by (metis value_of_itoa)

lemma numbered_placeholder_inj:
  assumes "numbered_placeholder b m = numbered_placeholder b n" "b \<noteq> []" "1 \<le> m" "1 \<le> n"
  shows "m = n"
proof -
  have l: "length (numbered_placeholder b k) = length b + (if k \<le> 1 then 0 else 1 + length (itoa k))" for k
    using assms(2) by (auto simp: numbered_placeholder_def Let_def has_suffix_def)
  have "m \<le> 1 \<longleftrightarrow> n \<le> 1" using l [of m] l [of n] assms(1) by (auto split: if_splits)
  moreover have "itoa m = itoa n" if "\<not> m \<le> 1" "\<not> n \<le> 1"
    using assms(1,2) that by (auto simp: numbered_placeholder_def Let_def split: if_splits)
  ultimately show ?thesis using assms(3,4) itoa_inj [of m n] by fastforce
qed

section \<open>The renderer\<close>

record request_renderer =
  rr_seen :: "string \<rightharpoonup> string"
  rr_produced :: "string set"
  rr_next :: "finding_kind \<Rightarrow> nat"

definition new_request_renderer :: request_renderer where
  "new_request_renderer = \<lparr>rr_seen = Map.empty, rr_produced = {}, rr_next = (\<lambda>_. 0)\<rparr>"

definition render_key :: "(string \<Rightarrow> string) \<Rightarrow> finding_kind \<Rightarrow> string \<Rightarrow> string" where
  "render_key sha kind plaintext = sha (kind @ [CHR 0x00] @ plaintext)"

definition render_request :: "(string \<Rightarrow> string) \<Rightarrow> unit renderer \<Rightarrow> request_renderer renderer" where
  "render_request sha base co f plaintext s =
    (let r = snd s; key = render_key sha (f_Kind f) plaintext in
     case rr_seen r key of
       Some replacement \<Rightarrow> (Inr replacement, s)
     | None \<Rightarrow>
         (case base co f plaintext (fst s, ()) of
            (Inl e, (p, _)) \<Rightarrow> (Inl e, (p, r))
          | (Inr b, (p, _)) \<Rightarrow>
              let n = rr_next r (f_Kind f) + 1; replacement = numbered_placeholder b n in
              (Inr replacement,
               (p, r\<lparr>rr_next := (rr_next r)(f_Kind f := n), rr_seen := (rr_seen r)(key \<mapsto> replacement),
                     rr_produced := insert (sha replacement) (rr_produced r)\<rparr>))))"

definition produced_placeholder :: "(string \<Rightarrow> string) \<Rightarrow> request_renderer \<Rightarrow> string \<Rightarrow> bool" where
  "produced_placeholder sha r v \<longleftrightarrow> sha v \<in> rr_produced r"

section \<open>What a request has rendered\<close>

text \<open>
  \<open>rendered sha ph L r\<close>: the calls of \<open>L\<close> (kind, plaintext, replacement), in this order and between
  calls that failed, lead from a new renderer over the placeholders \<open>ph\<close> to \<open>r\<close>.
\<close>

abbreviation placeholder_base :: "(finding_kind \<rightharpoonup> string) \<Rightarrow> unit renderer" where
  "placeholder_base ph \<equiv> render_placeholder (Some ph)"

inductive rendered :: "(string \<Rightarrow> string) \<Rightarrow> (finding_kind \<rightharpoonup> string) \<Rightarrow>
    (finding_kind \<times> string \<times> string) list \<Rightarrow> request_renderer \<Rightarrow> bool"
  for sha ph where
  rendered_new: "rendered sha ph [] new_request_renderer"
| rendered_call: "rendered sha ph L r \<Longrightarrow>
    render_request sha (placeholder_base ph) co f plaintext (n, r) = (Inr x, (n', r')) \<Longrightarrow>
    rendered sha ph (L @ [(f_Kind f, plaintext, x)]) r'"
| rendered_failed: "rendered sha ph L r \<Longrightarrow>
    render_request sha (placeholder_base ph) co f plaintext (n, r) = (Inl e, (n', r')) \<Longrightarrow>
    rendered sha ph L r'"

inductive_cases rendered_NilE: "rendered sha ph [] r"

lemma base_Inr: "placeholder_base ph co f plaintext (n, ()) = (Inr b, s) \<Longrightarrow> ph (f_Kind f) = Some b"
  by (auto simp: render_placeholder_def split: option.splits)

lemma render_request_Inl: "render_request sha base co f plaintext (n, r) = (Inl e, (n', r')) \<Longrightarrow> r' = r"
  by (auto simp: render_request_def Let_def split: option.splits sum.splits prod.splits)

lemma render_request_Inr:
  assumes "render_request sha (placeholder_base ph) co f plaintext (n, r) = (Inr x, (n', r'))"
  obtains (seen) "rr_seen r (render_key sha (f_Kind f) plaintext) = Some x" "r' = r"
  | (fresh) b where "rr_seen r (render_key sha (f_Kind f) plaintext) = None" "ph (f_Kind f) = Some b"
      "x = numbered_placeholder b (rr_next r (f_Kind f) + 1)"
      "r' = r\<lparr>rr_next := (rr_next r)(f_Kind f := rr_next r (f_Kind f) + 1),
              rr_seen := (rr_seen r)(render_key sha (f_Kind f) plaintext \<mapsto> x),
              rr_produced := insert (sha x) (rr_produced r)\<rparr>"
  using assms base_Inr [of ph co f plaintext n]
  by (auto simp: render_request_def Let_def split: option.splits sum.splits prod.splits)

text \<open>
  The invariant: every key has one replacement, numbered by \<open>idx\<close>, and the keys of one kind have
  different numbers up to the counter of the kind.
\<close>

definition call_ok :: "(string \<Rightarrow> string) \<Rightarrow> (finding_kind \<rightharpoonup> string) \<Rightarrow> request_renderer \<Rightarrow> (string \<Rightarrow> nat) \<Rightarrow>
    finding_kind \<Rightarrow> string \<Rightarrow> string \<Rightarrow> bool" where
  "call_ok sha ph r idx k key x \<longleftrightarrow>
     rr_seen r key = Some x \<and> sha x \<in> rr_produced r \<and>
     (\<exists>b. ph k = Some b \<and> x = numbered_placeholder b (idx key)) \<and> 1 \<le> idx key \<and> idx key \<le> rr_next r k"

definition render_ok :: "(string \<Rightarrow> string) \<Rightarrow> (finding_kind \<rightharpoonup> string) \<Rightarrow>
    (finding_kind \<times> string \<times> string) list \<Rightarrow> request_renderer \<Rightarrow> (string \<Rightarrow> nat) \<Rightarrow> bool" where
  "render_ok sha ph L r idx \<longleftrightarrow>
     (\<forall>k p x. (k, p, x) \<in> set L \<longrightarrow> call_ok sha ph r idx k (render_key sha k p) x) \<and>
     (\<forall>k p x p' x'. (k, p, x) \<in> set L \<longrightarrow> (k, p', x') \<in> set L \<longrightarrow> render_key sha k p \<noteq> render_key sha k p' \<longrightarrow>
        idx (render_key sha k p) \<noteq> idx (render_key sha k p')) \<and>
     (\<forall>key x. rr_seen r key = Some x \<longrightarrow> (\<exists>k p. (k, p, x) \<in> set L \<and> key = render_key sha k p))"

lemma render_ok_call: "render_ok sha ph L r idx \<Longrightarrow> (k, p, x) \<in> set L \<Longrightarrow> call_ok sha ph r idx k (render_key sha k p) x"
  unfolding render_ok_def by blast

lemma render_ok_distinct: "render_ok sha ph L r idx \<Longrightarrow> (k, p, x) \<in> set L \<Longrightarrow> (k, p', x') \<in> set L \<Longrightarrow>
    idx (render_key sha k p) = idx (render_key sha k p') \<Longrightarrow> render_key sha k p = render_key sha k p'"
  unfolding render_ok_def by blast

lemma render_ok_seen: "render_ok sha ph L r idx \<Longrightarrow> rr_seen r key = Some x \<Longrightarrow>
    \<exists>k p. (k, p, x) \<in> set L \<and> key = render_key sha k p"
  unfolding render_ok_def by blast

definition keys_distinct :: "(string \<Rightarrow> string) \<Rightarrow> (finding_kind \<times> string \<times> string) list \<Rightarrow> bool" where
  "keys_distinct sha L \<longleftrightarrow> inj_on (\<lambda>(k, p). render_key sha k p) ((\<lambda>(k, p, x). (k, p)) ` set L)"

lemma keys_distinct_snoc: "keys_distinct sha (L @ [z]) \<Longrightarrow> keys_distinct sha L"
  by (auto simp: keys_distinct_def elim: inj_on_subset)

lemma keys_distinctD: "keys_distinct sha L \<Longrightarrow> (k, p, x) \<in> set L \<Longrightarrow> (k', p', x') \<in> set L \<Longrightarrow>
    render_key sha k p = render_key sha k' p' \<Longrightarrow> k = k' \<and> p = p'"
  by (force simp: keys_distinct_def inj_on_def)

lemma render_ok_fresh:
  assumes ok: "render_ok sha ph L r idx" and new: "rr_seen r (render_key sha k p) = None"
    and b: "ph k = Some b" "x = numbered_placeholder b (rr_next r k + 1)"
  shows "render_ok sha ph (L @ [(k, p, x)])
    (r\<lparr>rr_next := (rr_next r)(k := rr_next r k + 1), rr_seen := (rr_seen r)(render_key sha k p \<mapsto> x),
       rr_produced := insert (sha x) (rr_produced r)\<rparr>) (idx(render_key sha k p := rr_next r k + 1))"
    (is "render_ok sha ph ?L ?r ?idx")
proof -
  let ?key = "render_key sha"
  have old: "?key k' p' \<noteq> ?key k p" if "(k', p', x') \<in> set L" for k' p' x'
    using render_ok_call [OF ok that] new by (auto simp: call_ok_def)
  have le: "idx (?key k p') \<le> rr_next r k" if "(k, p', x') \<in> set L" for p' x'
    using render_ok_call [OF ok that] by (simp add: call_ok_def)
  have call: "call_ok sha ph ?r ?idx k' (?key k' p') x'" if "(k', p', x') \<in> set ?L" for k' p' x'
  proof (cases "(k', p', x') \<in> set L")
    case True
    from render_ok_call [OF ok this] old [OF this] show ?thesis by (auto simp: call_ok_def)
  next
    case False
    with that b show ?thesis by (auto simp: call_ok_def)
  qed
  have distinct: "?key k' p' = ?key k' p''"
    if "(k', p', x') \<in> set ?L" "(k', p'', x'') \<in> set ?L" "?idx (?key k' p') = ?idx (?key k' p'')" for k' p' x' p'' x''
  proof (cases "(k', p', x') \<in> set L"; cases "(k', p'', x'') \<in> set L")
    assume m: "(k', p', x') \<in> set L" "(k', p'', x'') \<in> set L"
    with old [OF m(1)] old [OF m(2)] that(3) show ?thesis by (simp add: render_ok_distinct [OF ok m])
  next
    assume m: "(k', p', x') \<in> set L" "(k', p'', x'') \<notin> set L"
    then have "k' = k" "p'' = p" using that(2) by auto
    with le [of p' x'] m(1) old [OF m(1)] that(3) show ?thesis by simp
  next
    assume m: "(k', p', x') \<notin> set L" "(k', p'', x'') \<in> set L"
    then have "k' = k" "p' = p" using that(1) by auto
    with le [of p'' x''] m(2) old [OF m(2)] that(3) show ?thesis by simp
  next
    assume "(k', p', x') \<notin> set L" "(k', p'', x'') \<notin> set L"
    then show ?thesis using that(1,2) by simp
  qed
  have seen: "\<exists>k' p'. (k', p', y) \<in> set ?L \<and> key = ?key k' p'" if "rr_seen ?r key = Some y" for key y
  proof (cases "key = ?key k p")
    case True
    with that have "(k, p, y) \<in> set ?L" by simp
    with True show ?thesis by blast
  next
    case False
    with that have "rr_seen r key = Some y" by simp
    from render_ok_seen [OF ok this] show ?thesis by auto
  qed
  show ?thesis unfolding render_ok_def using call distinct seen by blast
qed

lemma render_ok_again:
  assumes "render_ok sha ph L r idx" "(k, p, x) \<in> set L"
  shows "render_ok sha ph (L @ [(k, p, x)]) r idx"
proof -
  have "set (L @ [(k, p, x)]) = set L" using assms(2) by auto
  with assms(1) show ?thesis unfolding render_ok_def by presburger
qed

lemma rendered_ok: "rendered sha ph L r \<Longrightarrow> keys_distinct sha L \<Longrightarrow> \<exists>idx. render_ok sha ph L r idx"
proof (induction rule: rendered.induct)
  case rendered_new
  show ?case by (rule exI) (simp add: render_ok_def new_request_renderer_def)
next
  case (rendered_call L r co f plaintext n x n' r')
  then obtain idx where ok: "render_ok sha ph L r idx" using keys_distinct_snoc by blast
  from rendered_call.hyps(2) show ?case
  proof (cases rule: render_request_Inr)
    case seen
    then obtain k p where kp: "(k, p, x) \<in> set L" "render_key sha (f_Kind f) plaintext = render_key sha k p"
      using render_ok_seen [OF ok] by blast
    then have "k = f_Kind f \<and> p = plaintext"
      using keys_distinctD [OF rendered_call.prems, of k p x "f_Kind f" plaintext x] by auto
    with kp(1) render_ok_again [OF ok] seen(2) show ?thesis by auto
  next
    case (fresh b)
    from render_ok_fresh [OF ok fresh(1,2,3)] fresh(4) show ?thesis by auto
  qed
next
  case (rendered_failed L r co f plaintext n e n' r')
  then show ?case by (auto dest: render_request_Inl)
qed

lemma same_placeholder_iff:
  "rendered sha ph L r \<Longrightarrow> keys_distinct sha L \<Longrightarrow>
   (k, p, x) \<in> set L \<Longrightarrow> (k, p', x') \<in> set L \<Longrightarrow> ph k \<noteq> Some [] \<Longrightarrow> x = x' \<longleftrightarrow> p = p'"
proof -
  assume r: "rendered sha ph L r" "keys_distinct sha L" and m: "(k, p, x) \<in> set L" "(k, p', x') \<in> set L"
    and ne: "ph k \<noteq> Some []"
  let ?key = "render_key sha k"
  from rendered_ok [OF r] obtain idx where ok: "render_ok sha ph L r idx" by blast
  obtain b where b: "ph k = Some b" "x = numbered_placeholder b (idx (?key p))"
      "x' = numbered_placeholder b (idx (?key p'))" "1 \<le> idx (?key p)" "1 \<le> idx (?key p')"
    using render_ok_call [OF ok m(1)] render_ok_call [OF ok m(2)] by (auto simp: call_ok_def)
  have "p = p'" if "x = x'"
  proof -
    have "idx (?key p) = idx (?key p')" using numbered_placeholder_inj [of b] that b ne by metis
    then have "?key p = ?key p'" by (rule render_ok_distinct [OF ok m])
    then show ?thesis using keys_distinctD [OF r(2) m] by simp
  qed
  moreover have "x = x'" if "p = p'" using b that by simp
  ultimately show ?thesis by blast
qed

section \<open>Properties\<close>

text \<open>
  C16: Within one request the placeholders are pseudonyms. Equal plaintexts of one kind are replaced by
  equal placeholders, and different plaintexts of one kind by different ones, unless the placeholder
  of the kind is configured empty. The hypothesis says that SHA-256 does not collide on the keys of
  this request.
\<close>

theorem placeholders_are_pseudonyms:
  "rendered sha ph L r \<Longrightarrow> keys_distinct sha L \<Longrightarrow>
   (k, p, x) \<in> set L \<Longrightarrow> (k, p', x') \<in> set L \<Longrightarrow> ph k \<noteq> Some [] \<Longrightarrow> x = x' \<longleftrightarrow> p = p'"
  by (rule same_placeholder_iff)

text \<open>Two secrets and an address, with the digest replaced by the identity.\<close>

definition sample_finding :: "finding_kind \<Rightarrow> finding" where
  "sample_finding k = \<lparr>f_Kind = k, f_RuleID = ''r'', f_Start = 0, f_End = 1\<rparr>"

definition sample_render :: "finding_kind \<Rightarrow> string \<Rightarrow> request_renderer \<Rightarrow> (engine_error + string) \<times> nat \<times> request_renderer" where
  "sample_render k p r = render_request (\<lambda>s. s) (placeholder_base (new_placeholder_renderer Map.empty))
     (Some never) (sample_finding k) p (0, r)"

definition sample_after :: "finding_kind \<Rightarrow> string \<Rightarrow> request_renderer \<Rightarrow> request_renderer" where
  "sample_after k p r = snd (snd (sample_render k p r))"

abbreviation sample_r1 :: request_renderer where
  "sample_r1 \<equiv> sample_after KindSecret ''ab'' new_request_renderer"

abbreviation sample_r2 :: request_renderer where
  "sample_r2 \<equiv> sample_after KindSecret ''cd'' sample_r1"

lemma sample_log: "rendered (\<lambda>s. s) (new_placeholder_renderer Map.empty)
    [(KindSecret, ''ab'', ''[SECRET]''), (KindSecret, ''cd'', ''[SECRET#2]'')] sample_r2"
proof -
  have 1: "fst (sample_render KindSecret ''ab'' new_request_renderer) = Inr ''[SECRET]''" by code_simp
  have 2: "fst (sample_render KindSecret ''cd'' sample_r1) = Inr ''[SECRET#2]''" by code_simp
  note step = rendered_call [of "\<lambda>s. s" "new_placeholder_renderer Map.empty" _ _ "Some never" "sample_finding KindSecret"]
  have r1: "rendered (\<lambda>s. s) (new_placeholder_renderer Map.empty) [(KindSecret, ''ab'', ''[SECRET]'')] sample_r1"
    using step [OF rendered_new, of "''ab''" 0] 1
    by (simp add: sample_render_def sample_after_def sample_finding_def prod_eq_iff)
  show ?thesis
    using step [OF r1, of "''cd''" 0] 2
    by (simp add: sample_render_def sample_after_def sample_finding_def prod_eq_iff)
qed

theorem placeholders_are_pseudonyms_witness:
  "(''[SECRET]'' = ''[SECRET#2]'') = (''ab'' = ''cd'')"
  by (rule placeholders_are_pseudonyms [OF sample_log, of KindSecret])
    (simp_all add: keys_distinct_def render_key_def inj_on_def new_placeholder_renderer_def default_placeholders_def)

text \<open>
  Every placeholder a request has produced is recognised: a text that consists of it is preserved
  by the next inspection of the request, with or without collisions of the digest.
\<close>

theorem produced_placeholders_recognised:
  "render_request sha base co f plaintext (n, r) = (Inr x, (n', r')) \<Longrightarrow>
   \<forall>key y. rr_seen r key = Some y \<longrightarrow> produced_placeholder sha r y \<Longrightarrow>
   produced_placeholder sha r' x \<and> (\<forall>key y. rr_seen r' key = Some y \<longrightarrow> produced_placeholder sha r' y) \<and>
   (\<forall>v. produced_placeholder sha r v \<longrightarrow> produced_placeholder sha r' v)"
  by (auto simp: render_request_def produced_placeholder_def Let_def split: option.splits sum.splits prod.splits if_splits)

theorem produced_placeholders_recognised_witness:
  "produced_placeholder (\<lambda>s. s) sample_r1 ''[SECRET]''"
proof -
  have 1: "fst (sample_render KindSecret ''ab'' new_request_renderer) = Inr ''[SECRET]''" by code_simp
  then have "render_request (\<lambda>s. s) (placeholder_base (new_placeholder_renderer Map.empty)) (Some never)
      (sample_finding KindSecret) ''ab'' (0, new_request_renderer) =
      (Inr ''[SECRET]'', (fst (snd (sample_render KindSecret ''ab'' new_request_renderer)), sample_r1))"
    by (simp add: sample_render_def sample_after_def prod_eq_iff)
  from produced_placeholders_recognised [OF this] show ?thesis
    by (simp add: new_request_renderer_def)
qed

end
