(* ===== verification/Config.thy ===== *)
theory Config
  imports Loader Payload_Types
begin

text \<open>
  The configuration of the plugin (\<open>config.go\<close>, the configuration part of \<open>substitution_log.go\<close>):
  the decoded YAML, its validation, what is derived from it (limits, renderer, blocking rules, skip
  lists) and the loading of the rules. The YAML decoder, the file system and the digest are
  parameters. A Go map is an association list in the order in which it happens to be iterated.
\<close>

section \<open>The configuration\<close>

record limits_config =
  lc_MaxBodyBytes :: int
  lc_MaxDepth :: int
  lc_MaxJSONNodes :: int
  lc_MaxStructuralBytes :: int
  lc_MaxStringBytes :: int
  lc_MaxReplacements :: int
  lc_MaxReplacementBytes :: int
  lc_MaxTextBytes :: int
  lc_MaxTextNodes :: int
  lc_MaxFindings :: int

text \<open>The threshold is a \<open>float64\<close>; the model has rational numbers only.\<close>

record ml_assist_config =
  ml_Enabled :: bool
  ml_Threshold :: rat
  ml_Mode :: string

record substitution_log_config =
  sl_Enabled :: bool
  sl_Path :: string

record plugin_config =
  pc_GitleaksTOML :: string
  pc_SkipModels :: "string list"
  pc_SkipFormats :: "string list"
  pc_Mode :: string
  pc_OnError :: string
  pc_GitleaksMode :: string
  pc_AllowUnsupportedRules :: bool
  pc_BlockRuleIDs :: "string list"
  pc_Replacements :: "(string \<times> string) list"
  pc_Limits :: limits_config
  pc_MLAssist :: ml_assist_config
  pc_SubstitutionLog :: substitution_log_config

abbreviation modeRedact :: string where "modeRedact \<equiv> ''redact''"
abbreviation modeAudit :: string where "modeAudit \<equiv> ''audit''"
abbreviation onErrorBlock :: string where "onErrorBlock \<equiv> ''block''"
abbreviation onErrorPassthrough :: string where "onErrorPassthrough \<equiv> ''passthrough''"
abbreviation customRulesExtend :: string where "customRulesExtend \<equiv> ''extend''"
abbreviation customRulesReplace :: string where "customRulesReplace \<equiv> ''replace''"
abbreviation mlAssistAudit :: string where "mlAssistAudit \<equiv> ''audit''"
abbreviation mlAssistEnforce :: string where "mlAssistEnforce \<equiv> ''enforce''"

definition hard_max_text_bytes :: int where "hard_max_text_bytes = 33554432"
definition hard_max_text_nodes :: int where "hard_max_text_nodes = 100000"
definition hard_max_findings :: int where "hard_max_findings = 4096"

definition effective_threshold :: "ml_assist_config \<Rightarrow> rat" where
  "effective_threshold m = (if ml_Threshold m \<le> 0 then 1 / 2 else ml_Threshold m)"

definition enforce :: "ml_assist_config \<Rightarrow> bool" where
  "enforce m \<longleftrightarrow> ml_Enabled m \<and> ml_Mode m = mlAssistEnforce"

definition effective_path :: "substitution_log_config \<Rightarrow> string" where
  "effective_path c =
    (let path = trim_space (sl_Path c) in
     if path = [] then ''logs/privacyfilter-substitutions.jsonl'' else path)"

definition default_config :: plugin_config where
  "default_config = \<lparr>pc_GitleaksTOML = [], pc_SkipModels = [], pc_SkipFormats = [],
     pc_Mode = modeRedact, pc_OnError = onErrorBlock, pc_GitleaksMode = [], pc_AllowUnsupportedRules = False,
     pc_BlockRuleIDs = [], pc_Replacements = [],
     pc_Limits = \<lparr>lc_MaxBodyBytes = MaxBodyBytes DefaultLimits, lc_MaxDepth = MaxDepth DefaultLimits,
       lc_MaxJSONNodes = MaxNodes DefaultLimits, lc_MaxStructuralBytes = MaxStructuralBytes DefaultLimits,
       lc_MaxStringBytes = MaxStringBytes DefaultLimits, lc_MaxReplacements = MaxReplacements DefaultLimits,
       lc_MaxReplacementBytes = MaxReplacementBytes DefaultLimits, lc_MaxTextBytes = hard_max_text_bytes,
       lc_MaxTextNodes = hard_max_text_nodes, lc_MaxFindings = hard_max_findings\<rparr>,
     pc_MLAssist = \<lparr>ml_Enabled = False, ml_Threshold = 0, ml_Mode = []\<rparr>,
     pc_SubstitutionLog = \<lparr>sl_Enabled = False, sl_Path = []\<rparr>\<rparr>"

definition payload_limits :: "plugin_config \<Rightarrow> limits" where
  "payload_limits cfg = (let l = pc_Limits cfg in
     \<lparr>MaxBodyBytes = lc_MaxBodyBytes l, MaxDepth = lc_MaxDepth l, MaxNodes = lc_MaxJSONNodes l,
      MaxStructuralBytes = lc_MaxStructuralBytes l, MaxStringBytes = lc_MaxStringBytes l,
      MaxReplacements = lc_MaxReplacements l, MaxReplacementBytes = lc_MaxReplacementBytes l\<rparr>)"

definition engine_limits_of :: "plugin_config \<Rightarrow> engine_limits" where
  "engine_limits_of cfg = (let l = pc_Limits cfg in
     \<lparr>MaxBytes = lc_MaxTextBytes l, MaxFindings = lc_MaxFindings l, EMaxNodes = lc_MaxTextNodes l\<rparr>)"

definition replacement_kind :: "tools \<Rightarrow> string \<Rightarrow> finding_kind option" where
  "replacement_kind ts name =
    (let s = to_lower ts (trim_space name) in
     if s = KindEmail then Some KindEmail
     else if s = KindPhone then Some KindPhone
     else if s = KindIDCard then Some KindIDCard
     else if s = KindBankCard then Some KindBankCard
     else if s = KindIP then Some KindIP
     else if s = KindSecret then Some KindSecret
     else None)"

section \<open>Paths\<close>

text \<open>
  What is used of package \<open>path/filepath\<close>, with the separator of Unix. \<open>clean_parts\<close> is the loop of
  \<open>Clean\<close> over the elements between the separators, on the stack of those kept so far.
\<close>

fun split_slash :: "string \<Rightarrow> string \<Rightarrow> string list" where
  "split_slash acc [] = [acc]"
| "split_slash acc (c # cs) = (if c = CHR ''/'' then acc # split_slash [] cs else split_slash (acc @ [c]) cs)"

fun clean_parts :: "bool \<Rightarrow> string list \<Rightarrow> string list \<Rightarrow> string list" where
  "clean_parts rooted kept [] = kept"
| "clean_parts rooted kept (p # ps) =
    (if p = [] \<or> p = ''.'' then clean_parts rooted kept ps
     else if p = ''..'' then
       (if kept \<noteq> [] \<and> last kept \<noteq> ''..'' then clean_parts rooted (butlast kept) ps
        else if rooted then clean_parts rooted kept ps
        else clean_parts rooted (kept @ [p]) ps)
     else clean_parts rooted (kept @ [p]) ps)"

fun join_slash :: "string list \<Rightarrow> string" where
  "join_slash [] = []"
| "join_slash [p] = p"
| "join_slash (p # ps) = p @ ''/'' @ join_slash ps"

definition is_abs :: "string \<Rightarrow> bool" where
  "is_abs path = starts_with path ''/''"

definition clean_path :: "string \<Rightarrow> string" where
  "clean_path path =
    (let rooted = is_abs path; out = join_slash (clean_parts rooted [] (split_slash [] path)) in
     if rooted then ''/'' @ out else if out = [] then ''.'' else out)"

definition join_path :: "string \<Rightarrow> string \<Rightarrow> string" where
  "join_path dir path =
    (if dir = [] then (if path = [] then [] else clean_path path)
     else clean_path (dir @ ''/'' @ path))"

section \<open>Validation\<close>

datatype config_error =
    BadMode
  | BadOnError
  | BadGitleaksMode
  | GitleaksModeWithoutTOML
  | BadPayloadLimits payload_error
  | DetectorLimitsNotPositive
  | DetectorLimitsTooLarge
  | UnknownReplacementKind string
  | BadMLMode
  | BadMLThreshold
  | EmptyLogPath
  | EscapingLogPath
  | EmptyBlockRuleID
  | DuplicateBlockRuleID string
  | BadYAML
  | MultipleDocuments
  | ReplacementDetect string engine_error
  | SensitiveReplacement string
  | RulesUnreadable string
  | EngineNotCreated load_error
  | EmbeddedNotCreated load_error
  | EmbeddedDigest
  | EmbeddedSummary
  | EmbeddedIssueCount
  | EmbeddedIssue nat

fun check_block_rules :: "string set \<Rightarrow> string list \<Rightarrow> config_error option" where
  "check_block_rules seen [] = None"
| "check_block_rules seen (r # rs) =
    (let r = trim_space r in
     if r = [] then Some EmptyBlockRuleID
     else if r \<in> seen then Some (DuplicateBlockRuleID r)
     else check_block_rules (insert r seen) rs)"

fun check_replacements :: "tools \<Rightarrow> (string \<times> string) list \<Rightarrow> config_error option" where
  "check_replacements ts [] = None"
| "check_replacements ts ((name, _) # rest) =
    (if replacement_kind ts name = None then Some (UnknownReplacementKind name) else check_replacements ts rest)"

definition log_path_escapes :: "string \<Rightarrow> bool" where
  "log_path_escapes configured =
    (let path = trim_space configured in
     path \<noteq> [] \<and> \<not> is_abs path \<and> starts_with (clean_path path) ''..'')"

definition validate :: "tools \<Rightarrow> plugin_config \<Rightarrow> config_error option" where
  "validate ts cfg =
    (let l = pc_Limits cfg in
     if pc_Mode cfg \<notin> {modeRedact, modeAudit} then Some BadMode
     else if pc_OnError cfg \<notin> {onErrorBlock, onErrorPassthrough} then Some BadOnError
     else if pc_GitleaksMode cfg \<noteq> [] \<and> pc_GitleaksMode cfg \<noteq> customRulesExtend \<and>
             pc_GitleaksMode cfg \<noteq> customRulesReplace then Some BadGitleaksMode
     else if trim_space (pc_GitleaksTOML cfg) = [] \<and> pc_GitleaksMode cfg \<noteq> [] then Some GitleaksModeWithoutTOML
     else
       (case normalized (payload_limits cfg) of
          Inl e \<Rightarrow> Some (BadPayloadLimits e)
        | Inr _ \<Rightarrow>
            if lc_MaxTextBytes l \<le> 0 \<or> lc_MaxTextNodes l \<le> 0 \<or> lc_MaxFindings l \<le> 0 then
              Some DetectorLimitsNotPositive
            else if lc_MaxTextBytes l > hard_max_text_bytes \<or> lc_MaxTextNodes l > hard_max_text_nodes \<or>
                    lc_MaxFindings l > hard_max_findings then Some DetectorLimitsTooLarge
            else
              (case check_replacements ts (pc_Replacements cfg) of
                 Some e \<Rightarrow> Some e
               | None \<Rightarrow>
                   if ml_Mode (pc_MLAssist cfg) \<notin> {[], mlAssistAudit, mlAssistEnforce} then Some BadMLMode
                   else if ml_Threshold (pc_MLAssist cfg) < 0 \<or> ml_Threshold (pc_MLAssist cfg) > 1 then Some BadMLThreshold
                   else if sl_Enabled (pc_SubstitutionLog cfg) \<and>
                           trim_space (effective_path (pc_SubstitutionLog cfg)) = [] then Some EmptyLogPath
                   else if log_path_escapes (sl_Path (pc_SubstitutionLog cfg)) then Some EscapingLogPath
                   else check_block_rules {} (pc_BlockRuleIDs cfg))))"

text \<open>
  The YAML decoder with \<open>KnownFields(true)\<close>: it fills the configuration it is given, and a second
  call finds the end of the input, another document, or an error.
\<close>

datatype yaml_rest = YamlEnd | YamlDocument | YamlError

type_synonym yaml_decoder = "string \<Rightarrow> plugin_config \<Rightarrow> (plugin_config \<times> yaml_rest) option"

definition parse_config :: "tools \<Rightarrow> yaml_decoder \<Rightarrow> string \<Rightarrow> config_error + plugin_config" where
  "parse_config ts yaml src =
    (let cfg = default_config in
     if trim_space src = [] then Inr cfg
     else
       (case yaml src cfg of
          None \<Rightarrow> Inl BadYAML
        | Some (cfg, YamlDocument) \<Rightarrow> Inl MultipleDocuments
        | Some (cfg, YamlError) \<Rightarrow> Inl BadYAML
        | Some (cfg, YamlEnd) \<Rightarrow> (case validate ts cfg of Some e \<Rightarrow> Inl e | None \<Rightarrow> Inr cfg)))"

section \<open>What a configuration selects\<close>

fun renderer_overrides :: "tools \<Rightarrow> (string \<times> string) list \<Rightarrow> (finding_kind \<rightharpoonup> string) \<Rightarrow>
    config_error + (finding_kind \<rightharpoonup> string)" where
  "renderer_overrides ts [] overrides = Inr overrides"
| "renderer_overrides ts ((name, replacement) # rest) overrides =
    (case replacement_kind ts name of
       None \<Rightarrow> Inl (UnknownReplacementKind name)
     | Some kind \<Rightarrow> renderer_overrides ts rest (overrides(kind \<mapsto> replacement)))"

definition renderer_of :: "tools \<Rightarrow> plugin_config \<Rightarrow> config_error + (finding_kind \<rightharpoonup> string)" where
  "renderer_of ts cfg = map_sum id new_placeholder_renderer (renderer_overrides ts (pc_Replacements cfg) Map.empty)"

definition block_rule_set :: "plugin_config \<Rightarrow> string set" where
  "block_rule_set cfg = trim_space ` set (pc_BlockRuleIDs cfg)"

text \<open>
  \<open>strings.EqualFold\<close>. On strings with bytes above 127 it compares the simple foldings of Unicode,
  whose tables are not part of the model: \<open>uf\<close> decides.
\<close>

definition equal_fold :: "(string \<Rightarrow> string \<Rightarrow> bool) \<Rightarrow> string \<Rightarrow> string \<Rightarrow> bool" where
  "equal_fold uf s t =
    (if is_ascii s \<and> is_ascii t then map lower_byte s = map lower_byte t else uf s t)"

definition should_skip :: "(string \<Rightarrow> string \<Rightarrow> bool) \<Rightarrow> plugin_config \<Rightarrow> string \<Rightarrow> string \<Rightarrow> string \<Rightarrow> bool" where
  "should_skip uf cfg model requested_model format \<longleftrightarrow>
     list_ex (\<lambda>m. equal_fold uf (trim_space m) model \<or> equal_fold uf (trim_space m) requested_model) (pc_SkipModels cfg) \<or>
     list_ex (\<lambda>f. equal_fold uf (trim_space f) format) (pc_SkipFormats cfg)"

definition no_field_context :: field_context where
  "no_field_context = \<lparr>fc_ImmediateKey = [], fc_Ancestors = replicate 4 [], fc_AncestorCount = 0,
     fc_ToolScope = [], fc_Structured = False, fc_Encoded = False\<rparr>"

definition no_request_options :: request_options where
  "no_request_options = \<lparr>ro_PreferredRuleIDs = {}, ro_FieldContext = no_field_context, ro_PreservePlaceholder = False\<rparr>"

fun validate_replacement_safety :: "tools \<Rightarrow> engine \<Rightarrow> (string \<times> string) list \<Rightarrow> config_error option" where
  "validate_replacement_safety ts e [] = None"
| "validate_replacement_safety ts e ((name, replacement) # rest) =
    (if replacement = [] then validate_replacement_safety ts e rest
     else
       (case fst (Detect ts (Some e) (Some background) replacement no_request_options
                    \<lparr>k_polls = 0, k_budget = None, k_renderer = ()\<rparr>) of
          Inl err \<Rightarrow> Some (ReplacementDetect name err)
        | Inr fs \<Rightarrow> if fs \<noteq> [] then Some (SensitiveReplacement name) else validate_replacement_safety ts e rest))"

section \<open>The rules\<close>

record rule_material =
  rm_embedded :: string
  rm_custom :: string
  rm_mode :: custom_mode
  rm_customCompatibility :: policy
  rm_source :: string

text \<open>The embedded file, the digest of the library and the file system.\<close>

record rule_files =
  rf_embedded :: string
  rf_sha256 :: "string \<Rightarrow> string"
  rf_read :: "string \<Rightarrow> string option"

definition load_rule_material :: "rule_files \<Rightarrow> plugin_config \<Rightarrow> string \<Rightarrow> config_error + rule_material" where
  "load_rule_material files cfg plugin_dir =
    (let configured = trim_space (pc_GitleaksTOML cfg) in
     if configured = [] then
       Inr \<lparr>rm_embedded = rf_embedded files, rm_custom = [], rm_mode = 0, rm_customCompatibility = 0,
            rm_source = ''embedded''\<rparr>
     else
       let path = (if \<not> is_abs configured then join_path plugin_dir configured else configured) in
       (case rf_read files path of
          None \<Rightarrow> Inl (RulesUnreadable path)
        | Some data \<Rightarrow>
            let mode = (if pc_GitleaksMode cfg = customRulesExtend then CustomRulesExtend else CustomRulesReplace);
                compatibility = (if pc_AllowUnsupportedRules cfg then CompatibilitySkipUnsupported else CompatibilityError) in
            Inr \<lparr>rm_embedded = (if mode = CustomRulesExtend then rf_embedded files else []), rm_custom = data,
                 rm_mode = mode, rm_customCompatibility = compatibility, rm_source = path\<rparr>))"

definition hex_digit :: "nat \<Rightarrow> char" where
  "hex_digit d = (if d < 10 then char_of (48 + d) else char_of (87 + d))"

definition hex_string :: "string \<Rightarrow> string" where
  "hex_string s = concat (map (\<lambda>c. let b = (of_char c :: nat) in [hex_digit (b div 16), hex_digit (b mod 16)]) s)"

definition embedded_sha256 :: string where
  "embedded_sha256 = ''e163e53b9e7e8a8511e77271e2b323ed057759542a6d988258afe3a1fa329caf''"

definition embedded_issue :: "string \<Rightarrow> string \<Rightarrow> compat_action \<Rightarrow> string \<Rightarrow> compat_issue" where
  "embedded_issue rule_id feature action detail =
     \<lparr>ci_Source = RuleSourceEmbedded, ci_RuleID = rule_id, ci_Feature = feature, ci_Action = action, ci_Detail = detail\<rparr>"

definition expected_embedded_issues :: "compat_issue list" where
  "expected_embedded_issues =
    (let no_paths = ''path criteria are unavailable for protocol text'';
         pathless = ''path-constrained rules do not run for pathless protocol text'' in
     [embedded_issue [] ''global.allowlist.paths'' CompatibilityIgnored no_paths,
      embedded_issue ''freemius-secret-key'' ''rule.path'' CompatibilitySkipped pathless,
      embedded_issue ''generic-api-key'' ''rule.allowlists[3].paths'' CompatibilityIgnored no_paths,
      embedded_issue ''github-app-token'' ''rule.allowlists[0].paths'' CompatibilityIgnored no_paths,
      embedded_issue ''github-pat'' ''rule.allowlists[0].paths'' CompatibilityIgnored no_paths,
      embedded_issue ''hashicorp-tf-password'' ''rule.path'' CompatibilitySkipped pathless,
      embedded_issue ''kubernetes-secret-yaml'' ''rule.path'' CompatibilitySkipped pathless,
      embedded_issue ''nuget-config-password'' ''rule.path'' CompatibilitySkipped pathless,
      embedded_issue ''pkcs12-file'' ''rule.path-only'' CompatibilitySkipped
        ''path-only rules cannot produce a protocol-text span''])"

fun compare_issues :: "nat \<Rightarrow> compat_issue list \<Rightarrow> compat_issue list \<Rightarrow> config_error option" where
  "compare_issues i (got # gs) (want # ws) =
    (if ci_Source got \<noteq> ci_Source want \<or> ci_RuleID got \<noteq> ci_RuleID want \<or> ci_Feature got \<noteq> ci_Feature want \<or>
        ci_Action got \<noteq> ci_Action want \<or> ci_Detail got \<noteq> ci_Detail want
     then Some (EmbeddedIssue i) else compare_issues (i + 1) gs ws)"
| "compare_issues i _ _ = None"

definition validate_pinned_embedded_rules :: "rule_files \<Rightarrow> compat_report \<Rightarrow> config_error option" where
  "validate_pinned_embedded_rules files report =
    (if hex_string (rf_sha256 files (rf_embedded files)) \<noteq> embedded_sha256 then Some EmbeddedDigest
     else if cr_RulesSeen report \<noteq> 222 \<or> cr_RulesLoaded report \<noteq> 217 \<or> cr_RulesSkipped report \<noteq> 5 then
       Some EmbeddedSummary
     else if length (cr_Issues report) \<noteq> length expected_embedded_issues then Some EmbeddedIssueCount
     else compare_issues 0 (cr_Issues report) expected_embedded_issues)"

definition engine_config :: "plugin_config \<Rightarrow> rule_material \<Rightarrow> config" where
  "engine_config cfg material =
     \<lparr>cf_EmbeddedTOML = rm_embedded material, cf_CustomTOML = rm_custom material, cf_CustomMode = rm_mode material,
      cf_EmbeddedCompatibility = CompatibilitySkipUnsupported,
      cf_CustomCompatibility = rm_customCompatibility material, cf_DefaultLimits = engine_limits_of cfg\<rparr>"

definition embedded_config :: "plugin_config \<Rightarrow> rule_material \<Rightarrow> config" where
  "embedded_config cfg material =
     \<lparr>cf_EmbeddedTOML = rm_embedded material, cf_CustomTOML = [], cf_CustomMode = CustomRulesNone,
      cf_EmbeddedCompatibility = CompatibilitySkipUnsupported, cf_CustomCompatibility = CompatibilityError,
      cf_DefaultLimits = engine_limits_of cfg\<rparr>"

definition check_embedded :: "tools \<Rightarrow> toml_decoder \<Rightarrow> re_compiler \<Rightarrow> rule_files \<Rightarrow> plugin_config \<Rightarrow> rule_material \<Rightarrow>
    compat_report \<Rightarrow> config_error option" where
  "check_embedded ts toml rx files cfg material report =
    (if rm_embedded material = [] then None
     else if rm_custom material \<noteq> [] then
       (case New ts toml rx (embedded_config cfg material) of
          (Inl err, _) \<Rightarrow> Some (EmbeddedNotCreated err)
        | (Inr _, embedded_report) \<Rightarrow> validate_pinned_embedded_rules files embedded_report)
     else validate_pinned_embedded_rules files report)"

definition new_engine :: "tools \<Rightarrow> toml_decoder \<Rightarrow> re_compiler \<Rightarrow> rule_files \<Rightarrow> string \<Rightarrow> plugin_config \<Rightarrow>
    config_error + engine" where
  "new_engine ts toml rx files plugin_dir cfg =
    (case load_rule_material files cfg plugin_dir of
       Inl e \<Rightarrow> Inl e
     | Inr material \<Rightarrow>
         (case New ts toml rx (engine_config cfg material) of
            (Inl err, _) \<Rightarrow> Inl (EngineNotCreated err)
          | (Inr engine, report) \<Rightarrow>
              (case check_embedded ts toml rx files cfg material report of
                 Some e \<Rightarrow> Inl e
               | None \<Rightarrow> Inr engine)))"

section \<open>Derived facts\<close>

lemma renderer_overrides_ok:
  "check_replacements ts rs = None \<Longrightarrow> \<exists>m. renderer_overrides ts rs m0 = Inr m"
  by (induction ts rs arbitrary: m0 rule: check_replacements.induct) (auto split: if_splits)

lemma check_block_rules_ok:
  "check_block_rules seen rs = None \<longleftrightarrow>
     [] \<notin> set (map trim_space rs) \<and> distinct (map trim_space rs) \<and> seen \<inter> set (map trim_space rs) = {}"
  by (induction seen rs rule: check_block_rules.induct) (auto simp: Let_def)

lemma new_placeholder_renderer_total:
  "k \<in> {KindEmail, KindPhone, KindIDCard, KindBankCard, KindIP, KindSecret} \<Longrightarrow> new_placeholder_renderer m k \<noteq> None"
  by (auto simp: new_placeholder_renderer_def default_placeholders_def map_add_def split: option.splits)

text \<open>Of a relative path the elements \<open>..\<close> are kept in front of all others.\<close>

lemma clean_parts_shape:
  "''..'' \<notin> set rest \<Longrightarrow> \<exists>n' rest'. clean_parts False (replicate n ''..'' @ rest) ps = replicate n' ''..'' @ rest' \<and>
     ''..'' \<notin> set rest'"
proof (induction ps arbitrary: n rest)
  case Nil
  then show ?case by auto
next
  case (Cons p ps)
  consider "p = [] \<or> p = ''.''" | "p = ''..''" "rest \<noteq> []" | "p = ''..''" "rest = []"
    | "p \<noteq> []" "p \<noteq> ''.''" "p \<noteq> ''..''" by blast
  then show ?case
  proof cases
    case 1
    then show ?thesis using Cons.IH [OF Cons.prems, of n] by auto
  next
    case 2
    then have "last rest \<noteq> ''..''" using Cons.prems by (metis last_in_set)
    moreover have "''..'' \<notin> set (butlast rest)" using Cons.prems in_set_butlastD by metis
    ultimately show ?thesis using 2 Cons.IH [of "butlast rest" n] by (simp add: butlast_append)
  next
    case 3
    moreover have "replicate n ''..'' @ [''..''] = replicate (Suc n) ''..''" by (simp add: replicate_append_same)
    ultimately show ?thesis using Cons.IH [of "[]" "Suc n"] by (cases n) (simp_all add: last_replicate)
  next
    case 4
    then show ?thesis using Cons.IH [of "rest @ [p]" n] Cons.prems by simp
  qed
qed

lemma join_slash_dots: "starts_with (join_slash (''..'' # ps)) ''..''"
  by (cases ps) (simp_all add: starts_with_def)

lemma validate_ignores_skip: "validate ts (cfg\<lparr>pc_SkipModels := ms\<rparr>) = validate ts cfg"
  by (cases cfg) (simp only: validate_def payload_limits_def plugin_config.simps)

section \<open>Properties\<close>

text \<open>
  C25: A configuration that passes validation cannot make a request fail later. Its JSON limits
  normalise to usable ones, the budget of a request can be created with exactly the configured
  detector limits, the renderer has a placeholder for every kind the detectors produce, and the
  blocking rules are as many different, nonempty identifiers as were listed.
\<close>

theorem validated_config_is_usable:
  "validate ts cfg = None \<Longrightarrow>
   (\<exists>l. normalized (payload_limits cfg) = Inr l \<and> limits_ok l) \<and>
   (\<exists>b. NewBudget (engine_limits_of cfg) = Inr b \<and> budget_ok b \<and> b_limits b = engine_limits_of cfg) \<and>
   (\<exists>ph. renderer_of ts cfg = Inr ph \<and>
      (\<forall>k \<in> {KindEmail, KindPhone, KindIDCard, KindBankCard, KindIP, KindSecret}. ph k \<noteq> None)) \<and>
   [] \<notin> block_rule_set cfg \<and> card (block_rule_set cfg) = length (pc_BlockRuleIDs cfg)"
proof -
  assume v: "validate ts cfg = None"
  obtain l where l: "normalized (payload_limits cfg) = Inr l"
    using v unfolding validate_def Let_def by (auto split: if_split_asm sum.split_asm)
  note v' = v [unfolded validate_def Let_def l sum.case]
  have pos: "0 < lc_MaxTextBytes (pc_Limits cfg)" "0 < lc_MaxTextNodes (pc_Limits cfg)" "0 < lc_MaxFindings (pc_Limits cfg)"
    using v' by (auto split: if_split_asm)
  have repl: "check_replacements ts (pc_Replacements cfg) = None"
    using v' by (auto split: if_split_asm option.split_asm)
  have block: "check_block_rules {} (pc_BlockRuleIDs cfg) = None"
    using v' by (auto split: if_split_asm option.split_asm)
  have b: "NewBudget (engine_limits_of cfg) = Inr (new_budget_unchecked (engine_limits_of cfg))"
    using pos by (simp add: NewBudget_def normalize_limits_def engine_limits_of_def Let_def)
  obtain m where "renderer_overrides ts (pc_Replacements cfg) Map.empty = Inr m"
    using renderer_overrides_ok [OF repl] by blast
  then have r: "renderer_of ts cfg = Inr (new_placeholder_renderer m)" by (simp add: renderer_of_def)
  have "card (block_rule_set cfg) = length (pc_BlockRuleIDs cfg)" "[] \<notin> block_rule_set cfg"
    using block distinct_card [of "map trim_space (pc_BlockRuleIDs cfg)"]
    by (simp_all add: check_block_rules_ok block_rule_set_def)
  with l normalized_limits_ok [OF l] b new_budget_ok [OF b] r new_placeholder_renderer_total [of _ m]
  show ?thesis by (auto simp: new_budget_unchecked_def)
qed

theorem validated_config_is_usable_witness:
  "[] \<notin> block_rule_set (default_config\<lparr>pc_BlockRuleIDs := [''aws'', '' jwt'']\<rparr>) \<and>
   card (block_rule_set (default_config\<lparr>pc_BlockRuleIDs := [''aws'', '' jwt'']\<rparr>)) = 2"
proof -
  have "validate sample_tools (default_config\<lparr>pc_BlockRuleIDs := [''aws'', '' jwt'']\<rparr>) = None" by code_simp
  from validated_config_is_usable [OF this] show ?thesis by simp
qed

text \<open>
  C38: The file of the substitution log, which holds plaintext secrets, is never placed outside the
  working directory by a relative path: the elements of an accepted path, once cleaned, contain no
  \<open>..\<close>.
\<close>

theorem accepted_log_path_stays_inside:
  "validate ts cfg = None \<Longrightarrow> path = effective_path (pc_SubstitutionLog cfg) \<Longrightarrow> \<not> is_abs path \<Longrightarrow>
   ''..'' \<notin> set (clean_parts False [] (split_slash [] path))"
proof -
  assume v: "validate ts cfg = None" and p: "path = effective_path (pc_SubstitutionLog cfg)" and rel: "\<not> is_abs path"
  have esc: "\<not> log_path_escapes (sl_Path (pc_SubstitutionLog cfg))"
    using v unfolding validate_def Let_def by (auto split: if_split_asm sum.split_asm option.split_asm)
  show ?thesis
  proof (cases "trim_space (sl_Path (pc_SubstitutionLog cfg)) = []")
    case True
    then have "path = ''logs/privacyfilter-substitutions.jsonl''" by (simp add: p effective_path_def)
    then show ?thesis by simp
  next
    case False
    then have "path = trim_space (sl_Path (pc_SubstitutionLog cfg))" by (simp add: p effective_path_def Let_def)
    with False esc rel have np: "\<not> starts_with (clean_path path) ''..''" by (simp add: log_path_escapes_def Let_def)
    obtain n rest where cp: "clean_parts False [] (split_slash [] path) = replicate n ''..'' @ rest" "''..'' \<notin> set rest"
      using clean_parts_shape [of "[]" 0 "split_slash [] path"] by (simp, blast)
    have "n = 0"
    proof (rule ccontr)
      assume "n \<noteq> 0"
      then obtain m where "n = Suc m" by (cases n) auto
      then have "clean_parts False [] (split_slash [] path) = ''..'' # (replicate m ''..'' @ rest)" using cp(1) by simp
      moreover have "join_slash (''..'' # ps) \<noteq> []" for ps by (cases ps) simp_all
      ultimately have "starts_with (clean_path path) ''..''"
        using rel join_slash_dots by (simp add: clean_path_def)
      with np show False ..
    qed
    with cp show ?thesis by simp
  qed
qed

definition sample_log_config :: plugin_config where
  "sample_log_config = default_config\<lparr>pc_SubstitutionLog := \<lparr>sl_Enabled = True, sl_Path = '' a/../b/./c ''\<rparr>\<rparr>"

theorem accepted_log_path_stays_inside_witness:
  "''..'' \<notin> set (clean_parts False [] (split_slash [] ''a/../b/./c''))"
proof -
  have "validate sample_tools sample_log_config = None" by code_simp
  moreover have "effective_path (pc_SubstitutionLog sample_log_config) = ''a/../b/./c''" by code_simp
  moreover have "\<not> is_abs ''a/../b/./c''" by (simp add: is_abs_def starts_with_def)
  ultimately show ?thesis using accepted_log_path_stays_inside [of sample_tools sample_log_config] by simp
qed



text \<open>
  Names of replacements are trimmed and lowered, and two names of one kind are accepted. Which of
  the two texts is used then depends on the order in which the map is iterated.
\<close>

theorem replacement_depends_on_iteration:
  "replacement_kind ts a = Some k \<Longrightarrow> replacement_kind ts b = Some k \<Longrightarrow>
   check_replacements ts [(a, x), (b, y)] = None \<and>
   map_sum id (\<lambda>ph. ph k) (renderer_of ts (cfg\<lparr>pc_Replacements := [(a, x), (b, y)]\<rparr>)) = Inr (Some y) \<and>
   map_sum id (\<lambda>ph. ph k) (renderer_of ts (cfg\<lparr>pc_Replacements := [(b, y), (a, x)]\<rparr>)) = Inr (Some x)"
  by (simp add: renderer_of_def new_placeholder_renderer_def)

theorem replacement_depends_on_iteration_witness:
  "map_sum id (\<lambda>ph. ph KindEmail) (renderer_of sample_tools
     (default_config\<lparr>pc_Replacements := [(''email'', ''<e>''), (''Email'', ''<mail>'')]\<rparr>)) = Inr (Some ''<mail>'')"
proof -
  have "replacement_kind sample_tools ''email'' = Some KindEmail" "replacement_kind sample_tools ''Email'' = Some KindEmail"
    by code_simp+
  from replacement_depends_on_iteration [OF this] show ?thesis by blast
qed

end
