(* ===== verification/Redactor.thy ===== *)
theory Redactor
  imports Redact_Call Request_Renderer Config Walk_Sound
begin

text \<open>
  The redaction of one request (\<open>redactor.go\<close>): the walk of its body, the inspection of every target,
  as text or as a JSON document of its own, and the splice of the replacements.

  The functions take the context of the calls, which is never nil here. The state is what the request
  threads through all of them: the polls made, the budget, the renderer, and the identity the next
  document gets. The walk numbers its polls separately (its context is an argument of its own).
\<close>

section \<open>Errors\<close>

text \<open>
  A constructor per error the file builds or passes on. \<open>TargetInspection\<close> has the path and the cause,
  \<open>RequestShape\<close> the number of unsupported shapes and the first paths, \<open>EncodedJSON\<close> wraps
  \<open>errUnsupportedRequestShape\<close> and the error of the scanner.
\<close>

datatype sanitize_error =
    WalkFailed walk_error
  | PayloadFailed payload_error
  | EngineFailed engine_error
  | CtxFailed ctx_error
  | Blocked string
  | RequestShape nat "path option list"
  | TargetInspection path sanitize_error
  | EncodedJSON payload_error
  | InvalidMutability
  | TokenUnavailable
  | ContextUnavailable

section \<open>State\<close>

text \<open>\<open>requestInspectionBudget\<close>; \<open>ib_mlFlagged\<close> is \<open>None\<close> for a nil counter.\<close>

record inspection =
  ib_engine :: budget
  ib_limits :: limits
  ib_jsonNodes :: int
  ib_structuralBytes :: int
  ib_mlFlagged :: "int option"

record sanitizing =
  z_polls :: nat
  z_budget :: inspection
  z_renderer :: request_renderer
  z_doc :: nat

type_synonym 'a sanitize = "(sanitize_error, sanitizing, 'a) M"

text \<open>
  The plugin, as far as a request uses it. The renderer of \<open>buildPlugin\<close> is a placeholder renderer.
  \<open>pg_score\<close> is \<open>mlScore\<close>, which fails when the embedded model does not load.
\<close>

record plugin =
  pg_cfg :: plugin_config
  pg_tools :: tools
  pg_engine :: engine
  pg_placeholders :: "finding_kind \<rightharpoonup> string"
  pg_blockRuleIDs :: "string set"
  pg_sha256 :: "string \<Rightarrow> string"
  pg_score :: "string \<Rightarrow> rat option"

definition audit_mode :: "plugin \<Rightarrow> bool" where
  "audit_mode pl \<longleftrightarrow> pc_Mode (pg_cfg pl) = modeAudit"

definition plugin_render :: "plugin \<Rightarrow> request_renderer renderer" where
  "plugin_render pl = render_request (pg_sha256 pl) (placeholder_base (pg_placeholders pl))"

definition new_request_inspection_budget :: "budget \<Rightarrow> limits \<Rightarrow> int \<Rightarrow> int \<Rightarrow> sanitize_error + inspection" where
  "new_request_inspection_budget engine lims initial_nodes initial_structural =
    (case normalized lims of
       Inl e \<Rightarrow> Inl (PayloadFailed e)
     | Inr l \<Rightarrow>
         if initial_nodes < 0 \<or> initial_structural < 0 then Inl (EngineFailed ErrInternalFailure)
         else if initial_nodes > MaxNodes l then Inl (PayloadFailed NodeLimit)
         else if initial_structural > MaxStructuralBytes l then Inl (PayloadFailed StructuralLimit)
         else Inr \<lparr>ib_engine = engine, ib_limits = l, ib_jsonNodes = initial_nodes,
                   ib_structuralBytes = initial_structural, ib_mlFlagged = None\<rparr>)"

text \<open>A scan on its own document, with what is left of the limits; a failed scan is not charged.\<close>

definition scan_encoded_json :: "ctx \<Rightarrow> string \<Rightarrow> (payload_error, sanitizing, document) M" where
  "scan_encoded_json c text s =
    (let b = z_budget s;
         remaining_nodes = MaxNodes (ib_limits b) - ib_jsonNodes b;
         remaining_structural = MaxStructuralBytes (ib_limits b) - ib_structuralBytes b in
     if remaining_nodes \<le> 0 then (Inl NodeLimit, s)
     else if remaining_structural \<le> 0 then (Inl StructuralLimit, s)
     else
       (case Scan (z_doc s) (Some c) text
               ((ib_limits b)\<lparr>MaxNodes := remaining_nodes, MaxStructuralBytes := remaining_structural\<rparr>) (z_polls s) of
          (Inl e, p) \<Rightarrow> (Inl e, s\<lparr>z_polls := p, z_doc := Suc (z_doc s)\<rparr>)
        | (Inr d, p) \<Rightarrow>
            (Inr d, s\<lparr>z_polls := p, z_doc := Suc (z_doc s),
               z_budget := b\<lparr>ib_jsonNodes := ib_jsonNodes b + int (doc_node_count d),
                             ib_structuralBytes := ib_structuralBytes b + doc_structural_bytes d\<rparr>\<rparr>)))"

section \<open>Contexts\<close>

definition has_credential_ancestor_key :: "string_key_context \<Rightarrow> bool" where
  "has_credential_ancestor_key m \<longleftrightarrow>
     is_credential_ancestor_field_key (ImmediateKey m) \<or>
     list_ex is_credential_ancestor_field_key (take (AncestorCount m) (Ancestors m))"

definition append_ancestor :: "string \<Rightarrow> string_key_context \<Rightarrow> string_key_context" where
  "append_ancestor key m =
    (if key = [] then m
     else if length (Ancestors m) \<le> AncestorCount m then
       (if is_credential_ancestor_field_key key \<and> \<not> has_credential_ancestor_key m
        then m\<lparr>Ancestors := (Ancestors m)[length (Ancestors m) - 1 := key]\<rparr> else m)
     else m\<lparr>Ancestors := (Ancestors m)[AncestorCount m := key], AncestorCount := AncestorCount m + 1\<rparr>)"

definition merge_string_key_contexts :: "string_key_context \<Rightarrow> string_key_context \<Rightarrow> string_key_context" where
  "merge_string_key_contexts inner outer =
     fold append_ancestor
       (take (AncestorCount inner) (Ancestors inner) @ [ImmediateKey outer] @ take (AncestorCount outer) (Ancestors outer))
       \<lparr>ImmediateKey = ImmediateKey inner, Ancestors = replicate max_context_ancestors [], AncestorCount = 0\<rparr>"

definition looks_like_encoded_json_container :: "string \<Rightarrow> bool" where
  "looks_like_encoded_json_container text =
    (let trimmed = trim_space text in starts_with trimmed ''{'' \<or> starts_with trimmed ''['')"

definition engine_field_context :: "target_context \<Rightarrow> field_context" where
  "engine_field_context c =
     \<lparr>fc_ImmediateKey = ImmediateKey (tc_Fields c), fc_Ancestors = Ancestors (tc_Fields c),
      fc_AncestorCount = AncestorCount (tc_Fields c),
      fc_ToolScope = (case tc_ToolScope c of
         ScopeToolInput \<Rightarrow> ''tool-input'' | ScopeToolOutput \<Rightarrow> ''tool-output'' | _ \<Rightarrow> []),
      fc_Structured = tc_Structured c, fc_Encoded = tc_Encoded c\<rparr>"

section \<open>Texts\<close>

text \<open>\<open>mlSecondOpinion\<close>; its error is discarded by the caller, which goes on as without a flag.\<close>

definition ml_finding :: "string \<Rightarrow> finding" where
  "ml_finding text = \<lparr>f_Kind = KindSecret, f_RuleID = ''ml.second-opinion'', f_Start = 0, f_End = int (length text)\<rparr>"

definition ml_second_opinion :: "plugin \<Rightarrow> ctx \<Rightarrow> string \<Rightarrow> (engine_error option, nat \<times> request_renderer, bool \<times> string) M" where
  "ml_second_opinion pl c text s =
    (let m = pc_MLAssist (pg_cfg pl) in
     if trim_space text = [] then (Inr (False, []), s)
     else
       (case pg_score pl text of
          None \<Rightarrow> (Inl None, s)
        | Some score \<Rightarrow>
            if score < effective_threshold m then (Inr (False, []), s)
            else if \<not> enforce m \<or> audit_mode pl then (Inr (True, []), s)
            else
              (case plugin_render pl (Some c) (ml_finding text) text s of
                 (Inl e, s) \<Rightarrow> (Inl (Some e), s)
               | (Inr replacement, s) \<Rightarrow> (Inr (True, replacement), s))))"

definition flag_ml :: "sanitizing \<Rightarrow> sanitizing" where
  "flag_ml s = s\<lparr>z_budget := (z_budget s)\<lparr>ib_mlFlagged := map_option (\<lambda>n. n + 1) (ib_mlFlagged (z_budget s))\<rparr>\<rparr>"

definition sanitize_text :: "plugin \<Rightarrow> ctx \<Rightarrow> string \<Rightarrow> field_context \<Rightarrow> (string \<times> int \<times> bool) sanitize" where
  "sanitize_text pl c text f s =
    (let preserve = produced_placeholder (pg_sha256 pl) (z_renderer s) text;
         opts = \<lparr>ro_PreferredRuleIDs = pg_blockRuleIDs pl, ro_FieldContext = f, ro_PreservePlaceholder = preserve\<rparr> in
     case engine_redact (pg_tools pl) (pg_engine pl) c text opts (plugin_render pl)
            (z_polls s, ib_engine (z_budget s), z_renderer s) of
       ((red, err), (p, b, r)) \<Rightarrow>
         let s = s\<lparr>z_polls := p, z_budget := (z_budget s)\<lparr>ib_engine := b\<rparr>, z_renderer := r\<rparr>;
             result = (rd_Redacted red, int (length (rd_Findings red)), Hit red) in
         (case err of
            Some e \<Rightarrow> (Inl (EngineFailed e), s)
          | None \<Rightarrow>
              (case (if \<not> audit_mode pl then find (\<lambda>fd. f_RuleID fd \<in> pg_blockRuleIDs pl) (rd_Findings red) else None) of
                 Some fd \<Rightarrow> (Inl (Blocked (f_RuleID fd)), s)
               | None \<Rightarrow>
                   if rd_Findings red = [] \<and> \<not> preserve \<and> ml_Enabled (pc_MLAssist (pg_cfg pl)) then
                     (case ml_second_opinion pl c text (p, r) of
                        (opinion, (p, r)) \<Rightarrow>
                          let s = s\<lparr>z_polls := p, z_renderer := r\<rparr> in
                          (case opinion of
                             Inr (True, replacement) \<Rightarrow>
                               if replacement \<noteq> [] then (Inr (replacement, 1, True), flag_ml s)
                               else (Inr result, flag_ml s)
                           | _ \<Rightarrow> (Inr result, s)))
                   else (Inr result, s))))"

section \<open>Texts that are JSON\<close>

text \<open>The error of \<open>Document.Replace\<close> and of a poll, in the state of the request.\<close>

definition replace_z :: "ctx \<Rightarrow> document \<Rightarrow> replacement list \<Rightarrow> (string \<times> bool) sanitize" where
  "replace_z c d rs s =
    (case Replace (Some d) (Some c) rs (z_polls s) of
       (Inl e, p) \<Rightarrow> (Inl (PayloadFailed e), s\<lparr>z_polls := p\<rparr>)
     | (Inr x, p) \<Rightarrow> (Inr x, s\<lparr>z_polls := p\<rparr>))"

definition poll_z :: "ctx \<Rightarrow> unit sanitize" where
  "poll_z c s = (case c (z_polls s) of
     None \<Rightarrow> (Inr (), s\<lparr>z_polls := Suc (z_polls s)\<rparr>)
   | Some e \<Rightarrow> (Inl (CtxFailed e), s\<lparr>z_polls := Suc (z_polls s)\<rparr>))"

definition inner_context :: "string_key_context \<Rightarrow> target_context \<Rightarrow> target_context" where
  "inner_context keys outer =
     outer\<lparr>tc_Fields := merge_string_key_contexts keys (tc_Fields outer), tc_Structured := True, tc_Encoded := True\<rparr>"

text \<open>
  The loop over the strings of an encoded document. \<open>nested\<close> is the recursive call, one level deeper,
  on a string that looks like a document again.
\<close>

fun sanitize_strings :: "(string \<Rightarrow> target_context \<Rightarrow> (string \<times> int \<times> bool) sanitize) \<Rightarrow> plugin \<Rightarrow> ctx \<Rightarrow> document \<Rightarrow>
    target_context \<Rightarrow> nat list \<Rightarrow> replacement list \<Rightarrow> int \<Rightarrow> (replacement list \<times> int) sanitize" where
  "sanitize_strings nested pl c d outer [] rs n = ret (rs, n)"
| "sanitize_strings nested pl c d outer (i # is) rs n =
    (case StringTokenAt (Some d) (int i) of
       None \<Rightarrow> fail TokenUnavailable
     | Some token \<Rightarrow>
         (case StringKeyContextAt (Some d) (int i) of
            None \<Rightarrow> fail ContextUnavailable
          | Some keys \<Rightarrow>
              bind (if looks_like_encoded_json_container (tok_value token)
                    then nested (tok_value token) (inner_context keys outer)
                    else sanitize_text pl c (tok_value token) (engine_field_context (inner_context keys outer)))
                (\<lambda>(out, found, changed).
                  sanitize_strings nested pl c d outer is
                    (if changed \<and> \<not> audit_mode pl then rs @ [\<lparr>rp_token = token, rp_value = out\<rparr>] else rs)
                    (n + found))))"

definition sanitize_document :: "(string \<Rightarrow> target_context \<Rightarrow> (string \<times> int \<times> bool) sanitize) \<Rightarrow> plugin \<Rightarrow> ctx \<Rightarrow>
    string \<Rightarrow> document \<Rightarrow> target_context \<Rightarrow> (string \<times> int \<times> bool) sanitize" where
  "sanitize_document nested pl c text d outer =
     bind (sanitize_strings nested pl c d outer [0..<length (doc_strings d)] [] 0) (\<lambda>(rs, n).
       if audit_mode pl \<or> rs = [] then ret (text, n, False)
       else bind (replace_z c d rs) (\<lambda>(out, changed). ret (out, n, changed)))"

definition sanitize_plain :: "plugin \<Rightarrow> ctx \<Rightarrow> string \<Rightarrow> target_context \<Rightarrow> (string \<times> int \<times> bool) sanitize" where
  "sanitize_plain pl c text outer =
    (let f = engine_field_context outer in
     sanitize_text pl c text (if \<not> tc_Structured outer then f\<lparr>fc_Structured := False, fc_Encoded := False\<rparr> else f))"

definition is_invalid_json :: "payload_error \<Rightarrow> bool" where
  "is_invalid_json e = (case e of InvalidJSON _ _ \<Rightarrow> True | _ \<Rightarrow> False)"

text \<open>
  \<open>sanitizeJSONTextWithBudget\<close> by recursion on the number of levels still allowed,
  \<open>maxEncodedJSONNesting + 1 - nesting\<close>: with none left, \<open>nesting\<close> exceeds the maximum.
\<close>

definition max_encoded_json_nesting :: nat where
  "max_encoded_json_nesting = 4"

definition sanitize_json_with :: "(string \<Rightarrow> target_context \<Rightarrow> (string \<times> int \<times> bool) sanitize) option \<Rightarrow> plugin \<Rightarrow> ctx \<Rightarrow>
    bool \<Rightarrow> string \<Rightarrow> target_context \<Rightarrow> (string \<times> int \<times> bool) sanitize" where
  "sanitize_json_with nested pl c allow_plain text outer =
    (let f = engine_field_context outer in
     if credential_field_applies f then sanitize_text pl c text f
     else if allow_plain \<and> \<not> looks_like_encoded_json_container text then sanitize_plain pl c text outer
     else (\<lambda>s.
       case scan_encoded_json c text s of
         (Inl e, s) \<Rightarrow>
           if allow_plain \<and> is_invalid_json e then sanitize_plain pl c text outer s
           else (Inl (EncodedJSON e), s)
       | (Inr d, s) \<Rightarrow>
           (case nested of
              None \<Rightarrow> (Inl (EncodedJSON DepthLimit), s)
            | Some rec \<Rightarrow> sanitize_document rec pl c text d outer s)))"

primrec sanitize_json :: "nat \<Rightarrow> plugin \<Rightarrow> ctx \<Rightarrow> bool \<Rightarrow> string \<Rightarrow> target_context \<Rightarrow> (string \<times> int \<times> bool) sanitize" where
  "sanitize_json 0 pl c = sanitize_json_with None pl c"
| "sanitize_json (Suc levels) pl c = sanitize_json_with (Some (sanitize_json levels pl c True)) pl c"

section \<open>Requests\<close>

definition sanitize_target :: "plugin \<Rightarrow> ctx \<Rightarrow> target \<Rightarrow> (string \<times> int \<times> bool) sanitize" where
  "sanitize_target pl c t =
    (case tg_Mutable t of
       MutabilityDirect \<Rightarrow> sanitize_text pl c (tok_value (tg_Token t)) (engine_field_context (tg_Context t))
     | MutabilityEncodedJSON \<Rightarrow>
         sanitize_json (Suc max_encoded_json_nesting) pl c False (tok_value (tg_Token t)) (tg_Context t)
     | MutabilityJSONOrPlain \<Rightarrow>
         sanitize_json (Suc max_encoded_json_nesting) pl c True (tok_value (tg_Token t)) (tg_Context t)
     | MutabilityInvalid \<Rightarrow> fail InvalidMutability)"

fun sanitize_targets :: "plugin \<Rightarrow> ctx \<Rightarrow> target list \<Rightarrow> replacement list \<Rightarrow> int \<Rightarrow> (replacement list \<times> int) sanitize" where
  "sanitize_targets pl c [] rs n = ret (rs, n)"
| "sanitize_targets pl c (t # ts) rs n =
     seq (poll_z c) (\<lambda>s.
       case sanitize_target pl c t s of
         (Inl e, s) \<Rightarrow> (Inl (TargetInspection (tg_Path t) e), s)
       | (Inr (v, found, changed), s) \<Rightarrow>
           sanitize_targets pl c ts
             (if changed \<and> \<not> audit_mode pl then rs @ [\<lparr>rp_token = tg_Token t, rp_value = v\<rparr>] else rs) (n + found) s)"

record sanitize_result =
  sr_body :: string
  sr_changed :: bool
  sr_findings :: int
  sr_targets :: nat
  sr_skipped :: int
  sr_opaque :: nat
  sr_unsupported :: nat
  sr_mlFlagged :: int

definition max_failure_diagnostic_paths :: nat where
  "max_failure_diagnostic_paths = 4"

definition walk_counts :: "string \<Rightarrow> walk_result \<Rightarrow> sanitize_result" where
  "walk_counts body walked =
     \<lparr>sr_body = body, sr_changed = False, sr_findings = 0, sr_targets = length (wr_Targets walked),
      sr_skipped = wr_Skipped walked, sr_opaque = wr_Opaque walked, sr_unsupported = wr_UnsupportedCount walked,
      sr_mlFlagged = 0\<rparr>"

definition ml_hits :: "sanitizing \<Rightarrow> int" where
  "ml_hits s = (case ib_mlFlagged (z_budget s) of None \<Rightarrow> 0 | Some n \<Rightarrow> n)"

definition sanitize_walked :: "plugin \<Rightarrow> ctx \<Rightarrow> string \<Rightarrow> walk_result \<Rightarrow> sanitize_result sanitize" where
  "sanitize_walked pl c body walked =
     bind (sanitize_targets pl c (wr_Targets walked) [] 0) (\<lambda>(rs, found).
     let counts = (walk_counts body walked)\<lparr>sr_findings := found\<rparr> in
     if audit_mode pl \<or> rs = [] then bind get_state (\<lambda>s. ret (counts\<lparr>sr_mlFlagged := ml_hits s\<rparr>))
     else
       bind (replace_z c (wr_Document walked) rs) (\<lambda>(out, changed).
       bind get_state (\<lambda>s.
       ret ((if changed then counts\<lparr>sr_body := out, sr_changed := True\<rparr> else counts)\<lparr>sr_mlFlagged := ml_hits s\<rparr>))))"

text \<open>
  \<open>sanitizeRequestWithRenderer\<close>. Beside the result, or the error, the state the renderer is left in:
  it belongs to the logical request and is used again when the request is retried. \<open>cw\<close> is the
  context during the walk, \<open>c\<close> the context afterwards.
\<close>

definition sanitize_request_with_renderer :: "plugin \<Rightarrow> ctx \<Rightarrow> ctx \<Rightarrow> string \<Rightarrow> string \<Rightarrow> request_renderer option \<Rightarrow>
    (sanitize_error + sanitize_result) \<times> request_renderer option" where
  "sanitize_request_with_renderer pl cw c source_format body renderer =
    (case DefaultWalk 0 (Some cw) source_format body [payload_limits (pg_cfg pl)] of
       Inl e \<Rightarrow> (Inl (WalkFailed e), renderer)
     | Inr walked \<Rightarrow>
         if 0 < wr_UnsupportedCount walked then
           (Inl (RequestShape (wr_UnsupportedCount walked)
              (map us_Path (take max_failure_diagnostic_paths (wr_Unsupported walked)))), renderer)
         else
           (case NewBudget (engine_limits_of (pg_cfg pl)) of
              Inl e \<Rightarrow> (Inl (EngineFailed e), renderer)
            | Inr budget \<Rightarrow>
                (case new_request_inspection_budget budget (payload_limits (pg_cfg pl))
                        (int (wr_JSONNodes walked)) (wr_StructuralBytes walked) of
                   Inl e \<Rightarrow> (Inl e, renderer)
                 | Inr b \<Rightarrow>
                     (case sanitize_walked pl c body walked
                             \<lparr>z_polls = 0, z_budget = b\<lparr>ib_mlFlagged := Some 0\<rparr>,
                              z_renderer = (case renderer of None \<Rightarrow> new_request_renderer | Some r \<Rightarrow> r), z_doc = 1\<rparr> of
                        (res, s) \<Rightarrow> (res, Some (z_renderer s))))))"

definition sanitize_request :: "plugin \<Rightarrow> ctx \<Rightarrow> ctx \<Rightarrow> string \<Rightarrow> string \<Rightarrow> sanitize_error + sanitize_result" where
  "sanitize_request pl cw c source_format body =
     fst (sanitize_request_with_renderer pl cw c source_format body (Some new_request_renderer))"

text \<open>The two entry points for a single text.\<close>

definition sanitize_json_text_with_limits :: "plugin \<Rightarrow> ctx \<Rightarrow> string \<Rightarrow> budget \<Rightarrow> request_renderer \<Rightarrow> target_context \<Rightarrow>
    bool \<Rightarrow> limits \<Rightarrow> sanitize_error + string \<times> int \<times> bool" where
  "sanitize_json_text_with_limits pl c text budget r outer allow_plain lims =
    (case new_request_inspection_budget budget lims 0 0 of
       Inl e \<Rightarrow> Inl e
     | Inr b \<Rightarrow> fst (sanitize_json (Suc max_encoded_json_nesting) pl c allow_plain text outer
         \<lparr>z_polls = 0, z_budget = b, z_renderer = r, z_doc = 0\<rparr>))"

definition sanitize_json_text :: "plugin \<Rightarrow> ctx \<Rightarrow> string \<Rightarrow> budget \<Rightarrow> request_renderer \<Rightarrow> target_context \<Rightarrow>
    bool \<Rightarrow> sanitize_error + string \<times> int \<times> bool" where
  "sanitize_json_text pl c text budget r outer allow_plain =
     sanitize_json_text_with_limits pl c text budget r outer allow_plain (payload_limits (pg_cfg pl))"

end
