(* ===== verification/Redactor_Sound.thy ===== *)
theory Redactor_Sound
  imports Redactor
begin

text \<open>
  What the redaction of a request guarantees, along its calls: the budgets of the request are never
  exceeded on either exit, the renderer has only rendered, and a text that is returned has been
  inspected. \<open>inspected\<close> is the specification of that.
\<close>

section \<open>The log of the renderer\<close>

type_synonym render_log = "(finding_kind \<times> string \<times> string) list"

lemma rendered_values:
  "rendered sha ph L r \<Longrightarrow> (\<forall>key x. rr_seen r key = Some x \<longrightarrow> x \<in> snd ` snd ` set L) \<and>
     rr_produced r = sha ` snd ` snd ` set L"
proof (induction rule: rendered.induct)
  case rendered_new
  show ?case by (simp add: new_request_renderer_def)
next
  case (rendered_call L r co f plaintext n x n' r')
  from rendered_call.hyps(2) show ?case
  proof (cases rule: render_request_Inr)
    case seen
    then have "x \<in> snd ` snd ` set L" using rendered_call.IH by blast
    then have "snd ` snd ` set (L @ [(f_Kind f, plaintext, x)]) = snd ` snd ` set L" by (simp add: insert_absorb)
    with rendered_call.IH seen(2) show ?thesis by presburger
  next
    case (fresh b)
    with rendered_call.IH show ?thesis by auto
  qed
next
  case (rendered_failed L r co f plaintext n e n' r')
  then show ?case using render_request_Inl [OF rendered_failed.hyps(2)] by simp
qed

lemma produced_logged:
  "rendered sha ph L r \<Longrightarrow> produced_placeholder sha r v \<Longrightarrow> \<exists>k p x. (k, p, x) \<in> set L \<and> sha v = sha x"
  using rendered_values [of sha ph L r] by (force simp: produced_placeholder_def)

lemma render_extends:
  assumes "render_request sha (placeholder_base ph) co f p (n, r) = (res, (n', r'))" "rendered sha ph L r"
  shows "\<exists>L'. rendered sha ph (L @ L') r' \<and> (\<forall>x. res = Inr x \<longrightarrow> (f_Kind f, p, x) \<in> set L')"
proof (cases res)
  case (Inl e)
  with rendered_failed [OF assms(2) assms(1) [unfolded Inl]] show ?thesis by (intro exI [of _ "[]"]) simp
next
  case (Inr x)
  with rendered_call [OF assms(2) assms(1) [unfolded Inr]] show ?thesis
    by (intro exI [of _ "[(f_Kind f, p, x)]"]) simp
qed

lemma renders_extends:
  "renders (render_request sha (placeholder_base ph)) c s fs r xs r' \<Longrightarrow> rendered sha ph L r \<Longrightarrow>
   \<exists>L'. rendered sha ph (L @ L') r' \<and>
     (\<forall>(f, x) \<in> set (zip fs xs). (f_Kind f, islice s (f_Start f) (f_End f), x) \<in> set L')"
proof (induction arbitrary: L rule: renders.induct)
  case (renders_Nil r)
  then show ?case by (intro exI [of _ "[]"]) simp
next
  case (renders_Cons f p r x p' r' fs xs r'')
  from render_extends [OF renders_Cons.hyps(1) renders_Cons.prems] obtain L1 where
    1: "rendered sha ph (L @ L1) r'" "(f_Kind f, islice s (f_Start f) (f_End f), x) \<in> set L1" by auto
  from renders_Cons.IH [OF 1(1)] obtain L2 where
    "rendered sha ph ((L @ L1) @ L2) r''"
    "\<forall>(f, x) \<in> set (zip fs xs). (f_Kind f, islice s (f_Start f) (f_End f), x) \<in> set L2" by blast
  with 1(2) show ?case by (intro exI [of _ "L1 @ L2"]) auto
qed

text \<open>\<open>logged pl L r\<close>: the renderer of the plugin went through the calls of \<open>L\<close>.\<close>

definition logged :: "plugin \<Rightarrow> render_log \<Rightarrow> request_renderer \<Rightarrow> bool" where
  "logged pl L r \<longleftrightarrow> rendered (pg_sha256 pl) (pg_placeholders pl) L r"

definition extends :: "plugin \<Rightarrow> render_log \<Rightarrow> request_renderer \<Rightarrow> bool" where
  "extends pl L r \<longleftrightarrow> (\<exists>L'. logged pl (L @ L') r)"

lemma extendsI: "logged pl (L @ L') r \<Longrightarrow> extends pl L r"
  unfolding extends_def by blast

lemma plugin_render_extends:
  assumes "plugin_render pl co f p (n, r) = (res, (n', r'))" "logged pl L r"
  obtains L' where "logged pl (L @ L') r'" "\<And>x. res = Inr x \<Longrightarrow> (f_Kind f, p, x) \<in> set L'"
  using render_extends [OF assms(1) [unfolded plugin_render_def] assms(2) [unfolded logged_def]]
  unfolding logged_def by blast

lemma steady_extends: "steady (extends pl L) (plugin_render pl)"
proof -
  have "extends pl L r'" if "extends pl L r" "plugin_render pl co f p (n, r) = (res, (n', r'))" for co f p n r res n' r'
  proof -
    from that(1) obtain L1 where "logged pl (L @ L1) r" by (auto simp: extends_def)
    from plugin_render_extends [OF that(2) this] obtain L' where "logged pl ((L @ L1) @ L') r'" by blast
    then show ?thesis by (intro extendsI [of _ _ "L1 @ L'"]) simp
  qed
  then show ?thesis unfolding steady_def by blast
qed

section \<open>The specification\<close>

definition text_options :: "plugin \<Rightarrow> target_context \<Rightarrow> request_options" where
  "text_options pl c = \<lparr>ro_PreferredRuleIDs = pg_blockRuleIDs pl, ro_FieldContext = engine_field_context c,
     ro_PreservePlaceholder = False\<rparr>"

text \<open>
  \<open>inspected pl P c s out\<close>: in a place with context \<open>c\<close>, the string \<open>s\<close> may leave as \<open>out\<close>, where \<open>P\<close> is
  what the renderer has rendered. The findings of a text cover all candidates of all detectors, none
  of them is of a blocking rule, and each is replaced by its placeholder. A text with the digest of
  a placeholder of the request is left alone. A text the second opinion flags is replaced as a
  whole. A JSON document is rewritten, each of its strings being inspected in turn.
\<close>

inductive inspected :: "plugin \<Rightarrow> (finding_kind \<times> string \<times> string) set \<Rightarrow> target_context \<Rightarrow> string \<Rightarrow> string \<Rightarrow> bool"
  for pl P where
  inspected_text: "clean (pg_tools pl) (pg_engine pl) (text_options pl c) s fs xs out \<Longrightarrow>
    \<forall>f \<in> set fs. f_RuleID f \<notin> pg_blockRuleIDs pl \<Longrightarrow>
    \<forall>(f, x) \<in> set (zip fs xs). (f_Kind f, islice s (f_Start f) (f_End f), x) \<in> P \<Longrightarrow>
    inspected pl P c s out"
| inspected_placeholder: "(k, p, x) \<in> P \<Longrightarrow> pg_sha256 pl s = pg_sha256 pl x \<Longrightarrow> inspected pl P c s s"
| inspected_flagged: "pg_score pl s = Some score \<Longrightarrow> effective_threshold (pc_MLAssist (pg_cfg pl)) \<le> score \<Longrightarrow>
    (KindSecret, s, out) \<in> P \<Longrightarrow> inspected pl P c s out"
| inspected_document: "document_ok d \<Longrightarrow> doc_body d = s \<Longrightarrow>
    \<forall>i < length (doc_strings d). \<exists>keys. StringKeyContextAt (Some d) (int i) = Some keys \<and>
      inspected pl P (inner_context keys c) (tok_value (doc_strings d ! i))
        (case g (doc_strings d ! i) of None \<Rightarrow> tok_value (doc_strings d ! i) | Some v \<Rightarrow> v) \<Longrightarrow>
    inspected pl P c s (rewrite d g)"

lemma inspected_mono: "inspected pl P c s out \<Longrightarrow> P \<subseteq> Q \<Longrightarrow> inspected pl Q c s out"
proof (induction rule: inspected.induct)
  case (inspected_text c s fs xs out)
  then show ?case by (intro inspected.inspected_text [of pl c s fs xs out]) auto
next
  case (inspected_placeholder k p x s c)
  then show ?case by (intro inspected.inspected_placeholder [of k p x]) auto
next
  case (inspected_flagged s score out c)
  then show ?case by (intro inspected.inspected_flagged [of pl s score]) auto
next
  case (inspected_document d s c g)
  then have "\<forall>i < length (doc_strings d). \<exists>keys. StringKeyContextAt (Some d) (int i) = Some keys \<and>
      inspected pl Q (inner_context keys c) (tok_value (doc_strings d ! i))
        (case g (doc_strings d ! i) of None \<Rightarrow> tok_value (doc_strings d ! i) | Some v \<Rightarrow> v)" by blast
  with inspected_document.hyps(1,2) show ?case by (rule inspected.inspected_document)
qed

text \<open>Without structure a text has no credential field, whatever its keys are.\<close>

definition plain_field_context :: "target_context \<Rightarrow> field_context" where
  "plain_field_context c =
    (let f = engine_field_context c in
     if \<not> tc_Structured c then f\<lparr>fc_Structured := False, fc_Encoded := False\<rparr> else f)"

lemma credential_plain:
  "credential_field_candidate ts s (plain_field_context c) = credential_field_candidate ts s (engine_field_context c)"
  by (simp add: plain_field_context_def Let_def credential_field_candidate_def credential_field_applies_def
      engine_field_context_def)

lemma clean_plain:
  "clean ts e \<lparr>ro_PreferredRuleIDs = B, ro_FieldContext = plain_field_context c, ro_PreservePlaceholder = b\<rparr> s fs xs out =
   clean ts e \<lparr>ro_PreferredRuleIDs = B, ro_FieldContext = engine_field_context c, ro_PreservePlaceholder = b\<rparr> s fs xs out"
  by (simp only: clean_def all_candidates_def request_options.simps List.map_filter_simps credential_plain)

section \<open>The budgets\<close>

definition inspection_ok :: "engine_limits \<Rightarrow> limits \<Rightarrow> inspection \<Rightarrow> bool" where
  "inspection_ok el lims b \<longleftrightarrow>
     limits_ok lims \<and> ib_limits b = lims \<and> 0 \<le> ib_jsonNodes b \<and> ib_jsonNodes b \<le> MaxNodes lims \<and>
     0 \<le> ib_structuralBytes b \<and> ib_structuralBytes b \<le> MaxStructuralBytes lims \<and>
     budget_ok (ib_engine b) \<and> b_initialized (ib_engine b) \<and> b_limits (ib_engine b) = el"

definition request_ok :: "plugin \<Rightarrow> engine_limits \<Rightarrow> limits \<Rightarrow> render_log \<Rightarrow> sanitizing \<Rightarrow> bool" where
  "request_ok pl el lims L s \<longleftrightarrow> inspection_ok el lims (z_budget s) \<and> extends pl L (z_renderer s)"

lemma Scan_fields:
  assumes "Scan self c body opts n = (Inr d, m)"
  shows "doc_body d = body" "doc_id d = self" "normalized opts = Inr (doc_limits d)"
proof -
  from assms obtain l where l: "normalized opts = Inr l"
    "(case scan_json \<lparr>sc_ctx = or_background c, sc_body = body, sc_limits = l\<rparr>
        (init_scanner (Suc n)) of
        (Inl e, s) \<Rightarrow> (Inl e, s_polls s)
      | (Inr (k, sp), s) \<Rightarrow>
          (Inr \<lparr>doc_id = self, doc_body = body, doc_root_kind = k, doc_root_span = sp,
             doc_limits = l, doc_strings = number_tokens self 0 (s_strings s),
             doc_paths = s_paths s, doc_structural_bytes = s_structural s,
             doc_node_count = s_nodes s\<rparr>, s_polls s)) = (Inr d, m)"
    by (auto simp: Scan_def bind_Inr_iff)
  then show "doc_body d = body" "doc_id d = self" "normalized opts = Inr (doc_limits d)"
    by (auto split: prod.split_asm sum.split_asm)
qed

lemma scan_encoded_json_result:
  assumes "scan_encoded_json c text s = (Inr d, t)"
  shows "document_ok d" "doc_body d = text" "z_renderer t = z_renderer s"
    "inspection_ok el lims (z_budget s) \<Longrightarrow> inspection_ok el lims (z_budget t)"
proof -
  let ?b = "z_budget s"
  let ?n = "MaxNodes (ib_limits ?b) - ib_jsonNodes ?b" and ?m = "MaxStructuralBytes (ib_limits ?b) - ib_structuralBytes ?b"
  obtain p where left: "0 < ?n" "0 < ?m"
    and scan: "Scan (z_doc s) (Some c) text ((ib_limits ?b)\<lparr>MaxNodes := ?n, MaxStructuralBytes := ?m\<rparr>) (z_polls s) = (Inr d, p)"
    and t: "t = s\<lparr>z_polls := p, z_doc := Suc (z_doc s),
       z_budget := ?b\<lparr>ib_jsonNodes := ib_jsonNodes ?b + int (doc_node_count d),
                      ib_structuralBytes := ib_structuralBytes ?b + doc_structural_bytes d\<rparr>\<rparr>"
    using assms by (auto simp: scan_encoded_json_def Let_def split: if_split_asm prod.split_asm sum.split_asm)
  show d: "document_ok d" and "doc_body d = text" by (rule Scan_ok [OF scan], rule Scan_fields(1) [OF scan])
  show "z_renderer t = z_renderer s" by (simp add: t)
  assume ok: "inspection_ok el lims ?b"
  then have "limits_ok ((ib_limits ?b)\<lparr>MaxNodes := ?n, MaxStructuralBytes := ?m\<rparr>)"
    using left by (auto simp: inspection_ok_def limits_ok_def)
  from normalized_fixed [OF this] Scan_fields(3) [OF scan]
  have "doc_limits d = (ib_limits ?b)\<lparr>MaxNodes := ?n, MaxStructuralBytes := ?m\<rparr>" by simp
  moreover have "int (doc_node_count d) \<le> MaxNodes (doc_limits d)" "doc_structural_bytes d \<le> MaxStructuralBytes (doc_limits d)"
    "0 \<le> doc_structural_bytes d"
    using d document_ok_bounded [OF d] by (auto simp: document_ok_def doc_bounded_def)
  ultimately show "inspection_ok el lims (z_budget t)" using ok by (auto simp: inspection_ok_def t)
qed

lemma scan_encoded_json_error:
  assumes "scan_encoded_json c text s = (Inl e, t)"
  shows "z_renderer t = z_renderer s" "z_budget t = z_budget s"
  using assms by (auto simp: scan_encoded_json_def Let_def split: if_split_asm prod.split_asm sum.split_asm)

section \<open>A text\<close>

lemma ml_second_opinion_extends:
  assumes "ml_second_opinion pl c text (p, r) = (res, (p', r'))" "logged pl L r"
  obtains L' where "logged pl (L @ L') r'"
    "\<And>x. res = Inr (True, x) \<Longrightarrow> x \<noteq> [] \<Longrightarrow> (KindSecret, text, x) \<in> set L' \<and>
       (\<exists>score. pg_score pl text = Some score \<and> effective_threshold (pc_MLAssist (pg_cfg pl)) \<le> score)"
proof (cases "\<exists>y q. plugin_render pl (Some c) (ml_finding text) text (p, r) = (y, q) \<and> res = map_sum Some (Pair True) y \<and>
    q = (p', r') \<and> (\<exists>score. pg_score pl text = Some score \<and> effective_threshold (pc_MLAssist (pg_cfg pl)) \<le> score)")
  case True
  then obtain y where y: "plugin_render pl (Some c) (ml_finding text) text (p, r) = (y, (p', r'))"
    "res = map_sum Some (Pair True) y"
    "\<exists>score. pg_score pl text = Some score \<and> effective_threshold (pc_MLAssist (pg_cfg pl)) \<le> score" by blast
  from plugin_render_extends [OF y(1) assms(2)] obtain L' where "logged pl (L @ L') r'"
    "\<And>x. y = Inr x \<Longrightarrow> (KindSecret, text, x) \<in> set L'" by (auto simp: ml_finding_def)
  with y(2,3) that show ?thesis by (cases y) auto
next
  case False
  then have "r' = r" "\<And>x. res = Inr (True, x) \<Longrightarrow> x = []"
    using assms(1) by (auto simp: ml_second_opinion_def Let_def not_less split: if_split_asm option.split_asm prod.split_asm sum.split_asm)
  with assms(2) that [of "[]"] show ?thesis by auto
qed

definition after_redact :: "sanitizing \<Rightarrow> nat \<times> budget \<times> request_renderer \<Rightarrow> sanitizing" where
  "after_redact s st = (case st of (p, b, r) \<Rightarrow>
     s\<lparr>z_polls := p, z_budget := (z_budget s)\<lparr>ib_engine := b\<rparr>, z_renderer := r\<rparr>)"

lemma after_redact_simps [simp]:
  "z_renderer (after_redact s (p, b, r)) = r" "z_polls (after_redact s (p, b, r)) = p"
  "z_budget (after_redact s (p, b, r)) = (z_budget s)\<lparr>ib_engine := b\<rparr>"
  by (simp_all add: after_redact_def)

lemma flag_ml_simps [simp]:
  "z_renderer (flag_ml s) = z_renderer s"
  "inspection_ok el lims (z_budget (flag_ml s)) = inspection_ok el lims (z_budget s)"
  by (simp_all add: flag_ml_def inspection_ok_def)

text \<open>The exits of \<open>sanitizeText\<close>, after the call of the engine.\<close>

definition text_exit :: "plugin \<Rightarrow> ctx \<Rightarrow> string \<Rightarrow> sanitizing \<Rightarrow> redaction \<Rightarrow> engine_error option \<Rightarrow> nat \<times> budget \<times> request_renderer \<Rightarrow>
    sanitize_error + string \<times> int \<times> bool \<Rightarrow> sanitizing \<Rightarrow> bool" where
  "text_exit pl c text s red err st res t \<longleftrightarrow> (case st of (p, b, r) \<Rightarrow>
     (\<exists>e. err = Some e \<and> res = Inl (EngineFailed e) \<and> t = after_redact s st) \<or>
     (\<exists>fd. fd \<in> set (rd_Findings red) \<and> f_RuleID fd \<in> pg_blockRuleIDs pl \<and> \<not> audit_mode pl \<and> err = None \<and>
        res = Inl (Blocked (f_RuleID fd)) \<and> t = after_redact s st) \<or>
     err = None \<and> (audit_mode pl \<or> (\<forall>fd \<in> set (rd_Findings red). f_RuleID fd \<notin> pg_blockRuleIDs pl)) \<and>
       (res = Inr (rd_Redacted red, int (length (rd_Findings red)), Hit red) \<and> t = after_redact s st \<or>
        rd_Findings red = [] \<and> \<not> produced_placeholder (pg_sha256 pl) (z_renderer s) text \<and>
        (\<exists>opinion p' r'. ml_second_opinion pl c text (p, r) = (opinion, (p', r')) \<and>
           (t = after_redact s (p', b, r') \<or> t = flag_ml (after_redact s (p', b, r'))) \<and>
           ((\<exists>x. opinion = Inr (True, x) \<and> x \<noteq> [] \<and> res = Inr (x, 1, True)) \<or>
            res = Inr (rd_Redacted red, int (length (rd_Findings red)), Hit red)))))"

definition redact_options :: "plugin \<Rightarrow> string \<Rightarrow> field_context \<Rightarrow> sanitizing \<Rightarrow> request_options" where
  "redact_options pl text f s = \<lparr>ro_PreferredRuleIDs = pg_blockRuleIDs pl, ro_FieldContext = f,
     ro_PreservePlaceholder = produced_placeholder (pg_sha256 pl) (z_renderer s) text\<rparr>"

lemma sanitize_text_exit:
  assumes "sanitize_text pl c text f s = (res, t)"
  obtains red err st where
    "engine_redact (pg_tools pl) (pg_engine pl) c text (redact_options pl text f s) (plugin_render pl)
       (z_polls s, ib_engine (z_budget s), z_renderer s) = ((red, err), st)"
    "text_exit pl c text s red err st res t"
proof -
  obtain red err p b r where red: "engine_redact (pg_tools pl) (pg_engine pl) c text (redact_options pl text f s) (plugin_render pl)
      (z_polls s, ib_engine (z_budget s), z_renderer s) = ((red, err), (p, b, r))" by (metis prod.exhaust)
  let ?s = "after_redact s (p, b, r)"
  let ?find = "if \<not> audit_mode pl then find (\<lambda>fd. f_RuleID fd \<in> pg_blockRuleIDs pl) (rd_Findings red) else None"
  note def = assms [unfolded sanitize_text_def Let_def, folded redact_options_def, unfolded red prod.case]
  have s1: "s\<lparr>z_polls := p, z_budget := (z_budget s)\<lparr>ib_engine := b\<rparr>, z_renderer := r\<rparr> = ?s"
    by (simp add: after_redact_def)
  have "text_exit pl c text s red err (p, b, r) res t"
  proof (cases err)
    case (Some e)
    with def show ?thesis unfolding s1 by (simp add: text_exit_def)
  next
    case err: None
    show ?thesis
    proof (cases ?find)
      case (Some fd)
      then have "\<not> audit_mode pl" "fd \<in> set (rd_Findings red)" "f_RuleID fd \<in> pg_blockRuleIDs pl"
        by (auto simp: find_Some_iff split: if_split_asm)
      with def err Some show ?thesis unfolding s1 by (auto simp: text_exit_def)
    next
      case None
      then have free: "audit_mode pl \<or> (\<forall>fd \<in> set (rd_Findings red). f_RuleID fd \<notin> pg_blockRuleIDs pl)"
        by (auto simp: find_None_iff split: if_split_asm)
      obtain op p' r' where ml: "ml_second_opinion pl c text (p, r) = (op, (p', r'))" by (metis prod.exhaust)
      have s2: "?s\<lparr>z_polls := p', z_renderer := r'\<rparr> = after_redact s (p', b, r')" by (simp add: after_redact_def)
      note def' = def [unfolded s1 err None option.case]
      show ?thesis
      proof (cases "rd_Findings red = [] \<and> \<not> produced_placeholder (pg_sha256 pl) (z_renderer s) text \<and> ml_Enabled (pc_MLAssist (pg_cfg pl))")
        case False
        with def' err free show ?thesis by (auto simp: text_exit_def)
      next
        case True
        show ?thesis
        proof (cases "\<exists>x. op = Inr (True, x)")
          case flagged: True
          then obtain x where "op = Inr (True, x)" by blast
          with def' ml True err free show ?thesis by (auto simp: text_exit_def s2 split: if_split_asm)
        next
          case False
          then have "(\<exists>e. op = Inl e) \<or> (\<exists>x. op = Inr (False, x))" by (cases op) auto
          with def' ml True err free show ?thesis by (auto simp: text_exit_def s2)
        qed
      qed
    qed
  qed
  with red that show ?thesis by blast
qed

lemma ml_second_opinion_keeps:
  assumes "ml_second_opinion pl c text (p, r) = (res, (p', r'))" "extends pl L r"
  shows "extends pl L r'"
proof -
  from assms(2) obtain L1 where "logged pl (L @ L1) r" by (auto simp: extends_def)
  from ml_second_opinion_extends [OF assms(1) this] obtain L2 where "logged pl ((L @ L1) @ L2) r'" by blast
  then show ?thesis by (intro extendsI [of _ _ "L1 @ L2"]) simp
qed

lemma request_ok_after_redact:
  "inspection_ok el lims (z_budget s) \<Longrightarrow> budget_ok b \<Longrightarrow> b_initialized b \<Longrightarrow> b_limits b = el \<Longrightarrow> extends pl L r \<Longrightarrow>
   request_ok pl el lims L (after_redact s (p, b, r)) \<and> request_ok pl el lims L (flag_ml (after_redact s (p, b, r)))"
  by (simp add: request_ok_def) (simp add: inspection_ok_def)

lemma keeps_sanitize_text [keeps_rules]: "keeps (request_ok pl el lims L) (sanitize_text pl c text f)"
proof -
  have "request_ok pl el lims L t" if ok: "request_ok pl el lims L s" and run: "sanitize_text pl c text f s = (res, t)" for s res t
  proof -
    from run obtain red err p b r where
      red: "engine_redact (pg_tools pl) (pg_engine pl) c text (redact_options pl text f s) (plugin_render pl)
        (z_polls s, ib_engine (z_budget s), z_renderer s) = ((red, err), (p, b, r))"
      and exit: "text_exit pl c text s red err (p, b, r) res t"
      by (metis sanitize_text_exit prod.exhaust)
    have i: "inspection_ok el lims (z_budget s)" and x: "extends pl L (z_renderer s)"
      using ok by (simp_all add: request_ok_def)
    have b: "budget_ok b" "b_initialized b" "b_limits b = el" "extends pl L r"
      using engine_redact_keeps [OF red steady_extends x] i by (simp_all add: inspection_ok_def)
    have s1: "request_ok pl el lims L (after_redact s (p', b, r')) \<and> request_ok pl el lims L (flag_ml (after_redact s (p', b, r')))"
      if "extends pl L r'" for p' r'
      by (rule request_ok_after_redact [OF i b(1-3) that])
    from exit consider "t = after_redact s (p, b, r)"
      | op p' r' where "ml_second_opinion pl c text (p, r) = (op, (p', r'))"
          "t = after_redact s (p', b, r') \<or> t = flag_ml (after_redact s (p', b, r'))"
      by (auto simp: text_exit_def)
    then show ?thesis
    proof cases
      case 1
      with s1 [OF b(4)] show ?thesis by simp
    next
      case 2
      with s1 [OF ml_second_opinion_keeps [OF 2(1) b(4)]] show ?thesis by blast
    qed
  qed
  then show ?thesis by (blast intro: keepsI)
qed

text \<open>
  \<open>inspects pl c s m\<close>: outside the audit mode, what \<open>m\<close> returns for the string \<open>s\<close> in a place with
  context \<open>c\<close> has been inspected, and is the string itself unless \<open>m\<close> reports a change.
\<close>

definition inspects :: "plugin \<Rightarrow> target_context \<Rightarrow> string \<Rightarrow> (string \<times> int \<times> bool) sanitize \<Rightarrow> bool" where
  "inspects pl c s m \<longleftrightarrow> (\<forall>z L v n ch z'. m z = (Inr (v, n, ch), z') \<longrightarrow> logged pl L (z_renderer z) \<longrightarrow>
     (\<exists>L'. logged pl (L @ L') (z_renderer z') \<and> inspected pl (set (L @ L')) c s v \<and> (\<not> ch \<longrightarrow> v = s)))"

named_theorems inspects_rules "computations whose result has been inspected"

lemma inspectsD: "inspects pl c s m \<Longrightarrow> m z = (Inr (v, n, ch), z') \<Longrightarrow> logged pl L (z_renderer z) \<Longrightarrow>
    \<exists>L'. logged pl (L @ L') (z_renderer z') \<and> inspected pl (set (L @ L')) c s v \<and> (\<not> ch \<longrightarrow> v = s)"
  unfolding inspects_def by blast

lemma inspectsI: "(\<And>z L v n ch z'. m z = (Inr (v, n, ch), z') \<Longrightarrow> logged pl L (z_renderer z) \<Longrightarrow>
     \<exists>L'. logged pl (L @ L') (z_renderer z') \<and> inspected pl (set (L @ L')) c s v \<and> (\<not> ch \<longrightarrow> v = s)) \<Longrightarrow> inspects pl c s m"
  unfolding inspects_def by blast

lemma inspects_fail [inspects_rules]: "inspects pl c s (fail e)"
  by (simp add: inspects_def)

lemma inspects_if [inspects_rules]:
  "(b \<Longrightarrow> inspects pl c s m) \<Longrightarrow> (\<not> b \<Longrightarrow> inspects pl c s m') \<Longrightarrow> inspects pl c s (if b then m else m')"
  by simp

lemma inspected_findings:
  assumes "clean (pg_tools pl) (pg_engine pl) \<lparr>ro_PreferredRuleIDs = pg_blockRuleIDs pl, ro_FieldContext = f,
      ro_PreservePlaceholder = False\<rparr> s fs xs out"
    and "f = engine_field_context c \<or> f = plain_field_context c"
    and "\<forall>fd \<in> set fs. f_RuleID fd \<notin> pg_blockRuleIDs pl"
    and "\<forall>(fd, x) \<in> set (zip fs xs). (f_Kind fd, islice s (f_Start fd) (f_End fd), x) \<in> P"
  shows "inspected pl P c s out"
proof (rule inspected_text [OF _ assms(3,4)])
  show "clean (pg_tools pl) (pg_engine pl) (text_options pl c) s fs xs out"
    using assms(1,2) clean_plain [of "pg_tools pl" "pg_engine pl" "pg_blockRuleIDs pl" c False s fs xs out]
    by (auto simp: text_options_def)
qed

lemma inspects_text:
  assumes mode: "\<not> audit_mode pl" and f: "f = engine_field_context c \<or> f = plain_field_context c"
  shows "inspects pl c s (sanitize_text pl ctx s f)"
proof (rule inspectsI)
  fix z L v n ch z'
  assume run: "sanitize_text pl ctx s f z = (Inr (v, n, ch), z')" and L: "logged pl L (z_renderer z)"
  let ?preserve = "produced_placeholder (pg_sha256 pl) (z_renderer z) s"
  from run obtain red err p b r where
    red: "engine_redact (pg_tools pl) (pg_engine pl) ctx s (redact_options pl s f z) (plugin_render pl)
      (z_polls z, ib_engine (z_budget z), z_renderer z) = ((red, err), (p, b, r))"
    and exit: "text_exit pl ctx s z red err (p, b, r) (Inr (v, n, ch)) z'"
    by (metis sanitize_text_exit prod.exhaust)
  have err: "err = None" and free: "\<forall>fd \<in> set (rd_Findings red). f_RuleID fd \<notin> pg_blockRuleIDs pl"
    using exit mode by (auto simp: text_exit_def)
  obtain xs where xs: "renders (plugin_render pl) ctx s (rd_Findings red) (z_renderer z) xs r"
    and same: "rd_Findings red = [] \<Longrightarrow> rd_Redacted red = s"
    and keep: "?preserve \<Longrightarrow> rd_Findings red = []"
    and clean: "\<not> ?preserve \<Longrightarrow> clean (pg_tools pl) (pg_engine pl) (redact_options pl s f z) s (rd_Findings red) xs (rd_Redacted red)"
    using engine_redact_result [OF red [unfolded err]] by (auto simp: redact_options_def)
  from renders_extends [OF xs [unfolded plugin_render_def] L [unfolded logged_def]] obtain L1 where
    L1: "logged pl (L @ L1) r"
      "\<forall>(fd, x) \<in> set (zip (rd_Findings red) xs). (f_Kind fd, islice s (f_Start fd) (f_End fd), x) \<in> set L1"
    unfolding logged_def by blast
  have out: "inspected pl (set (L @ L1 @ L2)) c s (rd_Redacted red)" for L2
  proof (cases ?preserve)
    case True
    from produced_logged [OF L [unfolded logged_def] True] obtain k q x where
      "(k, q, x) \<in> set (L @ L1 @ L2)" "pg_sha256 pl s = pg_sha256 pl x" by auto
    with same [OF keep [OF True]] show ?thesis using inspected_placeholder by metis
  next
    case False
    have "\<forall>(fd, x) \<in> set (zip (rd_Findings red) xs). (f_Kind fd, islice s (f_Start fd) (f_End fd), x) \<in> set (L @ L1 @ L2)"
      using L1(2) by auto
    from inspected_findings [OF _ f free this] clean [OF False] False show ?thesis by (simp add: redact_options_def)
  qed
  from exit consider (plain) "v = rd_Redacted red" "ch = Hit red" "z_renderer z' = r"
    | (ml) op p' r' where "ml_second_opinion pl ctx s (p, r) = (op, (p', r'))" "z_renderer z' = r'"
        "(\<exists>x. op = Inr (True, x) \<and> x \<noteq> [] \<and> v = x \<and> ch = True) \<or> v = rd_Redacted red \<and> ch = Hit red"
    by (auto simp: text_exit_def err)
  then show "\<exists>L'. logged pl (L @ L') (z_renderer z') \<and> inspected pl (set (L @ L')) c s v \<and> (\<not> ch \<longrightarrow> v = s)"
  proof cases
    case plain
    with L1(1) out [of "[]"] same show ?thesis by (intro exI [of _ L1]) (auto simp: Hit_def)
  next
    case ml
    from ml_second_opinion_extends [OF ml(1) L1(1)] obtain L2 where L2: "logged pl ((L @ L1) @ L2) r'"
      "\<And>x. op = Inr (True, x) \<Longrightarrow> x \<noteq> [] \<Longrightarrow> (KindSecret, s, x) \<in> set L2 \<and>
         (\<exists>score. pg_score pl s = Some score \<and> effective_threshold (pc_MLAssist (pg_cfg pl)) \<le> score)" by blast
    have "inspected pl (set (L @ L1 @ L2)) c s v" if "op = Inr (True, v)" "v \<noteq> []"
      using L2(2) [OF that] by (auto intro: inspected_flagged)
    with ml(2,3) L2(1) out [of L2] same show ?thesis by (intro exI [of _ "L1 @ L2"]) (auto simp: Hit_def)
  qed
qed

section \<open>An encoded document\<close>

lemma request_ok_frame: "request_ok pl el lims L s \<Longrightarrow> z_renderer t = z_renderer s \<Longrightarrow> z_budget t = z_budget s \<Longrightarrow>
    request_ok pl el lims L t"
  by (simp add: request_ok_def)

lemma replace_z_frame: "replace_z c d rs s = (res, t) \<Longrightarrow> z_renderer t = z_renderer s \<and> z_budget t = z_budget s"
  by (auto simp: replace_z_def split: prod.split_asm sum.split_asm)

lemma poll_z_frame: "poll_z c s = (res, t) \<Longrightarrow> z_renderer t = z_renderer s \<and> z_budget t = z_budget s"
  by (auto simp: poll_z_def split: option.split_asm)

lemma keeps_replace_z [keeps_rules]: "keeps (request_ok pl el lims L) (replace_z c d rs)"
  by (rule keepsI; frule replace_z_frame; erule request_ok_frame) simp_all

lemma keeps_poll_z [keeps_rules]: "keeps (request_ok pl el lims L) (poll_z c)"
  by (rule keepsI; frule poll_z_frame; erule request_ok_frame) simp_all

lemma replace_z_result:
  assumes "document_ok d" "replace_z c d rs s = (Inr (out, changed), t)"
  shows "out = rewrite d (requested rs)" "\<not> changed \<Longrightarrow> out = doc_body d"
proof -
  from assms(2) obtain p where p: "replace (Some d) (Some c) rs (z_polls s) = (Inr (out, changed), p)"
    by (auto simp: replace_z_def Replace_def split: prod.split_asm sum.split_asm)
  show "out = rewrite d (requested rs)" using replace_result [OF assms(1) p] by simp
  show "\<not> changed \<Longrightarrow> out = doc_body d"
    using p by (auto simp: replace_def Let_def bind_Inr_iff split: if_split_asm)
qed

text \<open>The value a string gets from a list of replacements.\<close>

definition outcome :: "replacement list \<Rightarrow> string_token \<Rightarrow> string" where
  "outcome rs t = (case requested rs t of None \<Rightarrow> tok_value t | Some v \<Rightarrow> v)"

abbreviation ordinals :: "replacement list \<Rightarrow> nat set" where
  "ordinals rs \<equiv> (\<lambda>r. tok_ordinal (rp_token r)) ` set rs"

lemma requested_None: "requested rs t = None \<longleftrightarrow> tok_ordinal t \<notin> ordinals rs"
  by (simp add: requested_def map_of_eq_None_iff image_image)

lemma outcome_other: "tok_ordinal t \<notin> ordinals rs \<Longrightarrow> outcome rs t = tok_value t"
  by (simp add: outcome_def requested_None [THEN iffD2])

lemma outcome_skip: "tok_ordinal t \<noteq> tok_ordinal (rp_token r) \<Longrightarrow> outcome (r # rs) t = outcome rs t"
  by (simp add: outcome_def requested_def)

lemma outcome_hit: "tok_ordinal t = tok_ordinal (rp_token r) \<Longrightarrow> outcome (r # rs) t = rp_value r"
  by (simp add: outcome_def requested_def)

text \<open>
  Adding the result for one more token in front: \<open>v\<close> is requested when there is a change, and equals
  the value of the token otherwise.
\<close>

lemma outcome_step:
  assumes "\<not> ch \<Longrightarrow> v = tok_value tok" "tok_ordinal tok \<notin> ordinals rs"
    "tok_ordinal t = tok_ordinal tok \<Longrightarrow> tok_value t = tok_value tok"
  shows "outcome ((if ch then [\<lparr>rp_token = tok, rp_value = v\<rparr>] else []) @ rs) t =
    (if tok_ordinal t = tok_ordinal tok then v else outcome rs t)"
  using assms by (auto simp: outcome_hit outcome_skip outcome_other)

lemma keeps_case_prod [keeps_rules]: "(\<And>a b. keeps I (f a b)) \<Longrightarrow> keeps I (case p of (a, b) \<Rightarrow> f a b)"
  by (cases p) simp

lemma keeps_sanitize_strings [keeps_rules]:
  assumes "\<And>s c'. keeps (request_ok pl el lims L) (nested s c')"
  shows "keeps (request_ok pl el lims L) (sanitize_strings nested pl c d outer is rs n)"
proof (induction "is" arbitrary: rs n)
  case Nil
  show ?case by (simp add: keeps_rules)
next
  case (Cons i "is")
  then show ?case
    by (auto intro!: keeps_rules assms split: option.split)
qed

lemma inspects_strings:
  assumes d: "document_ok d" and mode: "\<not> audit_mode pl"
    and nested: "\<And>s c'. inspects pl c' s (nested s c')"
  shows "sanitize_strings nested pl c d outer is rs n z = (Inr (rs', n'), z') \<Longrightarrow> logged pl L (z_renderer z) \<Longrightarrow>
    \<forall>i \<in> set is. i < length (doc_strings d) \<Longrightarrow> distinct is \<Longrightarrow>
    \<exists>new L'. rs' = rs @ new \<and> logged pl (L @ L') (z_renderer z') \<and> ordinals new \<subseteq> set is \<and>
      (\<forall>i \<in> set is. \<exists>keys. StringKeyContextAt (Some d) (int i) = Some keys \<and>
         inspected pl (set (L @ L')) (inner_context keys outer) (tok_value (doc_strings d ! i)) (outcome new (doc_strings d ! i)))"
proof (induction "is" arbitrary: rs n z L)
  case Nil
  then show ?case by (intro exI [of _ "[]"]) simp
next
  case (Cons i "is")
  let ?tok = "(doc_strings d ! i)\<lparr>tok_path := token_path d (doc_strings d ! i)\<rparr>"
  have i: "i < length (doc_strings d)" using Cons.prems(3) by simp
  have ord: "tok_ordinal (doc_strings d ! j) = j" if "j < length (doc_strings d)" for j
    using d that by (simp add: document_ok_def)
  have tok: "StringTokenAt (Some d) (int i) = Some ?tok"
    using i by (simp add: StringTokenAt_ok [OF d] in_strings_def)
  have in_i: "in_strings d (int i)" using i by (simp add: in_strings_def)
  obtain keys where keys: "StringKeyContextAt (Some d) (int i) = Some keys"
    using StringKeyContextAt_bounded [OF d _ ] in_i by metis
  let ?c = "inner_context keys outer"
  let ?m = "if looks_like_encoded_json_container (tok_value ?tok) then nested (tok_value ?tok) ?c
    else sanitize_text pl c (tok_value ?tok) (engine_field_context ?c)"
  obtain v f ch z1 where 1: "?m z = (Inr (v, f, ch), z1)"
    and rest: "sanitize_strings nested pl c d outer is
      (if ch then rs @ [\<lparr>rp_token = ?tok, rp_value = v\<rparr>] else rs) (n + f) z1 = (Inr (rs', n'), z')"
    using Cons.prems(1) mode by (auto simp: tok keys bind_Inr_iff)
  have "inspects pl ?c (tok_value ?tok) ?m" by (intro inspects_rules nested inspects_text mode) simp
  from inspectsD [OF this 1 Cons.prems(2)] obtain L1 where L1: "logged pl (L @ L1) (z_renderer z1)"
    "inspected pl (set (L @ L1)) ?c (tok_value ?tok) v" "\<not> ch \<Longrightarrow> v = tok_value ?tok" by blast
  from Cons.IH [OF rest L1(1)] Cons.prems(3,4) obtain new L2 where
    new: "rs' = (if ch then rs @ [\<lparr>rp_token = ?tok, rp_value = v\<rparr>] else rs) @ new"
      "logged pl ((L @ L1) @ L2) (z_renderer z')" "ordinals new \<subseteq> set is" and
    ins: "\<forall>j \<in> set is. \<exists>keys. StringKeyContextAt (Some d) (int j) = Some keys \<and>
      inspected pl (set ((L @ L1) @ L2)) (inner_context keys outer) (tok_value (doc_strings d ! j)) (outcome new (doc_strings d ! j))"
    by auto
  let ?new = "(if ch then [\<lparr>rp_token = ?tok, rp_value = v\<rparr>] else []) @ new"
  have fresh: "tok_ordinal ?tok \<notin> ordinals new" using new(3) Cons.prems(4) ord [OF i] by auto
  have out: "outcome ?new (doc_strings d ! j) = (if j = i then v else outcome new (doc_strings d ! j))"
    if "j < length (doc_strings d)" for j
    using outcome_step [OF L1(3) fresh, of ch "doc_strings d ! j"] ord [OF that] ord [OF i] by auto
  have "\<exists>keys. StringKeyContextAt (Some d) (int j) = Some keys \<and> inspected pl (set (L @ L1 @ L2)) (inner_context keys outer)
      (tok_value (doc_strings d ! j)) (outcome ?new (doc_strings d ! j))" if j: "j \<in> set (i # is)" for j
  proof (cases "j = i")
    case True
    with keys out [OF i] inspected_mono [OF L1(2), of "set (L @ L1 @ L2)"] show ?thesis by auto
  next
    case False
    with j ins out [of j] Cons.prems(3) show ?thesis by auto
  qed
  moreover have "ordinals ?new \<subseteq> set (i # is)" using new(3) ord [OF i] by auto
  ultimately show ?case using new(1,2) by (intro exI [of _ ?new] exI [of _ "L1 @ L2"]) auto
qed

lemma inspects_document:
  assumes d: "document_ok d" "doc_body d = s" and mode: "\<not> audit_mode pl"
    and nested: "\<And>s c'. inspects pl c' s (nested s c')"
  shows "inspects pl outer s (sanitize_document nested pl c s d outer)"
proof (rule inspectsI)
  fix z L v n ch z'
  assume run: "sanitize_document nested pl c s d outer z = (Inr (v, n, ch), z')" and L: "logged pl L (z_renderer z)"
  from run obtain rs f z1 where
    1: "sanitize_strings nested pl c d outer [0..<length (doc_strings d)] [] 0 z = (Inr (rs, f), z1)"
    and 2: "(if rs = [] then ret (s, f, False) else bind (replace_z c d rs) (\<lambda>(out, changed). ret (out, f, changed))) z1 =
      (Inr (v, n, ch), z')"
    using mode by (auto simp: sanitize_document_def bind_Inr_iff)
  from inspects_strings [OF d(1) mode nested 1 L] obtain L' where
    L': "logged pl (L @ L') (z_renderer z1)" and
    ins: "\<forall>i < length (doc_strings d). \<exists>keys. StringKeyContextAt (Some d) (int i) = Some keys \<and>
         inspected pl (set (L @ L')) (inner_context keys outer) (tok_value (doc_strings d ! i)) (outcome rs (doc_strings d ! i))"
    by auto
  have r: "inspected pl (set (L @ L')) outer s (rewrite d (requested rs))"
    by (rule inspected_document [OF d]) (use ins in \<open>simp add: outcome_def\<close>)
  show "\<exists>L'. logged pl (L @ L') (z_renderer z') \<and> inspected pl (set (L @ L')) outer s v \<and> (\<not> ch \<longrightarrow> v = s)"
  proof (cases "rs = []")
    case True
    have "rewrite d (requested []) = doc_body d"
      by (rule rewrite_nothing [OF d(1)]) (simp add: edits_of_def changes_def requested_def)
    with True 2 L' r d(2) show ?thesis by (intro exI [of _ L']) auto
  next
    case False
    with 2 have z: "replace_z c d rs z1 = (Inr (v, ch), z')" by (auto simp: bind_Inr_iff)
    from replace_z_result [OF d(1) z] replace_z_frame [OF z] L' r d(2) show ?thesis by (intro exI [of _ L']) auto
  qed
qed

lemma keeps_sanitize_document [keeps_rules]:
  assumes "\<And>s c'. keeps (request_ok pl el lims L) (nested s c')"
  shows "keeps (request_ok pl el lims L) (sanitize_document nested pl c s d outer)"
  unfolding sanitize_document_def by (intro keeps_rules assms)

lemma inspects_plain [inspects_rules]: "\<not> audit_mode pl \<Longrightarrow> inspects pl c s (sanitize_plain pl ctx s c)"
  unfolding sanitize_plain_def Let_def plain_field_context_def [unfolded Let_def, symmetric] by (rule inspects_text) simp_all

lemma keeps_plain [keeps_rules]: "keeps (request_ok pl el lims L) (sanitize_plain pl ctx s c)"
  unfolding sanitize_plain_def Let_def by (rule keeps_sanitize_text)

text \<open>One level of \<open>sanitizeJSONTextWithBudget\<close>, and by induction all of them.\<close>

lemma inspects_json_with:
  assumes mode: "\<not> audit_mode pl" and nested: "\<And>rec s c'. nested = Some rec \<Longrightarrow> inspects pl c' s (rec s c')"
  shows "inspects pl outer s (sanitize_json_with nested pl c allow s outer)"
proof -
  have scan: "inspects pl outer s (\<lambda>z. case scan_encoded_json c s z of
         (Inl e, z) \<Rightarrow>
           if allow \<and> is_invalid_json e then sanitize_plain pl c s outer z else (Inl (EncodedJSON e), z)
       | (Inr d, z) \<Rightarrow>
           (case nested of
              None \<Rightarrow> (Inl (EncodedJSON DepthLimit), z)
            | Some rec \<Rightarrow> sanitize_document rec pl c s d outer z))" (is "inspects pl outer s ?m")
  proof (rule inspectsI)
    fix z L v n ch z'
    assume run: "?m z = (Inr (v, n, ch), z')" and L: "logged pl L (z_renderer z)"
    obtain r z1 where 1: "scan_encoded_json c s z = (r, z1)" by fastforce
    show "\<exists>L'. logged pl (L @ L') (z_renderer z') \<and> inspected pl (set (L @ L')) outer s v \<and> (\<not> ch \<longrightarrow> v = s)"
    proof (cases r)
      case (Inl e)
      with run 1 have "sanitize_plain pl c s outer z1 = (Inr (v, n, ch), z')" by (simp split: if_split_asm)
      from inspectsD [OF inspects_plain [OF mode] this] L scan_encoded_json_error(1) [OF 1 [unfolded Inl]]
      show ?thesis by simp
    next
      case (Inr d)
      with run 1 obtain rec where rec: "nested = Some rec" "sanitize_document rec pl c s d outer z1 = (Inr (v, n, ch), z')"
        by (auto split: option.split_asm)
      note d = scan_encoded_json_result(1-3) [OF 1 [unfolded Inr]]
      from inspectsD [OF inspects_document [OF d(1,2) mode nested [OF rec(1)]] rec(2)] L d(3) show ?thesis by simp
    qed
  qed
  show ?thesis
    unfolding sanitize_json_with_def Let_def
    by (intro inspects_rules scan mode inspects_text) simp_all
qed

lemma inspects_json: "\<not> audit_mode pl \<Longrightarrow> inspects pl outer s (sanitize_json levels pl c allow s outer)"
proof (induction levels arbitrary: outer s allow)
  case 0
  show ?case unfolding sanitize_json.simps by (rule inspects_json_with [OF 0]) simp
next
  case (Suc levels)
  show ?case unfolding sanitize_json.simps
    by (rule inspects_json_with [OF Suc.prems]) (use Suc in auto)
qed

lemma keeps_json_with:
  assumes nested: "\<And>rec s c'. nested = Some rec \<Longrightarrow> keeps (request_ok pl el lims L) (rec s c')"
  shows "keeps (request_ok pl el lims L) (sanitize_json_with nested pl c allow s outer)"
proof -
  have "request_ok pl el lims L z'" if ok: "request_ok pl el lims L z"
    and run: "(case scan_encoded_json c s z of
         (Inl e, z) \<Rightarrow>
           if allow \<and> is_invalid_json e then sanitize_plain pl c s outer z else (Inl (EncodedJSON e), z)
       | (Inr d, z) \<Rightarrow>
           (case nested of
              None \<Rightarrow> (Inl (EncodedJSON DepthLimit), z)
            | Some rec \<Rightarrow> sanitize_document rec pl c s d outer z)) = (res, z')" for z res z'
  proof -
    obtain r z1 where 1: "scan_encoded_json c s z = (r, z1)" by fastforce
    show ?thesis
    proof (cases r)
      case (Inl e)
      have "request_ok pl el lims L z1"
        using scan_encoded_json_error [OF 1 [unfolded Inl]] request_ok_frame [OF ok] by simp
      with run 1 Inl show ?thesis by (auto split: if_split_asm dest: keepsD [OF keeps_plain])
    next
      case (Inr d)
      have ok1: "request_ok pl el lims L z1"
        using scan_encoded_json_result(3,4) [OF 1 [unfolded Inr]] ok by (simp add: request_ok_def)
      show ?thesis
      proof (cases nested)
        case None
        with run 1 Inr ok1 show ?thesis by simp
      next
        case (Some rec)
        with run 1 Inr have "sanitize_document rec pl c s d outer z1 = (res, z')" by simp
        from keepsD [OF keeps_sanitize_document [OF nested [OF Some]] ok1 this] show ?thesis .
      qed
    qed
  qed
  then show ?thesis
    unfolding sanitize_json_with_def Let_def by (intro keeps_rules keeps_if) (blast intro: keepsI)
qed

lemma keeps_json [keeps_rules]: "keeps (request_ok pl el lims L) (sanitize_json levels pl c allow s outer)"
proof (induction levels arbitrary: outer s allow)
  case 0
  show ?case unfolding sanitize_json.simps by (rule keeps_json_with) simp
next
  case (Suc levels)
  show ?case unfolding sanitize_json.simps by (rule keeps_json_with) (use Suc in auto)
qed

section \<open>The targets of a request\<close>

lemma inspects_target: "\<not> audit_mode pl \<Longrightarrow> inspects pl (tg_Context t) (tok_value (tg_Token t)) (sanitize_target pl c t)"
  unfolding sanitize_target_def by (cases "tg_Mutable t") (simp_all add: inspects_fail inspects_text inspects_json del: sanitize_json.simps)

lemma keeps_target [keeps_rules]: "keeps (request_ok pl el lims L) (sanitize_target pl c t)"
  unfolding sanitize_target_def by (cases "tg_Mutable t") (simp_all add: keeps_fail keeps_sanitize_text keeps_json del: sanitize_json.simps)

lemma keeps_targets [keeps_rules]: "keeps (request_ok pl el lims L) (sanitize_targets pl c ts rs n)"
proof (induction ts arbitrary: rs n)
  case Nil
  show ?case by (simp add: keeps_rules)
next
  case (Cons t ts)
  have "request_ok pl el lims L z'" if ok: "request_ok pl el lims L z"
    and run: "(case sanitize_target pl c t z of
         (Inl e, z) \<Rightarrow> (Inl (TargetInspection (tg_Path t) e), z)
       | (Inr (v, found, changed), z) \<Rightarrow>
           sanitize_targets pl c ts
             (if changed \<and> \<not> audit_mode pl then rs @ [\<lparr>rp_token = tg_Token t, rp_value = v\<rparr>] else rs) (n + found) z) = (res, z')"
    for z res z'
  proof -
    obtain r z1 where 1: "sanitize_target pl c t z = (r, z1)" by fastforce
    note ok1 = keepsD [OF keeps_target ok 1]
    with run 1 show ?thesis by (cases r) (auto dest: keepsD [OF Cons.IH])
  qed
  then show ?case unfolding sanitize_targets.simps by (intro keeps_bind keeps_poll_z) (blast intro: keepsI)
qed

text \<open>The targets as the walk hands them out: tokens of the document, each once.\<close>

definition targets_of :: "document \<Rightarrow> target list \<Rightarrow> bool" where
  "targets_of d ts \<longleftrightarrow> (\<forall>t \<in> set ts. handed_out d t) \<and> distinct (map (\<lambda>t. tok_ordinal (tg_Token t)) ts)"

lemma handed_out_token:
  assumes "document_ok d" "handed_out d t"
  obtains i where "i < length (doc_strings d)" "tok_ordinal (tg_Token t) = i"
    "tg_Token t = (doc_strings d ! i)\<lparr>tok_path := token_path d (doc_strings d ! i)\<rparr>"
proof -
  from assms(2) obtain i where i: "i < length (doc_strings d)" "StringTokenAt (Some d) (int i) = Some (tg_Token t)"
    by (auto simp: handed_out_def)
  then have "tg_Token t = (doc_strings d ! i)\<lparr>tok_path := token_path d (doc_strings d ! i)\<rparr>"
    using StringTokenAt_ok [OF assms(1), of "int i"] by (simp split: if_splits)
  moreover from this have "tok_ordinal (tg_Token t) = i" using assms(1) i(1) by (simp add: document_ok_def)
  ultimately show ?thesis using that i(1) by blast
qed

lemma token_determined:
  assumes "document_ok d" "handed_out d t" "handed_out d u" "tok_ordinal (tg_Token t) = tok_ordinal (tg_Token u)"
  shows "tg_Token t = tg_Token u"
  using assms by (metis handed_out_token)

lemma inspects_targets:
  assumes d: "document_ok d" and mode: "\<not> audit_mode pl"
  shows "sanitize_targets pl c ts rs n z = (Inr (rs', n'), z') \<Longrightarrow> logged pl L (z_renderer z) \<Longrightarrow> targets_of d ts \<Longrightarrow>
    \<exists>new L'. rs' = rs @ new \<and> logged pl (L @ L') (z_renderer z') \<and>
      ordinals new \<subseteq> (\<lambda>t. tok_ordinal (tg_Token t)) ` set ts \<and>
      (\<forall>t \<in> set ts. inspected pl (set (L @ L')) (tg_Context t) (tok_value (tg_Token t)) (outcome new (tg_Token t)))"
proof (induction ts arbitrary: rs n z L)
  case Nil
  then show ?case by (intro exI [of _ "[]"]) simp
next
  case (Cons t ts)
  let ?ord = "\<lambda>t. tok_ordinal (tg_Token t)"
  from Cons.prems(1) obtain u z0 where p: "poll_z c z = (Inr u, z0)"
    and run: "(case sanitize_target pl c t z0 of
         (Inl e, z) \<Rightarrow> (Inl (TargetInspection (tg_Path t) e), z)
       | (Inr (v, found, changed), z) \<Rightarrow>
           sanitize_targets pl c ts
             (if changed \<and> \<not> audit_mode pl then rs @ [\<lparr>rp_token = tg_Token t, rp_value = v\<rparr>] else rs) (n + found) z) =
      (Inr (rs', n'), z')"
    unfolding sanitize_targets.simps bind_Inr_iff by blast
  obtain r z1 where 0: "sanitize_target pl c t z0 = (r, z1)" by fastforce
  with run obtain v f ch where 1: "sanitize_target pl c t z0 = (Inr (v, f, ch), z1)" by (cases r) auto
  with run mode have rest: "sanitize_targets pl c ts
      (if ch then rs @ [\<lparr>rp_token = tg_Token t, rp_value = v\<rparr>] else rs) (n + f) z1 = (Inr (rs', n'), z')" by simp
  have "logged pl L (z_renderer z0)" using Cons.prems(2) poll_z_frame [OF p] by simp
  from inspectsD [OF inspects_target [OF mode] 1 this] obtain L1 where L1: "logged pl (L @ L1) (z_renderer z1)"
    "inspected pl (set (L @ L1)) (tg_Context t) (tok_value (tg_Token t)) v" "\<not> ch \<Longrightarrow> v = tok_value (tg_Token t)" by blast
  have ts: "targets_of d ts" "?ord t \<notin> ?ord ` set ts" using Cons.prems(3) by (auto simp: targets_of_def)
  from Cons.IH [OF rest L1(1) ts(1)] obtain new L2 where
    new: "rs' = (if ch then rs @ [\<lparr>rp_token = tg_Token t, rp_value = v\<rparr>] else rs) @ new"
      "logged pl ((L @ L1) @ L2) (z_renderer z')" "ordinals new \<subseteq> ?ord ` set ts" and
    ins: "\<forall>u \<in> set ts. inspected pl (set ((L @ L1) @ L2)) (tg_Context u) (tok_value (tg_Token u)) (outcome new (tg_Token u))"
    by blast
  let ?new = "(if ch then [\<lparr>rp_token = tg_Token t, rp_value = v\<rparr>] else []) @ new"
  have fresh: "?ord t \<notin> ordinals new" using new(3) ts(2) by auto
  have det: "tok_value (tg_Token u) = tok_value (tg_Token t)" if "u \<in> set (t # ts)" "?ord u = ?ord t" for u
    using token_determined [OF d] that Cons.prems(3) by (metis targets_of_def list.set_intros(1))
  have out: "outcome ?new (tg_Token u) = (if ?ord u = ?ord t then v else outcome new (tg_Token u))" if "u \<in> set (t # ts)" for u
    using outcome_step [OF L1(3) fresh det [OF that], of ch] by simp
  have "inspected pl (set (L @ L1 @ L2)) (tg_Context u) (tok_value (tg_Token u)) (outcome ?new (tg_Token u))"
    if u: "u \<in> set (t # ts)" for u
  proof (cases "u = t")
    case True
    with out [OF u] inspected_mono [OF L1(2), of "set (L @ L1 @ L2)"] show ?thesis by auto
  next
    case False
    with u have "u \<in> set ts" by simp
    then have "?ord u \<noteq> ?ord t" using ts(2) by (metis imageI)
    with ins out [OF u] \<open>u \<in> set ts\<close> show ?thesis by auto
  qed
  moreover have "ordinals ?new \<subseteq> ?ord ` set (t # ts)" using new(3) by auto
  ultimately show ?case using new(1,2) by (intro exI [of _ ?new] exI [of _ "L1 @ L2"]) auto
qed

lemma walked_targets:
  assumes "DefaultWalk self c f body options = Inr walked"
  shows "document_ok (wr_Document walked)" "doc_body (wr_Document walked) = body"
    "targets_of (wr_Document walked) (wr_Targets walked)"
proof -
  from assms obtain e env s where s: "document_ok (we_document env)" "doc_body (we_document env) = body"
    "collector_ok env s" "walked = finish env f s" by (rule DefaultWalk_Inr)
  then show d: "document_ok (wr_Document walked)" "doc_body (wr_Document walked) = body" by (simp_all add: finish_def)
  have handed: "\<forall>t \<in> set (wr_Targets walked). handed_out (wr_Document walked) t"
    and starts: "distinct (map target_start (wr_Targets walked))"
    using s(3,4) by (simp_all add: finish_def collector_ok_def distinct_map)
  have "inj_on (\<lambda>t. tok_ordinal (tg_Token t)) (set (wr_Targets walked))"
  proof (rule inj_onI)
    fix t u assume "t \<in> set (wr_Targets walked)" "u \<in> set (wr_Targets walked)"
      "tok_ordinal (tg_Token t) = tok_ordinal (tg_Token u)"
    moreover from this have "target_start t = target_start u"
      using token_determined [OF d(1)] handed by (metis target_start_def)
    ultimately show "t = u" using starts by (auto simp: distinct_map dest: inj_onD)
  qed
  with starts have "distinct (map (\<lambda>t. tok_ordinal (tg_Token t)) (wr_Targets walked))" by (simp add: distinct_map)
  with handed show "targets_of (wr_Document walked) (wr_Targets walked)" by (simp add: targets_of_def)
qed

end
