(* ===== verification/Redactor_Properties.thy ===== *)
theory Redactor_Properties
  imports Redactor_Sound
begin

text \<open>The properties of the redaction of a request, and a request at which they are evaluated.\<close>

section \<open>A request\<close>

definition sample_plugin :: plugin where
  "sample_plugin = \<lparr>pg_cfg = default_config, pg_tools = sample_tools, pg_engine = sample_engine,
     pg_placeholders = new_placeholder_renderer Map.empty, pg_blockRuleIDs = {}, pg_sha256 = (\<lambda>s. s),
     pg_score = (\<lambda>_. None)\<rparr>"

definition message_body :: "string \<Rightarrow> string" where
  "message_body content = ''{'' @ quoted ''messages'' @ '':[{'' @ quoted ''role'' @ '':'' @ quoted ''user'' @ '','' @
     quoted ''content'' @ '':'' @ quoted content @ ''}]}''"

definition sample_request_result :: "(sanitize_error + sanitize_result) \<times> request_renderer option" where
  "sample_request_result = sanitize_request_with_renderer sample_plugin never never ''openai'' (message_body ''ip 8.8.8.8'')
     (Some new_request_renderer)"

abbreviation sample_request_run :: "(sanitize_error + sanitize_result) \<times> request_renderer option" where
  "sample_request_run \<equiv> sanitize_request_with_renderer sample_plugin never never ''openai'' (message_body ''ip 8.8.8.8'')
     (Some new_request_renderer)"

lemma sample_request_view:
  "map_sum id (\<lambda>r. (sr_body r, sr_changed r, sr_findings r)) (fst sample_request_run) =
     Inr (message_body ''ip [IP]'', True, 1)"
  by code_simp

lemma sample_request_run:
  obtains res r' where "sample_request_run = (Inr res, r')" "sr_body res = message_body ''ip [IP]''" "sr_changed res"
  using sample_request_view by (cases "sample_request_run"; cases "fst sample_request_run") auto

section \<open>Properties\<close>

lemma replace_empty: "document_ok d \<Longrightarrow> rewrite d (requested []) = doc_body d"
  by (rule rewrite_nothing) (simp_all add: edits_of_def changes_def requested_def)

lemma sanitize_walked_result:
  assumes walked: "DefaultWalk self cw f body options = Inr walked"
    and run: "sanitize_walked pl c body walked z = (Inr res, z')" and mode: "\<not> audit_mode pl" and L: "logged pl L (z_renderer z)"
  obtains rs L' where "logged pl (L @ L') (z_renderer z')" "sr_body res = rewrite (wr_Document walked) (requested rs)"
    "\<not> sr_changed res \<Longrightarrow> sr_body res = body"
    "ordinals rs \<subseteq> (\<lambda>t. tok_ordinal (tg_Token t)) ` set (wr_Targets walked)"
    "\<forall>t \<in> set (wr_Targets walked). inspected pl (set (L @ L')) (tg_Context t) (tok_value (tg_Token t)) (outcome rs (tg_Token t))"
proof -
  note d = walked_targets [OF walked]
  from run obtain rs n z1 where 1: "sanitize_targets pl c (wr_Targets walked) [] 0 z = (Inr (rs, n), z1)"
    and 2: "(let counts = (walk_counts body walked)\<lparr>sr_findings := n\<rparr> in
     if audit_mode pl \<or> rs = [] then bind get_state (\<lambda>s. ret (counts\<lparr>sr_mlFlagged := ml_hits s\<rparr>))
     else
       bind (replace_z c (wr_Document walked) rs) (\<lambda>(out, changed).
       bind get_state (\<lambda>s.
       ret ((if changed then counts\<lparr>sr_body := out, sr_changed := True\<rparr> else counts)\<lparr>sr_mlFlagged := ml_hits s\<rparr>)))) z1 =
       (Inr res, z')"
    unfolding sanitize_walked_def by (auto simp: bind_Inr_iff simp del: split_paired_Ex)
  from inspects_targets [OF d(1) mode 1 L d(3)] obtain L' where L': "logged pl (L @ L') (z_renderer z1)"
    "ordinals rs \<subseteq> (\<lambda>t. tok_ordinal (tg_Token t)) ` set (wr_Targets walked)"
    "\<forall>t \<in> set (wr_Targets walked). inspected pl (set (L @ L')) (tg_Context t) (tok_value (tg_Token t)) (outcome rs (tg_Token t))"
    by auto
  show ?thesis
  proof (cases "rs = []")
    case True
    with 2 have "z' = z1" "sr_body res = body" by (auto simp: Let_def bind_Inr_iff walk_counts_def)
    with True L' that [of L' rs] replace_empty [OF d(1)] d(2) show ?thesis by simp
  next
    case False
    with 2 mode obtain out ch z2 where r: "replace_z c (wr_Document walked) rs z1 = (Inr (out, ch), z2)"
      and res: "z' = z2" "sr_body res = (if ch then out else body)" "sr_changed res = ch"
      by (auto simp: Let_def bind_Inr_iff walk_counts_def)
    from replace_z_result [OF d(1) r] res d(2) have "sr_body res = rewrite (wr_Document walked) (requested rs)"
      "\<not> sr_changed res \<Longrightarrow> sr_body res = body" by auto
    with L' that [of L' rs] replace_z_frame [OF r] res(1) show ?thesis by simp
  qed
qed

lemma sanitize_request_walked:
  assumes "sanitize_request_with_renderer pl cw c f body (Some r) = (Inr res, ro)"
  obtains walked b ib z' where
    "DefaultWalk 0 (Some cw) f body [payload_limits (pg_cfg pl)] = Inr walked" "wr_UnsupportedCount walked = 0"
    "NewBudget (engine_limits_of (pg_cfg pl)) = Inr b"
    "new_request_inspection_budget b (payload_limits (pg_cfg pl)) (int (wr_JSONNodes walked)) (wr_StructuralBytes walked) = Inr ib"
    "sanitize_walked pl c body walked \<lparr>z_polls = 0, z_budget = ib\<lparr>ib_mlFlagged := Some 0\<rparr>, z_renderer = r, z_doc = 1\<rparr> = (Inr res, z')"
    "ro = Some (z_renderer z')"
  using assms unfolding sanitize_request_with_renderer_def
  by (auto split: sum.split_asm if_split_asm prod.split_asm)

text \<open>
  C3: What a redacted request consists of. The walk found no unsupported shape; the new body is the
  old one in which tokens of targets, and no others, are rewritten; and the value of every target
  has been inspected: no candidate of any detector is left in a text, in a string of an encoded
  document or of a document within it, and each was replaced by the placeholder rendered for exactly
  its bytes and kind. The renderer has only continued its log, so its placeholders are pseudonyms
  over all texts of the request. A result without a change is the body itself.
\<close>

theorem sanitize_request_exact:
  "sanitize_request_with_renderer pl cw c f body (Some r) = (Inr res, ro) \<Longrightarrow> \<not> audit_mode pl \<Longrightarrow> logged pl L r \<Longrightarrow>
   \<exists>walked rs L' r'.
     DefaultWalk 0 (Some cw) f body [payload_limits (pg_cfg pl)] = Inr walked \<and> wr_UnsupportedCount walked = 0 \<and>
     ro = Some r' \<and> logged pl (L @ L') r' \<and>
     sr_body res = rewrite (wr_Document walked) (requested rs) \<and> (sr_changed res \<or> sr_body res = body) \<and>
     (\<lambda>r. tok_ordinal (rp_token r)) ` set rs \<subseteq> (\<lambda>t. tok_ordinal (tg_Token t)) ` set (wr_Targets walked) \<and>
     (\<forall>t \<in> set (wr_Targets walked).
        inspected pl (set (L @ L')) (tg_Context t) (tok_value (tg_Token t)) (outcome rs (tg_Token t)))"
proof -
  assume run: "sanitize_request_with_renderer pl cw c f body (Some r) = (Inr res, ro)"
    and mode: "\<not> audit_mode pl" and L: "logged pl L r"
  from sanitize_request_walked [OF run] obtain walked b ib z' where
    w: "DefaultWalk 0 (Some cw) f body [payload_limits (pg_cfg pl)] = Inr walked" "wr_UnsupportedCount walked = 0"
    and z: "sanitize_walked pl c body walked
      \<lparr>z_polls = 0, z_budget = ib\<lparr>ib_mlFlagged := Some 0\<rparr>, z_renderer = r, z_doc = 1\<rparr> = (Inr res, z')"
    and ro: "ro = Some (z_renderer z')" by metis
  have "logged pl L (z_renderer \<lparr>z_polls = 0, z_budget = ib\<lparr>ib_mlFlagged := Some 0\<rparr>, z_renderer = r, z_doc = 1\<rparr>)"
    using L by simp
  then obtain L' rs where
    "logged pl (L @ L') (z_renderer z')" "sr_body res = rewrite (wr_Document walked) (requested rs)"
    "\<not> sr_changed res \<Longrightarrow> sr_body res = body"
    "ordinals rs \<subseteq> (\<lambda>t. tok_ordinal (tg_Token t)) ` set (wr_Targets walked)"
    "\<forall>t \<in> set (wr_Targets walked). inspected pl (set (L @ L')) (tg_Context t) (tok_value (tg_Token t)) (outcome rs (tg_Token t))"
    using sanitize_walked_result [OF w(1) z mode, of L thesis] by meson
  then show ?thesis
    using w ro
    by (cases "sr_changed res"; intro exI [of _ walked] exI [of _ rs] exI [of _ L'] exI [of _ "z_renderer z'"]; simp)
qed

theorem sanitize_request_exact_witness:
  "\<exists>walked rs L'.
     DefaultWalk 0 (Some never) ''openai'' (message_body ''ip 8.8.8.8'') [payload_limits default_config] = Inr walked \<and>
     message_body ''ip [IP]'' = rewrite (wr_Document walked) (requested rs) \<and>
     (\<forall>t \<in> set (wr_Targets walked).
        inspected sample_plugin (set L') (tg_Context t) (tok_value (tg_Token t)) (outcome rs (tg_Token t)))"
proof -
  obtain res r' where run: "sample_request_run = (Inr res, r')" and body: "sr_body res = message_body ''ip [IP]''"
    by (rule sample_request_run)
  have mode: "\<not> audit_mode sample_plugin" by (simp add: audit_mode_def sample_plugin_def default_config_def)
  have L: "logged sample_plugin [] new_request_renderer" by (simp add: logged_def rendered_new)
  have "pg_cfg sample_plugin = default_config" by (simp add: sample_plugin_def)
  note exact = sanitize_request_exact [OF run mode L, unfolded this body append_Nil]
  from exact show ?thesis
    by (elim exE conjE) (rule exI, rule exI, rule exI, intro conjI, assumption+)
qed


definition sample_inspection :: inspection where
  "sample_inspection = \<lparr>ib_engine = new_budget_unchecked (engine_limits_of default_config), ib_limits = DefaultLimits,
     ib_jsonNodes = 3, ib_structuralBytes = 10, ib_mlFlagged = None\<rparr>"


text \<open>
  In audit mode a request is never changed, whatever the detectors and the second opinion find: the
  result carries the body as it came.
\<close>

theorem audit_never_changes:
  "audit_mode pl \<Longrightarrow> fst (sanitize_request_with_renderer pl cw c f body ro) = Inr res \<Longrightarrow>
   sr_body res = body \<and> \<not> sr_changed res"
  by (auto simp: sanitize_request_with_renderer_def sanitize_walked_def walk_counts_def Let_def bind_Inr_iff
      split: sum.split_asm if_split_asm prod.split_asm)

definition audit_plugin :: plugin where
  "audit_plugin = sample_plugin\<lparr>pg_cfg := default_config\<lparr>pc_Mode := modeAudit\<rparr>\<rparr>"

definition audited_body :: string where
  "audited_body = ''{'' @ quoted ''contents'' @ '':[{'' @ quoted ''parts'' @ '':[{'' @ quoted ''text'' @ '':'' @ quoted ''8.8.8.8'' @
     ''}]}]}''"

theorem audit_never_changes_witness:
  "\<exists>res. fst (sanitize_request_with_renderer audit_plugin never never ''gemini'' audited_body None) = Inr res \<and>
     sr_findings res = 1 \<and> sr_body res = audited_body"
proof -
  let ?run = "sanitize_request_with_renderer audit_plugin never never ''gemini'' audited_body None"
  have "map_sum id sr_findings (fst ?run) = Inr 1" by code_simp
  then obtain res where res: "fst ?run = Inr res" "sr_findings res = 1" by (cases "fst ?run") auto
  have "audit_mode audit_plugin" by (simp add: audit_mode_def audit_plugin_def)
  from audit_never_changes [OF this res(1)] res show ?thesis by blast
qed

lemma take_update_snoc: "n < length xs \<Longrightarrow> take (Suc n) (xs[n := k]) = take n xs @ [k]"
  by (simp add: take_Suc_conv_app_nth)

lemma append_ancestor_length: "length (Ancestors (append_ancestor k m)) = length (Ancestors m)"
  by (simp add: append_ancestor_def)

lemma append_ancestor_keeps: "has_credential_ancestor_key m \<Longrightarrow> has_credential_ancestor_key (append_ancestor k m)"
  by (auto simp: append_ancestor_def has_credential_ancestor_key_def take_update_snoc)

lemma append_ancestor_adds:
  assumes "is_credential_ancestor_field_key k" "k \<noteq> []" "0 < length (Ancestors m)"
  shows "has_credential_ancestor_key (append_ancestor k m)"
proof (cases "length (Ancestors m) \<le> AncestorCount m")
  case False
  with assms show ?thesis by (simp add: append_ancestor_def has_credential_ancestor_key_def take_update_snoc)
next
  case True
  have "k \<in> set ((Ancestors m)[length (Ancestors m) - 1 := k])" using assms(3) by (simp add: set_update_memI)
  with True assms show ?thesis
    by (cases "has_credential_ancestor_key m")
      (auto simp: append_ancestor_def has_credential_ancestor_key_def list_ex_iff)
qed

lemma fold_ancestors:
  "0 < length (Ancestors m) \<Longrightarrow>
   has_credential_ancestor_key m \<or> (\<exists>k \<in> set ks. k \<noteq> [] \<and> is_credential_ancestor_field_key k) \<Longrightarrow>
   has_credential_ancestor_key (fold append_ancestor ks m)"
proof (induction ks arbitrary: m)
  case (Cons k ks)
  have "has_credential_ancestor_key (append_ancestor k m) \<or> (\<exists>k \<in> set ks. k \<noteq> [] \<and> is_credential_ancestor_field_key k)"
    using Cons.prems append_ancestor_adds append_ancestor_keeps by auto
  with Cons.IH [of "append_ancestor k m"] Cons.prems(1) show ?case by (simp add: append_ancestor_length)
qed simp

text \<open>
  C35: A credential key is never pushed out of a context. When the keys of an inner document and of
  the place it stands in do not all fit into the four ancestors kept, a key that names a credential
  survives, so a secret under it is still recognised.
\<close>

theorem merge_keeps_credential_keys:
  "key \<in> set (take (AncestorCount inner) (Ancestors inner)) \<union> {ImmediateKey inner, ImmediateKey outer} \<union>
     set (take (AncestorCount outer) (Ancestors outer)) \<Longrightarrow>
   is_credential_ancestor_field_key key \<Longrightarrow>
   has_credential_ancestor_key (merge_string_key_contexts inner outer)"
proof -
  assume k: "key \<in> set (take (AncestorCount inner) (Ancestors inner)) \<union> {ImmediateKey inner, ImmediateKey outer} \<union>
     set (take (AncestorCount outer) (Ancestors outer))" and cred: "is_credential_ancestor_field_key key"
  have "key \<noteq> []" using cred by (auto simp: is_credential_ancestor_field_key_def is_credential_field_key_def) code_simp
  let ?m0 = "\<lparr>ImmediateKey = ImmediateKey inner, Ancestors = replicate max_context_ancestors [], AncestorCount = 0\<rparr>"
  have "0 < length (Ancestors ?m0)" by (simp add: max_context_ancestors_def)
  moreover have "has_credential_ancestor_key ?m0" if "key = ImmediateKey inner"
    using that cred by (simp add: has_credential_ancestor_key_def)
  ultimately show ?thesis
    unfolding merge_string_key_contexts_def using k cred \<open>key \<noteq> []\<close> by (intro fold_ancestors) auto
qed

theorem merge_keeps_credential_keys_witness:
  "has_credential_ancestor_key (merge_string_key_contexts
     \<lparr>ImmediateKey = ''x'', Ancestors = [''a'', ''b'', ''c'', ''d''], AncestorCount = 4\<rparr>
     \<lparr>ImmediateKey = ''api_key'', Ancestors = [[], [], [], []], AncestorCount = 0\<rparr>)"
proof -
  have "is_credential_ancestor_field_key ''api_key''" by code_simp
  then show ?thesis by (rule merge_keeps_credential_keys [rotated]) simp
qed

end
