(* ===== verification/Request_Cache.thy ===== *)
theory Request_Cache
  imports Prelude "HOL-Library.AList"
begin

text \<open>
  The request cache of \<open>request_cache.go\<close>. The map of entries and the LRU list hold pointers to
  entries, and an entry points to a state that stays usable after the entry is removed; so entries
  and states live in heaps (lists, indexed by allocation) and the map and the list hold addresses.
  Each method of the cache holds the mutex from its first access of the map to its last, and the
  methods of a state do the same, so concurrent calls are sequences of whole calls. Only the clock
  is read before the lock is taken: it is an argument of the call.

  \<open>sha\<close> is \<open>sha256.Sum256\<close>, a parameter.
\<close>

section \<open>Data\<close>

record scan_context =
  sx_Revision :: "64 word"
  sx_SourceFormat :: string
  sx_Model :: string

record 'r scan_state =
  ss_context :: scan_context
  ss_has_metrics :: bool
  ss_hasFingerprint :: bool
  ss_fingerprint :: string
  ss_rendererState :: "'r option"
  ss_hasRendererState :: bool

record metrics =
  m_acquires :: "64 word"
  m_created :: "64 word"
  m_reused :: "64 word"
  m_contextResets :: "64 word"
  m_ephemeral :: "64 word"
  m_seenHits :: "64 word"
  m_seenMisses :: "64 word"
  m_records :: "64 word"
  m_completions :: "64 word"
  m_expirations :: "64 word"
  m_evictions :: "64 word"

text \<open>\<open>ce_linked\<close> says that \<open>element\<close> is not nil.\<close>

record cache_entry =
  ce_requestID :: string
  ce_state :: nat
  ce_lastAccess :: int
  ce_linked :: bool

record 'r cache =
  cc_entries :: "(string \<times> nat) list"
  cc_lru :: "nat list"
  cc_ttl :: int
  cc_max :: int
  cc_metrics :: metrics
  cc_heap :: "cache_entry list"
  cc_states :: "'r scan_state list"

definition zero_metrics :: metrics where
  "zero_metrics = \<lparr>m_acquires = 0, m_created = 0, m_reused = 0, m_contextResets = 0, m_ephemeral = 0,
     m_seenHits = 0, m_seenMisses = 0, m_records = 0, m_completions = 0, m_expirations = 0, m_evictions = 0\<rparr>"

definition new_scan_state :: "scan_context \<Rightarrow> bool \<Rightarrow> 'r scan_state" where
  "new_scan_state cx has_metrics = \<lparr>ss_context = cx, ss_has_metrics = has_metrics, ss_hasFingerprint = False,
     ss_fingerprint = [], ss_rendererState = None, ss_hasRendererState = False\<rparr>"

definition new_request_scan_cache :: "int \<Rightarrow> int \<Rightarrow> 'r cache" where
  "new_request_scan_cache ttl max_entries = \<lparr>cc_entries = [], cc_lru = [],
     cc_ttl = (if ttl < 0 then 0 else ttl), cc_max = (if max_entries < 0 then 0 else max_entries),
     cc_metrics = zero_metrics, cc_heap = [], cc_states = []\<rparr>"

definition count_metric :: "(metrics \<Rightarrow> metrics) \<Rightarrow> 'r cache \<Rightarrow> 'r cache" where
  "count_metric f c = c\<lparr>cc_metrics := f (cc_metrics c)\<rparr>"

section \<open>The cache\<close>

definition entry_expired :: "int \<Rightarrow> cache_entry \<Rightarrow> int \<Rightarrow> bool" where
  "entry_expired ttl e now = (0 < ttl \<and> ttl \<le> now - ce_lastAccess e)"

definition remove_locked :: "nat \<Rightarrow> 'r cache \<Rightarrow> 'r cache" where
  "remove_locked a c =
    (let e = cc_heap c ! a in
     c\<lparr>cc_entries := AList.delete (ce_requestID e) (cc_entries c),
       cc_lru := (if ce_linked e then remove1 a (cc_lru c) else cc_lru c),
       cc_heap := (cc_heap c)[a := e\<lparr>ce_linked := False\<rparr>]\<rparr>)"

text \<open>\<open>pruneExpiredLocked\<close>, along the elements from the back of the list.\<close>

fun prune_loop :: "int \<Rightarrow> nat list \<Rightarrow> 'r cache \<Rightarrow> nat \<times> 'r cache" where
  "prune_loop now [] c = (0, c)"
| "prune_loop now (a # as) c =
    (if \<not> entry_expired (cc_ttl c) (cc_heap c ! a) now then (0, c)
     else (case prune_loop now as (remove_locked a c) of (n, c) \<Rightarrow> (Suc n, c)))"

definition prune_expired_locked :: "int \<Rightarrow> 'r cache \<Rightarrow> nat \<times> 'r cache" where
  "prune_expired_locked now c = prune_loop now (rev (cc_lru c)) c"

definition prune_and_count :: "int \<Rightarrow> 'r cache \<Rightarrow> nat \<times> 'r cache" where
  "prune_and_count now c =
    (case prune_expired_locked now c of
       (n, c) \<Rightarrow> (n, if 0 < n then count_metric (\<lambda>m. m\<lparr>m_expirations := m_expirations m + of_nat n\<rparr>) c else c))"

definition alloc_state :: "scan_context \<Rightarrow> 'r cache \<Rightarrow> nat \<times> 'r cache" where
  "alloc_state cx c = (length (cc_states c), c\<lparr>cc_states := cc_states c @ [new_scan_state cx True]\<rparr>)"

text \<open>The loop that evicts, along the elements from the back of the list as well.\<close>

fun evict_loop :: "nat list \<Rightarrow> 'r cache \<Rightarrow> 'r cache" where
  "evict_loop [] c = c"
| "evict_loop (a # as) c =
    (if cc_max c < int (length (cc_entries c)) then
       evict_loop as (count_metric (\<lambda>m. m\<lparr>m_evictions := m_evictions m + 1\<rparr>) (remove_locked a c))
     else c)"

definition push_front :: "string \<Rightarrow> nat \<Rightarrow> int \<Rightarrow> 'r cache \<Rightarrow> 'r cache" where
  "push_front rid s now c =
    (let a = length (cc_heap c) in
     c\<lparr>cc_heap := cc_heap c @
         [\<lparr>ce_requestID = rid, ce_state = s, ce_lastAccess = now, ce_linked = True\<rparr>],
       cc_lru := a # cc_lru c,
       cc_entries := AList.update rid a (cc_entries c)\<rparr>)"

definition insert_new :: "string \<Rightarrow> scan_context \<Rightarrow> int \<Rightarrow> 'r cache \<Rightarrow> nat \<times> 'r cache" where
  "insert_new rid cx now c =
    (let (s, c) = alloc_state cx c;
         c = count_metric (\<lambda>m. m\<lparr>m_created := m_created m + 1\<rparr>) (push_front rid s now c)
     in (s, evict_loop (rev (cc_lru c)) c))"

definition move_to_front :: "nat \<Rightarrow> int \<Rightarrow> 'r cache \<Rightarrow> 'r cache" where
  "move_to_front a now c =
    c\<lparr>cc_heap := (cc_heap c)[a := (cc_heap c ! a)\<lparr>ce_lastAccess := now\<rparr>],
      cc_lru := a # remove1 a (cc_lru c)\<rparr>"

definition acquire_locked :: "string \<Rightarrow> scan_context \<Rightarrow> int \<Rightarrow> 'r cache \<Rightarrow> nat \<times> 'r cache" where
  "acquire_locked rid cx now c =
    (let (n, c) = prune_and_count now c in
     case map_of (cc_entries c) rid of
       None \<Rightarrow> insert_new rid cx now c
     | Some a \<Rightarrow>
         (let e = cc_heap c ! a in
          if entry_expired (cc_ttl c) e now then
            insert_new rid cx now
              (count_metric (\<lambda>m. m\<lparr>m_expirations := m_expirations m + 1\<rparr>) (remove_locked a c))
          else if ss_context (cc_states c ! ce_state e) = cx then
            (ce_state e,
             count_metric (\<lambda>m. m\<lparr>m_reused := m_reused m + 1\<rparr>) (move_to_front a now c))
          else
            insert_new rid cx now
              (count_metric (\<lambda>m. m\<lparr>m_contextResets := m_contextResets m + 1\<rparr>) (remove_locked a c))))"

definition Acquire :: "string \<Rightarrow> scan_context \<Rightarrow> int \<Rightarrow> 'r cache \<Rightarrow> nat \<times> 'r cache" where
  "Acquire rid cx now c =
    (let c = count_metric (\<lambda>m. m\<lparr>m_acquires := m_acquires m + 1\<rparr>) c in
     if rid = [] \<or> cc_max c \<le> 0 then
       alloc_state cx (count_metric (\<lambda>m. m\<lparr>m_ephemeral := m_ephemeral m + 1\<rparr>) c)
     else acquire_locked rid cx now c)"

definition Complete :: "string \<Rightarrow> 'r cache \<Rightarrow> bool \<times> 'r cache" where
  "Complete rid c =
    (if rid = [] then (False, c)
     else (case map_of (cc_entries c) rid of
       None \<Rightarrow> (False, c)
     | Some a \<Rightarrow> (True, count_metric (\<lambda>m. m\<lparr>m_completions := m_completions m + 1\<rparr>) (remove_locked a c))))"

definition Prune :: "int \<Rightarrow> 'r cache \<Rightarrow> nat \<times> 'r cache" where
  "Prune now c = (if cc_ttl c \<le> 0 then (0, c) else prune_and_count now c)"

definition Clear :: "'r cache \<Rightarrow> nat \<times> 'r cache" where
  "Clear c = (length (cc_entries c), c\<lparr>cc_entries := [], cc_lru := []\<rparr>)"

definition Len :: "'r cache \<Rightarrow> nat" where
  "Len c = length (cc_entries c)"

section \<open>A state\<close>

definition update_state :: "nat \<Rightarrow> ('r scan_state \<Rightarrow> 'r scan_state) \<Rightarrow> 'r cache \<Rightarrow> 'r cache" where
  "update_state s f c = c\<lparr>cc_states := (cc_states c)[s := f (cc_states c ! s)]\<rparr>"

definition Seen :: "(string \<Rightarrow> string) \<Rightarrow> nat \<Rightarrow> string \<Rightarrow> 'r cache \<Rightarrow> bool \<times> 'r cache" where
  "Seen sha s body c =
    (let st = cc_states c ! s;
         seen = ss_hasFingerprint st \<and> ss_fingerprint st = sha body
     in (seen,
         if ss_has_metrics st then
           (if seen then count_metric (\<lambda>m. m\<lparr>m_seenHits := m_seenHits m + 1\<rparr>) c
            else count_metric (\<lambda>m. m\<lparr>m_seenMisses := m_seenMisses m + 1\<rparr>) c)
         else c))"

text \<open>\<open>sanitized_output\<close> is \<open>None\<close> for a nil slice.\<close>

definition Record :: "(string \<Rightarrow> string) \<Rightarrow> nat \<Rightarrow> string \<Rightarrow> string option \<Rightarrow> 'r cache \<Rightarrow> 'r cache" where
  "Record sha s input sanitized_output c =
    (let body = (case sanitized_output of None \<Rightarrow> input | Some out \<Rightarrow> out);
         c = update_state s (\<lambda>st. st\<lparr>ss_fingerprint := sha body, ss_hasFingerprint := True\<rparr>) c
     in if ss_has_metrics (cc_states c ! s) then count_metric (\<lambda>m. m\<lparr>m_records := m_records m + 1\<rparr>) c else c)"

definition LoadRendererState :: "nat \<Rightarrow> 'r cache \<Rightarrow> 'r option \<times> bool" where
  "LoadRendererState s c = (ss_rendererState (cc_states c ! s), ss_hasRendererState (cc_states c ! s))"

definition StoreRendererState :: "nat \<Rightarrow> 'r option \<Rightarrow> 'r cache \<Rightarrow> 'r cache" where
  "StoreRendererState s r = update_state s (\<lambda>st. st\<lparr>ss_rendererState := r, ss_hasRendererState := True\<rparr>)"

text \<open>The factory, if there is one, is a constant here: it makes a fresh value.\<close>

definition GetOrCreateRendererState :: "nat \<Rightarrow> 'r option option \<Rightarrow> 'r cache \<Rightarrow> 'r option \<times> 'r cache" where
  "GetOrCreateRendererState s factory c =
    (let c = (case factory of
        Some v \<Rightarrow> if \<not> ss_hasRendererState (cc_states c ! s) then StoreRendererState s v c else c
      | None \<Rightarrow> c)
     in (ss_rendererState (cc_states c ! s), c))"


section \<open>The invariant\<close>

text \<open>
  \<open>linked c\<close>: the map and the list hold the same entries, each under its own id and with a state of
  its own; \<open>cache_ok c\<close> adds the capacity.
\<close>

definition entry_ok :: "'r cache \<Rightarrow> string \<Rightarrow> nat \<Rightarrow> bool" where
  "entry_ok c k a \<longleftrightarrow> k \<noteq> [] \<and> a < length (cc_heap c) \<and> ce_requestID (cc_heap c ! a) = k \<and>
     ce_linked (cc_heap c ! a) \<and> ce_state (cc_heap c ! a) < length (cc_states c)"

definition linked :: "'r cache \<Rightarrow> bool" where
  "linked c \<longleftrightarrow> distinct (map fst (cc_entries c)) \<and> distinct (cc_lru c) \<and>
     set (cc_lru c) = snd ` set (cc_entries c) \<and>
     (\<forall>p \<in> set (cc_entries c). entry_ok c (fst p) (snd p)) \<and>
     inj_on (\<lambda>a. ce_state (cc_heap c ! a)) (set (cc_lru c))"

definition cache_ok :: "'r cache \<Rightarrow> bool" where
  "cache_ok c \<longleftrightarrow> linked c \<and> 0 \<le> cc_ttl c \<and> 0 \<le> cc_max c \<and> int (length (cc_entries c)) \<le> cc_max c"

lemma count_metric_fields [simp]:
  "cc_entries (count_metric f c) = cc_entries c" "cc_lru (count_metric f c) = cc_lru c"
  "cc_ttl (count_metric f c) = cc_ttl c" "cc_max (count_metric f c) = cc_max c"
  "cc_heap (count_metric f c) = cc_heap c" "cc_states (count_metric f c) = cc_states c"
  by (simp_all add: count_metric_def)

lemma linked_count [simp]: "linked (count_metric f c) \<longleftrightarrow> linked c"
  by (simp add: linked_def entry_ok_def)

lemma cache_ok_count [simp]: "cache_ok (count_metric f c) \<longleftrightarrow> cache_ok c"
  by (simp add: cache_ok_def)

lemma linked_lruD:
  assumes "linked c" "a \<in> set (cc_lru c)"
  shows "(ce_requestID (cc_heap c ! a), a) \<in> set (cc_entries c)" "entry_ok c (ce_requestID (cc_heap c ! a)) a"
  using assms by (force simp: linked_def entry_ok_def)+

lemma linked_map_ofD:
  assumes "linked c" "map_of (cc_entries c) k = Some a"
  shows "a \<in> set (cc_lru c)" "entry_ok c k a"
  using assms map_of_SomeD [OF assms(2)] by (force simp: linked_def)+

lemma linked_length: "linked c \<Longrightarrow> length (cc_entries c) = length (cc_lru c)"
proof -
  assume l: "linked c"
  then have "inj_on snd (set (cc_entries c))"
    by (auto simp: linked_def entry_ok_def inj_on_def) (metis snd_conv fst_conv)+
  then have "card (set (cc_lru c)) = card (set (cc_entries c))"
    using l by (simp add: linked_def card_image)
  moreover have "card (set (cc_lru c)) = length (cc_lru c)"
    by (rule distinct_card) (use l in \<open>simp add: linked_def\<close>)
  moreover have "card (set (cc_entries c)) = length (cc_entries c)"
    by (rule distinct_card) (use l in \<open>simp add: linked_def distinct_map\<close>)
  ultimately show ?thesis by simp
qed

lemma remove_locked_fields [simp]:
  "cc_ttl (remove_locked a c) = cc_ttl c" "cc_max (remove_locked a c) = cc_max c"
  "cc_states (remove_locked a c) = cc_states c"
  by (simp_all add: remove_locked_def Let_def)

lemma remove_locked_lru: "linked c \<Longrightarrow> a \<in> set (cc_lru c) \<Longrightarrow> cc_lru (remove_locked a c) = remove1 a (cc_lru c)"
  using linked_lruD(2) by (fastforce simp: remove_locked_def Let_def entry_ok_def)

lemma remove_locked_heap: "b \<noteq> a \<Longrightarrow> cc_heap (remove_locked a c) ! b = cc_heap c ! b"
  by (simp add: remove_locked_def Let_def)

lemma remove_locked_entries:
  "cc_entries (remove_locked a c) = AList.delete (ce_requestID (cc_heap c ! a)) (cc_entries c)"
  by (simp add: remove_locked_def Let_def)

lemma remove_locked_linked:
  assumes "linked c" "a \<in> set (cc_lru c)"
  shows "linked (remove_locked a c)"
proof -
  let ?c = "remove_locked a c" and ?k = "ce_requestID (cc_heap c ! a)"
  have ids: "ce_requestID (cc_heap c ! snd p) = fst p" if "p \<in> set (cc_entries c)" for p
    using assms(1) that by (auto simp: linked_def entry_ok_def)
  have ent: "set (cc_entries ?c) = {p \<in> set (cc_entries c). fst p \<noteq> ?k}"
    by (auto simp: remove_locked_entries AList.delete_eq)
  have other: "snd p \<noteq> a" if "p \<in> set (cc_entries ?c)" for p
    using that ids [of p] ent by fastforce
  have lru: "set (cc_lru ?c) = set (cc_lru c) - {a}"
    using remove_locked_lru [OF assms] assms(1) by (simp add: linked_def)
  have "set (cc_lru ?c) = snd ` set (cc_entries ?c)"
  proof
    show "set (cc_lru ?c) \<subseteq> snd ` set (cc_entries ?c)"
    proof
      fix b assume b: "b \<in> set (cc_lru ?c)"
      then have "b \<in> set (cc_lru c)" "b \<noteq> a" using lru by auto
      with linked_lruD(1) [OF assms(1)] have p: "(ce_requestID (cc_heap c ! b), b) \<in> set (cc_entries c)" by blast
      have "ce_requestID (cc_heap c ! b) \<noteq> ?k"
      proof
        assume eq: "ce_requestID (cc_heap c ! b) = ?k"
        have "(?k, a) \<in> set (cc_entries c)" by (rule linked_lruD(1) [OF assms])
        with p eq assms(1) \<open>b \<noteq> a\<close> show False by (auto simp: linked_def dest: eq_key_imp_eq_value)
      qed
      with p ent show "b \<in> snd ` set (cc_entries ?c)" by force
    qed
    show "snd ` set (cc_entries ?c) \<subseteq> set (cc_lru ?c)"
      using assms(1) ent other lru by (auto simp: linked_def)
  qed
  moreover have "\<forall>p \<in> set (cc_entries ?c). entry_ok ?c (fst p) (snd p)"
    using assms(1) ent other by (auto simp: linked_def entry_ok_def remove_locked_heap)
      (auto simp: remove_locked_def Let_def)
  moreover have "inj_on (\<lambda>b. ce_state (cc_heap ?c ! b)) (set (cc_lru ?c))"
    using assms(1) lru by (auto simp: linked_def inj_on_def remove_locked_heap)
  moreover have "distinct (map fst (cc_entries ?c))"
    using assms(1) by (simp add: linked_def remove_locked_entries AList.distinct_delete)
  moreover have "distinct (cc_lru ?c)"
    using remove_locked_lru [OF assms] assms(1) by (simp add: linked_def)
  ultimately show ?thesis by (simp add: linked_def)
qed


section \<open>The abstract cache\<close>

text \<open>
  What a cache promises: a list of entries, the most recently used first. An entry is its id, the
  address of its state and its last access.
\<close>

type_synonym abs_entry = "string \<times> nat \<times> int"

definition entry_of :: "cache_entry \<Rightarrow> abs_entry" where
  "entry_of e = (ce_requestID e, ce_state e, ce_lastAccess e)"

definition lru_view :: "'r cache \<Rightarrow> abs_entry list" where
  "lru_view c = map (\<lambda>a. entry_of (cc_heap c ! a)) (cc_lru c)"

definition abs_expired :: "int \<Rightarrow> int \<Rightarrow> abs_entry \<Rightarrow> bool" where
  "abs_expired ttl now e \<longleftrightarrow> 0 < ttl \<and> ttl \<le> now - snd (snd e)"

definition abs_prune :: "int \<Rightarrow> int \<Rightarrow> abs_entry list \<Rightarrow> abs_entry list" where
  "abs_prune ttl now xs = rev (dropWhile (abs_expired ttl now) (rev xs))"

definition abs_remove :: "string \<Rightarrow> abs_entry list \<Rightarrow> abs_entry list" where
  "abs_remove rid xs = filter (\<lambda>e. fst e \<noteq> rid) xs"

text \<open>\<open>ctx_of\<close> gives the context of a state, \<open>fresh\<close> is the address of a new one.\<close>

definition abs_acquire ::
  "int \<Rightarrow> nat \<Rightarrow> (nat \<Rightarrow> scan_context) \<Rightarrow> nat \<Rightarrow> string \<Rightarrow> scan_context \<Rightarrow> int \<Rightarrow> abs_entry list \<Rightarrow>
     nat \<times> abs_entry list" where
  "abs_acquire ttl cap ctx_of fresh rid cx now xs =
    (let xs = abs_prune ttl now xs in
     case map_of xs rid of
       Some (s, t) \<Rightarrow>
         if \<not> abs_expired ttl now (rid, s, t) \<and> ctx_of s = cx
         then (s, (rid, s, now) # abs_remove rid xs)
         else (fresh, take cap ((rid, fresh, now) # abs_remove rid xs))
     | None \<Rightarrow> (fresh, take cap ((rid, fresh, now) # xs)))"

lemma abs_expired_entry_of [simp]: "abs_expired ttl now (entry_of e) = entry_expired ttl e now"
  by (simp add: abs_expired_def entry_of_def entry_expired_def)

lemma abs_count [simp]: "lru_view (count_metric f c) = lru_view c"
  by (simp add: lru_view_def)

lemma linked_ids: "linked c \<Longrightarrow> distinct (map fst (lru_view c))"
proof -
  assume l: "linked c"
  have "inj_on (\<lambda>a. ce_requestID (cc_heap c ! a)) (set (cc_lru c))"
  proof (rule inj_onI)
    fix a b assume ab: "a \<in> set (cc_lru c)" "b \<in> set (cc_lru c)"
      "ce_requestID (cc_heap c ! a) = ce_requestID (cc_heap c ! b)"
    with linked_lruD(1) [OF l ab(1)] linked_lruD(1) [OF l ab(2)] l show "a = b"
      by (auto simp: linked_def dest: eq_key_imp_eq_value)
  qed
  then show ?thesis using l by (simp add: lru_view_def entry_of_def comp_def linked_def distinct_map)
qed

lemma remove_locked_abs:
  assumes "linked c" "a \<in> set (cc_lru c)"
  shows "lru_view (remove_locked a c) = abs_remove (ce_requestID (cc_heap c ! a)) (lru_view c)"
proof -
  have d: "distinct (cc_lru c)" using assms(1) by (simp add: linked_def)
  have inj: "ce_requestID (cc_heap c ! b) = ce_requestID (cc_heap c ! a) \<longleftrightarrow> b = a" if "b \<in> set (cc_lru c)" for b
    using linked_lruD(1) [OF assms(1) that] linked_lruD(1) [OF assms] assms(1)
    by (auto simp: linked_def dest: eq_key_imp_eq_value)
  have "lru_view (remove_locked a c) = map (\<lambda>b. entry_of (cc_heap (remove_locked a c) ! b)) (remove1 a (cc_lru c))"
    by (simp add: lru_view_def remove_locked_lru [OF assms])
  also have "\<dots> = map (\<lambda>b. entry_of (cc_heap c ! b)) (filter (\<lambda>b. b \<noteq> a) (cc_lru c))"
    by (auto simp: distinct_remove1_removeAll [OF d] removeAll_filter_not_eq remove_locked_heap
        intro!: map_cong filter_cong)
  also have "\<dots> = abs_remove (ce_requestID (cc_heap c ! a)) (lru_view c)"
    by (auto simp: lru_view_def abs_remove_def filter_map comp_def entry_of_def inj intro!: map_cong filter_cong)
  finally show ?thesis .
qed

text \<open>Removing the back of the list.\<close>

lemma remove_back:
  assumes "linked c" "rev (cc_lru c) = a # as"
  shows "linked (remove_locked a c)" "rev (cc_lru (remove_locked a c)) = as"
    "lru_view c = lru_view (remove_locked a c) @ [entry_of (cc_heap c ! a)]"
    "length (cc_entries c) = Suc (length (cc_entries (remove_locked a c)))"
proof -
  have lru: "cc_lru c = rev as @ [a]" using assms(2) by (metis rev_rev_ident rev.simps(2))
  then have a: "a \<in> set (cc_lru c)" "a \<notin> set as" using assms(1) by (auto simp: linked_def)
  show l: "linked (remove_locked a c)" by (rule remove_locked_linked [OF assms(1) a(1)])
  have lru': "cc_lru (remove_locked a c) = rev as"
    using a(2) by (simp add: remove_locked_lru [OF assms(1) a(1)] lru remove1_append)
  then show "rev (cc_lru (remove_locked a c)) = as" by simp
  have "cc_heap (remove_locked a c) ! x = cc_heap c ! x" if "x \<in> set as" for x
    using a(2) that by (metis remove_locked_heap)
  then show "lru_view c = lru_view (remove_locked a c) @ [entry_of (cc_heap c ! a)]"
    by (simp add: lru_view_def lru lru')
  show "length (cc_entries c) = Suc (length (cc_entries (remove_locked a c)))"
    using linked_length [OF assms(1)] linked_length [OF l] by (simp add: lru lru')
qed

lemma prune_loop_abs:
  assumes "linked c" "rev (cc_lru c) = as" "prune_loop now as c = (n, c')"
  shows "linked c' \<and> cc_ttl c' = cc_ttl c \<and> cc_max c' = cc_max c \<and> cc_states c' = cc_states c \<and>
    lru_view c' = abs_prune (cc_ttl c) now (lru_view c) \<and> length (lru_view c) = n + length (lru_view c')"
  using assms
proof (induction as arbitrary: c n)
  case Nil
  then show ?case by (simp add: lru_view_def abs_prune_def)
next
  case (Cons a as)
  note rb = remove_back [OF Cons.prems(1,2)]
  show ?case
  proof (cases "entry_expired (cc_ttl c) (cc_heap c ! a) now")
    case True
    with Cons.prems(3) obtain m where m: "prune_loop now as (remove_locked a c) = (m, c')" "n = Suc m"
      by (auto split: prod.split_asm)
    from Cons.IH [OF rb(1,2) m(1)] m(2) rb(3) True show ?thesis by (simp add: abs_prune_def)
  next
    case False
    with Cons.prems rb(3) show ?thesis by (simp add: abs_prune_def)
  qed
qed

lemma prune_and_count_abs:
  assumes "linked c" "prune_and_count now c = (n, c')"
  shows "linked c' \<and> cc_ttl c' = cc_ttl c \<and> cc_max c' = cc_max c \<and> cc_states c' = cc_states c \<and>
    lru_view c' = abs_prune (cc_ttl c) now (lru_view c) \<and> length (lru_view c) = n + length (lru_view c')"
proof -
  obtain m c1 where p: "prune_loop now (rev (cc_lru c)) c = (m, c1)" by (rule prod.exhaust)
  with assms(2) have "n = m" "lru_view c' = lru_view c1" "linked c' = linked c1" "cc_ttl c' = cc_ttl c1"
    "cc_max c' = cc_max c1" "cc_states c' = cc_states c1"
    by (auto simp: prune_and_count_def prune_expired_locked_def split: if_split_asm)
  with prune_loop_abs [OF assms(1) refl p] show ?thesis by simp
qed

lemma evict_loop_abs:
  assumes "linked c" "rev (cc_lru c) = as" "0 \<le> cc_max c"
  shows "linked (evict_loop as c) \<and> cc_ttl (evict_loop as c) = cc_ttl c \<and> cc_max (evict_loop as c) = cc_max c \<and>
    cc_states (evict_loop as c) = cc_states c \<and> lru_view (evict_loop as c) = take (nat (cc_max c)) (lru_view c) \<and>
    int (length (cc_entries (evict_loop as c))) \<le> cc_max c"
  using assms
proof (induction as arbitrary: c)
  case Nil
  then show ?case using linked_length [OF Nil(1)] by (simp add: lru_view_def)
next
  case (Cons a as)
  note rb = remove_back [OF Cons.prems(1,2)]
  have len: "length (cc_entries c) = length (lru_view c)" using linked_length [OF Cons.prems(1)] by (simp add: lru_view_def)
  show ?case
  proof (cases "cc_max c < int (length (cc_entries c))")
    case True
    then have "nat (cc_max c) \<le> length (lru_view (remove_locked a c))" using rb(3) len Cons.prems(3) by simp
    with Cons.IH [of "count_metric (\<lambda>m. m\<lparr>m_evictions := m_evictions m + 1\<rparr>) (remove_locked a c)"]
      rb Cons.prems(3) True show ?thesis by simp
  next
    case False
    with Cons.prems len show ?thesis by simp
  qed
qed


lemma abs_lookup_None:
  assumes "linked c" "map_of (cc_entries c) rid = None"
  shows "map_of (lru_view c) rid = None" "rid \<notin> fst ` set (lru_view c)"
proof -
  show "rid \<notin> fst ` set (lru_view c)"
    using assms(2) linked_lruD(1) [OF assms(1)] by (force simp: lru_view_def entry_of_def map_of_eq_None_iff)
  then show "map_of (lru_view c) rid = None" by (simp add: map_of_eq_None_iff)
qed

lemma abs_lookup_Some:
  assumes "linked c" "map_of (cc_entries c) rid = Some a"
  shows "map_of (lru_view c) rid = Some (ce_state (cc_heap c ! a), ce_lastAccess (cc_heap c ! a))"
proof (rule map_of_is_SomeI [OF linked_ids [OF assms(1)]])
  have "ce_requestID (cc_heap c ! a) = rid" "a \<in> set (cc_lru c)"
    using linked_map_ofD [OF assms] by (simp_all add: entry_ok_def)
  then show "(rid, ce_state (cc_heap c ! a), ce_lastAccess (cc_heap c ! a)) \<in> set (lru_view c)"
    by (force simp: lru_view_def entry_of_def)
qed

text \<open>A cache with one more entry at the front.\<close>

lemma update_new_key: "k \<notin> fst ` set xs \<Longrightarrow> AList.update k v xs = xs @ [(k, v)]"
  by (induction xs) auto

lemma push_front_linked:
  fixes c :: "'r cache" and now :: int and cx :: scan_context
  assumes l: "linked c" and rid: "rid \<noteq> []" "map_of (cc_entries c) rid = None"
  shows "linked (push_front rid (length (cc_states c)) now (snd (alloc_state cx c)))"
    "lru_view (push_front rid (length (cc_states c)) now (snd (alloc_state cx c))) = (rid, length (cc_states c), now) # lru_view c"
proof -
  define a where "a = length (cc_heap c)"
  define st where "st = length (cc_states c)"
  let ?c1 = "push_front rid (length (cc_states c)) now (snd (alloc_state cx c))"
  have old: "b < a \<and> ce_state (cc_heap c ! b) < st" if "b \<in> set (cc_lru c)" for b
    using linked_lruD(2) [OF l that] by (simp add: entry_ok_def a_def st_def)
  have old_entry: "entry_ok c (fst p) (snd p)" if "p \<in> set (cc_entries c)" for p
    using l that by (simp add: linked_def)
  have new: "rid \<notin> fst ` set (cc_entries c)" using rid(2) by (simp add: map_of_eq_None_iff)
  have ent: "cc_entries ?c1 = cc_entries c @ [(rid, a)]"
    using new by (simp add: alloc_state_def push_front_def Let_def a_def update_new_key)
  have lru: "cc_lru ?c1 = a # cc_lru c" by (simp add: alloc_state_def push_front_def Let_def a_def)
  have heap: "cc_heap ?c1 ! b = cc_heap c ! b" if "b < a" for b using that by (simp add: alloc_state_def push_front_def Let_def a_def nth_append)
  have heap_a: "cc_heap ?c1 ! a = \<lparr>ce_requestID = rid, ce_state = st, ce_lastAccess = now, ce_linked = True\<rparr>"
    by (simp add: alloc_state_def push_front_def Let_def a_def st_def)
  have lens: "length (cc_heap ?c1) = Suc a" "length (cc_states ?c1) = Suc st" by (simp_all add: alloc_state_def push_front_def Let_def a_def st_def)
  have "entry_ok ?c1 (fst p) (snd p)" if "p \<in> set (cc_entries ?c1)" for p
  proof (cases "p = (rid, a)")
    case True
    then show ?thesis using rid(1) by (simp add: entry_ok_def heap_a lens)
  next
    case False
    with that ent have "p \<in> set (cc_entries c)" by auto
    from old_entry [OF this] show ?thesis by (auto simp: entry_ok_def heap lens a_def st_def)
  qed
  moreover have "inj_on (\<lambda>b. ce_state (cc_heap ?c1 ! b)) (set (cc_lru ?c1))"
  proof -
    have "inj_on (\<lambda>b. ce_state (cc_heap ?c1 ! b)) (set (cc_lru c))"
      using l old by (auto simp: linked_def inj_on_def heap)
    moreover have "ce_state (cc_heap ?c1 ! b) \<noteq> st" if "b \<in> set (cc_lru c)" for b
      using old [OF that] heap by auto
    ultimately show ?thesis using old by (auto simp: lru heap_a inj_on_def)
  qed
  moreover have "a \<notin> set (cc_lru c)" using old by blast
  ultimately show "linked ?c1" using l new by (auto simp: linked_def ent lru)
  show "lru_view ?c1 = (rid, length (cc_states c), now) # lru_view c"
    using old by (simp add: lru_view_def lru heap_a heap entry_of_def) (simp add: st_def)
qed

lemma insert_new_abs:
  assumes "linked c" "0 \<le> cc_max c" "rid \<noteq> []" "map_of (cc_entries c) rid = None"
    and r: "insert_new rid cx now c = (s, c')"
  shows "s = length (cc_states c)" "cc_states c' = cc_states c @ [new_scan_state cx True]" "linked c'"
    "lru_view c' = take (nat (cc_max c)) ((rid, s, now) # lru_view c)" "int (length (cc_entries c')) \<le> cc_max c"
    "cc_ttl c' = cc_ttl c" "cc_max c' = cc_max c"
proof -
  let ?c1 = "count_metric (\<lambda>m. m\<lparr>m_created := m_created m + 1\<rparr>)
    (push_front rid (length (cc_states c)) now (snd (alloc_state cx c)))"
  note push = push_front_linked [OF assms(1,3,4), of now cx]
  have c': "s = length (cc_states c)" "c' = evict_loop (rev (cc_lru ?c1)) ?c1"
    using r by (auto simp add: insert_new_def alloc_state_def Let_def)
  have fields: "cc_max ?c1 = cc_max c" "cc_ttl ?c1 = cc_ttl c"
    "cc_states ?c1 = cc_states c @ [new_scan_state cx True]"
    by (simp_all add: alloc_state_def push_front_def Let_def)
  have "linked ?c1" "0 \<le> cc_max ?c1" using push(1) assms(2) fields by simp_all
  from evict_loop_abs [OF this(1) refl this(2)] push(2) c' fields
  show "s = length (cc_states c)" "cc_states c' = cc_states c @ [new_scan_state cx True]" "linked c'"
    "lru_view c' = take (nat (cc_max c)) ((rid, s, now) # lru_view c)" "int (length (cc_entries c')) \<le> cc_max c"
    "cc_ttl c' = cc_ttl c" "cc_max c' = cc_max c" by simp_all
qed


section \<open>The cache refines the abstract cache\<close>

definition context_of :: "'r cache \<Rightarrow> nat \<Rightarrow> scan_context" where
  "context_of c s = ss_context (cc_states c ! s)"

lemma remove_locked_lookup:
  assumes "linked c" "map_of (cc_entries c) rid = Some a"
  shows "map_of (cc_entries (remove_locked a c)) rid = None" "lru_view (remove_locked a c) = abs_remove rid (lru_view c)"
    "linked (remove_locked a c)"
proof -
  note a = linked_map_ofD [OF assms]
  have id: "ce_requestID (cc_heap c ! a) = rid" using a(2) by (simp add: entry_ok_def)
  show "map_of (cc_entries (remove_locked a c)) rid = None"
    by (simp add: remove_locked_entries id AList.delete_conv')
  show "lru_view (remove_locked a c) = abs_remove rid (lru_view c)" using remove_locked_abs [OF assms(1) a(1)] id by simp
  show "linked (remove_locked a c)" by (rule remove_locked_linked [OF assms(1) a(1)])
qed

text \<open>Moving an entry to the front.\<close>

lemma touch_front:
  assumes l: "linked c" and a: "map_of (cc_entries c) rid = Some a"
  shows "linked (move_to_front a now c)" "lru_view (move_to_front a now c) = (rid, ce_state (cc_heap c ! a), now) # abs_remove rid (lru_view c)"
proof -
  note a1 = linked_map_ofD [OF l a]
  have d: "distinct (cc_lru c)" using l by (simp add: linked_def)
  have len: "a < length (cc_heap c)" and id: "ce_requestID (cc_heap c ! a) = rid"
    using a1(2) by (simp_all add: entry_ok_def)
  have heap: "cc_heap (move_to_front a now c) ! b = (if b = a then (cc_heap c ! a)\<lparr>ce_lastAccess := now\<rparr> else cc_heap c ! b)" for b
    using len by (simp add: move_to_front_def)
  have set_lru: "set (cc_lru (move_to_front a now c)) = set (cc_lru c)" using a1(1) d by (auto simp: move_to_front_def)
  have ok: "entry_ok (move_to_front a now c) k b \<longleftrightarrow> entry_ok c k b" for k b by (simp add: entry_ok_def heap) (simp add: move_to_front_def)
  have "inj_on (\<lambda>b. ce_state (cc_heap (move_to_front a now c) ! b)) (set (cc_lru c)) =
      inj_on (\<lambda>b. ce_state (cc_heap c ! b)) (set (cc_lru c))"
    by (rule inj_on_cong) (simp add: heap)
  moreover have "distinct (cc_lru (move_to_front a now c))" using d by (simp add: move_to_front_def)
  moreover have "cc_entries (move_to_front a now c) = cc_entries c" by (simp add: move_to_front_def)
  ultimately show "linked (move_to_front a now c)" using l unfolding linked_def set_lru ok by (elim conjE) simp
  have "lru_view (move_to_front a now c) = entry_of (cc_heap (move_to_front a now c) ! a) # map (\<lambda>b. entry_of (cc_heap (move_to_front a now c) ! b)) (remove1 a (cc_lru c))"
    by (simp add: lru_view_def move_to_front_def)
  also have "map (\<lambda>b. entry_of (cc_heap (move_to_front a now c) ! b)) (remove1 a (cc_lru c)) =
      map (\<lambda>b. entry_of (cc_heap (remove_locked a c) ! b)) (cc_lru (remove_locked a c))"
    using d by (auto simp: remove_locked_lru [OF l a1(1)] heap remove_locked_heap intro!: map_cong)
  also have "\<dots> = abs_remove rid (lru_view c)"
    using remove_locked_lookup(2) [OF l a] by (simp add: lru_view_def)
  finally show "lru_view (move_to_front a now c) = (rid, ce_state (cc_heap c ! a), now) # abs_remove rid (lru_view c)"
    by (simp add: heap entry_of_def id)
qed

lemma abs_remove_absent: "rid \<notin> fst ` set xs \<Longrightarrow> abs_remove rid xs = xs"
  by (force simp: abs_remove_def filter_id_conv)

lemma abs_prune_append: "\<exists>ys. xs = abs_prune ttl now xs @ ys"
  by (metis abs_prune_def rev_append rev_rev_ident takeWhile_dropWhile_id)

lemma abs_prune_take: "abs_prune ttl now xs = take (length (abs_prune ttl now xs)) xs"
  using abs_prune_append [of xs ttl now] by (metis append_eq_conv_conj)

lemma acquire_locked_abs:
  assumes ok: "cache_ok c" and rid: "rid \<noteq> []" and r: "acquire_locked rid cx now c = (s, c')"
  shows "(s, lru_view c') = abs_acquire (cc_ttl c) (nat (cc_max c)) (context_of c) (length (cc_states c)) rid cx now (lru_view c)"
    "cache_ok c'" "cc_ttl c' = cc_ttl c" "cc_max c' = cc_max c"
    "cc_states c' = cc_states c \<and> context_of c s = cx \<and> (\<exists>t. (rid, s, t) \<in> set (lru_view c)) \<or>
      s = length (cc_states c) \<and> cc_states c' = cc_states c @ [new_scan_state cx True]"
proof -
  obtain n c1 where p: "prune_and_count now c = (n, c1)" by (rule prod.exhaust)
  have l: "linked c" and b: "0 \<le> cc_ttl c" "0 \<le> cc_max c" "int (length (cc_entries c)) \<le> cc_max c"
    using ok by (simp_all add: cache_ok_def)
  have l1: "linked c1" and f1: "cc_ttl c1 = cc_ttl c" "cc_max c1 = cc_max c" "cc_states c1 = cc_states c"
    "lru_view c1 = abs_prune (cc_ttl c) now (lru_view c)" "length (lru_view c) = n + length (lru_view c1)"
    using prune_and_count_abs [OF l p] by simp_all
  have len1: "int (length (cc_entries c1)) \<le> cc_max c"
    using f1(5) b linked_length [OF l] linked_length [OF l1] by (simp add: lru_view_def)
  let ?spec = "abs_acquire (cc_ttl c) (nat (cc_max c)) (context_of c) (length (cc_states c)) rid cx now (lru_view c)"
  have "(s, lru_view c') = ?spec \<and> cache_ok c' \<and> cc_ttl c' = cc_ttl c \<and> cc_max c' = cc_max c \<and>
    (cc_states c' = cc_states c \<and> context_of c s = cx \<and> (\<exists>t. (rid, s, t) \<in> set (lru_view c)) \<or>
      s = length (cc_states c) \<and> cc_states c' = cc_states c @ [new_scan_state cx True])"
  proof (cases "map_of (cc_entries c1) rid")
    case None
    with r p have i: "insert_new rid cx now c1 = (s, c')" by (simp add: acquire_locked_def)
    from insert_new_abs [OF l1 _ rid None i] abs_lookup_None [OF l1 None] b f1
    show ?thesis by (simp add: abs_acquire_def cache_ok_def Let_def)
  next
    case (Some a)
    let ?e = "cc_heap c1 ! a"
    note look = abs_lookup_Some [OF l1 Some]
    have exp: "abs_expired (cc_ttl c) now (rid, ce_state ?e, ce_lastAccess ?e) = entry_expired (cc_ttl c1) ?e now"
      by (simp add: abs_expired_def entry_expired_def f1)
    show ?thesis
    proof (cases "\<not> entry_expired (cc_ttl c1) ?e now \<and> ss_context (cc_states c1 ! ce_state ?e) = cx")
      case True
      let ?c2 = "move_to_front a now c1"
      have f2: "cc_entries ?c2 = cc_entries c1" "cc_ttl ?c2 = cc_ttl c1" "cc_max ?c2 = cc_max c1"
        "cc_states ?c2 = cc_states c1" by (simp_all add: move_to_front_def)
      have c': "s = ce_state ?e" "c' = count_metric (\<lambda>m. m\<lparr>m_reused := m_reused m + 1\<rparr>) ?c2"
        using r True by (simp_all add: acquire_locked_def p Some Let_def)
      have "(rid, ce_state ?e, ce_lastAccess ?e) \<in> set (lru_view c)"
        using map_of_SomeD [OF look] f1(4) by (metis abs_prune_append Un_iff set_append)
      moreover have "context_of c (ce_state ?e) = cx" using True f1(3) by (simp add: context_of_def)
      moreover have "cache_ok c'" using touch_front(1) [OF l1 Some, of now] b f1 len1 by (simp add: c' cache_ok_def f2)
      ultimately show ?thesis using touch_front(2) [OF l1 Some, of now] c' f1 f2 look exp True
        by (auto simp: abs_acquire_def Let_def context_of_def)
    next
      case False
      then obtain f where i: "insert_new rid cx now (count_metric f (remove_locked a c1)) = (s, c')"
        using r by (auto simp: acquire_locked_def p Some Let_def split: if_split_asm)
      note rm = remove_locked_lookup [OF l1 Some]
      have "linked (count_metric f (remove_locked a c1))" "0 \<le> cc_max (count_metric f (remove_locked a c1))"
        "map_of (cc_entries (count_metric f (remove_locked a c1))) rid = None"
        using rm b f1 by simp_all
      from insert_new_abs [OF this(1,2) rid this(3) i] rm(2) look exp False b f1 show ?thesis
        by (auto simp: abs_acquire_def cache_ok_def Let_def context_of_def)
    qed
  qed
  then show "(s, lru_view c') = ?spec" "cache_ok c'" "cc_ttl c' = cc_ttl c" "cc_max c' = cc_max c"
    "cc_states c' = cc_states c \<and> context_of c s = cx \<and> (\<exists>t. (rid, s, t) \<in> set (lru_view c)) \<or>
      s = length (cc_states c) \<and> cc_states c' = cc_states c @ [new_scan_state cx True]"
    by blast+
qed


section \<open>Runs\<close>

text \<open>A call of one of the methods, by any request; a run is any sequence of calls.\<close>

datatype 'r cache_op =
    OpAcquire string scan_context int
  | OpComplete string
  | OpPrune int
  | OpClear
  | OpSeen nat string
  | OpRecord nat string "string option"
  | OpStore nat "'r option"
  | OpGetOrCreate nat "'r option option"

fun exec_op :: "(string \<Rightarrow> string) \<Rightarrow> 'r cache_op \<Rightarrow> 'r cache \<Rightarrow> 'r cache" where
  "exec_op sha (OpAcquire rid cx now) c = snd (Acquire rid cx now c)"
| "exec_op sha (OpComplete rid) c = snd (Complete rid c)"
| "exec_op sha (OpPrune now) c = snd (Prune now c)"
| "exec_op sha OpClear c = snd (Clear c)"
| "exec_op sha (OpSeen s body) c = snd (Seen sha s body c)"
| "exec_op sha (OpRecord s input out) c = Record sha s input out c"
| "exec_op sha (OpStore s r) c = StoreRendererState s r c"
| "exec_op sha (OpGetOrCreate s factory) c = snd (GetOrCreateRendererState s factory c)"

definition exec_ops :: "(string \<Rightarrow> string) \<Rightarrow> 'r cache_op list \<Rightarrow> 'r cache \<Rightarrow> 'r cache" where
  "exec_ops sha ops c = foldl (\<lambda>c op. exec_op sha op c) c ops"

lemma exec_ops_simps [simp]:
  "exec_ops sha [] c = c" "exec_ops sha (op # ops) c = exec_ops sha ops (exec_op sha op c)"
  by (simp_all add: exec_ops_def)

text \<open>What the methods of a state leave alone.\<close>

definition same_entries :: "'r cache \<Rightarrow> 'r cache \<Rightarrow> bool" where
  "same_entries c c' \<longleftrightarrow> cc_entries c' = cc_entries c \<and> cc_lru c' = cc_lru c \<and> cc_heap c' = cc_heap c \<and>
     cc_ttl c' = cc_ttl c \<and> cc_max c' = cc_max c \<and> length (cc_states c') = length (cc_states c)"

lemma same_entries_ok: "same_entries c c' \<Longrightarrow> cache_ok c' = cache_ok c \<and> lru_view c' = lru_view c"
  by (simp add: same_entries_def cache_ok_def linked_def entry_ok_def lru_view_def)

lemma update_state_same: "same_entries c (update_state s f c)"
  by (simp add: same_entries_def update_state_def)

lemma state_ops_same:
  "same_entries c (snd (Seen sha s body c))" "same_entries c (Record sha s input out c)"
  "same_entries c (StoreRendererState s r c)" "same_entries c (snd (GetOrCreateRendererState s factory c))"
proof -
  show "same_entries c (snd (Seen sha s body c))" by (simp add: Seen_def same_entries_def Let_def)
  show "same_entries c (Record sha s input out c)"
    by (simp add: Record_def same_entries_def update_state_def Let_def)
  show "same_entries c (StoreRendererState s r c)" by (simp add: StoreRendererState_def update_state_same)
  show "same_entries c (snd (GetOrCreateRendererState s factory c))"
    by (auto simp: GetOrCreateRendererState_def StoreRendererState_def update_state_same Let_def split: option.split)
      (simp_all add: same_entries_def)
qed

lemmas state_ops_ok = state_ops_same [THEN same_entries_ok, THEN conjunct1]

lemma new_cache_ok: "cache_ok (new_request_scan_cache ttl cap)"
  by (simp add: cache_ok_def linked_def new_request_scan_cache_def)

lemma linked_alloc: "linked c \<Longrightarrow> linked (snd (alloc_state cx c)) \<and> lru_view (snd (alloc_state cx c)) = lru_view c"
  by (auto simp: linked_def entry_ok_def alloc_state_def lru_view_def)

lemma Acquire_cases:
  assumes "Acquire rid cx now c = (s, c')"
  obtains (ephemeral) "rid = [] \<or> cc_max c \<le> 0" "s = length (cc_states c)"
      "same_entries c (c'\<lparr>cc_states := cc_states c\<rparr>)" "cc_states c' = cc_states c @ [new_scan_state cx True]"
  | (locked) f where "rid \<noteq> []" "0 < cc_max c" "acquire_locked rid cx now (count_metric f c) = (s, c')"
proof (cases "rid = [] \<or> cc_max c \<le> 0")
  case True
  with assms ephemeral show thesis
    by (auto simp: Acquire_def Let_def alloc_state_def same_entries_def count_metric_def)
next
  case False
  with assms locked show thesis by (auto simp: Acquire_def Let_def)
qed

lemma Acquire_ok:
  assumes "cache_ok c" "Acquire rid cx now c = (s, c')"
  shows "cache_ok c'"
  using assms(2)
proof (cases rule: Acquire_cases)
  case ephemeral
  then show ?thesis using assms(1)
    by (auto simp: same_entries_def cache_ok_def linked_def entry_ok_def)
next
  case (locked f)
  then show ?thesis using acquire_locked_abs(2) [OF _ locked(1,3)] assms(1) by simp
qed

lemma Complete_ok:
  assumes "cache_ok c" "Complete rid c = (b, c')"
  shows "cache_ok c' \<and> lru_view c' = abs_remove rid (lru_view c) \<and> b = (rid \<in> fst ` set (lru_view c)) \<and> cc_states c' = cc_states c"
proof (cases "rid \<noteq> [] \<and> (\<exists>a. map_of (cc_entries c) rid = Some a)")
  case True
  then obtain a where rid: "rid \<noteq> []" and a: "map_of (cc_entries c) rid = Some a" by blast
  have l: "linked c" using assms(1) by (simp add: cache_ok_def)
  note rm = remove_locked_lookup [OF l a]
  have c': "b = True" "c' = count_metric (\<lambda>m. m\<lparr>m_completions := m_completions m + 1\<rparr>) (remove_locked a c)"
    using assms(2) rid a by (simp_all add: Complete_def)
  have "length (lru_view (remove_locked a c)) \<le> length (lru_view c)" by (simp add: rm(2) abs_remove_def)
  then have "length (cc_entries (remove_locked a c)) \<le> length (cc_entries c)"
    using linked_length [OF l] linked_length [OF rm(3)] by (simp add: lru_view_def)
  moreover have "rid \<in> fst ` set (lru_view c)" using abs_lookup_Some [OF l a] by (force dest: map_of_SomeD)
  ultimately show ?thesis using assms(1) rm c' by (simp add: cache_ok_def)
next
  case False
  have l: "linked c" using assms(1) by (simp add: cache_ok_def)
  have "rid \<notin> fst ` set (lru_view c)"
  proof (cases "rid = []")
    case True
    then show ?thesis using linked_lruD(2) [OF l] by (auto simp: lru_view_def entry_of_def entry_ok_def) metis
  next
    case f: False
    with False have "map_of (cc_entries c) rid = None" by auto
    then show ?thesis by (rule abs_lookup_None(2) [OF l])
  qed
  moreover from False have "b = False" "c' = c" using assms(2) by (auto simp: Complete_def split: option.split_asm)
  ultimately show ?thesis using assms(1) by (simp add: abs_remove_absent)
qed

lemma Prune_ok:
  assumes "cache_ok c" "Prune now c = (n, c')"
  shows "cache_ok c' \<and> lru_view c' = abs_prune (cc_ttl c) now (lru_view c) \<and> length (lru_view c) = n + length (lru_view c') \<and>
    cc_states c' = cc_states c"
proof (cases "cc_ttl c \<le> 0")
  case True
  have "\<not> abs_expired (cc_ttl c) now e" for e using True by (simp add: abs_expired_def)
  then have "abs_prune (cc_ttl c) now xs = xs" for xs by (cases xs rule: rev_cases) (simp_all add: abs_prune_def)
  with True assms show ?thesis by (simp add: Prune_def)
next
  case False
  have l: "linked c" using assms(1) by (simp add: cache_ok_def)
  from False assms(2) have p: "prune_and_count now c = (n, c')" by (simp add: Prune_def)
  have "linked c'" using prune_and_count_abs [OF l p] by simp
  then have "length (cc_entries c') = length (lru_view c')" "length (cc_entries c) = length (lru_view c)"
    using linked_length l by (simp_all add: lru_view_def)
  with prune_and_count_abs [OF l p] assms(1) show ?thesis by (simp add: cache_ok_def)
qed

lemma exec_op_ok: "cache_ok c \<Longrightarrow> cache_ok (exec_op sha op c)"
proof (cases op)
  case (OpAcquire rid cx now)
  assume "cache_ok c"
  then show ?thesis using Acquire_ok [of c rid cx now] OpAcquire by (cases "Acquire rid cx now c") simp
next
  case (OpComplete rid)
  assume "cache_ok c"
  then show ?thesis using Complete_ok [of c rid] OpComplete by (cases "Complete rid c") simp
next
  case (OpPrune now)
  assume "cache_ok c"
  then show ?thesis using Prune_ok [of c now] OpPrune by (cases "Prune now c") simp
next
  case OpClear
  assume "cache_ok c"
  then show ?thesis using OpClear by (simp add: Clear_def cache_ok_def linked_def)
qed (simp_all add: state_ops_ok)

lemma exec_ops_ok: "cache_ok c \<Longrightarrow> cache_ok (exec_ops sha ops c)"
  by (induction ops arbitrary: c) (simp_all add: exec_op_ok)


section \<open>The clock\<close>

text \<open>The entries are ordered by their last access, and none was accessed after \<open>t\<close>.\<close>

definition clocked :: "int \<Rightarrow> abs_entry list \<Rightarrow> bool" where
  "clocked t xs \<longleftrightarrow> sorted_wrt (\<lambda>e e'. snd (snd e') \<le> snd (snd e)) xs \<and> (\<forall>e \<in> set xs. snd (snd e) \<le> t)"

lemma clocked_mono: "clocked t xs \<Longrightarrow> t \<le> t' \<Longrightarrow> clocked t' xs"
  by (force simp: clocked_def)

lemma clocked_filter: "clocked t xs \<Longrightarrow> clocked t (filter P xs)"
  by (simp add: clocked_def sorted_wrt_filter)

lemma clocked_take: "clocked t xs \<Longrightarrow> clocked t (take n xs)"
  by (auto simp: clocked_def sorted_wrt_take dest: in_set_takeD)

lemma clocked_prune: "clocked t xs \<Longrightarrow> clocked t (abs_prune ttl now xs)"
  using clocked_take abs_prune_take by metis

lemma clocked_Cons: "clocked t xs \<Longrightarrow> t \<le> now \<Longrightarrow> clocked now ((rid, s, now) # xs)"
  by (force simp: clocked_def)

text \<open>Under a clock that does not run backwards, the expired entries are a suffix.\<close>

lemma clocked_prune_all:
  assumes "clocked t xs" "e \<in> set (abs_prune ttl now xs)"
  shows "\<not> abs_expired ttl now e"
proof
  assume exp: "abs_expired ttl now e"
  let ?ys = "abs_prune ttl now xs"
  have ne: "?ys \<noteq> []" using assms(2) by auto
  then have "dropWhile (abs_expired ttl now) (rev xs) \<noteq> []" by (simp add: abs_prune_def)
  then have "\<not> abs_expired ttl now (hd (dropWhile (abs_expired ttl now) (rev xs)))" by (rule hd_dropWhile)
  then have last: "\<not> abs_expired ttl now (last ?ys)" by (simp add: abs_prune_def last_rev)
  have "e = last ?ys \<or> e \<in> set (butlast ?ys)"
    using assms(2) ne by (metis append_butlast_last_id rotate1.simps(2) set_ConsD set_rotate1)
  moreover have "sorted_wrt (\<lambda>e e'. snd (snd e') \<le> snd (snd e)) (butlast ?ys @ [last ?ys])"
    using clocked_prune [OF assms(1), of ttl now] ne by (simp add: clocked_def)
  ultimately have "snd (snd (last ?ys)) \<le> snd (snd e)" by (auto simp: sorted_wrt_append)
  then show False using exp last by (auto simp: abs_expired_def)
qed

fun op_clock :: "'r cache_op \<Rightarrow> int option" where
  "op_clock (OpAcquire _ _ now) = Some now"
| "op_clock (OpPrune now) = Some now"
| "op_clock _ = None"

lemma Acquire_clocked:
  assumes ok: "cache_ok c" and c: "clocked t (lru_view c)" and t: "t \<le> now"
    and r: "Acquire rid cx now c = (s, c')"
  shows "clocked now (lru_view c')"
  using r
proof (cases rule: Acquire_cases)
  case ephemeral
  then have "lru_view c' = lru_view c" by (simp add: same_entries_def lru_view_def)
  then show ?thesis using clocked_mono [OF c t] by simp
next
  case (locked f)
  have "clocked now (snd (s, lru_view c'))"
    unfolding acquire_locked_abs(1) [OF _ locked(1,3), simplified, OF ok]
    using c t by (auto simp: abs_acquire_def abs_remove_def Let_def split: option.split
        intro!: clocked_take clocked_Cons [of t] clocked_filter clocked_prune)
  then show ?thesis by simp
qed

lemma exec_op_clocked:
  assumes ok: "cache_ok c" and c: "clocked t (lru_view c)"
    and clock: "\<And>now. op_clock op = Some now \<Longrightarrow> t \<le> now \<and> now \<le> t'" and t': "t \<le> t'"
  shows "clocked t' (lru_view (exec_op sha op c))"
proof (cases op)
  case (OpAcquire rid cx now)
  then have "t \<le> now" "now \<le> t'" using clock [of now] by simp_all
  moreover obtain s c' where "Acquire rid cx now c = (s, c')" by (rule prod.exhaust)
  ultimately show ?thesis using Acquire_clocked [OF ok c] OpAcquire clocked_mono by fastforce
next
  case (OpComplete rid)
  obtain b c' where "Complete rid c = (b, c')" by (rule prod.exhaust)
  with Complete_ok [OF ok] OpComplete c show ?thesis
    by (auto simp: abs_remove_def intro: clocked_mono [OF clocked_filter t'])
next
  case (OpPrune now)
  obtain n c' where "Prune now c = (n, c')" by (rule prod.exhaust)
  with Prune_ok [OF ok] OpPrune c show ?thesis by (auto intro: clocked_mono [OF clocked_prune t'])
next
  case OpClear
  then show ?thesis by (simp add: Clear_def lru_view_def clocked_def)
qed (simp_all add: state_ops_same [THEN same_entries_ok, THEN conjunct2] clocked_mono [OF c t'])

text \<open>A run whose clock readings, in the order of the calls, do not run backwards.\<close>

fun clock_ordered :: "int \<Rightarrow> 'r cache_op list \<Rightarrow> int \<Rightarrow> bool" where
  "clock_ordered t [] t' \<longleftrightarrow> t \<le> t'"
| "clock_ordered t (op # ops) t' \<longleftrightarrow>
     (case op_clock op of None \<Rightarrow> clock_ordered t ops t' | Some now \<Rightarrow> t \<le> now \<and> clock_ordered now ops t')"

lemma exec_ops_clocked:
  "cache_ok c \<Longrightarrow> clocked t (lru_view c) \<Longrightarrow> clock_ordered t ops t' \<Longrightarrow> clocked t' (lru_view (exec_ops sha ops c))"
proof (induction ops arbitrary: c t)
  case Nil
  then show ?case using clocked_mono by simp
next
  case (Cons op ops)
  show ?case
  proof (cases "op_clock op")
    case None
    then have "clocked t (lru_view (exec_op sha op c))"
      by (intro exec_op_clocked [OF Cons.prems(1,2)]) simp_all
    with None Cons.prems(3) Cons.IH [OF exec_op_ok [OF Cons.prems(1)]] show ?thesis by simp
  next
    case (Some now)
    with Cons.prems(3) have "t \<le> now" "clock_ordered now ops t'" by simp_all
    with Some have "clocked now (lru_view (exec_op sha op c))"
      by (intro exec_op_clocked [OF Cons.prems(1,2)]) simp_all
    with \<open>clock_ordered now ops t'\<close> Cons.IH [OF exec_op_ok [OF Cons.prems(1)]] show ?thesis by simp
  qed
qed


section \<open>Properties\<close>

definition empty_sx :: scan_context where
  "empty_sx = \<lparr>sx_Revision = 0, sx_SourceFormat = [], sx_Model = []\<rparr>"

text \<open>
  C33: After any sequence of calls on a new cache, the map and the LRU list hold the same entries,
  each under its own id, linked, with a state of its own that no other entry shares; and there are
  never more entries than the configured maximum, none when the maximum is zero or negative.
\<close>

theorem cache_invariant:
  "cache_ok (exec_ops sha ops (new_request_scan_cache ttl cap)) \<and>
   int (Len (exec_ops sha ops (new_request_scan_cache ttl cap))) \<le> max 0 cap"
proof -
  let ?c = "exec_ops sha ops (new_request_scan_cache ttl cap)"
  have ok: "cache_ok ?c" by (rule exec_ops_ok [OF new_cache_ok])
  have max: "cc_max (exec_op sha op c) = cc_max c" if "cache_ok c" for op and c :: "'a cache"
  proof (cases op)
    case (OpAcquire rid cx now)
    obtain s c' where r: "Acquire rid cx now c = (s, c')" by (rule prod.exhaust)
    then have "cc_max c' = cc_max c"
    proof (cases rule: Acquire_cases)
      case (locked f)
      then show ?thesis using acquire_locked_abs(4) [OF _ locked(1,3)] that by simp
    qed (simp add: same_entries_def)
    with r OpAcquire show ?thesis by simp
  next
    case (OpPrune now)
    obtain n c' where p: "prune_and_count now c = (n, c')" by (rule prod.exhaust)
    with prune_and_count_abs [OF _ p] that OpPrune show ?thesis by (simp add: Prune_def cache_ok_def)
  next
    case (OpComplete rid)
    then show ?thesis by (simp add: Complete_def split: option.split)
  next
    case OpClear
    then show ?thesis by (simp add: Clear_def)
  qed (simp_all add: state_ops_same [unfolded same_entries_def])
  have "cc_max (exec_ops sha ops c) = cc_max c" if "cache_ok c" for c :: "'a cache"
    using that by (induction ops arbitrary: c) (simp_all add: max exec_op_ok)
  from this [OF new_cache_ok] have "cc_max ?c = cc_max (new_request_scan_cache ttl cap :: 'a cache)" .
  also have "\<dots> = max 0 cap" by (simp add: new_request_scan_cache_def)
  finally show ?thesis using ok by (simp add: Len_def cache_ok_def)
qed

text \<open>
  C32: \<open>Acquire\<close> on a retained id is an LRU cache with a sliding time to live: it drops the expired
  entries behind the last live one, then either hands out the state that the id has under the same
  context, with its access time renewed and the entry in front, or puts a fresh state in front and
  cuts the list at the capacity.
\<close>

theorem acquire_refines_lru:
  "cache_ok c \<Longrightarrow> rid \<noteq> [] \<Longrightarrow> 0 < cc_max c \<Longrightarrow> Acquire rid cx now c = (s, c') \<Longrightarrow>
   (s, lru_view c') = abs_acquire (cc_ttl c) (nat (cc_max c)) (context_of c) (length (cc_states c)) rid cx now
     (lru_view c)"
proof -
  assume ok: "cache_ok c" and rid: "rid \<noteq> []" "0 < cc_max c" and r: "Acquire rid cx now c = (s, c')"
  from r show ?thesis
  proof (cases rule: Acquire_cases)
    case (locked f)
    from acquire_locked_abs(1) [OF _ rid(1) locked(3)] ok show ?thesis by (simp add: context_of_def [abs_def])
  qed (use rid in simp)
qed

definition sample_cache :: "nat cache" where
  "sample_cache = exec_ops (\<lambda>b. b) [OpAcquire ''a'' empty_sx 0, OpAcquire ''b'' empty_sx 4, OpRecord 0 ''x'' None]
     (new_request_scan_cache 10 2)"

lemma sample_cache_ok: "cache_ok sample_cache"
  unfolding sample_cache_def by (rule exec_ops_ok [OF new_cache_ok])

lemma acquire_refines_lru_witness:
  "\<exists>s c'. Acquire ''a'' empty_sx 9 sample_cache = (s, c') \<and> lru_view c' = [(''a'', 0, 9), (''b'', 1, 4)] \<and>
     (s, lru_view c') = abs_acquire (cc_ttl sample_cache) (nat (cc_max sample_cache)) (context_of sample_cache)
       (length (cc_states sample_cache)) ''a'' empty_sx 9 (lru_view sample_cache)"
proof -
  obtain s c' where r: "Acquire ''a'' empty_sx 9 sample_cache = (s, c')" by (rule prod.exhaust)
  have "lru_view (snd (Acquire ''a'' empty_sx 9 sample_cache)) = [(''a'', 0, 9), (''b'', 1, 4)]" by code_simp
  moreover have "0 < cc_max sample_cache" by code_simp
  moreover have "(''a'' :: string) \<noteq> []" by simp
  ultimately show ?thesis using acquire_refines_lru [OF sample_cache_ok _ _ r] r by (intro exI [of _ s] exI [of _ c']) simp
qed

lemma linked_states_inj:
  assumes "linked c" "e \<in> set (lru_view c)" "e' \<in> set (lru_view c)" "fst (snd e) = fst (snd e')"
  shows "e = e'"
proof -
  obtain a b where ab: "a \<in> set (cc_lru c)" "b \<in> set (cc_lru c)"
    "e = entry_of (cc_heap c ! a)" "e' = entry_of (cc_heap c ! b)"
    using assms(2,3) by (auto simp: lru_view_def)
  have "inj_on (\<lambda>a. ce_state (cc_heap c ! a)) (set (cc_lru c))" using assms(1) unfolding linked_def by blast
  from inj_onD [OF this _ ab(1,2)] ab(3,4) assms(4) show ?thesis by (simp add: entry_of_def)
qed

lemma acquire_isolation:
  "cache_ok c \<Longrightarrow> Acquire rid cx now c = (s, c') \<Longrightarrow>
   context_of c' s = cx \<and>
   (\<forall>e \<in> set (lru_view c'). fst (snd e) = s \<longrightarrow> fst e = rid) \<and>
   ((\<exists>t. (rid, s, t) \<in> set (lru_view c)) \<or>
    s = length (cc_states c) \<and> cc_states c' ! s = new_scan_state cx True)"
proof -
  assume ok: "cache_ok c" and r: "Acquire rid cx now c = (s, c')"
  have l: "linked c" using ok by (simp add: cache_ok_def)
  have old: "fst (snd e) < length (cc_states c)" if "e \<in> set (lru_view c)" for e
    using that linked_lruD(2) [OF l] by (auto simp: lru_view_def entry_of_def entry_ok_def)
  from r show ?thesis
  proof (cases rule: Acquire_cases)
    case ephemeral
    then have "lru_view c' = lru_view c" by (simp add: same_entries_def lru_view_def)
    with ephemeral old show ?thesis by (fastforce simp: context_of_def new_scan_state_def)
  next
    case (locked f)
    have ok1: "cache_ok (count_metric f c)" using ok by simp
    note spec = acquire_locked_abs(1,2,5) [OF ok1 locked(1,3), simplified]
    have mem: "(rid, s, now) \<in> set (lru_view c')"
    proof -
      have "nat (cc_max c) = Suc (nat (cc_max c) - 1)" using locked(2) by simp
      then have "take (nat (cc_max c)) (x # xs) = x # take (nat (cc_max c) - 1) xs" for x :: abs_entry and xs
        by (metis take_Suc_Cons)
      with arg_cong [OF spec(1), of snd] arg_cong [OF spec(1), of fst] show ?thesis
        by (auto simp: abs_acquire_def Let_def split: option.split_asm if_split_asm)
    qed
    have "linked c'" using spec(2) by (simp add: cache_ok_def)
    from linked_states_inj [OF this _ mem] have "\<forall>e \<in> set (lru_view c'). fst (snd e) = s \<longrightarrow> fst e = rid" by fastforce
    moreover from spec(3) have "context_of c' s = cx \<and>
      ((\<exists>t. (rid, s, t) \<in> set (lru_view c)) \<or> s = length (cc_states c) \<and> cc_states c' ! s = new_scan_state cx True)"
      by (auto simp: context_of_def new_scan_state_def)
    ultimately show ?thesis by blast
  qed
qed

text \<open>
  C31: Isolation of requests: the state that \<open>Acquire\<close> returns is bound to exactly the requested
  policy revision, format and model, it is retained under no other id, and it is either the state
  that this id already had or a fresh one without fingerprint and renderer state.
\<close>

theorem acquire_isolates:
  "cache_ok c \<Longrightarrow> Acquire rid cx now c = (s, c') \<Longrightarrow>
   context_of c' s = cx \<and>
   (\<forall>e \<in> set (lru_view c'). fst (snd e) = s \<longrightarrow> fst e = rid) \<and>
   ((\<exists>t. (rid, s, t) \<in> set (lru_view c)) \<or>
    s = length (cc_states c) \<and> cc_states c' ! s = new_scan_state cx True)"
  by (rule acquire_isolation)

lemma acquire_isolates_witness:
  "let (s, c') = Acquire ''a'' (empty_sx\<lparr>sx_Revision := 7\<rparr>) 9 sample_cache in
     context_of c' s = empty_sx\<lparr>sx_Revision := 7\<rparr> \<and>
     ((\<exists>t. (''a'', s, t) \<in> set (lru_view sample_cache)) \<or>
      s = length (cc_states sample_cache) \<and> cc_states c' ! s = new_scan_state (empty_sx\<lparr>sx_Revision := 7\<rparr>) True)"
proof -
  obtain s c' where r: "Acquire ''a'' (empty_sx\<lparr>sx_Revision := 7\<rparr>) 9 sample_cache = (s, c')" by (rule prod.exhaust)
  from acquire_isolates [OF sample_cache_ok r] r show ?thesis by simp
qed

definition records_to :: "nat \<Rightarrow> 'r cache_op \<Rightarrow> bool" where
  "records_to s op = (case op of OpRecord t _ _ \<Rightarrow> t = s | _ \<Rightarrow> False)"

definition fingerprint_of :: "'r cache \<Rightarrow> nat \<Rightarrow> bool \<times> string" where
  "fingerprint_of c s = (ss_hasFingerprint (cc_states c ! s), ss_fingerprint (cc_states c ! s))"

lemma Acquire_states:
  assumes "cache_ok c" "Acquire rid cx now c = (s, c')"
  shows "cc_states c' = cc_states c \<or> cc_states c' = cc_states c @ [new_scan_state cx True]"
  using assms(2)
proof (cases rule: Acquire_cases)
  case (locked f)
  then show ?thesis using acquire_locked_abs(5) [OF _ locked(1,3)] assms(1) by auto
qed simp

lemma exec_op_fingerprint:
  assumes "cache_ok c" "s < length (cc_states c)" "\<not> records_to s op"
  shows "fingerprint_of (exec_op sha op c) s = fingerprint_of c s \<and> s < length (cc_states (exec_op sha op c))"
proof (cases op)
  case (OpAcquire rid cx now)
  obtain t c' where "Acquire rid cx now c = (t, c')" by (rule prod.exhaust)
  with Acquire_states [OF assms(1) this] OpAcquire assms(2) show ?thesis
    by (auto simp: fingerprint_of_def nth_append)
next
  case (OpComplete rid)
  obtain b c' where "Complete rid c = (b, c')" by (rule prod.exhaust)
  with Complete_ok [OF assms(1) this] OpComplete assms(2) show ?thesis by (simp add: fingerprint_of_def)
next
  case (OpPrune now)
  obtain n c' where "Prune now c = (n, c')" by (rule prod.exhaust)
  with Prune_ok [OF assms(1) this] OpPrune assms(2) show ?thesis by (simp add: fingerprint_of_def)
next
  case OpClear
  then show ?thesis using assms(2) by (simp add: Clear_def fingerprint_of_def)
next
  case (OpSeen t body)
  then show ?thesis using assms(2) by (simp add: Seen_def fingerprint_of_def Let_def)
next
  case (OpRecord t input out)
  then have "t \<noteq> s" using assms(3) by (simp add: records_to_def)
  then show ?thesis using OpRecord assms(2) by (simp add: Record_def fingerprint_of_def update_state_def Let_def)
next
  case (OpStore t r)
  then show ?thesis using assms(2)
    by (cases "t = s") (simp_all add: StoreRendererState_def fingerprint_of_def update_state_def)
next
  case (OpGetOrCreate t factory)
  then show ?thesis using assms(2)
    by (cases "t = s") (auto simp: GetOrCreateRendererState_def StoreRendererState_def fingerprint_of_def
        update_state_def Let_def split: option.split)
qed

lemma exec_ops_fingerprint:
  "cache_ok c \<Longrightarrow> s < length (cc_states c) \<Longrightarrow> \<forall>op \<in> set ops. \<not> records_to s op \<Longrightarrow>
   fingerprint_of (exec_ops sha ops c) s = fingerprint_of c s"
  by (induction ops arbitrary: c) (simp_all add: exec_op_fingerprint exec_op_ok)

text \<open>
  \<open>Seen\<close> tells exactly whether a body has the fingerprint of the output of the last successful
  scan, whatever other calls (on other states, on the cache, evictions included) happened since: a
  request whose scan changed it is only recognised in its sanitized form.
\<close>

theorem seen_after_record:
  "cache_ok c \<Longrightarrow> s < length (cc_states c) \<Longrightarrow> \<forall>op \<in> set ops. \<not> records_to s op \<Longrightarrow>
   fst (Seen sha s body (exec_ops sha ops (Record sha s input out c))) \<longleftrightarrow>
     sha body = sha (case out of None \<Rightarrow> input | Some sanitized \<Rightarrow> sanitized)"
proof -
  assume c: "cache_ok c" "s < length (cc_states c)" and ops: "\<forall>op \<in> set ops. \<not> records_to s op"
  let ?c = "Record sha s input out c"
  have "cache_ok ?c" using c(1) by (simp add: state_ops_ok)
  moreover have "s < length (cc_states ?c)" using c(2) by (simp add: Record_def update_state_def Let_def)
  ultimately have "fingerprint_of (exec_ops sha ops ?c) s = fingerprint_of ?c s"
    using ops by (rule exec_ops_fingerprint)
  moreover have "fingerprint_of ?c s = (True, sha (case out of None \<Rightarrow> input | Some b \<Rightarrow> b))"
    using c(2) by (simp add: Record_def fingerprint_of_def update_state_def Let_def)
  ultimately show ?thesis by (auto simp: Seen_def fingerprint_of_def Let_def)
qed

lemma seen_after_record_witness:
  "let c = exec_ops (\<lambda>b. b) [OpAcquire ''c'' empty_sx 5, OpRecord 1 ''z'' None]
      (Record (\<lambda>b. b) 0 ''raw'' (Some ''clean'') sample_cache)
   in fst (Seen (\<lambda>b. b) 0 ''clean'' c) \<and> \<not> fst (Seen (\<lambda>b. b) 0 ''raw'' c)"
proof -
  have len: "0 < length (cc_states sample_cache)" by code_simp
  have ops: "\<forall>op \<in> set [OpAcquire ''c'' empty_sx 5, OpRecord 1 ''z'' None :: nat cache_op]. \<not> records_to 0 op"
    by (simp add: records_to_def)
  from seen_after_record [OF sample_cache_ok len ops, of "\<lambda>b. b" _ "''raw''" "Some ''clean''"]
  show ?thesis by (simp del: exec_ops_simps add: Let_def)
qed

text \<open>
  When the clock readings of the calls do not run backwards, \<open>Prune\<close> removes every entry whose
  time to live has elapsed, and keeps every other one.
\<close>

theorem prune_complete_under_ordered_clock:
  "clock_ordered t0 ops now \<Longrightarrow> c = exec_ops sha ops (new_request_scan_cache ttl cap) \<Longrightarrow>
   Prune now c = (n, c') \<Longrightarrow>
   lru_view c' = filter (\<lambda>e. \<not> abs_expired (cc_ttl c) now e) (lru_view c)"
proof -
  assume o: "clock_ordered t0 ops now" and c: "c = exec_ops sha ops (new_request_scan_cache ttl cap)"
    and p: "Prune now c = (n, c')"
  have ok: "cache_ok c" unfolding c by (rule exec_ops_ok [OF new_cache_ok])
  have "clocked t0 (lru_view (new_request_scan_cache ttl cap))"
    by (simp add: clocked_def lru_view_def new_request_scan_cache_def)
  then have cl: "clocked now (lru_view c)" unfolding c by (rule exec_ops_clocked [OF new_cache_ok _ o])
  have v: "lru_view c' = abs_prune (cc_ttl c) now (lru_view c)" using Prune_ok [OF ok p] by simp
  let ?P = "\<lambda>e. \<not> abs_expired (cc_ttl c) now e"
  obtain ys where ys: "lru_view c = abs_prune (cc_ttl c) now (lru_view c) @ ys"
    "\<forall>e \<in> set ys. abs_expired (cc_ttl c) now e"
  proof
    let ?t = "takeWhile (abs_expired (cc_ttl c) now) (rev (lru_view c))"
    show "lru_view c = abs_prune (cc_ttl c) now (lru_view c) @ rev ?t"
      by (metis abs_prune_def rev_append rev_rev_ident takeWhile_dropWhile_id)
    show "\<forall>e \<in> set (rev ?t). abs_expired (cc_ttl c) now e" by (auto dest: set_takeWhileD)
  qed
  have "filter ?P (lru_view c) = filter ?P (abs_prune (cc_ttl c) now (lru_view c)) @ filter ?P ys"
    by (subst ys(1)) simp
  also have "filter ?P ys = []" using ys(2) by simp
  also have "filter ?P (abs_prune (cc_ttl c) now (lru_view c)) = abs_prune (cc_ttl c) now (lru_view c)"
    using clocked_prune_all [OF cl] by simp
  finally show ?thesis using v by simp
qed

lemma prune_complete_under_ordered_clock_witness:
  "lru_view (snd (Prune 12 (exec_ops (\<lambda>b. b) [OpAcquire ''a'' empty_sx 0, OpAcquire ''b'' empty_sx 4]
     (new_request_scan_cache 10 2 :: nat cache)))) = [(''b'', 1, 4)]"
proof -
  let ?ops = "[OpAcquire ''a'' empty_sx 0, OpAcquire ''b'' empty_sx 4]"
  let ?c = "exec_ops (\<lambda>b. b) ?ops (new_request_scan_cache 10 2 :: nat cache)"
  obtain n c' where p: "Prune 12 ?c = (n, c')" by (rule prod.exhaust)
  have "clock_ordered 0 ?ops 12" by simp
  from prune_complete_under_ordered_clock [OF this refl p]
  have "lru_view (snd (Prune 12 ?c)) = filter (\<lambda>e. \<not> abs_expired (cc_ttl ?c) 12 e) (lru_view ?c)" using p by simp
  also have "\<dots> = [(''b'', 1, 4)]" by code_simp
  finally show ?thesis .
qed

text \<open>
  A live tail does not mean that every entry before it is live: two concurrent calls that read
  the clock in one order and take the lock in the other leave an expired entry in front of a live
  one, and \<open>Prune\<close> keeps it.
\<close>

theorem live_tail_hides_expired_entry:
  "let c = exec_ops (\<lambda>b. b) [OpAcquire ''late'' empty_sx 5, OpAcquire ''early'' empty_sx 0]
      (new_request_scan_cache 10 2 :: nat cache);
       c' = snd (Prune 12 c)
   in (''early'', 1, 0) \<in> set (lru_view c') \<and> abs_expired (cc_ttl c') 12 (''early'', 1, 0)"
  by code_simp


section \<open>The interface of the cache\<close>

text \<open>
  What the interceptor relies on, for any store of request states: \<open>held\<close> are the retained ids with
  their states, \<open>fresh\<close> says that an address is that of a state nobody has yet.
\<close>

locale scan_store =
  fixes inv :: "'c \<Rightarrow> bool" and held :: "'c \<Rightarrow> (string \<times> nat) set" and fresh :: "'c \<Rightarrow> nat \<Rightarrow> bool"
    and bound_to :: "'c \<Rightarrow> nat \<Rightarrow> scan_context"
    and acquire :: "string \<Rightarrow> scan_context \<Rightarrow> int \<Rightarrow> 'c \<Rightarrow> nat \<times> 'c"
    and complete :: "string \<Rightarrow> 'c \<Rightarrow> bool \<times> 'c"
  assumes acquire_inv: "inv c \<Longrightarrow> acquire rid cx now c = (s, c') \<Longrightarrow> inv c'"
    and complete_inv: "inv c \<Longrightarrow> complete rid c = (b, c') \<Longrightarrow> inv c'"
    and acquire_bound: "inv c \<Longrightarrow> acquire rid cx now c = (s, c') \<Longrightarrow> bound_to c' s = cx"
    and acquire_source: "inv c \<Longrightarrow> acquire rid cx now c = (s, c') \<Longrightarrow> (rid, s) \<in> held c \<or> fresh c s"
    and acquire_owner: "inv c \<Longrightarrow> acquire rid cx now c = (s, c') \<Longrightarrow> (rid', s) \<in> held c' \<Longrightarrow> rid' = rid"
    and complete_held: "inv c \<Longrightarrow> complete rid c = (b, c') \<Longrightarrow> held c' = {p \<in> held c. fst p \<noteq> rid}"
    and fresh_unheld: "inv c \<Longrightarrow> fresh c s \<Longrightarrow> (rid, s) \<notin> held c"
begin

lemma completed_request_starts_fresh:
  assumes "inv c" "complete rid c = (b, c1)" "acquire rid cx now c1 = (s, c2)"
  shows "fresh c1 s"
  using acquire_source [OF complete_inv [OF assms(1,2)] assms(3)] complete_held [OF assms(1,2)] by simp

lemma states_not_shared:
  assumes "inv c" "acquire rid cx now c = (s, c1)" "(rid, s) \<in> held c1"
    and "acquire rid' cx' now' c1 = (s', c2)" "rid' \<noteq> rid"
  shows "s' \<noteq> s"
proof
  assume "s' = s"
  have inv1: "inv c1" by (rule acquire_inv [OF assms(1,2)])
  from acquire_source [OF inv1 assms(4)] \<open>s' = s\<close> have "(rid', s) \<in> held c1 \<or> fresh c1 s" by simp
  then show False
    using acquire_owner [OF assms(1,2)] fresh_unheld [OF inv1] assms(3,5) by blast
qed

end

definition held_states :: "'r cache \<Rightarrow> (string \<times> nat) set" where
  "held_states c = (\<lambda>e. (fst e, fst (snd e))) ` set (lru_view c)"

definition fresh_state :: "'r cache \<Rightarrow> nat \<Rightarrow> bool" where
  "fresh_state c s \<longleftrightarrow> length (cc_states c) \<le> s"

interpretation request_cache: scan_store cache_ok held_states fresh_state context_of Acquire Complete
proof (unfold_locales, goal_cases)
  case (1 c rid cx now s c')
  then show ?case by (rule Acquire_ok)
next
  case (2 c rid b c')
  then show ?case using Complete_ok by blast
next
  case (3 c rid cx now s c')
  then show ?case using acquire_isolation by blast
next
  case (4 c rid cx now s c')
  then show ?case using acquire_isolation [OF 4] by (force simp: held_states_def fresh_state_def)
next
  case (5 c rid cx now s c' rid')
  then show ?case using acquire_isolation [OF 5(1,2)] by (auto simp: held_states_def)
next
  case (6 c rid b c')
  have "lru_view c' = filter (\<lambda>e. fst e \<noteq> rid) (lru_view c)"
    using Complete_ok [OF 6] unfolding abs_remove_def by blast
  then show ?case unfolding held_states_def by (force simp: image_iff)
next
  case (7 c s rid)
  then have "linked c" by (simp add: cache_ok_def)
  then show ?case using 7(2) linked_lruD(2)
    by (fastforce simp: held_states_def fresh_state_def lru_view_def entry_of_def entry_ok_def)
qed

text \<open>
  Two requests with different ids never get the same state while the first is retained, and a
  request that was completed starts again with a state that nobody had.
\<close>

theorem request_states_not_shared:
  "cache_ok c \<Longrightarrow> Acquire rid cx now c = (s, c1) \<Longrightarrow> (rid, s) \<in> held_states c1 \<Longrightarrow>
   Acquire rid' cx' now' c1 = (s', c2) \<Longrightarrow> rid' \<noteq> rid \<Longrightarrow> Complete rid c2 = (b, c3) \<Longrightarrow>
   Acquire rid cx'' now'' c3 = (s'', c4) \<Longrightarrow> s' \<noteq> s \<and> fresh_state c3 s''"
proof -
  assume ok: "cache_ok c" and 1: "Acquire rid cx now c = (s, c1)" and h: "(rid, s) \<in> held_states c1"
    and 2: "Acquire rid' cx' now' c1 = (s', c2)" and n: "rid' \<noteq> rid" and 3: "Complete rid c2 = (b, c3)"
    and 4: "Acquire rid cx'' now'' c3 = (s'', c4)"
  have ok2: "cache_ok c2" by (rule request_cache.acquire_inv [OF request_cache.acquire_inv [OF ok 1] 2])
  show ?thesis
    using request_cache.states_not_shared [OF ok 1 h 2 n]
      request_cache.completed_request_starts_fresh [OF ok2 3 4] by blast
qed


lemma request_states_not_shared_witness:
  "let (s, c1) = Acquire ''a'' empty_sx 9 sample_cache; (s', c2) = Acquire ''c'' empty_sx 9 c1;
       (b, c3) = Complete ''a'' c2; (s'', c4) = Acquire ''a'' empty_sx 9 c3
   in s' \<noteq> s \<and> fresh_state c3 s''"
proof -
  obtain s c1 where 1: "Acquire ''a'' empty_sx 9 sample_cache = (s, c1)" by (rule prod.exhaust)
  obtain s' c2 where 2: "Acquire ''c'' empty_sx 9 c1 = (s', c2)" by (rule prod.exhaust)
  obtain b c3 where 3: "Complete ''a'' c2 = (b, c3)" by (rule prod.exhaust)
  obtain s'' c4 where 4: "Acquire ''a'' empty_sx 9 c3 = (s'', c4)" by (rule prod.exhaust)
  have "(let (s, c1) = Acquire ''a'' empty_sx 9 sample_cache in (''a'', s) \<in> held_states c1)" by code_simp
  with 1 have "(''a'', s) \<in> held_states c1" by simp
  from request_states_not_shared [OF sample_cache_ok 1 this 2 _ 3 4] 1 2 3 4 show ?thesis by (simp add: Let_def)
qed

end
