(* ===== verification/Interceptor.thy ===== *)
theory Interceptor
  imports Redactor_Sound Request_Cache
begin

text \<open>
  The interceptor (\<open>interceptor.go\<close>, \<open>reject.go\<close>, \<open>lifecycle.go\<close>): what the host gets back for a request,
  how a failure is classified and what is told about it. Log lines are left out, except for the
  fields a failure puts into them.
\<close>

section \<open>Requests and responses\<close>

record request =
  rq_RequestID :: string
  rq_Model :: string
  rq_RequestedModel :: string
  rq_SourceFormat :: string
  rq_Body :: string

text \<open>A nil body is \<open>None\<close>: the host then forwards the request as it is, unless it is terminated.\<close>

record response =
  rp_Terminate :: bool
  rp_StatusCode :: int
  rp_ResponseHeaders :: "(string \<times> string list) list"
  rp_ResponseBody :: string
  rp_Body :: "string option"

definition empty_response :: response where
  "empty_response = \<lparr>rp_Terminate = False, rp_StatusCode = 0, rp_ResponseHeaders = [], rp_ResponseBody = [], rp_Body = None\<rparr>"

section \<open>Rejections\<close>

text \<open>\<open>json.Marshal\<close> of a map: the members sorted by key. The strings are constants of plain ASCII.\<close>

fun json_members :: "(string \<times> string) list \<Rightarrow> string" where
  "json_members [] = []"
| "json_members [(k, v)] = quoted k @ '':'' @ v"
| "json_members ((k, v) # rest) = quoted k @ '':'' @ v @ '','' @ json_members rest"

definition json_object :: "(string \<times> string) list \<Rightarrow> string" where
  "json_object ms = ''{'' @ json_members ms @ ''}''"

definition terminate_request :: "string \<Rightarrow> nat \<Rightarrow> string \<Rightarrow> string \<Rightarrow> response" where
  "terminate_request source_format status code message =
     \<lparr>rp_Terminate = True, rp_StatusCode = int status,
      rp_ResponseHeaders = [(''Content-Type'', [''application/json''])],
      rp_ResponseBody =
        (if source_format = ''claude'' then
           json_object [(''error'', json_object [(''message'', quoted message), (''type'', quoted code)]),
                        (''type'', quoted ''error'')]
         else if source_format \<in> {''gemini'', ''interactions'', ''gemini-cli''} then
           json_object [(''error'', json_object [(''code'', itoa status), (''message'', quoted message),
                                                 (''status'', quoted ''INVALID_ARGUMENT'')])]
         else
           json_object [(''error'', json_object [(''code'', quoted code), (''message'', quoted message),
                                                 (''type'', quoted code)])]),
      rp_Body = None\<rparr>"

section \<open>Classification of failures\<close>

text \<open>\<open>errors.As\<close> and \<open>errors.Is\<close> along the chain of \<open>Unwrap\<close>.\<close>

fun blocked_rule :: "sanitize_error \<Rightarrow> string option" where
  "blocked_rule (Blocked rule) = Some rule"
| "blocked_rule (TargetInspection _ e) = blocked_rule e"
| "blocked_rule _ = None"

definition payload_limit_error :: "payload_error \<Rightarrow> bool" where
  "payload_limit_error e \<longleftrightarrow>
     e \<in> {BodyTooLarge, DepthLimit, NodeLimit, StructuralLimit, StringTooLarge, ReplacementLimit}"

fun is_limit_error :: "sanitize_error \<Rightarrow> bool" where
  "is_limit_error (EngineFailed e) = is_budget_exceeded e"
| "is_limit_error (PayloadFailed e) = payload_limit_error e"
| "is_limit_error (EncodedJSON e) = payload_limit_error e"
| "is_limit_error (WalkFailed (Payload e)) = payload_limit_error e"
| "is_limit_error (TargetInspection _ e) = is_limit_error e"
| "is_limit_error _ = False"

fun is_unsupported_error :: "sanitize_error \<Rightarrow> bool" where
  "is_unsupported_error (RequestShape _ _) = True"
| "is_unsupported_error (EncodedJSON _) = True"
| "is_unsupported_error InvalidMutability = True"
| "is_unsupported_error (WalkFailed (UnsupportedFormat _)) = True"
| "is_unsupported_error (WalkFailed (ShapeError _ _ _ _ _)) = True"
| "is_unsupported_error (WalkFailed (AmbiguityError _ _ _)) = True"
| "is_unsupported_error (WalkFailed (Payload e)) = (e = RootNotObject)"
| "is_unsupported_error (PayloadFailed e) = (e = RootNotObject)"
| "is_unsupported_error (TargetInspection _ e) = is_unsupported_error e"
| "is_unsupported_error _ = False"

fun is_json_error :: "sanitize_error \<Rightarrow> bool" where
  "is_json_error (PayloadFailed e) = is_invalid_json e"
| "is_json_error (EncodedJSON e) = is_invalid_json e"
| "is_json_error (WalkFailed (Payload e)) = is_invalid_json e"
| "is_json_error (TargetInspection _ e) = is_json_error e"
| "is_json_error _ = False"

definition failure_reason :: "sanitize_error \<Rightarrow> string" where
  "failure_reason e =
    (if blocked_rule e \<noteq> None then ''blocked_rule''
     else if is_limit_error e then ''limit_exceeded''
     else if is_unsupported_error e then ''unsupported_shape''
     else if is_json_error e then ''invalid_json''
     else ''internal_error'')"

definition handle_failure :: "plugin \<Rightarrow> string \<Rightarrow> sanitize_error \<Rightarrow> response" where
  "handle_failure pl source_format e =
    (if blocked_rule e \<noteq> None then
       terminate_request source_format 422 ''privacy_filter_rejected'' ''request blocked by privacy policy''
     else if pc_OnError (pg_cfg pl) = onErrorPassthrough then empty_response
     else if is_limit_error e then
       terminate_request source_format 413 ''privacy_filter_limit_exceeded'' ''request exceeds privacy inspection limits''
     else if is_unsupported_error e then
       terminate_request source_format 422 ''privacy_filter_unsupported_shape'' ''request shape is not safely inspectable''
     else if is_json_error e then
       terminate_request source_format 400 ''privacy_filter_invalid_json'' ''request body is not valid JSON''
     else
       terminate_request source_format 503 ''privacy_filter_internal_error''
         ''privacy filter could not safely inspect the request'')"

section \<open>Diagnostics\<close>

definition safe_keys :: "string list" where
  "safe_keys = [''messages'', ''message'', ''content'', ''role'', ''type'', ''text'', ''input'', ''output'',
     ''reasoning'', ''reasoning_content'', ''reasoning_details'', ''summary'', ''data'', ''signature'',
     ''encrypted_content'', ''format'', ''index'', ''id'', ''call_id'', ''tool_call_id'', ''name'',
     ''namespace'', ''status'', ''arguments'', ''function_call'', ''function_call_output'', ''tool_calls'',
     ''function'', ''custom_tool_call'', ''custom_tool_call_output'', ''additional_tools'', ''tools'',
     ''client_metadata'', ''x-codex-turn-metadata'', ''instructions'', ''prompt'', ''variables'',
     ''description'', ''parameters'', ''properties'', ''items'', ''schema'', ''input_schema'', ''output_schema'',
     ''system'', ''system_instruction'', ''parts'', ''contents'', ''candidates'', ''steps'', ''result'',
     ''action'', ''command'', ''environment'', ''code'', ''logs'', ''annotations'', ''metadata'']"

definition safe_diagnostic_key :: "string \<Rightarrow> bool" where
  "safe_diagnostic_key key \<longleftrightarrow> key \<in> set safe_keys"

text \<open>\<open>strconv.Quote\<close> is applied to constants of plain ASCII only.\<close>

definition diagnostic_segment :: "path_segment \<Rightarrow> string" where
  "diagnostic_segment seg =
    (case key_value seg of
       Some key \<Rightarrow> ''['' @ quoted (if \<not> safe_diagnostic_key key then ''<redacted>'' else key) @ '']''
     | None \<Rightarrow>
         (case index_value seg of
            Some i \<Rightarrow> ''['' @ itoa (nat i) @ '']''
          | None \<Rightarrow> ''['' @ quoted ''<invalid>'' @ '']''))"

fun diagnostic_segments :: "nat \<Rightarrow> path \<Rightarrow> string" where
  "diagnostic_segments index [] = []"
| "diagnostic_segments index (seg # segs) =
    (if index = 32 then ''['' @ quoted ''<truncated>'' @ '']''
     else diagnostic_segment seg @ diagnostic_segments (index + 1) segs)"

definition safe_diagnostic_path :: "path \<Rightarrow> string" where
  "safe_diagnostic_path path = ''$'' @ diagnostic_segments 0 path"

text \<open>A path that could not be materialised is nil; see \<open>Walk_Types\<close>.\<close>

definition path_or_nil :: "path option \<Rightarrow> path" where
  "path_or_nil p = (case p of None \<Rightarrow> [] | Some q \<Rightarrow> q)"

definition safe_diagnostic_paths :: "path option list \<Rightarrow> string list" where
  "safe_diagnostic_paths ps = map (\<lambda>p. safe_diagnostic_path (path_or_nil p)) (take max_failure_diagnostic_paths ps)"

fun failure_diagnostic :: "sanitize_error \<Rightarrow> string \<times> nat \<times> string list" where
  "failure_diagnostic (RequestShape n paths) = (''unsupported_shape'', n, safe_diagnostic_paths paths)"
| "failure_diagnostic (TargetInspection path cause) =
    ((if is_limit_error cause then ''target_limit''
      else if is_json_error cause then ''encoded_json_invalid''
      else if is_unsupported_error cause then ''target_unsupported''
      else ''target_inspection''), 1, [safe_diagnostic_path path])"
| "failure_diagnostic (WalkFailed (ShapeError _ path _ _ _)) =
    (''invalid_shape'', 1, [safe_diagnostic_path (path_or_nil path)])"
| "failure_diagnostic (WalkFailed (AmbiguityError _ path _)) =
    (''ambiguous_path'', 1, [safe_diagnostic_path (path_or_nil path)])"
| "failure_diagnostic _ = ([], 0, [])"

text \<open>\<open>strings.Map\<close> decodes and encodes every rune that stays, then the first 128 are kept.\<close>

function runes :: "string \<Rightarrow> nat list" where
  "runes s = (if s = [] then [] else fst (decode_rune s) # runes (drop (max 1 (snd (decode_rune s))) s))"
  by pat_completeness auto
termination
  by (relation "measure length") auto

declare runes.simps [simp del]

definition log_rune :: "nat \<Rightarrow> bool" where
  "log_rune r \<longleftrightarrow> \<not> (r = 10 \<or> r = 13 \<or> r = 9 \<or> r < 32 \<or> r = 127)"

definition safe_log_value :: "string \<Rightarrow> string" where
  "safe_log_value s = concat (map encode_rune (take 128 (filter log_rune (runes s))))"

datatype log_value = LogString string | LogInt nat

definition comma_join :: "string list \<Rightarrow> string" where
  "comma_join xs = (case xs of [] \<Rightarrow> [] | y # ys \<Rightarrow> y @ concat (map (\<lambda>z. '','' @ z) ys))"

definition failure_log_fields :: "string \<Rightarrow> sanitize_error \<Rightarrow> (string \<times> log_value) list" where
  "failure_log_fields source_format e =
    (case failure_diagnostic e of (category, n, paths) \<Rightarrow>
       [(''source_format'', LogString (safe_log_value source_format)), (''reason'', LogString (failure_reason e))] @
       (if category \<noteq> [] then [(''issue_category'', LogString category)] else []) @
       (if 0 < n then [(''issue_count'', LogInt n)] else []) @
       (if paths \<noteq> [] then [(''issue_paths'', LogString (comma_join paths))] else []))"

section \<open>The interceptor\<close>

definition intercept_request :: "(string \<Rightarrow> string \<Rightarrow> bool) \<Rightarrow> plugin \<Rightarrow> 64 word \<Rightarrow> int \<Rightarrow> ctx \<Rightarrow> ctx \<Rightarrow> request \<Rightarrow>
    request_renderer cache \<Rightarrow> response \<times> request_renderer cache" where
  "intercept_request uf pl revision now cw c req cache =
    (if should_skip uf (pg_cfg pl) (rq_Model req) (rq_RequestedModel req) (rq_SourceFormat req) then (empty_response, cache)
     else if rq_Body req = [] then (handle_failure pl (rq_SourceFormat req) (PayloadFailed (InvalidJSON 0 [])), cache)
     else
       let model = (if rq_RequestedModel req = [] then rq_Model req else rq_RequestedModel req) in
       (case Acquire (rq_RequestID req)
              \<lparr>sx_Revision = revision, sx_SourceFormat = rq_SourceFormat req, sx_Model = model\<rparr> now cache of
          (s, cache) \<Rightarrow>
            (case Seen (pg_sha256 pl) s (rq_Body req) cache of
               (True, cache) \<Rightarrow> (empty_response, cache)
             | (False, cache) \<Rightarrow>
                 (case GetOrCreateRendererState s (Some (Some new_request_renderer)) cache of
                    (None, cache) \<Rightarrow> (handle_failure pl (rq_SourceFormat req) (EngineFailed ErrInternalFailure), cache)
                  | (Some r, cache) \<Rightarrow>
                      (case sanitize_request_with_renderer pl cw c (rq_SourceFormat req) (rq_Body req) (Some r) of
                         (res, r') \<Rightarrow>
                           let cache = StoreRendererState s r' cache in
                           (case res of
                              Inl e \<Rightarrow> (handle_failure pl (rq_SourceFormat req) e, cache)
                            | Inr result \<Rightarrow>
                                if sr_changed result then
                                  (empty_response\<lparr>rp_Body := Some (sr_body result)\<rparr>,
                                   Record (pg_sha256 pl) s (rq_Body req) (Some (sr_body result)) cache)
                                else (empty_response, Record (pg_sha256 pl) s (rq_Body req) None cache)))))))"

definition intercept_request_after_auth :: "request \<Rightarrow> response" where
  "intercept_request_after_auth req = empty_response"

text \<open>\<open>releaseRequestScanState\<close>, for a cache that may be missing.\<close>

definition release_request_scan_state :: "string \<Rightarrow> request_renderer cache option \<Rightarrow> request_renderer cache option" where
  "release_request_scan_state rid cache =
    (case cache of None \<Rightarrow> None | Some c \<Rightarrow> if rid = [] then Some c else Some (snd (Complete rid c)))"

text \<open>What the host forwards upstream.\<close>

definition forwarded :: "request \<Rightarrow> response \<Rightarrow> string option" where
  "forwarded req resp = (if rp_Terminate resp then None else Some (case rp_Body resp of None \<Rightarrow> rq_Body req | Some b \<Rightarrow> b))"

end
