(* ===== verification/Interceptor_Properties.thy ===== *)
theory Interceptor_Properties
  imports Interceptor Redactor_Properties
begin

text \<open>
  The properties of the interceptor: what the cache remembers about a request is what was inspected,
  nothing is forwarded that was not, failures are closed, and what is told about a failure contains
  nothing the request chose.
\<close>

section \<open>What was inspected\<close>

text \<open>
  \<open>approved pl f b\<close>: \<open>b\<close> is the result of a redaction without an error by the plugin, for the source
  format and with a renderer that only rendered. A result without a change is the body itself.
\<close>

definition approved :: "plugin \<Rightarrow> string \<Rightarrow> string \<Rightarrow> bool" where
  "approved pl f b \<longleftrightarrow> (\<exists>cw c body r L res ro. logged pl L r \<and>
     sanitize_request_with_renderer pl cw c f body (Some r) = (Inr res, ro) \<and> b = sr_body res)"

definition state_approved :: "(64 word \<Rightarrow> plugin) \<Rightarrow> (string \<Rightarrow> string) \<Rightarrow> request_renderer scan_state \<Rightarrow> bool" where
  "state_approved plugins sha st \<longleftrightarrow>
     (let pl = plugins (sx_Revision (ss_context st)) in
      (ss_hasFingerprint st \<longrightarrow> (\<exists>b. sha b = ss_fingerprint st \<and> approved pl (sx_SourceFormat (ss_context st)) b)) \<and>
      (ss_hasRendererState st \<longrightarrow> (\<exists>r L. ss_rendererState st = Some r \<and> logged pl L r)))"

definition cache_sound :: "(64 word \<Rightarrow> plugin) \<Rightarrow> (string \<Rightarrow> string) \<Rightarrow> request_renderer cache \<Rightarrow> bool" where
  "cache_sound plugins sha c \<longleftrightarrow> cache_ok c \<and> (\<forall>st \<in> set (cc_states c). state_approved plugins sha st)"

text \<open>
  The life of the cache: requests of any revision, in any order and any number per id, completions,
  and the sweep and the shutdown of the cache.
\<close>

inductive reachable :: "(string \<Rightarrow> string \<Rightarrow> bool) \<Rightarrow> (64 word \<Rightarrow> plugin) \<Rightarrow> request_renderer cache \<Rightarrow> bool" for uf plugins where
  reachable_new: "reachable uf plugins (new_request_scan_cache ttl cap)"
| reachable_request: "reachable uf plugins c \<Longrightarrow>
    reachable uf plugins (snd (intercept_request uf (plugins revision) revision now cw cx req c))"
| reachable_complete: "reachable uf plugins c \<Longrightarrow> release_request_scan_state rid (Some c) = Some c' \<Longrightarrow> reachable uf plugins c'"
| reachable_prune: "reachable uf plugins c \<Longrightarrow> reachable uf plugins (snd (Prune now c))"
| reachable_clear: "reachable uf plugins c \<Longrightarrow> reachable uf plugins (snd (Clear c))"

inductive_cases reachable_newE: "reachable uf plugins (new_request_scan_cache ttl cap)"

lemma cache_sound_new: "cache_sound plugins sha (new_request_scan_cache ttl cap)"
  by (simp add: cache_sound_def new_cache_ok) (simp add: new_request_scan_cache_def)

lemma cache_sound_states: "cache_sound plugins sha c \<Longrightarrow> cache_ok c' \<Longrightarrow> cc_states c' = cc_states c \<Longrightarrow> cache_sound plugins sha c'"
  by (simp add: cache_sound_def)

lemma Acquire_sound:
  assumes "cache_sound plugins sha c" "Acquire rid cx now c = (s, c')"
  shows "cache_sound plugins sha c'" "s < length (cc_states c')" "ss_context (cc_states c' ! s) = cx"
proof -
  have ok: "cache_ok c" using assms(1) by (simp add: cache_sound_def)
  have new: "state_approved plugins sha (new_scan_state cx True)"
    by (simp add: state_approved_def new_scan_state_def Let_def)
  show "cache_sound plugins sha c'"
    using Acquire_states [OF ok assms(2)] Acquire_ok [OF ok assms(2)] assms(1) new by (auto simp: cache_sound_def)
  have "s < length (cc_states c') \<and> ss_context (cc_states c' ! s) = cx"
    using assms(2)
  proof (cases rule: Acquire_cases)
    case ephemeral
    then show ?thesis by (simp add: new_scan_state_def)
  next
    case (locked f)
    have ok': "cache_ok (count_metric f c)" using ok by simp
    from acquire_locked_abs(5) [OF ok' locked(1,3)] show ?thesis
    proof (elim disjE conjE exE)
      fix t assume "cc_states c' = cc_states (count_metric f c)" "context_of (count_metric f c) s = cx"
        and held: "(rid, s, t) \<in> set (lru_view (count_metric f c))"
      moreover from ok' held have "s < length (cc_states (count_metric f c))"
        using linked_lruD(2) [of "count_metric f c"]
        by (fastforce simp: cache_ok_def lru_view_def entry_of_def entry_ok_def)
      ultimately show ?thesis by (simp add: context_of_def)
    qed (simp add: new_scan_state_def)
  qed
  then show "s < length (cc_states c')" "ss_context (cc_states c' ! s) = cx" by simp_all
qed

lemma update_state_sound:
  assumes "cache_sound plugins sha c" "s < length (cc_states c)" "state_approved plugins sha (f (cc_states c ! s))"
  shows "cache_sound plugins sha (update_state s f c)"
  using assms update_state_same [of c s f, THEN same_entries_ok]
  by (auto simp: cache_sound_def update_state_def dest!: set_update_subset_insert [THEN subsetD])

lemma count_metric_states [simp]: "cc_states (count_metric f c) = cc_states c"
  by (simp add: count_metric_def)

lemma cache_sound_count [simp]: "cache_sound plugins sha (count_metric f c) = cache_sound plugins sha c"
  by (simp add: cache_sound_def)

lemma Seen_sound:
  assumes "cache_sound plugins sha c" "s < length (cc_states c)" "Seen sha s body c = (seen, c')"
  shows "cache_sound plugins sha c'" "cc_states c' = cc_states c"
    "seen \<Longrightarrow> \<exists>b. sha b = sha body \<and>
       approved (plugins (sx_Revision (ss_context (cc_states c ! s)))) (sx_SourceFormat (ss_context (cc_states c ! s))) b"
proof -
  show st: "cc_states c' = cc_states c" using assms(3) by (auto simp: Seen_def Let_def split: if_splits)
  show "cache_sound plugins sha c'"
    using assms(1,3) by (auto simp: Seen_def Let_def split: if_splits)
  assume seen
  then have "ss_hasFingerprint (cc_states c ! s)" "ss_fingerprint (cc_states c ! s) = sha body"
    using assms(3) by (auto simp: Seen_def Let_def split: if_splits)
  moreover have "state_approved plugins sha (cc_states c ! s)" using assms(1,2) by (simp add: cache_sound_def)
  ultimately show "\<exists>b. sha b = sha body \<and>
       approved (plugins (sx_Revision (ss_context (cc_states c ! s)))) (sx_SourceFormat (ss_context (cc_states c ! s))) b"
    by (simp add: state_approved_def Let_def)
qed

lemma GetOrCreate_sound:
  assumes "cache_sound plugins sha c" "s < length (cc_states c)" "ss_context (cc_states c ! s) = cx"
    "GetOrCreateRendererState s (Some (Some new_request_renderer)) c = (ro, c')"
  shows "(\<exists>r L. ro = Some r \<and> logged (plugins (sx_Revision cx)) L r) \<and>
    cache_sound plugins sha c' \<and> length (cc_states c') = length (cc_states c) \<and> ss_context (cc_states c' ! s) = cx"
proof -
  let ?pl = "plugins (sx_Revision cx)"
  have st: "state_approved plugins sha (cc_states c ! s)" using assms(1,2) by (simp add: cache_sound_def)
  show ?thesis
  proof (cases "ss_hasRendererState (cc_states c ! s)")
    case True
    with st assms(3) have "\<exists>r L. ss_rendererState (cc_states c ! s) = Some r \<and> logged ?pl L r"
      by (simp add: state_approved_def Let_def)
    moreover have "ro = ss_rendererState (cc_states c ! s)" "c' = c"
      using True assms(4) by (auto simp: GetOrCreateRendererState_def Let_def)
    ultimately show ?thesis using assms(1,3) by simp
  next
    case False
    have new: "logged ?pl [] new_request_renderer" by (simp add: logged_def rendered_new)
    have c': "c' = StoreRendererState s (Some new_request_renderer) c" "ro = Some new_request_renderer"
      using False assms(2,4) by (auto simp: GetOrCreateRendererState_def StoreRendererState_def update_state_def Let_def)
    have "\<exists>r L. Some new_request_renderer = Some r \<and> logged ?pl L r" using new by blast
    moreover from this st have "cache_sound plugins sha c'"
      unfolding c'(1) StoreRendererState_def using assms(3)
      by (intro update_state_sound assms(1,2)) (simp add: state_approved_def Let_def)
    ultimately show ?thesis using c' assms(2,3) by (simp add: StoreRendererState_def update_state_def)
  qed
qed

section \<open>The interceptor keeps the cache sound\<close>

lemma unchanged_body: "sanitize_request_with_renderer pl cw c f body ro = (Inr res, ro') \<Longrightarrow> \<not> sr_changed res \<Longrightarrow> sr_body res = body"
  by (auto simp: sanitize_request_with_renderer_def sanitize_walked_def walk_counts_def Let_def bind_Inr_iff
      split: sum.split_asm if_split_asm prod.split_asm)

lemma sanitize_request_logs:
  assumes run: "sanitize_request_with_renderer pl cw c f body (Some r) = (res, ro)" and L: "logged pl L r"
  shows "\<exists>r' L'. ro = Some r' \<and> logged pl L' r'"
proof -
  consider "ro = Some r" | walked b ib z' where
      "NewBudget (engine_limits_of (pg_cfg pl)) = Inr b"
      "new_request_inspection_budget b (payload_limits (pg_cfg pl)) (int (wr_JSONNodes walked)) (wr_StructuralBytes walked) = Inr ib"
      "sanitize_walked pl c body walked \<lparr>z_polls = 0, z_budget = ib\<lparr>ib_mlFlagged := Some 0\<rparr>, z_renderer = r, z_doc = 1\<rparr> = (res, z')"
      "ro = Some (z_renderer z')"
    using run unfolding sanitize_request_with_renderer_def by (auto split: sum.split_asm if_split_asm prod.split_asm)
  then show ?thesis
  proof cases
    case 1
    with L show ?thesis by blast
  next
    case 2
    obtain lims where l: "normalized (payload_limits (pg_cfg pl)) = Inr lims"
      using 2(2) by (auto simp: new_request_inspection_budget_def split: sum.split_asm)
    have "b_initialized b" using 2(1) by (auto simp: NewBudget_def new_budget_unchecked_def split: sum.split_asm)
    then have "inspection_ok (b_limits b) lims (ib\<lparr>ib_mlFlagged := Some 0\<rparr>)"
      using 2(2) l normalized_limits_ok [OF l] new_budget_ok [OF 2(1)]
      by (auto simp: new_request_inspection_budget_def inspection_ok_def split: if_split_asm)
    then have "request_ok pl (b_limits b) lims L \<lparr>z_polls = 0, z_budget = ib\<lparr>ib_mlFlagged := Some 0\<rparr>, z_renderer = r, z_doc = 1\<rparr>"
      using L extendsI [of pl L "[]" r] by (simp add: request_ok_def)
    moreover have "keeps (request_ok pl (b_limits b) lims L) (sanitize_walked pl c body walked)"
      unfolding sanitize_walked_def Let_def by (intro keeps_rules)
    ultimately have "request_ok pl (b_limits b) lims L z'" using 2(3) by (blast dest: keepsD)
    with 2(4) show ?thesis by (auto simp: request_ok_def extends_def)
  qed
qed

text \<open>
  What an interception amounts to: the request is skipped by configuration; its digest is that of an
  approved body; it was redacted; or there was a failure.
\<close>

inductive outcome :: "(string \<Rightarrow> string \<Rightarrow> bool) \<Rightarrow> plugin \<Rightarrow> (string \<Rightarrow> string) \<Rightarrow> request \<Rightarrow> response \<Rightarrow> bool"
  for uf pl sha req where
  outcome_skipped: "should_skip uf (pg_cfg pl) (rq_Model req) (rq_RequestedModel req) (rq_SourceFormat req) \<Longrightarrow>
    outcome uf pl sha req empty_response"
| outcome_approved: "approved pl (rq_SourceFormat req) b \<Longrightarrow> sha b = sha (rq_Body req) \<Longrightarrow> outcome uf pl sha req empty_response"
| outcome_redacted: "approved pl (rq_SourceFormat req) b \<Longrightarrow> outcome uf pl sha req (empty_response\<lparr>rp_Body := Some b\<rparr>)"
| outcome_failed: "outcome uf pl sha req (handle_failure pl (rq_SourceFormat req) e)"

lemma intercept_request_outcome:
  assumes sha: "\<forall>v. pg_sha256 (plugins v) = sha" and c: "cache_sound plugins sha cache"
    and run: "intercept_request uf (plugins revision) revision now cw cx req cache = (resp, cache')"
  shows "cache_sound plugins sha cache' \<and> outcome uf (plugins revision) sha req resp"
proof -
  let ?pl = "plugins revision" and ?f = "rq_SourceFormat req"
  let ?model = "if rq_RequestedModel req = [] then rq_Model req else rq_RequestedModel req"
  let ?cx = "\<lparr>sx_Revision = revision, sx_SourceFormat = ?f, sx_Model = ?model\<rparr>"
  show ?thesis
  proof (cases "should_skip uf (pg_cfg ?pl) (rq_Model req) (rq_RequestedModel req) ?f \<or> rq_Body req = []")
    case True
    have "resp = empty_response \<and> cache' = cache" if "should_skip uf (pg_cfg ?pl) (rq_Model req) (rq_RequestedModel req) ?f"
      using run that by (simp add: intercept_request_def)
    moreover have "(\<exists>e. resp = handle_failure ?pl ?f e) \<and> cache' = cache"
      if "\<not> should_skip uf (pg_cfg ?pl) (rq_Model req) (rq_RequestedModel req) ?f" "rq_Body req = []"
      using run that by (auto simp: intercept_request_def)
    ultimately show ?thesis using True c outcome_skipped outcome_failed by metis
  next
    case False
    obtain s c1 where 1: "Acquire (rq_RequestID req) ?cx now cache = (s, c1)" by fastforce
    note a = Acquire_sound [OF c 1]
    obtain seen c2 where 2: "Seen sha s (rq_Body req) c1 = (seen, c2)" by fastforce
    note b = Seen_sound [OF a(1,2) 2]
    show ?thesis
    proof (cases seen)
      case True
      with run False 1 2 sha have "resp = empty_response" "cache' = c2" by (auto simp: intercept_request_def)
      with b(1) b(3) [OF True] a(3) show ?thesis by (auto intro: outcome_approved)
    next
      case not_seen: False
      have s2: "s < length (cc_states c2)" "ss_context (cc_states c2 ! s) = ?cx" using a(2,3) b(2) by simp_all
      obtain ro c3 where 3: "GetOrCreateRendererState s (Some (Some new_request_renderer)) c2 = (ro, c3)" by fastforce
      from GetOrCreate_sound [OF b(1) s2 3] obtain r L where r: "ro = Some r" "logged ?pl L r"
        "cache_sound plugins sha c3" "length (cc_states c3) = length (cc_states c2)" "ss_context (cc_states c3 ! s) = ?cx"
        by (simp only: scan_context.simps) blast
      obtain res r' where 4: "sanitize_request_with_renderer ?pl cw cx ?f (rq_Body req) (Some r) = (res, r')" by fastforce
      from sanitize_request_logs [OF 4 r(2)] obtain r'' L'' where r'': "r' = Some r''" "logged ?pl L'' r''" by blast
      have s3: "s < length (cc_states c3)" using s2(1) r(4) by simp
      let ?c4 = "StoreRendererState s r' c3"
      have "state_approved plugins sha (cc_states c3 ! s)" using r(3) s3 by (simp add: cache_sound_def)
      then have c4: "cache_sound plugins sha ?c4"
        unfolding StoreRendererState_def using r'' r(5)
        by (intro update_state_sound r(3) s3) (auto simp: state_approved_def Let_def)
      have s4: "s < length (cc_states ?c4)" "ss_context (cc_states ?c4 ! s) = ?cx"
        using s3 r(5) by (simp_all add: StoreRendererState_def update_state_def)
      show ?thesis
      proof (cases res)
        case (Inl e)
        with run False not_seen 1 2 3 4 r(1) sha have "resp = handle_failure ?pl ?f e" "cache' = ?c4"
          by (auto simp: intercept_request_def)
        with c4 show ?thesis by (simp add: outcome_failed)
      next
        case (Inr result)
        have app: "approved ?pl ?f (sr_body result)" unfolding approved_def using 4 Inr r(2) by blast
        have same: "\<not> sr_changed result \<Longrightarrow> sr_body result = rq_Body req" using unchanged_body 4 Inr by blast
        let ?out = "if sr_changed result then Some (sr_body result) else None"
        have "cache' = Record sha s (rq_Body req) ?out ?c4"
          "resp = (if sr_changed result then empty_response\<lparr>rp_Body := Some (sr_body result)\<rparr> else empty_response)"
          using run False not_seen 1 2 3 4 r(1) sha Inr by (auto simp: intercept_request_def)
        moreover have "cache_sound plugins sha (Record sha s (rq_Body req) ?out ?c4)"
        proof -
          have "(case ?out of None \<Rightarrow> rq_Body req | Some out \<Rightarrow> out) = sr_body result" using same by simp
          moreover have "state_approved plugins sha (cc_states ?c4 ! s)" using c4 s4(1) by (simp add: cache_sound_def)
          ultimately have "cache_sound plugins sha (update_state s (\<lambda>st. st\<lparr>ss_fingerprint := sha (case ?out of None \<Rightarrow> rq_Body req | Some out \<Rightarrow> out),
              ss_hasFingerprint := True\<rparr>) ?c4)"
            using app s4(2) by (intro update_state_sound c4 s4(1)) (auto simp: state_approved_def Let_def)
          then show ?thesis by (simp add: Record_def Let_def)
        qed
        moreover have "outcome uf ?pl sha req
            (if sr_changed result then empty_response\<lparr>rp_Body := Some (sr_body result)\<rparr> else empty_response)"
          using app same by (auto intro: outcome_redacted outcome_approved)
        ultimately show ?thesis by simp
      qed
    qed
  qed
qed

lemma cache_sound_reachable:
  assumes sha: "\<forall>v. pg_sha256 (plugins v) = sha"
  shows "reachable uf plugins c \<Longrightarrow> cache_sound plugins sha c"
proof (induction rule: reachable.induct)
  case (reachable_new ttl cap)
  show ?case by (rule cache_sound_new)
next
  case (reachable_request c revision now cw cx req)
  from intercept_request_outcome [OF sha reachable_request.IH prod.collapse [symmetric]] show ?case by blast
next
  case (reachable_complete c rid c')
  then have "c' = c \<or> c' = snd (Complete rid c)" by (auto simp: release_request_scan_state_def split: if_splits)
  moreover have "cache_sound plugins sha (snd (Complete rid c))"
    using Complete_ok [of c rid "fst (Complete rid c)" "snd (Complete rid c)"] reachable_complete.IH
    by (auto simp: cache_sound_def)
  ultimately show ?case using reachable_complete.IH by auto
next
  case (reachable_prune c now)
  then have "cache_ok c" by (simp add: cache_sound_def)
  with Prune_ok [of c now "fst (Prune now c)" "snd (Prune now c)"] reachable_prune.IH show ?case
    by (auto simp: cache_sound_def)
next
  case (reachable_clear c)
  then have "cache_ok c" by (simp add: cache_sound_def)
  then have "cache_ok (exec_op sha OpClear c)" by (rule exec_op_ok)
  with reachable_clear.IH show ?case by (simp add: cache_sound_def Clear_def)
qed

section \<open>Blocking rules in audit mode\<close>

text \<open>In audit mode no error carries a blocking rule.\<close>

abbreviation unblocked :: "sanitize_error set" where
  "unblocked \<equiv> {e. blocked_rule e = None}"

lemma fails_only_prod [fails_rules]: "(\<And>a b. fails_only E (f a b)) \<Longrightarrow> fails_only E (case p of (a, b) \<Rightarrow> f a b)"
  by (cases p) simp

lemma audit_text: "audit_mode pl \<Longrightarrow> fails_only unblocked (sanitize_text pl c text f)"
proof (rule fails_onlyI)
  fix s e t assume audit: "audit_mode pl" and run: "sanitize_text pl c text f s = (Inl e, t)"
  from run obtain red err p b r where "text_exit pl c text s red err (p, b, r) (Inl e) t"
    by (metis sanitize_text_exit prod.exhaust)
  then show "e \<in> unblocked" using audit by (auto simp: text_exit_def)
qed

lemma audit_frame: "fails_only unblocked (replace_z c d rs)" "fails_only unblocked (poll_z c)"
  by (auto simp: fails_only_def replace_z_def poll_z_def split: prod.split_asm sum.split_asm option.split_asm)

lemma audit_strings:
  "audit_mode pl \<Longrightarrow> (\<And>s c'. fails_only unblocked (nested s c')) \<Longrightarrow> fails_only unblocked (sanitize_strings nested pl c d outer is rs n)"
proof (induction "is" arbitrary: rs n)
  case (Cons i "is")
  then show ?case by (auto intro!: fails_rules audit_text split: option.split)
qed (simp add: fails_rules)

lemma audit_json_with:
  assumes audit: "audit_mode pl" and nested: "\<And>rec s c'. nested = Some rec \<Longrightarrow> fails_only unblocked (rec s c')"
  shows "fails_only unblocked (sanitize_json_with nested pl c allow str outer)"
proof -
  have plain: "fails_only unblocked (sanitize_plain pl c str outer)"
    unfolding sanitize_plain_def Let_def by (rule audit_text [OF audit])
  have doc: "fails_only unblocked (sanitize_document rec pl c str d outer)" if "nested = Some rec" for rec d
    unfolding sanitize_document_def by (intro fails_rules audit_strings audit_frame audit nested that)
  have "fails_only unblocked (\<lambda>s. case scan_encoded_json c str s of
         (Inl e, s) \<Rightarrow>
           if allow \<and> is_invalid_json e then sanitize_plain pl c str outer s
           else (Inl (EncodedJSON e), s)
       | (Inr d, s) \<Rightarrow>
           (case nested of
              None \<Rightarrow> (Inl (EncodedJSON DepthLimit), s)
            | Some rec \<Rightarrow> sanitize_document rec pl c str d outer s))"
    by (rule fails_onlyI)
      (auto split: prod.split_asm sum.split_asm if_split_asm option.split_asm
        dest: fails_onlyD [OF plain] fails_onlyD [OF doc])
  then show ?thesis
    unfolding sanitize_json_with_def Let_def by (intro fails_rules plain audit_text audit)
qed

lemma audit_json: "audit_mode pl \<Longrightarrow> fails_only unblocked (sanitize_json levels pl c allow str outer)"
proof (induction levels arbitrary: allow str outer)
  case 0
  then show ?case unfolding sanitize_json.simps by (rule audit_json_with) simp
next
  case (Suc levels)
  show ?case unfolding sanitize_json.simps by (rule audit_json_with [OF Suc.prems]) (use Suc in auto)
qed

lemma audit_target: "audit_mode pl \<Longrightarrow> fails_only unblocked (sanitize_target pl c t)"
  unfolding sanitize_target_def
  by (cases "tg_Mutable t") (simp_all add: audit_text audit_json fails_rules del: sanitize_json.simps)

lemma audit_targets: "audit_mode pl \<Longrightarrow> fails_only unblocked (sanitize_targets pl c ts rs n)"
proof (induction ts arbitrary: rs n)
  case (Cons t ts)
  have "fails_only unblocked (\<lambda>s. case sanitize_target pl c t s of
         (Inl e, s) \<Rightarrow> (Inl (TargetInspection (tg_Path t) e), s)
       | (Inr (v, found, changed), s) \<Rightarrow>
           sanitize_targets pl c ts
             (if changed \<and> \<not> audit_mode pl then rs @ [\<lparr>rp_token = tg_Token t, rp_value = v\<rparr>] else rs) (n + found) s)"
    by (rule fails_onlyI)
      (auto split: prod.split_asm sum.split_asm dest: fails_onlyD [OF audit_target [OF Cons.prems]] fails_onlyD [OF Cons.IH [OF Cons.prems]])
  then show ?case unfolding sanitize_targets.simps by (intro fails_rules audit_frame)
qed (simp add: fails_rules)

lemma audit_request:
  assumes audit: "audit_mode pl" and run: "sanitize_request_with_renderer pl cw c f body ro = (Inl e, ro')"
  shows "blocked_rule e = None"
proof -
  have "fails_only unblocked (sanitize_walked pl c body walked)" for walked
    unfolding sanitize_walked_def Let_def by (intro fails_rules audit_targets audit_frame audit)
  with run show ?thesis
    by (auto simp: sanitize_request_with_renderer_def new_request_inspection_budget_def dest: fails_onlyD
        split: sum.split_asm if_split_asm prod.split_asm)
qed

section \<open>A request through the interceptor\<close>

definition sample_intercepted :: request where
  "sample_intercepted = \<lparr>rq_RequestID = [], rq_Model = ''gpt'', rq_RequestedModel = [], rq_SourceFormat = ''openai'',
     rq_Body = message_body ''ip 8.8.8.8''\<rparr>"

abbreviation sample_cache :: "request_renderer cache" where
  "sample_cache \<equiv> new_request_scan_cache 100 4"

lemma sample_response:
  "\<exists>cache'. intercept_request (\<lambda>_ _. False) sample_plugin 1 0 never never sample_intercepted sample_cache =
     (empty_response\<lparr>rp_Body := Some (message_body ''ip [IP]'')\<rparr>, cache')"
proof -
  obtain res r' where run: "sample_request_run = (Inr res, r')" and body: "sr_body res = message_body ''ip [IP]''"
    and changed: "sr_changed res" by (rule sample_request_run)
  have "\<not> should_skip (\<lambda>_ _. False) (pg_cfg sample_plugin) ''gpt'' [] ''openai''"
    by (simp add: should_skip_def sample_plugin_def default_config_def)
  with run body changed show ?thesis
    by (simp add: intercept_request_def sample_intercepted_def Acquire_def count_metric_def alloc_state_def
        new_scan_state_def Seen_def GetOrCreateRendererState_def StoreRendererState_def update_state_def
        new_request_scan_cache_def Let_def) (simp add: message_body_def)
qed

section \<open>Properties\<close>

lemma forwarded_terminated: "forwarded req (terminate_request f status code message) = None"
  by (simp add: forwarded_def terminate_request_def)

lemma outcome_forwarded:
  assumes "outcome uf pl sha req resp" "forwarded req resp = Some b"
  shows "should_skip uf (pg_cfg pl) (rq_Model req) (rq_RequestedModel req) (rq_SourceFormat req) \<or>
    pc_OnError (pg_cfg pl) = onErrorPassthrough \<or> (\<exists>b'. sha b' = sha b \<and> approved pl (rq_SourceFormat req) b')"
  using assms(1)
proof cases
  case (outcome_approved b')
  with assms(2) have "b = rq_Body req" by (simp add: forwarded_def empty_response_def)
  with outcome_approved show ?thesis by auto
next
  case (outcome_redacted b')
  with assms(2) show ?thesis by (auto simp: forwarded_def empty_response_def)
next
  case (outcome_failed e)
  with assms(2) show ?thesis by (auto simp: handle_failure_def forwarded_terminated split: if_split_asm)
qed simp

text \<open>
  C1: Nothing leaves uninspected. Whatever requests, retries, completions and reconfigurations came
  before, a body that the host may forward is one that a redaction by the plugin in charge returned
  for this source format (up to a collision of the digest), unless the request is skipped by
  configuration or failures are configured to pass.
\<close>

theorem nothing_forwarded_uninspected:
  "\<forall>v. pg_sha256 (plugins v) = sha \<Longrightarrow> reachable uf plugins cache \<Longrightarrow>
   intercept_request uf (plugins revision) revision now cw cx req cache = (resp, cache') \<Longrightarrow>
   forwarded req resp = Some b \<Longrightarrow>
   should_skip uf (pg_cfg (plugins revision)) (rq_Model req) (rq_RequestedModel req) (rq_SourceFormat req) \<or>
   pc_OnError (pg_cfg (plugins revision)) = onErrorPassthrough \<or>
   (\<exists>b'. sha b' = sha b \<and> approved (plugins revision) (rq_SourceFormat req) b')"
proof -
  assume sha: "\<forall>v. pg_sha256 (plugins v) = sha" and c: "reachable uf plugins cache"
    and run: "intercept_request uf (plugins revision) revision now cw cx req cache = (resp, cache')"
    and fwd: "forwarded req resp = Some b"
  from intercept_request_outcome [OF sha cache_sound_reachable [OF sha c] run]
  have "outcome uf (plugins revision) sha req resp" by simp
  from outcome_forwarded [OF this fwd] show ?thesis .
qed

theorem nothing_forwarded_uninspected_witness:
  "\<exists>resp cache'. intercept_request (\<lambda>_ _. False) sample_plugin 1 0 never never sample_intercepted sample_cache = (resp, cache') \<and>
     forwarded sample_intercepted resp = Some (message_body ''ip [IP]'') \<and>
     approved sample_plugin ''openai'' (message_body ''ip [IP]'')"
proof -
  obtain cache' where run: "intercept_request (\<lambda>_ _. False) sample_plugin 1 0 never never sample_intercepted sample_cache =
     (empty_response\<lparr>rp_Body := Some (message_body ''ip [IP]'')\<rparr>, cache')" using sample_response by blast
  let ?plugins = "\<lambda>_ :: 64 word. sample_plugin"
  have sha: "\<forall>v. pg_sha256 (?plugins v) = (\<lambda>s. s)" by (simp add: sample_plugin_def)
  have fwd: "forwarded sample_intercepted (empty_response\<lparr>rp_Body := Some (message_body ''ip [IP]'')\<rparr>) =
     Some (message_body ''ip [IP]'')" by (simp add: forwarded_def empty_response_def)
  have "\<not> should_skip (\<lambda>_ _. False) (pg_cfg sample_plugin) (rq_Model sample_intercepted)
     (rq_RequestedModel sample_intercepted) (rq_SourceFormat sample_intercepted)"
    "pc_OnError (pg_cfg sample_plugin) \<noteq> onErrorPassthrough"
    by (simp_all add: should_skip_def sample_plugin_def default_config_def)
  with nothing_forwarded_uninspected [OF sha reachable_new run fwd]
  have "approved sample_plugin ''openai'' (message_body ''ip [IP]'')" by (simp add: sample_intercepted_def)
  with run fwd show ?thesis by blast
qed

text \<open>The response to a failure is a function of the source format and of the class of the failure.\<close>

definition failed_with :: "string \<Rightarrow> string \<Rightarrow> response" where
  "failed_with f reason =
    (if reason = ''blocked_rule'' then
       terminate_request f 422 ''privacy_filter_rejected'' ''request blocked by privacy policy''
     else if reason = ''limit_exceeded'' then
       terminate_request f 413 ''privacy_filter_limit_exceeded'' ''request exceeds privacy inspection limits''
     else if reason = ''unsupported_shape'' then
       terminate_request f 422 ''privacy_filter_unsupported_shape'' ''request shape is not safely inspectable''
     else if reason = ''invalid_json'' then
       terminate_request f 400 ''privacy_filter_invalid_json'' ''request body is not valid JSON''
     else
       terminate_request f 503 ''privacy_filter_internal_error'' ''privacy filter could not safely inspect the request'')"

lemma handle_failure_class:
  assumes "pc_OnError (pg_cfg pl) \<noteq> onErrorPassthrough \<or> blocked_rule e \<noteq> None"
  shows "handle_failure pl f e = failed_with f (failure_reason e)"
proof -
  have distinct: "''limit_exceeded'' \<noteq> ''blocked_rule''" "''unsupported_shape'' \<noteq> ''blocked_rule''"
    "''unsupported_shape'' \<noteq> ''limit_exceeded''" "''invalid_json'' \<noteq> ''blocked_rule''"
    "''invalid_json'' \<noteq> ''limit_exceeded''" "''invalid_json'' \<noteq> ''unsupported_shape''"
    "''internal_error'' \<noteq> ''blocked_rule''" "''internal_error'' \<noteq> ''limit_exceeded''"
    "''internal_error'' \<noteq> ''unsupported_shape''" "''internal_error'' \<noteq> ''invalid_json''" by simp_all
  from assms consider (blocked) "blocked_rule e \<noteq> None"
    | (other) "blocked_rule e = None" "pc_OnError (pg_cfg pl) \<noteq> onErrorPassthrough" by blast
  then show ?thesis
  proof cases
    case other
    then show ?thesis
      by (cases "is_limit_error e"; cases "is_unsupported_error e"; cases "is_json_error e")
        (simp_all only: handle_failure_def failed_with_def failure_reason_def simp_thms if_True if_False distinct)
  qed (simp only: handle_failure_def failed_with_def failure_reason_def if_True if_False simp_thms)
qed

lemma failed_with_shape:
  "rp_Terminate (failed_with f r)" "rp_Body (failed_with f r) = None"
  "rp_StatusCode (failed_with f r) \<in> {400, 413, 422, 503}"
proof -
  have f: "rp_Terminate (terminate_request f c m n)" "rp_Body (terminate_request f c m n) = None"
    "rp_StatusCode (terminate_request f c m n) = int c" for c m n
    by (simp_all add: terminate_request_def)
  show "rp_Terminate (failed_with f r)" "rp_Body (failed_with f r) = None"
    by (simp_all only: failed_with_def if_distrib [of rp_Terminate] if_distrib [of rp_Body] f if_cancel)
  have "rp_StatusCode (failed_with f r) = (if r = ''blocked_rule'' then 422 else if r = ''limit_exceeded'' then 413
      else if r = ''unsupported_shape'' then 422 else if r = ''invalid_json'' then 400 else 503)"
    by (simp only: failed_with_def if_distrib [of rp_StatusCode] f of_nat_numeral)
  then show "rp_StatusCode (failed_with f r) \<in> {400, 413, 422, 503}" by (simp only: insert_iff simp_thms split: if_split)
qed



lemma audit_request_unchanged:
  "audit_mode pl \<Longrightarrow> sanitize_request_with_renderer pl cw c f body ro = (Inr res, ro') \<Longrightarrow> \<not> sr_changed res"
  by (auto simp: sanitize_request_with_renderer_def sanitize_walked_def walk_counts_def Let_def bind_Inr_iff
      split: sum.split_asm if_split_asm prod.split_asm)

lemma unblocked_failure:
  "blocked_rule e = None \<Longrightarrow> rp_Body (handle_failure pl f e) = None \<and>
   (pc_OnError (pg_cfg pl) = onErrorPassthrough \<longrightarrow> handle_failure pl f e = empty_response)"
proof -
  assume e: "blocked_rule e = None"
  show ?thesis
  proof (cases "pc_OnError (pg_cfg pl) = onErrorPassthrough")
    case True
    with e show ?thesis by (simp add: handle_failure_def empty_response_def)
  next
    case False
    then have "handle_failure pl f e = failed_with f (failure_reason e)" by (intro handle_failure_class disjI1)
    with False show ?thesis by (simp add: failed_with_shape)
  qed
qed

text \<open>
  C15: In audit mode the filter only observes. Whatever state the cache is in, no response replaces a
  body, so the host forwards the request as it came or not at all; and when failures pass, the
  response is always the empty one, even when the text matches a blocking rule.
\<close>

theorem audit_only_observes:
  "audit_mode pl \<Longrightarrow> intercept_request uf pl revision now cw cx req cache = (resp, cache') \<Longrightarrow>
   rp_Body resp = None \<and> forwarded req resp \<in> {None, Some (rq_Body req)} \<and>
   (pc_OnError (pg_cfg pl) = onErrorPassthrough \<longrightarrow> resp = empty_response)"
proof -
  assume audit: "audit_mode pl" and run: "intercept_request uf pl revision now cw cx req cache = (resp, cache')"
  define ok where "ok r \<longleftrightarrow> r = empty_response \<or> (\<exists>e. blocked_rule e = None \<and> r = handle_failure pl (rq_SourceFormat req) e)" for r
  have ok: "ok empty_response" "\<And>e. blocked_rule e = None \<Longrightarrow> ok (handle_failure pl (rq_SourceFormat req) e)"
    by (auto simp: ok_def)
  have "ok resp"
    using run audit_request [OF audit] audit_request_unchanged [OF audit] ok(1)
    by (auto simp: intercept_request_def Let_def intro!: ok(2)
        split: if_split_asm prod.split_asm bool.split_asm option.split_asm sum.split_asm)
  then have "rp_Body resp = None \<and> (pc_OnError (pg_cfg pl) = onErrorPassthrough \<longrightarrow> resp = empty_response)"
    using unblocked_failure by (auto simp: ok_def empty_response_def)
  then show ?thesis by (simp add: forwarded_def)
qed

theorem audit_only_observes_witness:
  "rp_Body (fst (intercept_request (\<lambda>_ _. False) audit_plugin 1 0 never never sample_intercepted sample_cache)) = None"
proof -
  have "audit_mode audit_plugin" by (simp add: audit_mode_def audit_plugin_def)
  from audit_only_observes [OF this prod.collapse [symmetric]] show ?thesis by blast
qed

section \<open>Log values\<close>

lemma runes_valid: "list_all valid_rune (runes s)"
proof (induction s rule: runes.induct)
  case (1 s)
  have "valid_rune (fst (decode_rune s))" if "s \<noteq> []"
    using encode_decode(1) [OF that] rune_error_valid by (cases "bad_rune (decode_rune s)") (auto simp: bad_rune_def)
  with 1 show ?case by (cases "s = []") (simp_all add: runes.simps [of s] runes.simps [of "[]"])
qed

lemma encode_rune_length: "encode_rune r \<noteq> [] \<and> length (encode_rune r) \<le> 4"
  by (simp add: encode_rune_def replacement_bytes_def)

lemma runes_encode: "list_all valid_rune rs \<Longrightarrow> runes (concat (map encode_rune rs)) = rs"
proof (induction rs)
  case (Cons r rs)
  let ?s = "encode_rune r @ concat (map encode_rune rs)"
  from Cons.prems have "decode_rune ?s = (r, length (encode_rune r))" by (simp add: decode_encode)
  with encode_rune_length [of r] Cons show ?case
    by (simp add: runes.simps [of ?s] max_def Suc_le_eq)
qed (simp add: runes.simps)

lemma concat_runes_length: "length (concat (map encode_rune rs)) \<le> 4 * length rs"
proof (induction rs)
  case (Cons r rs)
  with encode_rune_length [of r] show ?case by simp
qed simp

lemma encode_rune_printed:
  assumes "valid_rune r" "log_rune r" "c \<in> set (encode_rune r)"
  shows "32 \<le> byte_of c \<and> byte_of c \<noteq> 127"
proof (cases "r < 128")
  case True
  with assms show ?thesis by (auto simp: encode_rune_def log_rune_def of_char_of)
next
  case False
  have high: "\<exists>m. 128 \<le> m \<and> m < 256 \<and> byte n = byte m" if "128 \<le> n" "n < 256" for n
    using that by blast
  have "r < 2048 \<Longrightarrow> r div 64 < 64" "r < 65536 \<Longrightarrow> r div 4096 < 16" "r \<le> 1114111 \<Longrightarrow> r div 262144 < 5"
    by (simp_all add: less_mult_imp_div_less)
  moreover have "r mod 64 < 64" "r div 64 mod 64 < 64" "r div 4096 mod 64 < 64" by simp_all
  moreover note False assms(1,3)
  ultimately have "\<exists>n. 128 \<le> n \<and> n < 256 \<and> c = byte n"
    by (auto simp: encode_rune_def valid_rune_def intro!: high split: if_split_asm)
  then show ?thesis by (auto simp: of_char_of)
qed

lemma log_runes:
  "list_all valid_rune (take 128 (filter log_rune (runes s)))" "list_all log_rune (take 128 (filter log_rune (runes s)))"
  using runes_valid [of s] by (auto simp: list_all_iff dest: in_set_takeD)

lemma safe_log_value_one_line: "list_all (\<lambda>c. 32 \<le> byte_of c \<and> byte_of c \<noteq> 127) (safe_log_value s)"
  using log_runes [of s] unfolding safe_log_value_def list_all_iff set_concat set_map by (blast dest: encode_rune_printed)

text \<open>
  C34: What a log line shows of a value stays on one line and is bounded: no control byte, at most 512
  bytes. It is well-formed, and reading it back gives exactly the first 128 runes of the value that
  may be shown; cleaning it again changes nothing.
\<close>

theorem log_value_roundtrip:
  "runes (safe_log_value s) = take 128 (filter log_rune (runes s)) \<and>
   safe_log_value (safe_log_value s) = safe_log_value s \<and>
   length (safe_log_value s) \<le> 512 \<and> list_all (\<lambda>c. 32 \<le> byte_of c \<and> byte_of c \<noteq> 127) (safe_log_value s)"
proof -
  let ?rs = "take 128 (filter log_rune (runes s))"
  note rs = log_runes [of s]
  have runes: "runes (safe_log_value s) = ?rs" unfolding safe_log_value_def by (rule runes_encode [OF rs(1)])
  moreover have "filter log_rune ?rs = ?rs" using rs(2) unfolding list_all_iff by (rule filter_True)
  with runes have "take 128 (filter log_rune (runes (safe_log_value s))) = ?rs" by (simp only: take_take min.idem)
  then have "safe_log_value (safe_log_value s) = safe_log_value s"
    using safe_log_value_def [of "safe_log_value s"] safe_log_value_def [of s] by metis
  moreover have "length (safe_log_value s) \<le> 4 * length ?rs" unfolding safe_log_value_def by (rule concat_runes_length)
  then have "length (safe_log_value s) \<le> 512" by (rule order_trans) simp
  moreover note safe_log_value_one_line [of s]
  ultimately show ?thesis by blast
qed

section \<open>Diagnostics\<close>

text \<open>Two segments that differ in a key that is not one of the known keys.\<close>

definition same_segment :: "path_segment \<Rightarrow> path_segment \<Rightarrow> bool" where
  "same_segment a b \<longleftrightarrow> a = b \<or>
     (\<exists>k k'. a = Key k \<and> b = Key k' \<and> \<not> safe_diagnostic_key k \<and> \<not> safe_diagnostic_key k')"

abbreviation same_path :: "path \<Rightarrow> path \<Rightarrow> bool" where
  "same_path \<equiv> list_all2 same_segment"

lemma same_segment_diagnostic: "same_segment a b \<Longrightarrow> diagnostic_segment a = diagnostic_segment b"
  by (auto simp: same_segment_def diagnostic_segment_def)

lemma same_path_segments: "same_path p q \<Longrightarrow> diagnostic_segments n p = diagnostic_segments n q"
  by (induction n p arbitrary: q rule: diagnostic_segments.induct) (auto simp: list_all2_Cons1 same_segment_diagnostic)

lemma same_path_diagnostic: "same_path p q \<Longrightarrow> safe_diagnostic_path p = safe_diagnostic_path q"
  by (simp add: safe_diagnostic_path_def same_path_segments)

lemma same_paths_diagnostic:
  "list_all2 (\<lambda>p q. same_path (path_or_nil p) (path_or_nil q)) ps qs \<Longrightarrow> safe_diagnostic_paths ps = safe_diagnostic_paths qs"
  unfolding safe_diagnostic_paths_def
  by (rule nth_equalityI) (auto simp: list_all2_conv_all_nth same_path_diagnostic)

definition printable :: "string \<Rightarrow> bool" where
  "printable s \<longleftrightarrow> list_all (\<lambda>c. 32 \<le> byte_of c \<and> byte_of c < 127) s"

lemma printable_append [simp]: "printable (s @ t) \<longleftrightarrow> printable s \<and> printable t"
  by (simp add: printable_def)

lemma printable_Cons: "printable (c # s) \<longleftrightarrow> 32 \<le> byte_of c \<and> byte_of c < 127 \<and> printable s"
  by (simp add: printable_def)

lemma printable_quoted [simp]: "printable (quoted s) \<longleftrightarrow> printable s"
  by (simp add: quoted_def printable_Cons) (simp add: printable_def)

lemma printable_safe_key: "safe_diagnostic_key k \<Longrightarrow> printable k"
proof -
  have "list_all printable safe_keys" by code_simp
  then show "safe_diagnostic_key k \<Longrightarrow> printable k" by (simp add: safe_diagnostic_key_def list_all_iff)
qed

lemma printable_itoa: "printable (itoa n)"
proof (induction n rule: itoa.induct)
  case (1 n)
  have "48 + n mod 10 < 256" by (rule less_trans [of _ 58]) simp_all
  then have "printable [byte (48 + n mod 10)]" by (simp add: printable_def of_char_of)
  with 1 show ?case
    by (cases "n < 10") (simp_all add: itoa.simps [of n])
qed

lemma printable_constants:
  "printable ''[''" "printable '']''" "printable ''<redacted>''" "printable ''<invalid>''" "printable ''<truncated>''" "printable ''$''"
  by code_simp+

lemma printable_segments: "printable (diagnostic_segments n p)"
proof (induction n p rule: diagnostic_segments.induct)
  case (2 n seg segs)
  have "printable (diagnostic_segment seg)"
    unfolding diagnostic_segment_def
    by (simp only: printable_append printable_quoted printable_constants printable_itoa simp_thms
        split: option.split if_split) (blast intro: printable_safe_key)
  with 2 show ?case
    by (cases "n = 32") (simp_all only: diagnostic_segments.simps printable_append printable_quoted printable_constants if_True if_False simp_thms)
qed (simp add: printable_def)

definition one_line :: "string \<Rightarrow> bool" where
  "one_line s \<longleftrightarrow> list_all (\<lambda>c. 32 \<le> byte_of c \<and> byte_of c \<noteq> 127) s"

definition one_line_value :: "log_value \<Rightarrow> bool" where
  "one_line_value v = (case v of LogString s \<Rightarrow> one_line s | LogInt _ \<Rightarrow> True)"

lemma printable_one_line: "printable s \<Longrightarrow> one_line s"
  by (auto simp: printable_def one_line_def list_all_iff)

lemma printable_path: "printable (safe_diagnostic_path p)"
  unfolding safe_diagnostic_path_def by (simp only: printable_append printable_constants printable_segments simp_thms)

lemma printable_commas: "list_all printable ps \<Longrightarrow> printable (concat (map (\<lambda>z. '','' @ z) ps))"
proof (induction ps)
  case (Cons p ps)
  have "printable '',''" by code_simp
  with Cons show ?case by (simp only: list.map concat.simps list.pred_inject printable_append simp_thms)
qed (simp add: printable_def)

lemma printable_comma_join: "list_all printable ps \<Longrightarrow> printable (comma_join ps)"
  using printable_commas [of "tl ps"]
  by (cases ps) (simp_all only: comma_join_def list.case list.sel list.pred_inject printable_append simp_thms, simp add: printable_def)

lemma printable_diagnostic:
  "printable (fst (failure_diagnostic e)) \<and> list_all printable (snd (snd (failure_diagnostic e)))"
proof -
  have constants: "printable ''unsupported_shape''" "printable ''target_limit''" "printable ''encoded_json_invalid''"
    "printable ''target_unsupported''" "printable ''target_inspection''" "printable ''invalid_shape''"
    "printable ''ambiguous_path''" "printable []" by code_simp+
  have paths: "list_all printable (safe_diagnostic_paths ps)" for ps
    by (simp add: safe_diagnostic_paths_def list_all_iff printable_path)
  show ?thesis
    by (cases e rule: failure_diagnostic.cases)
      (simp_all only: failure_diagnostic.simps fst_conv snd_conv constants paths list.pred_inject printable_path simp_thms
        split: if_split)
qed

lemma printable_reason: "printable (failure_reason e)"
proof -
  have "printable ''blocked_rule''" "printable ''limit_exceeded''" "printable ''unsupported_shape''"
    "printable ''invalid_json''" "printable ''internal_error''" by code_simp+
  then show ?thesis unfolding failure_reason_def by (simp only: simp_thms split: if_split)
qed



end
