(* ===== verification/Lifecycle.thy ===== *)
theory Lifecycle
  imports Interceptor
begin

text \<open>
  Building and registering a plugin (\<open>main.go\<close> and the sequential parts of \<open>abi.go\<close>): the runtime
  that survives reconfigurations, the plugin a configuration gives, the negotiated schema, and the
  envelopes that go back to the host. An envelope stands for its JSON; the types of the host's SDK
  inside it are those of the model.
\<close>

section \<open>The surroundings of the plugin\<close>

text \<open>
  What the plugin uses that is not part of it: the decoders, the file system, the score of the second
  opinion, \<open>json.Unmarshal\<close> at the types of the host's SDK, the text of an error, and the names of the
  methods, which are different constants of the SDK.
\<close>

datatype abi_error =
    ErrDecode
  | ErrShuttingDown
  | ErrNotRegistered
  | ErrBuild config_error
  | ErrSubstitutionLog
  | ErrFailClosedSchema

record surroundings =
  ae_tools :: tools
  ae_yaml :: yaml_decoder
  ae_toml :: toml_decoder
  ae_regexp :: re_compiler
  ae_files :: rule_files
  ae_score :: "string \<Rightarrow> rat option"
  ae_fold :: "string \<Rightarrow> string \<Rightarrow> bool"
  ae_openLog :: "string \<Rightarrow> bool"
  ae_pluginDir :: string
  ae_lifecycle :: "string \<Rightarrow> (string \<times> 32 word \<times> string) option"
  ae_intercept :: "string \<Rightarrow> request option"
  ae_completion :: "string \<Rightarrow> string option"
  ae_errorText :: "abi_error \<Rightarrow> string"
  ae_register :: string
  ae_reconfigure :: string
  ae_quiesce :: string
  ae_complete :: string
  ae_before :: string
  ae_after :: string

section \<open>The runtime\<close>

record runtime =
  rt_cache :: "request_renderer cache"
  rt_revision :: "64 word"

text \<open>Ten minutes, in nanoseconds.\<close>

definition default_request_cache_ttl :: int where
  "default_request_cache_ttl = 600000000000"

definition default_request_cache_max_entries :: int where
  "default_request_cache_max_entries = 4096"

definition new_runtime_state :: runtime where
  "new_runtime_state =
     \<lparr>rt_cache = new_request_scan_cache default_request_cache_ttl default_request_cache_max_entries, rt_revision = 0\<rparr>"

definition next_revision :: "runtime \<Rightarrow> 64 word \<times> runtime" where
  "next_revision rt = (rt_revision rt + 1, rt\<lparr>rt_revision := rt_revision rt + 1\<rparr>)"

section \<open>Building a plugin\<close>

text \<open>
  \<open>privacyFilterPlugin\<close> with its revision, the runtime whose cache it points to, and the path of its
  substitution log.
\<close>

record registered =
  rg_plugin :: plugin
  rg_revision :: "64 word"
  rg_runtime :: nat
  rg_subLog :: "string option"

definition assemble :: "surroundings \<Rightarrow> plugin_config \<Rightarrow> engine \<Rightarrow> (finding_kind \<rightharpoonup> string) \<Rightarrow> plugin" where
  "assemble env cfg engine ph =
     \<lparr>pg_cfg = cfg, pg_tools = ae_tools env, pg_engine = engine, pg_placeholders = ph,
      pg_blockRuleIDs = block_rule_set cfg, pg_sha256 = rf_sha256 (ae_files env), pg_score = ae_score env\<rparr>"

text \<open>The revision is taken before the rules are loaded, so a build that fails uses one up.\<close>

definition build_plugin_with_runtime :: "surroundings \<Rightarrow> nat \<Rightarrow> string \<Rightarrow> string \<Rightarrow> runtime \<Rightarrow>
    (abi_error + registered) \<times> runtime" where
  "build_plugin_with_runtime env ix config_yaml plugin_dir rt =
    (case parse_config (ae_tools env) (ae_yaml env) config_yaml of
       Inl e \<Rightarrow> (Inl (ErrBuild e), rt)
     | Inr cfg \<Rightarrow>
         let dir = (if plugin_dir = [] then ae_pluginDir env else plugin_dir) in
         (case next_revision rt of
            (revision, rt) \<Rightarrow>
              (case new_engine (ae_tools env) (ae_toml env) (ae_regexp env) (ae_files env) dir cfg of
                 Inl e \<Rightarrow> (Inl (ErrBuild e), rt)
               | Inr engine \<Rightarrow>
                   (case validate_replacement_safety (ae_tools env) engine (pc_Replacements cfg) of
                      Some e \<Rightarrow> (Inl (ErrBuild e), rt)
                    | None \<Rightarrow>
                        (case renderer_of (ae_tools env) cfg of
                           Inl e \<Rightarrow> (Inl (ErrBuild e), rt)
                         | Inr ph \<Rightarrow>
                             let path = effective_path (pc_SubstitutionLog cfg); logs = sl_Enabled (pc_SubstitutionLog cfg) in
                             if logs \<and> \<not> (trim_space path \<noteq> [] \<and> ae_openLog env path) then (Inl ErrSubstitutionLog, rt)
                             else
                               (Inr \<lparr>rg_plugin = assemble env cfg engine ph, rg_revision = revision, rg_runtime = ix,
                                     rg_subLog = (if logs then Some path else None)\<rparr>, rt))))))"

definition build_plugin :: "surroundings \<Rightarrow> string \<Rightarrow> string \<Rightarrow> (abi_error + registered) \<times> runtime" where
  "build_plugin env config_yaml plugin_dir = build_plugin_with_runtime env 0 config_yaml plugin_dir new_runtime_state"

section \<open>Registration\<close>

datatype field_type = FieldEnum | FieldString | FieldBoolean | FieldArray | FieldObject

record config_field =
  cf_Name :: string
  cf_Type :: field_type
  cf_EnumValues :: "string list"
  cf_Description :: string

record metadata =
  md_Name :: string
  md_Version :: string
  md_Author :: string
  md_GitHubRepository :: string
  md_ConfigFields :: "config_field list"

definition config_field_of :: "string \<Rightarrow> field_type \<Rightarrow> string list \<Rightarrow> string \<Rightarrow> config_field" where
  "config_field_of name type enum description =
     \<lparr>cf_Name = name, cf_Type = type, cf_EnumValues = enum, cf_Description = description\<rparr>"

definition plugin_metadata :: metadata where
  "plugin_metadata =
     \<lparr>md_Name = ''privacyfilter'', md_Version = ''0.3.13'', md_Author = ''ahoo (fork of rheodev)'',
      md_GitHubRepository = ''https://github.com/ahoo/cpa-plugin-privacyfilter'',
      md_ConfigFields =
       [config_field_of ''mode'' FieldEnum [modeRedact, modeAudit]
          ''Redact findings or audit without modifying requests.'',
        config_field_of ''on_error'' FieldEnum [onErrorBlock, onErrorPassthrough]
          ''Block by default when a request cannot be safely inspected, or explicitly pass it through.'',
        config_field_of ''gitleaks_toml'' FieldString []
          ''Path to custom Gitleaks TOML. Empty uses the embedded pinned rules.'',
        config_field_of ''gitleaks_mode'' FieldEnum [customRulesExtend, customRulesReplace]
          ''Extend or replace embedded rules. Omitted with a custom file preserves legacy replace behavior.'',
        config_field_of ''allow_unsupported_rules'' FieldBoolean []
          ''Allow explicitly reported unsupported semantics in a custom rule file.'',
        config_field_of ''block_rule_ids'' FieldArray []
          ''Rule IDs that terminate the request instead of redacting it.'',
        config_field_of ''replacements'' FieldObject []
          ''Typed placeholder overrides for email, phone, id_card, bank_card, ip, and secret.'',
        config_field_of ''limits'' FieldObject []
          ''Bounded JSON scanning, text, finding, and replacement budgets.'',
        config_field_of ''skip_models'' FieldArray []
          ''Trusted break-glass model names to bypass inspection.'',
        config_field_of ''skip_formats'' FieldArray []
          ''Trusted break-glass source formats to bypass inspection.'',
        config_field_of ''substitution_log'' FieldObject []
          ''Optional log of substitutions. Default: enabled false, path logs/privacyfilter-substitutions.jsonl. When enabled, appends timestamped original values to that JSONL file. Rotation is provided by the host logrotate rule.'']\<rparr>"

record registration =
  rs_SchemaVersion :: "32 word"
  rs_Metadata :: metadata
  rs_RequestInterceptor :: bool
  rs_RequestLifecyclePlugin :: bool

definition implemented_schema_version :: "32 word" where
  "implemented_schema_version = 2"

definition legacy_schema_version :: "32 word" where
  "legacy_schema_version = 1"

definition negotiate_schema_version :: "32 word \<Rightarrow> 32 word" where
  "negotiate_schema_version host =
    (let host = (if host = 0 then legacy_schema_version else host) in
     if host < implemented_schema_version then host else implemented_schema_version)"

text \<open>The decision of \<open>handlePrivacyFilterRegister\<close> on a plugin that was built.\<close>

definition check_schema :: "plugin \<Rightarrow> 32 word \<Rightarrow> abi_error + registration" where
  "check_schema pl host =
    (let negotiated = negotiate_schema_version host in
     if negotiated < implemented_schema_version \<and>
        (pc_OnError (pg_cfg pl) = onErrorBlock \<or> pg_blockRuleIDs pl \<noteq> {}) then Inl ErrFailClosedSchema
     else Inr \<lparr>rs_SchemaVersion = negotiated, rs_Metadata = plugin_metadata, rs_RequestInterceptor = True,
               rs_RequestLifecyclePlugin = (negotiated \<ge> implemented_schema_version)\<rparr>)"

section \<open>Envelopes\<close>

datatype envelope =
    EnvEmpty
  | EnvRegistration registration
  | EnvResponse response
  | EnvError string string

definition is_request_intercept_method :: "surroundings \<Rightarrow> string \<Rightarrow> bool" where
  "is_request_intercept_method env m \<longleftrightarrow> m = ae_before env \<or> m = ae_after env"

text \<open>The codes and messages of a failed interception are constants of plain ASCII.\<close>

definition abi_failure_envelope :: "surroundings \<Rightarrow> string \<Rightarrow> int \<Rightarrow> string \<Rightarrow> string \<Rightarrow> envelope" where
  "abi_failure_envelope env m status code message =
    (if m = ae_before env \<or> m = ae_after env then
       EnvResponse
         \<lparr>rp_Terminate = True, rp_StatusCode = status,
          rp_ResponseHeaders = [(''Content-Type'', [''application/json''])],
          rp_ResponseBody = json_object [(''error'', json_object [(''message'', quoted message), (''type'', quoted code)])],
          rp_Body = None\<rparr>
     else EnvError code message)"

definition abi_panic_envelope :: "surroundings \<Rightarrow> string \<Rightarrow> envelope" where
  "abi_panic_envelope env m =
     abi_failure_envelope env m 503 ''plugin_panic'' ''privacy filter recovered an internal panic and failed closed''"

definition deadline_envelope :: "surroundings \<Rightarrow> string \<Rightarrow> envelope" where
  "deadline_envelope env m =
     abi_failure_envelope env m 503 ''privacy_filter_deadline'' ''privacy filter inspection deadline exceeded''"

definition plugin_error_envelope :: "surroundings \<Rightarrow> string \<Rightarrow> abi_error \<Rightarrow> envelope" where
  "plugin_error_envelope env m e =
     abi_failure_envelope env m 503 ''plugin_error''
       (if m = ae_register env \<or> m = ae_reconfigure env then ae_errorText env e
        else ''privacy filter could not safely inspect the request'')"

section \<open>What is registered\<close>

text \<open>\<open>built env p\<close>: \<open>p\<close> comes out of a build, from some configuration.\<close>

definition built :: "surroundings \<Rightarrow> registered \<Rightarrow> bool" where
  "built env p \<longleftrightarrow> (\<exists>ix config_yaml dir rt rt'. build_plugin_with_runtime env ix config_yaml dir rt = (Inr p, rt'))"

lemma build_result:
  assumes "build_plugin_with_runtime env ix config_yaml dir rt = (Inr p, rt')"
  shows "rt' = rt\<lparr>rt_revision := rt_revision rt + 1\<rparr>" "rg_revision p = rt_revision rt + 1" "rg_runtime p = ix"
    "pg_sha256 (rg_plugin p) = rf_sha256 (ae_files env)"
  using assms
  by (auto simp: build_plugin_with_runtime_def next_revision_def assemble_def Let_def
      split: sum.split_asm option.split_asm if_split_asm)

lemma build_error:
  assumes "build_plugin_with_runtime env ix config_yaml dir rt = (Inl e, rt')"
  shows "rt' = rt \<or> rt' = rt\<lparr>rt_revision := rt_revision rt + 1\<rparr>"
  using assms
  by (auto simp: build_plugin_with_runtime_def next_revision_def Let_def
      split: sum.split_asm option.split_asm if_split_asm)

lemma failure_intercept:
  "m = ae_before env \<or> m = ae_after env \<Longrightarrow>
   \<exists>resp. abi_failure_envelope env m status code message = EnvResponse resp \<and> rp_Terminate resp \<and> rp_Body resp = None"
  by (auto simp: abi_failure_envelope_def)

section \<open>A registered plugin\<close>

lemma default_fields:
  "pc_Mode default_config = modeRedact" "pc_OnError default_config = onErrorBlock" "pc_GitleaksMode default_config = []"
  "pc_Replacements default_config = []" "pc_BlockRuleIDs default_config = []" "sl_Path (pc_SubstitutionLog default_config) = []"
  "sl_Enabled (pc_SubstitutionLog default_config) = False" "ml_Mode (pc_MLAssist default_config) = []"
  "ml_Threshold (pc_MLAssist default_config) = 0" "lc_MaxTextBytes (pc_Limits default_config) = hard_max_text_bytes"
  "lc_MaxTextNodes (pc_Limits default_config) = hard_max_text_nodes" "lc_MaxFindings (pc_Limits default_config) = hard_max_findings"
  by (simp_all add: default_config_def)

lemma validate_default: "validate ts default_config = None"
proof -
  have "normalized (payload_limits default_config) = Inr DefaultLimits" by code_simp
  moreover have "\<not> log_path_escapes []" by code_simp
  moreover have "0 < hard_max_text_bytes" "0 < hard_max_text_nodes" "0 < hard_max_findings" by code_simp+
  ultimately show ?thesis by (simp add: validate_def Let_def default_fields)
qed

lemma parse_config_valid: "parse_config ts yaml src = Inr cfg \<Longrightarrow> validate ts cfg = None"
  by (auto simp: parse_config_def Let_def validate_default
      split: if_split_asm option.split_asm prod.split_asm yaml_rest.split_asm)

lemma replacements_safe:
  "validate_replacement_safety ts e rs = None \<Longrightarrow> (name, replacement) \<in> set rs \<Longrightarrow> replacement \<noteq> [] \<Longrightarrow>
   fst (Detect ts (Some e) (Some background) replacement no_request_options
     \<lparr>Engine.call.k_polls = 0, k_budget = None, k_renderer = ()\<rparr>) = Inr []"
  by (induction ts e rs rule: validate_replacement_safety.induct) (auto split: if_split_asm sum.split_asm)

lemma build_parts:
  assumes "build_plugin_with_runtime env ix config_yaml dir rt = (Inr p, rt')"
  obtains engine where "pg_engine (rg_plugin p) = engine" "pg_tools (rg_plugin p) = ae_tools env"
    "parse_config (ae_tools env) (ae_yaml env) config_yaml = Inr (pg_cfg (rg_plugin p))"
    "validate (ae_tools env) (pg_cfg (rg_plugin p)) = None"
    "validate_replacement_safety (ae_tools env) engine (pc_Replacements (pg_cfg (rg_plugin p))) = None"
    "pg_blockRuleIDs (rg_plugin p) = block_rule_set (pg_cfg (rg_plugin p))"
  using assms
  by (auto simp: build_plugin_with_runtime_def next_revision_def assemble_def Let_def parse_config_valid
      split: sum.split_asm option.split_asm if_split_asm)

lemma negotiated_bounds:
  "negotiate_schema_version host \<le> implemented_schema_version \<and> (host \<noteq> 0 \<longrightarrow> negotiate_schema_version host \<le> host)"
  by (auto simp: negotiate_schema_version_def implemented_schema_version_def legacy_schema_version_def Let_def not_less)

text \<open>
  C18: A plugin that is registered can keep what its configuration promises. The configuration is valid,
  and no replacement it asks for is itself taken for sensitive data by the detectors of the
  plugin. The schema agreed on is one both sides know; on a schema without termination of requests
  a plugin is registered only when it never has to terminate one: failures pass and no rule blocks.
\<close>

theorem registered_plugin_keeps_promises:
  "build_plugin_with_runtime env ix config_yaml dir rt = (Inr p, rt') \<Longrightarrow> check_schema (rg_plugin p) host = Inr r \<Longrightarrow>
   validate (ae_tools env) (pg_cfg (rg_plugin p)) = None \<and>
   (\<forall>(name, x) \<in> set (pc_Replacements (pg_cfg (rg_plugin p))). x \<noteq> [] \<longrightarrow>
      fst (Detect (pg_tools (rg_plugin p)) (Some (pg_engine (rg_plugin p))) (Some background) x no_request_options
        \<lparr>Engine.call.k_polls = 0, k_budget = None, k_renderer = ()\<rparr>) = Inr []) \<and>
   rs_SchemaVersion r \<le> 2 \<and> (host \<noteq> 0 \<longrightarrow> rs_SchemaVersion r \<le> host) \<and>
   (rs_SchemaVersion r < 2 \<longrightarrow> pc_OnError (pg_cfg (rg_plugin p)) = onErrorPassthrough \<and>
      pc_BlockRuleIDs (pg_cfg (rg_plugin p)) = [] \<and> \<not> rs_RequestLifecyclePlugin r)"
proof -
  assume b: "build_plugin_with_runtime env ix config_yaml dir rt = (Inr p, rt')" and r: "check_schema (rg_plugin p) host = Inr r"
  let ?cfg = "pg_cfg (rg_plugin p)"
  from b obtain engine where e: "pg_engine (rg_plugin p) = engine" "pg_tools (rg_plugin p) = ae_tools env"
    "parse_config (ae_tools env) (ae_yaml env) config_yaml = Inr ?cfg"
    "validate (ae_tools env) ?cfg = None" "validate_replacement_safety (ae_tools env) engine (pc_Replacements ?cfg) = None"
    "pg_blockRuleIDs (rg_plugin p) = block_rule_set ?cfg" by (rule build_parts)
  from e(4) have "pc_OnError ?cfg \<in> {onErrorBlock, onErrorPassthrough}"
    by (auto simp: validate_def Let_def split: if_split_asm)
  with r e(6) negotiated_bounds [of host] have "rs_SchemaVersion r \<le> 2 \<and> (host \<noteq> 0 \<longrightarrow> rs_SchemaVersion r \<le> host) \<and>
     (rs_SchemaVersion r < 2 \<longrightarrow> pc_OnError ?cfg = onErrorPassthrough \<and> pc_BlockRuleIDs ?cfg = [] \<and> \<not> rs_RequestLifecyclePlugin r)"
    by (auto simp: check_schema_def block_rule_set_def implemented_schema_version_def Let_def not_le split: if_split_asm)
  with e(1,2,4) replacements_safe [OF e(5)] show ?thesis by auto
qed

definition sample_yaml :: yaml_decoder where
  "sample_yaml src cfg = Some (cfg\<lparr>pc_GitleaksTOML := ''/r'', pc_GitleaksMode := customRulesReplace,
     pc_AllowUnsupportedRules := True, pc_Replacements := [(''ip'', ''<addr>'')]\<rparr>, YamlEnd)"

definition sample_surroundings :: surroundings where
  "sample_surroundings =
     \<lparr>ae_tools = sample_tools, ae_yaml = sample_yaml, ae_toml = sample_toml, ae_regexp = sample_rx,
      ae_files = \<lparr>rf_embedded = [], rf_sha256 = (\<lambda>s. s), rf_read = (\<lambda>_. Some ''c'')\<rparr>, ae_score = (\<lambda>_. None),
      ae_fold = (\<lambda>_ _. False), ae_openLog = (\<lambda>_. True), ae_pluginDir = ''/p'',
      ae_lifecycle = (\<lambda>b. Some (b, 2, [])),
      ae_intercept = (\<lambda>b. Some \<lparr>rq_RequestID = ''r'', rq_Model = ''m'', rq_RequestedModel = [], rq_SourceFormat = ''gemini'', rq_Body = b\<rparr>),
      ae_completion = (\<lambda>b. Some b), ae_errorText = (\<lambda>_. []), ae_register = ''register'', ae_reconfigure = ''reconfigure'',
      ae_quiesce = ''quiesce'', ae_complete = ''complete'', ae_before = ''before'', ae_after = ''after''\<rparr>"

lemma sample_build:
  obtains p rt' where "build_plugin_with_runtime sample_surroundings 0 ''y'' [] new_runtime_state = (Inr p, rt')"
    "rg_revision p = 1" "pc_Replacements (pg_cfg (rg_plugin p)) = [(''ip'', ''<addr>'')]" "pc_OnError (pg_cfg (rg_plugin p)) = onErrorBlock"
proof -
  let ?b = "build_plugin_with_runtime sample_surroundings 0 ''y'' [] new_runtime_state"
  have "map_sum id (\<lambda>p. (rg_revision p, pc_Replacements (pg_cfg (rg_plugin p)), pc_OnError (pg_cfg (rg_plugin p)))) (fst ?b) =
      Inr (1, [(''ip'', ''<addr>'')], onErrorBlock)" by code_simp
  then show thesis using that by (cases ?b; cases "fst ?b") auto
qed

theorem registered_plugin_keeps_promises_witness:
  "\<exists>p. fst (build_plugin_with_runtime sample_surroundings 0 ''y'' [] new_runtime_state) = Inr p \<and>
     fst (Detect (pg_tools (rg_plugin p)) (Some (pg_engine (rg_plugin p))) (Some background) ''<addr>'' no_request_options
        \<lparr>Engine.call.k_polls = 0, k_budget = None, k_renderer = ()\<rparr>) = Inr []"
proof -
  obtain p rt' where b: "build_plugin_with_runtime sample_surroundings 0 ''y'' [] new_runtime_state = (Inr p, rt')"
    and c: "pc_Replacements (pg_cfg (rg_plugin p)) = [(''ip'', ''<addr>'')]" by (rule sample_build)
  have "check_schema (rg_plugin p) 2 = Inr \<lparr>rs_SchemaVersion = 2, rs_Metadata = plugin_metadata, rs_RequestInterceptor = True,
      rs_RequestLifecyclePlugin = True\<rparr>"
    by (simp add: check_schema_def negotiate_schema_version_def implemented_schema_version_def)
  from registered_plugin_keeps_promises [OF b this] b c show ?thesis by auto
qed

end
