(* ===== verification/Abi.thy ===== *)
theory Abi
  imports Lifecycle
begin

text \<open>
  The native interface (\<open>abi.go\<close>) as a system of calls the host makes concurrently. Every access to the
  shared state is a step of its own, with the computation up to it: the critical sections of the lock,
  \<open>Add\<close>, \<open>Done\<close> and the return of \<open>Wait\<close> of the two wait groups, the channel of the slots, the cache. A call is
  at a control point (\<open>pc\<close>), which says what it holds and what it has computed.

  What is left to chance is a \<open>choice\<close>: which of the ready branches of a \<open>select\<close> is taken, the clock, the
  polls of the context, and whether the deadline has passed. A panic is taken to happen before the
  inspection or after it. The inspection of a request is one step.
\<close>

section \<open>State\<close>

text \<open>
  Runtimes are objects: the state and the calls refer to them by number. \<open>ab_native\<close> and \<open>ab_inFlight\<close> are
  the counters of the wait groups, \<open>ab_slots\<close> the number of values in the channel.
\<close>

record abi =
  ab_host :: bool
  ab_plugin :: "registered option"
  ab_runtime :: "nat option"
  ab_runtimes :: "runtime list"
  ab_shuttingDown :: bool
  ab_native :: nat
  ab_inFlight :: nat
  ab_slots :: nat

definition initial_abi :: abi where
  "initial_abi = \<lparr>ab_host = False, ab_plugin = None, ab_runtime = None, ab_runtimes = [], ab_shuttingDown = False,
     ab_native = 0, ab_inFlight = 0, ab_slots = 0\<rparr>"

definition native_scan_concurrency :: nat where
  "native_scan_concurrency = 4"

text \<open>64 MiB.\<close>

definition max_abi_request_bytes :: nat where
  "max_abi_request_bytes = 67108864"

text \<open>The arguments of a call. \<open>cl_request\<close> is the memory at the request pointer, \<open>None\<close> for nil.\<close>

record call =
  cl_method :: "string option"
  cl_request :: "string option"
  cl_length :: nat
  cl_nil_response :: bool

datatype entry = Call call | Shutdown | Init bool

datatype choice =
    Proceed
  | TimerFires
  | DeadlinePassed
  | Inspect int ctx ctx bool
  | PanicBefore
  | PanicAfter int ctx ctx

datatype pc =
    Entered
  | Waiting
  | Admitted
  | Inspecting registered
  | Inspected envelope
  | Releasing envelope
  | Leaving envelope
  | Answering
  | Building string "32 word" string nat
  | Swapping registered registration
  | Draining
  | DrainingCalls
  | Completing string "nat option"
  | Stopping "nat option"
  | StoppingCalls "nat option"
  | Clearing "nat option"
  | Forgetting "nat option"
  | Returned int "envelope option"

section \<open>Entering and leaving\<close>

definition begin_native_scan_call :: "abi \<Rightarrow> abi_error + abi" where
  "begin_native_scan_call st =
    (if ab_shuttingDown st then Inl ErrShuttingDown
     else (case ab_plugin st of
             None \<Rightarrow> Inl ErrNotRegistered
           | Some p \<Rightarrow> Inr (st\<lparr>ab_native := ab_native st + 1\<rparr>)))"

definition begin_plugin_call :: "abi \<Rightarrow> abi_error + registered \<times> abi" where
  "begin_plugin_call st =
    (if ab_shuttingDown st then Inl ErrShuttingDown
     else (case ab_plugin st of
             None \<Rightarrow> Inl ErrNotRegistered
           | Some p \<Rightarrow> Inr (p, st\<lparr>ab_inFlight := ab_inFlight st + 1\<rparr>)))"

text \<open>
  \<open>acquireNativeScan\<close> with a positive wait: a slot, when one is free; the timer; or the deadline.
  \<open>None\<close>: the branch chosen is not ready.
\<close>

datatype admission = Slot | Busy | Late

definition acquire_native_scan :: "choice \<Rightarrow> abi \<Rightarrow> (admission \<times> abi) option" where
  "acquire_native_scan ch st =
    (case ch of
       Proceed \<Rightarrow> if ab_slots st < native_scan_concurrency then Some (Slot, st\<lparr>ab_slots := ab_slots st + 1\<rparr>) else None
     | TimerFires \<Rightarrow> Some (Busy, st)
     | DeadlinePassed \<Rightarrow> Some (Late, st)
     | _ \<Rightarrow> None)"

definition write_abi_result :: "call \<Rightarrow> envelope \<Rightarrow> pc" where
  "write_abi_result c e = (if cl_nil_response c then Returned 1 None else Returned 0 (Some e))"

definition request_bytes :: "call \<Rightarrow> string" where
  "request_bytes c = (case cl_request c of None \<Rightarrow> [] | Some b \<Rightarrow> take (cl_length c) b)"

section \<open>Methods of the host\<close>

text \<open>\<open>handlePrivacyFilterRegister\<close>: up to the runtime, the build, and the swap of the plugin.\<close>

definition begin_register :: "surroundings \<Rightarrow> call \<Rightarrow> string \<Rightarrow> abi \<Rightarrow> pc \<times> abi" where
  "begin_register env c m st =
    (case ae_lifecycle env (request_bytes c) of
       None \<Rightarrow> (write_abi_result c (plugin_error_envelope env m ErrDecode), st)
     | Some (yaml, schema, dir) \<Rightarrow>
         (case ab_runtime st of
            None \<Rightarrow>
              (Building yaml schema dir (length (ab_runtimes st)),
               st\<lparr>ab_runtime := Some (length (ab_runtimes st)), ab_runtimes := ab_runtimes st @ [new_runtime_state]\<rparr>)
          | Some rt \<Rightarrow> (Building yaml schema dir rt, st)))"

definition build_step :: "surroundings \<Rightarrow> call \<Rightarrow> string \<Rightarrow> string \<Rightarrow> 32 word \<Rightarrow> string \<Rightarrow> nat \<Rightarrow> abi \<Rightarrow> pc \<times> abi" where
  "build_step env c m yaml schema dir ix st =
    (case build_plugin_with_runtime env ix yaml dir (ab_runtimes st ! ix) of
       (res, rt) \<Rightarrow>
         let st = st\<lparr>ab_runtimes := (ab_runtimes st)[ix := rt]\<rparr> in
         (case res of
            Inl e \<Rightarrow> (write_abi_result c (plugin_error_envelope env m e), st)
          | Inr p \<Rightarrow>
              (case check_schema (rg_plugin p) schema of
                 Inl e \<Rightarrow> (write_abi_result c (plugin_error_envelope env m e), st)
               | Inr r \<Rightarrow> (Swapping p r, st))))"

definition swap_step :: "call \<Rightarrow> registered \<Rightarrow> registration \<Rightarrow> abi \<Rightarrow> pc \<times> abi" where
  "swap_step c p r st =
    (write_abi_result c (EnvRegistration r), st\<lparr>ab_plugin := Some p, ab_shuttingDown := False\<rparr>)"

definition begin_complete :: "surroundings \<Rightarrow> call \<Rightarrow> string \<Rightarrow> abi \<Rightarrow> pc \<times> abi" where
  "begin_complete env c m st =
    (case ae_completion env (request_bytes c) of
       None \<Rightarrow> (write_abi_result c (plugin_error_envelope env m ErrDecode), st)
     | Some rid \<Rightarrow> (Completing rid (ab_runtime st), st))"

definition update_cache :: "nat \<Rightarrow> (request_renderer cache \<Rightarrow> request_renderer cache) \<Rightarrow> abi \<Rightarrow> abi" where
  "update_cache ix f st =
     st\<lparr>ab_runtimes := (ab_runtimes st)[ix := (ab_runtimes st ! ix)\<lparr>rt_cache := f (rt_cache (ab_runtimes st ! ix))\<rparr>]\<rparr>"

lemma update_cache_fields [simp]:
  "ab_native (update_cache ix f st) = ab_native st" "ab_inFlight (update_cache ix f st) = ab_inFlight st"
  "ab_slots (update_cache ix f st) = ab_slots st" "ab_shuttingDown (update_cache ix f st) = ab_shuttingDown st"
  "ab_plugin (update_cache ix f st) = ab_plugin st" "ab_runtime (update_cache ix f st) = ab_runtime st"
  "length (ab_runtimes (update_cache ix f st)) = length (ab_runtimes st)"
  by (simp_all add: update_cache_def)

definition released :: "string \<Rightarrow> request_renderer cache \<Rightarrow> request_renderer cache" where
  "released rid cache = (case release_request_scan_state rid (Some cache) of None \<Rightarrow> cache | Some c \<Rightarrow> c)"

definition complete_step :: "call \<Rightarrow> string \<Rightarrow> nat option \<Rightarrow> abi \<Rightarrow> pc \<times> abi" where
  "complete_step c rid rt st =
    (write_abi_result c EnvEmpty, case rt of None \<Rightarrow> st | Some ix \<Rightarrow> update_cache ix (released rid) st)"

text \<open>\<open>handlePrivacyFilterABIMethod\<close> for everything but an interception.\<close>

definition begin_method :: "surroundings \<Rightarrow> call \<Rightarrow> string \<Rightarrow> abi \<Rightarrow> pc \<times> abi" where
  "begin_method env c m st =
    (if m = ae_register env \<or> m = ae_reconfigure env then begin_register env c m st
     else if m = ae_quiesce env then (Draining, st\<lparr>ab_shuttingDown := True\<rparr>)
     else if m = ae_complete env then begin_complete env c m st
     else
       (case begin_plugin_call st of
          Inl e \<Rightarrow> (write_abi_result c (plugin_error_envelope env m e), st)
        | Inr (p, st) \<Rightarrow> (Answering, st)))"

section \<open>The entry point\<close>

text \<open>\<open>PrivacyFilterPluginCall\<close> up to its first access of the shared state.\<close>

definition enter_call :: "surroundings \<Rightarrow> call \<Rightarrow> abi \<Rightarrow> pc \<times> abi" where
  "enter_call env c st =
    (case cl_method c of
       None \<Rightarrow> (write_abi_result c (EnvError ''invalid_method'' ''method is required''), st)
     | Some m \<Rightarrow>
         if cl_length c > max_abi_request_bytes then
           (write_abi_result c (abi_failure_envelope env m 413 ''request_too_large''
              ''privacy filter request payload exceeds the native plugin limit''), st)
         else if 0 < cl_length c \<and> cl_request c = None then
           (write_abi_result c (abi_failure_envelope env m 503 ''invalid_request''
              ''privacy filter received an invalid native request buffer''), st)
         else if is_request_intercept_method env m then
           (case begin_native_scan_call st of
              Inl e \<Rightarrow>
                (write_abi_result c (abi_failure_envelope env m 503 ''plugin_unavailable''
                   ''privacy filter is not available for request inspection''), st)
            | Inr st \<Rightarrow> (Waiting, st))
         else begin_method env c m st)"

definition admit_step :: "surroundings \<Rightarrow> choice \<Rightarrow> string \<Rightarrow> abi \<Rightarrow> (pc \<times> abi) option" where
  "admit_step env ch m st =
    (case acquire_native_scan ch st of
       None \<Rightarrow> None
     | Some (Slot, st) \<Rightarrow> Some (Admitted, st)
     | Some (Busy, st) \<Rightarrow>
         Some (Leaving (abi_failure_envelope env m 503 ''privacy_filter_busy''
                  ''privacy filter scan capacity is temporarily unavailable''), st)
     | Some (Late, st) \<Rightarrow> Some (Leaving (deadline_envelope env m), st))"

text \<open>The plugin is read again under the lock; a call refused here still leaves through the slot.\<close>

definition plugin_step :: "surroundings \<Rightarrow> choice \<Rightarrow> string \<Rightarrow> abi \<Rightarrow> (pc \<times> abi) option" where
  "plugin_step env ch m st =
    (case begin_plugin_call st of
       Inl e \<Rightarrow>
         (case ch of
            Proceed \<Rightarrow> Some (Releasing (plugin_error_envelope env m e), st)
          | DeadlinePassed \<Rightarrow> Some (Releasing (deadline_envelope env m), st)
          | _ \<Rightarrow> None)
     | Inr (p, st) \<Rightarrow> (case ch of Proceed \<Rightarrow> Some (Inspecting p, st) | _ \<Rightarrow> None))"

definition run_interceptor :: "surroundings \<Rightarrow> call \<Rightarrow> string \<Rightarrow> registered \<Rightarrow> int \<Rightarrow> ctx \<Rightarrow> ctx \<Rightarrow>
    request_renderer cache \<Rightarrow> envelope \<times> request_renderer cache" where
  "run_interceptor env c m p now cw cx cache =
    (case ae_intercept env (request_bytes c) of
       None \<Rightarrow> (plugin_error_envelope env m ErrDecode, cache)
     | Some req \<Rightarrow>
         if m = ae_before env then
           (case intercept_request (ae_fold env) (rg_plugin p) (rg_revision p) now cw cx req cache of
              (resp, cache) \<Rightarrow> (EnvResponse resp, cache))
         else (EnvResponse (intercept_request_after_auth req), cache))"

definition inspect_step :: "surroundings \<Rightarrow> choice \<Rightarrow> call \<Rightarrow> string \<Rightarrow> registered \<Rightarrow> abi \<Rightarrow> (pc \<times> abi) option" where
  "inspect_step env ch c m p st =
    (let ix = rg_runtime p; cache = rt_cache (ab_runtimes st ! ix) in
     case ch of
       Inspect now cw cx late \<Rightarrow>
         (case run_interceptor env c m p now cw cx cache of
            (e, cache') \<Rightarrow> Some (Inspected (if late then deadline_envelope env m else e), update_cache ix (\<lambda>_. cache') st))
     | PanicBefore \<Rightarrow> Some (Inspected (abi_panic_envelope env m), st)
     | PanicAfter now cw cx \<Rightarrow>
         (case run_interceptor env c m p now cw cx cache of
            (e, cache') \<Rightarrow> Some (Inspected (abi_panic_envelope env m), update_cache ix (\<lambda>_. cache') st))
     | _ \<Rightarrow> None)"

definition advance_call :: "surroundings \<Rightarrow> choice \<Rightarrow> call \<Rightarrow> pc \<Rightarrow> abi \<Rightarrow> (pc \<times> abi) option" where
  "advance_call env ch c pc st =
    (let m = (case cl_method c of None \<Rightarrow> [] | Some m \<Rightarrow> m) in
     case pc of
       Entered \<Rightarrow> Some (enter_call env c st)
     | Waiting \<Rightarrow> admit_step env ch m st
     | Admitted \<Rightarrow> plugin_step env ch m st
     | Inspecting p \<Rightarrow> inspect_step env ch c m p st
     | Inspected e \<Rightarrow> Some (Releasing e, st\<lparr>ab_inFlight := ab_inFlight st - 1\<rparr>)
     | Releasing e \<Rightarrow> Some (Leaving e, st\<lparr>ab_slots := ab_slots st - 1\<rparr>)
     | Leaving e \<Rightarrow> Some (write_abi_result c e, st\<lparr>ab_native := ab_native st - 1\<rparr>)
     | Answering \<Rightarrow>
         Some (write_abi_result c (EnvError ''unknown_method'' (''unknown method: '' @ m)),
               st\<lparr>ab_inFlight := ab_inFlight st - 1\<rparr>)
     | Building yaml schema dir ix \<Rightarrow> Some (build_step env c m yaml schema dir ix st)
     | Swapping p r \<Rightarrow> Some (swap_step c p r st)
     | Draining \<Rightarrow> if ab_native st = 0 then Some (DrainingCalls, st) else None
     | DrainingCalls \<Rightarrow> if ab_inFlight st = 0 then Some (write_abi_result c EnvEmpty, st) else None
     | Completing rid rt \<Rightarrow> Some (complete_step c rid rt st)
     | _ \<Rightarrow> None)"

text \<open>The step of each control point.\<close>

lemma advance_call_simps:
  "advance_call env ch c Entered st = Some (enter_call env c st)"
  "advance_call env ch c Waiting st = admit_step env ch (case cl_method c of None \<Rightarrow> [] | Some m \<Rightarrow> m) st"
  "advance_call env ch c Admitted st = plugin_step env ch (case cl_method c of None \<Rightarrow> [] | Some m \<Rightarrow> m) st"
  "advance_call env ch c (Inspecting p) st = inspect_step env ch c (case cl_method c of None \<Rightarrow> [] | Some m \<Rightarrow> m) p st"
  "advance_call env ch c (Inspected e) st = Some (Releasing e, st\<lparr>ab_inFlight := ab_inFlight st - 1\<rparr>)"
  "advance_call env ch c (Releasing e) st = Some (Leaving e, st\<lparr>ab_slots := ab_slots st - 1\<rparr>)"
  "advance_call env ch c (Leaving e) st = Some (write_abi_result c e, st\<lparr>ab_native := ab_native st - 1\<rparr>)"
  "advance_call env ch c Answering st = Some (write_abi_result c (EnvError ''unknown_method'' (''unknown method: '' @ (case cl_method c of None \<Rightarrow> [] | Some m \<Rightarrow> m))),
     st\<lparr>ab_inFlight := ab_inFlight st - 1\<rparr>)"
  "advance_call env ch c (Building yaml schema dir ix) st = Some (build_step env c (case cl_method c of None \<Rightarrow> [] | Some m \<Rightarrow> m) yaml schema dir ix st)"
  "advance_call env ch c (Swapping p r) st = Some (swap_step c p r st)"
  "advance_call env ch c Draining st = (if ab_native st = 0 then Some (DrainingCalls, st) else None)"
  "advance_call env ch c DrainingCalls st = (if ab_inFlight st = 0 then Some (write_abi_result c EnvEmpty, st) else None)"
  "advance_call env ch c (Completing rid rt) st = Some (complete_step c rid rt st)"
  "advance_call env ch c (Stopping rt) st = None"
  "advance_call env ch c (StoppingCalls rt) st = None"
  "advance_call env ch c (Clearing rt) st = None"
  "advance_call env ch c (Forgetting rt) st = None"
  "advance_call env ch c (Returned code res) st = None"
  by (simp_all add: advance_call_def)

text \<open>\<open>PrivacyFilterPluginShutdown\<close>; the plugin it takes is only closed.\<close>

definition advance_shutdown :: "pc \<Rightarrow> abi \<Rightarrow> (pc \<times> abi) option" where
  "advance_shutdown pc st =
    (case pc of
       Entered \<Rightarrow> Some (Stopping (ab_runtime st), st\<lparr>ab_shuttingDown := True, ab_plugin := None, ab_host := False\<rparr>)
     | Stopping rt \<Rightarrow> if ab_native st = 0 then Some (StoppingCalls rt, st) else None
     | StoppingCalls rt \<Rightarrow> if ab_inFlight st = 0 then Some (Clearing rt, st) else None
     | Clearing rt \<Rightarrow>
         Some (Forgetting rt, case rt of None \<Rightarrow> st | Some ix \<Rightarrow> update_cache ix (\<lambda>c. snd (Clear c)) st)
     | Forgetting rt \<Rightarrow> Some (Returned 0 None, if ab_runtime st = rt then st\<lparr>ab_runtime := None\<rparr> else st)
     | _ \<Rightarrow> None)"

text \<open>\<open>cliproxy_plugin_init\<close>; its table of functions is foreign memory.\<close>

definition advance_init :: "bool \<Rightarrow> pc \<Rightarrow> abi \<Rightarrow> (pc \<times> abi) option" where
  "advance_init nil_arguments pc st =
    (case pc of
       Entered \<Rightarrow>
         Some (if nil_arguments then (Returned 1 None, st)
               else (Returned 0 None, st\<lparr>ab_host := True, ab_shuttingDown := False\<rparr>))
     | _ \<Rightarrow> None)"

definition advance :: "surroundings \<Rightarrow> choice \<Rightarrow> entry \<Rightarrow> pc \<Rightarrow> abi \<Rightarrow> (pc \<times> abi) option" where
  "advance env ch en pc st =
    (case en of
       Call c \<Rightarrow> advance_call env ch c pc st
     | Shutdown \<Rightarrow> advance_shutdown pc st
     | Init nil \<Rightarrow> advance_init nil pc st)"

section \<open>The system\<close>

record system =
  sy_abi :: abi
  sy_calls :: "(entry \<times> pc) list"

definition initial_system :: system where
  "initial_system = \<lparr>sy_abi = initial_abi, sy_calls = []\<rparr>"

inductive moves :: "surroundings \<Rightarrow> system \<Rightarrow> system \<Rightarrow> bool" for env where
  moves_call: "i < length (sy_calls s) \<Longrightarrow> sy_calls s ! i = (en, pc) \<Longrightarrow> advance env ch en pc (sy_abi s) = Some (pc', st') \<Longrightarrow>
    moves env s \<lparr>sy_abi = st', sy_calls = (sy_calls s)[i := (en, pc')]\<rparr>"

inductive step :: "surroundings \<Rightarrow> system \<Rightarrow> system \<Rightarrow> bool" for env where
  step_arrives: "step env s (s\<lparr>sy_calls := sy_calls s @ [(en, Entered)]\<rparr>)"
| step_moves: "moves env s t \<Longrightarrow> step env s t"

definition reached :: "surroundings \<Rightarrow> nat \<Rightarrow> system \<Rightarrow> bool" where
  "reached env n s \<longleftrightarrow> (step env ^^ n) initial_system s"

lemma reached_induct [consumes 1, case_names initial step]:
  assumes "reached env n s" "P 0 initial_system"
    "\<And>n s t. reached env n s \<Longrightarrow> P n s \<Longrightarrow> step env s t \<Longrightarrow> P (Suc n) t"
  shows "P n s"
  using assms(1)
proof (induction n arbitrary: s)
  case 0
  then show ?case using assms(2) by (simp add: reached_def)
next
  case (Suc n)
  then obtain r where "reached env n r" "step env r s" by (auto simp: reached_def)
  with Suc.IH assms(3) show ?case by blast
qed

section \<open>Running the system\<close>

text \<open>A scheduler: what the host and chance do, one event after the other.\<close>

datatype event = Arrives entry | Moves nat choice

fun perform :: "surroundings \<Rightarrow> event list \<Rightarrow> system \<Rightarrow> system option" where
  "perform env [] s = Some s"
| "perform env (Arrives en # evs) s = perform env evs (s\<lparr>sy_calls := sy_calls s @ [(en, Entered)]\<rparr>)"
| "perform env (Moves i ch # evs) s =
    (if length (sy_calls s) \<le> i then None
     else
       (case sy_calls s ! i of
          (en, pc) \<Rightarrow>
            (case advance env ch en pc (sy_abi s) of
               None \<Rightarrow> None
             | Some (pc', st) \<Rightarrow> perform env evs \<lparr>sy_abi = st, sy_calls = (sy_calls s)[i := (en, pc')]\<rparr>)))"

lemma perform_steps: "perform env evs s = Some t \<Longrightarrow> (step env ^^ length evs) s t"
proof (induction env evs s rule: perform.induct)
  case (2 env en evs s)
  from 2(2) have "(step env ^^ length evs) (s\<lparr>sy_calls := sy_calls s @ [(en, Entered)]\<rparr>) t" by (simp add: 2(1))
  then show ?case using relpowp_Suc_I2 [where P = "step env"] step_arrives by fastforce
next
  case (3 env i ch evs s)
  from 3(2) obtain en pc pc' st where i: "i < length (sy_calls s)" "sy_calls s ! i = (en, pc)"
    "advance env ch en pc (sy_abi s) = Some (pc', st)"
    and r: "perform env evs \<lparr>sy_abi = st, sy_calls = (sy_calls s)[i := (en, pc')]\<rparr> = Some t"
    by (auto split: if_split_asm prod.split_asm option.split_asm)
  have "step env s \<lparr>sy_abi = st, sy_calls = (sy_calls s)[i := (en, pc')]\<rparr>" by (rule step_moves [OF moves_call [OF i]])
  moreover have "(step env ^^ length evs) \<lparr>sy_abi = st, sy_calls = (sy_calls s)[i := (en, pc')]\<rparr> t"
    using 3(1) i r by simp
  ultimately show ?case using relpowp_Suc_I2 [where P = "step env"] by fastforce
qed simp

lemma perform_reached: "perform env evs initial_system = Some t \<Longrightarrow> reached env (length evs) t"
  unfolding reached_def by (rule perform_steps)

lemma perform_append: "perform env (evs @ evs') s = Option.bind (perform env evs s) (perform env evs')"
  by (induction env evs s rule: perform.induct) (auto split: prod.split option.split)

lemma perform_trans:
  "perform env evs s = Some t \<Longrightarrow> perform env evs' t = Some u \<Longrightarrow> perform env (evs @ evs') s = Some u"
  by (simp add: perform_append)

lemma perform_moves:
  "perform env evs s = Some t \<Longrightarrow> \<forall>ev \<in> set evs. \<exists>i ch. ev = Moves i ch \<Longrightarrow> (moves env ^^ length evs) s t"
proof (induction env evs s rule: perform.induct)
  case (3 env i ch evs s)
  from 3(2) obtain en pc pc' st where i: "i < length (sy_calls s)" "sy_calls s ! i = (en, pc)"
    "advance env ch en pc (sy_abi s) = Some (pc', st)"
    and r: "perform env evs \<lparr>sy_abi = st, sy_calls = (sy_calls s)[i := (en, pc')]\<rparr> = Some t"
    by (auto split: if_split_asm prod.split_asm option.split_asm)
  have "moves env s \<lparr>sy_abi = st, sy_calls = (sy_calls s)[i := (en, pc')]\<rparr>" by (rule moves_call [OF i])
  moreover have "(moves env ^^ length evs) \<lparr>sy_abi = st, sy_calls = (sy_calls s)[i := (en, pc')]\<rparr> t"
    using 3(1) i r 3(3) by simp
  ultimately show ?case using relpowp_Suc_I2 [where P = "moves env"] by fastforce
qed auto

text \<open>A host that registers the plugin of the sample surroundings, and a request it hands over.\<close>

definition sample_call_of :: "string \<Rightarrow> string \<Rightarrow> entry" where
  "sample_call_of m b = Call \<lparr>cl_method = Some m, cl_request = Some b, cl_length = length b, cl_nil_response = False\<rparr>"

definition sample_registration :: "event list" where
  "sample_registration =
    [Arrives (Init False), Moves 0 Proceed, Arrives (sample_call_of ''register'' ''y''),
     Moves 1 Proceed, Moves 1 Proceed, Moves 1 Proceed]"

definition sample_sent :: string where
  "sample_sent = ''{\"contents\":[{\"parts\":[{\"text\":\"8.8.8.8\"}]}]}''"

definition sample_entered :: "event list" where
  "sample_entered = sample_registration @
    [Arrives (sample_call_of ''before'' sample_sent), Moves 2 Proceed, Moves 2 Proceed, Moves 2 Proceed]"

definition sample_answered :: "event list" where
  "sample_answered = sample_entered @ [Moves 2 (Inspect 0 never never False), Moves 2 Proceed, Moves 2 Proceed, Moves 2 Proceed]"

lemma sample_methods:
  "ae_lifecycle sample_surroundings = (\<lambda>b. Some (b, 2, []))" "ae_register sample_surroundings = ''register''"
  "ae_reconfigure sample_surroundings = ''reconfigure''" "ae_quiesce sample_surroundings = ''quiesce''"
  "ae_complete sample_surroundings = ''complete''" "ae_before sample_surroundings = ''before''"
  "ae_after sample_surroundings = ''after''"
  by (simp_all add: sample_surroundings_def)

lemmas entry_defs = advance_def advance_call_simps advance_init_def enter_call_def begin_method_def begin_register_def
  build_step_def swap_step_def write_abi_result_def is_request_intercept_method_def request_bytes_def sample_call_of_def
  initial_system_def initial_abi_def max_abi_request_bytes_def begin_native_scan_call_def admit_step_def
  acquire_native_scan_def plugin_step_def begin_plugin_call_def Let_def sample_methods

end
