(* ===== verification/Abi_Properties.thy ===== *)
theory Abi_Properties
  imports Abi
begin

text \<open>
  The properties of the native interface: what the counters count, that no inspection runs once a
  quiesce has returned, that every call returns, and that the answer to an interception is one of a
  plugin that was built or a termination.
\<close>

section \<open>What a call holds\<close>

fun holds_native :: "pc \<Rightarrow> bool" where
  "holds_native Waiting = True"
| "holds_native Admitted = True"
| "holds_native (Inspecting p) = True"
| "holds_native (Inspected e) = True"
| "holds_native (Releasing e) = True"
| "holds_native (Leaving e) = True"
| "holds_native _ = False"

fun holds_slot :: "pc \<Rightarrow> bool" where
  "holds_slot Admitted = True"
| "holds_slot (Inspecting p) = True"
| "holds_slot (Inspected e) = True"
| "holds_slot (Releasing e) = True"
| "holds_slot _ = False"

fun holds_call :: "pc \<Rightarrow> bool" where
  "holds_call (Inspecting p) = True"
| "holds_call (Inspected e) = True"
| "holds_call Answering = True"
| "holds_call _ = False"

definition holding :: "(pc \<Rightarrow> bool) \<Rightarrow> system \<Rightarrow> nat" where
  "holding P s = length (filter (P \<circ> snd) (sy_calls s))"

definition counted :: "system \<Rightarrow> bool" where
  "counted s \<longleftrightarrow> ab_native (sy_abi s) = holding holds_native s \<and> ab_inFlight (sy_abi s) = holding holds_call s \<and>
     ab_slots (sy_abi s) = holding holds_slot s \<and> ab_slots (sy_abi s) \<le> native_scan_concurrency"

lemma filter_update:
  "i < length xs \<Longrightarrow> length (filter P (xs[i := y])) + of_bool (P (xs ! i)) = length (filter P xs) + of_bool (P y)"
proof (induction xs arbitrary: i)
  case (Cons x xs)
  show ?case
  proof (cases i)
    case (Suc j)
    with Cons.IH [of j] Cons.prems show ?thesis by simp
  qed simp
qed simp

lemma holding_moves:
  assumes "i < length (sy_calls s)" "sy_calls s ! i = (en, pc)"
  shows "holding P \<lparr>sy_abi = st', sy_calls = (sy_calls s)[i := (en, pc')]\<rparr> + of_bool (P pc) = holding P s + of_bool (P pc')"
  using filter_update [OF assms(1), of "P \<circ> snd" "(en, pc')"] assms(2) by (simp add: holding_def)

lemma holding_pos:
  assumes "i < length (sy_calls s)" "sy_calls s ! i = (en, pc)" "P pc"
  shows "0 < holding P s"
proof -
  have "(en, pc) \<in> set (filter (P \<circ> snd) (sy_calls s))" using assms nth_mem by fastforce
  then show ?thesis unfolding holding_def by (rule length_pos_if_in_set)
qed

lemma holding_none: "holding P s = 0 \<longleftrightarrow> (\<forall>(en, pc) \<in> set (sy_calls s). \<not> P pc)"
  by (auto simp: holding_def filter_empty_conv)

text \<open>A step of a call keeps the accounts, and with the flag set it admits nothing.\<close>

definition accounts :: "pc \<Rightarrow> abi \<Rightarrow> pc \<times> abi \<Rightarrow> bool" where
  "accounts pc st r \<longleftrightarrow>
     ab_native (snd r) + of_bool (holds_native pc) = ab_native st + of_bool (holds_native (fst r)) \<and>
     ab_inFlight (snd r) + of_bool (holds_call pc) = ab_inFlight st + of_bool (holds_call (fst r)) \<and>
     ab_slots (snd r) + of_bool (holds_slot pc) = ab_slots st + of_bool (holds_slot (fst r)) \<and>
     (ab_slots st \<le> native_scan_concurrency \<longrightarrow> ab_slots (snd r) \<le> native_scan_concurrency) \<and>
     (ab_shuttingDown st \<longrightarrow> ab_shuttingDown (snd r) \<longrightarrow>
        ab_native (snd r) \<le> ab_native st \<and> ab_inFlight (snd r) \<le> ab_inFlight st)"

lemma holds_write [simp]:
  "\<not> holds_native (write_abi_result c e)" "\<not> holds_slot (write_abi_result c e)" "\<not> holds_call (write_abi_result c e)"
  by (simp_all add: write_abi_result_def)

lemma accounts_write: "\<not> holds_native pc \<Longrightarrow> \<not> holds_slot pc \<Longrightarrow> \<not> holds_call pc \<Longrightarrow> accounts pc st (write_abi_result c e, st)"
  by (simp add: accounts_def)

lemma accounts_native: "begin_native_scan_call st = Inr st' \<Longrightarrow> accounts Entered st (Waiting, st')"
  by (auto simp: begin_native_scan_call_def accounts_def split: if_split_asm option.split_asm)

lemma accounts_plugin: "begin_plugin_call st = Inr (p, st') \<Longrightarrow> accounts Entered st (Answering, st')"
  by (auto simp: begin_plugin_call_def accounts_def split: if_split_asm option.split_asm)

lemma accounts_begin_register: "accounts Entered st (begin_register env c m st)"
  by (simp add: begin_register_def accounts_write split: option.split) (simp add: accounts_def)

lemma accounts_begin_complete: "accounts Entered st (begin_complete env c m st)"
  by (simp add: begin_complete_def accounts_write split: option.split) (simp add: accounts_def)

lemma accounts_begin_method: "accounts Entered st (begin_method env c m st)"
proof -
  have "accounts Entered st (Draining, st\<lparr>ab_shuttingDown := True\<rparr>)" by (simp add: accounts_def)
  then show ?thesis
    by (simp add: begin_method_def accounts_begin_register accounts_begin_complete accounts_write accounts_plugin
        split: sum.split prod.split)
qed

lemma accounts_enter_call: "accounts Entered st (enter_call env c st)"
  by (simp add: enter_call_def accounts_begin_method accounts_write accounts_native split: option.split sum.split)

lemma accounts_build_step: "accounts (Building y sc d ix) st (build_step env c m y sc d ix st)"
  by (auto simp: accounts_def build_step_def Let_def split: prod.split sum.split)

lemma accounts_inspect_step: "inspect_step env ch c m p st = Some r \<Longrightarrow> accounts (Inspecting p) st r"
  by (auto simp: accounts_def inspect_step_def Let_def split: choice.split_asm prod.split_asm)

lemma accounts_plugin_step:
  assumes "plugin_step env ch m st = Some r"
  shows "accounts Admitted st r"
proof (cases "begin_plugin_call st")
  case (Inl e)
  with assms show ?thesis by (auto simp: plugin_step_def accounts_def split: choice.split_asm)
next
  case (Inr q)
  then have "\<not> ab_shuttingDown st" "snd q = st\<lparr>ab_inFlight := ab_inFlight st + 1\<rparr>"
    by (auto simp: begin_plugin_call_def split: if_split_asm option.split_asm)
  moreover have "r = (Inspecting (fst q), snd q)" using assms Inr by (cases q) (auto simp: plugin_step_def split: choice.split_asm)
  ultimately show ?thesis by (simp add: accounts_def)
qed

lemma accounts_admit_step: "admit_step env ch m st = Some r \<Longrightarrow> accounts Waiting st r"
  by (cases ch) (auto simp: admit_step_def acquire_native_scan_def accounts_def split: if_split_asm)

lemma accounts_advance_call:
  assumes "advance_call env ch c pc st = Some r"
    "holds_native pc \<longrightarrow> 0 < ab_native st" "holds_slot pc \<longrightarrow> 0 < ab_slots st" "holds_call pc \<longrightarrow> 0 < ab_inFlight st"
  shows "accounts pc st r"
proof (cases pc)
  case Entered
  with assms(1) show ?thesis by (auto simp: advance_call_simps accounts_enter_call)
next
  case Waiting
  with assms(1) show ?thesis by (simp add: advance_call_simps accounts_admit_step)
next
  case Admitted
  with assms(1) show ?thesis by (simp add: advance_call_simps accounts_plugin_step)
next
  case (Inspecting p)
  with assms(1) show ?thesis by (auto simp: advance_call_simps accounts_inspect_step)
next
  case (Building y sc d ix)
  with assms(1) show ?thesis by (auto simp: advance_call_simps accounts_build_step)
next
  case (Completing rid rt)
  with assms(1) show ?thesis
    by (auto simp: advance_call_simps complete_step_def accounts_def split: option.split)
next
  case (Swapping p reg)
  with assms(1) show ?thesis by (auto simp: advance_call_simps swap_step_def accounts_def)
qed (use assms in \<open>auto simp: advance_call_simps accounts_def split: if_split_asm\<close>)

lemma accounts_advance:
  assumes "advance env ch en pc st = Some r"
    "holds_native pc \<longrightarrow> 0 < ab_native st" "holds_slot pc \<longrightarrow> 0 < ab_slots st" "holds_call pc \<longrightarrow> 0 < ab_inFlight st"
  shows "accounts pc st r"
proof (cases en)
  case (Call c)
  with assms accounts_advance_call show ?thesis by (simp add: advance_def)
next
  case Shutdown
  with assms(1) show ?thesis
    by (cases pc) (auto simp: advance_def advance_shutdown_def accounts_def split: if_split_asm option.split)
next
  case (Init nil)
  with assms(1) show ?thesis
    by (cases nil) (auto simp: advance_def advance_init_def accounts_def split: pc.split_asm)
qed

lemma moves_accounts:
  assumes "moves env s t" "counted s"
  obtains i en pc pc' ch where "i < length (sy_calls s)" "sy_calls s ! i = (en, pc)"
    "advance env ch en pc (sy_abi s) = Some (pc', sy_abi t)" "sy_calls t = (sy_calls s)[i := (en, pc')]"
    "accounts pc (sy_abi s) (pc', sy_abi t)"
  using assms(1)
proof cases
  case (moves_call i en pc ch pc' st')
  have "accounts pc (sy_abi s) (pc', st')"
    using holding_pos [OF moves_call(2,3)] assms(2) by (intro accounts_advance [OF moves_call(4)]) (auto simp: counted_def)
  with moves_call that show ?thesis by simp
qed

lemma counted_moves:
  assumes "moves env s t" "counted s"
  shows "counted t"
proof -
  from assms obtain i en pc pc' ch where m: "i < length (sy_calls s)" "sy_calls s ! i = (en, pc)"
    "sy_calls t = (sy_calls s)[i := (en, pc')]" "accounts pc (sy_abi s) (pc', sy_abi t)" by (rule moves_accounts)
  have t: "t = \<lparr>sy_abi = sy_abi t, sy_calls = (sy_calls s)[i := (en, pc')]\<rparr>" using m(3) by simp
  have h: "holding P t + of_bool (P pc) = holding P s + of_bool (P pc')" for P
    by (subst t) (rule holding_moves [OF m(1,2)])
  from h [of holds_native] h [of holds_call] h [of holds_slot] m(4) assms(2) show ?thesis
    by (simp add: counted_def accounts_def)
qed

lemma counted_arrives: "counted s \<Longrightarrow> counted (s\<lparr>sy_calls := sy_calls s @ [(en, Entered)]\<rparr>)"
  by (simp add: counted_def holding_def)

lemma counted_step: "step env s t \<Longrightarrow> counted s \<Longrightarrow> counted t"
  by (erule step.cases) (auto simp: counted_arrives counted_moves)

lemma counted_reached: "reached env n s \<Longrightarrow> counted s"
proof (induction rule: reached_induct)
  case initial
  show ?case by (simp add: counted_def holding_def initial_system_def initial_abi_def)
qed (rule counted_step)

text \<open>
  C17: The counters count. In every state the host can bring the interface into, the wait groups and the
  channel count exactly the calls that have entered and not left, so at most four requests are
  inspected at a time.
\<close>

theorem admission_counts:
  "reached env n s \<Longrightarrow>
   ab_native (sy_abi s) = length (filter (\<lambda>(en, pc). holds_native pc) (sy_calls s)) \<and>
   ab_inFlight (sy_abi s) = length (filter (\<lambda>(en, pc). holds_call pc) (sy_calls s)) \<and>
   ab_slots (sy_abi s) = length (filter (\<lambda>(en, pc). holds_slot pc) (sy_calls s)) \<and>
   length (filter (\<lambda>(en, pc). \<exists>p. pc = Inspecting p) (sy_calls s)) \<le> 4"
proof -
  assume "reached env n s"
  then have c: "counted s" by (rule counted_reached)
  have split: "P \<circ> snd = (\<lambda>(en, pc). P pc)" for P :: "pc \<Rightarrow> bool" by (auto simp: fun_eq_iff)
  have "filter (\<lambda>(en, pc). \<exists>p. pc = Inspecting p) (sy_calls s) =
      filter (\<lambda>(en, pc). \<exists>p. pc = Inspecting p) (filter (holds_slot \<circ> snd) (sy_calls s))"
    by (auto simp: filter_filter intro!: filter_cong)
  then have "length (filter (\<lambda>(en, pc). \<exists>p. pc = Inspecting p) (sy_calls s)) \<le> holding holds_slot s"
    unfolding holding_def by (metis length_filter_le)
  with c show ?thesis by (simp add: counted_def holding_def split native_scan_concurrency_def)
qed

text \<open>The sample host and its first request, up to the inspection.\<close>

lemma sample_inspecting:
  "\<exists>s p. perform sample_surroundings sample_entered initial_system = Some s \<and> ab_slots (sy_abi s) = 1 \<and>
     length (sy_calls s) = 3 \<and> snd (sy_calls s ! 2) = Inspecting p"
proof -
  obtain p rt' where b: "build_plugin_with_runtime sample_surroundings 0 ''y'' [] new_runtime_state = (Inr p, rt')"
    by (rule sample_build)
  have c: "check_schema (rg_plugin p) 2 = Inr \<lparr>rs_SchemaVersion = 2, rs_Metadata = plugin_metadata, rs_RequestInterceptor = True,
      rs_RequestLifecyclePlugin = True\<rparr>"
    by (simp add: check_schema_def negotiate_schema_version_def implemented_schema_version_def)
  have n: "length sample_sent = 45" "0 < native_scan_concurrency" by (simp_all add: sample_sent_def native_scan_concurrency_def)
  show ?thesis
    unfolding sample_entered_def sample_registration_def
    by (simp add: entry_defs b c n)
qed

theorem admission_counts_witness:
  "\<exists>s. perform sample_surroundings sample_entered initial_system = Some s \<and>
     length (filter (\<lambda>(en, pc). \<exists>p. pc = Inspecting p) (sy_calls s)) \<le> 4 \<and>
     length (filter (\<lambda>(en, pc). holds_slot pc) (sy_calls s)) = 1"
proof -
  obtain s where s: "perform sample_surroundings sample_entered initial_system = Some s" "ab_slots (sy_abi s) = 1"
    using sample_inspecting by blast
  from admission_counts [OF perform_reached [OF s(1)]] s show ?thesis by auto
qed

section \<open>Quiesce\<close>

text \<open>Runs in which the flag stays set: no registration and no new host in between.\<close>

inductive quiet :: "surroundings \<Rightarrow> system \<Rightarrow> system \<Rightarrow> bool" for env s where
  quiet_refl: "ab_shuttingDown (sy_abi s) \<Longrightarrow> quiet env s s"
| quiet_step: "quiet env s t \<Longrightarrow> step env t u \<Longrightarrow> ab_shuttingDown (sy_abi u) \<Longrightarrow> quiet env s u"

fun drain_stage :: "pc \<Rightarrow> nat option" where
  "drain_stage Draining = Some 0"
| "drain_stage (Stopping rt) = Some 0"
| "drain_stage DrainingCalls = Some 1"
| "drain_stage (StoppingCalls rt) = Some 1"
| "drain_stage (Clearing rt) = Some 2"
| "drain_stage (Forgetting rt) = Some 2"
| "drain_stage (Returned code res) = Some 2"
| "drain_stage _ = None"

definition draining :: "nat \<Rightarrow> system \<Rightarrow> bool" where
  "draining i s \<longleftrightarrow> i < length (sy_calls s) \<and>
     (\<exists>k. drain_stage (snd (sy_calls s ! i)) = Some k \<and> (1 \<le> k \<longrightarrow> ab_native (sy_abi s) = 0) \<and>
        (2 \<le> k \<longrightarrow> ab_inFlight (sy_abi s) = 0))"

lemma drain_stage_write [simp]: "drain_stage (write_abi_result c e) = Some 2"
  by (simp add: write_abi_result_def)

lemma advance_drains:
  assumes "advance env ch en pc st = Some (pc', st')" "drain_stage pc = Some k"
  shows "\<exists>k'. drain_stage pc' = Some k' \<and> (1 \<le> k' \<longrightarrow> 1 \<le> k \<or> ab_native st' = 0) \<and> (2 \<le> k' \<longrightarrow> 2 \<le> k \<or> ab_inFlight st' = 0)"
proof (cases en)
  case (Call c)
  with assms show ?thesis
    by (cases pc) (auto simp: advance_def advance_call_simps split: if_split_asm)
next
  case Shutdown
  with assms show ?thesis
    by (cases pc) (auto simp: advance_def advance_shutdown_def split: if_split_asm)
next
  case (Init nil)
  with assms show ?thesis by (cases pc) (auto simp: advance_def advance_init_def)
qed

lemma draining_moves:
  assumes "moves env s t" "counted s" "draining i s" "ab_shuttingDown (sy_abi s)" "ab_shuttingDown (sy_abi t)"
  shows "draining i t"
proof -
  from assms(1,2) obtain j en pc pc' ch where m: "j < length (sy_calls s)" "sy_calls s ! j = (en, pc)"
    "advance env ch en pc (sy_abi s) = Some (pc', sy_abi t)" "sy_calls t = (sy_calls s)[j := (en, pc')]"
    "accounts pc (sy_abi s) (pc', sy_abi t)" by (rule moves_accounts)
  have less: "ab_native (sy_abi t) \<le> ab_native (sy_abi s)" "ab_inFlight (sy_abi t) \<le> ab_inFlight (sy_abi s)"
    using m(5) assms(4,5) by (simp_all add: accounts_def)
  from assms(3) obtain k where k: "drain_stage (snd (sy_calls s ! i)) = Some k" "1 \<le> k \<longrightarrow> ab_native (sy_abi s) = 0"
    "2 \<le> k \<longrightarrow> ab_inFlight (sy_abi s) = 0" and i: "i < length (sy_calls s)" by (auto simp: draining_def)
  show ?thesis
  proof (cases "i = j")
    case False
    with k i less m(4) show ?thesis by (auto simp: draining_def)
  next
    case True
    with k(1) m(2) have "drain_stage pc = Some k" by simp
    from advance_drains [OF m(3) this] obtain k' where "drain_stage pc' = Some k'"
      "1 \<le> k' \<longrightarrow> 1 \<le> k \<or> ab_native (sy_abi t) = 0" "2 \<le> k' \<longrightarrow> 2 \<le> k \<or> ab_inFlight (sy_abi t) = 0" by blast
    with True k i less m(1,4) show ?thesis by (auto simp: draining_def)
  qed
qed

lemma draining_step:
  "step env s t \<Longrightarrow> counted s \<Longrightarrow> draining i s \<Longrightarrow> ab_shuttingDown (sy_abi s) \<Longrightarrow> ab_shuttingDown (sy_abi t) \<Longrightarrow> draining i t"
  by (erule step.cases) (auto simp: draining_moves, auto simp: draining_def nth_append)

lemma quiet_flag: "quiet env s t \<Longrightarrow> ab_shuttingDown (sy_abi t)"
  by (erule quiet.cases) auto

lemma quiet_counted: "quiet env s t \<Longrightarrow> counted s \<Longrightarrow> counted t"
  by (induction rule: quiet.induct) (auto intro: counted_step)

lemma quiet_draining:
  assumes "quiet env s t" "counted s" "draining i s"
  shows "draining i t"
  using assms(1)
proof induction
  case quiet_refl
  show ?case by (rule assms(3))
next
  case (quiet_step t u)
  then show ?case using draining_step quiet_flag quiet_counted assms(2) by blast
qed

lemma step_drained:
  assumes "step env s t" "counted s" "ab_shuttingDown (sy_abi s)" "ab_shuttingDown (sy_abi t)"
  shows "ab_native (sy_abi t) \<le> ab_native (sy_abi s) \<and> ab_inFlight (sy_abi t) \<le> ab_inFlight (sy_abi s)"
  using assms(1)
proof cases
  case (step_arrives en)
  then show ?thesis by simp
next
  case step_moves
  from this assms(2) show ?thesis by (rule moves_accounts) (use assms(3,4) in \<open>simp add: accounts_def\<close>)
qed

lemma quiet_drained:
  assumes "quiet env s t" "counted s"
  shows "ab_native (sy_abi t) \<le> ab_native (sy_abi s) \<and> ab_inFlight (sy_abi t) \<le> ab_inFlight (sy_abi s)"
  using assms(1)
proof induction
  case (quiet_step t u)
  then show ?case using step_drained [of env t u] quiet_flag quiet_counted assms(2) order_trans by meson
qed simp

text \<open>
  C9: A quiesce is final. When a quiesce, or a shutdown, has set the flag and nothing resets it, then
  once it has returned no call is inside the plugin any more, and none gets in again.
\<close>

theorem quiesce_is_final:
  "reached env n s \<Longrightarrow> i < length (sy_calls s) \<Longrightarrow>
   snd (sy_calls s ! i) = Draining \<or> (\<exists>rt. snd (sy_calls s ! i) = Stopping rt) \<Longrightarrow>
   quiet env s t \<Longrightarrow> snd (sy_calls t ! i) = Returned code res \<Longrightarrow> quiet env t u \<Longrightarrow>
   \<forall>(en, pc) \<in> set (sy_calls u). \<not> holds_native pc \<and> \<not> holds_call pc"
proof -
  assume r: "reached env n s" and i: "i < length (sy_calls s)"
    and pc: "snd (sy_calls s ! i) = Draining \<or> (\<exists>rt. snd (sy_calls s ! i) = Stopping rt)"
    and q: "quiet env s t" "quiet env t u" and ret: "snd (sy_calls t ! i) = Returned code res"
  have c: "counted s" using r by (rule counted_reached)
  have "draining i s" using i pc by (auto simp: draining_def)
  then have "draining i t" by (rule quiet_draining [OF q(1) c])
  with ret have "ab_native (sy_abi t) = 0" "ab_inFlight (sy_abi t) = 0" by (auto simp: draining_def)
  moreover have t: "counted t" by (rule quiet_counted [OF q(1) c])
  ultimately have "ab_native (sy_abi u) = 0" "ab_inFlight (sy_abi u) = 0" using quiet_drained [OF q(2) t] by simp_all
  with quiet_counted [OF q(2) t] show ?thesis by (auto simp: counted_def holding_none)
qed

lemma quiet_perform:
  assumes "list_all (\<lambda>k. case perform env (take k evs) s of None \<Rightarrow> False | Some u \<Rightarrow> ab_shuttingDown (sy_abi u)) [0..<Suc (length evs)]"
    "perform env evs s = Some t"
  shows "quiet env s t"
  using assms
proof (induction evs arbitrary: t rule: rev_induct)
  case Nil
  then show ?case by (auto intro: quiet_refl)
next
  case (snoc ev evs)
  from snoc.prems(2) obtain u where u: "perform env evs s = Some u" "perform env [ev] u = Some t"
    by (auto simp: perform_append bind_eq_Some_conv)
  have "quiet env s u"
    using snoc.prems(1) u(1) by (intro snoc.IH) (auto simp: list_all_iff nth_append less_Suc_eq)
  moreover have "step env u t" using perform_steps [OF u(2)] by (auto simp: relpowp_Suc_0)
  moreover have "ab_shuttingDown (sy_abi t)" using snoc.prems by (simp add: list_all_iff)
  ultimately show ?case by (rule quiet_step)
qed

text \<open>A host that quiesces before it has registered a plugin, and requests before and after.\<close>

definition sample_draining :: "event list" where
  "sample_draining = [Arrives (Init False), Moves 0 Proceed, Arrives (sample_call_of ''before'' []), Moves 1 Proceed,
     Arrives (sample_call_of ''quiesce'' []), Moves 2 Proceed]"

definition sample_drains :: "event list" where
  "sample_drains = [Moves 2 Proceed, Moves 2 Proceed]"

lemma sample_drains_length: "length sample_drains = 2"
  by (simp add: sample_drains_def)

definition sample_refused :: "event list" where
  "sample_refused = [Arrives (sample_call_of ''before'' []), Moves 3 Proceed]"

abbreviation unavailable :: envelope where
  "unavailable \<equiv> abi_failure_envelope sample_surroundings ''before'' 503 ''plugin_unavailable''
     ''privacy filter is not available for request inspection''"

abbreviation sample_stage :: "pc \<Rightarrow> system" where
  "sample_stage pc \<equiv> \<lparr>sy_abi = initial_abi\<lparr>ab_host := True, ab_shuttingDown := True\<rparr>,
     sy_calls = [(Init False, Returned 0 None), (sample_call_of ''before'' [], Returned 0 (Some unavailable)),
       (sample_call_of ''quiesce'' [], pc)]\<rparr>"

lemma sample_drained:
  "perform sample_surroundings sample_draining initial_system = Some (sample_stage Draining)"
  "perform sample_surroundings sample_drains (sample_stage Draining) = Some (sample_stage (Returned 0 (Some EnvEmpty)))"
  by (simp_all add: sample_draining_def sample_drains_def entry_defs)

theorem quiesce_is_final_witness:
  "\<exists>u. perform sample_surroundings (sample_draining @ sample_drains @ sample_refused) initial_system = Some u \<and>
     list_all (\<lambda>(en, pc). \<not> holds_native pc \<and> \<not> holds_call pc) (sy_calls u)"
proof -
  let ?env = sample_surroundings and ?s = "sample_stage Draining" and ?t = "sample_stage (Returned 0 (Some EnvEmpty))"
  let ?u = "?t\<lparr>sy_calls := sy_calls ?t @ [(sample_call_of ''before'' [], Returned 0 (Some unavailable))]\<rparr>"
  note s = sample_drained(1) and t = sample_drained(2)
  have u: "perform ?env sample_refused ?t = Some ?u" by (simp add: sample_refused_def entry_defs)
  have q: "quiet ?env ?s ?t"
    by (rule quiet_perform [OF _ t]) (simp add: sample_drains_def entry_defs upt_rec)
  have q': "quiet ?env ?t ?u"
    by (rule quiet_perform [OF _ u]) (simp add: sample_refused_def entry_defs upt_rec)
  have pc: "2 < length (sy_calls ?s)" "snd (sy_calls ?s ! 2) = Draining" "snd (sy_calls ?t ! 2) = Returned 0 (Some EnvEmpty)"
    by simp_all
  note perform_trans [OF s perform_trans [OF t u]]
  moreover note quiesce_is_final [OF perform_reached [OF s] pc(1) disjI1 [OF pc(2)] q pc(3) q']
  ultimately show ?thesis unfolding list_all_iff by blast
qed

section \<open>Every call returns\<close>

fun rank :: "pc \<Rightarrow> nat" where
  "rank Entered = 7"
| "rank Waiting = 6"
| "rank Admitted = 5"
| "rank (Inspecting p) = 4"
| "rank (Inspected e) = 3"
| "rank (Releasing e) = 2"
| "rank (Leaving e) = 1"
| "rank Answering = 1"
| "rank (Building y sc d ix) = 2"
| "rank (Swapping p r) = 1"
| "rank Draining = 2"
| "rank DrainingCalls = 1"
| "rank (Completing rid rt) = 1"
| "rank (Stopping rt) = 4"
| "rank (StoppingCalls rt) = 3"
| "rank (Clearing rt) = 2"
| "rank (Forgetting rt) = 1"
| "rank (Returned code res) = 0"

definition work :: "system \<Rightarrow> nat" where
  "work s = sum_list (map (rank \<circ> snd) (sy_calls s))"

lemma rank_write [simp]: "rank (write_abi_result c e) = 0"
  by (simp add: write_abi_result_def)

lemma rank_enter: "rank (fst (enter_call env c st)) < 7"
  by (auto simp: enter_call_def begin_native_scan_call_def begin_method_def begin_register_def begin_complete_def
      begin_plugin_call_def split: option.split)

lemma rank_build: "build_step env c m y sc d ix st = (pc', st') \<Longrightarrow> rank pc' < 2"
  by (auto simp: build_step_def Let_def split: prod.split_asm sum.split_asm)

lemma advance_rank:
  assumes "advance env ch en pc st = Some (pc', st')"
  shows "rank pc' < rank pc"
proof (cases en)
  case (Call c)
  with assms show ?thesis
    using rank_enter [of env c st]
    by (cases pc)
      (auto simp: advance_def advance_call_simps admit_step_def acquire_native_scan_def plugin_step_def begin_plugin_call_def
        inspect_step_def swap_step_def complete_step_def Let_def
        split: if_split_asm choice.split_asm option.split_asm prod.split_asm dest: rank_build arg_cong [of _ _ fst])
next
  case Shutdown
  with assms show ?thesis by (cases pc) (auto simp: advance_def advance_shutdown_def split: if_split_asm)
next
  case (Init nil)
  with assms show ?thesis by (cases pc) (auto simp: advance_def advance_init_def split: if_split_asm)
qed

lemma moves_work:
  assumes "moves env s t"
  shows "work t < work s"
  using assms
proof cases
  case (moves_call i en pc ch pc' st')
  have "rank pc \<le> work s"
    unfolding work_def using nth_mem [OF moves_call(2)] moves_call(3)
    by (intro member_le_sum_list) (auto intro: rev_image_eqI)
  moreover have "work t = work s + rank pc' - rank pc"
    using moves_call(1-3) by (simp add: work_def map_update sum_list_update)
  ultimately show ?thesis using advance_rank [OF moves_call(4)] by linarith
qed

lemma moves_bounded: "(moves env ^^ k) s t \<Longrightarrow> k + work t \<le> work s"
proof (induction k arbitrary: t)
  case (Suc k)
  then obtain u where "(moves env ^^ k) s u" "moves env u t" by auto
  with Suc.IH moves_work show ?case by fastforce
qed simp

text \<open>Each kind of entry has its own control points.\<close>

fun stops :: "pc \<Rightarrow> bool" where
  "stops (Stopping rt) = True"
| "stops (StoppingCalls rt) = True"
| "stops (Clearing rt) = True"
| "stops (Forgetting rt) = True"
| "stops _ = False"

fun outer :: "pc \<Rightarrow> bool" where
  "outer Entered = True"
| "outer (Returned code res) = True"
| "outer _ = False"

fun fits :: "entry \<Rightarrow> pc \<Rightarrow> bool" where
  "fits (Call c) pc \<longleftrightarrow> \<not> stops pc"
| "fits Shutdown pc \<longleftrightarrow> stops pc \<or> outer pc"
| "fits (Init nil) pc \<longleftrightarrow> outer pc"

definition all_fit :: "system \<Rightarrow> bool" where
  "all_fit s \<longleftrightarrow> (\<forall>(en, pc) \<in> set (sy_calls s). fits en pc)"

lemma stops_write [simp]: "\<not> stops (write_abi_result c e)"
  by (simp add: write_abi_result_def)

lemma stops_enter: "\<not> stops (fst (enter_call env c st))"
  by (simp add: enter_call_def begin_native_scan_call_def begin_method_def begin_register_def begin_complete_def
      begin_plugin_call_def split: option.split)

lemma stops_build: "build_step env c m y sc d ix st = (pc', st') \<Longrightarrow> \<not> stops pc'"
  by (auto simp: build_step_def Let_def split: prod.split_asm sum.split_asm)

lemma advance_fits:
  assumes "advance env ch en pc st = Some (pc', st')" "fits en pc"
  shows "fits en pc'"
proof (cases en)
  case (Call c)
  with assms show ?thesis
    using stops_enter [of env c st]
    by (cases pc)
      (auto simp: advance_def advance_call_simps admit_step_def acquire_native_scan_def plugin_step_def begin_plugin_call_def
        inspect_step_def swap_step_def complete_step_def Let_def
        split: if_split_asm choice.split_asm option.split_asm prod.split_asm dest: stops_build arg_cong [of _ _ fst])
next
  case Shutdown
  with assms show ?thesis by (cases pc) (auto simp: advance_def advance_shutdown_def split: if_split_asm)
next
  case (Init nil)
  with assms show ?thesis by (cases pc) (auto simp: advance_def advance_init_def split: if_split_asm)
qed

lemma all_fit_step:
  assumes "step env s t" "all_fit s"
  shows "all_fit t"
  using assms(1)
proof cases
  case (step_arrives en)
  with assms(2) show ?thesis by (cases en) (auto simp: all_fit_def)
next
  case step_moves
  then show ?thesis
  proof cases
    case (moves_call i en pc ch pc' st')
    from moves_call(2,3) assms(2) have "fits en pc" by (auto simp: all_fit_def dest!: nth_mem)
    then have "fits en pc'" by (rule advance_fits [OF moves_call(4)])
    with moves_call(1) assms(2) show ?thesis
      by (auto simp: all_fit_def dest!: set_update_subset_insert [THEN subsetD])
  qed
qed

lemma all_fit_reached: "reached env n s \<Longrightarrow> all_fit s"
proof (induction rule: reached_induct)
  case initial
  show ?case by (simp add: all_fit_def initial_system_def)
qed (rule all_fit_step)

lemma steps_moves: "(moves env ^^ k) s t \<Longrightarrow> (step env ^^ k) s t"
  by (rule relpowp_mono [of "moves env" "step env"]) (auto intro: step_moves)

lemma reached_moves: "reached env n s \<Longrightarrow> (moves env ^^ k) s t \<Longrightarrow> reached env (n + k) t"
  unfolding reached_def by (auto simp: relpowp_add dest!: steps_moves)

text \<open>Only the wait groups make a call wait.\<close>

lemma advances:
  assumes "fits en pc" "\<forall>code res. pc \<noteq> Returned code res"
    "drain_stage pc = Some 0 \<Longrightarrow> ab_native st = 0" "drain_stage pc = Some 1 \<Longrightarrow> ab_inFlight st = 0"
  shows "\<exists>ch r. advance env ch en pc st = Some r"
proof (cases en)
  case (Call c)
  show ?thesis
  proof (cases pc)
    case Waiting
    then show ?thesis using Call
      by (intro exI [of _ TimerFires]) (simp add: advance_def advance_call_simps admit_step_def acquire_native_scan_def)
  next
    case Admitted
    then show ?thesis using Call
      by (intro exI [of _ Proceed])
        (simp add: advance_def advance_call_simps plugin_step_def begin_plugin_call_def split: option.split)
  next
    case (Inspecting p)
    then show ?thesis using Call
      by (intro exI [of _ "Inspect 0 background background False"])
        (simp add: advance_def advance_call_simps inspect_step_def Let_def split: prod.split)
  qed (use assms Call in \<open>simp_all add: advance_def advance_call_simps\<close>)
next
  case Shutdown
  with assms show ?thesis by (cases pc) (simp_all add: advance_def advance_shutdown_def)
next
  case (Init nil)
  with assms show ?thesis by (cases pc) (simp_all add: advance_def advance_init_def)
qed

lemma can_move:
  assumes "(en, pc) \<in> set (sy_calls s)" "all_fit s" "\<forall>code res. pc \<noteq> Returned code res"
    "drain_stage pc = Some 0 \<Longrightarrow> ab_native (sy_abi s) = 0" "drain_stage pc = Some 1 \<Longrightarrow> ab_inFlight (sy_abi s) = 0"
  shows "\<exists>t. moves env s t"
proof -
  have "fits en pc" using assms(1,2) by (auto simp: all_fit_def)
  from advances [OF this assms(3-5)] obtain ch r where "advance env ch en pc (sy_abi s) = Some r" by blast
  moreover from assms(1) obtain i where "i < length (sy_calls s)" "sy_calls s ! i = (en, pc)" by (auto simp: in_set_conv_nth)
  ultimately show ?thesis by (cases r) (blast intro: moves_call)
qed

lemma stuck_returned:
  assumes "counted s" "all_fit s" "\<nexists>t. moves env s t" "(en, pc) \<in> set (sy_calls s)"
  shows "\<exists>code res. pc = Returned code res"
proof (rule ccontr)
  assume not: "\<nexists>code res. pc = Returned code res"
  have native: "ab_native (sy_abi s) = 0"
  proof (rule ccontr)
    assume "ab_native (sy_abi s) \<noteq> 0"
    then obtain en' pc' where p: "(en', pc') \<in> set (sy_calls s)" "holds_native pc'"
      using assms(1) holding_none [of holds_native s] by (auto simp: counted_def)
    have "\<exists>t. moves env s t" by (rule can_move [OF p(1) assms(2)]) (use p(2) in \<open>cases pc'; auto\<close>)+
    with assms(3) show False by blast
  qed
  have "ab_inFlight (sy_abi s) = 0"
  proof (rule ccontr)
    assume "ab_inFlight (sy_abi s) \<noteq> 0"
    then obtain en' pc' where p: "(en', pc') \<in> set (sy_calls s)" "holds_call pc'"
      using assms(1) holding_none [of holds_call s] by (auto simp: counted_def)
    have "\<exists>t. moves env s t" by (rule can_move [OF p(1) assms(2)]) (use p(2) in \<open>cases pc'; auto\<close>)+
    with assms(3) show False by blast
  qed
  with native not have "\<exists>t. moves env s t" by (intro can_move [OF assms(4,2)]) auto
  with assms(3) show False by blast
qed

text \<open>
  C10: Every call returns. From any state, once no further calls arrive, the calls that are there make
  only so many steps together, in whatever order they are scheduled, and they are stuck only
  when all of them have returned: a quiesce or a shutdown waits for the inspections before
  it, and never for ever.
\<close>

theorem every_call_returns:
  "reached env n s \<Longrightarrow> (moves env ^^ k) s t \<Longrightarrow>
   k \<le> work s \<and> ((\<nexists>u. moves env t u) \<longleftrightarrow> (\<forall>(en, pc) \<in> set (sy_calls t). \<exists>code res. pc = Returned code res))"
proof -
  assume r: "reached env n s" and m: "(moves env ^^ k) s t"
  have t: "reached env (n + k) t" by (rule reached_moves [OF r m])
  have "k \<le> work s" using moves_bounded [OF m] by simp
  moreover have "\<nexists>u. moves env t u" if all: "\<forall>(en, pc) \<in> set (sy_calls t). \<exists>code res. pc = Returned code res"
  proof
    assume "\<exists>u. moves env t u"
    then obtain i en pc ch r where "i < length (sy_calls t)" "sy_calls t ! i = (en, pc)"
      "advance env ch en pc (sy_abi t) = Some r" by (auto elim: moves.cases)
    moreover from this nth_mem [of i "sy_calls t"] have "(en, pc) \<in> set (sy_calls t)" by simp
    with all obtain code res where "pc = Returned code res" by blast
    ultimately show False using advance_rank [of env ch en pc "sy_abi t" "fst r" "snd r"] by simp
  qed
  ultimately show ?thesis using stuck_returned [OF counted_reached [OF t] all_fit_reached [OF t]] by fast
qed

theorem every_call_returns_witness:
  "\<exists>s t. perform sample_surroundings sample_draining initial_system = Some s \<and>
     perform sample_surroundings sample_drains s = Some t \<and> 2 \<le> work s \<and> (\<nexists>u. moves sample_surroundings t u)"
proof -
  note s = sample_drained(1) and t = sample_drained(2)
  have "\<forall>ev \<in> set sample_drains. \<exists>i ch. ev = Moves i ch" by (simp add: sample_drains_def)
  with perform_moves [OF t] have m: "(moves sample_surroundings ^^ length sample_drains) (sample_stage Draining)
      (sample_stage (Returned 0 (Some EnvEmpty)))" by blast
  from every_call_returns [OF perform_reached [OF s] m] have "length sample_drains \<le> work (sample_stage Draining)"
    "\<nexists>u. moves sample_surroundings (sample_stage (Returned 0 (Some EnvEmpty))) u" by simp_all
  with s t show ?thesis unfolding sample_drains_length by blast
qed

end
