(* ===== verification/Abi_Sound.thy ===== *)
theory Abi_Sound
  imports Abi Interceptor_Properties
begin

text \<open>
  From the host's call to the inspected body. The caches of all runtimes stay sound under concurrent
  calls, completions, reconfigurations and shutdowns, where the plugin of a revision is the one that
  was built with it; so an answer to an interception is a termination or an outcome of the
  interceptor of a plugin that was built.
\<close>

section \<open>The contexts in a cache\<close>

abbreviation contexts :: "'r cache \<Rightarrow> scan_context set" where
  "contexts c \<equiv> ss_context ` set (cc_states c)"

lemma contexts_update: "(\<And>st. ss_context (f st) = ss_context st) \<Longrightarrow> contexts (update_state s f c) \<subseteq> contexts c"
  by (cases "s < length (cc_states c)")
    (auto simp: update_state_def list_update_beyond dest!: set_update_subset_insert [THEN subsetD])

lemma contexts_count [simp]: "contexts (count_metric f c) = contexts c"
  by simp

lemma contexts_Seen: "contexts (snd (Seen sha s body c)) = contexts c"
  by (simp add: Seen_def Let_def)

lemma contexts_Store: "contexts (StoreRendererState s r c) \<subseteq> contexts c"
  unfolding StoreRendererState_def by (rule contexts_update) simp

lemma contexts_GetOrCreate: "contexts (snd (GetOrCreateRendererState s factory c)) \<subseteq> contexts c"
  by (cases factory) (simp_all add: GetOrCreateRendererState_def Let_def contexts_Store)

lemma contexts_Record: "contexts (Record sha s body out c) \<subseteq> contexts c"
proof -
  have "contexts (update_state s (\<lambda>st. st\<lparr>ss_fingerprint := f, ss_hasFingerprint := True\<rparr>) c) \<subseteq> contexts c" for f
    by (rule contexts_update) simp
  then show ?thesis by (simp add: Record_def Let_def)
qed

lemma contexts_intercept:
  assumes "cache_ok cache" "intercept_request uf pl revision now cw cx req cache = (resp, cache')" "ctx' \<in> contexts cache'"
  shows "ctx' \<in> contexts cache \<or> sx_Revision ctx' = revision"
proof -
  let ?model = "if rq_RequestedModel req = [] then rq_Model req else rq_RequestedModel req"
  let ?cx = "\<lparr>sx_Revision = revision, sx_SourceFormat = rq_SourceFormat req, sx_Model = ?model\<rparr>"
  obtain s c1 where 1: "Acquire (rq_RequestID req) ?cx now cache = (s, c1)" by fastforce
  have c1: "contexts c1 \<subseteq> insert ?cx (contexts cache)"
    using Acquire_states [OF assms(1) 1] by (auto simp: new_scan_state_def)
  obtain seen c2 where 2: "Seen (pg_sha256 pl) s (rq_Body req) c1 = (seen, c2)" by fastforce
  have c2: "contexts c2 \<subseteq> contexts c1" using contexts_Seen [of "pg_sha256 pl" s "rq_Body req" c1] 2 by simp
  obtain ro c3 where 3: "GetOrCreateRendererState s (Some (Some new_request_renderer)) c2 = (ro, c3)" by fastforce
  have c3: "contexts c3 \<subseteq> contexts c2"
    using contexts_GetOrCreate [of s "Some (Some new_request_renderer)" c2] 3 by simp
  have store: "contexts (StoreRendererState s r c3) \<subseteq> contexts c3" for r by (rule contexts_Store)
  have recorded: "contexts (Record (pg_sha256 pl) s b out (StoreRendererState s r c3)) \<subseteq> contexts c3" for b out r
    using contexts_Record contexts_Store by (rule order_trans)
  note run = assms(2)
  have "cache' \<in> {cache, c2, c3} \<or> (\<exists>r. cache' = StoreRendererState s r c3) \<or>
      (\<exists>b out r. cache' = Record (pg_sha256 pl) s b out (StoreRendererState s r c3))"
  proof (cases "should_skip uf (pg_cfg pl) (rq_Model req) (rq_RequestedModel req) (rq_SourceFormat req) \<or> rq_Body req = []")
    case True
    then have "cache' = cache"
      using run by (cases "should_skip uf (pg_cfg pl) (rq_Model req) (rq_RequestedModel req) (rq_SourceFormat req)")
        (simp_all add: intercept_request_def)
    then show ?thesis by blast
  next
    case go: False
    show ?thesis
    proof (cases "seen \<or> ro = None")
      case True
      with run go 1 2 3 have "cache' = c2 \<or> cache' = c3" by (cases seen) (auto simp: intercept_request_def)
      then show ?thesis by blast
    next
      case False
      then obtain r where r: "\<not> seen" "ro = Some r" by blast
      from go have g: "\<not> should_skip uf (pg_cfg pl) (rq_Model req) (rq_RequestedModel req) (rq_SourceFormat req)"
        "rq_Body req \<noteq> []" by simp_all
      have seen: "Seen (pg_sha256 pl) s (rq_Body req) c1 = (False, c2)" using 2 r(1) by simp
      have some: "GetOrCreateRendererState s (Some (Some new_request_renderer)) c2 = (Some r, c3)" using 3 r(2) by simp
      obtain res r' where 4: "sanitize_request_with_renderer pl cw cx (rq_SourceFormat req) (rq_Body req) (Some r) = (res, r')"
        by fastforce
      note run = run [unfolded intercept_request_def Let_def, simplified 1 seen some 4 g if_False prod.case option.case bool.case]
      show ?thesis
      proof (cases res)
        case (Inl e)
        from run [unfolded Inl] have "cache' = StoreRendererState s r' c3" by simp
        then show ?thesis by blast
      next
        case (Inr result)
        let ?out = "if sr_changed result then Some (sr_body result) else None"
        from run [unfolded Inr] have "cache' = Record (pg_sha256 pl) s (rq_Body req) ?out (StoreRendererState s r' c3)"
          by (cases "sr_changed result") simp_all
        then show ?thesis by blast
      qed
    qed
  qed
  then have "cache' = cache \<or> contexts cache' \<subseteq> contexts c2 \<or> contexts cache' \<subseteq> contexts c3"
  proof (elim disjE exE)
    fix r assume "cache' = StoreRendererState s r c3"
    with store [of r] show ?thesis by simp
  next
    fix b out r assume "cache' = Record (pg_sha256 pl) s b out (StoreRendererState s r c3)"
    with recorded [of b out r] show ?thesis by simp
  qed auto
  moreover have "contexts c2 \<subseteq> insert ?cx (contexts cache)" "contexts c3 \<subseteq> insert ?cx (contexts cache)"
    using c1 c2 c3 by (meson order_trans)+
  ultimately have "ctx' \<in> insert ?cx (contexts cache)" using assms(3) by (meson insertI2 subsetD)
  then show ?thesis by (elim insertE) simp_all
qed

section \<open>Other operations on a cache\<close>

lemma released_sound:
  assumes "cache_sound plugins sha c"
  shows "cache_sound plugins sha (released rid c) \<and> cc_states (released rid c) = cc_states c"
proof -
  have "cache_ok c" using assms by (simp add: cache_sound_def)
  with Complete_ok [of c rid "fst (Complete rid c)" "snd (Complete rid c)"] assms show ?thesis
    by (auto simp: released_def release_request_scan_state_def cache_sound_def)
qed

lemma cleared_sound:
  assumes "cache_sound plugins sha c"
  shows "cache_sound plugins sha (snd (Clear c)) \<and> cc_states (snd (Clear c)) = cc_states c"
proof -
  from assms have "cache_ok c" by (simp add: cache_sound_def)
  then have "cache_ok (exec_op sha OpClear c)" by (rule exec_op_ok)
  with assms show ?thesis by (simp add: cache_sound_def Clear_def)
qed

lemma cache_sound_cong:
  "cache_sound plugins sha c \<Longrightarrow> (\<And>x. x \<in> contexts c \<Longrightarrow> plugins' (sx_Revision x) = plugins (sx_Revision x)) \<Longrightarrow>
   cache_sound plugins' sha c"
  by (auto simp: cache_sound_def state_approved_def Let_def)

section \<open>The runtimes and the plugins built for them\<close>

text \<open>\<open>plugins r v\<close>: the plugin built as revision \<open>v\<close> of runtime \<open>r\<close>.\<close>

type_synonym history = "nat \<Rightarrow> 64 word \<Rightarrow> plugin"

definition runtime_ok :: "(string \<Rightarrow> string) \<Rightarrow> nat \<Rightarrow> (64 word \<Rightarrow> plugin) \<Rightarrow> runtime \<Rightarrow> bool" where
  "runtime_ok sha n plugins rt \<longleftrightarrow> (\<forall>v. pg_sha256 (plugins v) = sha) \<and> cache_sound plugins sha (rt_cache rt) \<and>
     unat (rt_revision rt) \<le> n \<and> (\<forall>x \<in> contexts (rt_cache rt). unat (sx_Revision x) \<le> unat (rt_revision rt))"

definition held :: "surroundings \<Rightarrow> history \<Rightarrow> runtime list \<Rightarrow> registered \<Rightarrow> bool" where
  "held env plugins rts p \<longleftrightarrow> rg_runtime p < length rts \<and> plugins (rg_runtime p) (rg_revision p) = rg_plugin p \<and>
     unat (rg_revision p) \<le> unat (rt_revision (rts ! rg_runtime p)) \<and> built env p"

definition known :: "runtime list \<Rightarrow> nat option \<Rightarrow> bool" where
  "known rts r \<longleftrightarrow> (case r of None \<Rightarrow> True | Some ix \<Rightarrow> ix < length rts)"

definition world_ok :: "surroundings \<Rightarrow> nat \<Rightarrow> history \<Rightarrow> abi \<Rightarrow> bool" where
  "world_ok env n plugins st \<longleftrightarrow> (\<forall>r v. pg_sha256 (plugins r v) = rf_sha256 (ae_files env)) \<and>
     (\<forall>r < length (ab_runtimes st). runtime_ok (rf_sha256 (ae_files env)) n (plugins r) (ab_runtimes st ! r)) \<and>
     (\<forall>p. ab_plugin st = Some p \<longrightarrow> held env plugins (ab_runtimes st) p) \<and> known (ab_runtimes st) (ab_runtime st)"

fun pc_ok :: "surroundings \<Rightarrow> history \<Rightarrow> runtime list \<Rightarrow> pc \<Rightarrow> bool" where
  "pc_ok env plugins rts (Inspecting p) = held env plugins rts p"
| "pc_ok env plugins rts (Swapping p r) = held env plugins rts p"
| "pc_ok env plugins rts (Building y sc d ix) = (ix < length rts)"
| "pc_ok env plugins rts (Completing rid r) = known rts r"
| "pc_ok env plugins rts (Stopping r) = known rts r"
| "pc_ok env plugins rts (StoppingCalls r) = known rts r"
| "pc_ok env plugins rts (Clearing r) = known rts r"
| "pc_ok env plugins rts (Forgetting r) = known rts r"
| "pc_ok env plugins rts _ = True"

text \<open>What an interception before authentication may be answered.\<close>

definition answer_ok :: "surroundings \<Rightarrow> call \<Rightarrow> envelope \<Rightarrow> bool" where
  "answer_ok env c e \<longleftrightarrow> (cl_method c = Some (ae_before env) \<longrightarrow>
     (\<exists>resp. e = EnvResponse resp \<and> (rp_Terminate resp \<or>
        (\<exists>p req. built env p \<and> ae_intercept env (request_bytes c) = Some req \<and>
           outcome (ae_fold env) (rg_plugin p) (rf_sha256 (ae_files env)) req resp))))"

definition not_before :: "surroundings \<Rightarrow> call \<Rightarrow> bool" where
  "not_before env c \<longleftrightarrow> cl_method c \<noteq> Some (ae_before env)"

fun answered :: "surroundings \<Rightarrow> call \<Rightarrow> pc \<Rightarrow> bool" where
  "answered env c (Inspected e) = answer_ok env c e"
| "answered env c (Releasing e) = answer_ok env c e"
| "answered env c (Leaving e) = answer_ok env c e"
| "answered env c (Returned code res) = (case res of None \<Rightarrow> cl_nil_response c | Some e \<Rightarrow> answer_ok env c e)"
| "answered env c Answering = not_before env c"
| "answered env c (Building y sc d ix) = not_before env c"
| "answered env c (Swapping p r) = not_before env c"
| "answered env c Draining = not_before env c"
| "answered env c DrainingCalls = not_before env c"
| "answered env c (Completing rid r) = not_before env c"
| "answered env c _ = True"

definition call_answered :: "surroundings \<Rightarrow> entry \<Rightarrow> pc \<Rightarrow> bool" where
  "call_answered env en pc \<longleftrightarrow> (case en of Call c \<Rightarrow> answered env c pc | _ \<Rightarrow> True)"

section \<open>The world goes on\<close>

definition goes_on :: "history \<Rightarrow> runtime list \<Rightarrow> history \<Rightarrow> runtime list \<Rightarrow> bool" where
  "goes_on plugins rts plugins' rts' \<longleftrightarrow> length rts \<le> length rts' \<and>
     (\<forall>r < length rts. unat (rt_revision (rts ! r)) \<le> unat (rt_revision (rts' ! r)) \<and>
        (\<forall>v. unat v \<le> unat (rt_revision (rts ! r)) \<longrightarrow> plugins' r v = plugins r v))"

lemma goes_on_refl: "goes_on plugins rts plugins rts"
  by (simp add: goes_on_def)

lemma held_goes_on: "held env plugins rts p \<Longrightarrow> goes_on plugins rts plugins' rts' \<Longrightarrow> held env plugins' rts' p"
  by (auto simp: held_def goes_on_def intro: order_trans)

lemma known_goes_on: "known rts r \<Longrightarrow> goes_on plugins rts plugins' rts' \<Longrightarrow> known rts' r"
  by (auto simp: known_def goes_on_def split: option.splits)

lemma pc_ok_goes_on: "pc_ok env plugins rts pc \<Longrightarrow> goes_on plugins rts plugins' rts' \<Longrightarrow> pc_ok env plugins' rts' pc"
  by (cases pc) (auto simp: held_goes_on known_goes_on, auto simp: goes_on_def)

lemma runtime_ok_mono: "runtime_ok sha n plugins rt \<Longrightarrow> n \<le> m \<Longrightarrow> runtime_ok sha m plugins rt"
  by (auto simp: runtime_ok_def)

lemma world_ok_mono: "world_ok env n plugins st \<Longrightarrow> n \<le> m \<Longrightarrow> world_ok env m plugins st"
  by (auto simp: world_ok_def intro: runtime_ok_mono)

text \<open>A step that leaves the runtimes alone.\<close>

lemma world_ok_frame:
  "world_ok env n plugins st \<Longrightarrow> ab_runtimes st' = ab_runtimes st \<Longrightarrow> ab_plugin st' = ab_plugin st \<or> ab_plugin st' = None \<Longrightarrow>
   ab_runtime st' = ab_runtime st \<or> ab_runtime st' = None \<Longrightarrow> world_ok env n plugins st'"
  by (auto simp: world_ok_def known_def)

text \<open>A step on the cache of one runtime.\<close>

lemma update_cache_runtimes:
  "ab_runtimes (update_cache ix f st) = (ab_runtimes st)[ix := (ab_runtimes st ! ix)\<lparr>rt_cache := f (rt_cache (ab_runtimes st ! ix))\<rparr>]"
  "ab_plugin (update_cache ix f st) = ab_plugin st" "ab_runtime (update_cache ix f st) = ab_runtime st"
  by (simp_all add: update_cache_def)

lemma nth_update_cache:
  "r < length (ab_runtimes st) \<Longrightarrow> ab_runtimes (update_cache ix f st) ! r =
     (if r = ix then (ab_runtimes st ! ix)\<lparr>rt_cache := f (rt_cache (ab_runtimes st ! ix))\<rparr> else ab_runtimes st ! r)"
  by (simp add: update_cache_runtimes)

lemma goes_on_update_cache: "goes_on plugins (ab_runtimes st) plugins (ab_runtimes (update_cache ix f st))"
  by (simp add: goes_on_def nth_update_cache)

lemma world_ok_update_cache:
  assumes w: "world_ok env n plugins st"
    and f: "ix < length (ab_runtimes st) \<Longrightarrow> runtime_ok (rf_sha256 (ae_files env)) n (plugins ix)
      ((ab_runtimes st ! ix)\<lparr>rt_cache := f (rt_cache (ab_runtimes st ! ix))\<rparr>)"
  shows "world_ok env n plugins (update_cache ix f st)"
proof -
  note g = goes_on_update_cache [of plugins st ix f]
  have "held env plugins (ab_runtimes (update_cache ix f st)) p" if "ab_plugin (update_cache ix f st) = Some p" for p
    using w that held_goes_on [OF _ g] by (simp add: world_ok_def update_cache_runtimes(2))
  moreover have "known (ab_runtimes (update_cache ix f st)) (ab_runtime (update_cache ix f st))"
    using w known_goes_on [OF _ g] by (simp add: world_ok_def update_cache_runtimes(3))
  moreover have "runtime_ok (rf_sha256 (ae_files env)) n (plugins r) (ab_runtimes (update_cache ix f st) ! r)"
    if "r < length (ab_runtimes (update_cache ix f st))" for r
    using w f that by (auto simp: world_ok_def nth_update_cache)
  moreover have "\<forall>r v. pg_sha256 (plugins r v) = rf_sha256 (ae_files env)" using w by (simp add: world_ok_def)
  ultimately show ?thesis by (simp add: world_ok_def)
qed

lemma cache_step_ok:
  assumes "runtime_ok sha n plugins rt" "cache_sound plugins sha c'"
    "\<And>x. x \<in> contexts c' \<Longrightarrow> x \<in> contexts (rt_cache rt) \<or> unat (sx_Revision x) \<le> unat (rt_revision rt)"
  shows "runtime_ok sha n plugins (rt\<lparr>rt_cache := c'\<rparr>)"
proof -
  have "unat (sx_Revision x) \<le> unat (rt_revision rt)" if "x \<in> contexts c'" for x
    using assms(3) [OF that] assms(1) unfolding runtime_ok_def by blast
  with assms(1,2) show ?thesis by (auto simp: runtime_ok_def)
qed

section \<open>The steps\<close>

text \<open>\<open>advanced\<close>: what a step has to establish, in a world whose history may have grown.\<close>

definition advanced :: "surroundings \<Rightarrow> nat \<Rightarrow> history \<Rightarrow> entry \<Rightarrow> abi \<Rightarrow> pc \<times> abi \<Rightarrow> bool" where
  "advanced env n plugins en st r \<longleftrightarrow> (\<exists>plugins'. world_ok env (Suc n) plugins' (snd r) \<and>
     goes_on plugins (ab_runtimes st) plugins' (ab_runtimes (snd r)) \<and>
     pc_ok env plugins' (ab_runtimes (snd r)) (fst r) \<and> call_answered env en (fst r))"

lemma advancedI:
  "world_ok env n plugins st' \<Longrightarrow> goes_on plugins (ab_runtimes st) plugins (ab_runtimes st') \<Longrightarrow>
   pc_ok env plugins (ab_runtimes st') pc' \<Longrightarrow> call_answered env en pc' \<Longrightarrow> advanced env n plugins en st (pc', st')"
  unfolding advanced_def by (rule exI [of _ plugins]) (auto intro: world_ok_mono)

lemma advanced_frame:
  "world_ok env n plugins st \<Longrightarrow> ab_runtimes st' = ab_runtimes st \<Longrightarrow> ab_plugin st' = ab_plugin st \<or> ab_plugin st' = None \<Longrightarrow>
   ab_runtime st' = ab_runtime st \<or> ab_runtime st' = None \<Longrightarrow> pc_ok env plugins (ab_runtimes st) pc' \<Longrightarrow>
   call_answered env en pc' \<Longrightarrow> advanced env n plugins en st (pc', st')"
  by (rule advancedI) (auto simp: goes_on_refl elim: world_ok_frame)

lemma pc_ok_write [simp]: "pc_ok env plugins rts (write_abi_result c e)"
  by (simp add: write_abi_result_def)

lemma answered_write [simp]: "call_answered env (Call c) (write_abi_result c e) \<longleftrightarrow> cl_nil_response c \<or> answer_ok env c e"
  by (simp add: call_answered_def write_abi_result_def)

lemma answer_not_before: "not_before env c \<Longrightarrow> answer_ok env c e"
  by (simp add: not_before_def answer_ok_def)

text \<open>A call without a method only has the error of \<open>enter_call\<close> as its answer.\<close>

definition method_of :: "call \<Rightarrow> string" where
  "method_of c = (case cl_method c of None \<Rightarrow> [] | Some m \<Rightarrow> m)"

lemma answer_failure: "answer_ok env c (abi_failure_envelope env (method_of c) status code message)"
proof (cases "cl_method c = Some (ae_before env)")
  case True
  then have "method_of c = ae_before env" by (simp add: method_of_def)
  with failure_intercept [of "method_of c" env status code message] show ?thesis by (auto simp: answer_ok_def)
qed (simp add: answer_ok_def)

lemma answer_envelopes:
  "answer_ok env c (deadline_envelope env (method_of c))" "answer_ok env c (abi_panic_envelope env (method_of c))"
  "answer_ok env c (plugin_error_envelope env (method_of c) e)"
  unfolding deadline_envelope_def abi_panic_envelope_def plugin_error_envelope_def by (rule answer_failure)+

text \<open>The inspection of a request by the plugin a call holds.\<close>

lemma run_interceptor_ok:
  assumes w: "world_ok env n plugins st" and p: "held env plugins (ab_runtimes st) p"
    and run: "run_interceptor env c (method_of c) p now cw cx (rt_cache (ab_runtimes st ! rg_runtime p)) = (e, cache')"
  shows "answer_ok env c e \<and> world_ok env n plugins (update_cache (rg_runtime p) (\<lambda>_. cache') st)"
proof -
  let ?ix = "rg_runtime p" and ?sha = "rf_sha256 (ae_files env)"
  let ?rt = "ab_runtimes st ! ?ix"
  from p have ix: "?ix < length (ab_runtimes st)" and pl: "plugins ?ix (rg_revision p) = rg_plugin p"
    and rev: "unat (rg_revision p) \<le> unat (rt_revision ?rt)" and b: "built env p" by (simp_all add: held_def)
  from w ix have rt: "runtime_ok ?sha n (plugins ?ix) ?rt" by (simp add: world_ok_def)
  then have sound: "cache_sound (plugins ?ix) ?sha (rt_cache ?rt)" and sha: "\<forall>v. pg_sha256 (plugins ?ix v) = ?sha"
    by (simp_all add: runtime_ok_def)
  show ?thesis
  proof (cases "\<exists>req. ae_intercept env (request_bytes c) = Some req \<and> method_of c = ae_before env")
    case False
    with run have "answer_ok env c e \<and> cache' = rt_cache ?rt"
      by (auto simp: run_interceptor_def answer_envelopes split: option.split_asm if_split_asm)
        (auto simp: answer_ok_def method_of_def)
    with w world_ok_update_cache [OF w, of ?ix "\<lambda>_. cache'"] rt show ?thesis by simp
  next
    case True
    then obtain req where req: "ae_intercept env (request_bytes c) = Some req" "method_of c = ae_before env" by blast
    from run req obtain resp where e: "e = EnvResponse resp" and i:
      "intercept_request (ae_fold env) (plugins ?ix (rg_revision p)) (rg_revision p) now cw cx req (rt_cache ?rt) = (resp, cache')"
      by (auto simp: run_interceptor_def pl split: prod.split_asm)
    from intercept_request_outcome [OF sha sound i] have s': "cache_sound (plugins ?ix) ?sha cache'"
      and out: "outcome (ae_fold env) (rg_plugin p) ?sha req resp" by (simp_all add: pl)
    have "cache_ok (rt_cache ?rt)" using sound by (simp add: cache_sound_def)
    note ctx = contexts_intercept [OF this i]
    have "runtime_ok ?sha n (plugins ?ix) (?rt\<lparr>rt_cache := cache'\<rparr>)"
    proof (rule cache_step_ok [OF rt s'])
      fix x assume "x \<in> contexts cache'"
      from ctx [OF this] rev show "x \<in> contexts (rt_cache ?rt) \<or> unat (sx_Revision x) \<le> unat (rt_revision ?rt)"
        by (elim disjE) simp_all
    qed
    with world_ok_update_cache [OF w, of ?ix "\<lambda>_. cache'"]
    have "world_ok env n plugins (update_cache ?ix (\<lambda>_. cache') st)" by simp
    moreover have "answer_ok env c e" using e out b req by (auto simp: answer_ok_def)
    ultimately show ?thesis by blast
  qed
qed

lemma advanced_inspect:
  assumes w: "world_ok env n plugins st" and p: "held env plugins (ab_runtimes st) p"
    and s: "inspect_step env ch c (method_of c) p st = Some r"
  shows "advanced env n plugins (Call c) st r"
proof -
  have panic: "advanced env n plugins (Call c) st (Inspected (abi_panic_envelope env (method_of c)), st)"
    by (rule advanced_frame [OF w]) (simp_all add: call_answered_def answer_envelopes)
  have run: "advanced env n plugins (Call c) st (Inspected e', update_cache (rg_runtime p) (\<lambda>_. cache') st)"
    if "run_interceptor env c (method_of c) p now cw cx (rt_cache (ab_runtimes st ! rg_runtime p)) = (e, cache')"
      "e' = e \<or> answer_ok env c e'" for now cw cx e e' cache'
    using run_interceptor_ok [OF w p that(1)] that(2)
    by (intro advancedI goes_on_update_cache) (auto simp: call_answered_def)
  show ?thesis
  proof (cases ch)
    case (Inspect now cw cx late)
    obtain e cache' where "run_interceptor env c (method_of c) p now cw cx (rt_cache (ab_runtimes st ! rg_runtime p)) = (e, cache')"
      by fastforce
    with s Inspect run [OF this, of "if late then deadline_envelope env (method_of c) else e"] answer_envelopes(1) [of env c]
    show ?thesis by (simp add: inspect_step_def Let_def split: if_split_asm)
  next
    case PanicBefore
    with s panic show ?thesis by (simp add: inspect_step_def Let_def)
  next
    case (PanicAfter now cw cx)
    obtain e cache' where "run_interceptor env c (method_of c) p now cw cx (rt_cache (ab_runtimes st ! rg_runtime p)) = (e, cache')"
      by fastforce
    with s PanicAfter run [OF this, of "abi_panic_envelope env (method_of c)"] answer_envelopes(2) [of env c]
    show ?thesis by (simp add: inspect_step_def Let_def)
  qed (use s in \<open>simp_all add: inspect_step_def Let_def\<close>)
qed

text \<open>The build of a plugin, which takes a revision that no plugin of the runtime has.\<close>

lemma unat_next: "unat v < 2 ^ 64 - 1 \<Longrightarrow> unat (v + 1 :: 64 word) = Suc (unat v)"
  by (simp add: unat_word_ariths)

lemma runtime_ok_next:
  assumes rt: "runtime_ok sha n plugins rt" and n: "n < 2 ^ 64 - 1" and pl: "pg_sha256 pl = sha"
  shows "runtime_ok sha (Suc n) (plugins(rt_revision rt + 1 := pl)) (rt\<lparr>rt_revision := rt_revision rt + 1\<rparr>)"
proof -
  have u: "unat (rt_revision rt + 1) = Suc (unat (rt_revision rt))"
    using rt n by (intro unat_next) (simp add: runtime_ok_def)
  have "sx_Revision x \<noteq> rt_revision rt + 1" if "x \<in> contexts (rt_cache rt)" for x
    using rt that u by (auto simp: runtime_ok_def)
  then have same: "(plugins(rt_revision rt + 1 := pl)) (sx_Revision x) = plugins (sx_Revision x)"
    if "x \<in> contexts (rt_cache rt)" for x using that by (metis fun_upd_other)
  have "cache_sound plugins sha (rt_cache rt)" using rt unfolding runtime_ok_def by blast
  from cache_sound_cong [OF this same] have sound: "cache_sound (plugins(rt_revision rt + 1 := pl)) sha (rt_cache rt)" .
  have le: "unat (sx_Revision x) \<le> Suc (unat (rt_revision rt))" if "x \<in> contexts (rt_cache rt)" for x
    using rt that unfolding runtime_ok_def by (meson le_SucI)
  have n': "unat (rt_revision rt) \<le> n" and sha: "\<forall>v. pg_sha256 (plugins v) = sha" using rt by (simp_all add: runtime_ok_def)
  have select: "rt_cache (rt\<lparr>rt_revision := v\<rparr>) = rt_cache rt" "rt_revision (rt\<lparr>rt_revision := v\<rparr>) = v" for v
    by simp_all
  show ?thesis
    unfolding runtime_ok_def select
  proof (intro conjI allI ballI)
    fix v show "pg_sha256 ((plugins(rt_revision rt + 1 := pl)) v) = sha" using sha pl by simp
  qed (simp_all only: sound u le n' Suc_le_mono)
qed

lemma advanced_build:
  assumes w: "world_ok env n plugins st" and ix: "ix < length (ab_runtimes st)" and n: "n < 2 ^ 64 - 1"
    and nb: "not_before env c"
  shows "advanced env n plugins (Call c) st (build_step env c m yaml schema dir ix st)"
proof -
  let ?rt = "ab_runtimes st ! ix" and ?sha = "rf_sha256 (ae_files env)"
  obtain res rt' where b: "build_plugin_with_runtime env ix yaml dir ?rt = (res, rt')" by fastforce
  have rt: "runtime_ok ?sha n (plugins ix) ?rt" using w ix by (simp add: world_ok_def)
  have u: "unat (rt_revision ?rt + 1) = Suc (unat (rt_revision ?rt))"
    using rt n by (intro unat_next) (simp add: runtime_ok_def)
  let ?st = "st\<lparr>ab_runtimes := (ab_runtimes st)[ix := rt']\<rparr>"
  \<comment> \<open>whatever plugin is entered for the new revision\<close>
  have grown: "world_ok env (Suc n) (plugins(ix := (plugins ix)(rt_revision ?rt + 1 := pl))) ?st \<and>
      goes_on plugins (ab_runtimes st) (plugins(ix := (plugins ix)(rt_revision ?rt + 1 := pl))) (ab_runtimes ?st)"
    if pl: "pg_sha256 pl = ?sha" and rt': "rt' = ?rt\<lparr>rt_revision := rt_revision ?rt + 1\<rparr>" for pl
  proof -
    let ?plugins = "plugins(ix := (plugins ix)(rt_revision ?rt + 1 := pl))"
    have g: "goes_on plugins (ab_runtimes st) ?plugins (ab_runtimes ?st)"
      using u rt' by (auto simp: goes_on_def nth_list_update)
    have "runtime_ok ?sha (Suc n) (?plugins r) (ab_runtimes ?st ! r)" if "r < length (ab_runtimes ?st)" for r
      using that w runtime_ok_next [OF rt n pl] rt' by (auto simp: world_ok_def nth_list_update intro: runtime_ok_mono)
    moreover have "ab_plugin ?st = Some p \<longrightarrow> held env ?plugins (ab_runtimes ?st) p" for p
      using w held_goes_on [OF _ g] by (simp add: world_ok_def)
    moreover have "known (ab_runtimes ?st) (ab_runtime ?st)" using w known_goes_on [OF _ g] by (simp add: world_ok_def)
    moreover have "\<forall>r v. pg_sha256 (?plugins r v) = ?sha" using w pl by (simp add: world_ok_def)
    ultimately show ?thesis using g by (simp add: world_ok_def)
  qed
  have finished: "advanced env n plugins (Call c) st (write_abi_result c e, ?st)" if "rt' = ?rt \<or> rt' = ?rt\<lparr>rt_revision := rt_revision ?rt + 1\<rparr>" for e
  proof (cases "rt' = ?rt")
    case True
    then have "?st = st" by simp
    with w show ?thesis by (intro advanced_frame [OF w]) (simp_all add: answer_not_before [OF nb])
  next
    case False
    obtain pl :: plugin where "pg_sha256 pl = ?sha" using rt by (auto simp: runtime_ok_def)
    with grown [of pl] False that show ?thesis
      unfolding advanced_def by (intro exI [of _ "plugins(ix := (plugins ix)(rt_revision ?rt + 1 := pl))"])
        (simp add: answer_not_before [OF nb])
  qed
  show ?thesis
  proof (cases res)
    case (Inl e)
    with b finished build_error [OF b [unfolded Inl]] show ?thesis by (auto simp: build_step_def Let_def)
  next
    case (Inr p)
    note r = build_result [OF b [unfolded Inr]]
    show ?thesis
    proof (cases "check_schema (rg_plugin p) schema")
      case (Inl e)
      with b \<open>res = Inr p\<close> finished r(1) show ?thesis by (auto simp: build_step_def Let_def)
    next
      case (Inr reg)
      have built: "built env p" unfolding built_def using b \<open>res = Inr p\<close> by blast
      have "held env (plugins(ix := (plugins ix)(rt_revision ?rt + 1 := rg_plugin p))) (ab_runtimes ?st) p"
        using r ix built by (simp add: held_def)
      with grown [OF r(4,1)] have "advanced env n plugins (Call c) st (Swapping p reg, ?st)"
        unfolding advanced_def
        by (intro exI [of _ "plugins(ix := (plugins ix)(rt_revision ?rt + 1 := rg_plugin p))"])
          (simp add: call_answered_def nb)
      with b \<open>res = Inr p\<close> Inr show ?thesis by (simp add: build_step_def Let_def)
    qed
  qed
qed

text \<open>A call that enters.\<close>

lemma runtime_ok_new:
  assumes "\<forall>v. pg_sha256 (plugins v) = sha"
  shows "runtime_ok sha n plugins new_runtime_state"
  using assms by (simp add: runtime_ok_def new_runtime_state_def cache_sound_new) (simp add: new_request_scan_cache_def)

lemma advanced_register:
  assumes w: "world_ok env n plugins st" and nb: "not_before env c"
  shows "advanced env n plugins (Call c) st (begin_register env c m st)"
proof -
  let ?st = "st\<lparr>ab_runtime := Some (length (ab_runtimes st)), ab_runtimes := ab_runtimes st @ [new_runtime_state]\<rparr>"
  have g: "goes_on plugins (ab_runtimes st) plugins (ab_runtimes ?st)" by (simp add: goes_on_def nth_append)
  have "runtime_ok (rf_sha256 (ae_files env)) n (plugins r) (ab_runtimes ?st ! r)" if "r < length (ab_runtimes ?st)" for r
    using w that runtime_ok_new [of "plugins r" "rf_sha256 (ae_files env)" n]
    by (auto simp: world_ok_def nth_append less_Suc_eq)
  moreover have "held env plugins (ab_runtimes ?st) p" if "ab_plugin st = Some p" for p
    using w that held_goes_on [OF _ g] by (simp add: world_ok_def)
  ultimately have "world_ok env n plugins ?st" using w by (simp add: world_ok_def known_def)
  then have fresh: "advanced env n plugins (Call c) st (Building y sc d (length (ab_runtimes st)), ?st)" for y sc d
    using g by (intro advancedI) (simp_all add: call_answered_def nb)
  have old: "advanced env n plugins (Call c) st (Building y sc d ix, st)" if "ab_runtime st = Some ix" for y sc d ix
    using w that by (intro advanced_frame [OF w]) (simp_all add: call_answered_def nb world_ok_def known_def)
  have "advanced env n plugins (Call c) st (write_abi_result c e, st)" for e
    by (rule advanced_frame [OF w]) (simp_all add: answer_not_before [OF nb])
  with fresh old show ?thesis by (simp add: begin_register_def split: option.split)
qed

lemma advanced_enter:
  assumes w: "world_ok env n plugins st"
  shows "advanced env n plugins (Call c) st (enter_call env c st)"
proof -
  have written: "advanced env n plugins (Call c) st (write_abi_result c e, st)" if "answer_ok env c e" for e
    by (rule advanced_frame [OF w]) (simp_all add: that)
  have failure: "advanced env n plugins (Call c) st (write_abi_result c (abi_failure_envelope env m status code message), st)"
    if "cl_method c = Some m" for m status code message
    using written answer_failure [of env c] that by (simp add: method_of_def)
  have native: "advanced env n plugins (Call c) st (Waiting, st')" if "begin_native_scan_call st = Inr st'" for st'
    using that by (intro advanced_frame [OF w])
      (auto simp: begin_native_scan_call_def call_answered_def split: if_split_asm option.split_asm)
  show ?thesis
  proof (cases "\<exists>m. cl_method c = Some m \<and> \<not> is_request_intercept_method env m")
    case False
    then show ?thesis
      using written [of "EnvError ''invalid_method'' ''method is required''"] failure native
      by (simp add: enter_call_def answer_ok_def split: option.split sum.split)
  next
    case True
    then obtain m where m: "cl_method c = Some m" "\<not> is_request_intercept_method env m" by blast
    then have nb: "not_before env c" by (simp add: not_before_def is_request_intercept_method_def)
    note all_written = written [OF answer_not_before [OF nb]]
    have quiesce: "advanced env n plugins (Call c) st (Draining, st\<lparr>ab_shuttingDown := True\<rparr>)"
      by (rule advanced_frame [OF w]) (simp_all add: call_answered_def nb)
    have complete: "advanced env n plugins (Call c) st (begin_complete env c m' st)" for m'
      using all_written w by (auto simp: begin_complete_def world_ok_def call_answered_def nb intro!: advanced_frame [OF w] split: option.split)
    have answering: "advanced env n plugins (Call c) st (Answering, st')" if "begin_plugin_call st = Inr (p, st')" for p st'
      using that by (intro advanced_frame [OF w])
        (auto simp: begin_plugin_call_def call_answered_def nb split: if_split_asm option.split_asm)
    have "advanced env n plugins (Call c) st (begin_method env c m st)"
      using advanced_register [OF w nb] quiesce complete answering all_written
      by (simp add: begin_method_def split: sum.split prod.split)
    with m all_written show ?thesis by (simp add: enter_call_def)
  qed
qed

lemma advanced_swap:
  assumes w: "world_ok env n plugins st" and p: "held env plugins (ab_runtimes st) p" and nb: "not_before env c"
  shows "advanced env n plugins (Call c) st (swap_step c p r st)"
  unfolding swap_step_def
  by (rule advancedI) (use w p in \<open>auto simp: world_ok_def goes_on_refl answer_not_before [OF nb]\<close>)

lemma advanced_complete:
  assumes w: "world_ok env n plugins st" and r: "known (ab_runtimes st) r" and nb: "not_before env c"
  shows "advanced env n plugins (Call c) st (complete_step c rid r st)"
proof (cases r)
  case None
  then show ?thesis unfolding complete_step_def
    by (intro advanced_frame [OF w]) (simp_all add: answer_not_before [OF nb])
next
  case (Some ix)
  with r w have rt: "runtime_ok (rf_sha256 (ae_files env)) n (plugins ix) (ab_runtimes st ! ix)"
    by (simp add: known_def world_ok_def)
  then have "cache_sound (plugins ix) (rf_sha256 (ae_files env)) (rt_cache (ab_runtimes st ! ix))" by (simp add: runtime_ok_def)
  from released_sound [OF this] rt have "world_ok env n plugins (update_cache ix (released rid) st)"
    by (intro world_ok_update_cache [OF w] cache_step_ok) auto
  with Some show ?thesis unfolding complete_step_def
    by (intro advancedI) (simp_all add: answer_not_before [OF nb] goes_on_update_cache)
qed

lemma advanced_clear:
  assumes w: "world_ok env n plugins st" and r: "known (ab_runtimes st) r"
  shows "advanced env n plugins Shutdown st
    (Forgetting r, case r of None \<Rightarrow> st | Some ix \<Rightarrow> update_cache ix (\<lambda>c. snd (Clear c)) st)"
proof (cases r)
  case None
  then show ?thesis by (intro advanced_frame [OF w]) (simp_all add: call_answered_def known_def)
next
  case (Some ix)
  with r w have rt: "runtime_ok (rf_sha256 (ae_files env)) n (plugins ix) (ab_runtimes st ! ix)"
    by (simp add: known_def world_ok_def)
  then have "cache_sound (plugins ix) (rf_sha256 (ae_files env)) (rt_cache (ab_runtimes st ! ix))" by (simp add: runtime_ok_def)
  from cleared_sound [OF this] rt have "world_ok env n plugins (update_cache ix (\<lambda>c. snd (Clear c)) st)"
    by (intro world_ok_update_cache [OF w] cache_step_ok) auto
  with Some r show ?thesis
    by (intro advancedI) (simp_all add: call_answered_def goes_on_update_cache known_def)
qed

lemma advanced_call:
  assumes w: "world_ok env n plugins st" and n: "n < 2 ^ 64 - 1" and pc: "pc_ok env plugins (ab_runtimes st) pc"
    and a: "answered env c pc" and run: "advance_call env ch c pc st = Some r"
  shows "advanced env n plugins (Call c) st r"
proof -
  have m: "(case cl_method c of None \<Rightarrow> [] | Some m \<Rightarrow> m) = method_of c" by (simp add: method_of_def)
  note run = run [unfolded advance_call_def Let_def m]
  have frame: "advanced env n plugins (Call c) st (pc', st')"
    if "answered env c pc'" "pc_ok env plugins (ab_runtimes st) pc'" "ab_runtimes st' = ab_runtimes st"
      "ab_plugin st' = ab_plugin st" "ab_runtime st' = ab_runtime st" for pc' st'
    using that by (intro advanced_frame [OF w]) (simp_all add: call_answered_def)
  have written: "answered env c (write_abi_result c e)" if "answer_ok env c e" for e
    using that by (simp add: write_abi_result_def)
  show ?thesis
  proof (cases pc)
    case Entered
    with run advanced_enter [OF w, of c] show ?thesis by auto
  next
    case Waiting
    with run show ?thesis
      by (auto simp: admit_step_def acquire_native_scan_def answer_failure answer_envelopes intro!: frame
          split: choice.split_asm if_split_asm)
  next
    case Admitted
    have "held env plugins (ab_runtimes st) p" if "begin_plugin_call st = Inr (p, st')" for p st'
      using that w by (auto simp: begin_plugin_call_def world_ok_def split: if_split_asm option.split_asm)
    with Admitted run show ?thesis
      by (auto simp: plugin_step_def answer_envelopes intro!: frame split: choice.split_asm sum.split_asm)
        (auto simp: begin_plugin_call_def split: if_split_asm option.split_asm)
  next
    case (Inspecting p)
    with run pc show ?thesis by (auto intro: advanced_inspect [OF w])
  next
    case (Building y sc d ix)
    with run pc a advanced_build [OF w _ n] show ?thesis by auto
  next
    case (Swapping p reg)
    with run pc a advanced_swap [OF w] show ?thesis by auto
  next
    case (Completing rid rt)
    with run pc a advanced_complete [OF w] show ?thesis by auto
  qed (use run a in \<open>auto intro!: frame written simp: answer_not_before split: if_split_asm\<close>)
qed

lemma advanced_advance:
  assumes w: "world_ok env n plugins st" and n: "n < 2 ^ 64 - 1" and pc: "pc_ok env plugins (ab_runtimes st) pc"
    and a: "call_answered env en pc" and run: "advance env ch en pc st = Some r"
  shows "advanced env n plugins en st r"
proof (cases en)
  case (Call c)
  with assms advanced_call [OF w n pc] show ?thesis by (simp add: call_answered_def advance_def)
next
  case Shutdown
  have known: "known (ab_runtimes st) (ab_runtime st)" using w by (simp add: world_ok_def)
  have frame: "advanced env n plugins Shutdown st (pc', st')"
    if "pc_ok env plugins (ab_runtimes st) pc'" "ab_runtimes st' = ab_runtimes st"
      "ab_plugin st' = ab_plugin st \<or> ab_plugin st' = None" "ab_runtime st' = ab_runtime st \<or> ab_runtime st' = None" for pc' st'
    using that by (intro advanced_frame [OF w]) (simp_all add: call_answered_def)
  show ?thesis
  proof (cases pc)
    case (Clearing rt)
    with Shutdown run pc advanced_clear [OF w] show ?thesis by (auto simp: advance_def advance_shutdown_def)
  qed (use Shutdown run pc known in \<open>auto simp: advance_def advance_shutdown_def intro!: frame split: if_split_asm\<close>)
next
  case (Init nil)
  with run show ?thesis
    by (cases nil) (auto simp: advance_def advance_init_def call_answered_def intro!: advanced_frame [OF w] split: pc.split_asm)
qed

section \<open>Every state\<close>

definition inspected_calls :: "surroundings \<Rightarrow> nat \<Rightarrow> system \<Rightarrow> bool" where
  "inspected_calls env n s \<longleftrightarrow> (\<exists>plugins. world_ok env n plugins (sy_abi s) \<and>
     (\<forall>(en, pc) \<in> set (sy_calls s). pc_ok env plugins (ab_runtimes (sy_abi s)) pc \<and> call_answered env en pc))"

lemma inspected_step:
  assumes "step env s t" "inspected_calls env n s" "n < 2 ^ 64 - 1"
  shows "inspected_calls env (Suc n) t"
proof -
  from assms(2) obtain plugins where w: "world_ok env n plugins (sy_abi s)"
    and c: "\<And>en pc. (en, pc) \<in> set (sy_calls s) \<Longrightarrow> pc_ok env plugins (ab_runtimes (sy_abi s)) pc \<and> call_answered env en pc"
    by (auto simp: inspected_calls_def)
  from assms(1) show ?thesis
  proof cases
    case (step_arrives en)
    have "call_answered env en Entered" by (cases en) (simp_all add: call_answered_def)
    with step_arrives c world_ok_mono [OF w, of "Suc n"] show ?thesis
      unfolding inspected_calls_def by (intro exI [of _ plugins]) auto
  next
    case step_moves
    then show ?thesis
    proof cases
      case (moves_call i en pc ch pc' st')
      have "(en, pc) \<in> set (sy_calls s)" using nth_mem [OF moves_call(2)] moves_call(3) by simp
      from advanced_advance [OF w assms(3) _ _ moves_call(4)] c [OF this] obtain plugins' where
        w': "world_ok env (Suc n) plugins' st'" and g: "goes_on plugins (ab_runtimes (sy_abi s)) plugins' (ab_runtimes st')"
        and pc': "pc_ok env plugins' (ab_runtimes st') pc'" "call_answered env en pc'"
        by (auto simp: advanced_def)
      have "pc_ok env plugins' (ab_runtimes st') q \<and> call_answered env e q" if "(e, q) \<in> set (sy_calls t)" for e q
      proof -
        from that moves_call(1) have "(e, q) \<in> insert (en, pc') (set (sy_calls s))"
          by (auto dest!: set_update_subset_insert [THEN subsetD])
        with pc' c pc_ok_goes_on [OF _ g] show ?thesis by blast
      qed
      with w' moves_call(1) show ?thesis unfolding inspected_calls_def by (intro exI [of _ plugins']) auto
    qed
  qed
qed

lemma inspected_reached:
  assumes "reached env n s" "n < 2 ^ 64"
  shows "inspected_calls env n s"
  using assms
proof (induction rule: reached_induct)
  case initial
  obtain pl :: plugin where "pg_sha256 pl = rf_sha256 (ae_files env)" by (metis plugin.select_convs(6))
  then show ?case
    unfolding inspected_calls_def
    by (intro exI [of _ "\<lambda>_ _. pl"]) (simp add: world_ok_def initial_system_def initial_abi_def known_def)
next
  case (step n s t)
  then show ?case by (intro inspected_step [OF step.hyps(2)]) simp_all
qed

section \<open>What leaves through the interface\<close>

text \<open>
  C2: The interface forwards only what was inspected. Whatever calls, registrations, completions,
  quiesces and shutdowns the host has made, in whatever order their steps were interleaved, clocks ran and
  panics struck: a call to intercept a request before authentication that has returned has
  written a response; and a response that does not terminate the request lets a body through
  only if a plugin that was built approved it, skips the request, or passes failures.
\<close>

theorem abi_forwards_only_inspected:
  "reached env n s \<Longrightarrow> n < 2 ^ 64 \<Longrightarrow> i < length (sy_calls s) \<Longrightarrow> sy_calls s ! i = (Call c, Returned code res) \<Longrightarrow>
   cl_method c = Some (ae_before env) \<Longrightarrow> \<not> cl_nil_response c \<Longrightarrow>
   \<exists>resp. res = Some (EnvResponse resp) \<and>
     (rp_Terminate resp \<or>
      (\<exists>p req. built env p \<and> ae_intercept env (request_bytes c) = Some req \<and>
         (\<forall>b. forwarded req resp = Some b \<longrightarrow>
            should_skip (ae_fold env) (pg_cfg (rg_plugin p)) (rq_Model req) (rq_RequestedModel req) (rq_SourceFormat req) \<or>
            pc_OnError (pg_cfg (rg_plugin p)) = onErrorPassthrough \<or>
            (\<exists>b'. rf_sha256 (ae_files env) b' = rf_sha256 (ae_files env) b \<and>
               approved (rg_plugin p) (rq_SourceFormat req) b'))))"
proof -
  assume s: "reached env n s" "n < 2 ^ 64" and i: "i < length (sy_calls s)" "sy_calls s ! i = (Call c, Returned code res)"
    and c: "cl_method c = Some (ae_before env)" "\<not> cl_nil_response c"
  from nth_mem [OF i(1)] i(2) have "(Call c, Returned code res) \<in> set (sy_calls s)" by simp
  with inspected_reached [OF s] have "answered env c (Returned code res)"
    by (auto simp: inspected_calls_def call_answered_def)
  with c obtain resp where resp: "res = Some (EnvResponse resp)" "rp_Terminate resp \<or>
      (\<exists>p req. built env p \<and> ae_intercept env (request_bytes c) = Some req \<and>
         outcome (ae_fold env) (rg_plugin p) (rf_sha256 (ae_files env)) req resp)"
    by (auto simp: answer_ok_def split: option.split_asm)
  from resp(2) show ?thesis
  proof
    assume "\<exists>p req. built env p \<and> ae_intercept env (request_bytes c) = Some req \<and>
         outcome (ae_fold env) (rg_plugin p) (rf_sha256 (ae_files env)) req resp"
    then obtain p req where p: "built env p" "ae_intercept env (request_bytes c) = Some req"
      and o: "outcome (ae_fold env) (rg_plugin p) (rf_sha256 (ae_files env)) req resp" by blast
    note outcome_forwarded [OF o]
    with resp(1) p show ?thesis by blast
  qed (use resp(1) in blast)
qed

definition answer_of :: "entry \<times> pc \<Rightarrow> (call \<times> int \<times> response) option" where
  "answer_of ep =
    (case ep of
       (Call c, Returned code (Some (EnvResponse resp))) \<Rightarrow> Some (c, code, resp)
     | _ \<Rightarrow> None)"

lemma answer_of_Some: "answer_of ep = Some (c, code, resp) \<longleftrightarrow> ep = (Call c, Returned code (Some (EnvResponse resp)))"
  by (auto simp: answer_of_def split: prod.split entry.split pc.split option.split envelope.split)

lemma sample_parsed:
  assumes "parse_config ts sample_yaml src = Inr cfg"
  shows "pc_OnError cfg = onErrorBlock \<and> pc_SkipModels cfg = [] \<and> pc_SkipFormats cfg = []"
proof (cases "trim_space src = []")
  case True
  with assms show ?thesis by (auto simp: parse_config_def default_config_def)
next
  case False
  with assms show ?thesis
    by (auto simp: parse_config_def sample_yaml_def default_config_def Let_def split: option.split_asm)
qed

lemma sample_built:
  assumes "built sample_surroundings p"
  shows "pc_OnError (pg_cfg (rg_plugin p)) = onErrorBlock"
    "\<not> should_skip uf (pg_cfg (rg_plugin p)) model [] format"
proof -
  from assms obtain src where "parse_config (ae_tools sample_surroundings) (ae_yaml sample_surroundings) src = Inr (pg_cfg (rg_plugin p))"
    unfolding built_def by (auto elim: build_parts)
  then have "parse_config sample_tools sample_yaml src = Inr (pg_cfg (rg_plugin p))" by (simp add: sample_surroundings_def)
  from sample_parsed [OF this] show "pc_OnError (pg_cfg (rg_plugin p)) = onErrorBlock"
    "\<not> should_skip uf (pg_cfg (rg_plugin p)) model [] format" by (auto simp: should_skip_def)
qed

theorem abi_forwards_only_inspected_witness:
  "\<exists>s b p. perform sample_surroundings sample_answered initial_system = Some s \<and>
     sy_calls s ! 2 = (sample_call_of ''before'' sample_sent, Returned 0 (Some (EnvResponse (empty_response\<lparr>rp_Body := Some b\<rparr>)))) \<and>
     b \<noteq> sample_sent \<and> built sample_surroundings p \<and> approved (rg_plugin p) ''gemini'' b"
proof -
  let ?r = "perform sample_surroundings sample_answered initial_system"
  let ?b = "''{\"contents\":[{\"parts\":[{\"text\":\"<addr>\"}]}]}''"
  let ?c = "\<lparr>cl_method = Some ''before'', cl_request = Some sample_sent, cl_length = length sample_sent, cl_nil_response = False\<rparr>"
  let ?resp = "empty_response\<lparr>rp_Body := Some ?b\<rparr>"
  let ?req = "\<lparr>rq_RequestID = ''r'', rq_Model = ''m'', rq_RequestedModel = [], rq_SourceFormat = ''gemini'', rq_Body = sample_sent\<rparr>"
  have "map_option (\<lambda>s. (length (sy_calls s), answer_of (sy_calls s ! 2))) ?r = Some (3, Some (?c, 0, ?resp))" by code_simp
  then obtain s where s: "?r = Some s" "2 < length (sy_calls s)"
      and i: "sy_calls s ! 2 = (Call ?c, Returned 0 (Some (EnvResponse ?resp)))"
    by (cases ?r) (auto simp: answer_of_Some)
  have n: "length sample_answered < 2 ^ 64" by code_simp
  have c: "cl_method ?c = Some (ae_before sample_surroundings)" "\<not> cl_nil_response ?c" "\<not> rp_Terminate ?resp"
    by (simp_all add: sample_surroundings_def empty_response_def)
  have bytes: "ae_intercept sample_surroundings (request_bytes ?c) = Some ?req"
    by (simp add: sample_surroundings_def request_bytes_def)
  have env: "ae_fold sample_surroundings = (\<lambda>_ _. False)" "rf_sha256 (ae_files sample_surroundings) = (\<lambda>b. b)"
    by (simp_all add: sample_surroundings_def)
  have fwd: "forwarded ?req ?resp = Some ?b" by (simp add: forwarded_def empty_response_def)
  from abi_forwards_only_inspected [OF perform_reached [OF s(1)] n s(2) i c(1,2)] c(3) bytes
  obtain p where p: "built sample_surroundings p" and b: "should_skip (\<lambda>_ _. False) (pg_cfg (rg_plugin p)) ''m'' [] ''gemini'' \<or>
      pc_OnError (pg_cfg (rg_plugin p)) = onErrorPassthrough \<or> approved (rg_plugin p) ''gemini'' ?b"
    using fwd by (auto simp: env)
  have "approved (rg_plugin p) ''gemini'' ?b" using b sample_built [OF p] by auto
  moreover have "?b \<noteq> sample_sent" by code_simp
  moreover have "sy_calls s ! 2 = (sample_call_of ''before'' sample_sent, Returned 0 (Some (EnvResponse ?resp)))"
    using i by (simp add: sample_call_of_def)
  ultimately show ?thesis using s(1) p by blast
qed

end
