(* ===== verification/Substitution_Log.thy ===== *)
theory Substitution_Log
  imports Request_Renderer
begin

text \<open>
  The substitution log (\<open>substitution_log.go\<close>) and the renderer of a request that writes to it
  (\<open>requestRenderer.Render\<close> with a log). A line stands for its JSON. What the logger has written is
  part of its state; a write that fails writes nothing and is not noticed, as in the code.
\<close>

section \<open>The logger\<close>

record substitution =
  su_Time :: int
  su_Kind :: finding_kind
  su_RuleID :: string
  su_Placeholder :: string
  su_Original :: string

text \<open>\<open>lg_file\<close> says that the descriptor is not nil.\<close>

record logger =
  lg_path :: string
  lg_file :: bool
  lg_closed :: bool
  lg_written :: "substitution list"

text \<open>\<open>opens\<close>: whether the directory and the file can be made and opened.\<close>

definition new_substitution_logger :: "(string \<Rightarrow> bool) \<Rightarrow> string \<Rightarrow> logger option" where
  "new_substitution_logger opens path =
    (if trim_space path = [] then None
     else if \<not> opens path then None
     else Some \<lparr>lg_path = path, lg_file = True, lg_closed = False, lg_written = []\<rparr>)"

definition record_substitution :: "int \<Rightarrow> bool \<Rightarrow> finding_kind \<Rightarrow> string \<Rightarrow> string \<Rightarrow> string \<Rightarrow> logger option \<Rightarrow> logger option" where
  "record_substitution now ok kind ruleID placeholder original ol =
    (case ol of
       None \<Rightarrow> None
     | Some l \<Rightarrow>
         let line = \<lparr>su_Time = now, su_Kind = kind, su_RuleID = ruleID, su_Placeholder = placeholder, su_Original = original\<rparr> in
         if lg_closed l \<or> \<not> lg_file l then Some l
         else Some (if ok then l\<lparr>lg_written := lg_written l @ [line]\<rparr> else l))"

definition close_log :: "logger option \<Rightarrow> logger option" where
  "close_log ol = map_option (\<lambda>l. l\<lparr>lg_closed := True, lg_file := False\<rparr>) ol"

section \<open>Rendering with a log\<close>

definition render_logged :: "(string \<Rightarrow> string) \<Rightarrow> unit renderer \<Rightarrow> int \<Rightarrow> bool \<Rightarrow> ctx option \<Rightarrow> finding \<Rightarrow> string \<Rightarrow>
    nat \<times> request_renderer \<Rightarrow> logger option \<Rightarrow> ((engine_error + string) \<times> nat \<times> request_renderer) \<times> logger option" where
  "render_logged sha base now ok co f plaintext s lg =
    (let r = snd s; key = render_key sha (f_Kind f) plaintext in
     case rr_seen r key of
       Some replacement \<Rightarrow> ((Inr replacement, s), lg)
     | None \<Rightarrow>
         (case base co f plaintext (fst s, ()) of
            (Inl e, (p, _)) \<Rightarrow> ((Inl e, (p, r)), lg)
          | (Inr b, (p, _)) \<Rightarrow>
              let n = rr_next r (f_Kind f) + 1; replacement = numbered_placeholder b n in
              ((Inr replacement,
                (p, r\<lparr>rr_next := (rr_next r)(f_Kind f := n), rr_seen := (rr_seen r)(key \<mapsto> replacement),
                      rr_produced := insert (sha replacement) (rr_produced r)\<rparr>)),
               record_substitution now ok (f_Kind f) (f_RuleID f) replacement plaintext lg)))"

lemma render_logged_result: "fst (render_logged sha base now ok co f plaintext s lg) = render_request sha base co f plaintext s"
  by (auto simp: render_logged_def render_request_def Let_def split: option.split sum.split prod.split)

lemma render_logged_seen:
  "rr_seen (snd s) (render_key sha (f_Kind f) plaintext) = Some x \<Longrightarrow>
   snd (render_logged sha base now ok co f plaintext s lg) = lg"
  by (simp add: render_logged_def Let_def)

lemma render_logged_fresh:
  "rr_seen (snd s) (render_key sha (f_Kind f) plaintext) = None \<Longrightarrow>
   fst (fst (render_logged sha base now ok co f plaintext s lg)) = Inr x \<Longrightarrow>
   snd (render_logged sha base now ok co f plaintext s lg) =
     record_substitution now ok (f_Kind f) (f_RuleID f) x plaintext lg"
  by (auto simp: render_logged_def Let_def split: sum.split prod.split)

lemma render_logged_failed:
  "fst (fst (render_logged sha base now ok co f plaintext s lg)) = Inl e \<Longrightarrow>
   snd (render_logged sha base now ok co f plaintext s lg) = lg"
  by (auto simp: render_logged_def Let_def split: option.split_asm sum.split_asm prod.split_asm)

section \<open>A logger over time\<close>

text \<open>What requests and a reconfiguration do with a logger, in the order the lock gives them.\<close>

datatype log_event = LogRecord int bool finding_kind string string string | LogClose

fun log_run :: "log_event list \<Rightarrow> logger option \<Rightarrow> logger option" where
  "log_run [] ol = ol"
| "log_run (LogRecord now ok k rid x p # evs) ol = log_run evs (record_substitution now ok k rid x p ol)"
| "log_run (LogClose # evs) ol = log_run evs (close_log ol)"

fun before_close :: "log_event list \<Rightarrow> substitution list" where
  "before_close [] = []"
| "before_close (LogClose # evs) = []"
| "before_close (LogRecord now ok k rid x p # evs) =
    (if ok then [\<lparr>su_Time = now, su_Kind = k, su_RuleID = rid, su_Placeholder = x, su_Original = p\<rparr>] else []) @ before_close evs"

lemma log_run_closed: "lg_closed l \<Longrightarrow> \<exists>l'. log_run evs (Some l) = Some l' \<and> lg_written l' = lg_written l \<and> lg_closed l'"
proof (induction evs arbitrary: l)
  case (Cons ev evs)
  show ?case
  proof (cases ev)
    case (LogRecord now ok k rid x p)
    with Cons show ?thesis by (simp add: record_substitution_def Let_def)
  next
    case LogClose
    with Cons.IH [of "l\<lparr>lg_closed := True, lg_file := False\<rparr>"] show ?thesis by (simp add: close_log_def)
  qed
qed simp

lemma log_run_open:
  "\<not> lg_closed l \<Longrightarrow> lg_file l \<Longrightarrow>
   \<exists>l'. log_run evs (Some l) = Some l' \<and> lg_written l' = lg_written l @ before_close evs \<and>
     (lg_closed l' \<longleftrightarrow> LogClose \<in> set evs)"
proof (induction evs arbitrary: l)
  case (Cons ev evs)
  show ?case
  proof (cases ev)
    case (LogRecord now ok k rid x p)
    let ?l = "the (record_substitution now ok k rid x p (Some l))"
    have l: "record_substitution now ok k rid x p (Some l) = Some ?l" "\<not> lg_closed ?l" "lg_file ?l"
      using Cons.prems by (simp_all add: record_substitution_def Let_def)
    have "lg_written ?l = lg_written l @
        (if ok then [\<lparr>su_Time = now, su_Kind = k, su_RuleID = rid, su_Placeholder = x, su_Original = p\<rparr>] else [])"
      using Cons.prems by (simp add: record_substitution_def Let_def)
    with Cons.IH [OF l(2,3)] l(1) LogRecord show ?thesis by auto
  next
    case LogClose
    with log_run_closed [of "l\<lparr>lg_closed := True, lg_file := False\<rparr>" evs] show ?thesis by (auto simp: close_log_def)
  qed
qed simp

text \<open>
  Close is final for the log. Whatever requests record, before, during and after a reconfiguration that
  closes the log: the file holds exactly the lines recorded before the close, in their order, those
  apart whose write failed, and a late record changes nothing.
\<close>

theorem log_closes_for_good:
  "new_substitution_logger opens path = Some l \<Longrightarrow>
   \<exists>l'. log_run evs (Some l) = Some l' \<and> lg_written l' = before_close evs \<and> (lg_closed l' \<longleftrightarrow> LogClose \<in> set evs)"
proof -
  assume "new_substitution_logger opens path = Some l"
  then have "\<not> lg_closed l" "lg_file l" "lg_written l = []" by (auto simp: new_substitution_logger_def split: if_split_asm)
  with log_run_open [of l evs] show ?thesis by simp
qed

theorem log_closes_for_good_witness:
  "map_option lg_written (log_run [LogRecord 1 True KindSecret ''r'' ''[SECRET]'' ''ab'', LogClose,
     LogRecord 2 True KindSecret ''r'' ''[SECRET#2]'' ''cd''] (new_substitution_logger (\<lambda>_. True) ''log'')) =
   Some [\<lparr>su_Time = 1, su_Kind = KindSecret, su_RuleID = ''r'', su_Placeholder = ''[SECRET]'', su_Original = ''ab''\<rparr>]"
proof -
  let ?evs = "[LogRecord 1 True KindSecret ''r'' ''[SECRET]'' ''ab'', LogClose, LogRecord 2 True KindSecret ''r'' ''[SECRET#2]'' ''cd'']"
  have l: "new_substitution_logger (\<lambda>_. True) ''log'' = Some \<lparr>lg_path = ''log'', lg_file = True, lg_closed = False, lg_written = []\<rparr>"
    by code_simp
  from log_closes_for_good [OF l, of ?evs] show ?thesis unfolding l by fastforce
qed

section \<open>What the log says\<close>

text \<open>
  \<open>logged sha ph L r lines\<close>: as \<open>rendered\<close>, with a log that is open and whose writes succeed;
  \<open>lines\<close> is what the calls have written.
\<close>

inductive logged :: "(string \<Rightarrow> string) \<Rightarrow> (finding_kind \<rightharpoonup> string) \<Rightarrow> (finding_kind \<times> string \<times> string) list \<Rightarrow>
    request_renderer \<Rightarrow> logger \<Rightarrow> logger \<Rightarrow> bool"
  for sha ph where
  logged_new: "\<not> lg_closed l \<Longrightarrow> lg_file l \<Longrightarrow> logged sha ph [] new_request_renderer l l"
| logged_call: "logged sha ph L r l0 l \<Longrightarrow>
    render_logged sha (placeholder_base ph) now True co f plaintext (n, r) (Some l) = ((Inr x, (n', r')), Some l') \<Longrightarrow>
    logged sha ph (L @ [(f_Kind f, plaintext, x)]) r' l0 l'"
| logged_failed: "logged sha ph L r l0 l \<Longrightarrow>
    render_logged sha (placeholder_base ph) now True co f plaintext (n, r) (Some l) = ((Inl e, (n', r')), Some l') \<Longrightarrow>
    logged sha ph L r' l0 l'"

text \<open>Without a log the same requests give the same placeholders.\<close>

lemma logged_rendered: "logged sha ph L r l0 l \<Longrightarrow> rendered sha ph L r"
proof (induction rule: logged.induct)
  case (logged_call L r l0 l now co f plaintext n x n' r' l')
  from logged_call.hyps(2) have "render_request sha (placeholder_base ph) co f plaintext (n, r) = (Inr x, (n', r'))"
    by (metis render_logged_result fst_conv)
  with logged_call.IH show ?case by (rule rendered_call)
next
  case (logged_failed L r l0 l now co f plaintext n e n' r' l')
  from logged_failed.hyps(2) have "render_request sha (placeholder_base ph) co f plaintext (n, r) = (Inl e, (n', r'))"
    by (metis render_logged_result fst_conv)
  with logged_failed.IH show ?case by (rule rendered_failed)
qed (rule rendered_new)

abbreviation triple :: "substitution \<Rightarrow> finding_kind \<times> string \<times> string" where
  "triple su \<equiv> (su_Kind su, su_Original su, su_Placeholder su)"

definition log_ok :: "(string \<Rightarrow> string) \<Rightarrow> (finding_kind \<times> string \<times> string) list \<Rightarrow> request_renderer \<Rightarrow>
    substitution list \<Rightarrow> bool" where
  "log_ok sha L r lines \<longleftrightarrow> triple ` set lines = set L \<and> distinct (map (\<lambda>su. (su_Kind su, su_Original su)) lines) \<and>
     (\<forall>(k, p, x) \<in> set L. rr_seen r (render_key sha k p) = Some x)"

lemma logged_ok:
  "logged sha ph L r l0 l \<Longrightarrow> keys_distinct sha L \<Longrightarrow>
   \<not> lg_closed l \<and> lg_file l \<and> (\<exists>lines. lg_written l = lg_written l0 @ lines \<and> log_ok sha L r lines)"
proof (induction rule: logged.induct)
  case (logged_new l)
  then show ?case by (simp add: log_ok_def)
next
  case (logged_call L r l0 l now co f plaintext n x n' r' l')
  let ?key = "render_key sha (f_Kind f) plaintext"
  from logged_call.IH keys_distinct_snoc [OF logged_call.prems] obtain lines where
    o: "\<not> lg_closed l" "lg_file l" and w: "lg_written l = lg_written l0 @ lines" and ok: "log_ok sha L r lines" by blast
  have run: "render_request sha (placeholder_base ph) co f plaintext (n, r) = (Inr x, (n', r'))"
    using logged_call.hyps(2) by (metis render_logged_result fst_conv)
  from run show ?case
  proof (cases rule: render_request_Inr)
    case seen
    with render_logged_seen [of "(n, r)" sha f plaintext x "placeholder_base ph" now True co "Some l"] logged_call.hyps(2)
    have "l' = l" by simp
    moreover have "(f_Kind f, plaintext, x) \<in> set L"
    proof -
      from rendered_ok [OF logged_rendered [OF logged_call.hyps(1)] keys_distinct_snoc [OF logged_call.prems]]
      obtain idx where "render_ok sha ph L r idx" by blast
      from render_ok_seen [OF this seen(1)] obtain k p where kp: "(k, p, x) \<in> set L" "?key = render_key sha k p" by blast
      then have "f_Kind f = k \<and> plaintext = p"
        using keys_distinctD [OF logged_call.prems, of "f_Kind f" plaintext x k p x] by simp
      with kp(1) show ?thesis by simp
    qed
    ultimately show ?thesis using o w ok seen(2) unfolding log_ok_def by (auto simp: insert_absorb)
  next
    case (fresh b)
    let ?line = "\<lparr>su_Time = now, su_Kind = f_Kind f, su_RuleID = f_RuleID f, su_Placeholder = x, su_Original = plaintext\<rparr>"
    from render_logged_fresh [of "(n, r)" sha f plaintext "placeholder_base ph" now True co "Some l" x] fresh(1) logged_call.hyps(2) o
    have l': "l' = l\<lparr>lg_written := lg_written l @ [?line]\<rparr>" by (simp add: record_substitution_def Let_def)
    have new: "(f_Kind f, plaintext, y) \<notin> set L" for y using ok fresh(1) unfolding log_ok_def by fastforce
    have "(f_Kind f, plaintext) \<notin> set (map (\<lambda>su. (su_Kind su, su_Original su)) lines)"
    proof
      assume "(f_Kind f, plaintext) \<in> set (map (\<lambda>su. (su_Kind su, su_Original su)) lines)"
      then obtain su where "su \<in> set lines" "f_Kind f = su_Kind su" "plaintext = su_Original su" by auto
      then have "(f_Kind f, plaintext, su_Placeholder su) \<in> triple ` set lines" by auto
      with ok new show False by (simp add: log_ok_def)
    qed
    moreover have "rr_seen r' (render_key sha k p) = Some y" if m: "(k, p, y) \<in> set L" for k p y
    proof -
      have "rr_seen r (render_key sha k p) = Some y" using ok m unfolding log_ok_def by fast
      with fresh(1,4) show ?thesis by auto
    qed
    ultimately have "log_ok sha (L @ [(f_Kind f, plaintext, x)]) r' (lines @ [?line])"
      using ok fresh(4) unfolding log_ok_def by (auto simp: image_Un)
    with o w l' show ?thesis by auto
  qed
next
  case (logged_failed L r l0 l now co f plaintext n e n' r' l')
  from render_logged_failed [of sha "placeholder_base ph" now True co f plaintext "(n, r)" "Some l" e] logged_failed.hyps(2)
  have "l' = l" by simp
  moreover have "r' = r" using logged_failed.hyps(2) render_logged_result render_request_Inl by (metis fst_conv)
  ultimately show ?case using logged_failed by simp
qed


text \<open>Two secrets, with the digest replaced by the identity.\<close>

definition sample_logger :: logger where
  "sample_logger = \<lparr>lg_path = ''log'', lg_file = True, lg_closed = False, lg_written = []\<rparr>"

definition sample_logged :: "string \<Rightarrow> request_renderer \<times> logger \<Rightarrow>
    ((engine_error + string) \<times> nat \<times> request_renderer) \<times> logger option" where
  "sample_logged p s = render_logged (\<lambda>s. s) (placeholder_base (new_placeholder_renderer Map.empty)) 1 True
     (Some never) (sample_finding KindSecret) p (0, fst s) (Some (snd s))"

definition after_logged :: "string \<Rightarrow> request_renderer \<times> logger \<Rightarrow> request_renderer \<times> logger" where
  "after_logged p s = (case sample_logged p s of (x, l) \<Rightarrow> (snd (snd x), the l))"

abbreviation sample_log1 :: "request_renderer \<times> logger" where
  "sample_log1 \<equiv> after_logged ''ab'' (new_request_renderer, sample_logger)"

abbreviation sample_log2 :: "request_renderer \<times> logger" where
  "sample_log2 \<equiv> after_logged ''cd'' sample_log1"

lemma sample_logged_step:
  assumes "logged (\<lambda>s. s) (new_placeholder_renderer Map.empty) L (fst s) l0 (snd s)"
    "fst (fst (sample_logged p s)) = Inr x" "snd (sample_logged p s) \<noteq> None"
  shows "logged (\<lambda>s. s) (new_placeholder_renderer Map.empty) (L @ [(KindSecret, p, x)]) (fst (after_logged p s)) l0 (snd (after_logged p s))"
proof -
  obtain n r l where "sample_logged p s = ((Inr x, (n, r)), Some l)"
    using assms(2,3) by (cases "sample_logged p s") (auto simp: prod_eq_iff)
  with logged_call [OF assms(1), of 1 "Some never" "sample_finding KindSecret" p 0 x n r l] show ?thesis
    by (simp add: after_logged_def sample_logged_def sample_finding_def)
qed


end
