(* ===== verification/Entropy.thy ===== *)
theory Entropy
  imports Complex_Main Utf8
begin

text \<open>
  The entropy of a string as \<open>secrets.go\<close> and \<open>ml_assist.go\<close> compute it, over any field and with the
  logarithm as a parameter: floating point is not modelled, and the order of the summands, which is
  that of the iteration over the counts, does not matter in a field. With the real logarithm the
  entropy of a string is at most that of the uniform distribution on what occurs in it.
\<close>

section \<open>The sum\<close>

definition entropy_of :: "('a :: field_char_0 \<Rightarrow> 'a) \<Rightarrow> nat \<Rightarrow> nat list \<Rightarrow> 'a" where
  "entropy_of lg n counts =
     fold (\<lambda>v ent. let p = of_nat v / of_nat n in ent - p * lg p) counts 0"

text \<open>\<open>shannonEntropy\<close>: a table of 256 frequencies.\<close>

definition frequencies :: "string \<Rightarrow> nat list" where
  "frequencies val = map (\<lambda>b. count_list (map byte_of val) b) [0..<256]"

definition shannon_entropy :: "('a :: field_char_0 \<Rightarrow> 'a) \<Rightarrow> string \<Rightarrow> 'a" where
  "shannon_entropy lg val =
    (if val = [] then 0 else entropy_of lg (length val) (filter (\<lambda>v. v \<noteq> 0) (frequencies val)))"

text \<open>The counts of a map over the elements of a list, in any order.\<close>

definition counts_of :: "'b list \<Rightarrow> nat list" where
  "counts_of xs = map (count_list xs) (remdups xs)"

section \<open>Bounds\<close>

lemma fold_minus: "fold (\<lambda>v ent. ent - f v) vs (e :: 'a :: field_char_0) = e - sum_list (map f vs)"
  by (induction vs arbitrary: e) (simp_all add: algebra_simps)

lemma entropy_of_sum:
  "entropy_of lg n counts = - sum_list (map (\<lambda>v. of_nat v / of_nat n * lg (of_nat v / of_nat n)) counts)"
  by (simp add: entropy_of_def Let_def fold_minus)

text \<open>Gibbs' inequality against the uniform distribution.\<close>

lemma gibbs:
  fixes p k :: real
  assumes p: "0 < p" and k: "0 < k"
  shows "- (p * log 2 p) \<le> p * log 2 k + (1 / k - p) / ln 2"
proof -
  have "ln (1 / (k * p)) \<le> 1 / (k * p) - 1" using p k by (intro ln_le_minus_one) simp
  then have "- ln p \<le> ln k + (1 / (k * p) - 1)" using p k by (simp add: ln_div ln_mult)
  then have "p * (- ln p) \<le> p * (ln k + (1 / (k * p) - 1))" using p by (intro mult_left_mono) simp_all
  also have "\<dots> = p * ln k + (1 / k - p)" using p k by (simp add: field_simps)
  finally have "p * (- ln p) / ln 2 \<le> (p * ln k + (1 / k - p)) / ln 2" by (intro divide_right_mono) simp_all
  then show ?thesis by (simp add: log_def add_divide_distrib)
qed

lemma entropy_term_nonneg:
  assumes "0 < v" "v \<le> n"
  shows "0 \<le> - (real v / real n * log 2 (real v / real n))"
proof -
  have p: "0 < real v / real n" "real v / real n \<le> 1" using assms by simp_all
  then have "log 2 (real v / real n) \<le> 0" by (subst log_le_zero_cancel_iff) simp_all
  then have "real v / real n * log 2 (real v / real n) \<le> 0" using p(1) by (intro mult_nonneg_nonpos) simp_all
  then show ?thesis by linarith
qed

lemma entropy_of_bounds:
  assumes "\<forall>v \<in> set counts. 0 < v" "sum_list counts = n" "counts \<noteq> []"
  shows "0 \<le> entropy_of (log 2) n counts" "entropy_of (log 2) n counts \<le> log 2 (real (length counts))"
proof -
  let ?p = "\<lambda>v. real v / real n" and ?k = "length counts"
  let ?f = "\<lambda>v. - (?p v * log 2 (?p v))"
  have le: "v \<le> n" if "v \<in> set counts" for v using member_le_sum_list [OF that] assms(2) by simp
  have e: "entropy_of (log 2) n counts = sum_list (map ?f counts)"
    by (simp add: entropy_of_sum uminus_sum_list_map o_def)
  have t: "?f v \<le> ?p v * log 2 (real ?k) + (1 / real ?k - ?p v) / ln 2" "0 \<le> ?f v" if "v \<in> set counts" for v
    using gibbs [of "?p v" "real ?k"] entropy_term_nonneg [of v n] assms(1,3) le [OF that] that by force+
  show "0 \<le> entropy_of (log 2) n counts" unfolding e using t(2) by (auto intro!: sum_list_nonneg)
  have pos: "0 < n" using assms by (cases counts) auto
  have one: "sum_list (map ?p counts) = 1"
  proof -
    have "sum_list (map real counts) = real (sum_list counts)" by (induction counts) simp_all
    then have "sum_list (map real counts) = real n" using assms(2) by simp
    moreover have "sum_list (map ?p xs) = sum_list (map real xs) / real n" for xs
      by (induction xs) (simp_all add: add_divide_distrib)
    ultimately show ?thesis using pos by simp
  qed
  have "sum_list (map ?f counts) \<le> sum_list (map (\<lambda>v. ?p v * log 2 (real ?k) + (1 / real ?k - ?p v) / ln 2) counts)"
    using t(1) by (rule sum_list_mono)
  also have "\<dots> = sum_list (map ?p counts) * log 2 (real ?k) + (real ?k * (1 / real ?k) - sum_list (map ?p counts)) / ln 2"
    by (simp add: sum_list_addf sum_list_mult_const divide_inverse sum_list_subtractf sum_list_triv algebra_simps)
  also have "\<dots> = log 2 (real ?k)" using one assms(3) by simp
  finally show "entropy_of (log 2) n counts \<le> log 2 (real ?k)" unfolding e .
qed

section \<open>The counts\<close>

lemma count_list_pos: "0 < count_list xs x \<longleftrightarrow> x \<in> set xs"
  by (induction xs) auto

lemma sum_frequencies: "sum_list (filter (\<lambda>v. v \<noteq> 0) (frequencies val)) = length val"
proof -
  have "sum_list (filter (\<lambda>v. v \<noteq> 0) xs) = sum_list xs" for xs :: "nat list" by (induction xs) auto
  then have "sum_list (filter (\<lambda>v. v \<noteq> 0) (frequencies val)) = (\<Sum>b\<in>{0..<256}. count_list (map byte_of val) b)"
    by (simp add: frequencies_def sum_list_distinct_conv_sum_set)
  also have "\<dots> = length val" by (subst sum_count_set) auto
  finally show ?thesis .
qed

lemma length_frequencies: "length (filter (\<lambda>v. v \<noteq> 0) (frequencies val)) = card (set val)"
proof -
  have "filter (\<lambda>v. v \<noteq> 0) (frequencies val) =
      map (count_list (map byte_of val)) (filter (\<lambda>b. b \<in> byte_of ` set val) [0..<256])"
    by (auto simp: frequencies_def filter_map o_def count_list_pos intro!: arg_cong [where f = "map f" for f] filter_cong)
  then have "length (filter (\<lambda>v. v \<noteq> 0) (frequencies val)) = card (set (filter (\<lambda>b. b \<in> byte_of ` set val) [0..<256]))"
    by (simp add: distinct_card del: set_filter)
  also have "set (filter (\<lambda>b. b \<in> byte_of ` set val) [0..<256]) = byte_of ` set val" by auto
  also have "card (byte_of ` set val) = card (set val)" by (intro card_image inj_onI) (simp add: of_char_eq_iff)
  finally show ?thesis .
qed

lemma counts_of_facts:
  "\<forall>v \<in> set (counts_of xs). 0 < v" "sum_list (counts_of xs) = length xs" "length (counts_of xs) = card (set xs)"
proof -
  show "\<forall>v \<in> set (counts_of xs). 0 < v" by (simp add: counts_of_def count_list_pos)
  have "sum_list (counts_of xs) = (\<Sum>x\<in>set xs. count_list xs x)"
    by (simp add: counts_of_def sum_list_distinct_conv_sum_set)
  then show "sum_list (counts_of xs) = length xs" by (simp add: sum_count_set)
  show "length (counts_of xs) = card (set xs)" by (simp add: counts_of_def length_remdups_card_conv)
qed



end
