(* ===== verification/Ml_Assist.thy ===== *)
theory Ml_Assist
  imports Interceptor Entropy
begin

text \<open>
  The second opinion (\<open>ml_assist.go\<close>): 17 features of a text and the score a logistic regression gives
  it. Floating point is read as rational arithmetic, with the logarithm and the exponential as
  parameters (\<open>lg\<close>, \<open>ex\<close>) and \<open>json.Unmarshal\<close> of the embedded model as its result. The entropy of a
  token is the sum over the counts of its runes in any order.
\<close>

section \<open>The model\<close>

record ml_model =
  mm_Keys :: "string list"
  mm_Mean :: "rat list"
  mm_Scale :: "rat list"
  mm_Coef :: "rat list"
  mm_Intercept :: rat
  mm_Threshold :: rat

datatype ml_error = MlInvalidModel | MlInconsistentDimensions | MlZeroScale | MlIndexPanic

definition load_ml_model :: "ml_model option \<Rightarrow> ml_error + ml_model" where
  "load_ml_model decoded =
    (case decoded of
       None \<Rightarrow> Inl MlInvalidModel
     | Some m \<Rightarrow>
         if length (mm_Keys m) = 0 \<or> length (mm_Keys m) \<noteq> length (mm_Mean m) \<or> length (mm_Keys m) \<noteq> length (mm_Scale m) \<or>
            length (mm_Keys m) \<noteq> length (mm_Coef m) then Inl MlInconsistentDimensions
         else if list_ex (\<lambda>s. s = 0) (mm_Scale m) then Inl MlZeroScale
         else Inr m)"

section \<open>Patterns\<close>

definition ml_re_email :: regex where
  "ml_re_email = rcats [rplus (rset (alnum @ chars ''._%+-'')), rlit ''@'', rplus (rset (alnum @ chars ''.-'')), rlit ''.'',
     rmin 2 (rset letters)]"

definition ml_re_phone :: regex where
  "ml_re_phone = rcats [rlit ''1'', rset [range_of CHR ''3'' CHR ''9''], rrep 9 rdigit]"

definition ml_re_id_cn :: regex where
  "ml_re_id_cn = rcats [rset [range_of CHR ''1'' CHR ''9''], rrep 5 rdigit, ralts [rlit ''19'', rlit ''20''], rrep 2 rdigit,
     ralts [rcats [rlit ''0'', rset [range_of CHR ''1'' CHR ''9'']], rcats [rlit ''1'', rset [range_of CHR ''0'' CHR ''2'']]],
     ralts [rcats [rlit ''0'', rset [range_of CHR ''1'' CHR ''9'']], rcats [rset (chars ''12''), rdigit],
       rcats [rlit ''3'', rset (chars ''01'')]],
     rrep 3 rdigit, rset (range_of CHR ''0'' CHR ''9'' # chars ''Xx'')]"

definition ml_re_ipv4 :: regex where
  "ml_re_ipv4 = rcats [rrep 3 (rcats [rbetween 1 3 rdigit, rlit ''.'']), rbetween 1 3 rdigit]"

definition ml_re_akia :: regex where
  "ml_re_akia = rcats [rlit ''AKIA'', rrep 16 (rset [range_of CHR ''0'' CHR ''9'', range_of CHR ''A'' CHR ''Z''])]"

definition ml_re_gh :: regex where
  "ml_re_gh = rcats [rlit ''gh'', rset (chars ''pousr''), rlit ''_'', rmin 20 (rset alnum)]"

definition ml_re_slack :: regex where
  "ml_re_slack = rcats [rlit ''xox'', rset (chars ''bap''), rlit ''-'', rmin 10 (rset (alnum @ chars ''-''))]"

definition ml_re_stripe :: regex where
  "ml_re_stripe = rcats [rlit ''sk_live_'', rmin 8 (rset alnum)]"

definition ml_re_cred_field :: regex where
  "ml_re_cred_field = rcats
     [ralts (rcats [rword ''api'', ROpt (rset (chars ''_-'')), rword ''key''] #
        map rword [''secret'', ''password'', ''passwd'', ''pwd'', ''token'', ''bearer'']),
      ROpt (rset quote_chars), rspaces, rset (chars '':=''), rspaces, ROpt (rset quote_chars),
      rmin 6 (rclass_fold (alnum @ chars ''-_!@#$%^&*.''))]"

definition ml_re_token :: regex where
  "ml_re_token = rmin 8 (rset (alnum @ chars ''_-+/=''))"

definition ml_re_mask_only :: regex where
  "ml_re_mask_only = ralts [rlit ''10.0.0.0/8'', rcats [rlit ''/8'', rspaces, rrunes [0x5F85, 0x5B9A]]]"

definition ml_re_name_only :: regex where
  "ml_re_name_only = rcats [ralts [rlit ''api_key_name'', rlit ''token_id''], rspaces, rlit ''='']"

definition ml_match :: "regex \<Rightarrow> string \<Rightarrow> bool" where
  "ml_match r s \<longleftrightarrow> find_from r s 0 \<noteq> None"

text \<open>\<open>FindAllStringIndex\<close>: successive matches; an empty one next to the previous match is dropped.\<close>

lemma find_from_end: "find_from r s i = Some (a, b, caps) \<Longrightarrow> i \<le> length s \<Longrightarrow> i \<le> a \<and> a \<le> b \<and> b \<le> length s"
proof -
  assume f: "find_from r s i = Some (a, b, caps)" "i \<le> length s"
  have "i \<le> k" if "from_start s i k" for k
    using that by (induction rule: from_start.induct) auto
  with find_from_Some [OF f] rmatch_bounds show ?thesis by blast
qed

function all_matches :: "regex \<Rightarrow> string \<Rightarrow> nat \<Rightarrow> int \<Rightarrow> (nat \<times> nat) list" where
  "all_matches r s pos prev =
    (if length s < pos then []
     else
       (case find_from r s pos of
          None \<Rightarrow> []
        | Some (a, b, _) \<Rightarrow>
            if b = pos then
              (if int a = prev then [] else [(a, b)]) @ all_matches r s (pos + max 1 (snd (rune_at s pos))) (int b)
            else (a, b) # all_matches r s b (int b)))"
  by pat_completeness auto
termination
  by (relation "measure (\<lambda>(r, s, pos, prev). Suc (length s) - pos)") (auto dest: find_from_end)

declare all_matches.simps [simp del]

definition find_all_index :: "regex \<Rightarrow> string \<Rightarrow> (nat \<times> nat) list" where
  "find_all_index r s = all_matches r s 0 (-1)"

section \<open>Features\<close>

definition ascii_digit :: "char \<Rightarrow> bool" where
  "ascii_digit c \<longleftrightarrow> 48 \<le> byte_of c \<and> byte_of c \<le> 57"

definition ml_digit_bounded :: "string \<Rightarrow> nat \<Rightarrow> nat \<Rightarrow> bool" where
  "ml_digit_bounded s start stop \<longleftrightarrow>
     \<not> (0 < start \<and> ascii_digit (s ! (start - 1))) \<and> \<not> (stop < length s \<and> ascii_digit (s ! stop))"

definition ml_has_bounded :: "regex \<Rightarrow> string \<Rightarrow> bool" where
  "ml_has_bounded r s = list_ex (\<lambda>(a, b). ml_digit_bounded s a b) (find_all_index r s)"

definition ml_entropy :: "(rat \<Rightarrow> rat) \<Rightarrow> string \<Rightarrow> rat" where
  "ml_entropy lg s = (if s = [] then 0 else entropy_of lg (length (runes s)) (counts_of (runes s)))"

definition ml_is_upper :: "nat \<Rightarrow> bool" where "ml_is_upper r \<longleftrightarrow> 65 \<le> r \<and> r \<le> 90"
definition ml_is_lower :: "nat \<Rightarrow> bool" where "ml_is_lower r \<longleftrightarrow> 97 \<le> r \<and> r \<le> 122"
definition ml_is_digit :: "nat \<Rightarrow> bool" where "ml_is_digit r \<longleftrightarrow> 48 \<le> r \<and> r \<le> 57"

record ml_tokens =
  mt_nMixed :: nat
  mt_maxEnt :: rat
  mt_nHighEnt :: nat
  mt_maxRun :: nat

text \<open>The constant 4.2 as the \<open>float64\<close> it is.\<close>

definition ml_high_entropy :: rat where
  "ml_high_entropy = 4728779608739021 / 1125899906842624"

definition ml_token :: "(rat \<Rightarrow> rat) \<Rightarrow> string \<Rightarrow> ml_tokens \<Rightarrow> ml_tokens" where
  "ml_token lg w t =
    (let rs = runes w; n = length rs; ent = ml_entropy lg w;
         up = length (filter ml_is_upper rs);
         low = length (filter ml_is_lower rs);
         dig = length (filter ml_is_digit rs)
     in \<lparr>mt_nMixed = mt_nMixed t + of_bool (12 \<le> n \<and> 2 \<le> up \<and> 2 \<le> dig \<and> 2 \<le> low),
         mt_maxEnt = (if mt_maxEnt t < ent then ent else mt_maxEnt t),
         mt_nHighEnt = mt_nHighEnt t + of_bool (12 \<le> n \<and> ml_high_entropy < ent),
         mt_maxRun = (if mt_maxRun t < n then n else mt_maxRun t)\<rparr>)"

definition ml_token_stats :: "(rat \<Rightarrow> rat) \<Rightarrow> string \<Rightarrow> ml_tokens" where
  "ml_token_stats lg text =
     fold (\<lambda>(a, b). ml_token lg (slice text a b)) (find_all_index ml_re_token text)
       \<lparr>mt_nMixed = 0, mt_maxEnt = 0, mt_nHighEnt = 0, mt_maxRun = 0\<rparr>"

definition utf8_of :: "nat list \<Rightarrow> string" where
  "utf8_of rs = concat (map encode_rune rs)"

definition ml_allowed :: "tools \<Rightarrow> string \<Rightarrow> bool" where
  "ml_allowed ts text \<longleftrightarrow>
    (let lowered = to_lower ts text in
     contains lowered ''example'' \<or> contains lowered ''placeholder'' \<or> contains lowered ''xxx'' \<or>
     contains lowered ''test-please-replace'' \<or> contains text (utf8_of [0x81EA, 0x884C, 0x7533, 0x8BF7]) \<or>
     contains text (utf8_of [0x901A, 0x8BAF, 0x5F55]) \<or> contains lowered ''do not use'')"

definition ml_features :: "tools \<Rightarrow> (rat \<Rightarrow> rat) \<Rightarrow> string \<Rightarrow> rat list" where
  "ml_features ts lg text =
    (let cred = ml_match ml_re_cred_field text; t = ml_token_stats lg text in
     [of_bool (ml_match ml_re_email text),
      of_bool (ml_has_bounded ml_re_phone text),
      of_bool (ml_has_bounded ml_re_id_cn text),
      of_bool (ml_has_bounded ml_re_ipv4 text),
      of_bool (ml_match ml_re_akia text),
      of_bool (ml_match ml_re_gh text),
      of_bool (contains text ''PRIVATE KEY''),
      of_bool (ml_match ml_re_slack text),
      of_bool (ml_match ml_re_stripe text),
      of_bool cred,
      of_nat (mt_nMixed t),
      mt_maxEnt t,
      of_nat (mt_nHighEnt t),
      of_nat (mt_maxRun t),
      of_bool (ml_allowed ts text),
      of_bool (ml_match ml_re_mask_only text),
      of_bool (ml_match ml_re_name_only text \<and> \<not> cred)])"

section \<open>Score\<close>

text \<open>The loop over the features; an index past the end of the model's lists panics.\<close>

fun score_loop :: "rat list \<Rightarrow> rat list \<Rightarrow> rat list \<Rightarrow> rat list \<Rightarrow> rat \<Rightarrow> ml_error + rat" where
  "score_loop [] _ _ _ z = Inr z"
| "score_loop (v # vs) (m # ms) (s # ss) (c # cs) z = score_loop vs ms ss cs (z + (v - m) / s * c)"
| "score_loop _ _ _ _ z = Inl MlIndexPanic"

definition ml_score :: "tools \<Rightarrow> (rat \<Rightarrow> rat) \<Rightarrow> (rat \<Rightarrow> rat) \<Rightarrow> ml_model option \<Rightarrow> string \<Rightarrow> ml_error + rat" where
  "ml_score ts lg ex decoded text =
    (case load_ml_model decoded of
       Inl e \<Rightarrow> Inl e
     | Inr m \<Rightarrow>
         (case score_loop (ml_features ts lg text) (mm_Mean m) (mm_Scale m) (mm_Coef m) (mm_Intercept m) of
            Inl e \<Rightarrow> Inl e
          | Inr z \<Rightarrow> Inr (1 / (1 + ex (- z)))))"

section \<open>What the patterns find\<close>

definition occurs :: "regex \<Rightarrow> string \<Rightarrow> nat \<Rightarrow> nat \<Rightarrow> bool" where
  "occurs r s a b \<longleftrightarrow> from_start s 0 a \<and> rmatch s r a b"

lemma ml_match_iff: "ml_match r s \<longleftrightarrow> (\<exists>a b. occurs r s a b)"
proof -
  have "\<exists>a b. occurs r s a b" if "ml_match r s"
    using that find_from_Some [of r s 0] by (auto simp: ml_match_def occurs_def) blast
  moreover have "ml_match r s" if "occurs r s a b" for a b
    using that find_from_None [of r s 0 a b] by (cases "find_from r s 0") (auto simp: ml_match_def occurs_def)
  ultimately show ?thesis by blast
qed

lemma all_matches_sound: "(a, b) \<in> set (all_matches r s pos prev) \<Longrightarrow> rmatch s r a b \<and> a \<le> b \<and> b \<le> length s"
proof (induction r s pos prev rule: all_matches.induct)
  case (1 r s pos prev)
  show ?case
  proof (cases "length s < pos \<or> find_from r s pos = None")
    case True
    then have "all_matches r s pos prev = []" by (auto simp: all_matches.simps [of r s pos prev])
    with "1.prems" show ?thesis by simp
  next
    case False
    then obtain x y caps where f: "find_from r s pos = Some (x, y, caps)" and pos: "\<not> length s < pos" by auto
    have xy: "rmatch s r x y \<and> x \<le> y \<and> y \<le> length s" using find_from_Some [OF f] find_from_end [OF f] pos by simp
    note IH = "1.IH" [OF pos f refl refl]
    show ?thesis
    proof (cases "y = pos")
      case True
      with "1.prems" pos f have "(a, b) = (x, y) \<or> (a, b) \<in> set (all_matches r s (pos + max 1 (snd (rune_at s pos))) (int y))"
        by (auto simp: all_matches.simps [of r s pos prev] split: if_split_asm)
      with IH(1) [OF True] xy show ?thesis by auto
    next
      case y: False
      with "1.prems" pos f have "(a, b) = (x, y) \<or> (a, b) \<in> set (all_matches r s y (int y))"
        by (auto simp: all_matches.simps [of r s pos prev])
      with IH(2) [OF y] xy show ?thesis by auto
    qed
  qed
qed

lemma ml_has_bounded_sound: "ml_has_bounded r s \<Longrightarrow> \<exists>a b. rmatch s r a b \<and> ml_digit_bounded s a b"
  using all_matches_sound by (fastforce simp: ml_has_bounded_def find_all_index_def list_ex_iff)

section \<open>What the features say\<close>

text \<open>The statistics of the tokens, as an invariant of the loop over them.\<close>

definition stats_ok :: "nat \<Rightarrow> ml_tokens \<Rightarrow> bool" where
  "stats_ok k t \<longleftrightarrow> mt_nMixed t \<le> k \<and> mt_nHighEnt t \<le> k \<and> 0 \<le> mt_maxEnt t \<and>
     (0 < mt_nMixed t \<longrightarrow> 12 \<le> mt_maxRun t) \<and> (0 < mt_nHighEnt t \<longrightarrow> 12 \<le> mt_maxRun t \<and> ml_high_entropy < mt_maxEnt t)"

lemma ml_token_ok: "stats_ok k t \<Longrightarrow> stats_ok (Suc k) (ml_token lg w t)"
  by (auto simp: stats_ok_def ml_token_def Let_def)

lemma ml_token_stats_ok: "stats_ok (length (find_all_index ml_re_token text)) (ml_token_stats lg text)"
proof -
  have "stats_ok (k + length xs) (fold (\<lambda>(a, b). ml_token lg (slice text a b)) xs t)" if "stats_ok k t" for k xs t
    using that
  proof (induction xs arbitrary: k t)
    case (Cons x xs)
    obtain a b where x: "x = (a, b)" by (rule prod.exhaust)
    from Cons.IH [OF ml_token_ok [OF Cons.prems]] show ?case by (simp add: x)
  qed simp
  from this [of 0] show ?thesis by (simp add: ml_token_stats_def stats_ok_def)
qed



lemma score_loop_total:
  "length vs \<le> length ms \<Longrightarrow> length vs \<le> length ss \<Longrightarrow> length vs \<le> length cs \<Longrightarrow> \<exists>z'. score_loop vs ms ss cs z = Inr z'"
proof (induction vs arbitrary: ms ss cs z)
  case (Cons v vs)
  then show ?case by (cases ms; cases ss; cases cs) auto
qed simp

lemma score_loop_short:
  "length ms < length vs \<Longrightarrow> length ss = length ms \<Longrightarrow> length cs = length ms \<Longrightarrow> score_loop vs ms ss cs z = Inl MlIndexPanic"
proof (induction vs arbitrary: ms ss cs z)
  case (Cons v vs)
  then show ?case by (cases ms; cases ss; cases cs) auto
qed simp


definition sample_model :: ml_model where
  "sample_model = \<lparr>mm_Keys = replicate 17 ''k'', mm_Mean = replicate 17 0, mm_Scale = replicate 17 1,
     mm_Coef = replicate 17 2, mm_Intercept = -1, mm_Threshold = 1 / 2\<rparr>"


end
