(* ===== verification/Cache_Stats.thy ===== *)
theory Cache_Stats
  imports Request_Cache
begin

text \<open>
  The counters of the cache (\<open>RequestScanCacheStats\<close> and \<open>Stats\<close> of \<open>request_cache.go\<close>) and the two laws
  they keep. They are 64-bit counters, so the laws hold after a wrap-around as well.
\<close>

record cache_stats =
  st_Entries :: nat
  st_MaxEntries :: int
  st_TTL :: int
  st_Acquires :: "64 word"
  st_Created :: "64 word"
  st_Reused :: "64 word"
  st_ContextResets :: "64 word"
  st_Ephemeral :: "64 word"
  st_SeenHits :: "64 word"
  st_SeenMisses :: "64 word"
  st_Records :: "64 word"
  st_Completions :: "64 word"
  st_Expirations :: "64 word"
  st_Evictions :: "64 word"

definition Stats :: "'r cache option \<Rightarrow> cache_stats" where
  "Stats oc =
    (case oc of
       None \<Rightarrow> \<lparr>st_Entries = 0, st_MaxEntries = 0, st_TTL = 0, st_Acquires = 0, st_Created = 0, st_Reused = 0,
           st_ContextResets = 0, st_Ephemeral = 0, st_SeenHits = 0, st_SeenMisses = 0, st_Records = 0,
           st_Completions = 0, st_Expirations = 0, st_Evictions = 0\<rparr>
     | Some c \<Rightarrow> let m = cc_metrics c in
         \<lparr>st_Entries = length (cc_entries c), st_MaxEntries = cc_max c, st_TTL = cc_ttl c,
          st_Acquires = m_acquires m, st_Created = m_created m, st_Reused = m_reused m,
          st_ContextResets = m_contextResets m, st_Ephemeral = m_ephemeral m, st_SeenHits = m_seenHits m,
          st_SeenMisses = m_seenMisses m, st_Records = m_records m, st_Completions = m_completions m,
          st_Expirations = m_expirations m, st_Evictions = m_evictions m\<rparr>)"

section \<open>The balances\<close>

text \<open>
  \<open>asked\<close>: what \<open>Acquire\<close> was asked and did not answer. \<open>kept\<close>: the entries that were made and not
  taken out for a reason that is counted, less those there are.
\<close>

definition asked :: "metrics \<Rightarrow> 64 word" where
  "asked m = m_acquires m - m_created m - m_reused m - m_ephemeral m"

definition kept :: "metrics \<Rightarrow> nat \<Rightarrow> 64 word" where
  "kept m n = m_created m - m_completions m - m_expirations m - m_evictions m - m_contextResets m - of_nat n"

abbreviation asked_of :: "'r cache \<Rightarrow> 64 word" where
  "asked_of c \<equiv> asked (cc_metrics c)"

abbreviation kept_of :: "'r cache \<Rightarrow> 64 word" where
  "kept_of c \<equiv> kept (cc_metrics c) (length (cc_lru c))"

lemma remove_metrics [simp]: "cc_metrics (remove_locked a c) = cc_metrics c"
  by (simp add: remove_locked_def Let_def)

lemma count_metrics [simp]: "cc_metrics (count_metric f c) = f (cc_metrics c)"
  by (simp add: count_metric_def)

lemma kept_Suc: "kept m (Suc n) = kept m n - 1"
  by (simp add: kept_def algebra_simps)

lemma remove_length: "linked c \<Longrightarrow> a \<in> set (cc_lru c) \<Longrightarrow> length (cc_lru c) = Suc (length (cc_lru (remove_locked a c)))"
  by (simp add: remove_locked_lru length_remove1) (metis Suc_pred length_pos_if_in_set)

lemma prune_metrics: "prune_loop now as c = (n, c') \<Longrightarrow> cc_metrics c' = cc_metrics c"
proof (induction now as c arbitrary: n rule: prune_loop.induct)
  case (2 now a as c)
  then show ?case by (auto split: if_split_asm prod.split_asm)
qed simp

lemma prune_kept:
  assumes "linked c" "prune_and_count now c = (n, c')"
  shows "asked_of c' = asked_of c" "kept_of c' = kept_of c"
proof -
  obtain m c1 where p: "prune_loop now (rev (cc_lru c)) c = (m, c1)" by (rule prod.exhaust)
  with assms(2) have c': "n = m" "c' = (if 0 < n then count_metric (\<lambda>m. m\<lparr>m_expirations := m_expirations m + of_nat n\<rparr>) c1 else c1)"
    by (auto simp: prune_and_count_def prune_expired_locked_def)
  have "length (cc_lru c) = m + length (cc_lru c1)"
    using prune_loop_abs [OF assms(1) refl p] by (simp add: lru_view_def)
  with c' prune_metrics [OF p] show "asked_of c' = asked_of c" "kept_of c' = kept_of c"
    by (auto simp: asked_def kept_def algebra_simps)
qed

lemma evict_kept:
  "linked c \<Longrightarrow> rev (cc_lru c) = as \<Longrightarrow> asked_of (evict_loop as c) = asked_of c \<and> kept_of (evict_loop as c) = kept_of c"
proof (induction as arbitrary: c)
  case (Cons a as)
  note rb = remove_back [OF Cons.prems]
  let ?c = "count_metric (\<lambda>m. m\<lparr>m_evictions := m_evictions m + 1\<rparr>) (remove_locked a c)"
  have "a \<in> set (cc_lru c)" using Cons.prems(2) by (metis list.set_intros(1) set_rev)
  then have "kept_of ?c = kept_of c" "asked_of ?c = asked_of c"
    by (simp_all add: remove_length [OF Cons.prems(1)] kept_Suc) (simp_all add: kept_def asked_def algebra_simps)
  with Cons.IH [of ?c] rb show ?case by simp
qed simp

lemma insert_kept:
  assumes "linked c" "rid \<noteq> []" "map_of (cc_entries c) rid = None" "insert_new rid cx now c = (s, c')"
  shows "asked_of c' = asked_of c - 1" "kept_of c' = kept_of c"
proof -
  let ?c1 = "count_metric (\<lambda>m. m\<lparr>m_created := m_created m + 1\<rparr>)
    (push_front rid (length (cc_states c)) now (snd (alloc_state cx c)))"
  have c': "c' = evict_loop (rev (cc_lru ?c1)) ?c1"
    using assms(4) by (auto simp add: insert_new_def alloc_state_def Let_def)
  have "linked ?c1" using push_front_linked(1) [OF assms(1-3)] by simp
  from evict_kept [OF this refl] have "asked_of c' = asked_of ?c1" "kept_of c' = kept_of ?c1" by (simp_all add: c')
  then show "asked_of c' = asked_of c - 1" "kept_of c' = kept_of c"
    by (simp_all add: push_front_def alloc_state_def Let_def kept_Suc) (simp_all add: asked_def kept_def algebra_simps)
qed

lemma remove_insert_kept:
  assumes l: "linked c" and rid: "rid \<noteq> []" and a: "map_of (cc_entries c) rid = Some a"
    and f: "\<And>m n. kept (f m) n = kept m n - 1" "\<And>m. asked (f m) = asked m"
    and i: "insert_new rid cx now (count_metric f (remove_locked a c)) = (s, c')"
  shows "asked_of c' = asked_of c - 1" "kept_of c' = kept_of c"
proof -
  let ?c = "count_metric f (remove_locked a c)"
  note rm = remove_locked_lookup [OF l a]
  have "linked ?c" "map_of (cc_entries ?c) rid = None" using rm by simp_all
  from insert_kept [OF this(1) rid this(2) i] linked_map_ofD(1) [OF l a]
  show "asked_of c' = asked_of c - 1" "kept_of c' = kept_of c"
    by (simp_all add: f remove_length [OF l] kept_Suc)
qed

lemma acquire_kept:
  assumes l: "linked c" and rid: "rid \<noteq> []" and r: "acquire_locked rid cx now c = (s, c')"
  shows "asked_of c' = asked_of c - 1" "kept_of c' = kept_of c"
proof -
  obtain n c1 where p: "prune_and_count now c = (n, c1)" by (rule prod.exhaust)
  have l1: "linked c1" using prune_and_count_abs [OF l p] by simp
  note pk = prune_kept [OF l p]
  have "asked_of c' = asked_of c1 - 1 \<and> kept_of c' = kept_of c1"
  proof (cases "map_of (cc_entries c1) rid")
    case None
    with r p have "insert_new rid cx now c1 = (s, c')" by (simp add: acquire_locked_def)
    from insert_kept [OF l1 rid None this] show ?thesis by simp
  next
    case (Some a)
    let ?e = "cc_heap c1 ! a"
    note a = linked_map_ofD(1) [OF l1 Some]
    consider "entry_expired (cc_ttl c1) ?e now"
      | "\<not> entry_expired (cc_ttl c1) ?e now" "ss_context (cc_states c1 ! ce_state ?e) = cx"
      | "\<not> entry_expired (cc_ttl c1) ?e now" "ss_context (cc_states c1 ! ce_state ?e) \<noteq> cx" by blast
    then show ?thesis
    proof cases
      case 1
      with r p Some have "insert_new rid cx now
          (count_metric (\<lambda>m. m\<lparr>m_expirations := m_expirations m + 1\<rparr>) (remove_locked a c1)) = (s, c')"
        by (simp add: acquire_locked_def)
      from remove_insert_kept [OF l1 rid Some _ _ this] show ?thesis by (simp add: kept_def asked_def)
    next
      case 2
      with r p Some have "c' = count_metric (\<lambda>m. m\<lparr>m_reused := m_reused m + 1\<rparr>) (move_to_front a now c1)"
        by (simp add: acquire_locked_def)
      moreover have "length (a # remove1 a (cc_lru c1)) = length (cc_lru c1)"
        using a by (simp add: length_remove1) (metis Suc_pred length_pos_if_in_set)
      ultimately show ?thesis by (simp add: move_to_front_def asked_def kept_def algebra_simps)
    next
      case 3
      with r p Some have "insert_new rid cx now
          (count_metric (\<lambda>m. m\<lparr>m_contextResets := m_contextResets m + 1\<rparr>) (remove_locked a c1)) = (s, c')"
        by (simp add: acquire_locked_def)
      from remove_insert_kept [OF l1 rid Some _ _ this] show ?thesis by (simp add: kept_def asked_def)
    qed
  qed
  with pk show "asked_of c' = asked_of c - 1" "kept_of c' = kept_of c" by simp_all
qed

lemma exec_op_kept:
  assumes ok: "cache_ok c" and op: "OpClear \<noteq> op"
  shows "asked_of (exec_op sha op c) = asked_of c \<and> kept_of (exec_op sha op c) = kept_of c"
proof -
  have l: "linked c" using ok by (simp add: cache_ok_def)
  show ?thesis
  proof (cases op)
    case (OpAcquire rid cx now)
    obtain s c' where r: "Acquire rid cx now c = (s, c')" by (rule prod.exhaust)
    let ?c = "count_metric (\<lambda>m. m\<lparr>m_acquires := m_acquires m + 1\<rparr>) c"
    have c: "asked_of ?c = asked_of c + 1" "kept_of ?c = kept_of c" by (simp_all add: asked_def kept_def)
    show ?thesis
    proof (cases "rid = [] \<or> cc_max c \<le> 0")
      case True
      with r have "c' = snd (alloc_state cx (count_metric (\<lambda>m. m\<lparr>m_ephemeral := m_ephemeral m + 1\<rparr>) ?c))"
        by (auto simp: Acquire_def Let_def)
      with OpAcquire r c show ?thesis by (simp add: alloc_state_def) (simp add: asked_def kept_def)
    next
      case False
      with r have "acquire_locked rid cx now ?c = (s, c')" by (simp add: Acquire_def Let_def)
      moreover from False have "rid \<noteq> []" by simp
      ultimately show ?thesis using acquire_kept [of ?c rid cx now s c'] l OpAcquire r c by simp
    qed
  next
    case (OpComplete rid)
    show ?thesis
    proof (cases "rid = [] \<or> map_of (cc_entries c) rid = None")
      case True
      with OpComplete show ?thesis by (auto simp: Complete_def)
    next
      case False
      then obtain a where a: "rid \<noteq> []" "map_of (cc_entries c) rid = Some a" by auto
      from linked_map_ofD(1) [OF l a(2)] a OpComplete show ?thesis
        by (simp add: Complete_def remove_length [OF l] kept_Suc) (simp add: kept_def asked_def algebra_simps)
    qed
  next
    case (OpPrune now)
    with prune_kept [OF l] show ?thesis by (cases "prune_and_count now c") (simp add: Prune_def)
  next
    case OpClear
    with op show ?thesis by simp
  next
    case (OpGetOrCreate s factory)
    then show ?thesis
      by (cases factory) (simp_all add: GetOrCreateRendererState_def StoreRendererState_def update_state_def Let_def)
  qed (simp_all add: Seen_def Record_def StoreRendererState_def update_state_def Let_def asked_def kept_def)
qed

section \<open>The laws\<close>

text \<open>
  C27: The counters add up. After any calls but \<open>Clear\<close>, every \<open>Acquire\<close> is counted once more, as created, reused or
  ephemeral; and every entry that was created is still there or was taken out for exactly one of four
  reasons: completion, expiry, eviction, or a request that came back under another context.
\<close>

theorem stats_add_up:
  "OpClear \<notin> set ops \<Longrightarrow> st = Stats (Some (exec_ops sha ops (new_request_scan_cache ttl cap))) \<Longrightarrow>
   st_Acquires st = st_Created st + st_Reused st + st_Ephemeral st \<and>
   st_Created st = of_nat (st_Entries st) + st_Completions st + st_Expirations st + st_Evictions st + st_ContextResets st \<and>
   int (st_Entries st) \<le> st_MaxEntries st"
proof -
  assume ops: "OpClear \<notin> set ops" and st: "st = Stats (Some (exec_ops sha ops (new_request_scan_cache ttl cap)))"
  let ?new = "new_request_scan_cache ttl cap"
  have "asked_of (exec_ops sha ops c) = asked_of c \<and> kept_of (exec_ops sha ops c) = kept_of c" if "cache_ok c" for c
    using that ops by (induction ops arbitrary: c) (simp_all add: exec_op_kept exec_op_ok)
  from this [OF new_cache_ok] have b: "asked_of (exec_ops sha ops ?new) = 0" "kept_of (exec_ops sha ops ?new) = 0"
    by (simp_all add: new_request_scan_cache_def zero_metrics_def asked_def kept_def)
  have ok: "cache_ok (exec_ops sha ops ?new)" by (rule exec_ops_ok [OF new_cache_ok])
  then have n: "length (cc_entries (exec_ops sha ops ?new)) = length (cc_lru (exec_ops sha ops ?new))"
    by (simp add: cache_ok_def linked_length)
  from b(1) have "st_Acquires st = st_Created st + st_Reused st + st_Ephemeral st"
    by (simp add: st Stats_def Let_def asked_def algebra_simps)
  moreover from b(2) n have "st_Created st =
      of_nat (st_Entries st) + st_Completions st + st_Expirations st + st_Evictions st + st_ContextResets st"
    by (simp add: st Stats_def Let_def kept_def algebra_simps)
  moreover from ok have "int (st_Entries st) \<le> st_MaxEntries st" by (simp add: st Stats_def Let_def cache_ok_def)
  ultimately show ?thesis by blast
qed

theorem stats_add_up_witness:
  "let st = Stats (Some (exec_ops (\<lambda>b. b) [OpAcquire ''a'' empty_sx 0, OpAcquire ''b'' empty_sx 1, OpAcquire ''a'' empty_sx 2,
       OpComplete ''b'', OpAcquire [] empty_sx 3] (new_request_scan_cache 10 1 :: nat cache)))
   in st_Acquires st = st_Created st + st_Reused st + st_Ephemeral st \<and> st_Created st = 3 \<and> st_Evictions st = 2 \<and> st_Entries st = 1"
proof -
  let ?ops = "[OpAcquire ''a'' empty_sx 0, OpAcquire ''b'' empty_sx 1, OpAcquire ''a'' empty_sx 2, OpComplete ''b'',
    OpAcquire [] empty_sx 3] :: nat cache_op list"
  let ?st = "Stats (Some (exec_ops (\<lambda>b. b) ?ops (new_request_scan_cache 10 1)))"
  have "OpClear \<notin> set ?ops" by simp
  from stats_add_up [OF this refl, of "\<lambda>b. b" 10 1] have "st_Acquires ?st = st_Created ?st + st_Reused ?st + st_Ephemeral ?st" by blast
  moreover have "st_Created ?st = 3" "st_Evictions ?st = 2" "st_Entries ?st = 1" by code_simp+
  ultimately show ?thesis unfolding Let_def by blast
qed

end
