(* ===== verification/Spec2Isabelle.thy ===== *)
theory Spec2Isabelle
  imports Scanner_Invariants Document Replace Loader Walk_Properties Redactor_Properties Interceptor_Properties
    Abi_Properties Abi_Sound Substitution_Log Ml_Assist Cache_Stats
begin

text \<open>
  A model of the privacy filter plugin for CLIProxyAPI (Go) and the theorems that make it correct.

  The plugin sits in front of a proxy for language models. A request is JSON in one of five
  protocols. It is scanned once (package \<open>payload\<close>), the walker of its protocol selects the strings
  that hold user or tool data (package \<open>walker\<close>), a detection engine finds secrets and personal data
  in them (package \<open>internal/privacyengine\<close>), and the selected strings are rewritten in place, every
  other byte of the body being kept. A cache lets the retries of one request share what was found, and
  the interceptor decides what the host gets: the new body, the old one, or a rejection.

  Theories and code.

    \<^item> \<open>Prelude\<close>: bytes and slices, the error and state monad all components use, partial-correctness
      rules (\<open>valid\<close>, \<open>keeps\<close>, \<open>fails_only\<close>), contexts that may be cancelled at any poll, capacities.
    \<^item> \<open>Payload_Types\<close>, \<open>Document\<close>, \<open>Key_Names\<close>: the types of \<open>payload/payload.go\<close>, the documents and
      their accessors, tokens handed out and handed back, key contexts.
    \<^item> \<open>Utf8\<close>, \<open>Json_String\<close>, \<open>Path_Arena\<close>, \<open>Scanner\<close>: \<open>payload/jsonscan.go\<close>, the recursive descent with
      its lexers, its path arena and its accounting of retained bytes, by fuel. \<open>Scanner_Lex\<close>,
      \<open>Scanner_Grammar\<close>, \<open>Scanner_Sound\<close>, \<open>Scanner_Invariants\<close> show that the fuel (twice the length of the
      body and two) suffices, that what is accepted is JSON, and that the index is well formed.
    \<^item> \<open>Replace\<close>: \<open>Document.Replace\<close>, refined from the specification \<open>rewrite\<close>.
    \<^item> \<open>Budget\<close>, \<open>Spans\<close>, \<open>Regex\<close>, \<open>Detect_Pii\<close>, \<open>Detect_Secrets\<close>, \<open>Rules\<close>, \<open>Engine\<close>, \<open>Loader\<close>: the
      detection engine. \<open>Spans\<close> is the collector of findings, \<open>Rules\<close> and \<open>Loader\<close> load and merge rule
      files, \<open>Engine\<close> is \<open>Detect\<close> and \<open>Redact\<close>.
    \<^item> \<open>Request_Cache\<close>: \<open>request_cache.go\<close>, the state of a request shared by its steps, as a heap of
      entries, a map and a list, refined from an abstract least-recently-used list. \<open>Cache_Stats\<close> has its
      counters and the balances they keep.
    \<^item> \<open>Walk_Types\<close>, \<open>Tree\<close>: \<open>walker/types.go\<close> and \<open>walker/tree.go\<close>, the second parser with the token
      stream of \<open>encoding/json\<close>. \<open>Tree_Sound\<close> shows that its fuel suffices and that its string nodes are
      those of the index.
    \<^item> \<open>Collector\<close>: \<open>walker/common.go\<close>, the state of a walk and every operation on it.
    \<^item> \<open>Walk_Contract\<close>: the locale \<open>walk_contract\<close> of what walkers may rely on and must keep;
      \<open>Walk_Invariant\<close> interprets it twice, with the invariant of the collector and with its growth.
    \<^item> \<open>Walk_OpenAI\<close>, \<open>Walk_Claude\<close>, \<open>Walk_Gemini\<close>, \<open>Walk_Interactions\<close>, \<open>Responses_Config\<close> and
      \<open>Walk_Responses\<close>: the five protocol walkers, one definition per function, each proved safe once
      under the contract.
    \<^item> \<open>Registry\<close>: \<open>walker/registry.go\<close> with \<open>Walk\<close>; \<open>Walk_Sound\<close> composes scanner, tree parser, collector and
      walkers; \<open>Walk_Properties\<close> states what a caller of \<open>Walk\<close> gets.
    \<^item> \<open>Config\<close>: \<open>config.go\<close>, the configuration with its validation, the skip lists, the choice of rule files
      and the check of the pinned rules.
    \<^item> \<open>Request_Renderer\<close>: the placeholders of one request, numbered per kind; \<open>rendered sha ph L r\<close> says that
      the renderer got into the state \<open>r\<close> by the calls logged in \<open>L\<close>.
    \<^item> \<open>Substitution_Log\<close>: \<open>substitution_log.go\<close>, the logger and \<open>Render\<close> with a log. The log does not change what is
      rendered (\<open>render_logged_result\<close>), so the redactor is modelled without it; the lines written by a request
      give the plaintexts of its placeholders back.
    \<^item> \<open>Entropy\<close>, \<open>Ml_Assist\<close>: \<open>shannonEntropy\<close> and \<open>ml_assist.go\<close>, the features of a text and its score, over any
      field and over the rationals, with logarithm and exponential as parameters.
    \<^item> \<open>Redact_Call\<close>, \<open>Redactor\<close>: \<open>redactor.go\<close>, one request from the walk to the splice, with documents found
      inside strings (five levels, so the recursion is on the levels left). \<open>Redactor_Sound\<close> shows that each
      layer keeps the budgets and the log of the renderer, and that what comes out is \<open>inspected\<close>, by the same
      recursion; \<open>Redactor_Properties\<close> states what a caller gets.
    \<^item> \<open>Interceptor\<close>: \<open>interceptor.go\<close>, \<open>reject.go\<close>, \<open>lifecycle.go\<close>, one request of the host against the cache, the
      classes of failures, rejections and what is logged of them. \<open>Interceptor_Properties\<close> has the relation
      \<open>reachable\<close> of the states a cache can get into by requests of any plugin revision, completions, sweeps
      and shutdown, and shows that a body found in it was inspected.
    \<^item> \<open>Lifecycle\<close>: \<open>main.go\<close> and the sequential parts of \<open>abi.go\<close>, a plugin built from a configuration, the
      runtime that outlives it, the schema agreed on, the envelopes of answers and failures.
    \<^item> \<open>Abi\<close>: \<open>abi.go\<close>, the entry points of the native library as a system of concurrent calls. A call is at a
      control point (\<open>pc\<close>) and \<open>advance\<close> takes it to its next access of the shared state: the critical
      sections of the lock, the two wait groups, the slots, the cache. \<open>step\<close> lets a call arrive or any call
      move, with any outcome of a \<open>select\<close>, the clock, the contexts and panics (\<open>choice\<close>); \<open>perform\<close> runs a given
      schedule. \<open>Abi_Properties\<close> counts the calls inside, and shows that a quiesce is final and that every
      call returns. \<open>Abi_Sound\<close> carries the soundness of the caches through every step, so that what a call
      answers is an outcome of the interceptor.

  Conventions. A Go \<open>int\<close> is an \<open>int\<close> with the bound \<open>max_int\<close> where the code checks for overflow, an
  offset or a length a \<open>nat\<close>, a byte a \<open>char\<close>, a Go string its list of bytes. A pointer or interface that
  may be nil is an option. An error is a value of a sum, and a computation that polls a context counts
  its polls, so a context is any function from polls to errors. A loop or recursion over input is
  structural, has a measure, or has fuel, and then a theorem says that the fuel given is enough: no
  error \<open>OutOfFuel\<close> or \<open>TreeFuel\<close> ever comes out of \<open>Scan\<close> or \<open>Walk\<close>. The recursive Gemini,
  Interactions and Responses walkers take the size of the root as fuel.

  Parameters. The TOML and YAML decoders, \<open>regexp.Compile\<close>, the file system, SHA-256, the entropy of a
  string and the score of the second opinion (floating point, read as a rational), Unicode case mapping
  and folding, \<open>json.Unmarshal\<close> at the types of the host's SDK and the names of its methods are arguments
  of the definitions that use them, the last ones as the record \<open>surroundings\<close>. The walk of a request and
  its inspection number their polls separately. The calls of one request on its renderer and its
  cache state are sequential, as the lock of the renderer makes them; a request is one step of the
  cache, and of the native interface. A revision is a 64-bit counter, so the theorem on the native
  interface is about fewer than 2^64 steps.

  Not modelled. The memory shared with the host, its table of functions and log lines (\<open>abi.go\<close>) are foreign
  code, like the dynamic loader. Floating point is read as rational (or real) arithmetic, so rounding is not
  modelled; the detectors and the plugin take the entropy and the score as parameters. The embedded rules
  and weights are data of the build. The harness and the release script under \<open>scripts\<close> and \<open>.github\<close> only
  drive a host binary and pack files. The texts of errors (and \<open>Path.String\<close>, which only they use) are not
  modelled, but for the fields that describe a failure.
\<close>

end
